(* ===== verification/Prelude.thy ===== *)
theory Prelude
  imports Main "HOL-Library.Word" "HOL-Library.Monad_Syntax"
begin

text \<open>
  Shared vocabulary of the development: machine integers, C arrays with checked
  access, byte order, and the collections of rewrite rules the component
  theories extend.

  A C computation that touches memory returns \<open>'a option\<close>, where
  \<open>None\<close> means that the code has left defined behaviour: a NULL pointer was
  dereferenced or an access fell outside its object. A theorem that such a
  computation is \<open>Some\<close> is therefore a memory-safety theorem. The failures the
  code itself reports (return values such as \<open>-1\<close>) are ordinary values inside
  the \<open>Some\<close>.

  The byte order is that of the little-endian machines the daemons run on:
  \<open>htons\<close> and \<open>ntohs\<close> swap the two bytes.
\<close>

unbundle bit_operations_syntax

type_synonym u8 = "8 word"
type_synonym u16 = "16 word"
type_synonym u32 = "32 word"
type_synonym byte_buf = "u8 list"

named_theorems mem_simps \<open>checked reads and writes of arrays\<close>
named_theorems rd_intros \<open>conditions under which an operation stays in bounds\<close>

section \<open>Arrays with checked access\<close>

definition arr_get :: "'a list \<Rightarrow> nat \<Rightarrow> 'a option" where
  "arr_get xs i = (if i < length xs then Some (xs ! i) else None)"

definition arr_upd :: "'a list \<Rightarrow> nat \<Rightarrow> ('a \<Rightarrow> 'a) \<Rightarrow> 'a list option" where
  "arr_upd xs i f = (if i < length xs then Some (xs[i := f (xs ! i)]) else None)"

text \<open>\<open>rd_bytes\<close> and \<open>wr_bytes\<close> are \<open>memcpy\<close> out of and into an array.\<close>

definition rd_bytes :: "'a list \<Rightarrow> nat \<Rightarrow> nat \<Rightarrow> 'a list option" where
  "rd_bytes buf i n = (if i + n \<le> length buf then Some (take n (drop i buf)) else None)"

definition wr_bytes :: "'a list \<Rightarrow> nat \<Rightarrow> 'a list \<Rightarrow> 'a list option" where
  "wr_bytes buf i bs =
     (if i + length bs \<le> length buf
      then Some (take i buf @ bs @ drop (i + length bs) buf) else None)"

lemma arr_get_Some [mem_simps]: "i < length xs \<Longrightarrow> arr_get xs i = Some (xs ! i)"
  by (simp add: arr_get_def)

lemma arr_get_eq_Some_iff: "arr_get xs i = Some x \<longleftrightarrow> i < length xs \<and> x = xs ! i"
  by (auto simp: arr_get_def)

lemma arr_upd_Some [mem_simps]: "i < length xs \<Longrightarrow> arr_upd xs i f = Some (xs[i := f (xs ! i)])"
  by (simp add: arr_upd_def)

lemma rd_bytes_Some [mem_simps]: "i + n \<le> length buf \<Longrightarrow> rd_bytes buf i n = Some (take n (drop i buf))"
  by (simp add: rd_bytes_def)

lemma wr_bytes_Some [mem_simps]:
  "i + length bs \<le> length buf \<Longrightarrow>
   wr_bytes buf i bs = Some (take i buf @ bs @ drop (i + length bs) buf)"
  by (simp add: wr_bytes_def)

lemma wr_bytes_length: "wr_bytes buf i bs = Some buf' \<Longrightarrow> length buf' = length buf"
  by (auto simp: wr_bytes_def split: if_splits)

lemma rd_bytes_length: "rd_bytes buf i n = Some bs \<Longrightarrow> length bs = n"
  by (auto simp: rd_bytes_def split: if_splits)

lemma wr_bytes_nth:
  "wr_bytes buf i bs = Some buf' \<Longrightarrow> k < length buf \<Longrightarrow>
   buf' ! k = (if i \<le> k \<and> k < i + length bs then bs ! (k - i) else buf ! k)"
  by (auto simp: wr_bytes_def nth_append split: if_splits)

lemma take_append_exact: "length xs = n \<Longrightarrow> take n (xs @ ys) = xs"
  by simp

lemma drop_append_exact: "length xs = n \<Longrightarrow> drop n (xs @ ys) = ys"
  by simp

text \<open>Reading back what was written, and reading what a write left alone.\<close>

lemma rd_wr_same:
  "wr_bytes buf i bs = Some buf' \<Longrightarrow> rd_bytes buf' i (length bs) = Some bs"
  by (auto simp: wr_bytes_def rd_bytes_def split: if_splits)

lemma rd_wr_before:
  assumes "wr_bytes buf i bs = Some buf'" and "j + n \<le> i"
  shows "rd_bytes buf' j n = rd_bytes buf j n"
proof -
  from assms have l: "i + length bs \<le> length buf" "length buf' = length buf"
    and b: "buf' = take i buf @ bs @ drop (i + length bs) buf"
    by (auto simp: wr_bytes_def split: if_splits)
  have i: "length (take i buf) = i" using l by simp
  have "take n (drop j (take i buf @ ys)) = take n (drop j buf)" for ys
    using assms(2) i by (simp add: drop_take min_absorb1)
  with b l show ?thesis by (simp only: rd_bytes_def)
qed

section \<open>Byte order\<close>

definition lo8 :: "u16 \<Rightarrow> u8" where "lo8 w = ucast w"
definition hi8 :: "u16 \<Rightarrow> u8" where "hi8 w = ucast (drop_bit 8 w)"

text \<open>\<open>(hi << 8) + lo\<close>, the way the code assembles a 16-bit value from two bytes.\<close>

definition join16 :: "u8 \<Rightarrow> u8 \<Rightarrow> u16" where
  "join16 h l = push_bit 8 (ucast h) OR ucast l"

definition htons :: "u16 \<Rightarrow> u16" where "htons w = join16 (lo8 w) (hi8 w)"
definition ntohs :: "u16 \<Rightarrow> u16" where "ntohs w = join16 (lo8 w) (hi8 w)"

definition le16_bytes :: "u16 \<Rightarrow> byte_buf" where "le16_bytes w = [lo8 w, hi8 w]"
definition be16_bytes :: "u16 \<Rightarrow> byte_buf" where "be16_bytes w = [hi8 w, lo8 w]"

lemma hi8_join16 [simp]: "hi8 (join16 h l) = h"
  by (rule bit_word_eqI) (auto simp: hi8_def join16_def bit_simps dest: bit_imp_le_length)

lemma lo8_join16 [simp]: "lo8 (join16 h l) = l"
  by (rule bit_word_eqI) (auto simp: lo8_def join16_def bit_simps)

lemma join16_hi8_lo8 [simp]: "join16 (hi8 w) (lo8 w) = w"
  by (rule bit_word_eqI) (auto simp: hi8_def lo8_def join16_def bit_simps)

lemma ntohs_htons [simp]: "ntohs (htons w) = w"
  by (simp add: ntohs_def htons_def)

lemma htons_ntohs [simp]: "htons (ntohs w) = w"
  by (simp add: ntohs_def htons_def)

lemma lo8_htons [simp]: "lo8 (htons w) = hi8 w" by (simp add: htons_def)
lemma hi8_htons [simp]: "hi8 (htons w) = lo8 w" by (simp add: htons_def)

lemma htons_inj [simp]: "htons a = htons b \<longleftrightarrow> a = b"
  by (metis ntohs_htons)

lemma join16_inj [simp]: "join16 a b = join16 c d \<longleftrightarrow> a = c \<and> b = d"
  by (metis hi8_join16 lo8_join16)

lemma le16_htons: "le16_bytes (htons w) = be16_bytes w"
  by (simp add: le16_bytes_def be16_bytes_def)

lemma length_le16 [simp]: "length (le16_bytes w) = 2" by (simp add: le16_bytes_def)
lemma length_be16 [simp]: "length (be16_bytes w) = 2" by (simp add: be16_bytes_def)

text \<open>A 32-bit \<open>int\<close> as its four little-endian bytes, for \<open>memcpy\<close> of an index.\<close>

definition le32_bytes :: "u32 \<Rightarrow> byte_buf" where
  "le32_bytes w = [ucast w, ucast (drop_bit 8 w), ucast (drop_bit 16 w), ucast (drop_bit 24 w)]"

definition le32_of :: "u8 \<Rightarrow> u8 \<Rightarrow> u8 \<Rightarrow> u8 \<Rightarrow> u32" where
  "le32_of a b c d = ucast a OR push_bit 8 (ucast b) OR push_bit 16 (ucast c) OR push_bit 24 (ucast d)"

lemma length_le32 [simp]: "length (le32_bytes w) = 4" by (simp add: le32_bytes_def)

lemma le32_of_bytes [simp]:
  "le32_of (ucast w) (ucast (drop_bit 8 w)) (ucast (drop_bit 16 w)) (ucast (drop_bit 24 w)) = w"
proof (rule bit_word_eqI)
  fix n assume "n < LENGTH(32)"
  then consider "n < 8" | "8 \<le> n" "n < 16" | "16 \<le> n" "n < 24" | "24 \<le> n" "n < 32"
    by fastforce
  then show "bit (le32_of (ucast w) (ucast (drop_bit 8 w)) (ucast (drop_bit 16 w))
      (ucast (drop_bit 24 w)) :: u32) n = bit w n"
    by cases (auto simp: le32_of_def bit_simps)
qed

definition int32 :: "byte_buf \<Rightarrow> int option" where
  "int32 bs = (case bs of [a, b, c, d] \<Rightarrow> Some (sint (le32_of a b c d)) | _ \<Rightarrow> None)"

lemma int32_le32 [simp]: "int32 (le32_bytes w) = Some (sint w)"
  by (simp add: int32_def le32_bytes_def)

lemma le32_bytes_of [simp]: "le32_bytes (le32_of a b c d) = [a, b, c, d]"
proof -
  have "ucast (le32_of a b c d) = a" "ucast (drop_bit 8 (le32_of a b c d)) = b"
    "ucast (drop_bit 16 (le32_of a b c d)) = c" "ucast (drop_bit 24 (le32_of a b c d)) = d"
    by (rule bit_word_eqI, auto simp: le32_of_def bit_simps dest: bit_imp_le_length)+
  then show ?thesis by (simp add: le32_bytes_def)
qed

lemma int32_Some: "length bs = 4 \<Longrightarrow> \<exists>w. int32 bs = Some (sint w) \<and> bs = le32_bytes w"
proof -
  assume "length bs = 4"
  then obtain a b c d where "bs = [a, b, c, d]" by (auto simp: length_Suc_conv numeral_eq_Suc)
  then show ?thesis by (intro exI [of _ "le32_of a b c d"]) (simp add: int32_def)
qed

lemma unat_u16_lt [simp]: "unat (w :: u16) < 65536"
  using unsigned_less [of w] by simp

lemma unat_u16_of_nat [simp]: "n < 65536 \<Longrightarrow> unat (word_of_nat n :: u16) = n"
  by (simp add: unsigned_of_nat take_bit_nat_eq_self)

lemma unat_u16_of_int [simp]: "n < 65536 \<Longrightarrow> unat (word_of_int (int n) :: u16) = n"
  by simp

section \<open>Small list facts\<close>

text \<open>An update that leaves a field of the entry alone leaves that field alone everywhere.\<close>

lemma nth_update_field: "f v = f (xs ! p) \<Longrightarrow> f (xs[p := v] ! i) = f (xs ! i)"
  by (cases "p < length xs"; cases "i = p") (simp_all add: list_update_beyond)

lemma take_drop_append: "k \<le> n \<Longrightarrow> take k xs @ take (n - k) (drop k xs) = take n xs"
  by (metis append_take_drop_id le_add_diff_inverse take_add)

lemma remove1_split: "a \<notin> set ys \<Longrightarrow> remove1 a (ys @ a # zs) = ys @ zs"
  by (simp add: remove1_append)

lemma distinct_split_notin: "distinct (ys @ a # zs) \<Longrightarrow> a \<notin> set ys \<and> a \<notin> set zs"
  by auto

lemma find_Some_sat: "find P xs = Some x \<Longrightarrow> P x"
  by (induction xs) (auto split: if_splits)

section \<open>Widening\<close>

lemma unat_u8_lt [simp]: "unat (b :: u8) < 256"
  using unsigned_less [of b] by simp

lemma unat_ucast_16_32 [simp]: "unat (ucast (w :: u16) :: u32) = unat w"
  using less_trans [OF unat_u16_lt [of w], of "2 ^ 32"] by (simp add: unsigned_ucast_eq take_bit_nat_eq_self)

lemma unat_ucast_8_32 [simp]: "unat (ucast (b :: u8) :: u32) = unat b"
  using less_trans [OF unat_u8_lt [of b], of "2 ^ 32"] by (simp add: unsigned_ucast_eq take_bit_nat_eq_self)

lemma unat_ucast_8_16 [simp]: "unat (ucast (b :: u8) :: u16) = unat b"
  using less_trans [OF unat_u8_lt [of b], of "2 ^ 16"] by (simp add: unsigned_ucast_eq take_bit_nat_eq_self)

lemma unat_join16: "unat (join16 h l) = 256 * unat h + unat l"
proof -
  have d: "join16 h l = push_bit 8 (ucast h) + ucast l"
    unfolding join16_def
    by (subst disjunctive_add) (auto simp: bit_simps dest: bit_imp_le_length)
  have "unat h < 256" "unat l < 256" by simp_all
  then have "unat h * 256 + unat l < 65536" by linarith
  then show ?thesis unfolding d
    by (simp add: unat_word_ariths push_bit_eq_mult)
qed

section \<open>C strings\<close>

definition msg_bytes :: "string \<Rightarrow> byte_buf" where
  "msg_bytes s = map of_char s"

fun dec_digits :: "nat \<Rightarrow> nat \<Rightarrow> byte_buf" where
  "dec_digits 0 n = []"
| "dec_digits (Suc f) n = (if n < 10 then [word_of_nat (48 + n)] else dec_digits f (n div 10) @ [word_of_nat (48 + n mod 10)])"

text \<open>\<open>%d\<close> of an \<open>int\<close>, which has at most ten digits.\<close>

definition fmt_d :: "nat \<Rightarrow> byte_buf" where "fmt_d n = dec_digits 10 n"

definition fmt_int :: "int \<Rightarrow> byte_buf" where
  "fmt_int i = (if i < 0 then 0x2D # fmt_d (nat (- i)) else fmt_d (nat i))"

text \<open>
  \<open>vsnprintf(a, sizeof(a), ...)\<close> of a text into a \<open>char\<close> array, and \<open>strncpy(a, b, n)\<close>,
  where \<open>src\<close> is the memory from \<open>b\<close> to the end of its object.
\<close>

definition snprintf :: "byte_buf \<Rightarrow> byte_buf \<Rightarrow> byte_buf" where
  "snprintf a s = (let s = take (length a - 1) s in s @ [0] @ drop (length s + 1) a)"

definition c_string :: "byte_buf \<Rightarrow> byte_buf" where
  "c_string a = takeWhile (\<lambda>x. x \<noteq> 0) a"

definition strncpy :: "byte_buf \<Rightarrow> byte_buf \<Rightarrow> nat \<Rightarrow> byte_buf option" where
  "strncpy a src n =
     (let s = c_string (take n src)
      in if length src < n \<and> length s = length src then None
         else wr_bytes a 0 (s @ replicate (n - length s) 0))"

lemma length_snprintf [simp]: "a \<noteq> [] \<Longrightarrow> length (snprintf a s) = length a"
  by (cases a) (auto simp: snprintf_def Let_def)

lemma length_c_string: "length (c_string a) \<le> length a"
  by (simp add: c_string_def length_takeWhile_le)

lemma strncpy_Some:
  assumes "n \<le> length a" "n \<le> length src"
  shows "\<exists>a'. strncpy a src n = Some a' \<and> length a' = length a"
proof -
  have "length (c_string (take n src)) \<le> n" using length_c_string [of "take n src"] assms by simp
  then show ?thesis using assms by (auto simp: strncpy_def Let_def wr_bytes_def)
qed

end
