(* ===== verification/Chain.thy ===== *)
theory Chain
  imports Prelude
begin

text \<open>
  Linked lists in an array of nodes. Pointers are indexes (\<open>None\<close> is NULL). The
  predicates say which list of nodes a head pointer denotes; the locale
  \<open>node_store\<close> is the interface every array of nodes with \<open>next\<close> and \<open>prev\<close>
  fields provides, and holds the two operations on doubly linked chains that
  \<open>relay.c\<close> (active sessions, hash chains) and \<open>libevent/hash.c\<close> (buckets) share:
  linking a node at the head and unlinking a node from anywhere.
\<close>

type_synonym ptr = "nat option"

fun slist :: "(nat \<Rightarrow> ptr) \<Rightarrow> ptr \<Rightarrow> nat list \<Rightarrow> bool" where
  "slist nx p [] \<longleftrightarrow> p = None"
| "slist nx p (x # xs) \<longleftrightarrow> p = Some x \<and> slist nx (nx x) xs"

fun dlist :: "(nat \<Rightarrow> ptr) \<Rightarrow> (nat \<Rightarrow> ptr) \<Rightarrow> ptr \<Rightarrow> ptr \<Rightarrow> nat list \<Rightarrow> bool" where
  "dlist nx pv q p [] \<longleftrightarrow> p = None"
| "dlist nx pv q p (x # xs) \<longleftrightarrow> p = Some x \<and> pv x = q \<and> dlist nx pv (Some x) (nx x) xs"

section \<open>Singly linked lists\<close>

lemma slist_None [simp]: "slist nx None xs \<longleftrightarrow> xs = []"
  by (cases xs) auto

lemma slist_Some [simp]: "slist nx (Some a) xs \<longleftrightarrow> (\<exists>ys. xs = a # ys \<and> slist nx (nx a) ys)"
  by (cases xs) auto

lemma slist_cong: "(\<And>x. x \<in> set xs \<Longrightarrow> nx x = nx' x) \<Longrightarrow> slist nx p xs = slist nx' p xs"
  by (induction xs arbitrary: p) auto

lemma slist_upd [simp]: "a \<notin> set xs \<Longrightarrow> slist (nx(a := v)) p xs = slist nx p xs"
  by (rule slist_cong) auto

lemma slist_unique: "slist nx p xs \<Longrightarrow> slist nx p ys \<Longrightarrow> xs = ys"
  by (induction xs arbitrary: p ys) auto

lemma slist_append: "slist nx p (xs @ ys) \<Longrightarrow> \<exists>q. slist nx q ys"
  by (induction xs arbitrary: p) auto

lemma slist_suffix_of: "slist nx p (xs @ a # ys) \<Longrightarrow> slist nx (Some a) (a # ys)"
  by (induction xs arbitrary: p) auto

lemma slist_distinct: "slist nx p xs \<Longrightarrow> distinct xs"
proof (induction xs arbitrary: p)
  case (Cons a xs)
  have "a \<notin> set xs"
  proof
    assume "a \<in> set xs"
    then obtain ys zs where xs: "xs = ys @ a # zs" by (meson split_list)
    from Cons.prems xs have "slist nx (Some a) (a # zs)" "slist nx (Some a) (a # xs)"
      using slist_suffix_of [of nx p "a # ys" a zs] by auto
    then have "a # zs = a # xs" by (rule slist_unique)
    with xs show False by simp
  qed
  with Cons show ?case by auto
qed simp

section \<open>Doubly linked lists\<close>

lemma dlist_None [simp]: "dlist nx pv q None xs \<longleftrightarrow> xs = []"
  by (cases xs) auto

lemma dlist_Some [simp]:
  "dlist nx pv q (Some a) xs \<longleftrightarrow> (\<exists>ys. xs = a # ys \<and> pv a = q \<and> dlist nx pv (Some a) (nx a) ys)"
  by (cases xs) auto

lemma dlist_slist: "dlist nx pv q p xs \<Longrightarrow> slist nx p xs"
  by (induction xs arbitrary: p q) auto

lemma dlist_distinct: "dlist nx pv q p xs \<Longrightarrow> distinct xs"
  by (blast dest: dlist_slist slist_distinct)

lemma dlist_unique: "dlist nx pv q p xs \<Longrightarrow> dlist nx pv q p ys \<Longrightarrow> xs = ys"
  by (blast dest: dlist_slist slist_unique)

lemma dlist_cong:
  "(\<And>x. x \<in> set xs \<Longrightarrow> nx x = nx' x) \<Longrightarrow> (\<And>x. x \<in> set xs \<Longrightarrow> pv x = pv' x) \<Longrightarrow>
   dlist nx pv q p xs = dlist nx' pv' q p xs"
  by (induction xs arbitrary: p q) auto

lemma dlist_upd_next [simp]: "a \<notin> set xs \<Longrightarrow> dlist (nx(a := v)) pv q p xs = dlist nx pv q p xs"
  by (rule dlist_cong) auto

lemma dlist_upd_prev [simp]: "a \<notin> set xs \<Longrightarrow> dlist nx (pv(a := v)) q p xs = dlist nx pv q p xs"
  by (rule dlist_cong) auto

lemma dlist_hd: "dlist nx pv q p xs \<Longrightarrow> p = (case xs of [] \<Rightarrow> None | x # _ \<Rightarrow> Some x)"
  by (cases xs) auto

lemma dlist_app_nonempty:
  "dlist nx pv q p (ys @ zs) \<Longrightarrow> ys \<noteq> [] \<Longrightarrow>
   dlist nx pv (Some (last ys)) (nx (last ys)) zs"
proof (induction ys arbitrary: p q)
  case (Cons y ys)
  then show ?case by (cases ys) auto
qed simp

text \<open>Linking at the head.\<close>

lemma dlist_push:
  assumes "dlist nx pv None p xs" and "a \<notin> set xs"
  shows "dlist (nx(a := p)) ((case p of None \<Rightarrow> pv | Some h \<Rightarrow> pv(h := Some a))(a := None))
           None (Some a) (a # xs)"
proof (cases xs)
  case Nil
  with assms show ?thesis by simp
next
  case (Cons x ys)
  with assms have "p = Some x" "x \<noteq> a" "x \<notin> set ys" "a \<notin> set ys"
    using dlist_distinct [OF assms(1)] by auto
  with Cons assms show ?thesis by simp
qed

text \<open>Replacing the tail of a chain behind a node, and retargeting the head's back pointer.\<close>

lemma dlist_reprev:
  assumes "dlist nx pv q p xs"
  shows "dlist nx (case p of None \<Rightarrow> pv | Some c \<Rightarrow> pv(c := q')) q' p xs"
proof (cases xs)
  case (Cons x ys)
  moreover from assms Cons have "x \<notin> set ys" using dlist_distinct [OF assms] by simp
  ultimately show ?thesis using assms by simp
qed (use assms in simp)

lemma dlist_retail:
  "dlist nx pv q p (ys @ zs) \<Longrightarrow> ys \<noteq> [] \<Longrightarrow>
   \<forall>x \<in> set (butlast ys). nx' x = nx x \<Longrightarrow> \<forall>x \<in> set ys. pv' x = pv x \<Longrightarrow>
   dlist nx' pv' (Some (last ys)) (nx' (last ys)) ws \<Longrightarrow>
   dlist nx' pv' q p (ys @ ws)"
proof (induction ys arbitrary: p q)
  case (Cons y ys)
  show ?case
  proof (cases "ys = []")
    case False
    with Cons.prems have "dlist nx' pv' (Some y) (nx y) (ys @ ws)"
      by (intro Cons.IH) auto
    with False Cons.prems show ?thesis by simp
  qed (use Cons.prems in simp)
qed simp

lemma dlist_neighbours:
  assumes "dlist nx pv None p xs" and "a \<in> set xs"
  shows "\<And>b. pv a = Some b \<Longrightarrow> b \<in> set xs \<and> b \<noteq> a"
    and "\<And>c. nx a = Some c \<Longrightarrow> c \<in> set xs \<and> c \<noteq> a"
proof -
  obtain ys zs where xs: "xs = ys @ a # zs" using assms(2) by (meson split_list)
  have dis: "distinct (ys @ a # zs)" using assms(1) xs dlist_distinct by blast
  have tail: "dlist nx pv (if ys = [] then None else Some (last ys)) (Some a) (a # zs)"
    using assms(1) xs dlist_app_nonempty [of nx pv None p ys "a # zs"] by (cases "ys = []") auto
  show "\<And>b. pv a = Some b \<Longrightarrow> b \<in> set xs \<and> b \<noteq> a"
    using tail xs dis by (auto split: if_splits)
  show "\<And>c. nx a = Some c \<Longrightarrow> c \<in> set xs \<and> c \<noteq> a"
    using tail xs dis by (cases zs) auto
qed

text \<open>
  Unlinking a node: the neighbours' fields are redirected around it (or the head
  is), and the chain loses exactly that node.
\<close>

lemma dlist_unlink:
  assumes d: "dlist nx pv None p xs" and a: "a \<in> set xs"
  defines "nx' \<equiv> (case pv a of None \<Rightarrow> nx | Some b \<Rightarrow> nx(b := nx a))"
    and "p' \<equiv> (case pv a of None \<Rightarrow> nx a | Some b \<Rightarrow> p)"
    and "pv' \<equiv> (case nx a of None \<Rightarrow> pv | Some c \<Rightarrow> pv(c := pv a))"
  shows "dlist nx' pv' None p' (remove1 a xs)"
proof -
  obtain ys zs where xs: "xs = ys @ a # zs" and nin: "a \<notin> set ys"
    using a by (meson split_list_first)
  have dis: "distinct (ys @ a # zs)" using d xs dlist_distinct by blast
  have rem: "remove1 a xs = ys @ zs" using xs nin by (simp add: remove1_append)
  show ?thesis
  proof (cases "ys = []")
    case True
    with d xs have "p = Some a" "pv a = None" and dz: "dlist nx pv (Some a) (nx a) zs" by auto
    from dlist_reprev [OF dz, of None] have "dlist nx pv' None (nx a) zs"
      unfolding pv'_def \<open>pv a = None\<close> .
    with True rem \<open>pv a = None\<close> show ?thesis by (simp add: nx'_def p'_def)
  next
    case False
    from dlist_app_nonempty [OF _ False, of nx pv None p "a # zs"] d xs
    have pa: "pv a = Some (last ys)" and dz: "dlist nx pv (Some a) (nx a) zs" by auto
    have l: "last ys \<in> set ys" and bl: "set (butlast ys) \<subseteq> set ys" using False by (auto dest: in_set_butlastD)
    have "last ys \<notin> set (butlast ys)"
      using dis False by (metis append_butlast_last_id distinct_append not_distinct_conv_prefix)
    then have nx: "\<forall>x \<in> set (butlast ys). nx' x = nx x" "nx' (last ys) = nx a"
      and nz: "\<forall>x \<in> set zs. nx' x = nx x"
      using l dis by (auto simp: nx'_def pa)
    have "\<forall>x \<in> set ys. pv' x = pv x"
      using dis dz by (cases zs) (auto simp: pv'_def)
    moreover have "dlist nx' pv' (Some (last ys)) (nx' (last ys)) zs"
    proof -
      from dlist_reprev [OF dz, of "Some (last ys)"] have "dlist nx pv' (Some (last ys)) (nx a) zs"
        unfolding pv'_def pa .
      with nz nx(2) show ?thesis using dlist_cong [of zs nx' nx pv' pv'] by simp
    qed
    moreover have "dlist nx pv None p (ys @ a # zs)" using d xs by simp
    ultimately have "dlist nx' pv' None p (ys @ zs)"
      using dlist_retail [OF _ False nx(1)] by blast
    with rem pa show ?thesis by (simp add: p'_def)
  qed
qed

section \<open>Chains in an array of nodes\<close>

definition dl :: "('n \<Rightarrow> ptr) \<Rightarrow> ('n \<Rightarrow> ptr) \<Rightarrow> 'n list \<Rightarrow> ptr \<Rightarrow> nat list \<Rightarrow> bool" where
  "dl nxt prv arr p ns \<longleftrightarrow>
     dlist (\<lambda>i. nxt (arr ! i)) (\<lambda>i. prv (arr ! i)) None p ns \<and> set ns \<subseteq> {..<length arr}"

definition sl :: "('n \<Rightarrow> ptr) \<Rightarrow> 'n list \<Rightarrow> ptr \<Rightarrow> nat list \<Rightarrow> bool" where
  "sl nxt arr p ns \<longleftrightarrow> slist (\<lambda>i. nxt (arr ! i)) p ns \<and> set ns \<subseteq> {..<length arr}"

lemma dl_distinct: "dl nxt prv arr p ns \<Longrightarrow> distinct ns"
  by (auto simp: dl_def dest: dlist_distinct)

lemma sl_distinct: "sl nxt arr p ns \<Longrightarrow> distinct ns"
  by (auto simp: sl_def dest: slist_distinct)

lemma dl_cong:
  "length arr = length arr' \<Longrightarrow>
   (\<And>i. i \<in> set ns \<Longrightarrow> nxt (arr ! i) = nxt (arr' ! i) \<and> prv (arr ! i) = prv (arr' ! i)) \<Longrightarrow>
   dl nxt prv arr p ns = dl nxt prv arr' p ns"
  unfolding dl_def by (subst dlist_cong [where nx' = "\<lambda>i. nxt (arr' ! i)" and pv' = "\<lambda>i. prv (arr' ! i)"]) auto

lemma sl_cong:
  "length arr = length arr' \<Longrightarrow> (\<And>i. i \<in> set ns \<Longrightarrow> nxt (arr ! i) = nxt (arr' ! i)) \<Longrightarrow>
   sl nxt arr p ns = sl nxt arr' p ns"
  unfolding sl_def by (subst slist_cong [where nx' = "\<lambda>i. nxt (arr' ! i)"]) auto

lemma dl_Nil [simp]: "dl nxt prv arr p [] \<longleftrightarrow> p = None"
  by (simp add: dl_def)

lemma dl_None [simp]: "dl nxt prv arr None ns \<longleftrightarrow> ns = []"
  by (auto simp: dl_def)

lemma sl_Cons [simp]:
  "sl nxt arr p (a # ns) \<longleftrightarrow> p = Some a \<and> a < length arr \<and> sl nxt arr (nxt (arr ! a)) ns"
  by (auto simp: sl_def)

definition head_of :: "nat list \<Rightarrow> ptr" where
  "head_of ns = (case ns of [] \<Rightarrow> None | n # _ \<Rightarrow> Some n)"

lemma head_of_simps [simp]: "head_of [] = None" "head_of (n # ns) = Some n"
  by (simp_all add: head_of_def)

lemma slist_next: "slist nx p (xs @ a # ys) \<Longrightarrow> nx a = head_of ys"
  by (induction xs arbitrary: p) (auto simp: head_of_def split: list.split)

lemma dl_next: "dl nxt prv arr p (xs @ a # ys) \<Longrightarrow> nxt (arr ! a) = head_of ys"
  by (auto simp: dl_def dest!: dlist_slist dest: slist_next)

lemma dl_head: "dl nxt prv arr p ns \<Longrightarrow> p = head_of ns"
  by (cases ns) (auto simp: dl_def)

locale node_store =
  fixes nxt prv :: "'n \<Rightarrow> ptr"
    and set_nxt set_prv :: "ptr \<Rightarrow> 'n \<Rightarrow> 'n"
  assumes nxt_set_nxt: "nxt (set_nxt v n) = v"
    and nxt_set_prv: "nxt (set_prv v n) = nxt n"
    and prv_set_prv: "prv (set_prv v n) = v"
    and prv_set_nxt: "prv (set_nxt v n) = prv n"
begin

lemmas store_laws = nxt_set_nxt nxt_set_prv prv_set_prv prv_set_nxt

text \<open>The two operations, as the C code performs them on one array of nodes.\<close>

definition link_front :: "'n list \<Rightarrow> ptr \<Rightarrow> nat \<Rightarrow> 'n list option" where
  "link_front arr p a = do {
     arr \<leftarrow> arr_upd arr a (set_nxt p);
     arr \<leftarrow> arr_upd arr a (set_prv None);
     (case p of None \<Rightarrow> Some arr | Some h \<Rightarrow> arr_upd arr h (set_prv (Some a))) }"

definition unlink :: "'n list \<Rightarrow> ptr \<Rightarrow> nat \<Rightarrow> ('n list \<times> ptr) option" where
  "unlink arr p a = do {
     n \<leftarrow> arr_get arr a;
     (arr, p) \<leftarrow> (case prv n of
         None \<Rightarrow> Some (arr, nxt n)
       | Some b \<Rightarrow> do { arr \<leftarrow> arr_upd arr b (set_nxt (nxt n)); Some (arr, p) });
     n \<leftarrow> arr_get arr a;
     arr \<leftarrow> (case nxt n of None \<Rightarrow> Some arr | Some c \<Rightarrow> arr_upd arr c (set_prv (prv n)));
     Some (arr, p) }"

lemma link_front_ok:
  assumes d: "dl nxt prv arr p ns" and a: "a < length arr" "a \<notin> set ns"
  shows "\<exists>arr'. link_front arr p a = Some arr' \<and> length arr' = length arr \<and>
           dl nxt prv arr' (Some a) (a # ns) \<and> (\<forall>i. i \<notin> set (a # ns) \<longrightarrow> arr' ! i = arr ! i)"
proof -
  from d a have h: "\<And>h. p = Some h \<Longrightarrow> h < length arr \<and> h \<in> set ns \<and> h \<noteq> a"
    by (auto simp: dl_def)
  define arr1 where "arr1 = (arr[a := set_nxt p (arr ! a)])[a := set_prv None (set_nxt p (arr ! a))]"
  define arr' where "arr' = (case p of None \<Rightarrow> arr1 | Some h \<Rightarrow> arr1[h := set_prv (Some a) (arr1 ! h)])"
  have r: "link_front arr p a = Some arr'"
    using a h by (auto simp: link_front_def mem_simps arr'_def arr1_def split: option.split)
  have len: "length arr' = length arr" by (simp add: arr'_def arr1_def split: option.split)
  have push: "dlist ((\<lambda>i. nxt (arr ! i))(a := p))
      ((case p of None \<Rightarrow> \<lambda>i. prv (arr ! i) | Some h \<Rightarrow> (\<lambda>i. prv (arr ! i))(h := Some a))(a := None))
      None (Some a) (a # ns)"
    using d a by (intro dlist_push) (auto simp: dl_def)
  have "dlist (\<lambda>i. nxt (arr' ! i)) (\<lambda>i. prv (arr' ! i)) None (Some a) (a # ns)"
    using a d h by (intro dlist_cong [THEN iffD1, OF _ _ push])
      (auto simp: arr'_def arr1_def nth_list_update store_laws dl_def split: option.split)
  with d a len have "dl nxt prv arr' (Some a) (a # ns)" by (simp add: dl_def)
  moreover have "\<forall>i. i \<notin> set (a # ns) \<longrightarrow> arr' ! i = arr ! i"
  proof (intro allI impI)
    fix i assume i: "i \<notin> set (a # ns)"
    with h have "\<And>h. p = Some h \<Longrightarrow> h \<noteq> i" by auto
    with i show "arr' ! i = arr ! i" by (auto simp: arr'_def arr1_def split: option.split)
  qed
  ultimately show ?thesis using r len by blast
qed

lemma unlink_ok:
  assumes d: "dl nxt prv arr p ns" and a: "a \<in> set ns"
  shows "\<exists>arr' p'. unlink arr p a = Some (arr', p') \<and> length arr' = length arr \<and>
           dl nxt prv arr' p' (remove1 a ns) \<and>
           (\<forall>i. i \<notin> set ns \<or> i = a \<longrightarrow> arr' ! i = arr ! i)"
proof -
  let ?nx = "\<lambda>i. nxt (arr ! i)" and ?pv = "\<lambda>i. prv (arr ! i)"
  from d have dd: "dlist ?nx ?pv None p ns" and sub: "set ns \<subseteq> {..<length arr}"
    by (auto simp: dl_def)
  note nb = dlist_neighbours [OF dd a]
  have bb: "\<And>b. ?pv a = Some b \<Longrightarrow> b \<in> set ns \<and> b \<noteq> a \<and> b < length arr"
    and cc: "\<And>c. ?nx a = Some c \<Longrightarrow> c \<in> set ns \<and> c \<noteq> a \<and> c < length arr"
    and al: "a < length arr"
    using nb sub a by auto
  define arr1 where "arr1 = (case ?pv a of None \<Rightarrow> arr | Some b \<Rightarrow> arr[b := set_nxt (?nx a) (arr ! b)])"
  define p' where "p' = (case ?pv a of None \<Rightarrow> ?nx a | Some b \<Rightarrow> p)"
  define arr' where "arr' = (case ?nx a of None \<Rightarrow> arr1 | Some c \<Rightarrow> arr1[c := set_prv (?pv a) (arr1 ! c)])"
  have len1: "length arr1 = length arr" and arr1a: "arr1 ! a = arr ! a"
    using bb by (auto simp: arr1_def split: option.split)
  have r: "unlink arr p a = Some (arr', p')"
    using al len1 arr1a bb cc
    by (auto simp: unlink_def mem_simps arr'_def p'_def arr1_def split: option.split)
  have len: "length arr' = length arr" using len1 by (simp add: arr'_def split: option.split)
  have keep: "arr' ! i = arr ! i" if "i \<notin> set ns \<or> i = a" for i
  proof -
    have "\<And>b. ?pv a = Some b \<Longrightarrow> b \<noteq> i" and "\<And>c. ?nx a = Some c \<Longrightarrow> c \<noteq> i"
      using that bb cc by auto
    then show ?thesis by (auto simp: arr'_def arr1_def split: option.split)
  qed
  have n1: "nxt (arr' ! i) = (case ?pv a of None \<Rightarrow> ?nx | Some b \<Rightarrow> ?nx(b := ?nx a)) i"
    if "i < length arr" for i
    using that bb cc len1
    by (auto simp: arr'_def arr1_def nth_list_update store_laws split: option.split)
  have p1: "prv (arr' ! i) = (case ?nx a of None \<Rightarrow> ?pv | Some c \<Rightarrow> ?pv(c := ?pv a)) i"
    if "i < length arr" for i
    using that bb cc len1
    by (auto simp: arr'_def arr1_def nth_list_update store_laws split: option.split)
  have sub': "set (remove1 a ns) \<subseteq> {..<length arr}" using sub set_remove1_subset by fastforce
  have "dlist (\<lambda>i. nxt (arr' ! i)) (\<lambda>i. prv (arr' ! i)) None p' (remove1 a ns)"
    unfolding p'_def
    by (rule dlist_cong [THEN iffD1, OF _ _ dlist_unlink [OF dd a]]) (use n1 p1 sub' in auto)
  with sub' len have "dl nxt prv arr' p' (remove1 a ns)" by (simp add: dl_def)
  with r len keep show ?thesis by blast
qed

text \<open>Neither operation touches a field the two setters leave alone.\<close>

lemma link_front_frame:
  assumes "link_front arr p a = Some arr'"
    and "\<And>v n. f (set_nxt v n) = f n" and "\<And>v n. f (set_prv v n) = f n"
  shows "f (arr' ! i) = f (arr ! i)"
  using assms
  by (auto simp: link_front_def arr_upd_def nth_list_update split: if_splits option.splits)

lemma unlink_frame:
  assumes "unlink arr p a = Some (arr', p')"
    and "\<And>v n. f (set_nxt v n) = f n" and "\<And>v n. f (set_prv v n) = f n"
  shows "f (arr' ! i) = f (arr ! i)"
  using assms
  by (auto simp: unlink_def arr_upd_def arr_get_def split: if_splits option.splits Option.bind_splits)
    (auto simp: nth_list_update)

end

end
