(* ===== verification/Pppoe_Packet.thy ===== *)
theory Pppoe_Packet
  imports Prelude
begin

text \<open>
  PPPoE frames and their tags: the packet layout of \<open>pppoe.h\<close>, the tag walkers
  \<open>parsePacket\<close> and \<open>findTag\<close> of \<open>common.c\<close>, and the tag editing routines
  \<open>addTag\<close>, \<open>insertBytes\<close> and \<open>removeBytes\<close> of \<open>relay.c\<close>. Pointers into the
  payload are offsets from its start. \<open>tlvs\<close> is the abstract reading of a
  payload as a list of tags; the walkers are proved to compute it, and the editing
  routines to act on it as list operations.
\<close>

section \<open>Constants and layout (pppoe.h)\<close>

abbreviation (input) "ETH_DATA_LEN \<equiv> (1500::nat)"
abbreviation (input) "ETH_JUMBO_LEN \<equiv> (1508::nat)"
abbreviation (input) "PPPOE_OVERHEAD \<equiv> (6::nat)"
abbreviation (input) "HDR_SIZE \<equiv> (20::nat)"
abbreviation (input) "MAX_PPPOE_PAYLOAD \<equiv> (1502::nat)"
abbreviation (input) "TAG_HDR_SIZE \<equiv> (4::nat)"

abbreviation (input) "CODE_PADI \<equiv> (0x09::u8)"
abbreviation (input) "CODE_PADO \<equiv> (0x07::u8)"
abbreviation (input) "CODE_PADR \<equiv> (0x19::u8)"
abbreviation (input) "CODE_PADS \<equiv> (0x65::u8)"
abbreviation (input) "CODE_PADT \<equiv> (0xA7::u8)"
abbreviation (input) "CODE_SESS \<equiv> (0x00::u8)"

abbreviation (input) "TAG_END_OF_LIST \<equiv> (0::u16)"
abbreviation (input) "TAG_HOST_UNIQ \<equiv> (0x0103::u16)"
abbreviation (input) "TAG_RELAY_SESSION_ID \<equiv> (0x0110::u16)"
abbreviation (input) "TAG_GENERIC_ERROR \<equiv> (0x0203::u16)"

text \<open>\<open>unsigned char[ETH_ALEN]\<close>.\<close>

datatype mac = Mac u8 u8 u8 u8 u8 u8

fun mac_bytes :: "mac \<Rightarrow> byte_buf" where
  "mac_bytes (Mac a b c d e f) = [a, b, c, d, e, f]"

fun mac_of :: "byte_buf \<Rightarrow> mac option" where
  "mac_of [a, b, c, d, e, f] = Some (Mac a b c d e f)"
| "mac_of _ = None"

lemma length_mac_bytes [simp]: "length (mac_bytes m) = 6"
  by (cases m) simp

lemma mac_of_bytes [simp]: "mac_of (mac_bytes m) = Some m"
  by (cases m) simp

lemma mac_of_length: "length bs = 6 \<Longrightarrow> \<exists>m. mac_of bs = Some m \<and> mac_bytes m = bs"
  by (auto simp: length_Suc_conv numeral_eq_Suc)

fun NOT_UNICAST :: "mac \<Rightarrow> bool" where
  "NOT_UNICAST (Mac a b c d e f) \<longleftrightarrow> a AND 1 \<noteq> 0"

fun BROADCAST :: "mac \<Rightarrow> bool" where
  "BROADCAST (Mac a b c d e f) \<longleftrightarrow> a AND b AND c AND d AND e AND f = 0xFF"

record packet =
  h_dest :: mac
  h_source :: mac
  h_proto :: u16
  vertype :: u8
  pcode :: u8
  psession :: u16
  plength :: u16
  payload :: byte_buf

definition PPPOE_VER :: "u8 \<Rightarrow> u8" where "PPPOE_VER vt = drop_bit 4 vt"
definition PPPOE_TYPE :: "u8 \<Rightarrow> u8" where "PPPOE_TYPE vt = vt AND 0xF"
definition PPPOE_VER_TYPE :: "u8 \<Rightarrow> u8 \<Rightarrow> u8" where "PPPOE_VER_TYPE v t = push_bit 4 v OR t"

text \<open>The payload array has its fixed size; everything else is up to the network.\<close>

definition pkt_wf :: "packet \<Rightarrow> bool" where
  "pkt_wf p \<longleftrightarrow> length (payload p) = ETH_JUMBO_LEN"

definition plen :: "packet \<Rightarrow> nat" where
  "plen p = unat (ntohs (plength p))"

text \<open>A \<open>PPPoETag\<close>: type and length as stored (network order) and the payload bytes that have been set.\<close>

record ptag =
  tag_type :: u16
  tag_length :: u16
  tag_payload :: byte_buf

definition tag_bytes :: "ptag \<Rightarrow> byte_buf" where
  "tag_bytes t = le16_bytes (tag_type t) @ le16_bytes (tag_length t) @ tag_payload t"

text \<open>\<open>memcpy(tag, curTag, n)\<close> into a \<open>PPPoETag\<close> of \<open>sizeof(PPPoETag) = 1504\<close> bytes.\<close>

definition tag_of_bytes :: "byte_buf \<Rightarrow> ptag option" where
  "tag_of_bytes bs =
     (if length bs \<le> ETH_DATA_LEN + TAG_HDR_SIZE
      then (case bs of a # b # c # d # rest \<Rightarrow>
              Some \<lparr>tag_type = join16 b a, tag_length = join16 d c, tag_payload = rest\<rparr>
            | _ \<Rightarrow> None)
      else None)"

text \<open>The frame as it lies in memory: \<open>sizeof(PPPoEPacket)\<close> bytes.\<close>

definition frame_bytes :: "packet \<Rightarrow> byte_buf" where
  "frame_bytes p = mac_bytes (h_dest p) @ mac_bytes (h_source p) @ le16_bytes (h_proto p) @
     [vertype p, pcode p] @ le16_bytes (psession p) @ le16_bytes (plength p) @ payload p"

section \<open>Walking the tags (common.c)\<close>

text \<open>\<open>parsePacket\<close>: the callback and its \<open>extra\<close> argument are \<open>f\<close> and the state \<open>s\<close>.\<close>

function parse_loop ::
  "(u16 \<Rightarrow> u16 \<Rightarrow> byte_buf \<Rightarrow> 's \<Rightarrow> 's) \<Rightarrow> byte_buf \<Rightarrow> nat \<Rightarrow> nat \<Rightarrow> 's \<Rightarrow> (int \<times> 's) option" where
  "parse_loop f buf len cur s =
     (if cur + TAG_HDR_SIZE \<le> len then do {
        b0 \<leftarrow> arr_get buf cur;
        b1 \<leftarrow> arr_get buf (cur + 1);
        b2 \<leftarrow> arr_get buf (cur + 2);
        b3 \<leftarrow> arr_get buf (cur + 3);
        let tagType = join16 b0 b1; tagLen = join16 b2 b3 in
        if tagType = TAG_END_OF_LIST then Some (0, s)
        else if cur + unat tagLen + TAG_HDR_SIZE > len then Some (-1, s)
        else do {
          d \<leftarrow> rd_bytes buf (cur + TAG_HDR_SIZE) (unat tagLen);
          parse_loop f buf len (cur + TAG_HDR_SIZE + unat tagLen) (f tagType tagLen d s) } }
      else Some (0, s))"
  by pat_completeness auto
termination
  by (relation "measure (\<lambda>(f, buf, len, cur, s). len - cur)") auto

definition parsePacket ::
  "packet \<Rightarrow> (u16 \<Rightarrow> u16 \<Rightarrow> byte_buf \<Rightarrow> 's \<Rightarrow> 's) \<Rightarrow> 's \<Rightarrow> (int \<times> 's) option" where
  "parsePacket p f s =
     (if PPPOE_VER (vertype p) \<noteq> 1 then Some (-1, s)
      else if PPPOE_TYPE (vertype p) \<noteq> 1 then Some (-1, s)
      else if plen p > ETH_JUMBO_LEN - PPPOE_OVERHEAD then Some (-1, s)
      else parse_loop f (payload p) (plen p) 0 s)"

text \<open>\<open>findTag\<close>: \<open>Some None\<close> is the NULL result, \<open>Some (Some (loc, tag))\<close> a tag at offset \<open>loc\<close>.\<close>

function find_loop :: "byte_buf \<Rightarrow> nat \<Rightarrow> u16 \<Rightarrow> nat \<Rightarrow> (nat \<times> ptag) option option" where
  "find_loop buf len ty cur =
     (if cur + TAG_HDR_SIZE \<le> len then do {
        b0 \<leftarrow> arr_get buf cur;
        b1 \<leftarrow> arr_get buf (cur + 1);
        b2 \<leftarrow> arr_get buf (cur + 2);
        b3 \<leftarrow> arr_get buf (cur + 3);
        let tagType = join16 b0 b1; tagLen = join16 b2 b3 in
        if tagType = TAG_END_OF_LIST then Some None
        else if cur + unat tagLen + TAG_HDR_SIZE > len then Some None
        else if tagType = ty then do {
          bs \<leftarrow> rd_bytes buf cur (unat tagLen + TAG_HDR_SIZE);
          tag \<leftarrow> tag_of_bytes bs;
          Some (Some (cur, tag)) }
        else find_loop buf len ty (cur + TAG_HDR_SIZE + unat tagLen) }
      else Some None)"
  by pat_completeness auto
termination
  by (relation "measure (\<lambda>(buf, len, ty, cur). len - cur)") auto

declare parse_loop.simps [simp del] find_loop.simps [simp del]

definition findTag :: "packet \<Rightarrow> u16 \<Rightarrow> (nat \<times> ptag) option option" where
  "findTag p ty =
     (if PPPOE_VER (vertype p) \<noteq> 1 then Some None
      else if PPPOE_TYPE (vertype p) \<noteq> 1 then Some None
      else if plen p > ETH_JUMBO_LEN - 6 then Some None
      else find_loop (payload p) (plen p) ty 0)"

section \<open>Editing the payload (relay.c)\<close>

definition insertBytes :: "packet \<Rightarrow> int \<Rightarrow> byte_buf \<Rightarrow> int \<Rightarrow> (int \<times> packet) option" where
  "insertBytes p loc bytes len =
     (let pl = int (plen p) in
      if loc < 0 \<or> loc > pl \<or> len + pl > int MAX_PPPOE_PAYLOAD then Some (-1, p)
      else do {
        moved \<leftarrow> rd_bytes (payload p) (nat loc) (nat (pl - loc));
        buf \<leftarrow> wr_bytes (payload p) (nat (loc + len)) moved;
        src \<leftarrow> rd_bytes bytes 0 (nat len);
        buf \<leftarrow> wr_bytes buf (nat loc) src;
        Some (len, p\<lparr>payload := buf, plength := htons (word_of_int (pl + len))\<rparr>) })"

definition addTag :: "packet \<Rightarrow> ptag \<Rightarrow> (int \<times> packet) option" where
  "addTag p tag = insertBytes p 0 (tag_bytes tag) (uint (ntohs (tag_length tag)) + int TAG_HDR_SIZE)"

definition removeBytes :: "packet \<Rightarrow> int \<Rightarrow> int \<Rightarrow> (int \<times> packet) option" where
  "removeBytes p loc len =
     (let pl = int (plen p) in
      if len < 0 \<or> len > pl \<or> loc < 0 \<or> loc + len > pl then Some (-1, p)
      else do {
        moved \<leftarrow> rd_bytes (payload p) (nat (loc + len)) (nat (pl - loc - len));
        buf \<leftarrow> wr_bytes (payload p) (nat loc) moved;
        Some (len, p\<lparr>payload := buf, plength := htons (word_of_int (pl - len))\<rparr>) })"

section \<open>The abstract reading of a payload\<close>

datatype tlv_end = Exhausted | EndOfList | BadLength

text \<open>The tags of a byte sequence, each with its offset, and how the sequence ended.\<close>

fun tlvs :: "nat \<Rightarrow> byte_buf \<Rightarrow> (nat \<times> u16 \<times> byte_buf) list \<times> tlv_end" where
  "tlvs off (a # b # c # d # rest) =
     (if join16 a b = TAG_END_OF_LIST then ([], EndOfList)
      else if length rest < unat (join16 c d) then ([], BadLength)
      else (case tlvs (off + 4 + unat (join16 c d)) (drop (unat (join16 c d)) rest) of
              (ts, e) \<Rightarrow> ((off, join16 a b, take (unat (join16 c d)) rest) # ts, e)))"
| "tlvs off _ = ([], Exhausted)"

declare tlvs.simps(1) [simp del]

definition window :: "packet \<Rightarrow> byte_buf" where
  "window p = take (plen p) (payload p)"

definition hdr_bytes :: "packet \<Rightarrow> byte_buf" where
  "hdr_bytes p = mac_bytes (h_dest p) @ mac_bytes (h_source p) @ le16_bytes (h_proto p) @
     [vertype p, pcode p] @ le16_bytes (psession p) @ le16_bytes (plength p)"

definition frame_of :: "packet \<Rightarrow> byte_buf" where
  "frame_of p = hdr_bytes p @ window p"

lemma length_hdr_bytes [simp]: "length (hdr_bytes p) = 20"
  by (simp add: hdr_bytes_def)

lemma hdr_bytes_payload [simp]: "hdr_bytes (p\<lparr>payload := b\<rparr>) = hdr_bytes p"
  by (simp add: hdr_bytes_def)

lemma frame_bytes_split: "frame_bytes p = hdr_bytes p @ payload p"
  by (simp add: frame_bytes_def hdr_bytes_def)

text \<open>A frame whose size agrees with its length field.\<close>

definition sized :: "packet \<Rightarrow> int \<Rightarrow> bool" where
  "sized p sz \<longleftrightarrow> pkt_wf p \<and> plen p \<le> ETH_JUMBO_LEN \<and> sz = int (plen p) + 20"

lemma rd_frame:
  assumes "sized p sz"
  shows "rd_bytes (frame_bytes p) 0 (nat sz) = Some (frame_of p)"
proof -
  have n: "nat sz = 20 + plen p" using assms by (simp_all add: sized_def)
  have l: "length (frame_bytes p) = 1528" using assms by (simp add: frame_bytes_split sized_def pkt_wf_def)
  have "rd_bytes (frame_bytes p) 0 (nat sz) = Some (take (20 + plen p) (frame_bytes p))"
    unfolding n rd_bytes_def l using assms by (simp add: sized_def)
  also have "take (20 + plen p) (frame_bytes p) = frame_of p"
    by (simp add: frame_bytes_split frame_of_def window_def)
  finally show ?thesis .
qed

lemma sized_addr [simp]:
  "sized (p\<lparr>h_source := m\<rparr>) sz = sized p sz" "sized (p\<lparr>h_dest := m\<rparr>) sz = sized p sz"
  "sized (p\<lparr>psession := n\<rparr>) sz = sized p sz"
  by (simp_all add: sized_def pkt_wf_def plen_def)

lemma window_addr [simp]:
  "window (p\<lparr>h_source := m\<rparr>) = window p" "window (p\<lparr>h_dest := m\<rparr>) = window p"
  "window (p\<lparr>psession := n\<rparr>) = window p"
  by (simp_all add: window_def plen_def)

definition ptags :: "packet \<Rightarrow> (nat \<times> u16 \<times> byte_buf) list" where
  "ptags p = fst (tlvs 0 (window p))"

definition rc_of_end :: "tlv_end \<Rightarrow> int" where
  "rc_of_end e = (if e = BadLength then -1 else 0)"

text \<open>The header tests both walkers make before they look at any tag.\<close>

definition hdr_ok :: "packet \<Rightarrow> bool" where
  "hdr_ok p \<longleftrightarrow> PPPOE_VER (vertype p) = 1 \<and> PPPOE_TYPE (vertype p) = 1 \<and> plen p \<le> MAX_PPPOE_PAYLOAD"

definition mk_tag :: "u16 \<Rightarrow> byte_buf \<Rightarrow> ptag" where
  "mk_tag ty d = \<lparr>tag_type = htons ty, tag_length = htons (word_of_nat (length d)), tag_payload = d\<rparr>"

definition enc_tag :: "u16 \<Rightarrow> byte_buf \<Rightarrow> byte_buf" where
  "enc_tag ty d = be16_bytes ty @ be16_bytes (word_of_nat (length d)) @ d"

lemma tlvs_short: "length bs < 4 \<Longrightarrow> tlvs off bs = ([], Exhausted)"
  by (cases "(off, bs)" rule: tlvs.cases) auto

lemma window_split:
  assumes "cur + 4 \<le> len" "len \<le> length buf"
  shows "take (len - cur) (drop cur buf) =
     buf ! cur # buf ! (cur + 1) # buf ! (cur + 2) # buf ! (cur + 3) # take (len - cur - 4) (drop (cur + 4) buf)"
proof -
  have "drop cur buf = buf ! cur # buf ! (cur + 1) # buf ! (cur + 2) # buf ! (cur + 3) # drop (cur + 4) buf"
    using assms by (simp add: Cons_nth_drop_Suc [symmetric] eval_nat_numeral)
  with assms show ?thesis by (simp add: take_Cons' eval_nat_numeral)
qed

text \<open>
  Both walkers unfold one tag at a time; the common step: which tag the bytes at
  \<open>cur\<close> hold, with every access they make in bounds.
\<close>

lemma tlvs_step:
  assumes c: "cur + 4 \<le> len" and l: "len \<le> length buf"
    and t: "t = join16 (buf ! cur) (buf ! (cur + 1))"
    and n: "n = unat (join16 (buf ! (cur + 2)) (buf ! (cur + 3)))"
  shows "tlvs cur (take (len - cur) (drop cur buf)) =
     (if t = 0 then ([], EndOfList)
      else if len < cur + n + 4 then ([], BadLength)
      else (case tlvs (cur + 4 + n) (take (len - (cur + 4 + n)) (drop (cur + 4 + n) buf)) of
              (ts, e) \<Rightarrow> ((cur, t, take n (drop (cur + 4) buf)) # ts, e)))"
proof -
  define W where "W = take (len - cur - 4) (drop (cur + 4) buf)"
  have lw: "length W = len - cur - 4" using c l by (simp add: W_def)
  have rest: "drop n W = take (len - (cur + 4 + n)) (drop (cur + 4 + n) buf)"
    by (simp add: W_def drop_take add.commute add.left_commute)
  have dd: "take n W = take n (drop (cur + 4) buf)" if "cur + n + 4 \<le> len"
    using that by (auto simp: W_def min_def)
  have "len - cur - 4 < n \<longleftrightarrow> len < cur + n + 4" using c by arith
  then show ?thesis
    unfolding window_split [OF c l, folded W_def] tlvs.simps(1) t [symmetric] n [symmetric] lw rest
    using dd by (simp split: prod.splits)
qed

lemma tag_header_reads:
  assumes "cur + 4 \<le> len" "len \<le> length buf"
  shows "arr_get buf cur = Some (buf ! cur)" "arr_get buf (cur + 1) = Some (buf ! (cur + 1))"
    "arr_get buf (cur + 2) = Some (buf ! (cur + 2))" "arr_get buf (cur + 3) = Some (buf ! (cur + 3))"
  using assms by (simp_all add: arr_get_def)

lemma parse_loop_tlvs:
  assumes "len \<le> length buf"
  shows "parse_loop f buf len cur s =
     (case tlvs cur (take (len - cur) (drop cur buf)) of
        (ts, e) \<Rightarrow> Some (rc_of_end e, fold (\<lambda>(_, ty, d). f ty (word_of_nat (length d)) d) ts s))"
  using assms
proof (induction f buf len cur s rule: parse_loop.induct)
  case (1 f buf len cur s)
  show ?case
  proof (cases "cur + 4 \<le> len")
    case False
    then show ?thesis by (subst parse_loop.simps) (simp add: tlvs_short rc_of_end_def)
  next
    case True
    define l where "l = join16 (buf ! (cur + 2)) (buf ! (cur + 3))"
    define t where "t = join16 (buf ! cur) (buf ! (cur + 1))"
    define d where "d = take (unat l) (drop (cur + 4) buf)"
    note g = tag_header_reads [OF True "1.prems"]
    note step = tlvs_step [OF True "1.prems" t_def, of "unat l", unfolded l_def, OF refl, folded l_def, folded d_def]
    have eq: "parse_loop f buf len cur s =
       (if t = 0 then Some (0, s) else if len < cur + unat l + 4 then Some (-1, s)
        else do { d \<leftarrow> rd_bytes buf (cur + 4) (unat l);
                  parse_loop f buf len (cur + 4 + unat l) (f t l d s) })"
      using True g by (subst parse_loop.simps) (simp add: t_def l_def Let_def)
    show ?thesis
    proof (cases "t = 0 \<or> len < cur + unat l + 4")
      case True
      then show ?thesis unfolding eq step by (auto simp: rc_of_end_def)
    next
      case False
      have r: "rd_bytes buf (cur + 4) (unat l) = Some d" and ld: "length d = unat l"
        using False "1.prems" by (auto simp: rd_bytes_def d_def)
      from "1.IH" [OF True g t_def l_def _ _ r "1.prems"] False
      have "parse_loop f buf len (cur + 4 + unat l) (f t l d s) =
         (case tlvs (cur + 4 + unat l) (take (len - (cur + 4 + unat l)) (drop (cur + 4 + unat l) buf)) of
            (ts, e) \<Rightarrow> Some (rc_of_end e, fold (\<lambda>(_, ty, d). f ty (word_of_nat (length d)) d) ts (f t l d s)))"
        by auto
      with False r ld show ?thesis unfolding eq step by (simp split: prod.splits)
    qed
  qed
qed

text \<open>\<open>findTag\<close> returns the first tag of the wanted type, at its offset.\<close>

definition first_tag :: "u16 \<Rightarrow> (nat \<times> u16 \<times> byte_buf) list \<Rightarrow> (nat \<times> ptag) option" where
  "first_tag ty ts = map_option (\<lambda>(off, ty, d). (off, mk_tag ty d)) (find (\<lambda>(off, ty', d). ty' = ty) ts)"

lemma tag_of_bytes_mk:
  assumes "length d = unat (join16 c e)" "length d \<le> 1500"
  shows "tag_of_bytes (a # b # c # e # d) = Some (mk_tag (join16 a b) d)"
  using assms by (simp add: tag_of_bytes_def mk_tag_def htons_def)

lemma find_loop_tlvs:
  assumes "len \<le> length buf" "len \<le> 1504"
  shows "find_loop buf len ty cur =
     Some (first_tag ty (fst (tlvs cur (take (len - cur) (drop cur buf)))))"
  using assms
proof (induction buf len ty cur rule: find_loop.induct)
  case (1 buf len ty cur)
  show ?case
  proof (cases "cur + 4 \<le> len")
    case False
    then show ?thesis by (subst find_loop.simps) (simp add: tlvs_short first_tag_def)
  next
    case True
    define l where "l = join16 (buf ! (cur + 2)) (buf ! (cur + 3))"
    define t where "t = join16 (buf ! cur) (buf ! (cur + 1))"
    define d where "d = take (unat l) (drop (cur + 4) buf)"
    note g = tag_header_reads [OF True "1.prems"(1)]
    note step = tlvs_step [OF True "1.prems"(1) t_def, of "unat l", unfolded l_def, OF refl, folded l_def, folded d_def]
    have eq: "find_loop buf len ty cur =
       (if t = 0 then Some None else if len < cur + unat l + 4 then Some None
        else if t = ty then do { bs \<leftarrow> rd_bytes buf cur (unat l + 4); tag \<leftarrow> tag_of_bytes bs; Some (Some (cur, tag)) }
        else find_loop buf len ty (cur + 4 + unat l))"
      using True g by (subst find_loop.simps) (simp add: t_def l_def Let_def)
    show ?thesis
    proof (cases "t = 0 \<or> len < cur + unat l + 4")
      case True
      then show ?thesis unfolding eq step by (auto simp: first_tag_def)
    next
      case False
      show ?thesis
      proof (cases "t = ty")
        case hit: True
        have ld: "length d = unat l" "length d \<le> 1500" using False "1.prems" by (auto simp: d_def)
        have "take (unat l + 4) (drop cur buf) = buf ! cur # buf ! (cur + 1) # buf ! (cur + 2) # buf ! (cur + 3) # d"
          using False "1.prems" window_split [of cur "cur + unat l + 4" buf]
          by (simp add: d_def)
        then have "rd_bytes buf cur (unat l + 4) =
            Some (buf ! cur # buf ! (cur + 1) # buf ! (cur + 2) # buf ! (cur + 3) # d)"
          using False "1.prems" by (simp add: rd_bytes_def)
        moreover have "tag_of_bytes (buf ! cur # buf ! (cur + 1) # buf ! (cur + 2) # buf ! (cur + 3) # d)
            = Some (mk_tag t d)"
          unfolding t_def by (rule tag_of_bytes_mk) (use ld in \<open>simp_all add: l_def\<close>)
        ultimately show ?thesis
          using False hit unfolding eq step by (auto simp: first_tag_def split: prod.splits)
      next
        case miss: False
        from "1.IH" [OF True g t_def l_def _ _ miss "1.prems"] False
        have "find_loop buf len ty (cur + 4 + unat l) = Some (first_tag ty (fst
           (tlvs (cur + 4 + unat l) (take (len - (cur + 4 + unat l)) (drop (cur + 4 + unat l) buf)))))"
          by auto
        with False miss show ?thesis unfolding eq step by (auto simp: first_tag_def split: prod.splits)
      qed
    qed
  qed
qed

lemma findTag_eq:
  assumes "pkt_wf p"
  shows "findTag p ty = Some (if hdr_ok p then first_tag ty (ptags p) else None)"
  using assms find_loop_tlvs [of "plen p" "payload p" ty 0]
  by (auto simp: findTag_def hdr_ok_def pkt_wf_def ptags_def window_def)

lemma parsePacket_eq:
  assumes "pkt_wf p"
  shows "parsePacket p f s =
     Some (if hdr_ok p
           then (rc_of_end (snd (tlvs 0 (window p))),
                 fold (\<lambda>(_, ty, d). f ty (word_of_nat (length d)) d) (ptags p) s)
           else (-1, s))"
  using assms parse_loop_tlvs [of "plen p" "payload p" f 0 s]
  by (auto simp: parsePacket_def hdr_ok_def pkt_wf_def ptags_def window_def split: prod.splits)

section \<open>Encoding, decoding and editing\<close>

lemma length_enc_tag [simp]: "length (enc_tag ty d) = length d + 4"
  by (simp add: enc_tag_def)

lemma tlvs_enc [simp]:
  assumes "ty \<noteq> 0" "length d < 65536"
  shows "tlvs off (enc_tag ty d @ w) =
     ((off, ty, d) # fst (tlvs (off + 4 + length d) w), snd (tlvs (off + 4 + length d) w))"
  using assms
  by (simp add: enc_tag_def be16_bytes_def tlvs.simps(1) split: prod.split)

lemma tlvs_Cons_inv:
  assumes "tlvs off w = ((o', ty, d) # ts, e)"
  shows "o' = off \<and> ty \<noteq> 0 \<and> length d < 65536 \<and>
     (\<exists>rest. w = enc_tag ty d @ rest \<and> tlvs (off + 4 + length d) rest = (ts, e))"
proof -
  obtain a b c x r where w: "w = a # b # c # x # r"
    using assms by (cases "(off, w)" rule: tlvs.cases) auto
  let ?n = "unat (join16 c x)"
  have n: "?n < 65536" by simp
  from assms w have f: "join16 a b \<noteq> 0" "?n \<le> length r" "o' = off" "ty = join16 a b" "d = take ?n r"
    and rest: "tlvs (off + 4 + ?n) (drop ?n r) = (ts, e)"
    by (auto simp: tlvs.simps(1) split: if_splits prod.splits)
  have "w = enc_tag ty d @ drop ?n r"
    using f by (simp add: w enc_tag_def be16_bytes_def min_absorb2)
  with f n rest show ?thesis by (auto simp: min_absorb2)
qed

definition enc_tags :: "(nat \<times> u16 \<times> byte_buf) list \<Rightarrow> byte_buf" where
  "enc_tags ts = concat (map (\<lambda>(_, ty, d). enc_tag ty d) ts)"

lemma enc_tags_simps [simp]:
  "enc_tags [] = []" "enc_tags ((o', ty, d) # ts) = enc_tag ty d @ enc_tags ts"
  by (simp_all add: enc_tags_def)

lemma tlvs_split:
  "tlvs off w = (pre @ ts, e) \<Longrightarrow>
   \<exists>rest. w = enc_tags pre @ rest \<and> tlvs (off + length (enc_tags pre)) rest = (ts, e)"
proof (induction pre arbitrary: off w)
  case (Cons p pre)
  obtain o' ty d where p: "p = (o', ty, d)" by (cases p) auto
  from Cons.prems have "tlvs off w = ((o', ty, d) # pre @ ts, e)" by (simp add: p)
  from tlvs_Cons_inv [OF this] obtain rest where
    w: "w = enc_tag ty d @ rest" and r: "tlvs (off + 4 + length d) rest = (pre @ ts, e)" by auto
  from Cons.IH [OF r] obtain rest' where
    "rest = enc_tags pre @ rest'" "tlvs (off + 4 + length d + length (enc_tags pre)) rest' = (ts, e)" by auto
  with w show ?case by (auto simp: p algebra_simps)
qed auto

lemma tlvs_shift:
  "tlvs (off + k) w = (map (\<lambda>(o', r). (o' + k, r)) (fst (tlvs off w)), snd (tlvs off w))"
proof (induction off w rule: tlvs.induct)
  case (1 off a b c d rest)
  then show ?case
    by (auto simp: tlvs.simps(1) algebra_simps split: prod.splits)
qed auto

text \<open>Forgetting the offsets, the reading does not depend on where the bytes start.\<close>

definition tvals :: "byte_buf \<Rightarrow> (u16 \<times> byte_buf) list" where
  "tvals w = map snd (fst (tlvs 0 w))"

lemma tvals_off: "map snd (fst (tlvs off w)) = tvals w"
  using tlvs_shift [of 0 off w] by (simp add: tvals_def comp_def split_beta)

lemma tvals_enc [simp]:
  "ty \<noteq> 0 \<Longrightarrow> length d < 65536 \<Longrightarrow> tvals (enc_tag ty d @ w) = (ty, d) # tvals w"
  using tvals_off [of "4 + length d" w] by (simp add: tvals_def)

lemma tvals_enc_tags:
  "\<forall>(o', ty, d) \<in> set ts. ty \<noteq> 0 \<and> length d < 65536 \<Longrightarrow>
   tvals (enc_tags ts @ w) = map snd ts @ tvals w"
  by (induction ts) auto

lemma tlvs_types: "(o', ty, d) \<in> set (fst (tlvs off w)) \<Longrightarrow> ty \<noteq> 0 \<and> length d < 65536"
proof (induction "fst (tlvs off w)" arbitrary: off w)
  case (Cons x xs)
  obtain p q r where x: "x = (p, q, r)" by (cases x) auto
  have "tlvs off w = ((p, q, r) # xs, snd (tlvs off w))" using Cons.hyps(2) x by (metis prod.collapse)
  from tlvs_Cons_inv [OF this] obtain rest where
    "q \<noteq> 0" "length r < 65536" "tlvs (off + 4 + length r) rest = (xs, snd (tlvs off w))" by auto
  with Cons.hyps(1) [of "off + 4 + length r" rest] Cons.prems Cons.hyps(2) [symmetric] x
  show ?case by auto
qed auto

text \<open>Cutting out the bytes of one tag removes exactly that tag.\<close>

lemma tvals_remove:
  assumes "fst (tlvs 0 w) = pre @ (loc, ty, d) # post"
  shows "loc + 4 + length d \<le> length w"
    and "take 4 (drop loc w) @ d = enc_tag ty d"
    and "take (length d) (drop (loc + 4) w) = d"
    and "tvals (take loc w @ drop (loc + 4 + length d) w) = map snd pre @ map snd post"
proof -
  obtain e where "tlvs 0 w = (pre @ (loc, ty, d) # post, e)" using assms by (metis prod.collapse)
  from tlvs_split [OF this] obtain rest where
    w: "w = enc_tags pre @ rest" and r: "tlvs (length (enc_tags pre)) rest = ((loc, ty, d) # post, e)" by auto
  from tlvs_Cons_inv [OF r] obtain rest' where loc: "loc = length (enc_tags pre)"
    and r': "rest = enc_tag ty d @ rest'" "tlvs (loc + 4 + length d) rest' = (post, e)" by auto
  show "loc + 4 + length d \<le> length w" using w r' loc by simp
  show "take 4 (drop loc w) @ d = enc_tag ty d" using w r' loc by (simp add: enc_tag_def)
  show "take (length d) (drop (loc + 4) w) = d" using w r' loc by (simp add: enc_tag_def)
  have pre: "\<forall>(o', ty, d) \<in> set pre. ty \<noteq> 0 \<and> length d < 65536"
    using tlvs_types [of _ _ _ 0 w] assms by auto
  have "take loc w @ drop (loc + 4 + length d) w = enc_tags pre @ rest'"
    using w r' loc by simp
  with tvals_enc_tags [OF pre, of rest'] r'(2) tvals_off [of "loc + 4 + length d" rest']
  show "tvals (take loc w @ drop (loc + 4 + length d) w) = map snd pre @ map snd post" by simp
qed

lemma plen_bound: "plen p < 65536"
  by (simp add: plen_def)

lemma plen_set [simp]: "n < 65536 \<Longrightarrow> plen (p\<lparr>payload := b, plength := htons (word_of_int (int n))\<rparr>) = n"
  by (simp add: plen_def)

lemma insertBytes_ok:
  assumes wf: "pkt_wf p" and loc: "loc \<le> plen p" and len: "len \<le> length bytes"
    and room: "len + plen p \<le> MAX_PPPOE_PAYLOAD"
  shows "\<exists>buf. insertBytes p (int loc) bytes (int len) =
       Some (int len, p\<lparr>payload := buf, plength := htons (word_of_int (int (plen p + len)))\<rparr>) \<and>
     length buf = length (payload p) \<and>
     take (plen p + len) buf = take loc (window p) @ take len bytes @ drop loc (window p)"
proof -
  let ?b = "payload p" and ?n = "plen p"
  have lb: "length ?b = 1508" using wf by (simp add: pkt_wf_def)
  define mv where "mv = take (?n - loc) (drop loc ?b)"
  define b1 where "b1 = take (loc + len) ?b @ mv @ drop (?n + len) ?b"
  define b2 where "b2 = take loc b1 @ take len bytes @ drop (loc + len) b1"
  have lmv: "length mv = ?n - loc" using lb loc room by (simp add: mv_def)
  have r1: "rd_bytes ?b loc (?n - loc) = Some mv" using lb loc room by (simp add: rd_bytes_def mv_def)
  have r2: "wr_bytes ?b (loc + len) mv = Some b1" using lb loc room lmv
    by (simp add: wr_bytes_def b1_def add.commute [of len])
  have lb1: "length b1 = 1508" using lb loc room lmv by (simp add: b1_def)
  have r3: "rd_bytes bytes 0 len = Some (take len bytes)" using len by (simp add: rd_bytes_def)
  have r4: "wr_bytes b1 loc (take len bytes) = Some b2"
    using lb1 loc room len by (simp add: wr_bytes_def b2_def)
  have "insertBytes p (int loc) bytes (int len) =
      Some (int len, p\<lparr>payload := b2, plength := htons (word_of_int (int (?n + len)))\<rparr>)"
    using loc room r1 r2 r3 r4
    by (simp add: insertBytes_def Let_def nat_diff_distrib nat_add_distrib flip: of_nat_add)
  moreover have "length b2 = length ?b" using lb lb1 len loc room by (simp add: b2_def)
  moreover have "take (?n + len) b2 = take loc (window p) @ take len bytes @ drop loc (window p)"
  proof -
    have "take loc b1 = take loc ?b" using lb loc room by (simp add: b1_def)
    moreover have "drop (loc + len) b1 = mv @ drop (?n + len) ?b"
    proof -
      have "length (take (loc + len) ?b) = loc + len" using lb loc room by simp
      then show ?thesis unfolding b1_def by (rule drop_append_exact)
    qed
    ultimately have b2: "b2 = take loc ?b @ take len bytes @ mv @ drop (?n + len) ?b"
      by (simp add: b2_def)
    have "take (?n + len) b2 = take loc ?b @ take len bytes @ mv"
      unfolding b2 using lb loc room len lmv by simp
    with loc show ?thesis by (simp add: window_def mv_def min_absorb1 drop_take)
  qed
  ultimately show ?thesis by blast
qed

lemma removeBytes_ok:
  assumes wf: "pkt_wf p" and n: "plen p \<le> ETH_JUMBO_LEN" and loc: "loc + len \<le> plen p"
  shows "\<exists>buf. removeBytes p (int loc) (int len) =
       Some (int len, p\<lparr>payload := buf, plength := htons (word_of_int (int (plen p - len)))\<rparr>) \<and>
     length buf = length (payload p) \<and>
     take (plen p - len) buf = take loc (window p) @ drop (loc + len) (window p)"
proof -
  let ?b = "payload p" and ?n = "plen p"
  have lb: "length ?b = 1508" using wf by (simp add: pkt_wf_def)
  define mv where "mv = take (?n - loc - len) (drop (loc + len) ?b)"
  define b1 where "b1 = take loc ?b @ mv @ drop (?n - len) ?b"
  have lmv: "length mv = ?n - loc - len" using lb loc n by (simp add: mv_def)
  have r1: "rd_bytes ?b (loc + len) (?n - loc - len) = Some mv"
    using lb loc n by (simp add: rd_bytes_def mv_def)
  have r2: "wr_bytes ?b loc mv = Some b1" using lb loc n lmv by (simp add: wr_bytes_def b1_def)
  have ints: "int ?n - int loc - int len = int (?n - loc - len)" "int ?n - int len = int (?n - len)"
    "int loc + int len = int (loc + len)"
    using loc by auto
  have "removeBytes p (int loc) (int len) =
      Some (int len, p\<lparr>payload := b1, plength := htons (word_of_int (int (?n - len)))\<rparr>)"
    using loc r1 r2 unfolding removeBytes_def Let_def ints
    by (simp del: of_nat_add of_nat_diff)
  moreover have "length b1 = length ?b" using lb lmv loc n by (simp add: b1_def)
  moreover have "take (?n - len) b1 = take loc (window p) @ drop (loc + len) (window p)"
    using lb loc n lmv by (simp add: b1_def window_def mv_def min_absorb1 drop_take add.commute [of len])
  ultimately show ?thesis by blast
qed

section \<open>The operations on the sequence of tags\<close>

lemma length_window: "pkt_wf p \<Longrightarrow> plen p \<le> ETH_JUMBO_LEN \<Longrightarrow> length (window p) = plen p"
  by (simp add: window_def pkt_wf_def)

lemma addTag_ok:
  assumes wf: "pkt_wf p" and ty: "tag_type tag = htons ty" and n: "n = unat (ntohs (tag_length tag))"
    and d: "n \<le> length (tag_payload tag)"
  shows "if n + 4 + plen p \<le> MAX_PPPOE_PAYLOAD
     then \<exists>buf l. addTag p tag = Some (int (n + 4), p\<lparr>payload := buf, plength := l\<rparr>) \<and>
        pkt_wf (p\<lparr>payload := buf, plength := l\<rparr>) \<and> plen (p\<lparr>payload := buf, plength := l\<rparr>) = n + 4 + plen p \<and>
        window (p\<lparr>payload := buf, plength := l\<rparr>) = enc_tag ty (take n (tag_payload tag)) @ window p
     else addTag p tag = Some (-1, p)"
proof -
  have len: "uint (ntohs (tag_length tag)) + int 4 = int (n + 4)" by (simp add: n)
  have n16: "n < 65536" by (simp add: n)
  have tl: "tag_length tag = htons (word_of_nat n)" by (simp add: n)
  have bytes: "take (n + 4) (tag_bytes tag) = enc_tag ty (take n (tag_payload tag))"
    using d unfolding tag_bytes_def enc_tag_def ty tl le16_htons by simp
  show ?thesis
  proof (cases "n + 4 + plen p \<le> 1502")
    case True
    have "n + 4 \<le> length (tag_bytes tag)" using d by (simp add: tag_bytes_def)
    from insertBytes_ok [OF wf le0 this True] obtain buf where
      r: "insertBytes p (int 0) (tag_bytes tag) (int (n + 4)) =
        Some (int (n + 4), p\<lparr>payload := buf, plength := htons (word_of_int (int (plen p + (n + 4))))\<rparr>)"
      and lb: "length buf = length (payload p)"
      and w: "take (plen p + (n + 4)) buf = take 0 (window p) @ take (n + 4) (tag_bytes tag) @ drop 0 (window p)"
      by blast
    have i0: "int 0 = 0" by simp
    let ?p = "p\<lparr>payload := buf, plength := htons (word_of_int (int (plen p + (n + 4))))\<rparr>"
    have pl: "plen ?p = plen p + (n + 4)" using True by (intro plen_set) simp
    have "addTag p tag = Some (int (n + 4), ?p)"
      unfolding addTag_def len using r unfolding i0 .
    moreover have "pkt_wf ?p" using wf lb by (simp add: pkt_wf_def)
    moreover have "plen ?p = n + 4 + plen p" using pl by simp
    moreover have "window ?p = enc_tag ty (take n (tag_payload tag)) @ window p"
      unfolding window_def [of ?p] pl using w bytes by simp
    ultimately show ?thesis using True by (simp only: if_True) blast
  next
    case False
    then show ?thesis unfolding addTag_def len insertBytes_def Let_def by auto
  qed
qed

text \<open>A payload that has a given tag, split at that tag.\<close>

lemma window_at_tag:
  assumes "ptags p = pre @ (loc, ty, d) # post"
  shows "\<exists>rest. window p = enc_tags pre @ enc_tag ty d @ rest \<and> loc = length (enc_tags pre) \<and>
     tvals rest = map snd post \<and> (\<forall>(o', ty, d) \<in> set pre. ty \<noteq> 0 \<and> length d < 65536) \<and> ty \<noteq> 0 \<and> length d < 65536"
proof -
  obtain e where "tlvs 0 (window p) = (pre @ (loc, ty, d) # post, e)"
    using assms by (metis ptags_def prod.collapse)
  from tlvs_split [OF this] obtain rest where
    w: "window p = enc_tags pre @ rest" and r: "tlvs (length (enc_tags pre)) rest = ((loc, ty, d) # post, e)" by auto
  from tlvs_Cons_inv [OF r] obtain rest' where loc: "loc = length (enc_tags pre)" "ty \<noteq> 0" "length d < 65536"
    and r': "rest = enc_tag ty d @ rest'" "tlvs (loc + 4 + length d) rest' = (post, e)" by auto
  have "\<forall>(o', ty, d) \<in> set pre. ty \<noteq> 0 \<and> length d < 65536"
    using tlvs_types [of _ _ _ 0 "window p"] assms by (auto simp: ptags_def)
  moreover have "tvals rest' = map snd post"
    using tvals_off [of "loc + 4 + length d" rest'] r'(2) by simp
  ultimately show ?thesis using w r' loc by auto
qed

text \<open>Overwriting the data of a tag in place.\<close>

lemma wr_in_window:
  assumes wf: "pkt_wf p" and pl: "plen p \<le> ETH_JUMBO_LEN"
    and w: "window p = a @ b @ c" and len: "length b' = length b"
  shows "\<exists>buf. wr_bytes (payload p) (length a) b' = Some buf \<and> length buf = length (payload p) \<and>
     take (plen p) buf = a @ b' @ c"
proof -
  have pay: "payload p = (a @ b @ c) @ drop (plen p) (payload p)"
    using w by (metis append_take_drop_id window_def)
  have n: "plen p = length a + length b + length c"
    using length_window [OF wf pl] w by simp
  let ?t = "drop (plen p) (payload p)"
  have "wr_bytes (payload p) (length a) b' = Some (a @ b' @ c @ ?t)"
    by (subst pay) (simp add: wr_bytes_def len)
  moreover have "length (a @ b' @ c @ ?t) = length (payload p)"
    using arg_cong [OF pay, of length] len by simp
  moreover have "take (plen p) (a @ b' @ c @ ?t) = a @ b' @ c" by (simp add: n len)
  ultimately show ?thesis by blast
qed

end
