(* ===== verification/Relay_Tables.thy ===== *)
theory Relay_Tables
  imports Chain Pppoe_Packet
begin

text \<open>
  The session tables of the PPPoE relay (\<open>relay.h\<close>, \<open>relay.c\<close>): the array of
  sessions with its free and active lists, the array of hash entries with its free
  list and hash chains, and the operations \<open>initRelay\<close>, \<open>addHash\<close>, \<open>unhash\<close>,
  \<open>findSession\<close>, \<open>createSession\<close> and \<open>freeSession\<close>. Pointers into the two arrays are
  indexes; an interface pointer is an index into \<open>Interfaces\<close>. Every dereference is
  checked, so \<open>None\<close> is a NULL or wild access.

  \<open>tables_ok\<close> is the representation invariant. The operations are proved total
  under it, to preserve it, and to act on the lookup map \<open>lookup\<close> as insertion and
  deletion.
\<close>

section \<open>Data (relay.h)\<close>

record iface =
  if_name :: string
  discoverySock :: int
  sessionSock :: int
  clientOK :: bool
  acOK :: bool
  if_mac :: mac

record ses =
  ses_next :: ptr
  ses_prev :: ptr
  acHash :: ptr
  clientHash :: ptr
  epoch :: u32
  sesNum :: u16

record shash =
  h_next :: ptr
  h_prev :: ptr
  h_peer :: ptr
  h_iface :: ptr
  peerMac :: mac
  h_sesNum :: u16
  h_ses :: ptr

record tables =
  NumSessions :: int
  MaxSessions :: int
  AllSessions :: "ses list"
  FreeSessions :: ptr
  ActiveSessions :: ptr
  AllHashes :: "shash list"
  FreeHashes :: ptr
  Buckets :: "nat \<Rightarrow> ptr"

abbreviation (input) "HASHTAB_SIZE \<equiv> (18917::nat)"

section \<open>Operations (relay.c)\<close>

fun hash :: "mac \<Rightarrow> u16 \<Rightarrow> u32" where
  "hash (Mac m0 m1 m2 m3 m4 m5) n =
     (ucast m0 OR push_bit 8 (ucast m1) OR push_bit 16 (ucast m2) OR push_bit 24 (ucast m3)) XOR
     (ucast n OR push_bit 16 (ucast m4) OR push_bit 24 (ucast m5))"

definition bucket :: "mac \<Rightarrow> u16 \<Rightarrow> nat" where
  "bucket m n = unat (hash m n) mod HASHTAB_SIZE"

text \<open>\<open>calloc\<close> yields zeroed entries.\<close>

definition zero_ses :: ses where
  "zero_ses = \<lparr>ses_next = None, ses_prev = None, acHash = None, clientHash = None, epoch = 0, sesNum = 0\<rparr>"

definition zero_shash :: shash where
  "zero_shash = \<lparr>h_next = None, h_prev = None, h_peer = None, h_iface = None,
     peerMac = Mac 0 0 0 0 0 0, h_sesNum = 0, h_ses = None\<rparr>"

text \<open>With no session at all the first assignment to \<open>AllSessions[0]\<close> is out of bounds.\<close>

definition initRelay :: "nat \<Rightarrow> tables option" where
  "initRelay nsess = (if nsess = 0 then None else Some
     \<lparr>NumSessions = 0,
      MaxSessions = int nsess,
      AllSessions = map (\<lambda>i. zero_ses
          \<lparr>ses_prev := (if i = 0 then None else Some (i - 1)),
           ses_next := (if i + 1 < nsess then Some (i + 1) else None),
           sesNum := htons (word_of_nat i + 1)\<rparr>) [0..<nsess],
      FreeSessions = Some 0,
      ActiveSessions = None,
      AllHashes = map (\<lambda>i. zero_shash
          \<lparr>h_prev := (if i = 0 then None else Some (i - 1)),
           h_next := (if i + 1 < 2 * nsess then Some (i + 1) else None)\<rparr>) [0..<2 * nsess],
      FreeHashes = Some 0,
      Buckets = (\<lambda>_. None)\<rparr>)"

definition addHash :: "tables \<Rightarrow> nat \<Rightarrow> tables option" where
  "addHash t sh = do {
     h \<leftarrow> arr_get (AllHashes t) sh;
     let b = bucket (peerMac h) (h_sesNum h);
     hs \<leftarrow> arr_upd (AllHashes t) sh (h_next_update (\<lambda>_. Buckets t b));
     hs \<leftarrow> arr_upd hs sh (h_prev_update (\<lambda>_. None));
     hs \<leftarrow> (case Buckets t b of
              None \<Rightarrow> Some hs
            | Some nx \<Rightarrow> arr_upd hs nx (h_prev_update (\<lambda>_. Some sh)));
     Some (t\<lparr>AllHashes := hs, Buckets := (Buckets t)(b := Some sh)\<rparr>) }"

definition unhash :: "tables \<Rightarrow> nat \<Rightarrow> tables option" where
  "unhash t sh = do {
     h \<leftarrow> arr_get (AllHashes t) sh;
     let b = bucket (peerMac h) (h_sesNum h);
     (hs, p) \<leftarrow> (case h_prev h of
         None \<Rightarrow> Some (AllHashes t, h_next h)
       | Some pv \<Rightarrow> do {
           hs \<leftarrow> arr_upd (AllHashes t) pv (h_next_update (\<lambda>_. h_next h));
           Some (hs, Buckets t b) });
     h \<leftarrow> arr_get hs sh;
     hs \<leftarrow> (case h_next h of
         None \<Rightarrow> Some hs
       | Some nx \<Rightarrow> arr_upd hs nx (h_prev_update (\<lambda>_. h_prev h)));
     hs \<leftarrow> arr_upd hs sh (h_next_update (\<lambda>_. FreeHashes t));
     Some (t\<lparr>AllHashes := hs, Buckets := (Buckets t)(b := p), FreeHashes := Some sh\<rparr>) }"

partial_function (option) find_chain :: "shash list \<Rightarrow> mac \<Rightarrow> u16 \<Rightarrow> ptr \<Rightarrow> ptr option" where
  "find_chain hs m n p =
     (if p = None then Some None
      else do {
        i \<leftarrow> p;
        sh \<leftarrow> arr_get hs i;
        if m = peerMac sh \<and> n = h_sesNum sh then Some (Some i)
        else find_chain hs m n (h_next sh) })"

definition findSession :: "tables \<Rightarrow> mac \<Rightarrow> u16 \<Rightarrow> ptr option" where
  "findSession t m n = find_chain (AllHashes t) m n (Buckets t (bucket m n))"

text \<open>
  \<open>createSession\<close>: \<open>Some (None, t)\<close> is the NULL result. \<open>now\<close> is the global
  \<open>Epoch\<close> at the time of the call.
\<close>

definition createSession ::
  "u32 \<Rightarrow> tables \<Rightarrow> nat \<Rightarrow> nat \<Rightarrow> mac \<Rightarrow> mac \<Rightarrow> u16 \<Rightarrow> (ptr \<times> tables) option" where
  "createSession now t ac cli acMac cliMac acSes =
     (if NumSessions t \<ge> MaxSessions t then Some (None, t)
      else do {
        \<comment> \<open>grab a free session\<close>
        sess \<leftarrow> FreeSessions t;
        s \<leftarrow> arr_get (AllSessions t) sess;
        let t = t\<lparr>FreeSessions := ses_next s, NumSessions := NumSessions t + 1\<rparr>;
        \<comment> \<open>link it to the active list\<close>
        ss \<leftarrow> arr_upd (AllSessions t) sess (ses_next_update (\<lambda>_. ActiveSessions t));
        ss \<leftarrow> (case ActiveSessions t of
                 None \<Rightarrow> Some ss
               | Some nx \<Rightarrow> arr_upd ss nx (ses_prev_update (\<lambda>_. Some sess)));
        ss \<leftarrow> arr_upd ss sess (ses_prev_update (\<lambda>_. None));
        ss \<leftarrow> arr_upd ss sess (epoch_update (\<lambda>_. now));
        \<comment> \<open>get two hash entries\<close>
        ah \<leftarrow> FreeHashes t;
        h \<leftarrow> arr_get (AllHashes t) ah;
        ch \<leftarrow> h_next h;
        h' \<leftarrow> arr_get (AllHashes t) ch;
        hs \<leftarrow> arr_upd (AllHashes t) ah (h_peer_update (\<lambda>_. Some ch));
        hs \<leftarrow> arr_upd hs ch (h_peer_update (\<lambda>_. Some ah));
        ss \<leftarrow> arr_upd ss sess (\<lambda>s. s\<lparr>acHash := Some ah, clientHash := Some ch\<rparr>);
        hs \<leftarrow> arr_upd hs ah (h_iface_update (\<lambda>_. Some ac));
        hs \<leftarrow> arr_upd hs ch (h_iface_update (\<lambda>_. Some cli));
        hs \<leftarrow> arr_upd hs ah (\<lambda>h. h\<lparr>peerMac := acMac, h_sesNum := acSes, h_ses := Some sess\<rparr>);
        s \<leftarrow> arr_get ss sess;
        hs \<leftarrow> arr_upd hs ch (\<lambda>h. h\<lparr>peerMac := cliMac, h_sesNum := sesNum s, h_ses := Some sess\<rparr>);
        let t = t\<lparr>AllSessions := ss, ActiveSessions := Some sess,
                  AllHashes := hs, FreeHashes := h_next h'\<rparr>;
        t \<leftarrow> addHash t ah;
        t \<leftarrow> addHash t ch;
        Some (Some sess, t) })"

definition freeSession :: "tables \<Rightarrow> nat \<Rightarrow> tables option" where
  "freeSession t sess = do {
     s \<leftarrow> arr_get (AllSessions t) sess;
     \<comment> \<open>unlink from active sessions\<close>
     (ss, p) \<leftarrow> (case ses_prev s of
         None \<Rightarrow> Some (AllSessions t, ses_next s)
       | Some pv \<Rightarrow> do {
           ss \<leftarrow> arr_upd (AllSessions t) pv (ses_next_update (\<lambda>_. ses_next s));
           Some (ss, ActiveSessions t) });
     s \<leftarrow> arr_get ss sess;
     ss \<leftarrow> (case ses_next s of
         None \<Rightarrow> Some ss
       | Some nx \<Rightarrow> arr_upd ss nx (ses_prev_update (\<lambda>_. ses_prev s)));
     \<comment> \<open>link onto free list\<close>
     ss \<leftarrow> arr_upd ss sess (ses_next_update (\<lambda>_. FreeSessions t));
     let t = t\<lparr>AllSessions := ss, ActiveSessions := p, FreeSessions := Some sess\<rparr>;
     s \<leftarrow> arr_get (AllSessions t) sess;
     ah \<leftarrow> acHash s;
     t \<leftarrow> unhash t ah;
     s \<leftarrow> arr_get (AllSessions t) sess;
     ch \<leftarrow> clientHash s;
     t \<leftarrow> unhash t ch;
     Some (t\<lparr>NumSessions := NumSessions t - 1\<rparr>) }"

section \<open>The two arrays are node stores\<close>

interpretation hash_store: node_store h_next h_prev "\<lambda>v. h_next_update (\<lambda>_. v)" "\<lambda>v. h_prev_update (\<lambda>_. v)"
  by unfold_locales auto

interpretation ses_store: node_store ses_next ses_prev "\<lambda>v. ses_next_update (\<lambda>_. v)" "\<lambda>v. ses_prev_update (\<lambda>_. v)"
  by unfold_locales auto

lemma addHash_link:
  assumes "sh < length (AllHashes t)"
  shows "addHash t sh =
     (let b = bucket (peerMac (AllHashes t ! sh)) (h_sesNum (AllHashes t ! sh)) in do {
        hs \<leftarrow> hash_store.link_front (AllHashes t) (Buckets t b) sh;
        Some (t\<lparr>AllHashes := hs, Buckets := (Buckets t)(b := Some sh)\<rparr>) })"
  using assms by (simp add: addHash_def hash_store.link_front_def arr_get_def Let_def)

lemma unhash_unlink:
  assumes "sh < length (AllHashes t)"
  shows "unhash t sh =
     (let b = bucket (peerMac (AllHashes t ! sh)) (h_sesNum (AllHashes t ! sh)) in do {
        (hs, p) \<leftarrow> hash_store.unlink (AllHashes t) (Buckets t b) sh;
        hs \<leftarrow> arr_upd hs sh (h_next_update (\<lambda>_. FreeHashes t));
        Some (t\<lparr>AllHashes := hs, Buckets := (Buckets t)(b := p), FreeHashes := Some sh\<rparr>) })"
  using assms
  by (simp add: unhash_def hash_store.unlink_def arr_get_def Let_def split: option.splits)

section \<open>Chains and lookup\<close>

definition key_bucket :: "shash \<Rightarrow> nat" where
  "key_bucket h = bucket (peerMac h) (h_sesNum h)"

text \<open>What the list operations leave alone in an entry, and in a session.\<close>

definition h_core :: "shash \<Rightarrow> ptr \<times> ptr \<times> mac \<times> u16 \<times> ptr" where
  "h_core h = (h_peer h, h_iface h, peerMac h, h_sesNum h, h_ses h)"

definition s_core :: "ses \<Rightarrow> ptr \<times> ptr \<times> u32 \<times> u16" where
  "s_core s = (acHash s, clientHash s, epoch s, sesNum s)"

definition chained :: "(nat \<Rightarrow> nat list) \<Rightarrow> nat set" where
  "chained ch = (\<Union>b. set (ch b))"

definition chains_ok :: "shash list \<Rightarrow> (nat \<Rightarrow> ptr) \<Rightarrow> (nat \<Rightarrow> nat list) \<Rightarrow> bool" where
  "chains_ok hs bk ch \<longleftrightarrow>
     (\<forall>b. dl h_next h_prev hs (bk b) (ch b) \<and> (\<forall>i\<in>set (ch b). key_bucket (hs ! i) = b))"

definition has_key :: "shash list \<Rightarrow> mac \<Rightarrow> u16 \<Rightarrow> nat \<Rightarrow> bool" where
  "has_key hs m n i \<longleftrightarrow> peerMac (hs ! i) = m \<and> h_sesNum (hs ! i) = n"

text \<open>The abstract table: which entry each key (peer address, session number) leads to.\<close>

definition lookup :: "tables \<Rightarrow> mac \<times> u16 \<Rightarrow> ptr" where
  "lookup t k = (case findSession t (fst k) (snd k) of None \<Rightarrow> None | Some r \<Rightarrow> r)"

lemma core_key: "h_core h = h_core h' \<Longrightarrow> key_bucket h = key_bucket h'"
  by (simp add: h_core_def key_bucket_def)

lemma in_chained: "i \<in> chained ch \<longleftrightarrow> (\<exists>b. i \<in> set (ch b))"
  by (auto simp: chained_def)

lemma chained_upd_push [simp]: "chained (ch(b := a # ch b)) = insert a (chained ch)"
  by (auto simp: chained_def split: if_splits)

lemma chains_okD:
  assumes "chains_ok hs bk ch"
  shows "dl h_next h_prev hs (bk b) (ch b)" and "i \<in> set (ch b) \<Longrightarrow> key_bucket (hs ! i) = b"
    and "i \<in> chained ch \<Longrightarrow> i < length hs" and "i \<in> chained ch \<Longrightarrow> i \<in> set (ch (key_bucket (hs ! i)))"
  using assms by (auto simp: chains_ok_def in_chained dl_def)

lemma chained_unlink:
  assumes "chains_ok hs bk ch" and "a \<in> chained ch"
  shows "chained (ch(key_bucket (hs ! a) := remove1 a (ch (key_bucket (hs ! a))))) = chained ch - {a}"
proof -
  have d: "distinct (ch b)" for b using chains_okD(1) [OF assms(1)] dl_distinct by blast
  have "a \<in> set (ch b) \<Longrightarrow> b = key_bucket (hs ! a)" for b using chains_okD(2) [OF assms(1)] by blast
  with d show ?thesis by (auto simp: chained_def split: if_splits)
qed

lemma find_chain_slist:
  "sl h_next hs p ns \<Longrightarrow> find_chain hs m n p = Some (find (has_key hs m n) ns)"
proof (induction ns arbitrary: p)
  case Nil
  then show ?case by (subst find_chain.simps) (simp add: sl_def)
next
  case (Cons a ns)
  have k: "has_key hs m n a \<longleftrightarrow> m = peerMac (hs ! a) \<and> n = h_sesNum (hs ! a)"
    by (auto simp: has_key_def)
  from Cons show ?case by (subst find_chain.simps) (auto simp: arr_get_def k)
qed

lemma dl_sl: "dl nx pv arr p ns \<Longrightarrow> sl nx arr p ns"
  by (auto simp: dl_def sl_def dest: dlist_slist)

lemma findSession_find:
  assumes "chains_ok (AllHashes t) (Buckets t) ch"
  shows "findSession t m n = Some (find (has_key (AllHashes t) m n) (ch (bucket m n)))"
  unfolding findSession_def
  by (rule find_chain_slist) (rule dl_sl, rule chains_okD(1) [OF assms])

lemma lookup_find:
  assumes "chains_ok (AllHashes t) (Buckets t) ch"
  shows "lookup t (m, n) = find (has_key (AllHashes t) m n) (ch (bucket m n))"
  by (simp add: lookup_def findSession_find [OF assms])

lemma has_key_cong: "h_core (hs ! i) = h_core (hs' ! i) \<Longrightarrow> has_key hs m n i = has_key hs' m n i"
  by (simp add: has_key_def h_core_def)

lemma find_has_key_cong:
  "\<forall>i. h_core (hs ! i) = h_core (hs' ! i) \<Longrightarrow> find (has_key hs m n) ns = find (has_key hs' m n) ns"
  by (rule find_cong) (use has_key_cong in blast)+

lemma addHash_ok:
  assumes c: "chains_ok (AllHashes t) (Buckets t) ch"
    and a: "a < length (AllHashes t)" "a \<notin> chained ch"
  defines "b \<equiv> key_bucket (AllHashes t ! a)"
  shows "\<exists>hs. addHash t a = Some (t\<lparr>AllHashes := hs, Buckets := (Buckets t)(b := Some a)\<rparr>) \<and>
     length hs = length (AllHashes t) \<and>
     chains_ok hs ((Buckets t)(b := Some a)) (ch(b := a # ch b)) \<and>
     (\<forall>i. h_core (hs ! i) = h_core (AllHashes t ! i)) \<and>
     (\<forall>i. i \<notin> insert a (chained ch) \<longrightarrow> hs ! i = AllHashes t ! i)"
proof -
  have nin: "a \<notin> set (ch b')" for b' using a(2) by (auto simp: in_chained)
  from hash_store.link_front_ok [OF chains_okD(1) [OF c, of b] a(1) nin]
  obtain hs where r: "hash_store.link_front (AllHashes t) (Buckets t b) a = Some hs"
    and len: "length hs = length (AllHashes t)" and d: "dl h_next h_prev hs (Some a) (a # ch b)"
    and out: "\<And>i. i \<notin> set (a # ch b) \<Longrightarrow> hs ! i = AllHashes t ! i" by blast
  have core: "h_core (hs ! i) = h_core (AllHashes t ! i)" for i
    by (rule hash_store.link_front_frame [OF r]) (simp_all add: h_core_def)
  have same: "key_bucket (hs ! i) = key_bucket (AllHashes t ! i)" for i
    by (rule core_key) (rule core)
  have "dl h_next h_prev hs (Buckets t b') (ch b')" if "b' \<noteq> b" for b'
  proof -
    have "i \<notin> set (a # ch b)" if "i \<in> set (ch b')" for i
      using that \<open>b' \<noteq> b\<close> chains_okD(2) [OF c] nin [of b'] by auto
    with out have "dl h_next h_prev hs (Buckets t b') (ch b') = dl h_next h_prev (AllHashes t) (Buckets t b') (ch b')"
      by (intro dl_cong) (auto simp: len)
    with chains_okD(1) [OF c, of b'] show ?thesis by simp
  qed
  with d have "chains_ok hs ((Buckets t)(b := Some a)) (ch(b := a # ch b))"
    using chains_okD(2) [OF c] by (auto simp: chains_ok_def same b_def)
  moreover have "addHash t a = Some (t\<lparr>AllHashes := hs, Buckets := (Buckets t)(b := Some a)\<rparr>)"
    using r by (simp add: addHash_link [OF a(1)] b_def key_bucket_def)
  ultimately show ?thesis using len core out by (auto simp: in_chained)
qed

lemma unhash_ok:
  assumes c: "chains_ok (AllHashes t) (Buckets t) ch" and a: "a \<in> chained ch"
    and f: "sl h_next (AllHashes t) (FreeHashes t) hf" and dis: "set hf \<inter> chained ch = {}"
  defines "b \<equiv> key_bucket (AllHashes t ! a)"
  shows "\<exists>hs p. unhash t a =
       Some (t\<lparr>AllHashes := hs, Buckets := (Buckets t)(b := p), FreeHashes := Some a\<rparr>) \<and>
     length hs = length (AllHashes t) \<and>
     chains_ok hs ((Buckets t)(b := p)) (ch(b := remove1 a (ch b))) \<and>
     sl h_next hs (Some a) (a # hf) \<and>
     (\<forall>i. h_core (hs ! i) = h_core (AllHashes t ! i))"
proof -
  have ab: "a \<in> set (ch b)" and al: "a < length (AllHashes t)"
    using chains_okD(3,4) [OF c a] by (auto simp: b_def)
  from hash_store.unlink_ok [OF chains_okD(1) [OF c, of b] ab]
  obtain hs0 p where r: "hash_store.unlink (AllHashes t) (Buckets t b) a = Some (hs0, p)"
    and len0: "length hs0 = length (AllHashes t)" and d0: "dl h_next h_prev hs0 p (remove1 a (ch b))"
    and out0: "\<And>i. i \<notin> set (ch b) \<or> i = a \<Longrightarrow> hs0 ! i = AllHashes t ! i" by blast
  define hs where "hs = hs0[a := h_next_update (\<lambda>_. FreeHashes t) (hs0 ! a)]"
  have len: "length hs = length (AllHashes t)" by (simp add: hs_def len0)
  have core0: "h_core (hs0 ! i) = h_core (AllHashes t ! i)" for i
    by (rule hash_store.unlink_frame [OF r]) (simp_all add: h_core_def)
  then have core: "h_core (hs ! i) = h_core (AllHashes t ! i)" for i
    by (cases "i = a") (simp_all add: hs_def nth_list_update h_core_def len0 al)
  then have same: "key_bucket (hs ! i) = key_bucket (AllHashes t ! i)" for i
    by (rule core_key)
  have nin: "a \<notin> set (remove1 a (ch b))"
    using dl_distinct [OF chains_okD(1) [OF c, of b]] by simp
  then have d: "dl h_next h_prev hs p (remove1 a (ch b))"
    using d0 by (subst dl_cong [where arr' = hs0]) (simp_all add: hs_def, metis nth_list_update_neq)
  have "dl h_next h_prev hs (Buckets t b') (ch b')" if "b' \<noteq> b" for b'
  proof -
    have "hs ! i = AllHashes t ! i" if "i \<in> set (ch b')" for i
    proof -
      have "key_bucket (AllHashes t ! i) = b'" "key_bucket (AllHashes t ! a) = b"
        using that ab chains_okD(2) [OF c] by blast+
      with \<open>b' \<noteq> b\<close> chains_okD(2) [OF c, of i b] have "i \<notin> set (ch b)" "i \<noteq> a" by auto
      with out0 show ?thesis by (simp add: hs_def)
    qed
    then have "dl h_next h_prev hs (Buckets t b') (ch b') = dl h_next h_prev (AllHashes t) (Buckets t b') (ch b')"
      by (intro dl_cong) (auto simp: len)
    with chains_okD(1) [OF c, of b'] show ?thesis by simp
  qed
  with d have "chains_ok hs ((Buckets t)(b := p)) (ch(b := remove1 a (ch b)))"
    using chains_okD(2) [OF c] set_remove1_subset [of a "ch b"] by (auto simp: chains_ok_def same)
  moreover have "sl h_next hs (Some a) (a # hf)"
  proof -
    have "hs ! i = AllHashes t ! i" if "i \<in> set hf" for i
    proof -
      have "i \<notin> chained ch" using that dis by blast
      then have "i \<notin> set (ch b)" "i \<noteq> a" using a by (auto simp: in_chained)
      with out0 show ?thesis by (simp add: hs_def)
    qed
    then have "sl h_next hs (FreeHashes t) hf = sl h_next (AllHashes t) (FreeHashes t) hf"
      by (intro sl_cong) (auto simp: len)
    with f al show ?thesis by (simp add: len) (simp add: hs_def len0)
  qed
  moreover have "unhash t a = Some (t\<lparr>AllHashes := hs, Buckets := (Buckets t)(b := p), FreeHashes := Some a\<rparr>)"
    using r al len0 by (simp add: unhash_unlink b_def key_bucket_def hs_def arr_upd_def)
  ultimately show ?thesis using len core by blast
qed

definition key_of :: "shash \<Rightarrow> mac \<times> u16" where
  "key_of h = (peerMac h, h_sesNum h)"

lemma lookup_push:
  assumes c: "chains_ok (AllHashes t) (Buckets t) ch"
    and c': "chains_ok (AllHashes t') (Buckets t') (ch(b := a # ch b))"
    and core: "\<forall>i. h_core (AllHashes t' ! i) = h_core (AllHashes t ! i)"
    and b: "b = key_bucket (AllHashes t ! a)"
  shows "lookup t' = (lookup t)(key_of (AllHashes t ! a) \<mapsto> a)"
proof (rule ext)
  fix k :: "mac \<times> u16"
  obtain m n where k: "k = (m, n)" by (cases k)
  have hk: "find (has_key (AllHashes t') m n) xs = find (has_key (AllHashes t) m n) xs" for xs
    using core find_has_key_cong by blast
  have "has_key (AllHashes t) m n a \<longleftrightarrow> k = key_of (AllHashes t ! a)"
    by (auto simp: has_key_def key_of_def k)
  moreover have "has_key (AllHashes t) m n a \<Longrightarrow> bucket m n = b"
    by (auto simp: b has_key_def key_bucket_def)
  ultimately have "lookup t' (m, n) = (if k = key_of (AllHashes t ! a) then Some a else lookup t (m, n))"
    unfolding lookup_find [OF c'] lookup_find [OF c] hk by simp
  then show "lookup t' k = ((lookup t)(key_of (AllHashes t ! a) \<mapsto> a)) k"
    by (simp add: k)
qed

lemma find_remove1_other: "\<not> P a \<Longrightarrow> find P (remove1 a xs) = find P xs"
  by (induction xs) auto

text \<open>Removing an entry deletes its key, provided no other entry carries the same key.\<close>

lemma lookup_remove:
  assumes c: "chains_ok (AllHashes t) (Buckets t) ch"
    and c': "chains_ok (AllHashes t') (Buckets t') (ch(b := remove1 a (ch b)))"
    and core: "\<forall>i. h_core (AllHashes t' ! i) = h_core (AllHashes t ! i)"
    and b: "b = key_bucket (AllHashes t ! a)" and a: "a \<in> chained ch"
    and uniq: "\<forall>i \<in> chained ch. key_of (AllHashes t ! i) = key_of (AllHashes t ! a) \<longrightarrow> i = a"
  shows "lookup t' = (lookup t)(key_of (AllHashes t ! a) := None)"
proof (rule ext)
  fix k :: "mac \<times> u16"
  obtain m n where k: "k = (m, n)" by (cases k)
  have hk: "find (has_key (AllHashes t') m n) xs = find (has_key (AllHashes t) m n) xs" for xs
    using core find_has_key_cong by blast
  have ka: "has_key (AllHashes t) m n i \<longleftrightarrow> key_of (AllHashes t ! i) = k" for i
    by (auto simp: has_key_def key_of_def k)
  have d: "distinct (ch b)" using chains_okD(1) [OF c] dl_distinct by blast
  show "lookup t' k = ((lookup t)(key_of (AllHashes t ! a) := None)) k"
  proof (cases "k = key_of (AllHashes t ! a)")
    case True
    then have "bucket m n = b" by (simp add: b key_of_def key_bucket_def k)
    moreover have "\<not> has_key (AllHashes t) m n i" if "i \<in> set (remove1 a (ch b))" for i
      using that uniq d True by (auto simp: ka in_chained)
    ultimately have "lookup t' (m, n) = None"
      unfolding lookup_find [OF c'] hk by (auto simp: find_None_iff)
    with True k show ?thesis by simp
  next
    case False
    then have "\<not> has_key (AllHashes t) m n a" by (auto simp: ka)
    then have "lookup t' (m, n) = lookup t (m, n)"
      unfolding lookup_find [OF c'] lookup_find [OF c] hk by (simp add: find_remove1_other)
    with False k show ?thesis by simp
  qed
qed

section \<open>The representation invariant\<close>

definition ses_rep :: "tables \<Rightarrow> nat list \<Rightarrow> nat list \<Rightarrow> bool" where
  "ses_rep t act fr \<longleftrightarrow>
     dl ses_next ses_prev (AllSessions t) (ActiveSessions t) act \<and>
     sl ses_next (AllSessions t) (FreeSessions t) fr \<and>
     distinct (act @ fr) \<and> set (act @ fr) = {..<length (AllSessions t)} \<and>
     NumSessions t = int (length act) \<and> MaxSessions t = int (length (AllSessions t)) \<and>
     length (AllSessions t) < 65535 \<and>
     (\<forall>i < length (AllSessions t). sesNum (AllSessions t ! i) = htons (word_of_nat i + 1))"

definition hash_rep :: "tables \<Rightarrow> (nat \<Rightarrow> nat list) \<Rightarrow> nat list \<Rightarrow> nat list \<Rightarrow> bool" where
  "hash_rep t ch hf fr \<longleftrightarrow>
     chains_ok (AllHashes t) (Buckets t) ch \<and> sl h_next (AllHashes t) (FreeHashes t) hf \<and>
     set hf \<inter> chained ch = {} \<and> length hf = 2 * length fr"

text \<open>An active session and its two hash entries point at each other.\<close>

definition linked :: "nat \<Rightarrow> tables \<Rightarrow> nat \<Rightarrow> nat \<Rightarrow> nat \<Rightarrow> bool" where
  "linked nif t p a c \<longleftrightarrow>
     acHash (AllSessions t ! p) = Some a \<and> clientHash (AllSessions t ! p) = Some c \<and> a \<noteq> c \<and>
     h_peer (AllHashes t ! a) = Some c \<and> h_peer (AllHashes t ! c) = Some a \<and>
     h_ses (AllHashes t ! a) = Some p \<and> h_ses (AllHashes t ! c) = Some p \<and>
     h_sesNum (AllHashes t ! c) = sesNum (AllSessions t ! p) \<and>
     (\<exists>i<nif. h_iface (AllHashes t ! a) = Some i) \<and> (\<exists>i<nif. h_iface (AllHashes t ! c) = Some i)"

definition cross_rep :: "nat \<Rightarrow> tables \<Rightarrow> nat list \<Rightarrow> (nat \<Rightarrow> nat list) \<Rightarrow> bool" where
  "cross_rep nif t act ch \<longleftrightarrow>
     (\<forall>p\<in>set act. \<exists>a c. a \<in> chained ch \<and> c \<in> chained ch \<and> linked nif t p a c) \<and>
     (\<forall>i\<in>chained ch. \<exists>p\<in>set act. h_ses (AllHashes t ! i) = Some p \<and>
        (acHash (AllSessions t ! p) = Some i \<or> clientHash (AllSessions t ! p) = Some i))"

definition tables_rep ::
  "nat \<Rightarrow> tables \<Rightarrow> nat list \<Rightarrow> nat list \<Rightarrow> (nat \<Rightarrow> nat list) \<Rightarrow> nat list \<Rightarrow> bool" where
  "tables_rep nif t act fr ch hf \<longleftrightarrow> ses_rep t act fr \<and> hash_rep t ch hf fr \<and> cross_rep nif t act ch"

definition tables_ok :: "nat \<Rightarrow> tables \<Rightarrow> bool" where
  "tables_ok nif t \<longleftrightarrow> (\<exists>act fr ch hf. tables_rep nif t act fr ch hf)"

section \<open>Creating a session\<close>

lemma ses_link_order:
  assumes "p < length ss" and "q \<noteq> Some p"
  shows "do { ss \<leftarrow> arr_upd ss p (ses_next_update (\<lambda>_. q));
              ss \<leftarrow> (case q of None \<Rightarrow> Some ss | Some nx \<Rightarrow> arr_upd ss nx (ses_prev_update (\<lambda>_. Some p)));
              ss \<leftarrow> arr_upd ss p (ses_prev_update (\<lambda>_. None));
              F ss } = ses_store.link_front ss q p \<bind> F"
  using assms
  by (cases q) (auto simp: ses_store.link_front_def arr_upd_def list_update_swap nth_list_update)

lemma list_update_again: "a \<noteq> c \<Longrightarrow> xs[a := x, c := y, a := z] = xs[a := z, c := y]"
  by (metis list_update_overwrite list_update_swap)

definition created ::
  "u32 \<Rightarrow> tables \<Rightarrow> ses list \<Rightarrow> nat \<Rightarrow> nat \<Rightarrow> nat \<Rightarrow> nat \<Rightarrow> nat \<Rightarrow> mac \<Rightarrow> mac \<Rightarrow> u16 \<Rightarrow> tables" where
  "created now t ss p a c ac cli acMac cliMac acSes =
     t\<lparr>FreeSessions := ses_next (AllSessions t ! p), NumSessions := NumSessions t + 1,
       AllSessions := ss[p := (ss ! p)\<lparr>epoch := now, acHash := Some a, clientHash := Some c\<rparr>],
       ActiveSessions := Some p,
       AllHashes := (AllHashes t)
         [a := (AllHashes t ! a)\<lparr>h_peer := Some c, h_iface := Some ac, peerMac := acMac,
             h_sesNum := acSes, h_ses := Some p\<rparr>,
          c := (AllHashes t ! c)\<lparr>h_peer := Some a, h_iface := Some cli, peerMac := cliMac,
             h_sesNum := sesNum (ss ! p), h_ses := Some p\<rparr>],
       FreeHashes := h_next (AllHashes t ! c)\<rparr>"

lemma createSession_steps:
  assumes "NumSessions t < MaxSessions t" and "FreeSessions t = Some p"
    and "p < length (AllSessions t)" and "ActiveSessions t \<noteq> Some p"
    and "ses_store.link_front (AllSessions t) (ActiveSessions t) p = Some ss"
    and "length ss = length (AllSessions t)"
    and "FreeHashes t = Some a" and "a < length (AllHashes t)"
    and "h_next (AllHashes t ! a) = Some c" and "c < length (AllHashes t)" and "a \<noteq> c"
  shows "createSession now t ac cli acMac cliMac acSes = do {
     t' \<leftarrow> addHash (created now t ss p a c ac cli acMac cliMac acSes) a;
     t' \<leftarrow> addHash t' c;
     Some (Some p, t') }"
  using assms
  by (simp add: createSession_def Let_def ses_link_order)
    (simp add: arr_get_def arr_upd_def created_def list_update_again)

lemma chains_ok_cong:
  assumes "chains_ok hs bk ch" and "length hs' = length hs" and "\<forall>i\<in>chained ch. hs' ! i = hs ! i"
  shows "chains_ok hs' bk ch"
proof -
  have e: "i \<in> set (ch b) \<Longrightarrow> hs' ! i = hs ! i" for i b using assms(3) by (auto simp: in_chained)
  then have "dl h_next h_prev hs' (bk b) (ch b) = dl h_next h_prev hs (bk b) (ch b)" for b
    using assms(2) by (intro dl_cong) auto
  with assms(1) e show ?thesis by (simp add: chains_ok_def)
qed

lemma key_of_core: "h_core h = h_core h' \<Longrightarrow> key_of h = key_of h'"
  by (simp add: h_core_def key_of_def)

lemma addHash_twice:
  assumes c0: "chains_ok (AllHashes t) (Buckets t) ch"
    and a: "a < length (AllHashes t)" "a \<notin> chained ch"
    and c: "c < length (AllHashes t)" "c \<notin> chained ch" and ac: "a \<noteq> c"
  shows "\<exists>t1 hs bk ch'. addHash t a = Some t1 \<and> addHash t1 c = Some (t\<lparr>AllHashes := hs, Buckets := bk\<rparr>) \<and>
     length hs = length (AllHashes t) \<and> chains_ok hs bk ch' \<and> chained ch' = {a, c} \<union> chained ch \<and>
     (\<forall>i. h_core (hs ! i) = h_core (AllHashes t ! i)) \<and>
     (\<forall>i. i \<notin> {a, c} \<union> chained ch \<longrightarrow> hs ! i = AllHashes t ! i) \<and>
     lookup (t\<lparr>AllHashes := hs, Buckets := bk\<rparr>) =
       (lookup t)(key_of (AllHashes t ! a) \<mapsto> a, key_of (AllHashes t ! c) \<mapsto> c)"
proof -
  let ?b = "key_bucket (AllHashes t ! a)"
  from addHash_ok [OF c0 a] obtain hs1 where
    r1: "addHash t a = Some (t\<lparr>AllHashes := hs1, Buckets := (Buckets t)(?b := Some a)\<rparr>)"
    and l1: "length hs1 = length (AllHashes t)"
    and ch1: "chains_ok hs1 ((Buckets t)(?b := Some a)) (ch(?b := a # ch ?b))"
    and k1: "\<forall>i. h_core (hs1 ! i) = h_core (AllHashes t ! i)"
    and o1: "\<forall>i. i \<notin> insert a (chained ch) \<longrightarrow> hs1 ! i = AllHashes t ! i" by blast
  define t1 where "t1 = t\<lparr>AllHashes := hs1, Buckets := (Buckets t)(?b := Some a)\<rparr>"
  define ch1 where "ch1 = ch(?b := a # ch ?b)"
  have f1: "AllHashes t1 = hs1" "chains_ok (AllHashes t1) (Buckets t1) ch1"
    using ch1 by (simp_all add: t1_def ch1_def)
  have in1: "chained ch1 = insert a (chained ch)" by (simp add: ch1_def)
  have lk1: "lookup t1 = (lookup t)(key_of (AllHashes t ! a) \<mapsto> a)"
    by (rule lookup_push [OF c0 f1(2) [unfolded ch1_def]]) (simp_all add: f1 k1)
  let ?d = "key_bucket (AllHashes t1 ! c)"
  have "c < length (AllHashes t1)" "c \<notin> chained ch1" using c ac l1 by (auto simp: f1 in1)
  from addHash_ok [OF f1(2) this] obtain hs2 where
    r2: "addHash t1 c = Some (t1\<lparr>AllHashes := hs2, Buckets := (Buckets t1)(?d := Some c)\<rparr>)"
    and l2: "length hs2 = length (AllHashes t1)"
    and ch2: "chains_ok hs2 ((Buckets t1)(?d := Some c)) (ch1(?d := c # ch1 ?d))"
    and k2: "\<forall>i. h_core (hs2 ! i) = h_core (AllHashes t1 ! i)"
    and o2: "\<forall>i. i \<notin> insert c (chained ch1) \<longrightarrow> hs2 ! i = AllHashes t1 ! i" by blast
  define t2 where "t2 = t1\<lparr>AllHashes := hs2, Buckets := (Buckets t1)(?d := Some c)\<rparr>"
  have f2: "chains_ok (AllHashes t2) (Buckets t2) (ch1(?d := c # ch1 ?d))"
    using ch2 by (simp add: t2_def)
  have "lookup t2 = (lookup t1)(key_of (AllHashes t1 ! c) \<mapsto> c)"
    by (rule lookup_push [OF f1(2) f2]) (simp_all add: t2_def k2)
  moreover have "key_of (AllHashes t1 ! c) = key_of (AllHashes t ! c)"
    using k1 by (intro key_of_core) (simp add: f1)
  moreover have "t2 = t\<lparr>AllHashes := hs2, Buckets := (Buckets t1)(?d := Some c)\<rparr>"
    by (simp add: t2_def t1_def)
  moreover have "chained (ch1(?d := c # ch1 ?d)) = {a, c} \<union> chained ch" by (auto simp: in1)
  ultimately show ?thesis
    using r1 r2 l1 l2 ch2 k1 k2 o1 o2 lk1
    by (intro exI [of _ t1] exI [of _ hs2] exI [of _ "(Buckets t1)(?d := Some c)"]
        exI [of _ "ch1(?d := c # ch1 ?d)"]) (auto simp: f1 in1 t1_def)
qed

section \<open>The abstract session table\<close>

text \<open>
  What a session means to the relay: who is at each end, on which interface, and
  when it was last used. \<open>tables_abs\<close> relates the pointer structure to the list of
  these, most recently created first.
\<close>

record vses =
  v_id :: nat
  v_ac :: "mac \<times> u16"
  v_cli :: "mac \<times> u16"
  v_acif :: nat
  v_cliif :: nat
  v_epoch :: u32

definition view :: "tables \<Rightarrow> nat \<Rightarrow> vses" where
  "view t p =
     (let s = AllSessions t ! p;
          a = AllHashes t ! the (acHash s);
          c = AllHashes t ! the (clientHash s)
      in \<lparr>v_id = p, v_ac = key_of a, v_cli = key_of c,
          v_acif = the (h_iface a), v_cliif = the (h_iface c), v_epoch = epoch s\<rparr>)"

definition tables_abs :: "nat \<Rightarrow> tables \<Rightarrow> vses list \<Rightarrow> bool" where
  "tables_abs nif t S \<longleftrightarrow> (\<exists>act fr ch hf. tables_rep nif t act fr ch hf \<and> S = map (view t) act)"

lemma linked_cong:
  assumes "linked nif t p a c"
    and "s_core (AllSessions t' ! p) = s_core (AllSessions t ! p)"
    and "h_core (AllHashes t' ! a) = h_core (AllHashes t ! a)"
    and "h_core (AllHashes t' ! c) = h_core (AllHashes t ! c)"
  shows "linked nif t' p a c" and "view t' p = view t p"
  using assms by (auto simp: linked_def s_core_def h_core_def view_def key_of_def Let_def)

lemma cross_rep_cong:
  assumes "cross_rep nif t act ch" and "chained ch' = chained ch"
    and "\<forall>p\<in>set act. s_core (AllSessions t' ! p) = s_core (AllSessions t ! p)"
    and "\<forall>i\<in>chained ch. h_core (AllHashes t' ! i) = h_core (AllHashes t ! i)"
  shows "cross_rep nif t' act ch'" and "map (view t') act = map (view t) act"
proof -
  have L: "\<exists>a c. a \<in> chained ch \<and> c \<in> chained ch \<and> linked nif t' p a c \<and> view t' p = view t p"
    if "p \<in> set act" for p
  proof -
    from that assms(1) obtain a c where "a \<in> chained ch" "c \<in> chained ch" "linked nif t p a c"
      by (auto simp: cross_rep_def)
    moreover from this assms(3,4) that linked_cong [of nif t p a c t']
    have "linked nif t' p a c" "view t' p = view t p" by simp_all
    ultimately show ?thesis by blast
  qed
  then show "map (view t') act = map (view t) act" by auto
  have "\<exists>p\<in>set act. h_ses (AllHashes t' ! i) = Some p \<and>
        (acHash (AllSessions t' ! p) = Some i \<or> clientHash (AllSessions t' ! p) = Some i)"
    if i: "i \<in> chained ch" for i
  proof -
    from i assms(1) obtain p where p: "p \<in> set act" "h_ses (AllHashes t ! i) = Some p"
      "acHash (AllSessions t ! p) = Some i \<or> clientHash (AllSessions t ! p) = Some i"
      by (auto simp: cross_rep_def)
    moreover from assms(4) i have "h_ses (AllHashes t' ! i) = h_ses (AllHashes t ! i)"
      by (simp add: h_core_def)
    moreover from assms(3) p(1) have "acHash (AllSessions t' ! p) = acHash (AllSessions t ! p)"
      "clientHash (AllSessions t' ! p) = clientHash (AllSessions t ! p)" by (simp_all add: s_core_def)
    ultimately show ?thesis by auto
  qed
  with L show "cross_rep nif t' act ch'"
    unfolding cross_rep_def assms(2) by blast
qed

lemma tables_repD:
  assumes "tables_rep nif t act fr ch hf"
  shows "ses_rep t act fr" "hash_rep t ch hf fr" "cross_rep nif t act ch"
  using assms by (auto simp: tables_rep_def)

lemma ses_repD:
  assumes "ses_rep t act fr"
  shows "dl ses_next ses_prev (AllSessions t) (ActiveSessions t) act"
    and "sl ses_next (AllSessions t) (FreeSessions t) fr"
    and "distinct (act @ fr)" and "set (act @ fr) = {..<length (AllSessions t)}"
    and "NumSessions t = int (length act)" and "MaxSessions t = int (length (AllSessions t))"
    and "length (AllSessions t) < 65535"
    and "\<And>i. i < length (AllSessions t) \<Longrightarrow> sesNum (AllSessions t ! i) = htons (word_of_nat i + 1)"
  using assms by (auto simp: ses_rep_def)

lemma hash_repD:
  assumes "hash_rep t ch hf fr"
  shows "chains_ok (AllHashes t) (Buckets t) ch" "sl h_next (AllHashes t) (FreeHashes t) hf"
    and "set hf \<inter> chained ch = {}" "length hf = 2 * length fr"
  using assms by (auto simp: hash_rep_def)

text \<open>The counter tells how many free sessions are left.\<close>

lemma ses_count:
  assumes "ses_rep t act fr"
  shows "length act + length fr = length (AllSessions t)"
  using distinct_card [OF ses_repD(3) [OF assms]] ses_repD(4) [OF assms] by simp

lemma full_iff:
  assumes "ses_rep t act fr"
  shows "NumSessions t \<ge> MaxSessions t \<longleftrightarrow> fr = []"
  using ses_count [OF assms] ses_repD(5,6) [OF assms] by (cases fr) auto

lemma createSession_full:
  assumes "tables_rep nif t act [] ch hf"
  shows "createSession now t ac cli acMac cliMac acSes = Some (None, t)"
  using full_iff [OF tables_repD(1) [OF assms]] by (simp add: createSession_def)

text \<open>The session array of a new session, and the entries it takes.\<close>

lemma create_ses_rep:
  assumes sr: "ses_rep t act (p # fr)"
  shows "\<exists>ss. ses_store.link_front (AllSessions t) (ActiveSessions t) p = Some ss \<and>
     length ss = length (AllSessions t) \<and> sesNum (ss ! p) = htons (word_of_nat p + 1) \<and>
     (\<forall>i. s_core (ss ! i) = s_core (AllSessions t ! i)) \<and>
     (\<forall>now a c ac cli am cm n. ses_rep (created now t ss p a c ac cli am cm n) (p # act) fr)"
proof -
  note S = ses_repD [OF sr]
  have P: "p < length (AllSessions t)" "sl ses_next (AllSessions t) (ses_next (AllSessions t ! p)) fr"
    using S(2) by auto
  have pn: "p \<notin> set act" "p \<notin> set fr" "set act \<inter> set fr = {}" using S(3) by auto
  from ses_store.link_front_ok [OF S(1) P(1) pn(1)] obtain ss where
    lf: "ses_store.link_front (AllSessions t) (ActiveSessions t) p = Some ss"
    and lss: "length ss = length (AllSessions t)"
    and dss: "dl ses_next ses_prev ss (Some p) (p # act)"
    and oss: "\<forall>i. i \<notin> set (p # act) \<longrightarrow> ss ! i = AllSessions t ! i" by blast
  have coss: "s_core (ss ! i) = s_core (AllSessions t ! i)" for i
    by (rule ses_store.link_front_frame [OF lf]) (simp_all add: s_core_def)
  have num: "sesNum (ss ! i) = htons (word_of_nat i + 1)" if "i < length (AllSessions t)" for i
    using S(8) [OF that] coss [of i] by (simp add: s_core_def)
  have "ses_rep t' (p # act) fr" if t': "t' = created now t ss p a c ac cli am cm n"
    for now a c ac cli am cm n t'
  proof -
    have "dl ses_next ses_prev (AllSessions t') (Some p) (p # act)"
      using dss by (subst dl_cong [where arr' = ss])
        (auto simp: t' created_def lss intro!: nth_update_field)
    moreover have "sl ses_next (AllSessions t') (ses_next (AllSessions t ! p)) fr"
    proof -
      have "AllSessions t' ! i = AllSessions t ! i" if "i \<in> set fr" for i
      proof -
        from that pn have "i \<noteq> p" "i \<notin> set (p # act)" by auto
        then show ?thesis using oss by (simp add: t' created_def)
      qed
      then show ?thesis
        using P(2) by (subst sl_cong [where arr' = "AllSessions t"]) (auto simp: t' created_def lss)
    qed
    moreover have "sesNum (AllSessions t' ! i) = htons (word_of_nat i + 1)"
      if "i < length (AllSessions t)" for i
      using num [OF that] that P(1) by (simp add: t' created_def nth_list_update lss)
    ultimately show ?thesis using S pn by (auto simp: ses_rep_def t' created_def lss)
  qed
  with lf lss num [OF P(1)] coss show ?thesis by blast
qed

lemma created_hash:
  assumes "a < length (AllHashes t)" "c < length (AllHashes t)" "a \<noteq> c"
    and t1: "t1 = created now t ss p a c ac cli am cm n"
  shows "AllHashes t1 ! a = (AllHashes t ! a)\<lparr>h_peer := Some c, h_iface := Some ac,
      peerMac := am, h_sesNum := n, h_ses := Some p\<rparr>"
    and "AllHashes t1 ! c = (AllHashes t ! c)\<lparr>h_peer := Some a, h_iface := Some cli,
      peerMac := cm, h_sesNum := sesNum (ss ! p), h_ses := Some p\<rparr>"
    and "i \<noteq> a \<Longrightarrow> i \<noteq> c \<Longrightarrow> AllHashes t1 ! i = AllHashes t ! i"
    and "length (AllHashes t1) = length (AllHashes t)"
    and "Buckets t1 = Buckets t" and "FreeHashes t1 = h_next (AllHashes t ! c)"
  using assms by (simp_all add: created_def)

lemma lookup_cong:
  assumes "chains_ok (AllHashes t) (Buckets t) ch" and "Buckets t' = Buckets t"
    and "length (AllHashes t') = length (AllHashes t)"
    and "\<forall>i\<in>chained ch. AllHashes t' ! i = AllHashes t ! i"
  shows "chains_ok (AllHashes t') (Buckets t') ch" and "lookup t' = lookup t"
proof -
  from chains_ok_cong [OF assms(1,3,4)] assms(2)
  show c': "chains_ok (AllHashes t') (Buckets t') ch" by simp
  have e: "i \<in> set (ch b) \<Longrightarrow> AllHashes t' ! i = AllHashes t ! i" for i b
    using assms(4) by (auto simp: in_chained)
  have "find (has_key (AllHashes t') m n) (ch (bucket m n)) = find (has_key (AllHashes t) m n) (ch (bucket m n))"
    for m n
    by (rule find_cong) (auto simp: has_key_def e)
  then show "lookup t' = lookup t"
    by (auto simp: fun_eq_iff lookup_find [OF assms(1)] lookup_find [OF c'])
qed

lemma create_hash_rep:
  assumes hr: "hash_rep t ch (a # c # hf) (p # fr)"
    and t1: "t1 = created now t ss p a c ac cli am cm n"
  shows "\<exists>t2 hs bk ch'. addHash t1 a = Some t2 \<and> addHash t2 c = Some (t1\<lparr>AllHashes := hs, Buckets := bk\<rparr>) \<and>
     hash_rep (t1\<lparr>AllHashes := hs, Buckets := bk\<rparr>) ch' hf fr \<and>
     chained ch' = {a, c} \<union> chained ch \<and>
     (\<forall>i\<in>chained ch. h_core (hs ! i) = h_core (AllHashes t ! i)) \<and>
     h_core (hs ! a) = (Some c, Some ac, am, n, Some p) \<and>
     h_core (hs ! c) = (Some a, Some cli, cm, sesNum (ss ! p), Some p) \<and>
     lookup (t1\<lparr>AllHashes := hs, Buckets := bk\<rparr>) = (lookup t)((am, n) \<mapsto> a, (cm, sesNum (ss ! p)) \<mapsto> c)"
proof -
  note H = hash_repD [OF hr]
  have F: "a < length (AllHashes t)" "c < length (AllHashes t)"
    "sl h_next (AllHashes t) (h_next (AllHashes t ! c)) hf"
    using H(2) by auto
  have nin: "a \<notin> chained ch" "c \<notin> chained ch" "a \<noteq> c" "a \<notin> set hf" "c \<notin> set hf" "set hf \<inter> chained ch = {}"
    using H(3) sl_distinct [OF H(2)] by auto
  note ch = created_hash [OF F(1,2) nin(3) t1]
  have "\<forall>i\<in>chained ch. AllHashes t1 ! i = AllHashes t ! i"
  proof
    fix i assume "i \<in> chained ch"
    then have "i \<noteq> a" "i \<noteq> c" using nin(1,2) by auto
    then show "AllHashes t1 ! i = AllHashes t ! i" by (rule ch(3))
  qed
  note keep = this and lc = lookup_cong [OF H(1) ch(5,4) this]
  from addHash_twice [OF lc(1) _ nin(1) _ nin(2,3)] F(1,2) ch(4) obtain t2 hs bk ch' where
    r: "addHash t1 a = Some t2" "addHash t2 c = Some (t1\<lparr>AllHashes := hs, Buckets := bk\<rparr>)"
    and l2: "length hs = length (AllHashes t1)" and ch2: "chains_ok hs bk ch'"
    and in2: "chained ch' = {a, c} \<union> chained ch"
    and k2: "\<forall>i. h_core (hs ! i) = h_core (AllHashes t1 ! i)"
    and o2: "\<forall>i. i \<notin> {a, c} \<union> chained ch \<longrightarrow> hs ! i = AllHashes t1 ! i"
    and lk: "lookup (t1\<lparr>AllHashes := hs, Buckets := bk\<rparr>) =
       (lookup t1)(key_of (AllHashes t1 ! a) \<mapsto> a, key_of (AllHashes t1 ! c) \<mapsto> c)" by auto
  have "hs ! i = AllHashes t ! i" if "i \<in> set hf" for i
  proof -
    have "i \<noteq> a" "i \<noteq> c" "i \<notin> chained ch" using that nin by auto
    then show ?thesis using o2 ch(3) by simp
  qed
  then have "sl h_next hs (h_next (AllHashes t ! c)) hf"
    using F(3) l2 ch(4) by (subst sl_cong [where arr' = "AllHashes t"]) auto
  then have "hash_rep (t1\<lparr>AllHashes := hs, Buckets := bk\<rparr>) ch' hf fr"
    using ch2 in2 nin H(4) ch(6) by (auto simp: hash_rep_def)
  moreover have "\<forall>i\<in>chained ch. h_core (hs ! i) = h_core (AllHashes t ! i)"
    using k2 keep by simp
  moreover have "h_core (hs ! a) = (Some c, Some ac, am, n, Some p)"
    "h_core (hs ! c) = (Some a, Some cli, cm, sesNum (ss ! p), Some p)"
    using k2 by (simp_all add: ch(1,2)) (simp_all add: h_core_def)
  moreover have "lookup (t1\<lparr>AllHashes := hs, Buckets := bk\<rparr>) = (lookup t)((am, n) \<mapsto> a, (cm, sesNum (ss ! p)) \<mapsto> c)"
    by (simp add: lk lc(2) ch(1,2) key_of_def)
  ultimately show ?thesis using r in2 by blast
qed

lemma createSession_ok:
  assumes rep: "tables_rep nif t act (p # fr) ch hf" and ifs: "ac < nif" "cli < nif"
  shows "\<exists>a c t' ch' hf'.
     createSession now t ac cli acMac cliMac acSes = Some (Some p, t') \<and>
     tables_rep nif t' (p # act) fr ch' hf' \<and>
     acHash (AllSessions t' ! p) = Some a \<and> clientHash (AllSessions t' ! p) = Some c \<and>
     view t' p = \<lparr>v_id = p, v_ac = (acMac, acSes), v_cli = (cliMac, htons (word_of_nat p + 1)),
        v_acif = ac, v_cliif = cli, v_epoch = now\<rparr> \<and>
     map (view t') act = map (view t) act \<and>
     lookup t' = (lookup t)((acMac, acSes) \<mapsto> a, (cliMac, htons (word_of_nat p + 1)) \<mapsto> c)"
proof -
  note sr = tables_repD(1) [OF rep] and hr = tables_repD(2) [OF rep] and cr = tables_repD(3) [OF rep]
  note S = ses_repD [OF sr] and H = hash_repD [OF hr]
  obtain a hf0 where "hf = a # hf0" using H(4) by (cases hf) auto
  moreover obtain c hf' where "hf0 = c # hf'" using H(4) calculation by (cases hf0) auto
  ultimately have hf: "hf = a # c # hf'" by simp
  have F: "FreeHashes t = Some a" "a < length (AllHashes t)" "h_next (AllHashes t ! a) = Some c"
    "c < length (AllHashes t)" "a \<noteq> c" "a \<notin> chained ch" "c \<notin> chained ch"
    using H(2,3) sl_distinct [OF H(2)] by (auto simp: hf)
  have P: "FreeSessions t = Some p" "p < length (AllSessions t)" "p \<notin> set act"
    using S(2,3) by auto
  have ne: "ActiveSessions t \<noteq> Some p" using S(1) P(3) by (auto simp: dl_def)
  have less: "NumSessions t < MaxSessions t" using full_iff [OF sr] by simp
  let ?n = "htons (word_of_nat p + 1) :: u16"
  from create_ses_rep [OF sr] obtain ss where
    lf: "ses_store.link_front (AllSessions t) (ActiveSessions t) p = Some ss"
    and lss: "length ss = length (AllSessions t)" and num: "sesNum (ss ! p) = ?n"
    and coss: "\<forall>i. s_core (ss ! i) = s_core (AllSessions t ! i)"
    and sr': "ses_rep (created now t ss p a c ac cli acMac cliMac acSes) (p # act) fr" by blast
  define t1 where "t1 = created now t ss p a c ac cli acMac cliMac acSes"
  from create_hash_rep [OF hr [unfolded hf] t1_def] num
  obtain t2 hs bk ch' where
    r: "addHash t1 a = Some t2" "addHash t2 c = Some (t1\<lparr>AllHashes := hs, Buckets := bk\<rparr>)"
    and hr': "hash_rep (t1\<lparr>AllHashes := hs, Buckets := bk\<rparr>) ch' hf' fr"
    and in2: "chained ch' = {a, c} \<union> chained ch"
    and old_h: "\<forall>i\<in>chained ch. h_core (hs ! i) = h_core (AllHashes t ! i)"
    and ka: "h_core (hs ! a) = (Some c, Some ac, acMac, acSes, Some p)"
    and kc: "h_core (hs ! c) = (Some a, Some cli, cliMac, ?n, Some p)"
    and lk: "lookup (t1\<lparr>AllHashes := hs, Buckets := bk\<rparr>) = (lookup t)((acMac, acSes) \<mapsto> a, (cliMac, ?n) \<mapsto> c)"
    by auto
  define t' where "t' = t1\<lparr>AllHashes := hs, Buckets := bk\<rparr>"
  note t's = t'_def t1_def created_def
  have th: "AllHashes t' = hs" by (simp add: t'_def)
  have run: "createSession now t ac cli acMac cliMac acSes = Some (Some p, t')"
    using r by (simp add: createSession_steps [OF less P(1,2) ne lf lss F(1,2,3,4,5)] t1_def [symmetric] t'_def)
  have ssp: "AllSessions t' ! p = (ss ! p)\<lparr>epoch := now, acHash := Some a, clientHash := Some c\<rparr>"
    using P(2) lss by (simp add: t's)
  have ses': "ses_rep t' (p # act) fr" using sr' by (simp add: ses_rep_def t's)
  have old_s: "\<forall>q\<in>set act. s_core (AllSessions t' ! q) = s_core (AllSessions t ! q)"
  proof
    fix q assume "q \<in> set act"
    with P(3) have "q \<noteq> p" by auto
    with coss show "s_core (AllSessions t' ! q) = s_core (AllSessions t ! q)" by (simp add: t's)
  qed
  have old_h': "\<forall>i\<in>chained ch. h_core (AllHashes t' ! i) = h_core (AllHashes t ! i)"
    using old_h by (simp add: t'_def)
  note cc = cross_rep_cong [OF cr refl old_s old_h']
  have lp: "linked nif t' p a c"
    using ka kc ifs F(5) num by (auto simp: linked_def ssp h_core_def th)
  have "cross_rep nif t' (p # act) ch'"
    using cc(1) lp by (auto simp: cross_rep_def in2 linked_def)
  moreover have "view t' p = \<lparr>v_id = p, v_ac = (acMac, acSes), v_cli = (cliMac, ?n),
        v_acif = ac, v_cliif = cli, v_epoch = now\<rparr>"
    using ka kc by (simp add: view_def ssp h_core_def key_of_def Let_def th)
  ultimately show ?thesis
    using run ses' hr' cc(2) lk ssp
    by (intro exI [of _ a] exI [of _ c] exI [of _ t'] exI [of _ ch'] exI [of _ hf'])
      (simp add: tables_rep_def t'_def)
qed

section \<open>Freeing a session\<close>

definition keys_unique :: "tables \<Rightarrow> (nat \<Rightarrow> nat list) \<Rightarrow> bool" where
  "keys_unique t ch \<longleftrightarrow> inj_on (\<lambda>i. key_of (AllHashes t ! i)) (chained ch)"

lemma unhash_twice:
  assumes c0: "chains_ok (AllHashes t) (Buckets t) ch" and f0: "sl h_next (AllHashes t) (FreeHashes t) hf"
    and dis: "set hf \<inter> chained ch = {}" and ac: "a \<in> chained ch" "c \<in> chained ch" "a \<noteq> c"
  shows "\<exists>t1 hs bk ch'. unhash t a = Some t1 \<and>
     unhash t1 c = Some (t\<lparr>AllHashes := hs, Buckets := bk, FreeHashes := Some c\<rparr>) \<and>
     AllSessions t1 = AllSessions t \<and>
     length hs = length (AllHashes t) \<and> chains_ok hs bk ch' \<and> chained ch' = chained ch - {a, c} \<and>
     sl h_next hs (Some c) (c # a # hf) \<and>
     (\<forall>i. h_core (hs ! i) = h_core (AllHashes t ! i)) \<and>
     (keys_unique t ch \<longrightarrow> lookup (t\<lparr>AllHashes := hs, Buckets := bk, FreeHashes := Some c\<rparr>) =
        (lookup t)(key_of (AllHashes t ! a) := None, key_of (AllHashes t ! c) := None))"
proof -
  let ?b = "key_bucket (AllHashes t ! a)"
  from unhash_ok [OF c0 ac(1) f0 dis] obtain hs1 p1 where
    r1: "unhash t a = Some (t\<lparr>AllHashes := hs1, Buckets := (Buckets t)(?b := p1), FreeHashes := Some a\<rparr>)"
    and l1: "length hs1 = length (AllHashes t)"
    and ch1: "chains_ok hs1 ((Buckets t)(?b := p1)) (ch(?b := remove1 a (ch ?b)))"
    and fr1: "sl h_next hs1 (Some a) (a # hf)"
    and k1: "\<forall>i. h_core (hs1 ! i) = h_core (AllHashes t ! i)" by blast
  define t1 where "t1 = t\<lparr>AllHashes := hs1, Buckets := (Buckets t)(?b := p1), FreeHashes := Some a\<rparr>"
  define ch1 where "ch1 = ch(?b := remove1 a (ch ?b))"
  have f1: "AllHashes t1 = hs1" "FreeHashes t1 = Some a" "chains_ok (AllHashes t1) (Buckets t1) ch1"
    using ch1 by (simp_all add: t1_def ch1_def)
  have in1: "chained ch1 = chained ch - {a}"
    unfolding ch1_def by (rule chained_unlink [OF c0 ac(1)])
  have kk: "key_of (AllHashes t1 ! i) = key_of (AllHashes t ! i)" for i
    using k1 by (intro key_of_core) (simp add: f1)
  have u1: "\<forall>i \<in> chained ch. key_of (AllHashes t ! i) = key_of (AllHashes t ! j) \<longrightarrow> i = j"
    if "keys_unique t ch" "j \<in> chained ch" for j
    using that by (auto simp: keys_unique_def inj_on_def)
  have lk1: "lookup t1 = (lookup t)(key_of (AllHashes t ! a) := None)" if "keys_unique t ch"
    by (rule lookup_remove [OF c0 f1(3) [unfolded ch1_def] _ refl ac(1) u1 [OF that ac(1)]])
      (simp add: f1 k1)
  let ?d = "key_bucket (AllHashes t1 ! c)"
  have c1: "c \<in> chained ch1" using ac by (simp add: in1)
  have "sl h_next (AllHashes t1) (FreeHashes t1) (a # hf)" "set (a # hf) \<inter> chained ch1 = {}"
    using fr1 dis by (auto simp: f1 in1)
  from unhash_ok [OF f1(3) c1 this] obtain hs2 p2 where
    r2: "unhash t1 c = Some (t1\<lparr>AllHashes := hs2, Buckets := (Buckets t1)(?d := p2), FreeHashes := Some c\<rparr>)"
    and l2: "length hs2 = length (AllHashes t1)"
    and ch2: "chains_ok hs2 ((Buckets t1)(?d := p2)) (ch1(?d := remove1 c (ch1 ?d)))"
    and fr2: "sl h_next hs2 (Some c) (c # a # hf)"
    and k2: "\<forall>i. h_core (hs2 ! i) = h_core (AllHashes t1 ! i)" by blast
  have in2: "chained (ch1(?d := remove1 c (ch1 ?d))) = chained ch - {a, c}"
    using chained_unlink [OF f1(3) c1] in1 by auto
  define t2 where "t2 = t1\<lparr>AllHashes := hs2, Buckets := (Buckets t1)(?d := p2), FreeHashes := Some c\<rparr>"
  have t2: "t2 = t\<lparr>AllHashes := hs2, Buckets := (Buckets t1)(?d := p2), FreeHashes := Some c\<rparr>"
    by (simp add: t2_def t1_def)
  have f2: "chains_ok (AllHashes t2) (Buckets t2) (ch1(?d := remove1 c (ch1 ?d)))"
    using ch2 by (simp add: t2_def)
  have "lookup t2 = (lookup t)(key_of (AllHashes t ! a) := None, key_of (AllHashes t ! c) := None)"
    if u: "keys_unique t ch"
  proof -
    have "\<forall>i \<in> chained ch1. key_of (AllHashes t1 ! i) = key_of (AllHashes t1 ! c) \<longrightarrow> i = c"
      using u1 [OF u ac(2)] by (simp add: kk in1)
    then have "lookup t2 = (lookup t1)(key_of (AllHashes t1 ! c) := None)"
      by (intro lookup_remove [OF f1(3) f2 _ refl c1]) (simp_all add: t2_def k2)
    with lk1 [OF u] kk show ?thesis by simp
  qed
  with r1 r2 l1 l2 ch2 in2 fr2 k1 k2 show ?thesis
    by (intro exI [of _ t1] exI [of _ hs2] exI [of _ "(Buckets t1)(?d := p2)"]
        exI [of _ "ch1(?d := remove1 c (ch1 ?d))"]) (simp add: t2 f1, simp add: t1_def)
qed

lemma freeSession_steps:
  assumes "ses_store.unlink (AllSessions t) (ActiveSessions t) p = Some (ss, q)"
    and "p < length (AllSessions t)" and "length ss = length (AllSessions t)"
    and "acHash (ss ! p) = Some a" and "clientHash (ss ! p) = Some c"
    and "t0 = t\<lparr>AllSessions := ss[p := (ss ! p)\<lparr>ses_next := FreeSessions t\<rparr>],
           ActiveSessions := q, FreeSessions := Some p\<rparr>"
    and "unhash t0 a = Some t1" and "AllSessions t1 = AllSessions t0"
  shows "freeSession t p = do { t' \<leftarrow> unhash t1 c; Some (t'\<lparr>NumSessions := NumSessions t' - 1\<rparr>) }"
proof -
  have "freeSession t p = do {
     (ss, q) \<leftarrow> ses_store.unlink (AllSessions t) (ActiveSessions t) p;
     ss \<leftarrow> arr_upd ss p (ses_next_update (\<lambda>_. FreeSessions t));
     let t = t\<lparr>AllSessions := ss, ActiveSessions := q, FreeSessions := Some p\<rparr>;
     s \<leftarrow> arr_get (AllSessions t) p;
     ah \<leftarrow> acHash s;
     t \<leftarrow> unhash t ah;
     s \<leftarrow> arr_get (AllSessions t) p;
     ch \<leftarrow> clientHash s;
     t \<leftarrow> unhash t ch;
     Some (t\<lparr>NumSessions := NumSessions t - 1\<rparr>) }"
    using assms(2)
    by (simp add: freeSession_def ses_store.unlink_def arr_get_def split: option.splits)
  with assms show ?thesis by (simp add: arr_upd_def arr_get_def Let_def)
qed

lemma free_ses_rep:
  assumes sr: "ses_rep t act fr" and p: "p \<in> set act"
  shows "\<exists>ss q. ses_store.unlink (AllSessions t) (ActiveSessions t) p = Some (ss, q) \<and>
     length ss = length (AllSessions t) \<and>
     (\<forall>i. s_core (ss ! i) = s_core (AllSessions t ! i)) \<and>
     (\<forall>hs bk fh. ses_rep
        (t\<lparr>AllSessions := ss[p := (ss ! p)\<lparr>ses_next := FreeSessions t\<rparr>],
           ActiveSessions := q, FreeSessions := Some p, AllHashes := hs, Buckets := bk,
           FreeHashes := fh, NumSessions := NumSessions t - 1\<rparr>) (remove1 p act) (p # fr))"
proof -
  note S = ses_repD [OF sr]
  have da: "distinct act" "p \<notin> set fr" "p < length (AllSessions t)" using S(3,4) p by auto
  from ses_store.unlink_ok [OF S(1) p] obtain ss q where
    r: "ses_store.unlink (AllSessions t) (ActiveSessions t) p = Some (ss, q)"
    and l: "length ss = length (AllSessions t)"
    and d: "dl ses_next ses_prev ss q (remove1 p act)"
    and o: "\<forall>i. i \<notin> set act \<or> i = p \<longrightarrow> ss ! i = AllSessions t ! i" by blast
  have core: "s_core (ss ! i) = s_core (AllSessions t ! i)" for i
    by (rule ses_store.unlink_frame [OF r]) (simp_all add: s_core_def)
  define ss' where "ss' = ss[p := (ss ! p)\<lparr>ses_next := FreeSessions t\<rparr>]"
  have nb: "ss' ! i = ss ! i" if "i \<noteq> p" for i using that by (simp add: ss'_def)
  have "i \<in> set (remove1 p act) \<Longrightarrow> ss' ! i = ss ! i" for i using da(1) nb by (cases "i = p") auto
  then have "dl ses_next ses_prev ss' q (remove1 p act)"
    using d by (subst dl_cong [where arr' = ss]) (simp_all add: ss'_def)
  moreover have "sl ses_next ss' (Some p) (p # fr)"
  proof -
    have "ss' ! i = AllSessions t ! i" if "i \<in> set fr" for i
    proof -
      have "i \<notin> set act" "i \<noteq> p" using that S(3) da(2) by auto
      then show ?thesis using nb o by simp
    qed
    then have "sl ses_next ss' (FreeSessions t) fr"
      using S(2) by (subst sl_cong [where arr' = "AllSessions t"]) (auto simp: ss'_def l)
    then show ?thesis using da l by (simp add: ss'_def)
  qed
  moreover have "sesNum (ss' ! i) = htons (word_of_nat i + 1)" if "i < length (AllSessions t)" for i
    using S(8) [OF that] core [of i] nth_update_field [of sesNum _ ss p i]
    by (simp add: ss'_def s_core_def)
  moreover have "distinct (remove1 p act @ p # fr)" "set (remove1 p act @ p # fr) = set (act @ fr)"
    using S(3) da p by auto
  moreover have "length act = Suc (length (remove1 p act))"
    using length_pos_if_in_set [OF p] length_remove1 [of p act] p by simp
  ultimately show ?thesis
    using r l core S da(3) by (intro exI [of _ ss] exI [of _ q]) (simp add: ses_rep_def ss'_def)
qed

lemma linked_inj:
  assumes "linked nif t p a c" "linked nif t p' a' c'" "p \<noteq> p'"
  shows "a' \<notin> {a, c}" "c' \<notin> {a, c}"
  using assms by (auto simp: linked_def)

lemma freeSession_ok:
  assumes rep: "tables_rep nif t act fr ch hf" and p: "p \<in> set act"
  shows "\<exists>t' ch' hf'. freeSession t p = Some t' \<and>
     tables_rep nif t' (remove1 p act) (p # fr) ch' hf' \<and>
     map (view t') (remove1 p act) = map (view t) (remove1 p act) \<and>
     (keys_unique t ch \<longrightarrow> lookup t' = (lookup t)(v_ac (view t p) := None, v_cli (view t p) := None))"
proof -
  note sr = tables_repD(1) [OF rep] and hr = tables_repD(2) [OF rep] and cr = tables_repD(3) [OF rep]
  note H = hash_repD [OF hr]
  from cr p obtain a c where ac: "a \<in> chained ch" "c \<in> chained ch" and lk: "linked nif t p a c"
    by (auto simp: cross_rep_def)
  then have acs: "a \<noteq> c" "acHash (AllSessions t ! p) = Some a" "clientHash (AllSessions t ! p) = Some c"
    by (auto simp: linked_def)
  have pl: "p < length (AllSessions t)" and dact: "distinct act" using ses_repD(3,4) [OF sr] p by auto
  from free_ses_rep [OF sr p] obtain ss q where
    ul: "ses_store.unlink (AllSessions t) (ActiveSessions t) p = Some (ss, q)"
    and l: "length ss = length (AllSessions t)" and core: "\<forall>i. s_core (ss ! i) = s_core (AllSessions t ! i)"
    and sr': "\<And>hs bk fh. ses_rep
        (t\<lparr>AllSessions := ss[p := (ss ! p)\<lparr>ses_next := FreeSessions t\<rparr>],
           ActiveSessions := q, FreeSessions := Some p, AllHashes := hs, Buckets := bk,
           FreeHashes := fh, NumSessions := NumSessions t - 1\<rparr>) (remove1 p act) (p # fr)" by blast
  define t0 where "t0 = t\<lparr>AllSessions := ss[p := (ss ! p)\<lparr>ses_next := FreeSessions t\<rparr>],
           ActiveSessions := q, FreeSessions := Some p\<rparr>"
  have t0: "AllHashes t0 = AllHashes t" "Buckets t0 = Buckets t" "FreeHashes t0 = FreeHashes t"
    "lookup t0 = lookup t" "keys_unique t0 = keys_unique t"
    by (simp_all add: t0_def lookup_def [abs_def] findSession_def keys_unique_def [abs_def])
  from unhash_twice [of t0 ch hf a c] H ac acs(1) obtain t1 hs bk ch' where
    r: "unhash t0 a = Some t1" "unhash t1 c = Some (t0\<lparr>AllHashes := hs, Buckets := bk, FreeHashes := Some c\<rparr>)"
    and s1: "AllSessions t1 = AllSessions t0" and lhs: "length hs = length (AllHashes t)"
    and ch': "chains_ok hs bk ch'" and in': "chained ch' = chained ch - {a, c}"
    and free: "sl h_next hs (Some c) (c # a # hf)"
    and k: "\<forall>i. h_core (hs ! i) = h_core (AllHashes t ! i)"
    and lkp: "keys_unique t ch \<longrightarrow> lookup (t0\<lparr>AllHashes := hs, Buckets := bk, FreeHashes := Some c\<rparr>) =
        (lookup t)(key_of (AllHashes t ! a) := None, key_of (AllHashes t ! c) := None)"
    unfolding t0 by blast
  define t' where "t' = t0\<lparr>AllHashes := hs, Buckets := bk, FreeHashes := Some c, NumSessions := NumSessions t - 1\<rparr>"
  note t's = t'_def t0_def
  have "acHash (ss ! p) = Some a" "clientHash (ss ! p) = Some c"
    using core acs(2,3) by (simp_all add: s_core_def)
  then have run: "freeSession t p = Some t'"
    using r(2) by (simp add: freeSession_steps [OF ul pl l _ _ t0_def r(1) s1] t's)
  have ses': "ses_rep t' (remove1 p act) (p # fr)" using sr' pl by (simp add: ses_rep_def t's l)
  have hash': "hash_rep t' ch' (c # a # hf) (p # fr)"
    using ch' free H(3,4) in' by (auto simp: hash_rep_def t's)
  have old_s: "\<forall>q. s_core (AllSessions t' ! q) = s_core (AllSessions t ! q)"
    using core nth_update_field [of s_core _ ss p] by (simp add: t's s_core_def)
  have old_h: "\<forall>i. h_core (AllHashes t' ! i) = h_core (AllHashes t ! i)" using k by (simp add: t's)
  have cross: "cross_rep nif t (remove1 p act) ch'"
    unfolding cross_rep_def
  proof (intro conjI ballI)
    fix q assume q: "q \<in> set (remove1 p act)"
    with dact have "q \<in> set act" "p \<noteq> q" by auto
    with cr obtain a' c' where "a' \<in> chained ch" "c' \<in> chained ch" "linked nif t q a' c'"
      by (auto simp: cross_rep_def)
    with linked_inj [OF lk this(3) \<open>p \<noteq> q\<close>]
    show "\<exists>a c. a \<in> chained ch' \<and> c \<in> chained ch' \<and> linked nif t q a c" by (auto simp: in')
  next
    fix i assume i: "i \<in> chained ch'"
    with cr in' obtain q where q: "q \<in> set act" "h_ses (AllHashes t ! i) = Some q"
      "acHash (AllSessions t ! q) = Some i \<or> clientHash (AllSessions t ! q) = Some i"
      by (auto simp: cross_rep_def)
    moreover have "q \<noteq> p"
    proof
      assume "q = p"
      with q(3) acs(2,3) have "i = a \<or> i = c" by fastforce
      with i show False by (auto simp: in')
    qed
    ultimately show "\<exists>p'\<in>set (remove1 p act). h_ses (AllHashes t ! i) = Some p' \<and>
        (acHash (AllSessions t ! p') = Some i \<or> clientHash (AllSessions t ! p') = Some i)"
      using dact by auto
  qed
  have "lookup t' = lookup (t0\<lparr>AllHashes := hs, Buckets := bk, FreeHashes := Some c\<rparr>)"
    by (simp add: t'_def lookup_def [abs_def] findSession_def)
  then have "keys_unique t ch \<longrightarrow> lookup t' = (lookup t)(v_ac (view t p) := None, v_cli (view t p) := None)"
    using lkp acs by (simp add: view_def Let_def)
  with run ses' hash' cross_rep_cong [OF cross refl, of t'] old_s old_h show ?thesis
    by (intro exI [of _ t'] exI [of _ ch'] exI [of _ "c # a # hf"]) (simp add: tables_rep_def)
qed

section \<open>Start-up and lookup\<close>

lemma slist_upto:
  assumes "\<And>i. i < n \<Longrightarrow> nx i = (if i + 1 < n then Some (i + 1) else None)"
  shows "k < n \<Longrightarrow> slist nx (Some k) [k..<n]"
proof (induction "n - k" arbitrary: k)
  case (Suc d)
  show ?case
  proof (cases "k + 1 < n")
    case True
    with Suc have "slist nx (Some (k + 1)) [k + 1..<n]" by simp
    with True Suc.prems assms [of k] show ?thesis by (simp add: upt_conv_Cons)
  next
    case False
    with Suc.prems have "n = Suc k" by simp
    with assms [of k] show ?thesis by simp
  qed
qed simp

lemma initRelay_rep:
  assumes "0 < n" and "n < 65535"
  shows "\<exists>t. initRelay n = Some t \<and> tables_rep nif t [] [0..<n] (\<lambda>_. []) [0..<2 * n] \<and>
     MaxSessions t = int n"
proof -
  from assms obtain t where t: "initRelay n = Some t" by (simp add: initRelay_def)
  have L: "length (AllSessions t) = n" "length (AllHashes t) = 2 * n"
    using t assms by (auto simp: initRelay_def)
  have "slist (\<lambda>i. ses_next (AllSessions t ! i)) (Some 0) [0..<n]"
    using t assms by (intro slist_upto) (auto simp: initRelay_def)
  moreover have "slist (\<lambda>i. h_next (AllHashes t ! i)) (Some 0) [0..<2 * n]"
    using t assms by (intro slist_upto) (auto simp: initRelay_def)
  moreover have F: "FreeSessions t = Some 0" "FreeHashes t = Some 0" "ActiveSessions t = None"
    "Buckets t = (\<lambda>_. None)" "NumSessions t = 0" "MaxSessions t = int n"
    "\<And>i. i < n \<Longrightarrow> sesNum (AllSessions t ! i) = htons (word_of_nat i + 1)"
    using t assms by (auto simp: initRelay_def)
  moreover have "chained (\<lambda>_. []) = {}" by (auto simp: chained_def)
  ultimately have "ses_rep t [] [0..<n]" "hash_rep t (\<lambda>_. []) [0..<2 * n] [0..<n]"
    using assms L by (simp_all add: ses_rep_def hash_rep_def sl_def chains_ok_def atLeast0LessThan)
  moreover have "cross_rep nif t [] (\<lambda>_. [])" by (simp add: cross_rep_def chained_def)
  ultimately show ?thesis using t F by (simp add: tables_rep_def)
qed

lemma linked_view:
  assumes "linked nif t p a c"
  shows "v_id (view t p) = p" "v_ac (view t p) = key_of (AllHashes t ! a)" "v_cli (view t p) = key_of (AllHashes t ! c)"
    "h_iface (AllHashes t ! a) = Some (v_acif (view t p))" "h_iface (AllHashes t ! c) = Some (v_cliif (view t p))"
    "v_acif (view t p) < nif" "v_cliif (view t p) < nif"
  using assms by (auto simp: linked_def view_def Let_def)

lemma v_id_view [simp]: "v_id (view t p) = p"
  by (simp add: view_def Let_def)

text \<open>Every chained entry is one end of an active session, and every active session has both ends chained.\<close>

lemma chained_entry:
  assumes rep: "tables_rep nif t act fr ch hf" and i: "i \<in> chained ch"
  shows "\<exists>p\<in>set act. \<exists>a c. linked nif t p a c \<and> a \<in> chained ch \<and> c \<in> chained ch \<and> (i = a \<or> i = c)"
proof -
  note cr = tables_repD(3) [OF rep]
  from cr i obtain p where p: "p \<in> set act" "acHash (AllSessions t ! p) = Some i \<or> clientHash (AllSessions t ! p) = Some i"
    by (auto simp: cross_rep_def)
  with cr obtain a c where "linked nif t p a c" "a \<in> chained ch" "c \<in> chained ch" by (auto simp: cross_rep_def)
  moreover from this p(2) have "i = a \<or> i = c" by (auto simp: linked_def)
  ultimately show ?thesis using p(1) by blast
qed

lemma findSession_ok:
  assumes rep: "tables_rep nif t act fr ch hf"
  shows "\<exists>r. findSession t m n = Some r \<and> lookup t (m, n) = r \<and>
     (case r of
        None \<Rightarrow> \<forall>p\<in>set act. v_ac (view t p) \<noteq> (m, n) \<and> v_cli (view t p) \<noteq> (m, n)
      | Some i \<Rightarrow> key_of (AllHashes t ! i) = (m, n) \<and>
          (\<exists>p\<in>set act. \<exists>a c. linked nif t p a c \<and> (i = a \<or> i = c)))"
proof -
  note cr = tables_repD(3) [OF rep] and H = hash_repD [OF tables_repD(2) [OF rep]]
  let ?r = "find (has_key (AllHashes t) m n) (ch (bucket m n))"
  have hk: "has_key (AllHashes t) m n i \<longleftrightarrow> key_of (AllHashes t ! i) = (m, n)" for i
    by (simp add: has_key_def key_of_def)
  have "v_ac (view t p) \<noteq> (m, n) \<and> v_cli (view t p) \<noteq> (m, n)" if r: "?r = None" and p: "p \<in> set act" for p
  proof -
    from cr p obtain a c where ac: "linked nif t p a c" "a \<in> chained ch" "c \<in> chained ch"
      by (auto simp: cross_rep_def)
    have "key_of (AllHashes t ! i) \<noteq> (m, n)" if "i \<in> chained ch" for i
    proof
      assume k: "key_of (AllHashes t ! i) = (m, n)"
      then have "key_bucket (AllHashes t ! i) = bucket m n" by (simp add: key_of_def key_bucket_def)
      with chains_okD(4) [OF H(1) that] r k show False by (auto simp: find_None_iff hk)
    qed
    with ac linked_view [OF ac(1)] show ?thesis by simp
  qed
  moreover have "key_of (AllHashes t ! i) = (m, n) \<and> (\<exists>p\<in>set act. \<exists>a c. linked nif t p a c \<and> (i = a \<or> i = c))"
    if "?r = Some i" for i
  proof -
    from that have "i \<in> set (ch (bucket m n))" "key_of (AllHashes t ! i) = (m, n)"
      by (auto simp: find_Some_iff hk)
    with chained_entry [OF rep, of i] show ?thesis by (auto simp: in_chained)
  qed
  ultimately show ?thesis
    using findSession_find [OF H(1)] lookup_find [OF H(1)] by (simp split: option.split)
qed

definition keys_of :: "vses list \<Rightarrow> (mac \<times> u16) list" where
  "keys_of S = concat (map (\<lambda>v. [v_ac v, v_cli v]) S)"

lemma keys_unique_iff:
  assumes rep: "tables_rep nif t act fr ch hf" and d: "distinct (keys_of (map (view t) act))"
  shows "keys_unique t ch"
proof -
  let ?E = "concat (map (\<lambda>p. [the (acHash (AllSessions t ! p)), the (clientHash (AllSessions t ! p))]) act)"
  have "keys_of (map (view t) act) = map (\<lambda>i. key_of (AllHashes t ! i)) ?E"
    by (simp add: keys_of_def view_def Let_def map_concat comp_def)
  with d have inj: "inj_on (\<lambda>i. key_of (AllHashes t ! i)) (set ?E)" by (simp add: distinct_map)
  have "chained ch \<subseteq> set ?E"
  proof
    fix i assume "i \<in> chained ch"
    from chained_entry [OF rep this] obtain p a c where "p \<in> set act" "linked nif t p a c" "i = a \<or> i = c"
      by blast
    then show "i \<in> set ?E" by (auto simp: linked_def intro!: bexI [of _ p])
  qed
  with inj show ?thesis unfolding keys_unique_def by (rule inj_on_subset)
qed

section \<open>The operations on the abstract table\<close>

lemma remove1_view:
  "distinct act \<Longrightarrow> map (view t) (remove1 p act) = filter (\<lambda>v. v_id v \<noteq> p) (map (view t) act)"
  by (simp add: distinct_remove1_removeAll removeAll_filter_not_eq filter_map comp_def) metis

lemma abs_facts:
  assumes "tables_abs nif t S"
  shows "NumSessions t = int (length S)" "int (length S) \<le> MaxSessions t" "MaxSessions t < 65535"
    "distinct (map v_id S)" "\<forall>v\<in>set S. int (v_id v) < MaxSessions t \<and> v_acif v < nif \<and> v_cliif v < nif"
proof -
  from assms obtain act fr ch hf where rep: "tables_rep nif t act fr ch hf" and S: "S = map (view t) act"
    by (auto simp: tables_abs_def)
  note R = ses_repD [OF tables_repD(1) [OF rep]] and n = ses_count [OF tables_repD(1) [OF rep]]
    and cr = tables_repD(3) [OF rep]
  show "NumSessions t = int (length S)" using R S by simp
  show "int (length S) \<le> MaxSessions t" using R S n by simp
  show "MaxSessions t < 65535" using R by simp
  have "map v_id S = act" using S by (simp add: comp_def)
  then show "distinct (map v_id S)" using R(3) by simp
  have "p < length (AllSessions t) \<and> v_acif (view t p) < nif \<and> v_cliif (view t p) < nif" if "p \<in> set act" for p
  proof -
    from cr that obtain a c where "linked nif t p a c" by (auto simp: cross_rep_def)
    from linked_view(6,7) [OF this] R(4) that show ?thesis by auto
  qed
  then show "\<forall>v\<in>set S. int (v_id v) < MaxSessions t \<and> v_acif v < nif \<and> v_cliif v < nif"
    using R(6) S by auto
qed

lemma init_abs:
  assumes "0 < n" and "n < 65535"
  shows "\<exists>t. initRelay n = Some t \<and> tables_abs nif t [] \<and> MaxSessions t = int n"
  using initRelay_rep [OF assms, of nif] by (fastforce simp: tables_abs_def)

lemma create_abs:
  assumes "tables_abs nif t S" and "ac < nif" "cli < nif"
  shows "if int (length S) < MaxSessions t
     then \<exists>p t' v. createSession now t ac cli acMac cliMac acSes = Some (Some p, t') \<and>
        tables_abs nif t' (v # S) \<and> p \<notin> v_id ` set S \<and>
        v = \<lparr>v_id = p, v_ac = (acMac, acSes), v_cli = (cliMac, htons (word_of_nat p + 1)),
          v_acif = ac, v_cliif = cli, v_epoch = now\<rparr> \<and> MaxSessions t' = MaxSessions t \<and>
        sesNum (AllSessions t' ! p) = htons (word_of_nat p + 1) \<and> p < length (AllSessions t') \<and>
        (\<exists>a c. a \<noteq> c \<and> lookup t' = (lookup t)((acMac, acSes) \<mapsto> a, (cliMac, htons (word_of_nat p + 1)) \<mapsto> c))
     else createSession now t ac cli acMac cliMac acSes = Some (None, t)"
proof -
  from assms(1) obtain act fr ch hf where rep: "tables_rep nif t act fr ch hf" and S: "S = map (view t) act"
    by (auto simp: tables_abs_def)
  note n = ses_count [OF tables_repD(1) [OF rep]] and R = ses_repD [OF tables_repD(1) [OF rep]]
  show ?thesis
  proof (cases fr)
    case Nil
    with n R(6) S have "\<not> int (length S) < MaxSessions t" by simp
    with createSession_full [OF rep [unfolded Nil]] show ?thesis by simp
  next
    case (Cons p fr')
    from createSession_ok [OF rep [unfolded Cons] assms(2,3), of now acMac cliMac acSes] obtain a c t' ch' hf' where
      T: "createSession now t ac cli acMac cliMac acSes = Some (Some p, t')"
      "tables_rep nif t' (p # act) fr' ch' hf'"
      "acHash (AllSessions t' ! p) = Some a" "clientHash (AllSessions t' ! p) = Some c"
      "view t' p = \<lparr>v_id = p, v_ac = (acMac, acSes), v_cli = (cliMac, htons (word_of_nat p + 1)),
         v_acif = ac, v_cliif = cli, v_epoch = now\<rparr>"
      "map (view t') act = map (view t) act"
      "lookup t' = (lookup t)((acMac, acSes) \<mapsto> a, (cliMac, htons (word_of_nat p + 1)) \<mapsto> c)"
      by blast
    note R' = ses_repD [OF tables_repD(1) [OF T(2)]] and n' = ses_count [OF tables_repD(1) [OF T(2)]]
    from T(2) have "a \<noteq> c" using T(3,4) by (auto simp: tables_rep_def cross_rep_def linked_def)
    moreover have "int (length S) < MaxSessions t" using n R(6) S Cons by simp
    moreover have "p \<notin> v_id ` set S" using R'(3) S by auto
    moreover have "MaxSessions t' = MaxSessions t" using n n' R(6) R'(6) Cons by simp
    moreover have "p < length (AllSessions t')" using R'(4) by auto
    moreover have "tables_abs nif t' (view t' p # S)"
      unfolding tables_abs_def using T(2,6) S
      by (intro exI [of _ "p # act"] exI [of _ fr'] exI [of _ ch'] exI [of _ hf']) simp
    ultimately show ?thesis using T R'(8) by auto
  qed
qed

lemma free_abs:
  assumes "tables_abs nif t S" and "p \<in> v_id ` set S"
  shows "\<exists>t'. freeSession t p = Some t' \<and> tables_abs nif t' (filter (\<lambda>v. v_id v \<noteq> p) S) \<and>
     MaxSessions t' = MaxSessions t \<and>
     (distinct (keys_of S) \<longrightarrow> (\<forall>v\<in>set S. v_id v = p \<longrightarrow> lookup t' = (lookup t)(v_ac v := None, v_cli v := None)))"
proof -
  from assms(1) obtain act fr ch hf where rep: "tables_rep nif t act fr ch hf" and S: "S = map (view t) act"
    by (auto simp: tables_abs_def)
  have p: "p \<in> set act" using assms(2) S by auto
  from freeSession_ok [OF rep p] obtain t' ch' hf' where
    T: "freeSession t p = Some t'" "tables_rep nif t' (remove1 p act) (p # fr) ch' hf'"
      "map (view t') (remove1 p act) = map (view t) (remove1 p act)"
      "keys_unique t ch \<longrightarrow> lookup t' = (lookup t)(v_ac (view t p) := None, v_cli (view t p) := None)" by blast
  note R = ses_repD [OF tables_repD(1) [OF rep]] and R' = ses_repD [OF tables_repD(1) [OF T(2)]]
  note n = ses_count [OF tables_repD(1) [OF rep]] ses_count [OF tables_repD(1) [OF T(2)]]
  have "length act = Suc (length (remove1 p act))"
    using length_pos_if_in_set [OF p] length_remove1 [of p act] p by simp
  with n R(6) R'(6) have "MaxSessions t' = MaxSessions t" by simp
  moreover have "tables_abs nif t' (filter (\<lambda>v. v_id v \<noteq> p) S)"
    using T(2,3) remove1_view [of act t p] R(3) S unfolding tables_abs_def by (metis distinct_append)
  ultimately show ?thesis using T(1,4) keys_unique_iff [OF rep] S by auto
qed

text \<open>
  The two ends of a session as the code reaches them from a hash entry: entry \<open>i\<close>
  is the end the frame came from, \<open>j\<close> its peer.
\<close>

definition end_keys :: "vses \<Rightarrow> bool \<Rightarrow> (mac \<times> u16) \<times> nat" where
  "end_keys v acside = (if acside then (v_ac v, v_acif v) else (v_cli v, v_cliif v))"

definition ends :: "tables \<Rightarrow> vses \<Rightarrow> bool \<Rightarrow> nat \<Rightarrow> nat \<Rightarrow> bool" where
  "ends t v acside i j \<longleftrightarrow>
     i < length (AllHashes t) \<and> j < length (AllHashes t) \<and> v_id v < length (AllSessions t) \<and>
     h_peer (AllHashes t ! i) = Some j \<and>
     h_ses (AllHashes t ! i) = Some (v_id v) \<and> h_ses (AllHashes t ! j) = Some (v_id v) \<and>
     (key_of (AllHashes t ! i), h_iface (AllHashes t ! i)) = (fst (end_keys v acside), Some (snd (end_keys v acside))) \<and>
     (key_of (AllHashes t ! j), h_iface (AllHashes t ! j)) = (fst (end_keys v (\<not> acside)), Some (snd (end_keys v (\<not> acside))))"

lemma linked_ends:
  assumes rep: "tables_rep nif t act fr ch hf" and p: "p \<in> set act" and L: "linked nif t p a c"
  shows "ends t (view t p) True a c" and "ends t (view t p) False c a"
proof -
  note cr = tables_repD(3) [OF rep] and H = hash_repD [OF tables_repD(2) [OF rep]]
  from cr p obtain a' c' where "linked nif t p a' c'" "a' \<in> chained ch" "c' \<in> chained ch"
    by (auto simp: cross_rep_def)
  with L chains_okD(3) [OF H(1)] have "a < length (AllHashes t)" "c < length (AllHashes t)"
    by (auto simp: linked_def)
  moreover have "p < length (AllSessions t)" using ses_repD(4) [OF tables_repD(1) [OF rep]] p by auto
  ultimately show "ends t (view t p) True a c" and "ends t (view t p) False c a"
    using linked_view [OF L] L by (simp_all add: ends_def end_keys_def linked_def)
qed

lemma find_abs:
  assumes "tables_abs nif t S"
  shows "\<exists>r. findSession t m n = Some r \<and>
     (case r of
        None \<Rightarrow> \<forall>v\<in>set S. v_ac v \<noteq> (m, n) \<and> v_cli v \<noteq> (m, n)
      | Some i \<Rightarrow> \<exists>v\<in>set S. \<exists>acside j. fst (end_keys v acside) = (m, n) \<and> ends t v acside i j)"
proof -
  from assms obtain act fr ch hf where rep: "tables_rep nif t act fr ch hf" and S: "S = map (view t) act"
    by (auto simp: tables_abs_def)
  from findSession_ok [OF rep, of m n] obtain r where r: "findSession t m n = Some r"
    and c: "case r of
        None \<Rightarrow> \<forall>p\<in>set act. v_ac (view t p) \<noteq> (m, n) \<and> v_cli (view t p) \<noteq> (m, n)
      | Some i \<Rightarrow> key_of (AllHashes t ! i) = (m, n) \<and>
          (\<exists>p\<in>set act. \<exists>a c. linked nif t p a c \<and> (i = a \<or> i = c))" by blast
  show ?thesis
  proof (cases r)
    case None
    with r c S show ?thesis by simp
  next
    case (Some i)
    with c obtain p a c where p: "p \<in> set act" "linked nif t p a c" "i = a \<or> i = c"
      and k: "key_of (AllHashes t ! i) = (m, n)" by auto
    from linked_ends [OF rep p(1,2)] p(3) obtain acside j where e: "ends t (view t p) acside i j" by blast
    with k have "fst (end_keys (view t p) acside) = (m, n)" by (simp add: ends_def)
    with e p(1) S Some r show ?thesis by auto
  qed
qed

text \<open>\<open>ses->epoch = Epoch\<close>\<close>

definition touch :: "u32 \<Rightarrow> tables \<Rightarrow> nat \<Rightarrow> tables option" where
  "touch now t p = do {
     ss \<leftarrow> arr_upd (AllSessions t) p (epoch_update (\<lambda>_. now));
     Some (t\<lparr>AllSessions := ss\<rparr>) }"

lemma touch_abs:
  assumes "tables_abs nif t S" and "p < length (AllSessions t)"
  shows "\<exists>t'. touch now t p = Some t' \<and>
     tables_abs nif t' (map (\<lambda>v. if v_id v = p then v\<lparr>v_epoch := now\<rparr> else v) S) \<and>
     AllHashes t' = AllHashes t \<and> length (AllSessions t') = length (AllSessions t) \<and> MaxSessions t' = MaxSessions t \<and>
     (\<forall>i. sesNum (AllSessions t' ! i) = sesNum (AllSessions t ! i))"
proof -
  from assms obtain act fr ch hf where rep: "tables_rep nif t act fr ch hf" and S: "S = map (view t) act"
    by (auto simp: tables_abs_def)
  define ss where "ss = (AllSessions t)[p := (AllSessions t ! p)\<lparr>epoch := now\<rparr>]"
  define t' where "t' = t\<lparr>AllSessions := ss\<rparr>"
  have e: "f (ss ! i) = f (AllSessions t ! i)" if "\<And>s. f (s\<lparr>epoch := now\<rparr>) = f s" for f :: "ses \<Rightarrow> 'b" and i
    unfolding ss_def using that by (intro nth_update_field) simp
  have l: "length ss = length (AllSessions t)" by (simp add: ss_def)
  note R = tables_repD [OF rep]
  have "dl ses_next ses_prev ss q ns = dl ses_next ses_prev (AllSessions t) q ns"
    "sl ses_next ss q ns = sl ses_next (AllSessions t) q ns" for q ns
    using e [of ses_next] e [of ses_prev] l by (auto intro!: dl_cong sl_cong)
  then have "ses_rep t' act fr" using R(1) e [of sesNum] by (simp add: ses_rep_def t'_def l)
  moreover have "hash_rep t' ch hf fr" using R(2) by (simp add: hash_rep_def t'_def)
  moreover have "cross_rep nif t' act ch"
    using R(3) e [of acHash] e [of clientHash] e [of sesNum] by (simp add: cross_rep_def linked_def t'_def)
  ultimately have "tables_rep nif t' act fr ch hf" by (simp add: tables_rep_def)
  moreover have "view t' q = (if q = p then (view t q)\<lparr>v_epoch := now\<rparr> else view t q)" for q
    using assms(2) by (simp add: view_def t'_def ss_def Let_def)
  then have "map (view t') act = map (\<lambda>v. if v_id v = p then v\<lparr>v_epoch := now\<rparr> else v) S"
    by (simp add: S)
  ultimately have "tables_abs nif t' (map (\<lambda>v. if v_id v = p then v\<lparr>v_epoch := now\<rparr> else v) S)"
    unfolding tables_abs_def by metis
  moreover have "touch now t p = Some t'" using assms(2) by (simp add: touch_def arr_upd_def t'_def ss_def)
  ultimately show ?thesis using e [of sesNum] l by (intro exI [of _ t']) (simp add: t'_def)
qed

lemma abs_sesNum:
  assumes "tables_abs nif t S" and "v \<in> set S"
  shows "v_id v < length (AllSessions t)" "sesNum (AllSessions t ! v_id v) = htons (word_of_nat (v_id v) + 1)"
proof -
  from assms(1) obtain act fr ch hf where rep: "tables_rep nif t act fr ch hf" and S: "S = map (view t) act"
    by (auto simp: tables_abs_def)
  note R = ses_repD [OF tables_repD(1) [OF rep]]
  from assms(2) S have "v_id v \<in> set act" by auto
  with R(4) show "v_id v < length (AllSessions t)" by auto
  then show "sesNum (AllSessions t ! v_id v) = htons (word_of_nat (v_id v) + 1)" by (rule R(8))
qed

end
