(* ===== verification/Relay.thy ===== *)
theory Relay
  imports Relay_Tables
begin

text \<open>
  The packet handlers of the PPPoE relay daemon (\<open>relay.c\<close>): what it does with
  each discovery packet, with each session packet, when the alarm rings and when the
  session cleaner runs. The state is the set of the daemon's globals plus the log
  \<open>sent\<close> of the frames it has handed to \<open>send\<close>, each with its socket.

  A received packet is a \<open>packet\<close> record together with the size \<open>recv\<close>
  returned. The bytes beyond that size are whatever the stack held, so they are
  arbitrary; the same holds of the frame \<open>relaySendError\<close> builds, of which only
  initialised bytes are sent.
\<close>

record relay =
  Interfaces :: "iface list"
  tabs :: tables
  Epoch :: u32
  CleanCounter :: u32
  CleanPeriod :: u32
  IdleTimeout :: u32
  clean_pipe :: nat
  sent :: "(int \<times> byte_buf) list"

abbreviation (input) "MY_RELAY_TAG_LEN \<equiv> (10::nat)"
abbreviation (input) "MAX_INTERFACES \<equiv> (8::nat)"

section \<open>Sending\<close>

definition sendPacket :: "relay \<Rightarrow> int \<Rightarrow> packet \<Rightarrow> int \<Rightarrow> relay option" where
  "sendPacket st sock p sz =
     (if sz < 0 then None
      else do {
        bs \<leftarrow> rd_bytes (frame_bytes p) 0 (nat sz);
        Some (st\<lparr>sent := sent st @ [(sock, bs)]\<rparr>) })"

definition relaySendError ::
  "relay \<Rightarrow> u8 \<Rightarrow> u16 \<Rightarrow> nat \<Rightarrow> mac \<Rightarrow> ptag option \<Rightarrow> string \<Rightarrow> relay option" where
  "relaySendError st code session iface m hostUniq errMsg = do {
     ifc \<leftarrow> arr_get (Interfaces st) iface;
     let p = \<lparr>h_dest = m, h_source = if_mac ifc, h_proto = htons 0x8863,
              vertype = PPPOE_VER_TYPE 1 1, pcode = code, psession = session,
              plength = htons 0, payload = replicate ETH_JUMBO_LEN 0\<rparr>;
     (r, p) \<leftarrow> (case hostUniq of None \<Rightarrow> Some (0, p) | Some hu \<Rightarrow> addTag p hu);
     if r < 0 then Some st
     else do {
       let errTag = \<lparr>tag_type = htons TAG_GENERIC_ERROR,
                     tag_length = htons (word_of_nat (length errMsg)),
                     tag_payload = msg_bytes errMsg @ [0]\<rparr>;
       (r, p) \<leftarrow> addTag p errTag;
       if r < 0 then Some st
       else do {
         let sz = int (plen p) + int HDR_SIZE;
         if code = CODE_PADT then sendPacket st (discoverySock ifc) p sz
         else sendPacket st (sessionSock ifc) p sz } } }"

section \<open>Discovery packets\<close>

fun padi_loop :: "relay \<Rightarrow> nat \<Rightarrow> packet \<Rightarrow> int \<Rightarrow> nat list \<Rightarrow> relay option" where
  "padi_loop st iface p sz [] = Some st"
| "padi_loop st iface p sz (i # is) = do {
     ifc \<leftarrow> arr_get (Interfaces st) i;
     if iface = i then padi_loop st iface p sz is
     else if \<not> acOK ifc then padi_loop st iface p sz is
     else do {
       let p = p\<lparr>h_source := if_mac ifc\<rparr>;
       st \<leftarrow> sendPacket st (discoverySock ifc) p sz;
       padi_loop st iface p sz is } }"

definition relayHandlePADI :: "relay \<Rightarrow> nat \<Rightarrow> packet \<Rightarrow> int \<Rightarrow> relay option" where
  "relayHandlePADI st iface p sz = do {
     ifc \<leftarrow> arr_get (Interfaces st) iface;
     if \<not> clientOK ifc then Some st
     else if NOT_UNICAST (h_source p) then Some st
     else if \<not> BROADCAST (h_dest p) then Some st
     else do {
       loc \<leftarrow> findTag p TAG_RELAY_SESSION_ID;
       case loc of
         None \<Rightarrow> do {
           let tag = \<lparr>tag_type = htons TAG_RELAY_SESSION_ID,
                      tag_length = htons (word_of_nat MY_RELAY_TAG_LEN),
                      tag_payload = le32_bytes (word_of_nat iface) @ mac_bytes (h_source p)\<rparr>;
           (r, p) \<leftarrow> addTag p tag;
           if r < 0 then Some st
           else padi_loop st iface p (sz + r) [0..<length (Interfaces st)] }
       | Some _ \<Rightarrow> Some st } }"

text \<open>
  The middle part of \<open>relayHandlePADO\<close>, \<open>relayHandlePADR\<close> and \<open>relayHandlePADS\<close>
  that reads the relay tag: \<open>Some None\<close> is each early return (no tag, wrong
  length, bad interface index); otherwise the tag's offset, its payload and the index.
  \<open>ok\<close> is the capability the other interface must have.
\<close>

definition relay_tag ::
  "relay \<Rightarrow> nat \<Rightarrow> packet \<Rightarrow> (iface \<Rightarrow> bool) \<Rightarrow> (nat \<times> ptag \<times> nat) option option" where
  "relay_tag st iface p ok = do {
     found \<leftarrow> findTag p TAG_RELAY_SESSION_ID;
     case found of
       None \<Rightarrow> Some None
     | Some (loc, tag) \<Rightarrow>
         if unat (ntohs (tag_length tag)) \<noteq> MY_RELAY_TAG_LEN then Some None
         else do {
           bs \<leftarrow> rd_bytes (tag_payload tag) 0 4;
           ifIndex \<leftarrow> int32 bs;
           if ifIndex < 0 \<or> ifIndex \<ge> int (length (Interfaces st)) then Some None
           else do {
             other \<leftarrow> arr_get (Interfaces st) (nat ifIndex);
             if \<not> ok other \<or> iface = nat ifIndex then Some None
             else Some (Some (loc, tag, nat ifIndex)) } } }"

text \<open>
  The tail \<open>relayHandlePADO\<close> and \<open>relayHandlePADR\<close> share: the tag is overwritten
  with the opposite direction's, the addresses are rewritten and the frame is sent.
\<close>

definition relay_reply ::
  "relay \<Rightarrow> nat \<Rightarrow> packet \<Rightarrow> int \<Rightarrow> nat \<Rightarrow> ptag \<Rightarrow> nat \<Rightarrow> relay option" where
  "relay_reply st iface p sz loc tag ifIndex = do {
     buf \<leftarrow> wr_bytes (payload p) (loc + TAG_HDR_SIZE) (le32_bytes (word_of_nat iface));
     buf \<leftarrow> wr_bytes buf (loc + TAG_HDR_SIZE + 4) (mac_bytes (h_source p));
     let p = p\<lparr>payload := buf\<rparr>;
     bs \<leftarrow> rd_bytes (tag_payload tag) 4 6;
     m \<leftarrow> mac_of bs;
     let p = p\<lparr>h_dest := m\<rparr>;
     other \<leftarrow> arr_get (Interfaces st) ifIndex;
     let p = p\<lparr>h_source := if_mac other\<rparr>;
     sendPacket st (discoverySock other) p sz }"

definition relayHandlePADO :: "relay \<Rightarrow> nat \<Rightarrow> packet \<Rightarrow> int \<Rightarrow> relay option" where
  "relayHandlePADO st iface p sz = do {
     ifc \<leftarrow> arr_get (Interfaces st) iface;
     if \<not> acOK ifc then Some st
     else if BROADCAST (h_source p) then Some st
     else if h_dest p \<noteq> if_mac ifc then Some st
     else do {
       rt \<leftarrow> relay_tag st iface p clientOK;
       case rt of
         None \<Rightarrow> Some st
       | Some (loc, tag, ifIndex) \<Rightarrow> relay_reply st iface p sz loc tag ifIndex } }"

definition relayHandlePADR :: "relay \<Rightarrow> nat \<Rightarrow> packet \<Rightarrow> int \<Rightarrow> relay option" where
  "relayHandlePADR st iface p sz = do {
     ifc \<leftarrow> arr_get (Interfaces st) iface;
     if \<not> clientOK ifc then Some st
     else if NOT_UNICAST (h_source p) then Some st
     else if h_dest p \<noteq> if_mac ifc then Some st
     else do {
       rt \<leftarrow> relay_tag st iface p acOK;
       case rt of
         None \<Rightarrow> Some st
       | Some (loc, tag, ifIndex) \<Rightarrow> relay_reply st iface p sz loc tag ifIndex } }"

text \<open>
  The session part of \<open>relayHandlePADS\<close>: \<open>Inl st\<close> is the early return after the
  table was found full; \<open>Inr\<close> carries on with the packet's new session number.
\<close>

definition pads_session ::
  "relay \<Rightarrow> nat \<Rightarrow> packet \<Rightarrow> nat \<Rightarrow> nat \<Rightarrow> (relay + relay \<times> packet) option" where
  "pads_session st iface p loc ifIndex =
     (if psession p = htons 0 then Some (Inr (st, p))
      else do {
        sh \<leftarrow> findSession (tabs st) (h_source p) (psession p);
        ses \<leftarrow> (case sh of
            None \<Rightarrow> Some None
          | Some i \<Rightarrow> do { h \<leftarrow> arr_get (AllHashes (tabs st)) i; Some (h_ses h) });
        bs \<leftarrow> rd_bytes (payload p) (loc + TAG_HDR_SIZE + 4) 6;
        cliMac \<leftarrow> mac_of bs;
        (ses, t) \<leftarrow> (case ses of
            Some s \<Rightarrow> Some (Some s, tabs st)
          | None \<Rightarrow> createSession (Epoch st) (tabs st) iface ifIndex (h_source p) cliMac (psession p));
        let st = st\<lparr>tabs := t\<rparr>;
        case ses of
          None \<Rightarrow> do {
            hu \<leftarrow> findTag p TAG_HOST_UNIQ;
            st \<leftarrow> relaySendError st CODE_PADS (htons 0) ifIndex cliMac (map_option snd hu)
                   ''RP-PPPoE: Relay: Unable to allocate session'';
            st \<leftarrow> relaySendError st CODE_PADT (psession p) iface (h_source p) None
                   ''RP-PPPoE: Relay: Unable to allocate session'';
            Some (Inl st) }
        | Some s \<Rightarrow> do {
            se \<leftarrow> arr_get (AllSessions (tabs st)) s;
            Some (Inr (st, p\<lparr>psession := sesNum se\<rparr>)) } })"

definition relayHandlePADS :: "relay \<Rightarrow> nat \<Rightarrow> packet \<Rightarrow> int \<Rightarrow> relay option" where
  "relayHandlePADS st iface p sz = do {
     ifc \<leftarrow> arr_get (Interfaces st) iface;
     if \<not> acOK ifc then Some st
     else if NOT_UNICAST (h_source p) then Some st
     else if h_dest p \<noteq> if_mac ifc then Some st
     else do {
       rt \<leftarrow> relay_tag st iface p clientOK;
       case rt of
         None \<Rightarrow> Some st
       | Some (loc, tag, ifIndex) \<Rightarrow> do {
           res \<leftarrow> pads_session st iface p loc ifIndex;
           case res of
             Inl st \<Rightarrow> Some st
           | Inr (st, p) \<Rightarrow> do {
               (r, p) \<leftarrow> removeBytes p (int loc) (int MY_RELAY_TAG_LEN + int TAG_HDR_SIZE);
               let sz = sz - (int MY_RELAY_TAG_LEN + int TAG_HDR_SIZE);
               bs \<leftarrow> rd_bytes (tag_payload tag) 4 6;
               m \<leftarrow> mac_of bs;
               let p = p\<lparr>h_dest := m\<rparr>;
               other \<leftarrow> arr_get (Interfaces st) ifIndex;
               let p = p\<lparr>h_source := if_mac other\<rparr>;
               sendPacket st (discoverySock other) p sz } } } }"

definition relayHandlePADT :: "relay \<Rightarrow> nat \<Rightarrow> packet \<Rightarrow> int \<Rightarrow> relay option" where
  "relayHandlePADT st iface p sz = do {
     ifc \<leftarrow> arr_get (Interfaces st) iface;
     if h_dest p \<noteq> if_mac ifc then Some st
     else do {
       found \<leftarrow> findSession (tabs st) (h_source p) (psession p);
       case found of
         None \<Rightarrow> Some st
       | Some i \<Rightarrow> do {
           h \<leftarrow> arr_get (AllHashes (tabs st)) i;
           j \<leftarrow> h_peer h;
           sh \<leftarrow> arr_get (AllHashes (tabs st)) j;
           ses \<leftarrow> h_ses sh;
           k \<leftarrow> h_iface sh;
           other \<leftarrow> arr_get (Interfaces st) k;
           let p = p\<lparr>psession := h_sesNum sh, h_source := if_mac other, h_dest := peerMac sh\<rparr>;
           st \<leftarrow> sendPacket st (sessionSock other) p sz;
           t \<leftarrow> freeSession (tabs st) ses;
           Some (st\<lparr>tabs := t\<rparr>) } } }"

text \<open>What both receive functions do about the length: \<open>None\<close> is the early return.\<close>

definition trim_size :: "packet \<Rightarrow> int \<Rightarrow> int option" where
  "trim_size p sz =
     (if int (plen p) + int HDR_SIZE > sz then None
      else if sz > int (plen p) + int HDR_SIZE then Some (int (plen p) + int HDR_SIZE)
      else Some sz)"

definition relayGotDiscoveryPacket :: "relay \<Rightarrow> nat \<Rightarrow> packet \<Rightarrow> int \<Rightarrow> relay option" where
  "relayGotDiscoveryPacket st iface p sz =
     (if sz < 0 then Some st
      else if PPPOE_VER (vertype p) \<noteq> 1 \<or> PPPOE_TYPE (vertype p) \<noteq> 1 then Some st
      else (case trim_size p sz of
          None \<Rightarrow> Some st
        | Some sz \<Rightarrow>
            if pcode p = CODE_PADT then relayHandlePADT st iface p sz
            else if pcode p = CODE_PADI then relayHandlePADI st iface p sz
            else if pcode p = CODE_PADO then relayHandlePADO st iface p sz
            else if pcode p = CODE_PADR then relayHandlePADR st iface p sz
            else if pcode p = CODE_PADS then relayHandlePADS st iface p sz
            else Some st))"

section \<open>Session packets\<close>

definition relayGotSessionPacket :: "relay \<Rightarrow> nat \<Rightarrow> packet \<Rightarrow> int \<Rightarrow> relay option" where
  "relayGotSessionPacket st iface p sz =
     (if sz < 0 then Some st
      else if PPPOE_VER (vertype p) \<noteq> 1 \<or> PPPOE_TYPE (vertype p) \<noteq> 1 then Some st
      else if pcode p \<noteq> CODE_SESS then Some st
      else do {
        ifc \<leftarrow> arr_get (Interfaces st) iface;
        if h_dest p \<noteq> if_mac ifc then Some st
        else (case trim_size p sz of
            None \<Rightarrow> Some st
          | Some sz \<Rightarrow> do {
              found \<leftarrow> findSession (tabs st) (h_source p) (psession p);
              case found of
                None \<Rightarrow> Some st
              | Some i \<Rightarrow> do {
                  h \<leftarrow> arr_get (AllHashes (tabs st)) i;
                  ses \<leftarrow> h_ses h;
                  t \<leftarrow> touch (Epoch st) (tabs st) ses;
                  let st = st\<lparr>tabs := t\<rparr>;
                  j \<leftarrow> h_peer h;
                  sh \<leftarrow> arr_get (AllHashes (tabs st)) j;
                  k \<leftarrow> h_iface sh;
                  other \<leftarrow> arr_get (Interfaces st) k;
                  let p = p\<lparr>psession := h_sesNum sh, h_source := if_mac other, h_dest := peerMac sh\<rparr>;
                  sendPacket st (sessionSock other) p sz } }) })"

section \<open>The clock and the cleaner\<close>

definition alarmHandler :: "relay \<Rightarrow> relay" where
  "alarmHandler st =
     (let st = st\<lparr>Epoch := Epoch st + 1, CleanCounter := CleanCounter st + 1\<rparr>
      in if CleanCounter st = CleanPeriod st then st\<lparr>clean_pipe := clean_pipe st + 1\<rparr> else st)"

text \<open>One \<open>PADT\<close> of \<open>cleanSessions\<close>, to the end of the session behind hash entry \<open>e\<close>.\<close>

definition clean_notify :: "relay \<Rightarrow> ptr \<Rightarrow> relay option" where
  "clean_notify st e = do {
     e \<leftarrow> e;
     h \<leftarrow> arr_get (AllHashes (tabs st)) e;
     k \<leftarrow> h_iface h;
     relaySendError st CODE_PADT (h_sesNum h) k (peerMac h) None
       ''RP-PPPoE: Relay: Session exceeded idle timeout'' }"

partial_function (option) clean_loop :: "ptr \<Rightarrow> relay \<Rightarrow> relay option" where
  "clean_loop cur st =
     (if cur = None then Some st
      else do {
        c \<leftarrow> cur;
        s \<leftarrow> arr_get (AllSessions (tabs st)) c;
        let nx = ses_next s;
        if Epoch st - epoch s > IdleTimeout st then do {
          st \<leftarrow> clean_notify st (acHash s);
          st \<leftarrow> clean_notify st (clientHash s);
          t \<leftarrow> freeSession (tabs st) c;
          clean_loop nx (st\<lparr>tabs := t\<rparr>) }
        else clean_loop nx st })"

definition cleanSessions :: "relay \<Rightarrow> relay option" where
  "cleanSessions st = clean_loop (ActiveSessions (tabs st)) st"

text \<open>The branch of \<open>relayLoop\<close> taken when the cleaning pipe is readable.\<close>

definition clean_event :: "relay \<Rightarrow> relay option" where
  "clean_event st =
     (let st = st\<lparr>CleanCounter := 0, clean_pipe := clean_pipe st - 1\<rparr>
      in if IdleTimeout st \<noteq> 0 then cleanSessions st else Some st)"

section \<open>What is sent\<close>

lemma sendPacket_ok:
  assumes "sized p sz"
  shows "sendPacket st sock p sz = Some (st\<lparr>sent := sent st @ [(sock, frame_of p)]\<rparr>)"
proof -
  have "\<not> sz < 0" using assms by (simp add: sized_def)
  then show ?thesis using rd_frame [OF assms] by (simp add: sendPacket_def)
qed

text \<open>The error frame, byte for byte.\<close>

definition error_frame :: "u8 \<Rightarrow> u16 \<Rightarrow> mac \<Rightarrow> mac \<Rightarrow> byte_buf \<Rightarrow> byte_buf" where
  "error_frame code session dst src body =
     mac_bytes dst @ mac_bytes src @ be16_bytes 0x8863 @ [0x11, code] @ le16_bytes session @
     be16_bytes (word_of_nat (length body)) @ body"

definition error_sock :: "iface \<Rightarrow> u8 \<Rightarrow> int" where
  "error_sock ifc code = (if code = CODE_PADT then discoverySock ifc else sessionSock ifc)"

definition error_base :: "u8 \<Rightarrow> u16 \<Rightarrow> mac \<Rightarrow> mac \<Rightarrow> packet" where
  "error_base code session dst src =
     \<lparr>h_dest = dst, h_source = src, h_proto = htons 0x8863,
      vertype = PPPOE_VER_TYPE 1 1, pcode = code, psession = session,
      plength = htons 0, payload = replicate ETH_JUMBO_LEN 0\<rparr>"

lemma error_base_simps [simp]:
  "pkt_wf (error_base code session dst src)" "plen (error_base code session dst src) = 0"
  "window (error_base code session dst src) = []"
  by (simp_all add: error_base_def pkt_wf_def plen_def window_def)

lemma error_frame_eq:
  assumes "p = (error_base code session dst src)\<lparr>payload := buf, plength := l\<rparr>"
    and "plen p = length (window p)"
  shows "frame_of p = error_frame code session dst src (window p)"
proof -
  have f: "h_dest p = dst" "h_source p = src" "h_proto p = htons 0x8863" "vertype p = 0x11"
    "pcode p = code" "psession p = session" "plength p = l"
    by (simp_all add: assms(1) error_base_def PPPOE_VER_TYPE_def)
  have "l = htons (word_of_nat (plen p))" by (simp add: plen_def f)
  then have "le16_bytes l = be16_bytes (word_of_nat (length (window p)))"
    unfolding assms(2) by (simp add: le16_htons)
  then show ?thesis
    by (simp add: frame_of_def hdr_bytes_def error_frame_def f le16_htons)
qed

lemma length_msg_bytes [simp]: "length (msg_bytes s) = length s"
  by (simp add: msg_bytes_def)

lemma upd_payload_again:
  "p\<lparr>payload := b, plength := l\<rparr>\<lparr>payload := b', plength := l'\<rparr> = p\<lparr>payload := b', plength := l'\<rparr>"
  by simp

text \<open>Adding the error tag and sending, whatever the body so far.\<close>

lemma relaySendError_tail:
  assumes p: "p = (error_base code session dst (if_mac ifc))\<lparr>payload := buf, plength := l\<rparr>"
    and wf: "pkt_wf p" and w: "plen p = length (window p)" and msg: "length errMsg < 65536"
    and room: "length errMsg + 4 + plen p \<le> MAX_PPPOE_PAYLOAD"
  shows "(do {
       (r, p) \<leftarrow> addTag p \<lparr>tag_type = htons TAG_GENERIC_ERROR,
            tag_length = htons (word_of_nat (length errMsg)), tag_payload = msg_bytes errMsg @ [0]\<rparr>;
       if r < 0 then Some st
       else do {
         let sz = int (plen p) + int HDR_SIZE;
         if code = CODE_PADT then sendPacket st (discoverySock ifc) p sz
         else sendPacket st (sessionSock ifc) p sz } }) =
     Some (st\<lparr>sent := sent st @ [(error_sock ifc code,
       error_frame code session dst (if_mac ifc) (enc_tag TAG_GENERIC_ERROR (msg_bytes errMsg) @ window p))]\<rparr>)"
proof -
  let ?tag = "\<lparr>tag_type = htons TAG_GENERIC_ERROR,
            tag_length = htons (word_of_nat (length errMsg)), tag_payload = msg_bytes errMsg @ [0]\<rparr>"
  have n: "length errMsg = unat (ntohs (tag_length ?tag))" using msg by simp
  from addTag_ok [OF wf _ n, of TAG_GENERIC_ERROR] room obtain buf' l' where
    r: "addTag p ?tag = Some (int (length errMsg + 4), p\<lparr>payload := buf', plength := l'\<rparr>)"
    and wf': "pkt_wf (p\<lparr>payload := buf', plength := l'\<rparr>)"
    and pl': "plen (p\<lparr>payload := buf', plength := l'\<rparr>) = length errMsg + 4 + plen p"
    and w': "window (p\<lparr>payload := buf', plength := l'\<rparr>) = enc_tag TAG_GENERIC_ERROR (msg_bytes errMsg) @ window p"
    by auto
  define q where "q = p\<lparr>payload := buf', plength := l'\<rparr>"
  have q: "q = (error_base code session dst (if_mac ifc))\<lparr>payload := buf', plength := l'\<rparr>"
    by (simp add: q_def p)
  have "plen q = length (window q)" using pl' w' w by (simp add: q_def)
  from error_frame_eq [OF q this] have f: "frame_of q = error_frame code session dst (if_mac ifc)
      (enc_tag TAG_GENERIC_ERROR (msg_bytes errMsg) @ window p)" using w' by (simp add: q_def)
  have "sized q (int (plen q) + 20)" using wf' pl' room by (simp add: sized_def q_def)
  from sendPacket_ok [OF this] show ?thesis
    using r by (simp add: f q_def [symmetric] error_sock_def)
qed

lemma relaySendError_ok:
  assumes "iface < length (Interfaces st)" and "length errMsg < 100"
  shows "relaySendError st code session iface m None errMsg =
     Some (st\<lparr>sent := sent st @ [(error_sock (Interfaces st ! iface) code,
       error_frame code session m (if_mac (Interfaces st ! iface)) (enc_tag TAG_GENERIC_ERROR (msg_bytes errMsg)))]\<rparr>)"
proof -
  let ?ifc = "Interfaces st ! iface"
  define p where "p = error_base code session m (if_mac ?ifc)"
  have p: "p = (error_base code session m (if_mac ?ifc))
      \<lparr>payload := payload p, plength := plength p\<rparr>" by (simp add: p_def)
  from relaySendError_tail [OF p, of errMsg st] assms show ?thesis
    unfolding relaySendError_def error_base_def [symmetric] Let_def
    by (simp add: arr_get_def p_def [symmetric]) (simp add: p_def)
qed

lemma relaySendError_hu_ok:
  assumes "iface < length (Interfaces st)" and "length errMsg < 100" and d: "length d \<le> 1498"
  shows "relaySendError st code session iface m (Some (mk_tag ty d)) errMsg =
     Some (st\<lparr>sent := sent st @
       (if length errMsg + length d + 8 \<le> MAX_PPPOE_PAYLOAD
        then [(error_sock (Interfaces st ! iface) code,
           error_frame code session m (if_mac (Interfaces st ! iface))
             (enc_tag TAG_GENERIC_ERROR (msg_bytes errMsg) @ enc_tag ty d))]
        else [])\<rparr>)"
proof -
  let ?ifc = "Interfaces st ! iface"
  define p where "p = error_base code session m (if_mac ?ifc)"
  have n: "length d = unat (ntohs (tag_length (mk_tag ty d)))" using d by (simp add: mk_tag_def)
  from addTag_ok [OF _ _ n, of p ty] d obtain buf l where
    r: "addTag p (mk_tag ty d) = Some (int (length d + 4), p\<lparr>payload := buf, plength := l\<rparr>)"
    and wf: "pkt_wf (p\<lparr>payload := buf, plength := l\<rparr>)"
    and pl: "plen (p\<lparr>payload := buf, plength := l\<rparr>) = length d + 4"
    and w: "window (p\<lparr>payload := buf, plength := l\<rparr>) = enc_tag ty d"
    by (auto simp: p_def mk_tag_def)
  define q where "q = p\<lparr>payload := buf, plength := l\<rparr>"
  have start: "relaySendError st code session iface m (Some (mk_tag ty d)) errMsg = (do {
       (r, p) \<leftarrow> addTag q \<lparr>tag_type = htons TAG_GENERIC_ERROR,
            tag_length = htons (word_of_nat (length errMsg)), tag_payload = msg_bytes errMsg @ [0]\<rparr>;
       if r < 0 then Some st
       else do {
         let sz = int (plen p) + int HDR_SIZE;
         if code = CODE_PADT then sendPacket st (discoverySock ?ifc) p sz
         else sendPacket st (sessionSock ?ifc) p sz } })"
    unfolding relaySendError_def error_base_def [symmetric] Let_def
    using assms(1) r by (simp add: arr_get_def p_def [symmetric] q_def)
  show ?thesis
  proof (cases "length errMsg + length d + 8 \<le> MAX_PPPOE_PAYLOAD")
    case True
    have q: "q = (error_base code session m (if_mac ?ifc))\<lparr>payload := buf, plength := l\<rparr>"
      by (simp add: q_def p_def)
    show ?thesis
      unfolding start using True w pl assms(2)
      by (subst relaySendError_tail [OF q]) (simp_all add: wf q_def)
  next
    case False
    have n: "length errMsg = unat (ntohs (htons (word_of_nat (length errMsg))))" using assms(2) by simp
    have "\<not> length errMsg + 4 + plen q \<le> 1502" using False pl by (simp add: q_def)
    with addTag_ok [of q "\<lparr>tag_type = htons TAG_GENERIC_ERROR,
            tag_length = htons (word_of_nat (length errMsg)), tag_payload = msg_bytes errMsg @ [0]\<rparr>"
            TAG_GENERIC_ERROR "length errMsg"] wf n
    show ?thesis unfolding start using False by (simp add: q_def)
  qed
qed

section \<open>PADI\<close>

definition relay_id :: "nat \<Rightarrow> mac \<Rightarrow> byte_buf" where
  "relay_id i m = le32_bytes (word_of_nat i) @ mac_bytes m"

lemma length_relay_id [simp]: "length (relay_id i m) = 10"
  by (simp add: relay_id_def)

definition padi_out :: "iface list \<Rightarrow> nat \<Rightarrow> packet \<Rightarrow> nat list \<Rightarrow> (int \<times> byte_buf) list" where
  "padi_out ifs iface p is =
     map (\<lambda>i. (discoverySock (ifs ! i), frame_of (p\<lparr>h_source := if_mac (ifs ! i)\<rparr>)))
       (filter (\<lambda>i. i \<noteq> iface \<and> acOK (ifs ! i)) is)"

lemma padi_out_source: "padi_out ifs iface (p\<lparr>h_source := m\<rparr>) is = padi_out ifs iface p is"
  by (simp add: padi_out_def)

lemma padi_loop_ok:
  "sized p sz \<Longrightarrow> \<forall>i\<in>set is. i < length (Interfaces st) \<Longrightarrow>
   padi_loop st iface p sz is = Some (st\<lparr>sent := sent st @ padi_out (Interfaces st) iface p is\<rparr>)"
proof (induction "is" arbitrary: st p)
  case Nil
  then show ?case by (simp add: padi_out_def)
next
  case (Cons i "is")
  let ?ifc = "Interfaces st ! i"
  have g: "arr_get (Interfaces st) i = Some ?ifc" using Cons.prems by (simp add: arr_get_def)
  show ?case
  proof (cases "iface = i \<or> \<not> acOK ?ifc")
    case True
    with Cons g show ?thesis by (auto simp: padi_out_def)
  next
    case False
    let ?q = "p\<lparr>h_source := if_mac ?ifc\<rparr>"
    let ?st = "st\<lparr>sent := sent st @ [(discoverySock ?ifc, frame_of ?q)]\<rparr>"
    have "padi_loop st iface p sz (i # is) = padi_loop ?st iface ?q sz is"
      using False g sendPacket_ok [of ?q sz] Cons.prems(1) by (simp add: Let_def)
    also have "\<dots> = Some (?st\<lparr>sent := sent ?st @ padi_out (Interfaces ?st) iface ?q is\<rparr>)"
      using Cons.prems by (intro Cons.IH) simp_all
    also have "\<dots> = Some (st\<lparr>sent := sent st @ padi_out (Interfaces st) iface p (i # is)\<rparr>)"
      using False by (simp add: padi_out_source) (simp add: padi_out_def)
    finally show ?thesis .
  qed
qed

text \<open>
  The handler: either a guard drops the packet, or the packet leaves on every
  other AC-capable interface with a relay tag put in front.
\<close>

definition padi_drop :: "relay \<Rightarrow> nat \<Rightarrow> packet \<Rightarrow> bool" where
  "padi_drop st iface p \<longleftrightarrow>
     \<not> clientOK (Interfaces st ! iface) \<or> NOT_UNICAST (h_source p) \<or> \<not> BROADCAST (h_dest p) \<or>
     hdr_ok p \<and> (\<exists>(o', ty, d) \<in> set (ptags p). ty = TAG_RELAY_SESSION_ID) \<or>
     plen p + 14 > MAX_PPPOE_PAYLOAD"

lemma first_tag_None: "first_tag ty ts = None \<longleftrightarrow> \<not> (\<exists>(o', ty', d) \<in> set ts. ty' = ty)"
  by (auto simp: first_tag_def find_None_iff)

lemma relayHandlePADI_ok:
  assumes p: "sized p sz" and i: "iface < length (Interfaces st)"
  shows "if padi_drop st iface p then relayHandlePADI st iface p sz = Some st
     else \<exists>q. relayHandlePADI st iface p sz =
         Some (st\<lparr>sent := sent st @ padi_out (Interfaces st) iface q [0..<length (Interfaces st)]\<rparr>) \<and>
       sized q (sz + 14) \<and> q = p\<lparr>payload := payload q, plength := plength q\<rparr> \<and>
       window q = enc_tag TAG_RELAY_SESSION_ID (relay_id iface (h_source p)) @ window p"
proof -
  have wf: "pkt_wf p" using p by (simp add: sized_def)
  let ?tag = "\<lparr>tag_type = htons TAG_RELAY_SESSION_ID, tag_length = htons (word_of_nat MY_RELAY_TAG_LEN),
    tag_payload = le32_bytes (word_of_nat iface) @ mac_bytes (h_source p)\<rparr>"
  let ?tagged = "hdr_ok p \<and> (\<exists>(o', ty, d) \<in> set (ptags p). ty = TAG_RELAY_SESSION_ID)"
  have ft: "findTag p TAG_RELAY_SESSION_ID = Some r \<Longrightarrow> r = None \<longleftrightarrow> \<not> ?tagged" for r
    unfolding findTag_eq [OF wf] by (auto simp: first_tag_None split: if_splits)
  obtain r where r: "findTag p TAG_RELAY_SESSION_ID = Some r" using findTag_eq [OF wf] by blast
  have n: "(10::nat) = unat (ntohs (tag_length ?tag))" by simp
  note at = addTag_ok [OF wf _ n, of TAG_RELAY_SESSION_ID]
  note start = relayHandlePADI_def [of st iface p sz] arr_get_Some [OF i] r
  show ?thesis
  proof (cases "padi_drop st iface p")
    case drop: True
    show ?thesis
    proof (cases "r = None \<and> clientOK (Interfaces st ! iface) \<and> \<not> NOT_UNICAST (h_source p) \<and> BROADCAST (h_dest p)")
      case True
      with drop ft [OF r] have "\<not> 10 + 4 + plen p \<le> 1502" unfolding padi_drop_def by auto
      with at True drop show ?thesis by (simp add: start)
    next
      case False
      with drop show ?thesis by (auto simp: start split: option.split)
    qed
  next
    case False
    with ft [OF r] have g: "r = None" "clientOK (Interfaces st ! iface)" "\<not> NOT_UNICAST (h_source p)"
      "BROADCAST (h_dest p)" "10 + 4 + plen p \<le> 1502"
      unfolding padi_drop_def by auto
    from at g(5) obtain buf l where
      a: "addTag p ?tag = Some (14, p\<lparr>payload := buf, plength := l\<rparr>)"
      and q: "pkt_wf (p\<lparr>payload := buf, plength := l\<rparr>)" "plen (p\<lparr>payload := buf, plength := l\<rparr>) = 14 + plen p"
        "window (p\<lparr>payload := buf, plength := l\<rparr>) =
           enc_tag TAG_RELAY_SESSION_ID (relay_id iface (h_source p)) @ window p"
      by (auto simp: relay_id_def)
    let ?q = "p\<lparr>payload := buf, plength := l\<rparr>"
    have sq: "sized ?q (sz + 14)" using p q g(5) by (simp add: sized_def)
    have "relayHandlePADI st iface p sz = padi_loop st iface ?q (sz + 14) [0..<length (Interfaces st)]"
      using g a by (simp add: start)
    also have "\<dots> = Some (st\<lparr>sent := sent st @ padi_out (Interfaces st) iface ?q [0..<length (Interfaces st)]\<rparr>)"
      using sq by (intro padi_loop_ok) auto
    finally show ?thesis using False sq q(3) by (intro if_not_P [THEN iffD2]) auto
  qed
qed

section \<open>The relay tag coming back\<close>

text \<open>The first relay tag of the packet is ours, and names an interface we may send to.\<close>

definition tagged ::
  "relay \<Rightarrow> nat \<Rightarrow> packet \<Rightarrow> (iface \<Rightarrow> bool) \<Rightarrow>
   (nat \<times> u16 \<times> byte_buf) list \<Rightarrow> nat \<Rightarrow> nat \<Rightarrow> mac \<Rightarrow> (nat \<times> u16 \<times> byte_buf) list \<Rightarrow> bool" where
  "tagged st iface p ok pre loc i m post \<longleftrightarrow>
     hdr_ok p \<and> ptags p = pre @ (loc, TAG_RELAY_SESSION_ID, relay_id i m) # post \<and>
     (\<forall>(o', ty, d) \<in> set pre. ty \<noteq> TAG_RELAY_SESSION_ID) \<and>
     i < length (Interfaces st) \<and> ok (Interfaces st ! i) \<and> iface \<noteq> i"

lemma first_tag_split:
  assumes "first_tag ty ts = Some (loc, tag)"
  shows "\<exists>pre d post. ts = pre @ (loc, ty, d) # post \<and> (\<forall>(o', ty', d) \<in> set pre. ty' \<noteq> ty) \<and> tag = mk_tag ty d"
proof -
  from assms obtain ty' d where F: "find (\<lambda>(o', ty', d). ty' = ty) ts = Some (loc, ty', d)"
    and t': "tag = mk_tag ty' d" by (auto simp: first_tag_def)
  from find_Some_sat [OF F] have "ty' = ty" by simp
  with F t' have "find (\<lambda>(o', ty', d). ty' = ty) ts = Some (loc, ty, d)" and t: "tag = mk_tag ty d" by simp_all
  then obtain k where k: "k < length ts" "ts ! k = (loc, ty, d)"
    "\<forall>j<k. \<not> (case ts ! j of (o', ty', d) \<Rightarrow> ty' = ty)" by (auto simp: find_Some_iff)
  have "ts = take k ts @ (loc, ty, d) # drop (Suc k) ts" using k(1,2) id_take_nth_drop by metis
  moreover have "\<forall>(o', ty', d) \<in> set (take k ts). ty' \<noteq> ty"
    using k(1,3) by (auto simp: in_set_conv_nth) force
  ultimately show ?thesis using t by blast
qed

lemma first_tag_hit:
  assumes "ts = pre @ (loc, ty, d) # post" and "\<forall>(o', ty', d) \<in> set pre. ty' \<noteq> ty"
  shows "first_tag ty ts = Some (loc, mk_tag ty d)"
proof -
  have "find (\<lambda>(o', ty', d). ty' = ty) (pre @ (loc, ty, d) # post) = Some (loc, ty, d)"
    using assms(2) by (induction pre) auto
  then show ?thesis using assms(1) by (simp add: first_tag_def)
qed

lemma sint_index: "i < 2147483648 \<Longrightarrow> sint (word_of_nat i :: u32) = int i"
  by (simp add: signed_of_nat signed_take_bit_int_eq_self)

lemma relay_tag_hit:
  assumes wf: "pkt_wf p" and t: "tagged st iface p ok pre loc i m post" and n: "length (Interfaces st) \<le> MAX_INTERFACES"
  shows "relay_tag st iface p ok = Some (Some (loc, mk_tag TAG_RELAY_SESSION_ID (relay_id i m), i))"
proof -
  have "first_tag TAG_RELAY_SESSION_ID (ptags p) = Some (loc, mk_tag TAG_RELAY_SESSION_ID (relay_id i m))"
    using t by (intro first_tag_hit) (auto simp: tagged_def)
  moreover have "rd_bytes (relay_id i m) 0 4 = Some (le32_bytes (word_of_nat i))"
    by (simp add: rd_bytes_def relay_id_def)
  ultimately show ?thesis
    using t n sint_index [of i] by (simp add: relay_tag_def findTag_eq [OF wf] tagged_def mk_tag_def arr_get_def)
qed

lemma relay_tag_cases:
  assumes wf: "pkt_wf p"
  shows "relay_tag st iface p ok = Some None \<or>
    (\<exists>pre loc i m post. tagged st iface p ok pre loc i m post \<and>
       relay_tag st iface p ok = Some (Some (loc, mk_tag TAG_RELAY_SESSION_ID (relay_id i m), i)))"
proof (cases "hdr_ok p \<and> first_tag TAG_RELAY_SESSION_ID (ptags p) \<noteq> None")
  case False
  then have "findTag p TAG_RELAY_SESSION_ID = Some None"
    using findTag_eq [OF wf] by (cases "first_tag TAG_RELAY_SESSION_ID (ptags p)") simp_all
  then show ?thesis by (simp add: relay_tag_def)
next
  case True
  then obtain loc tag where ft: "first_tag TAG_RELAY_SESSION_ID (ptags p) = Some (loc, tag)" and h: "hdr_ok p" by auto
  from first_tag_split [OF ft] obtain pre d post where
    ts: "ptags p = pre @ (loc, TAG_RELAY_SESSION_ID, d) # post"
    and pre: "\<forall>(o', ty', d) \<in> set pre. ty' \<noteq> TAG_RELAY_SESSION_ID"
    and tag: "tag = mk_tag TAG_RELAY_SESSION_ID d" by blast
  from window_at_tag [OF ts] have ld: "length d < 65536" by blast
  have run: "relay_tag st iface p ok =
      (if length d \<noteq> 10 then Some None
       else do {
         bs \<leftarrow> rd_bytes d 0 4;
         ifIndex \<leftarrow> int32 bs;
         if ifIndex < 0 \<or> ifIndex \<ge> int (length (Interfaces st)) then Some None
         else do {
           other \<leftarrow> arr_get (Interfaces st) (nat ifIndex);
           if \<not> ok other \<or> iface = nat ifIndex then Some None
           else Some (Some (loc, tag, nat ifIndex)) } })"
  proof -
    have "tag_payload tag = d" "unat (ntohs (tag_length tag)) = length d"
      using ld by (simp_all add: tag mk_tag_def)
    with h ft show ?thesis by (simp add: relay_tag_def findTag_eq [OF wf])
  qed
  show ?thesis
  proof (cases "length d = 10")
    case len: True
    have "length (take 4 d) = 4" using len by simp
    from int32_Some [OF this] obtain w where w: "int32 (take 4 d) = Some (sint w)" "take 4 d = le32_bytes w" by blast
    from mac_of_length [of "drop 4 d"] len obtain m where m: "mac_bytes m = drop 4 d" by auto
    have rd: "rd_bytes d 0 4 = Some (take 4 d)" using len by (simp add: rd_bytes_def)
    show ?thesis
    proof (cases "0 \<le> sint w \<and> sint w < int (length (Interfaces st)) \<and>
        ok (Interfaces st ! nat (sint w)) \<and> iface \<noteq> nat (sint w)")
      case True
      then have "nat (sint w) < length (Interfaces st)" by auto
      moreover have "word_of_nat (nat (sint w)) = w" using True by (simp add: word_of_nat_eq_iff flip: of_int_of_nat)
      then have "d = relay_id (nat (sint w)) m"
        using w(2) m by (simp add: relay_id_def) (metis append_take_drop_id)
      ultimately have "tagged st iface p ok pre loc (nat (sint w)) m post"
        using True h ts pre by (simp add: tagged_def)
      moreover have "relay_tag st iface p ok =
          Some (Some (loc, mk_tag TAG_RELAY_SESSION_ID (relay_id (nat (sint w)) m), nat (sint w)))"
        using run len rd w(1) True \<open>nat (sint w) < _\<close> \<open>d = _\<close> tag by (simp add: arr_get_def)
      ultimately show ?thesis by blast
    next
      case False
      then show ?thesis using run len rd w(1) by (auto simp: arr_get_def)
    qed
  qed (simp add: run)
qed

section \<open>PADO and PADR\<close>

text \<open>The frame that leaves: addresses rewritten, the relay tag turned around, every other tag kept.\<close>

definition turned ::
  "relay \<Rightarrow> nat \<Rightarrow> packet \<Rightarrow> (nat \<times> u16 \<times> byte_buf) list \<Rightarrow> nat \<Rightarrow> mac \<Rightarrow>
   (nat \<times> u16 \<times> byte_buf) list \<Rightarrow> packet \<Rightarrow> bool" where
  "turned st iface p pre i m post q \<longleftrightarrow>
     q = p\<lparr>payload := payload q, h_dest := m, h_source := if_mac (Interfaces st ! i)\<rparr> \<and>
     pkt_wf q \<and> plen q = plen p \<and>
     tvals (window q) = map snd pre @ (TAG_RELAY_SESSION_ID, relay_id iface (h_source p)) # map snd post"

lemma relay_reply_ok:
  assumes p: "sized p sz" and t: "tagged st iface p ok pre loc i m post"
  shows "\<exists>q. relay_reply st iface p sz loc (mk_tag TAG_RELAY_SESSION_ID (relay_id i m)) i =
       Some (st\<lparr>sent := sent st @ [(discoverySock (Interfaces st ! i), frame_of q)]\<rparr>) \<and>
     turned st iface p pre i m post q"
proof -
  let ?T = "TAG_RELAY_SESSION_ID" and ?new = "relay_id iface (h_source p)"
  from p have wf: "pkt_wf p" "plen p \<le> 1508" by (simp_all add: sized_def)
  from t have ts: "ptags p = pre @ (loc, ?T, relay_id i m) # post" and i: "i < length (Interfaces st)"
    by (simp_all add: tagged_def)
  from window_at_tag [OF ts] obtain rest where
    w: "window p = enc_tags pre @ enc_tag ?T (relay_id i m) @ rest" and loc: "loc = length (enc_tags pre)"
    and rest: "tvals rest = map snd post"
    and pre: "\<forall>(o', ty, d) \<in> set pre. ty \<noteq> 0 \<and> length d < 65536" by blast
  let ?h = "enc_tags pre @ be16_bytes ?T @ be16_bytes 10"
  have w1: "window p = ?h @ le32_bytes (word_of_nat i) @ (mac_bytes m @ rest)"
    by (simp add: w enc_tag_def) (simp add: relay_id_def)
  have lh: "length ?h = loc + 4" by (simp add: loc)
  have "length (le32_bytes (word_of_nat iface)) = length (le32_bytes (word_of_nat i))" by simp
  from wr_in_window [OF wf w1 this] obtain b1 where
    r1: "wr_bytes (payload p) (loc + 4) (le32_bytes (word_of_nat iface)) = Some b1"
    and l1: "length b1 = length (payload p)"
    and t1: "take (plen p) b1 = ?h @ le32_bytes (word_of_nat iface) @ mac_bytes m @ rest"
    unfolding lh by blast
  let ?p1 = "p\<lparr>payload := b1\<rparr>"
  have wf1: "pkt_wf ?p1" "plen ?p1 \<le> 1508" "plen ?p1 = plen p" using wf l1 by (simp_all add: pkt_wf_def plen_def)
  have w2: "window ?p1 = (?h @ le32_bytes (word_of_nat iface)) @ mac_bytes m @ rest"
    using t1 wf1(3) by (simp add: window_def)
  have "length (mac_bytes (h_source p)) = length (mac_bytes m)" by simp
  from wr_in_window [OF wf1(1,2) w2 this] obtain b2 where
    r2: "wr_bytes b1 (loc + 8) (mac_bytes (h_source p)) = Some b2" and l2: "length b2 = length b1"
    and t2: "take (plen p) b2 = (?h @ le32_bytes (word_of_nat iface)) @ mac_bytes (h_source p) @ rest"
    using lh wf1(3) by auto
  let ?q = "p\<lparr>payload := b2, h_dest := m, h_source := if_mac (Interfaces st ! i)\<rparr>"
  have "window ?q = enc_tags pre @ enc_tag ?T ?new @ rest"
    using t2 by (simp add: window_def plen_def enc_tag_def) (simp add: relay_id_def)
  then have tv: "tvals (window ?q) = map snd pre @ (?T, ?new) # map snd post"
    using tvals_enc_tags [OF pre] rest by simp
  have sq: "sized ?q sz" "pkt_wf ?q" "plen ?q = plen p" using p l1 l2 by (simp_all add: sized_def pkt_wf_def plen_def)
  have rd: "rd_bytes (relay_id i m) 4 6 = Some (mac_bytes m)" by (simp add: rd_bytes_def relay_id_def)
  have "relay_reply st iface p sz loc (mk_tag ?T (relay_id i m)) i =
       Some (st\<lparr>sent := sent st @ [(discoverySock (Interfaces st ! i), frame_of ?q)]\<rparr>)"
    using r1 r2 [unfolded add.commute [of loc 8]] rd i sendPacket_ok [OF sq(1)] by (simp add: relay_reply_def mk_tag_def arr_get_def Let_def)
  moreover have "turned st iface p pre i m post ?q" using tv sq by (simp add: turned_def)
  ultimately show ?thesis by blast
qed

text \<open>The guards of the two handlers.\<close>

definition pado_drop :: "relay \<Rightarrow> nat \<Rightarrow> packet \<Rightarrow> bool" where
  "pado_drop st iface p \<longleftrightarrow>
     \<not> acOK (Interfaces st ! iface) \<or> BROADCAST (h_source p) \<or> h_dest p \<noteq> if_mac (Interfaces st ! iface)"

definition padr_drop :: "relay \<Rightarrow> nat \<Rightarrow> packet \<Rightarrow> bool" where
  "padr_drop st iface p \<longleftrightarrow>
     \<not> clientOK (Interfaces st ! iface) \<or> NOT_UNICAST (h_source p) \<or> h_dest p \<noteq> if_mac (Interfaces st ! iface)"

lemma relayHandlePADO_hit:
  assumes p: "sized p sz" and i: "iface < length (Interfaces st)" and n: "length (Interfaces st) \<le> MAX_INTERFACES"
    and g: "\<not> pado_drop st iface p" and t: "tagged st iface p clientOK pre loc k m post"
  shows "\<exists>q. relayHandlePADO st iface p sz =
       Some (st\<lparr>sent := sent st @ [(discoverySock (Interfaces st ! k), frame_of q)]\<rparr>) \<and>
     turned st iface p pre k m post q"
proof -
  have "pkt_wf p" using p by (simp add: sized_def)
  from relay_tag_hit [OF this t n] relay_reply_ok [OF p t] show ?thesis
    using g i by (simp add: relayHandlePADO_def pado_drop_def arr_get_def)
qed

lemma relayHandlePADR_hit:
  assumes p: "sized p sz" and i: "iface < length (Interfaces st)" and n: "length (Interfaces st) \<le> MAX_INTERFACES"
    and g: "\<not> padr_drop st iface p" and t: "tagged st iface p acOK pre loc k m post"
  shows "\<exists>q. relayHandlePADR st iface p sz =
       Some (st\<lparr>sent := sent st @ [(discoverySock (Interfaces st ! k), frame_of q)]\<rparr>) \<and>
     turned st iface p pre k m post q"
proof -
  have "pkt_wf p" using p by (simp add: sized_def)
  from relay_tag_hit [OF this t n] relay_reply_ok [OF p t] show ?thesis
    using g i by (simp add: relayHandlePADR_def padr_drop_def arr_get_def)
qed

lemma reply_safe:
  assumes p: "sized p sz"
  shows "(case relay_tag st iface p ok of
       None \<Rightarrow> None
     | Some None \<Rightarrow> Some st
     | Some (Some (loc, tag, k)) \<Rightarrow> relay_reply st iface p sz loc tag k) = Some st \<or>
     (\<exists>l. (case relay_tag st iface p ok of
       None \<Rightarrow> None
     | Some None \<Rightarrow> Some st
     | Some (Some (loc, tag, k)) \<Rightarrow> relay_reply st iface p sz loc tag k) = Some (st\<lparr>sent := sent st @ l\<rparr>))"
proof -
  have "pkt_wf p" using p by (simp add: sized_def)
  from relay_tag_cases [OF this, of st iface ok] show ?thesis
  proof
    assume "\<exists>pre loc i m post. tagged st iface p ok pre loc i m post \<and>
       relay_tag st iface p ok = Some (Some (loc, mk_tag TAG_RELAY_SESSION_ID (relay_id i m), i))"
    then obtain pre loc i m post where t: "tagged st iface p ok pre loc i m post"
      and r: "relay_tag st iface p ok = Some (Some (loc, mk_tag TAG_RELAY_SESSION_ID (relay_id i m), i))" by blast
    from relay_reply_ok [OF p t] r show ?thesis by auto
  qed simp
qed

lemma relayHandlePADO_safe:
  assumes "sized p sz" and "iface < length (Interfaces st)"
  shows "\<exists>l. relayHandlePADO st iface p sz = Some (st\<lparr>sent := sent st @ l\<rparr>)"
proof -
  have s: "st\<lparr>sent := sent st @ []\<rparr> = st" by simp
  from reply_safe [OF assms(1), of st iface clientOK] show ?thesis
    using assms(2) s unfolding relayHandlePADO_def arr_get_Some [OF assms(2)]
    by (cases "relay_tag st iface p clientOK") (auto split: option.splits if_splits intro: exI [of _ "[]"])
qed

lemma relayHandlePADR_safe:
  assumes "sized p sz" and "iface < length (Interfaces st)"
  shows "\<exists>l. relayHandlePADR st iface p sz = Some (st\<lparr>sent := sent st @ l\<rparr>)"
proof -
  have s: "st\<lparr>sent := sent st @ []\<rparr> = st" by simp
  from reply_safe [OF assms(1), of st iface acOK] show ?thesis
    using assms(2) s unfolding relayHandlePADR_def arr_get_Some [OF assms(2)]
    by (cases "relay_tag st iface p acOK") (auto split: option.splits if_splits intro: exI [of _ "[]"])
qed

section \<open>PADT and session packets\<close>

text \<open>The invariant of the daemon: the tables represent the session list \<open>S\<close>.\<close>

definition relay_inv :: "relay \<Rightarrow> vses list \<Rightarrow> bool" where
  "relay_inv st S \<longleftrightarrow> tables_abs (length (Interfaces st)) (tabs st) S \<and> length (Interfaces st) \<le> MAX_INTERFACES"

lemma relay_inv_sent [simp]: "relay_inv (st\<lparr>sent := l\<rparr>) S = relay_inv st S"
  by (simp add: relay_inv_def)

text \<open>The frame at the other end of session \<open>v\<close>; \<open>acside\<close> says which end it came from.\<close>

definition forwarded :: "iface list \<Rightarrow> packet \<Rightarrow> vses \<Rightarrow> bool \<Rightarrow> int \<times> byte_buf" where
  "forwarded ifs p v acside =
     (let k = end_keys v (\<not> acside); ifc = ifs ! snd k
      in (sessionSock ifc,
          frame_of (p\<lparr>psession := snd (fst k), h_source := if_mac ifc, h_dest := fst (fst k)\<rparr>)))"

definition known :: "vses list \<Rightarrow> packet \<Rightarrow> bool" where
  "known S p \<longleftrightarrow> (\<exists>v\<in>set S. (h_source p, psession p) \<in> {v_ac v, v_cli v})"

lemma ends_peer:
  assumes "ends t v acside i j"
  shows "h_peer (AllHashes t ! i) = Some j" "i < length (AllHashes t)" "j < length (AllHashes t)"
    "h_ses (AllHashes t ! i) = Some (v_id v)" "h_ses (AllHashes t ! j) = Some (v_id v)"
    "v_id v < length (AllSessions t)"
    "h_iface (AllHashes t ! j) = Some (snd (end_keys v (\<not> acside)))"
    "h_sesNum (AllHashes t ! j) = snd (fst (end_keys v (\<not> acside)))"
    "peerMac (AllHashes t ! j) = fst (fst (end_keys v (\<not> acside)))"
  using assms by (simp_all add: ends_def key_of_def prod_eq_iff)

lemma end_iface:
  assumes "tables_abs nif t S" and "v \<in> set S"
  shows "snd (end_keys v acside) < nif"
  using abs_facts(5) [OF assms(1)] assms(2) by (simp add: end_keys_def)

lemma find_known:
  assumes "tables_abs nif t S"
  shows "(findSession t (h_source p) (psession p) = Some None \<and> \<not> known S p) \<or>
    (\<exists>i j v acside. findSession t (h_source p) (psession p) = Some (Some i) \<and> known S p \<and> v \<in> set S \<and>
       fst (end_keys v acside) = (h_source p, psession p) \<and> ends t v acside i j)"
proof -
  from find_abs [OF assms, of "h_source p" "psession p"] obtain r where
    r: "findSession t (h_source p) (psession p) = Some r"
    and c: "case r of
        None \<Rightarrow> \<forall>v\<in>set S. v_ac v \<noteq> (h_source p, psession p) \<and> v_cli v \<noteq> (h_source p, psession p)
      | Some i \<Rightarrow> \<exists>v\<in>set S. \<exists>acside j. fst (end_keys v acside) = (h_source p, psession p) \<and> ends t v acside i j"
    by blast
  show ?thesis
  proof (cases r)
    case None
    with c have "\<not> known S p" by (auto simp: known_def)
    with r None show ?thesis by simp
  next
    case (Some i)
    with c obtain v acside j where v: "v \<in> set S" "fst (end_keys v acside) = (h_source p, psession p)" "ends t v acside i j"
      by auto
    then have "known S p"
      unfolding known_def by (intro bexI [of _ v]) (auto simp: end_keys_def split: if_splits)
    with v r Some show ?thesis by blast
  qed
qed

lemma relayHandlePADT_cases:
  assumes inv: "relay_inv st S" and p: "sized p sz" and i: "iface < length (Interfaces st)"
  shows "if h_dest p \<noteq> if_mac (Interfaces st ! iface) \<or> \<not> known S p
     then relayHandlePADT st iface p sz = Some st
     else \<exists>v\<in>set S. \<exists>acside t'. fst (end_keys v acside) = (h_source p, psession p) \<and>
       relayHandlePADT st iface p sz =
         Some (st\<lparr>tabs := t', sent := sent st @ [forwarded (Interfaces st) p v acside]\<rparr>) \<and>
       tables_abs (length (Interfaces st)) t' (filter (\<lambda>v'. v_id v' \<noteq> v_id v) S)"
proof -
  from inv have ta: "tables_abs (length (Interfaces st)) (tabs st) S" by (simp add: relay_inv_def)
  show ?thesis
  proof (cases "h_dest p \<noteq> if_mac (Interfaces st ! iface) \<or> \<not> known S p")
    case True
    with find_known [OF ta, of p] i show ?thesis by (auto simp: relayHandlePADT_def arr_get_def)
  next
    case False
    with find_known [OF ta, of p] obtain h j v acside where
      f: "findSession (tabs st) (h_source p) (psession p) = Some (Some h)" and v: "v \<in> set S"
      and k: "fst (end_keys v acside) = (h_source p, psession p)" and e: "ends (tabs st) v acside h j" by auto
    note E = ends_peer [OF e] and oi = end_iface [OF ta v]
    from free_abs [OF ta, of "v_id v"] v obtain t' where
      fr: "freeSession (tabs st) (v_id v) = Some t'"
      and ta': "tables_abs (length (Interfaces st)) t' (filter (\<lambda>v'. v_id v' \<noteq> v_id v) S)" by auto
    let ?k = "end_keys v (\<not> acside)"
    let ?q = "p\<lparr>psession := snd (fst ?k), h_source := if_mac (Interfaces st ! snd ?k), h_dest := fst (fst ?k)\<rparr>"
    have sq: "sized ?q sz" using p by simp
    have "relayHandlePADT st iface p sz =
         Some (st\<lparr>tabs := t', sent := sent st @ [forwarded (Interfaces st) p v acside]\<rparr>)"
      using False f E i oi fr sendPacket_ok [OF sq]
      by (simp add: relayHandlePADT_def arr_get_def Let_def forwarded_def)
    with False v k ta' show ?thesis by auto
  qed
qed

lemma trim_size_ok:
  assumes "pkt_wf p" and "sz \<le> 1528"
  shows "case trim_size p sz of None \<Rightarrow> int (plen p) + 20 > sz | Some sz' \<Rightarrow> sized p sz'"
  using assms by (auto simp: trim_size_def sized_def)

lemma relayGotSessionPacket_cases:
  assumes inv: "relay_inv st S" and wf: "pkt_wf p" and sz: "sz \<le> 1528" and i: "iface < length (Interfaces st)"
  shows "if PPPOE_VER (vertype p) \<noteq> 1 \<or> PPPOE_TYPE (vertype p) \<noteq> 1 \<or> pcode p \<noteq> CODE_SESS \<or>
       h_dest p \<noteq> if_mac (Interfaces st ! iface) \<or> int (plen p) + 20 > sz \<or> \<not> known S p
     then relayGotSessionPacket st iface p sz = Some st
     else \<exists>v\<in>set S. \<exists>acside t'. fst (end_keys v acside) = (h_source p, psession p) \<and>
       relayGotSessionPacket st iface p sz =
         Some (st\<lparr>tabs := t', sent := sent st @ [forwarded (Interfaces st) p v acside]\<rparr>) \<and>
       tables_abs (length (Interfaces st)) t'
         (map (\<lambda>v'. if v_id v' = v_id v then v'\<lparr>v_epoch := Epoch st\<rparr> else v') S)"
    (is "if ?drop then _ else ?fwd")
proof -
  from inv have ta: "tables_abs (length (Interfaces st)) (tabs st) S" by (simp add: relay_inv_def)
  have tr: "trim_size p sz = (if int (plen p) + 20 > sz then None else Some (int (plen p) + 20))"
    by (simp add: trim_size_def)
  show ?thesis
  proof (cases ?drop)
    case True
    have "relayGotSessionPacket st iface p sz = Some st"
      using True find_known [OF ta, of p] i by (auto simp: relayGotSessionPacket_def arr_get_def tr)
    with True show ?thesis by (simp only: if_True)
  next
    case False
    then have g: "PPPOE_VER (vertype p) = 1" "PPPOE_TYPE (vertype p) = 1" "pcode p = CODE_SESS"
      "h_dest p = if_mac (Interfaces st ! iface)" "\<not> int (plen p) + 20 > sz" "known S p" by auto
    from g(6) find_known [OF ta, of p] obtain h j v acside where
      f: "findSession (tabs st) (h_source p) (psession p) = Some (Some h)" and v: "v \<in> set S"
      and k: "fst (end_keys v acside) = (h_source p, psession p)" and e: "ends (tabs st) v acside h j" by auto
    note E = ends_peer [OF e] and oi = end_iface [OF ta v]
    from touch_abs [OF ta E(6), of "Epoch st"] obtain t' where
      tc: "touch (Epoch st) (tabs st) (v_id v) = Some t'" and ah: "AllHashes t' = AllHashes (tabs st)"
      and ta': "tables_abs (length (Interfaces st)) t'
         (map (\<lambda>v'. if v_id v' = v_id v then v'\<lparr>v_epoch := Epoch st\<rparr> else v') S)" by blast
    let ?k = "end_keys v (\<not> acside)"
    let ?q = "p\<lparr>psession := snd (fst ?k), h_source := if_mac (Interfaces st ! snd ?k), h_dest := fst (fst ?k)\<rparr>"
    have sq: "sized ?q (int (plen p) + 20)" using wf sz g(5) by (simp add: sized_def[of p])
    have "relayGotSessionPacket st iface p sz =
         Some (st\<lparr>tabs := t', sent := sent st @ [forwarded (Interfaces st) p v acside]\<rparr>)"
      using g f E i oi tc ah sendPacket_ok [OF sq]
      by (simp add: relayGotSessionPacket_def arr_get_def Let_def forwarded_def tr)
    with v k ta' have ?fwd by blast
    with False show ?thesis by (simp only: if_False)
  qed
qed

section \<open>PADS\<close>

definition full_msg :: byte_buf where
  "full_msg = msg_bytes ''RP-PPPoE: Relay: Unable to allocate session''"

text \<open>The two error frames of a full table: to the client, with its Host-Uniq tag, and to the server.\<close>

definition full_errors :: "iface list \<Rightarrow> nat \<Rightarrow> packet \<Rightarrow> nat \<Rightarrow> mac \<Rightarrow> (int \<times> byte_buf) list" where
  "full_errors ifs iface p i m =
     (case if hdr_ok p then first_tag TAG_HOST_UNIQ (ptags p) else None of
        None \<Rightarrow> [(error_sock (ifs ! i) CODE_PADS,
                  error_frame CODE_PADS 0 m (if_mac (ifs ! i)) (enc_tag TAG_GENERIC_ERROR full_msg))]
      | Some (o', hu) \<Rightarrow>
          if length (tag_payload hu) + 51 \<le> MAX_PPPOE_PAYLOAD
          then [(error_sock (ifs ! i) CODE_PADS,
                 error_frame CODE_PADS 0 m (if_mac (ifs ! i))
                   (enc_tag TAG_GENERIC_ERROR full_msg @ enc_tag TAG_HOST_UNIQ (tag_payload hu)))]
          else []) @
     [(error_sock (ifs ! iface) CODE_PADT,
       error_frame CODE_PADT (psession p) (h_source p) (if_mac (ifs ! iface)) (enc_tag TAG_GENERIC_ERROR full_msg))]"

lemma htons_0 [simp]: "htons 0 = 0"
  by (simp add: htons_def join16_def lo8_def hi8_def)

lemma tag_fits:
  assumes "pkt_wf p" "hdr_ok p" "first_tag ty (ptags p) = Some (loc, tag)"
  shows "\<exists>d. tag = mk_tag ty d \<and> length d \<le> 1498"
proof -
  from first_tag_split [OF assms(3)] obtain pre d post where
    ts: "ptags p = pre @ (loc, ty, d) # post" and t: "tag = mk_tag ty d" by blast
  from window_at_tag [OF ts] obtain rest where "window p = enc_tags pre @ enc_tag ty d @ rest" by blast
  with length_window [of p] assms(1,2) have "length d \<le> 1498" by (simp add: hdr_ok_def)
  with t show ?thesis by blast
qed

lemma full_errors_ok:
  assumes wf: "pkt_wf p" and i: "i < length (Interfaces st)" "iface < length (Interfaces st)"
  shows "(do {
       hu \<leftarrow> findTag p TAG_HOST_UNIQ;
       st \<leftarrow> relaySendError st CODE_PADS (htons 0) i m (map_option snd hu)
              ''RP-PPPoE: Relay: Unable to allocate session'';
       st \<leftarrow> relaySendError st CODE_PADT (psession p) iface (h_source p) None
              ''RP-PPPoE: Relay: Unable to allocate session'';
       Some (Inl st :: relay + relay \<times> packet) }) =
     Some (Inl (st\<lparr>sent := sent st @ full_errors (Interfaces st) iface p i m\<rparr>))"
proof (cases "if hdr_ok p then first_tag TAG_HOST_UNIQ (ptags p) else None")
  case None
  then show ?thesis
    unfolding full_errors_def None option.case using i
    by (simp add: findTag_eq [OF wf] None relaySendError_ok full_msg_def)
next
  case (Some x)
  obtain o' hu where x: "x = (o', hu)" by (cases x)
  with Some tag_fits [OF wf] obtain d where hu: "hu = mk_tag TAG_HOST_UNIQ d" and d: "length d \<le> 1498"
    by (auto split: if_splits)
  have "findTag p TAG_HOST_UNIQ = Some (Some (o', hu))" using Some x by (simp add: findTag_eq [OF wf])
  moreover have "tag_payload hu = d" by (simp add: hu mk_tag_def)
  ultimately show ?thesis
    unfolding full_errors_def Some x option.case prod.case using i d
    by (simp add: relaySendError_ok relaySendError_hu_ok full_msg_def hu)
qed

text \<open>The mac address behind the index in the relay tag.\<close>

lemma tagged_mac:
  assumes p: "sized p sz" and t: "tagged st iface p ok pre loc i m post"
  shows "rd_bytes (payload p) (loc + 8) 6 = Some (mac_bytes m)"
proof -
  from p have wf: "pkt_wf p" "plen p \<le> 1508" by (simp_all add: sized_def)
  from t have ts: "ptags p = pre @ (loc, TAG_RELAY_SESSION_ID, relay_id i m) # post" by (simp add: tagged_def)
  from window_at_tag [OF ts] obtain rest where
    w: "window p = enc_tags pre @ enc_tag TAG_RELAY_SESSION_ID (relay_id i m) @ rest"
    and loc: "loc = length (enc_tags pre)" by blast
  let ?h = "enc_tags pre @ be16_bytes TAG_RELAY_SESSION_ID @ be16_bytes 10 @ le32_bytes (word_of_nat i)"
  have h: "length ?h = loc + 8" by (simp add: loc)
  have "window p = ?h @ mac_bytes m @ rest"
    by (simp add: w enc_tag_def) (simp add: relay_id_def)
  then have "payload p = ?h @ mac_bytes m @ rest @ drop (plen p) (payload p)"
    by (metis append_assoc append_take_drop_id window_def)
  with h show ?thesis
    unfolding rd_bytes_def by (metis (no_types, lifting) append_eq_conv_conj drop_append_exact
        length_append length_mac_bytes le_add1 add.assoc take_append_exact)
qed

lemma pads_session_zero:
  "psession p = 0 \<Longrightarrow> pads_session st iface p loc i = Some (Inr (st, p))"
  by (simp add: pads_session_def)

lemma pads_session_dup:
  assumes inv: "relay_inv st S" and p: "sized p sz" and t: "tagged st iface p ok pre loc i m post"
    and s: "psession p \<noteq> 0" and k: "known S p"
  shows "\<exists>v\<in>set S. (h_source p, psession p) \<in> {v_ac v, v_cli v} \<and>
     pads_session st iface p loc i = Some (Inr (st, p\<lparr>psession := htons (word_of_nat (v_id v) + 1)\<rparr>))"
proof -
  from inv have ta: "tables_abs (length (Interfaces st)) (tabs st) S" by (simp add: relay_inv_def)
  from find_known [OF ta, of p] k obtain h j v acside where
    f: "findSession (tabs st) (h_source p) (psession p) = Some (Some h)" and v: "v \<in> set S"
    and k: "fst (end_keys v acside) = (h_source p, psession p)" and e: "ends (tabs st) v acside h j" by auto
  note E = ends_peer [OF e]
  have "pads_session st iface p loc i = Some (Inr (st, p\<lparr>psession := htons (word_of_nat (v_id v) + 1)\<rparr>))"
    using s f E abs_sesNum [OF ta v] tagged_mac [OF p t]
    by (simp add: pads_session_def arr_get_def Let_def add.assoc)
  moreover have "(h_source p, psession p) \<in> {v_ac v, v_cli v}"
    using k by (auto simp: end_keys_def split: if_splits)
  ultimately show ?thesis using v by blast
qed

lemma pads_session_new:
  assumes inv: "relay_inv st S" and p: "sized p sz" and t: "tagged st iface p ok pre loc i m post"
    and s: "psession p \<noteq> 0" and k: "\<not> known S p" and i: "iface < length (Interfaces st)"
  shows "if int (length S) < MaxSessions (tabs st)
     then \<exists>n t' v. v = \<lparr>v_id = n, v_ac = (h_source p, psession p), v_cli = (m, htons (word_of_nat n + 1)),
          v_acif = iface, v_cliif = i, v_epoch = Epoch st\<rparr> \<and> n \<notin> v_id ` set S \<and>
        pads_session st iface p loc i =
          Some (Inr (st\<lparr>tabs := t'\<rparr>, p\<lparr>psession := htons (word_of_nat n + 1)\<rparr>)) \<and>
        tables_abs (length (Interfaces st)) t' (v # S)
     else pads_session st iface p loc i =
        Some (Inl (st\<lparr>sent := sent st @ full_errors (Interfaces st) iface p i m\<rparr>))"
proof -
  from inv have ta: "tables_abs (length (Interfaces st)) (tabs st) S" by (simp add: relay_inv_def)
  from t have i': "i < length (Interfaces st)" by (simp add: tagged_def)
  from find_known [OF ta, of p] k have f: "findSession (tabs st) (h_source p) (psession p) = Some None" by auto
  from create_abs [OF ta i i', of "Epoch st" "h_source p" m "psession p"]
  have cr: "if int (length S) < MaxSessions (tabs st)
     then \<exists>n t' v. createSession (Epoch st) (tabs st) iface i (h_source p) m (psession p) = Some (Some n, t') \<and>
        tables_abs (length (Interfaces st)) t' (v # S) \<and> n \<notin> v_id ` set S \<and>
        v = \<lparr>v_id = n, v_ac = (h_source p, psession p), v_cli = (m, htons (word_of_nat n + 1)),
          v_acif = iface, v_cliif = i, v_epoch = Epoch st\<rparr> \<and>
        sesNum (AllSessions t' ! n) = htons (word_of_nat n + 1) \<and> n < length (AllSessions t')
     else createSession (Epoch st) (tabs st) iface i (h_source p) m (psession p) = Some (None, tabs st)"
    by (auto split: if_splits)
  show ?thesis
  proof (cases "int (length S) < MaxSessions (tabs st)")
    case True
    with cr obtain n t' v where c: "createSession (Epoch st) (tabs st) iface i (h_source p) m (psession p) = Some (Some n, t')"
      and ta': "tables_abs (length (Interfaces st)) t' (v # S)" "n \<notin> v_id ` set S"
        "v = \<lparr>v_id = n, v_ac = (h_source p, psession p), v_cli = (m, htons (word_of_nat n + 1)),
          v_acif = iface, v_cliif = i, v_epoch = Epoch st\<rparr>"
      and n: "sesNum (AllSessions t' ! n) = htons (word_of_nat n + 1)" "n < length (AllSessions t')" by auto
    have "pads_session st iface p loc i =
        Some (Inr (st\<lparr>tabs := t'\<rparr>, p\<lparr>psession := htons (word_of_nat n + 1)\<rparr>))"
      using s f c n tagged_mac [OF p t] by (simp add: pads_session_def arr_get_def Let_def add.assoc)
    with True ta' show ?thesis by auto
  next
    case False
    with cr have c: "createSession (Epoch st) (tabs st) iface i (h_source p) m (psession p) = Some (None, tabs st)"
      by simp
    have wf: "pkt_wf p" using p by (simp add: sized_def)
    have "pads_session st iface p loc i = (do {
       hu \<leftarrow> findTag p TAG_HOST_UNIQ;
       st \<leftarrow> relaySendError st CODE_PADS (htons 0) i m (map_option snd hu)
              ''RP-PPPoE: Relay: Unable to allocate session'';
       st \<leftarrow> relaySendError st CODE_PADT (psession p) iface (h_source p) None
              ''RP-PPPoE: Relay: Unable to allocate session'';
       Some (Inl st) })"
      using s f c tagged_mac [OF p t] by (simp add: pads_session_def Let_def add.assoc)
    with False full_errors_ok [OF wf i' i, of m] show ?thesis by simp
  qed
qed

text \<open>The frame the client gets: the relay's own session number, no relay tag.\<close>

definition stripped ::
  "relay \<Rightarrow> packet \<Rightarrow> u16 \<Rightarrow> (nat \<times> u16 \<times> byte_buf) list \<Rightarrow> nat \<Rightarrow> mac \<Rightarrow>
   (nat \<times> u16 \<times> byte_buf) list \<Rightarrow> packet \<Rightarrow> bool" where
  "stripped st p n pre i m post q \<longleftrightarrow>
     q = p\<lparr>psession := n, payload := payload q, plength := plength q, h_dest := m,
           h_source := if_mac (Interfaces st ! i)\<rparr> \<and>
     pkt_wf q \<and> plen q + 14 = plen p \<and> tvals (window q) = map snd pre @ map snd post"

lemma pads_tail_ok:
  assumes p: "sized p sz" and t: "tagged st iface p ok pre loc i m post"
    and st': "Interfaces st' = Interfaces st"
  shows "\<exists>q. (do {
       (r, p) \<leftarrow> removeBytes (p\<lparr>psession := n\<rparr>) (int loc) (int MY_RELAY_TAG_LEN + int TAG_HDR_SIZE);
       let sz = sz - (int MY_RELAY_TAG_LEN + int TAG_HDR_SIZE);
       bs \<leftarrow> rd_bytes (relay_id i m) 4 6;
       m \<leftarrow> mac_of bs;
       let p = p\<lparr>h_dest := m\<rparr>;
       other \<leftarrow> arr_get (Interfaces st') i;
       let p = p\<lparr>h_source := if_mac other\<rparr>;
       sendPacket st' (discoverySock other) p sz }) =
     Some (st'\<lparr>sent := sent st' @ [(discoverySock (Interfaces st ! i), frame_of q)]\<rparr>) \<and>
     stripped st p n pre i m post q"
proof -
  let ?T = "TAG_RELAY_SESSION_ID" and ?p = "p\<lparr>psession := n\<rparr>"
  from p have wf: "pkt_wf ?p" "plen ?p \<le> 1508" "plen ?p = plen p" "window ?p = window p"
    by (simp_all add: sized_def pkt_wf_def plen_def)
  from t have ts: "ptags p = pre @ (loc, ?T, relay_id i m) # post" and i: "i < length (Interfaces st)"
    by (simp_all add: tagged_def)
  from window_at_tag [OF ts] obtain rest where
    w: "window p = enc_tags pre @ enc_tag ?T (relay_id i m) @ rest" and loc: "loc = length (enc_tags pre)"
    and rest: "tvals rest = map snd post"
    and pre: "\<forall>(o', ty, d) \<in> set pre. ty \<noteq> 0 \<and> length d < 65536" by blast
  have "plen ?p = length (window ?p)" using length_window [OF wf(1,2)] by simp
  then have n: "loc + 14 \<le> plen ?p" unfolding wf(4) w by (simp add: loc)
  from removeBytes_ok [OF wf(1,2) n] obtain buf where
    r: "removeBytes ?p (int loc) (int 14) =
       Some (int 14, ?p\<lparr>payload := buf, plength := htons (word_of_int (int (plen ?p - 14)))\<rparr>)"
    and lb: "length buf = length (payload ?p)"
    and tb: "take (plen ?p - 14) buf = take loc (window ?p) @ drop (loc + 14) (window ?p)" by blast
  define l where "l = htons (word_of_int (int (plen ?p - 14)) :: u16)"
  let ?q = "?p\<lparr>payload := buf, plength := l, h_dest := m, h_source := if_mac (Interfaces st ! i)\<rparr>"
  have pq: "plen ?q = plen p - 14"
  proof -
    have "plen p - 14 < 65536" using plen_bound [of p] by simp
    then have "unat (word_of_nat (plen p - 14) :: u16) = plen p - 14" by (rule unat_u16_of_nat)
    then show ?thesis by (simp add: plen_def l_def)
  qed
  have "window ?q = enc_tags pre @ rest"
    using tb unfolding wf(3,4) w window_def [of ?q] pq by (simp add: loc)
  then have tv: "tvals (window ?q) = map snd pre @ map snd post"
    using tvals_enc_tags [OF pre] rest by simp
  have wfq: "pkt_wf ?q" using wf(1) lb by (simp add: pkt_wf_def)
  have sq: "sized ?q (sz - 14)" 
    unfolding sized_def [of ?q] pq using p wfq n wf(3) by (auto simp: sized_def [of p])
  have rd: "rd_bytes (relay_id i m) 4 6 = Some (mac_bytes m)" by (simp add: rd_bytes_def relay_id_def)
  have "stripped st p n pre i m post ?q" using tv wfq pq n wf(3) by (simp add: stripped_def)
  moreover have "int 14 = int 10 + int 4" by simp
  ultimately show ?thesis
    using r rd i sendPacket_ok [OF sq] st' unfolding l_def [symmetric]
    by (intro exI [of _ ?q]) (simp add: arr_get_def Let_def)
qed

definition pads_drop :: "relay \<Rightarrow> nat \<Rightarrow> packet \<Rightarrow> bool" where
  "pads_drop st iface p \<longleftrightarrow>
     \<not> acOK (Interfaces st ! iface) \<or> NOT_UNICAST (h_source p) \<or> h_dest p \<noteq> if_mac (Interfaces st ! iface)"

text \<open>The handler once the guards are passed and the tag is ours.\<close>

lemma relayHandlePADS_run:
  assumes p: "sized p sz" and i: "iface < length (Interfaces st)" and n: "length (Interfaces st) \<le> MAX_INTERFACES"
    and g: "\<not> pads_drop st iface p" and t: "tagged st iface p clientOK pre loc k m post"
    and ps: "pads_session st iface p loc k = Some (Inr (st', p\<lparr>psession := num\<rparr>))"
    and st': "Interfaces st' = Interfaces st"
  shows "\<exists>q. relayHandlePADS st iface p sz =
       Some (st'\<lparr>sent := sent st' @ [(discoverySock (Interfaces st ! k), frame_of q)]\<rparr>) \<and>
     stripped st p num pre k m post q"
proof -
  have "pkt_wf p" using p by (simp add: sized_def)
  from relay_tag_hit [OF this t n] pads_tail_ok [OF p t st', of num] show ?thesis
    using g i ps by (simp add: relayHandlePADS_def pads_drop_def arr_get_def mk_tag_def)
qed

lemma relayHandlePADS_full:
  assumes p: "sized p sz" and i: "iface < length (Interfaces st)" and n: "length (Interfaces st) \<le> MAX_INTERFACES"
    and g: "\<not> pads_drop st iface p" and t: "tagged st iface p clientOK pre loc k m post"
    and ps: "pads_session st iface p loc k = Some (Inl st')"
  shows "relayHandlePADS st iface p sz = Some st'"
proof -
  have "pkt_wf p" using p by (simp add: sized_def)
  from relay_tag_hit [OF this t n] show ?thesis
    using g i ps by (simp add: relayHandlePADS_def pads_drop_def arr_get_def)
qed

lemma relayHandlePADS_safe:
  assumes inv: "relay_inv st S" and p: "sized p sz" and i: "iface < length (Interfaces st)"
  shows "\<exists>st' S'. relayHandlePADS st iface p sz = Some st' \<and> relay_inv st' S' \<and> Interfaces st' = Interfaces st"
proof -
  have n: "length (Interfaces st) \<le> MAX_INTERFACES" using inv by (simp add: relay_inv_def)
  have wf: "pkt_wf p" using p by (simp add: sized_def)
  have skip: ?thesis if "relayHandlePADS st iface p sz = Some st" using that inv by blast
  show ?thesis
  proof (cases "pads_drop st iface p")
    case True
    with i have "relayHandlePADS st iface p sz = Some st"
      by (auto simp: relayHandlePADS_def pads_drop_def arr_get_def)
    then show ?thesis by (rule skip)
  next
    case g: False
    from relay_tag_cases [OF wf, of st iface clientOK] show ?thesis
    proof
      assume "relay_tag st iface p clientOK = Some None"
      with i have "relayHandlePADS st iface p sz = Some st" by (simp add: relayHandlePADS_def arr_get_def)
      then show ?thesis by (rule skip)
    next
      assume "\<exists>pre loc k m post. tagged st iface p clientOK pre loc k m post \<and>
       relay_tag st iface p clientOK = Some (Some (loc, mk_tag TAG_RELAY_SESSION_ID (relay_id k m), k))"
      then obtain pre loc k m post where t: "tagged st iface p clientOK pre loc k m post" by blast
      note run = relayHandlePADS_run [OF p i n g t]
      consider (zero) "psession p = 0" | (dup) "psession p \<noteq> 0" "known S p"
        | (new) "psession p \<noteq> 0" "\<not> known S p" by blast
      then show ?thesis
      proof cases
        case zero
        have "pads_session st iface p loc k = Some (Inr (st, p\<lparr>psession := psession p\<rparr>))"
          using pads_session_zero [OF zero] by simp
        from run [OF this] show ?thesis using inv by (auto intro!: exI [of _ S])
      next
        case dup
        from pads_session_dup [OF inv p t dup] obtain v :: vses where
          "pads_session st iface p loc k = Some (Inr (st, p\<lparr>psession := htons (word_of_nat (v_id v) + 1)\<rparr>))"
          by blast
        from run [OF this] show ?thesis using inv by (auto intro!: exI [of _ S])
      next
        case new
        note ns = pads_session_new [OF inv p t new i]
        show ?thesis
        proof (cases "int (length S) < MaxSessions (tabs st)")
          case True
          with ns obtain a t' v where
            ps: "pads_session st iface p loc k = Some (Inr (st\<lparr>tabs := t'\<rparr>, p\<lparr>psession := htons (word_of_nat a + 1)\<rparr>))"
            and ta: "tables_abs (length (Interfaces st)) t' (v # S)" by auto
          from run [OF ps] ta n show ?thesis
            by (auto simp: relay_inv_def intro!: exI [of _ "v # S"])
        next
          case False
          with ns have "pads_session st iface p loc k =
             Some (Inl (st\<lparr>sent := sent st @ full_errors (Interfaces st) iface p k m\<rparr>))" by simp
          from relayHandlePADS_full [OF p i n g t this] inv show ?thesis by (auto intro!: exI [of _ S])
        qed
      qed
    qed
  qed
qed

section \<open>The cleaner\<close>

definition expired :: "relay \<Rightarrow> vses \<Rightarrow> bool" where
  "expired st v \<longleftrightarrow> Epoch st - v_epoch v > IdleTimeout st"

definition idle_msg :: byte_buf where
  "idle_msg = msg_bytes ''RP-PPPoE: Relay: Session exceeded idle timeout''"

definition idle_frame :: "iface list \<Rightarrow> (mac \<times> u16) \<times> nat \<Rightarrow> int \<times> byte_buf" where
  "idle_frame ifs k = (error_sock (ifs ! snd k) CODE_PADT,
     error_frame CODE_PADT (snd (fst k)) (fst (fst k)) (if_mac (ifs ! snd k)) (enc_tag TAG_GENERIC_ERROR idle_msg))"

definition idle_frames :: "iface list \<Rightarrow> vses \<Rightarrow> (int \<times> byte_buf) list" where
  "idle_frames ifs v = [idle_frame ifs (v_ac v, v_acif v), idle_frame ifs (v_cli v, v_cliif v)]"

lemma clean_notify_ok:
  assumes "e < length (AllHashes (tabs st))" and "h_iface (AllHashes (tabs st) ! e) = Some k"
    and "k < length (Interfaces st)"
  shows "clean_notify st (Some e) = Some (st\<lparr>sent := sent st @
     [idle_frame (Interfaces st) (key_of (AllHashes (tabs st) ! e), k)]\<rparr>)"
  using assms by (simp add: clean_notify_def arr_get_def relaySendError_ok idle_frame_def key_of_def idle_msg_def)

lemma clean_loop_ok:
  assumes "tables_rep (length (Interfaces st)) (tabs st) (xs @ rest) fr ch hf"
  shows "\<exists>t'. clean_loop (head_of rest) st =
      Some (st\<lparr>tabs := t', sent := sent st @
        concat (map (idle_frames (Interfaces st)) (filter (expired st) (map (view (tabs st)) rest)))\<rparr>) \<and>
     tables_abs (length (Interfaces st)) t'
       (map (view (tabs st)) xs @ filter (\<lambda>v. \<not> expired st v) (map (view (tabs st)) rest))"
  using assms
proof (induction rest arbitrary: st xs fr ch hf)
  case Nil
  then show ?case
    by (subst clean_loop.simps) (auto simp: tables_abs_def intro!: exI [of _ "tabs st"])
next
  case (Cons p rest)
  let ?t = "tabs st" and ?ifs = "Interfaces st"
  note R = ses_repD [OF tables_repD(1) [OF Cons.prems]] and cr = tables_repD(3) [OF Cons.prems]
  have p: "p \<in> set (xs @ p # rest)" by simp
  have pl: "p < length (AllSessions ?t)" using R(4) by auto
  have nx: "ses_next (AllSessions ?t ! p) = head_of rest" using R(1) by (rule dl_next)
  have ep: "Epoch st - epoch (AllSessions ?t ! p) > IdleTimeout st \<longleftrightarrow> expired st (view ?t p)"
    by (simp add: expired_def view_def Let_def)
  from cr p obtain a c where ac: "linked (length ?ifs) ?t p a c" "a \<in> chained ch" "c \<in> chained ch"
    by (auto simp: cross_rep_def)
  note V = linked_view [OF ac(1)] and hl = hash_repD(1) [OF tables_repD(2) [OF Cons.prems], THEN chains_okD(3)]
  show ?case
  proof (cases "expired st (view ?t p)")
    case False
    have "clean_loop (head_of (p # rest)) st = clean_loop (head_of rest) st"
      using False ep pl nx by (subst clean_loop.simps) (simp add: arr_get_def Let_def)
    with Cons.IH [of st "xs @ [p]" fr ch hf] Cons.prems False show ?thesis by simp
  next
    case True
    let ?st1 = "st\<lparr>sent := sent st @ idle_frames ?ifs (view ?t p)\<rparr>"
    from ac(1) have l: "acHash (AllSessions ?t ! p) = Some a" "clientHash (AllSessions ?t ! p) = Some c"
      by (auto simp: linked_def)
    have n1: "clean_notify st (Some a) = Some (st\<lparr>sent := sent st @ [idle_frame ?ifs (v_ac (view ?t p), v_acif (view ?t p))]\<rparr>)"
      using V hl [OF ac(2)] by (subst clean_notify_ok) simp_all
    have n2: "clean_notify (st\<lparr>sent := sent st @ [idle_frame ?ifs (v_ac (view ?t p), v_acif (view ?t p))]\<rparr>) (Some c) = Some ?st1"
      using V hl [OF ac(3)] by (subst clean_notify_ok) (simp_all add: idle_frames_def)
    from freeSession_ok [OF Cons.prems p] obtain t' ch' hf' where
      T: "freeSession ?t p = Some t'" "tables_rep (length ?ifs) t' (remove1 p (xs @ p # rest)) (p # fr) ch' hf'"
        "map (view t') (remove1 p (xs @ p # rest)) = map (view ?t) (remove1 p (xs @ p # rest))" by blast
    have rm: "remove1 p (xs @ p # rest) = xs @ rest" using R(3) by (intro remove1_split) auto
    let ?st2 = "?st1\<lparr>tabs := t'\<rparr>"
    have v: "map (view t') xs = map (view ?t) xs" "map (view t') rest = map (view ?t) rest"
      using T(3) by (simp_all add: rm)
    have run: "clean_loop (head_of (p # rest)) st = clean_loop (head_of rest) ?st2"
      using True ep pl nx l n1 n2 T(1) by (subst clean_loop.simps) (simp add: arr_get_def Let_def)
    have e2: "expired ?st2 = expired st" by (simp add: expired_def [abs_def])
    have "tables_rep (length (Interfaces ?st2)) (tabs ?st2) (xs @ rest) (p # fr) ch' hf'" using T(2) rm by simp
    from Cons.IH [OF this] obtain t'' where
      c: "clean_loop (head_of rest) ?st2 = Some (?st2\<lparr>tabs := t'', sent := sent ?st2 @
        concat (map (idle_frames ?ifs) (filter (expired st) (map (view ?t) rest)))\<rparr>)"
      and a: "tables_abs (length ?ifs) t''
       (map (view ?t) xs @ filter (\<lambda>v. \<not> expired st v) (map (view ?t) rest))"
      unfolding e2 by (auto simp: v)
    show ?thesis using run c a True by (intro exI [of _ t'']) simp
  qed
qed

lemma cleanSessions_cases:
  assumes "relay_inv st S"
  shows "\<exists>t'. cleanSessions st =
      Some (st\<lparr>tabs := t', sent := sent st @ concat (map (idle_frames (Interfaces st)) (filter (expired st) S))\<rparr>) \<and>
     tables_abs (length (Interfaces st)) t' (filter (\<lambda>v. \<not> expired st v) S)"
proof -
  from assms obtain act fr ch hf where rep: "tables_rep (length (Interfaces st)) (tabs st) act fr ch hf"
    and S: "S = map (view (tabs st)) act"
    by (auto simp: tables_abs_def relay_inv_def)
  have "ActiveSessions (tabs st) = head_of act"
    using ses_repD(1) [OF tables_repD(1) [OF rep]] by (rule dl_head)
  with clean_loop_ok [of st "[]" act fr ch hf] rep S show ?thesis by (simp add: cleanSessions_def)
qed

end
