(* ===== verification/Relay_Props.thy ===== *)
theory Relay_Props
  imports Relay
begin

text \<open>
  The relay daemon as a state machine (start-up checks of \<open>main\<close>, the events
  \<open>relayLoop\<close> dispatches) and its properties: no event can make it fault, what
  each kind of packet leads to, and what happens to the sessions.
\<close>

section \<open>The daemon\<close>

text \<open>
  The checks and initialisation of \<open>main\<close>; \<open>idle\<close> is the \<open>-i\<close> option, if given.
  Each failed check exits.
\<close>

definition relay_start :: "iface list \<Rightarrow> nat \<Rightarrow> u32 option \<Rightarrow> relay option" where
  "relay_start ifs nsess idle =
     (if nsess < 1 \<or> nsess > 65534 \<or> length ifs > MAX_INTERFACES \<or> length ifs < 2 then None
      else do {
        t \<leftarrow> initRelay nsess;
        Some \<lparr>Interfaces = ifs, tabs = t, Epoch = 0, CleanCounter = 0,
          CleanPeriod = (case idle of None \<Rightarrow> 30 | Some n \<Rightarrow> if n div 20 < 30 then 30 else n div 20),
          IdleTimeout = (case idle of None \<Rightarrow> 600 | Some n \<Rightarrow> n), clean_pipe = 0, sent = []\<rparr> })"

datatype event =
    Discovery nat packet int
  | Session nat packet int
  | Alarm
  | Clean

fun ev_ok :: "relay \<Rightarrow> event \<Rightarrow> bool" where
  "ev_ok st (Discovery i p sz) \<longleftrightarrow> i < length (Interfaces st) \<and> pkt_wf p \<and> sz \<le> 1528"
| "ev_ok st (Session i p sz) \<longleftrightarrow> i < length (Interfaces st) \<and> pkt_wf p \<and> sz \<le> 1528"
| "ev_ok st Alarm \<longleftrightarrow> True"
| "ev_ok st Clean \<longleftrightarrow> 0 < clean_pipe st"

fun handle :: "relay \<Rightarrow> event \<Rightarrow> relay option" where
  "handle st (Discovery i p sz) = relayGotDiscoveryPacket st i p sz"
| "handle st (Session i p sz) = relayGotSessionPacket st i p sz"
| "handle st Alarm = Some (alarmHandler st)"
| "handle st Clean = clean_event st"

inductive reach :: "relay \<Rightarrow> relay \<Rightarrow> bool" for s0 where
  reach_start: "reach s0 s0"
| reach_step: "reach s0 s \<Longrightarrow> ev_ok s e \<Longrightarrow> handle s e = Some s' \<Longrightarrow> reach s0 s'"

section \<open>Every handler is total and keeps the invariant\<close>

lemma relay_start_inv:
  assumes "relay_start ifs n idle = Some st"
  shows "relay_inv st []" "Interfaces st = ifs" "2 \<le> length ifs" "MaxSessions (tabs st) = int n" "0 < n"
proof -
  from assms have n: "0 < n" "n < 65535" "length ifs \<le> 8" "2 \<le> length ifs"
    by (auto simp: relay_start_def split: if_splits)
  from init_abs [OF n(1,2), of "length ifs"] obtain t where
    t: "initRelay n = Some t" "tables_abs (length ifs) t []" "MaxSessions t = int n" by blast
  from assms t n show "relay_inv st []" "Interfaces st = ifs" "2 \<le> length ifs" "MaxSessions (tabs st) = int n" "0 < n"
    by (auto simp: relay_start_def relay_inv_def split: if_splits)
qed

lemma relay_invI:
  "tables_abs (length (Interfaces st)) t S \<Longrightarrow> length (Interfaces st) \<le> MAX_INTERFACES \<Longrightarrow>
   relay_inv (st\<lparr>tabs := t, sent := l\<rparr>) S"
  by (simp add: relay_inv_def)

definition kept :: "relay \<Rightarrow> relay option \<Rightarrow> bool" where
  "kept st r \<longleftrightarrow> (\<exists>st' S'. r = Some st' \<and> relay_inv st' S' \<and> Interfaces st' = Interfaces st)"

lemma keptI: "relay_inv st' S' \<Longrightarrow> Interfaces st' = Interfaces st \<Longrightarrow> kept st (Some st')"
  by (auto simp: kept_def)

lemma discovery_kept:
  assumes inv: "relay_inv st S" and i: "i < length (Interfaces st)" and wf: "pkt_wf p" and sz: "sz \<le> 1528"
  shows "kept st (relayGotDiscoveryPacket st i p sz)"
proof -
  have self: "kept st (Some st)" using inv by (rule keptI) simp
  have n: "length (Interfaces st) \<le> MAX_INTERFACES" using inv by (simp add: relay_inv_def)
  have sent: "kept st (Some (st\<lparr>sent := sent st @ l\<rparr>))" for l using inv by (intro keptI) auto
  have "kept st (relayHandlePADI st i p sz')" if "sized p sz'" for sz'
    using relayHandlePADI_ok [OF that i] self sent by (auto split: if_splits)
  moreover have "kept st (relayHandlePADO st i p sz')" if "sized p sz'" for sz'
    using relayHandlePADO_safe [OF that i] sent by auto
  moreover have "kept st (relayHandlePADR st i p sz')" if "sized p sz'" for sz'
    using relayHandlePADR_safe [OF that i] sent by auto
  moreover have "kept st (relayHandlePADS st i p sz')" if "sized p sz'" for sz'
    using relayHandlePADS_safe [OF inv that i] by (auto simp: kept_def)
  moreover have "kept st (relayHandlePADT st i p sz')" if "sized p sz'" for sz'
    using relayHandlePADT_cases [OF inv that i] self relay_invI [OF _ n]
    by (auto split: if_splits intro!: keptI)
  ultimately show ?thesis
    using self trim_size_ok [OF wf sz] by (auto simp: relayGotDiscoveryPacket_def split: option.splits)
qed

lemma session_kept:
  assumes inv: "relay_inv st S" and i: "i < length (Interfaces st)" and wf: "pkt_wf p" and sz: "sz \<le> 1528"
  shows "kept st (relayGotSessionPacket st i p sz)"
proof -
  have "kept st (Some st)" using inv by (rule keptI) simp
  moreover have "length (Interfaces st) \<le> MAX_INTERFACES" using inv by (simp add: relay_inv_def)
  ultimately show ?thesis
    using relayGotSessionPacket_cases [OF inv wf sz i] relay_invI [of st]
    by (auto split: if_splits intro!: keptI)
qed

lemma clean_kept:
  assumes inv: "relay_inv st S"
  shows "kept st (clean_event st)"
proof -
  let ?st = "st\<lparr>CleanCounter := 0, clean_pipe := clean_pipe st - 1\<rparr>"
  have i': "relay_inv ?st S" using inv by (simp add: relay_inv_def)
  from cleanSessions_cases [OF i'] obtain t' l where
    c: "cleanSessions ?st = Some (?st\<lparr>tabs := t', sent := l\<rparr>)"
    and t: "tables_abs (length (Interfaces ?st)) t' (filter (\<lambda>v. \<not> expired ?st v) S)" by blast
  have "relay_inv (?st\<lparr>tabs := t', sent := l\<rparr>) (filter (\<lambda>v. \<not> expired ?st v) S)"
    using t inv by (simp add: relay_inv_def)
  then have "kept st (cleanSessions ?st)" unfolding c by (intro keptI) auto
  moreover have "kept st (Some ?st)" using i' by (intro keptI) auto
  ultimately show ?thesis by (simp add: clean_event_def Let_def)
qed

lemma alarm_inv: "relay_inv st S \<Longrightarrow> relay_inv (alarmHandler st) S"
  by (simp add: alarmHandler_def relay_inv_def Let_def)

lemma alarm_ifs [simp]: "Interfaces (alarmHandler st) = Interfaces st"
  by (simp add: alarmHandler_def Let_def)

lemma handle_kept:
  assumes "relay_inv st S" and "ev_ok st e"
  shows "kept st (handle st e)"
  using assms
  by (cases e) (auto intro: discovery_kept session_kept clean_kept keptI alarm_inv)

lemma reach_inv: "reach s0 s \<Longrightarrow> \<exists>S. relay_inv s0 S \<Longrightarrow> \<exists>S. relay_inv s S \<and> Interfaces s = Interfaces s0"
proof (induction rule: reach.induct)
  case (reach_step s e s')
  then obtain S where "relay_inv s S" "Interfaces s = Interfaces s0" by blast
  with handle_kept [OF this(1) reach_step.hyps(2)] reach_step.hyps(3) show ?case by (auto simp: kept_def)
qed auto

section \<open>Concrete frames\<close>

text \<open>A packet with a given payload in front of zeros, and a relay with one client and one server interface.\<close>

definition mk_packet :: "mac \<Rightarrow> mac \<Rightarrow> u8 \<Rightarrow> u16 \<Rightarrow> byte_buf \<Rightarrow> packet" where
  "mk_packet dst src code ses body =
     \<lparr>h_dest = dst, h_source = src, h_proto = htons 0x8863, vertype = 0x11, pcode = code, psession = ses,
      plength = htons (word_of_nat (length body)), payload = body @ replicate (1508 - length body) 0\<rparr>"

lemma mk_packet_simps [simp]:
  "h_dest (mk_packet dst src code ses body) = dst" "h_source (mk_packet dst src code ses body) = src"
  "pcode (mk_packet dst src code ses body) = code" "psession (mk_packet dst src code ses body) = ses"
  "vertype (mk_packet dst src code ses body) = 0x11"
  by (simp_all add: mk_packet_def)

lemma mk_packet_ok:
  assumes "length body \<le> 1502"
  shows "pkt_wf (mk_packet dst src code ses body)" "plen (mk_packet dst src code ses body) = length body"
    "window (mk_packet dst src code ses body) = body"
    "sized (mk_packet dst src code ses body) (int (length body) + 20)"
    "hdr_ok (mk_packet dst src code ses body)"
    "ptags (mk_packet dst src code ses body) = fst (tlvs 0 body)"
proof -
  show p: "plen (mk_packet dst src code ses body) = length body"
    using assms by (simp add: mk_packet_def plen_def)
  show w: "pkt_wf (mk_packet dst src code ses body)" using assms by (simp add: mk_packet_def pkt_wf_def)
  show b: "window (mk_packet dst src code ses body) = body"
    unfolding window_def p by (simp add: mk_packet_def)
  show "sized (mk_packet dst src code ses body) (int (length body) + 20)"
    using w p assms by (simp add: sized_def)
  have "PPPOE_VER 0x11 = 1" "PPPOE_TYPE 0x11 = 1" by (simp_all add: PPPOE_VER_def PPPOE_TYPE_def)
  then show "hdr_ok (mk_packet dst src code ses body)" using p assms by (simp add: hdr_ok_def)
  show "ptags (mk_packet dst src code ses body) = fst (tlvs 0 body)" by (simp add: ptags_def b)
qed

definition ex_ifs :: "iface list" where
  "ex_ifs =
     [\<lparr>if_name = ''eth0'', discoverySock = 3, sessionSock = 4, clientOK = True, acOK = False, if_mac = Mac 2 0 0 0 0 1\<rparr>,
      \<lparr>if_name = ''eth1'', discoverySock = 5, sessionSock = 6, clientOK = False, acOK = True, if_mac = Mac 2 0 0 0 0 2\<rparr>]"

abbreviation (input) "ex_cli \<equiv> Mac 2 0 0 0 0 0x11"
abbreviation (input) "ex_ac \<equiv> Mac 2 0 0 0 0 0x22"

definition ex_start :: relay where
  "ex_start = the (relay_start ex_ifs 2 None)"

lemma ex_ifs_simps [simp]:
  "length ex_ifs = 2" "clientOK (ex_ifs ! 0)" "\<not> acOK (ex_ifs ! 0)" "acOK (ex_ifs ! Suc 0)" "\<not> clientOK (ex_ifs ! Suc 0)"
  "if_mac (ex_ifs ! 0) = Mac 2 0 0 0 0 1" "if_mac (ex_ifs ! Suc 0) = Mac 2 0 0 0 0 2"
  "discoverySock (ex_ifs ! 0) = 3" "discoverySock (ex_ifs ! Suc 0) = 5"
  "sessionSock (ex_ifs ! 0) = 4" "sessionSock (ex_ifs ! Suc 0) = 6"
  by (simp_all add: ex_ifs_def)

lemma ex_start: "relay_start ex_ifs 2 None = Some ex_start"
proof -
  from initRelay_rep [of 2 2] obtain t where "initRelay 2 = Some t" by auto
  then show ?thesis by (simp add: ex_start_def relay_start_def)
qed

lemma ex_start_simps [simp]:
  "relay_inv ex_start []" "Interfaces ex_start = ex_ifs" "MaxSessions (tabs ex_start) = 2"
  using relay_start_inv [OF ex_start] by simp_all

lemma ex_start_fields [simp]: "Epoch ex_start = 0" "IdleTimeout ex_start = 600" "sent ex_start = []" "CleanPeriod ex_start = 30"
    "CleanCounter ex_start = 0" "clean_pipe ex_start = 0"
proof -
  from initRelay_rep [of 2 2] obtain t where "initRelay 2 = Some t" by auto
  then show "Epoch ex_start = 0" "IdleTimeout ex_start = 600" "sent ex_start = []" "CleanPeriod ex_start = 30"
    "CleanCounter ex_start = 0" "clean_pipe ex_start = 0"
    by (simp_all add: ex_start_def relay_start_def)
qed

definition bcast :: mac where "bcast = Mac 0xFF 0xFF 0xFF 0xFF 0xFF 0xFF"

text \<open>A client's PADI with an empty Service-Name.\<close>

definition ex_padi :: packet where
  "ex_padi = mk_packet bcast ex_cli CODE_PADI 0 (enc_tag 0x0101 [])"

lemma ex_padi_ok:
  "sized ex_padi 24" "pkt_wf ex_padi" "plen ex_padi = 4" "window ex_padi = enc_tag 0x0101 []"
  "hdr_ok ex_padi" "ptags ex_padi = [(0, 0x0101, [])]" "h_source ex_padi = ex_cli" "\<not> padi_drop ex_start 0 ex_padi"
proof -
  note m = mk_packet_ok [of "enc_tag 0x0101 []" bcast ex_cli CODE_PADI 0]
  have t: "fst (tlvs 0 (enc_tag 0x0101 [])) = [(0, 0x0101, [])]"
    using tlvs_enc [of "0x0101" "[]" 0 "[]"] by (simp add: tlvs_short)
  show "sized ex_padi 24" "pkt_wf ex_padi" "plen ex_padi = 4" "window ex_padi = enc_tag 0x0101 []"
    "hdr_ok ex_padi" "ptags ex_padi = [(0, 0x0101, [])]" "h_source ex_padi = ex_cli"
    using m t by (simp_all add: ex_padi_def)
  then show "\<not> padi_drop ex_start 0 ex_padi"
    by (simp add: padi_drop_def) (simp add: ex_padi_def bcast_def)
qed

section \<open>The whole daemon\<close>

text \<open>
  C1: whatever arrives from the network, on any interface, in any order with the
  alarm and the cleaner, the relay started by \<open>main\<close> never dereferences NULL, never
  reads or writes outside a table or a packet, and its tables always represent a
  list of sessions with distinct numbers.
\<close>

theorem relay_never_faults:
  assumes "relay_start ifs n idle = Some s0" and "reach s0 s" and "ev_ok s e"
  shows "(\<exists>s'. handle s e = Some s') \<and> (\<exists>S. relay_inv s S \<and> distinct (map v_id S))"
proof -
  from reach_inv [OF assms(2)] relay_start_inv [OF assms(1)] obtain S where S: "relay_inv s S" by blast
  with handle_kept [OF S assms(3)] abs_facts(4) show ?thesis by (auto simp: kept_def relay_inv_def)
qed

lemma relay_never_faults_witness:
  "\<exists>s'. handle ex_start (Discovery 0 ex_padi 24) = Some s'"
  using relay_never_faults [OF ex_start reach_start, of "Discovery 0 ex_padi 24"] ex_padi_ok by simp

section \<open>Discovery\<close>

text \<open>The first relay tag of a frame, as a receiver of the frame reads it.\<close>

definition frame_relay_tag :: "byte_buf \<Rightarrow> byte_buf option" where
  "frame_relay_tag f =
     map_option snd (find (\<lambda>(ty, d). ty = TAG_RELAY_SESSION_ID) (tvals (drop 20 f)))"

lemma frame_relay_tag_of:
  "tvals (window q) = map snd pre @ (TAG_RELAY_SESSION_ID, d) # post \<Longrightarrow>
   \<forall>(o', ty, d) \<in> set pre. ty \<noteq> TAG_RELAY_SESSION_ID \<Longrightarrow> frame_relay_tag (frame_of q) = Some d"
proof -
  assume t: "tvals (window q) = map snd pre @ (TAG_RELAY_SESSION_ID, d) # post"
    and p: "\<forall>(o', ty, d) \<in> set pre. ty \<noteq> TAG_RELAY_SESSION_ID"
  from p have "find (\<lambda>(ty, d). ty = TAG_RELAY_SESSION_ID) (map snd pre @ (TAG_RELAY_SESSION_ID, d) # post) =
      Some (TAG_RELAY_SESSION_ID, d)" by (induction pre) auto
  moreover have "drop 20 (frame_of q) = window q" by (simp add: frame_of_def)
  ultimately show ?thesis by (simp add: frame_relay_tag_def t)
qed

text \<open>
  A PADI from a permitted interface leaves on exactly the other AC-capable
  interfaces, one frame each, from that interface's address, with a relay tag naming
  the arrival interface and the client's address put in front of the tags it had,
  and its length field and size grown by the tag.
\<close>

theorem padi_relayed:
  assumes "sized p sz" and "iface < length (Interfaces st)" and "\<not> padi_drop st iface p"
  shows "\<exists>q. relayHandlePADI st iface p sz = Some (st\<lparr>sent := sent st @
       map (\<lambda>i. (discoverySock (Interfaces st ! i), frame_of (q\<lparr>h_source := if_mac (Interfaces st ! i)\<rparr>)))
         (filter (\<lambda>i. i \<noteq> iface \<and> acOK (Interfaces st ! i)) [0..<length (Interfaces st)])\<rparr>) \<and>
     h_dest q = h_dest p \<and> pcode q = pcode p \<and> psession q = psession p \<and> plen q = plen p + 14 \<and>
     tvals (window q) = (TAG_RELAY_SESSION_ID, relay_id iface (h_source p)) # tvals (window p)"
proof -
  from relayHandlePADI_ok [OF assms(1,2)] assms(3) obtain q where
    r: "relayHandlePADI st iface p sz =
         Some (st\<lparr>sent := sent st @ padi_out (Interfaces st) iface q [0..<length (Interfaces st)]\<rparr>)"
    and s: "sized q (sz + 14)" and q: "q = p\<lparr>payload := payload q, plength := plength q\<rparr>"
    and w: "window q = enc_tag TAG_RELAY_SESSION_ID (relay_id iface (h_source p)) @ window p" by auto
  have "h_dest q = h_dest p" "pcode q = pcode p" "psession q = psession p" by (subst q, simp)+
  moreover have "plen q = plen p + 14" using s assms(1) by (simp add: sized_def)
  ultimately show ?thesis using r w by (auto simp: padi_out_def)
qed

lemma padi_relayed_witness:
  "\<exists>q. relayHandlePADI ex_start 0 ex_padi 24 =
       Some (ex_start\<lparr>sent := [(5, frame_of (q\<lparr>h_source := Mac 2 0 0 0 0 2\<rparr>))]\<rparr>) \<and> plen q = 18"
  using padi_relayed [of ex_padi 24 0 ex_start] ex_padi_ok by (auto simp: upt_rec)

lemma padi_tag:
  assumes "sized p sz" and "iface < length (Interfaces st)" and "\<not> padi_drop st iface p"
    and "relayHandlePADI st iface p sz = Some st1" and "(s, f) \<in> set (drop (length (sent st)) (sent st1))"
  shows "frame_relay_tag f = Some (relay_id iface (h_source p))" "Interfaces st1 = Interfaces st"
    "clientOK (Interfaces st ! iface)"
proof -
  from relayHandlePADI_ok [OF assms(1,2)] assms(3,4) obtain q where
    st1: "st1 = st\<lparr>sent := sent st @ padi_out (Interfaces st) iface q [0..<length (Interfaces st)]\<rparr>"
    and w: "window q = enc_tag TAG_RELAY_SESSION_ID (relay_id iface (h_source p)) @ window p" by auto
  from assms(5) st1 obtain m where f: "f = frame_of (q\<lparr>h_source := m\<rparr>)" by (auto simp: padi_out_def)
  show "frame_relay_tag f = Some (relay_id iface (h_source p))"
    unfolding f by (rule frame_relay_tag_of [where pre = "[]"]) (simp_all add: w)
  show "Interfaces st1 = Interfaces st" by (simp add: st1)
  show "clientOK (Interfaces st ! iface)" using assms(3) by (simp add: padi_drop_def)
qed

lemma turned_fields:
  assumes "turned st iface p pre i m post q"
  shows "h_dest q = m" "h_source q = if_mac (Interfaces st ! i)" "pcode q = pcode p" "psession q = psession p"
    "tvals (window q) = map snd pre @ (TAG_RELAY_SESSION_ID, relay_id iface (h_source p)) # map snd post"
proof -
  have q: "q = p\<lparr>payload := payload q, h_dest := m, h_source := if_mac (Interfaces st ! i)\<rparr>"
    using assms by (simp add: turned_def)
  show "h_dest q = m" "h_source q = if_mac (Interfaces st ! i)" "pcode q = pcode p" "psession q = psession p"
    by (subst q, simp)+
  show "tvals (window q) = map snd pre @ (TAG_RELAY_SESSION_ID, relay_id iface (h_source p)) # map snd post"
    using assms by (simp add: turned_def)
qed

text \<open>
  C16: the answer finds its way back. A server that answers a relayed PADI with a PADO
  echoing the relay tag of any frame the relay sent reaches exactly that client: the
  PADO leaves on the interface the PADI came from, to the address the PADI had, and its
  tag now names the server's interface and address. Nothing but the echoed tag is used,
  so the relay keeps no state between the two.
\<close>

theorem pado_returns_to_client:
  assumes padi: "sized p sz" "i < length (Interfaces st)" "\<not> padi_drop st i p"
    and sent_padi: "relayHandlePADI st i p sz = Some st1"
    and frame: "(s, f) \<in> set (drop (length (sent st)) (sent st1))"
    and n: "length (Interfaces st) \<le> MAX_INTERFACES" and k: "k < length (Interfaces st)" "k \<noteq> i"
    and reply: "sized r rz" "hdr_ok r" "\<not> pado_drop st k r"
    and echo: "ptags r = pre @ (loc, TAG_RELAY_SESSION_ID, d) # post"
      "\<forall>(o', ty, d) \<in> set pre. ty \<noteq> TAG_RELAY_SESSION_ID" "frame_relay_tag f = Some d"
  shows "\<exists>q. relayHandlePADO st1 k r rz =
       Some (st1\<lparr>sent := sent st1 @ [(discoverySock (Interfaces st ! i), frame_of q)]\<rparr>) \<and>
     h_dest q = h_source p \<and> h_source q = if_mac (Interfaces st ! i) \<and> pcode q = pcode r \<and>
     tvals (window q) = map snd pre @ (TAG_RELAY_SESSION_ID, relay_id k (h_source r)) # map snd post"
proof -
  note T = padi_tag [OF padi sent_padi frame]
  have "tagged st1 k r clientOK pre loc i (h_source p) post"
    using T echo reply(2) k padi(2) by (simp add: tagged_def)
  moreover have "\<not> pado_drop st1 k r" using reply(3) T(2) by (simp add: pado_drop_def)
  ultimately obtain q where "relayHandlePADO st1 k r rz =
       Some (st1\<lparr>sent := sent st1 @ [(discoverySock (Interfaces st1 ! i), frame_of q)]\<rparr>)"
    and "turned st1 k r pre i (h_source p) post q"
    using relayHandlePADO_hit [of r rz k st1 pre loc i "h_source p" post] reply(1) T(2) k n by auto
  with turned_fields [OF this(2)] T(2) show ?thesis by (intro exI [of _ q]) simp
qed

text \<open>The server's offer and the client's request, echoing the relay tags.\<close>

definition ex_pado :: packet where
  "ex_pado = mk_packet (Mac 2 0 0 0 0 2) ex_ac CODE_PADO 0 (enc_tag TAG_RELAY_SESSION_ID (relay_id 0 ex_cli))"

definition ex_padr :: packet where
  "ex_padr = mk_packet (Mac 2 0 0 0 0 1) ex_cli CODE_PADR 0 (enc_tag TAG_RELAY_SESSION_ID (relay_id 1 ex_ac))"

lemma tlvs_one: "ty \<noteq> 0 \<Longrightarrow> length d < 65536 \<Longrightarrow> fst (tlvs 0 (enc_tag ty d)) = [(0, ty, d)]"
  using tlvs_enc [of ty d 0 "[]"] by (simp add: tlvs_short)

lemma ex_pado_ok:
  "sized ex_pado 34" "hdr_ok ex_pado" "ptags ex_pado = [(0, TAG_RELAY_SESSION_ID, relay_id 0 ex_cli)]"
  "h_source ex_pado = ex_ac" "\<not> pado_drop ex_start (Suc 0) ex_pado"
proof -
  note m = mk_packet_ok [of "enc_tag TAG_RELAY_SESSION_ID (relay_id 0 ex_cli)" "Mac 2 0 0 0 0 2" ex_ac CODE_PADO 0]
  show "sized ex_pado 34" "hdr_ok ex_pado" "ptags ex_pado = [(0, TAG_RELAY_SESSION_ID, relay_id 0 ex_cli)]"
    "h_source ex_pado = ex_ac"
    using m by (simp_all add: ex_pado_def tlvs_one)
  show "\<not> pado_drop ex_start (Suc 0) ex_pado" by (simp add: pado_drop_def ex_pado_def)
qed

lemma ex_padr_ok:
  "sized ex_padr 34" "hdr_ok ex_padr" "ptags ex_padr = [(0, TAG_RELAY_SESSION_ID, relay_id 1 ex_ac)]"
  "h_source ex_padr = ex_cli" "\<not> padr_drop ex_start 0 ex_padr"
proof -
  note m = mk_packet_ok [of "enc_tag TAG_RELAY_SESSION_ID (relay_id 1 ex_ac)" "Mac 2 0 0 0 0 1" ex_cli CODE_PADR 0]
  show "sized ex_padr 34" "hdr_ok ex_padr" "ptags ex_padr = [(0, TAG_RELAY_SESSION_ID, relay_id 1 ex_ac)]"
    "h_source ex_padr = ex_cli"
    using m by (simp_all add: ex_padr_def tlvs_one)
  show "\<not> padr_drop ex_start 0 ex_padr" by (simp add: padr_drop_def ex_padr_def)
qed

lemma pado_returns_to_client_witness:
  "\<exists>st1 q. relayHandlePADI ex_start 0 ex_padi 24 = Some st1 \<and>
     relayHandlePADO st1 (Suc 0) ex_pado 34 = Some (st1\<lparr>sent := sent st1 @ [(3, frame_of q)]\<rparr>) \<and>
     h_dest q = ex_cli"
proof -
  note E = ex_padi_ok and P = ex_pado_ok
  from relayHandlePADI_ok [of ex_padi 24 0 ex_start] E obtain q0 where
    r: "relayHandlePADI ex_start 0 ex_padi 24 =
         Some (ex_start\<lparr>sent := [(5, frame_of (q0\<lparr>h_source := Mac 2 0 0 0 0 2\<rparr>))]\<rparr>)"
    by (auto simp: padi_out_def upt_rec)
  let ?f = "frame_of (q0\<lparr>h_source := Mac 2 0 0 0 0 2\<rparr>)"
  have "frame_relay_tag ?f = Some (relay_id 0 ex_cli)"
    using padi_tag(1) [of ex_padi 24 0 ex_start _ 5 ?f, OF _ _ _ r] E by simp
  with pado_returns_to_client [of ex_padi 24 0 ex_start _ 5 ?f "Suc 0" ex_pado 34 "[]" 0 _ "[]", OF _ _ _ r] E P r
  show ?thesis by (intro exI [of _ "ex_start\<lparr>sent := [(5, ?f)]\<rparr>"]) auto
qed

text \<open>
  And the client's PADR, echoing the tag of that PADO, reaches exactly that server:
  it leaves on the server's interface, to the server's address, with a tag naming the
  client's interface and address again.
\<close>

theorem padr_returns_to_server:
  assumes pado: "sized r rz" "k < length (Interfaces st)" "\<not> pado_drop st k r"
      "tagged st k r clientOK pre loc i m post"
    and sent_pado: "relayHandlePADO st k r rz = Some st1" "sent st1 = sent st @ [(s, f)]"
    and n: "length (Interfaces st) \<le> MAX_INTERFACES"
    and reply: "sized p sz" "hdr_ok p" "\<not> padr_drop st i p"
    and echo: "ptags p = pre' @ (loc', TAG_RELAY_SESSION_ID, d) # post'"
      "\<forall>(o', ty, d) \<in> set pre'. ty \<noteq> TAG_RELAY_SESSION_ID" "frame_relay_tag f = Some d"
  shows "\<exists>q. relayHandlePADR st1 i p sz =
       Some (st1\<lparr>sent := sent st1 @ [(discoverySock (Interfaces st ! k), frame_of q)]\<rparr>) \<and>
     h_dest q = h_source r \<and> h_source q = if_mac (Interfaces st ! k) \<and> pcode q = pcode p \<and>
     tvals (window q) = map snd pre' @ (TAG_RELAY_SESSION_ID, relay_id i (h_source p)) # map snd post'"
proof -
  from relayHandlePADO_hit [OF pado(1,2) n pado(3,4)] sent_pado obtain q where
    st1: "st1 = st\<lparr>sent := sent st @ [(discoverySock (Interfaces st ! i), frame_of q)]\<rparr>"
    and q: "turned st k r pre i m post q" by auto
  have f: "f = frame_of q" using sent_pado(2) st1 by simp
  have "frame_relay_tag f = Some (relay_id k (h_source r))"
    unfolding f using q pado(4) by (intro frame_relay_tag_of) (auto simp: turned_def tagged_def)
  with echo(3) have d: "d = relay_id k (h_source r)" by simp
  have "acOK (Interfaces st ! k)" using pado(3) by (simp add: pado_drop_def)
  then have t: "tagged st1 i p acOK pre' loc' k (h_source r) post'"
    using echo d reply(2) pado(2,4) by (auto simp: tagged_def st1)
  have "\<not> padr_drop st1 i p" "i < length (Interfaces st1)" "length (Interfaces st1) \<le> MAX_INTERFACES"
    using reply(3) pado(4) n by (simp_all add: padr_drop_def st1 tagged_def)
  from relayHandlePADR_hit [OF reply(1) this(2,3,1) t] obtain q' where
    "relayHandlePADR st1 i p sz =
       Some (st1\<lparr>sent := sent st1 @ [(discoverySock (Interfaces st1 ! k), frame_of q')]\<rparr>)"
    and "turned st1 i p pre' k (h_source r) post' q'" by blast
  with turned_fields [OF this(2)] show ?thesis by (intro exI [of _ q']) (simp add: st1)
qed

lemma ex_pado_tagged: "tagged ex_start (Suc 0) ex_pado clientOK [] 0 0 ex_cli []"
  using ex_pado_ok by (simp add: tagged_def)

lemma padr_returns_to_server_witness:
  "\<exists>st1 q. relayHandlePADO ex_start (Suc 0) ex_pado 34 = Some st1 \<and>
     relayHandlePADR st1 0 ex_padr 34 = Some (st1\<lparr>sent := sent st1 @ [(5, frame_of q)]\<rparr>) \<and> h_dest q = ex_ac"
proof -
  note P = ex_pado_ok and R = ex_padr_ok
  from relayHandlePADO_hit [of ex_pado 34 "Suc 0" ex_start, OF _ _ _ _ ex_pado_tagged] P obtain q0 where
    r: "relayHandlePADO ex_start (Suc 0) ex_pado 34 = Some (ex_start\<lparr>sent := [(3, frame_of q0)]\<rparr>)"
    and q0: "turned ex_start (Suc 0) ex_pado [] 0 ex_cli [] q0" by auto
  have "frame_relay_tag (frame_of q0) = Some (relay_id 1 ex_ac)"
    using turned_fields(5) [OF q0] P by (intro frame_relay_tag_of [where pre = "[]"]) simp_all
  with padr_returns_to_server [of ex_pado 34 "Suc 0" ex_start, OF _ _ _ ex_pado_tagged r, of 3 "frame_of q0" ex_padr 34 "[]" 0 _ "[]"] P R r
  show ?thesis by (intro exI [of _ "ex_start\<lparr>sent := [(3, frame_of q0)]\<rparr>"]) auto
qed

section \<open>Sessions\<close>

lemma keys_of_distinct:
  assumes "distinct (keys_of S)" and "a \<in> set S"
  shows "v_ac a \<noteq> v_cli a"
    and "\<And>b key. b \<in> set S \<Longrightarrow> key \<in> {v_ac a, v_cli a} \<Longrightarrow> key \<in> {v_ac b, v_cli b} \<Longrightarrow> a = b"
proof -
  from assms have "v_ac a \<noteq> v_cli a \<and> (\<forall>b key. b \<in> set S \<longrightarrow> key \<in> {v_ac a, v_cli a} \<longrightarrow> key \<in> {v_ac b, v_cli b} \<longrightarrow> a = b)"
  proof (induction S)
    case (Cons c S)
    have c: "v_ac c \<noteq> v_cli c" and d: "distinct (keys_of S)"
      and out: "\<forall>b\<in>set S. {v_ac c, v_cli c} \<inter> {v_ac b, v_cli b} = {}"
      using Cons.prems(1) by (auto simp: keys_of_def)
    show ?case
    proof (cases "a \<in> set S")
      case True
      with Cons.IH [OF d True] out show ?thesis by fastforce
    next
      case False
      with Cons.prems(2) have "a = c" by simp
      with c out show ?thesis by fastforce
    qed
  qed simp
  then show "v_ac a \<noteq> v_cli a"
    and "\<And>b key. b \<in> set S \<Longrightarrow> key \<in> {v_ac a, v_cli a} \<Longrightarrow> key \<in> {v_ac b, v_cli b} \<Longrightarrow> a = b" by blast+
qed

lemma stripped_fields:
  assumes "stripped st p n pre i m post q"
  shows "psession q = n" "h_dest q = m" "h_source q = if_mac (Interfaces st ! i)" "pcode q = pcode p"
    "plen q + 14 = plen p" "tvals (window q) = map snd pre @ map snd post"
proof -
  have q: "q = p\<lparr>psession := n, payload := payload q, plength := plength q, h_dest := m,
           h_source := if_mac (Interfaces st ! i)\<rparr>" using assms by (simp add: stripped_def)
  show "psession q = n" "h_dest q = m" "h_source q = if_mac (Interfaces st ! i)" "pcode q = pcode p"
    by (subst q, simp)+
  show "plen q + 14 = plen p" "tvals (window q) = map snd pre @ map snd post"
    using assms by (simp_all add: stripped_def)
qed

text \<open>
  C13: a PADS with a session number the relay has not seen from that server opens a
  session while the table has room. The new session records the server's address and
  number, the client's address from the relay tag and a number \<open>n + 1\<close> that no active
  session uses; the other sessions are as before. The client gets the PADS on its own
  interface with that number, without the relay tag and with every other tag.
\<close>

theorem pads_opens_session:
  assumes "relay_inv st S" and "sized p sz" and "iface < length (Interfaces st)" and "\<not> pads_drop st iface p"
    and "tagged st iface p clientOK pre loc k m post" and "psession p \<noteq> 0" and "\<not> known S p"
    and "int (length S) < MaxSessions (tabs st)"
  shows "\<exists>st' n q. relayHandlePADS st iface p sz = Some st' \<and>
     relay_inv st' (\<lparr>v_id = n, v_ac = (h_source p, psession p), v_cli = (m, htons (word_of_nat n + 1)),
        v_acif = iface, v_cliif = k, v_epoch = Epoch st\<rparr> # S) \<and> n \<notin> v_id ` set S \<and>
     sent st' = sent st @ [(discoverySock (Interfaces st ! k), frame_of q)] \<and>
     psession q = htons (word_of_nat n + 1) \<and> h_dest q = m \<and> h_source q = if_mac (Interfaces st ! k) \<and>
     tvals (window q) = map snd pre @ map snd post"
proof -
  have n8: "length (Interfaces st) \<le> MAX_INTERFACES" using assms(1) by (simp add: relay_inv_def)
  from pads_session_new [OF assms(1,2,5,6,7,3)] assms(8) obtain n t' where
    ps: "pads_session st iface p loc k =
          Some (Inr (st\<lparr>tabs := t'\<rparr>, p\<lparr>psession := htons (word_of_nat n + 1)\<rparr>))"
    and n: "n \<notin> v_id ` set S" and ta: "tables_abs (length (Interfaces st)) t'
        (\<lparr>v_id = n, v_ac = (h_source p, psession p), v_cli = (m, htons (word_of_nat n + 1)),
          v_acif = iface, v_cliif = k, v_epoch = Epoch st\<rparr> # S)" by auto
  from relayHandlePADS_run [OF assms(2,3) n8 assms(4,5) ps] obtain q where
    r: "relayHandlePADS st iface p sz = Some (st\<lparr>tabs := t', sent := sent st @
        [(discoverySock (Interfaces st ! k), frame_of q)]\<rparr>)"
    and q: "stripped st p (htons (word_of_nat n + 1)) pre k m post q" by auto
  note stripped_fields [OF q]
  with r n ta n8 show ?thesis
    by (intro exI [of _ "st\<lparr>tabs := t', sent := sent st @
        [(discoverySock (Interfaces st ! k), frame_of q)]\<rparr>"] exI [of _ n] exI [of _ q]) (simp add: relay_inv_def)
qed

text \<open>
  C30: when the table is full the same PADS opens nothing: the tables stay as they are, the
  client is told with a session-0 PADS carrying a Generic-Error and, if the server's PADS had a Host-Uniq tag,
  that tag, and the server with a PADT for the number it had handed out. Only when the Host-Uniq tag is so long
  (more than 1451 bytes) that both tags do not fit into a packet is the client not told.
\<close>

theorem pads_table_full:
  assumes "relay_inv st S" and "sized p sz" and "iface < length (Interfaces st)" and "\<not> pads_drop st iface p"
    and "tagged st iface p clientOK pre loc k m post" and "psession p \<noteq> 0" and "\<not> known S p"
    and "int (length S) = MaxSessions (tabs st)"
  shows "relayHandlePADS st iface p sz = Some (st\<lparr>sent := sent st @
     (case first_tag TAG_HOST_UNIQ (ptags p) of
        None \<Rightarrow> [(sessionSock (Interfaces st ! k), error_frame CODE_PADS 0 m (if_mac (Interfaces st ! k))
           (enc_tag TAG_GENERIC_ERROR full_msg))]
      | Some (o', hu) \<Rightarrow> (if length (tag_payload hu) \<le> 1451
         then [(sessionSock (Interfaces st ! k), error_frame CODE_PADS 0 m (if_mac (Interfaces st ! k))
           (enc_tag TAG_GENERIC_ERROR full_msg @ enc_tag TAG_HOST_UNIQ (tag_payload hu)))]
         else [])) @
     [(discoverySock (Interfaces st ! iface), error_frame CODE_PADT (psession p) (h_source p) (if_mac (Interfaces st ! iface))
         (enc_tag TAG_GENERIC_ERROR full_msg))]\<rparr>)"
proof -
  have n8: "length (Interfaces st) \<le> MAX_INTERFACES" using assms(1) by (simp add: relay_inv_def)
  have h: "hdr_ok p" using assms(5) by (simp add: tagged_def)
  from pads_session_new [OF assms(1,2,5,6,7,3)] assms(8)
  have "pads_session st iface p loc k = Some (Inl (st\<lparr>sent := sent st @ full_errors (Interfaces st) iface p k m\<rparr>))"
    by simp
  from relayHandlePADS_full [OF assms(2,3) n8 assms(4,5) this] show ?thesis
    using h by (cases "first_tag TAG_HOST_UNIQ (ptags p)") (auto simp: full_errors_def error_sock_def)
qed

text \<open>
  C14: a session packet from either end of a session goes to the other end and nowhere
  else: on the peer's interface, to the peer's address, with the number the peer knows the
  session by; its payload is untouched, and the session counts as active now. The only
  assumption on the table is that no other session carries the same address and number.
\<close>

theorem session_packet_forwarded:
  assumes inv: "relay_inv st S" and v: "v \<in> set S" and i: "iface < length (Interfaces st)"
    and p: "pkt_wf p" "sz \<le> 1528" "int (plen p) + 20 \<le> sz" "PPPOE_VER (vertype p) = 1" "PPPOE_TYPE (vertype p) = 1"
      "pcode p = CODE_SESS" "h_dest p = if_mac (Interfaces st ! iface)"
    and from_end: "fst (end_keys v acside) = (h_source p, psession p)" "v_ac v \<noteq> v_cli v"
    and sole: "\<forall>v'\<in>set S. (h_source p, psession p) \<in> {v_ac v', v_cli v'} \<longrightarrow> v' = v"
  shows "\<exists>st' q. relayGotSessionPacket st iface p sz = Some st' \<and>
     relay_inv st' (map (\<lambda>v'. if v' = v then v\<lparr>v_epoch := Epoch st\<rparr> else v') S) \<and>
     sent st' = sent st @ [(sessionSock (Interfaces st ! snd (end_keys v (\<not> acside))), frame_of q)] \<and>
     (h_dest q, psession q) = fst (end_keys v (\<not> acside)) \<and>
     h_source q = if_mac (Interfaces st ! snd (end_keys v (\<not> acside))) \<and> window q = window p"
proof -
  have k: "known S p" using v from_end by (auto simp: known_def end_keys_def intro!: bexI [of _ v] split: if_splits)
  from relayGotSessionPacket_cases [OF inv p(1,2) i] k p obtain v2 side t' where
    v2: "v2 \<in> set S" "fst (end_keys v2 side) = (h_source p, psession p)"
    and r: "relayGotSessionPacket st iface p sz =
         Some (st\<lparr>tabs := t', sent := sent st @ [forwarded (Interfaces st) p v2 side]\<rparr>)"
    and ta: "tables_abs (length (Interfaces st)) t'
         (map (\<lambda>v'. if v_id v' = v_id v2 then v'\<lparr>v_epoch := Epoch st\<rparr> else v') S)" by auto
  have "v2 = v" using sole v2 by (auto simp: end_keys_def split: if_splits)
  moreover from this v2(2) from_end have "side = acside" by (auto simp: end_keys_def split: if_splits)
  ultimately have s: "v2 = v" "side = acside" by simp_all
  have ids: "distinct (map v_id S)" using abs_facts(4) inv by (auto simp: relay_inv_def)
  have "v_id v' = v_id v \<longleftrightarrow> v' = v" if "v' \<in> set S" for v'
    using ids v that by (auto simp: distinct_map inj_on_def)
  then have m: "map (\<lambda>v'. if v_id v' = v_id v then v'\<lparr>v_epoch := Epoch st\<rparr> else v') S =
      map (\<lambda>v'. if v' = v then v\<lparr>v_epoch := Epoch st\<rparr> else v') S" by (intro map_cong) auto
  let ?k = "end_keys v (\<not> acside)"
  let ?q = "p\<lparr>psession := snd (fst ?k), h_source := if_mac (Interfaces st ! snd ?k), h_dest := fst (fst ?k)\<rparr>"
  show ?thesis
    using r ta inv unfolding s m
    by (intro exI [of _ "st\<lparr>tabs := t', sent := sent st @ [forwarded (Interfaces st) p v acside]\<rparr>"] exI [of _ ?q])
      (simp add: relay_inv_def forwarded_def Let_def)
qed

text \<open>
  C15: a PADT from either end of a session is passed on to the other end and closes
  the session: it alone leaves the list, and as long as keys are distinct no later packet from
  either end finds a session any more.
\<close>

theorem padt_closes_session:
  assumes inv: "relay_inv st S" and v: "v \<in> set S" and p: "sized p sz" and i: "iface < length (Interfaces st)"
    and dst: "h_dest p = if_mac (Interfaces st ! iface)"
    and from_end: "fst (end_keys v acside) = (h_source p, psession p)" and d: "distinct (keys_of S)"
  shows "\<exists>st'. relayHandlePADT st iface p sz = Some st' \<and> relay_inv st' (filter (\<lambda>v'. v' \<noteq> v) S) \<and>
     sent st' = sent st @ [forwarded (Interfaces st) p v acside] \<and>
     (\<forall>p' :: packet. (h_source p', psession p') \<in> {v_ac v, v_cli v} \<longrightarrow>
        findSession (tabs st') (h_source p') (psession p') = Some None)"
proof -
  have k: "known S p" using v from_end by (auto simp: known_def end_keys_def intro!: bexI [of _ v] split: if_splits)
  from relayHandlePADT_cases [OF inv p i] k dst obtain v2 side t' where
    v2: "v2 \<in> set S" "fst (end_keys v2 side) = (h_source p, psession p)"
    and r: "relayHandlePADT st iface p sz =
         Some (st\<lparr>tabs := t', sent := sent st @ [forwarded (Interfaces st) p v2 side]\<rparr>)"
    and ta: "tables_abs (length (Interfaces st)) t' (filter (\<lambda>v'. v_id v' \<noteq> v_id v2) S)" by auto
  have key: "key \<in> {v_ac a, v_cli a} \<Longrightarrow> key \<in> {v_ac b, v_cli b} \<Longrightarrow> a = b" "v_ac a \<noteq> v_cli a"
    if "a \<in> set S" "b \<in> set S" for a b key
    using keys_of_distinct [OF d that(1)] keys_of_distinct [OF d that(2)] that by auto
  have "(h_source p, psession p) \<in> {v_ac v2, v_cli v2}" "(h_source p, psession p) \<in> {v_ac v, v_cli v}"
    using v2(2) from_end by (auto simp: end_keys_def split: if_splits)
  with key(1) [OF v2(1) v] have "v2 = v" by blast
  moreover from this v2(2) from_end key(2) [OF v v] have "side = acside" by (auto simp: end_keys_def split: if_splits)
  ultimately have s: "v2 = v" "side = acside" by simp_all
  have ids: "distinct (map v_id S)" using abs_facts(4) inv by (auto simp: relay_inv_def)
  have "v_id v' = v_id v \<longleftrightarrow> v' = v" if "v' \<in> set S" for v'
    using ids v that by (auto simp: distinct_map inj_on_def)
  then have m: "filter (\<lambda>v'. v_id v' \<noteq> v_id v) S = filter (\<lambda>v'. v' \<noteq> v) S" by (intro filter_cong) auto
  have ta': "tables_abs (length (Interfaces st)) t' (filter (\<lambda>v'. v' \<noteq> v) S)" using ta unfolding s m .
  have gone: "findSession t' (h_source p') (psession p') = Some None"
    if "(h_source p', psession p') \<in> {v_ac v, v_cli v}" for p' :: packet
  proof -
    have "\<not> known (filter (\<lambda>v'. v' \<noteq> v) S) p'" using that key(1) [OF _ v] by (auto simp: known_def)
    with find_known [OF ta', of p'] show ?thesis by auto
  qed
  show ?thesis
    using r ta' inv gone unfolding s
    by (intro exI [of _ "st\<lparr>tabs := t', sent := sent st @ [forwarded (Interfaces st) p v acside]\<rparr>"])
      (simp add: relay_inv_def)
qed

text \<open>
  C17: the cleaner closes exactly the sessions that have been idle for longer than
  the timeout, tells both ends of each, and leaves every other session alone. Idle time is
  the 32-bit difference of the clock and the session's last activity, so it stays right
  when the clock wraps.
\<close>

theorem cleaner_exact:
  assumes "relay_inv st S"
  shows "\<exists>st'. cleanSessions st = Some st' \<and>
     relay_inv st' (filter (\<lambda>v. Epoch st - v_epoch v \<le> IdleTimeout st) S) \<and>
     sent st' = sent st @ concat (map (idle_frames (Interfaces st))
        (filter (\<lambda>v. Epoch st - v_epoch v > IdleTimeout st) S)) \<and> Epoch st' = Epoch st"
proof -
  have "expired st = (\<lambda>v. Epoch st - v_epoch v > IdleTimeout st)" by (simp add: expired_def [abs_def])
  with cleanSessions_cases [OF assms] assms show ?thesis
    by (auto simp: relay_inv_def not_less)
qed

section \<open>The properties at work\<close>

definition ex_pads :: "u16 \<Rightarrow> packet" where
  "ex_pads n = mk_packet (Mac 2 0 0 0 0 2) ex_ac CODE_PADS n
     (enc_tag TAG_RELAY_SESSION_ID (relay_id 0 ex_cli) @ enc_tag TAG_HOST_UNIQ [1, 2])"

lemma ex_pads_ok:
  "sized (ex_pads n) 40" "hdr_ok (ex_pads n)" "h_source (ex_pads n) = ex_ac" "psession (ex_pads n) = n"
  "ptags (ex_pads n) = [(0, TAG_RELAY_SESSION_ID, relay_id 0 ex_cli), (14, TAG_HOST_UNIQ, [1, 2])]"
proof -
  note m = mk_packet_ok [of "enc_tag TAG_RELAY_SESSION_ID (relay_id 0 ex_cli) @ enc_tag TAG_HOST_UNIQ [1, 2]"
      "Mac 2 0 0 0 0 2" ex_ac CODE_PADS n]
  have t: "tlvs 14 (enc_tag TAG_HOST_UNIQ [1, 2]) = ([(14, TAG_HOST_UNIQ, [1, 2])], Exhausted)"
    using tlvs_enc [of TAG_HOST_UNIQ "[1, 2]" 14 "[]"] by (simp add: tlvs_short)
  show "sized (ex_pads n) 40" "hdr_ok (ex_pads n)" "h_source (ex_pads n) = ex_ac" "psession (ex_pads n) = n"
    "ptags (ex_pads n) = [(0, TAG_RELAY_SESSION_ID, relay_id 0 ex_cli), (14, TAG_HOST_UNIQ, [1, 2])]"
    using m t by (simp_all add: ex_pads_def)
qed

lemma ex_pads_tagged:
  assumes "Interfaces st = ex_ifs"
  shows "tagged st (Suc 0) (ex_pads n) clientOK [] 0 0 ex_cli [(14, TAG_HOST_UNIQ, [1, 2])]"
    and "\<not> pads_drop st (Suc 0) (ex_pads n)"
  using ex_pads_ok assms by (simp_all add: tagged_def pads_drop_def) (simp add: ex_pads_def)

lemma pads_opens_session_witness:
  "\<exists>st' n. relayHandlePADS ex_start (Suc 0) (ex_pads 7) 40 = Some st' \<and>
     relay_inv st' [\<lparr>v_id = n, v_ac = (ex_ac, 7), v_cli = (ex_cli, htons (word_of_nat n + 1)),
        v_acif = Suc 0, v_cliif = 0, v_epoch = 0\<rparr>]"
  using pads_opens_session [of ex_start "[]" "ex_pads 7" 40 "Suc 0", OF _ _ _ _ ex_pads_tagged(1)]
    ex_pads_ok [of 7] ex_pads_tagged(2) [of ex_start 7] by (simp add: known_def) blast

text \<open>A relay with one open session, with room for \<open>n\<close>.\<close>

definition ex_session :: "nat \<Rightarrow> relay \<Rightarrow> vses \<Rightarrow> bool" where
  "ex_session n st v \<longleftrightarrow>
     relay_inv st [v] \<and> Interfaces st = ex_ifs \<and> MaxSessions (tabs st) = int n \<and> v_ac v = (ex_ac, 7) \<and>
     fst (v_cli v) = ex_cli \<and> v_acif v = 1 \<and> v_cliif v = 0 \<and> v_epoch v = 0 \<and> Epoch st = 1000 \<and> IdleTimeout st = 600"

lemma ex_session:
  assumes "0 < n" "n < 65535"
  shows "\<exists>st v. ex_session n st v"
proof -
  from init_abs [OF assms, of 2] obtain t where t: "tables_abs 2 t []" "MaxSessions t = int n" by blast
  from create_abs [OF t(1), of 1 0 0 ex_ac ex_cli 7] t(2) assms obtain t' v where
    "tables_abs 2 t' [v]" "v_ac v = (ex_ac, 7)" "fst (v_cli v) = ex_cli" "v_acif v = 1" "v_cliif v = 0" "v_epoch v = 0"
    "MaxSessions t' = int n" by auto
  then have "ex_session n (ex_start\<lparr>tabs := t', Epoch := 1000\<rparr>) v"
    by (simp add: ex_session_def relay_inv_def)
  then show ?thesis by blast
qed

lemma pads_table_full_witness:
  "\<exists>st v l. ex_session 1 st v \<and> relayHandlePADS st (Suc 0) (ex_pads 8) 40 = Some (st\<lparr>sent := sent st @ l\<rparr>) \<and> length l = 2"
proof -
  from ex_session [of 1] obtain st v where s: "ex_session 1 st v" by auto
  then have i: "relay_inv st [v]" "Interfaces st = ex_ifs" "MaxSessions (tabs st) = 1" "\<not> known [v] (ex_pads 8)"
    using ex_pads_ok [of 8] by (cases "v_cli v"; auto simp: ex_session_def known_def)+
  have f: "first_tag TAG_HOST_UNIQ (ptags (ex_pads 8)) = Some (14, mk_tag TAG_HOST_UNIQ [1, 2])"
    by (simp add: ex_pads_ok first_tag_def)
  from pads_table_full [OF i(1) _ _ ex_pads_tagged(2,1) [OF i(2)] _ i(4) _] f i(2,3) ex_pads_ok [of 8]
  obtain l where "relayHandlePADS st (Suc 0) (ex_pads 8) 40 = Some (st\<lparr>sent := sent st @ l\<rparr>)" "length l = 2"
    by (simp add: mk_tag_def)
  with s show ?thesis by blast
qed

definition ex_data :: "u8 \<Rightarrow> packet" where
  "ex_data code = mk_packet (Mac 2 0 0 0 0 2) ex_ac code 7 [0xC0, 0x21]"

lemma ex_data_ok:
  "sized (ex_data code) 22" "pkt_wf (ex_data code)" "plen (ex_data code) = 2"
  "PPPOE_VER (vertype (ex_data code)) = 1" "PPPOE_TYPE (vertype (ex_data code)) = 1"
  "pcode (ex_data code) = code" "h_dest (ex_data code) = if_mac (ex_ifs ! Suc 0)"
  "h_source (ex_data code) = ex_ac" "psession (ex_data code) = 7"
  using mk_packet_ok [of "[0xC0, 0x21]" "Mac 2 0 0 0 0 2" ex_ac code 7]
  by (simp_all add: ex_data_def PPPOE_VER_def PPPOE_TYPE_def)

lemma session_packet_forwarded_witness:
  "\<exists>st v st' q. ex_session 2 st v \<and> relayGotSessionPacket st (Suc 0) (ex_data CODE_SESS) 60 = Some st' \<and>
     sent st' = sent st @ [(4, frame_of q)] \<and> (h_dest q, psession q) = v_cli v"
proof -
  from ex_session [of 2] obtain st v where s: "ex_session 2 st v" by auto
  then have i: "relay_inv st [v]" "Interfaces st = ex_ifs" "v_ac v = (ex_ac, 7)" "fst (v_cli v) = ex_cli" "v_cliif v = 0"
    by (auto simp: ex_session_def)
  have "v_ac v \<noteq> v_cli v" using i(3,4) by (cases "v_cli v") auto
  with session_packet_forwarded [OF i(1), of v "Suc 0" "ex_data CODE_SESS" 60 True] i(2,3,5) ex_data_ok [of CODE_SESS] s
  show ?thesis by (simp add: end_keys_def) blast
qed

lemma padt_closes_session_witness:
  "\<exists>st v st'. ex_session 2 st v \<and> relayHandlePADT st (Suc 0) (ex_data CODE_PADT) 22 = Some st' \<and> relay_inv st' []"
proof -
  from ex_session [of 2] obtain st v where s: "ex_session 2 st v" by auto
  then have i: "relay_inv st [v]" "Interfaces st = ex_ifs" "v_ac v = (ex_ac, 7)" "fst (v_cli v) = ex_cli"
    by (auto simp: ex_session_def)
  have "distinct (keys_of [v])" using i(3,4) by (cases "v_cli v") (auto simp: keys_of_def)
  with padt_closes_session [OF i(1), of v "ex_data CODE_PADT" 22 "Suc 0" True] i(2,3) ex_data_ok [of CODE_PADT] s
  show ?thesis by (auto simp: end_keys_def)
qed

lemma cleaner_exact_witness:
  "\<exists>st v st'. ex_session 2 st v \<and> cleanSessions st = Some st' \<and> relay_inv st' [] \<and>
     sent st' = sent st @ idle_frames ex_ifs v"
proof -
  from ex_session [of 2] obtain st v where s: "ex_session 2 st v" by auto
  then have i: "relay_inv st [v]" "Interfaces st = ex_ifs" "v_epoch v = 0" "Epoch st = 1000" "IdleTimeout st = 600"
    by (auto simp: ex_session_def)
  from cleaner_exact [OF i(1)] i s show ?thesis by auto
qed

section \<open>Tables and tags\<close>

text \<open>
  C18: \<open>createSession\<close> refines insertion into the abstract session list. While fewer than
  \<open>MaxSessions\<close> sessions exist it succeeds, with a fresh session; both of its keys then lead
  to its two distinct hash entries and every other key leads where it led before. With a
  full table it returns NULL and changes nothing.
\<close>

theorem createSession_refines:
  assumes "tables_abs nif t S" and "ac < nif" and "cli < nif"
  shows "if int (length S) < MaxSessions t
     then \<exists>p t' a c. createSession now t ac cli acMac cliMac acSes = Some (Some p, t') \<and> p \<notin> v_id ` set S \<and>
        tables_abs nif t' (\<lparr>v_id = p, v_ac = (acMac, acSes), v_cli = (cliMac, htons (word_of_nat p + 1)),
          v_acif = ac, v_cliif = cli, v_epoch = now\<rparr> # S) \<and>
        a \<noteq> c \<and> lookup t' = (lookup t)((acMac, acSes) \<mapsto> a, (cliMac, htons (word_of_nat p + 1)) \<mapsto> c)
     else createSession now t ac cli acMac cliMac acSes = Some (None, t)"
  using create_abs [OF assms, of now acMac cliMac acSes] by (auto split: if_splits)

lemma ex_tables: "tables_abs 2 (tabs ex_start) []"
  using ex_start_simps(1) by (simp add: relay_inv_def)

lemma createSession_refines_witness:
  "\<exists>p t'. createSession 0 (tabs ex_start) 1 0 ex_ac ex_cli 7 = Some (Some p, t')"
  using createSession_refines [OF ex_tables, of 1 0 0 ex_ac ex_cli 7] by auto

text \<open>
  C19: \<open>freeSession\<close> refines deletion: exactly that session leaves the list, and if keys are
  distinct exactly its two keys leave the lookup map. Its entries go back on the free lists, so
  the session number can be given out again.
\<close>

theorem freeSession_refines:
  assumes "tables_abs nif t S" and "v \<in> set S"
  shows "\<exists>t'. freeSession t (v_id v) = Some t' \<and> tables_abs nif t' (filter (\<lambda>v'. v_id v' \<noteq> v_id v) S) \<and>
     MaxSessions t' = MaxSessions t \<and>
     (distinct (keys_of S) \<longrightarrow> lookup t' = (lookup t)(v_ac v := None, v_cli v := None))"
proof -
  have "v_id v \<in> v_id ` set S" using assms(2) by simp
  from free_abs [OF assms(1) this] assms(2) show ?thesis by blast
qed

lemma freeSession_refines_witness:
  "\<exists>t t' v. tables_abs 2 t [v] \<and> freeSession t (v_id v) = Some t' \<and> tables_abs 2 t' []"
proof -
  from ex_session [of 2] obtain st v where "ex_session 2 st v" by auto
  then have "tables_abs 2 (tabs st) [v]" by (auto simp: ex_session_def relay_inv_def)
  with freeSession_refines [OF this, of v] show ?thesis by auto
qed

text \<open>
  C10: \<open>findSession\<close> walks a hash chain that always ends; it returns NULL exactly for keys no
  session has, and otherwise an end of a session with that key, whose \<open>ses\<close>, \<open>peer\<close> and
  \<open>interface\<close> pointers lead to that session, its other end and that end's interface.
\<close>

theorem findSession_correct:
  assumes "tables_abs nif t S"
  shows "\<exists>r. findSession t m n = Some r \<and>
     (r = None \<longleftrightarrow> (\<forall>v\<in>set S. (m, n) \<notin> {v_ac v, v_cli v})) \<and>
     (\<forall>i. r = Some i \<longrightarrow> (\<exists>v\<in>set S. \<exists>acside j. fst (end_keys v acside) = (m, n) \<and> ends t v acside i j))"
proof -
  from find_abs [OF assms, of m n] obtain r where r: "findSession t m n = Some r"
    and c: "case r of
        None \<Rightarrow> \<forall>v\<in>set S. v_ac v \<noteq> (m, n) \<and> v_cli v \<noteq> (m, n)
      | Some i \<Rightarrow> \<exists>v\<in>set S. \<exists>acside j. fst (end_keys v acside) = (m, n) \<and> ends t v acside i j" by blast
  show ?thesis
  proof (cases r)
    case None
    with r c show ?thesis by auto
  next
    case (Some i)
    with c obtain v acside j where v: "v \<in> set S" "fst (end_keys v acside) = (m, n)" "ends t v acside i j" by auto
    then have "(m, n) \<in> {v_ac v, v_cli v}" by (auto simp: end_keys_def split: if_splits)
    with v r Some show ?thesis by auto
  qed
qed

lemma findSession_correct_witness:
  "\<exists>t v i. tables_abs 2 t [v] \<and> findSession t ex_ac 7 = Some (Some i)"
proof -
  from ex_session [of 2] obtain st v where s: "ex_session 2 st v" by auto
  then have t: "tables_abs 2 (tabs st) [v]" "v_ac v = (ex_ac, 7)" by (auto simp: ex_session_def relay_inv_def)
  from findSession_correct [OF t(1), of ex_ac 7] t show ?thesis by auto
qed

lemma tlvs_concat:
  assumes "\<forall>(ty, d) \<in> set ts. ty \<noteq> 0 \<and> length d < 65536"
  shows "map snd (fst (tlvs off (concat (map (\<lambda>(ty, d). enc_tag ty d) ts)))) = ts \<and>
     snd (tlvs off (concat (map (\<lambda>(ty, d). enc_tag ty d) ts))) = Exhausted"
  using assms
proof (induction ts arbitrary: off)
  case Nil
  then show ?case by (simp add: tlvs_short)
next
  case (Cons t ts)
  then show ?case by (cases t) auto
qed

lemma enc_tag_in_concat:
  "(ty, d) \<in> set ts \<Longrightarrow> length d \<le> length (concat (map (\<lambda>(ty, d). enc_tag ty d) ts))"
  by (induction ts) auto

lemma fold_tags:
  "fold (\<lambda>(_, ty, d) acc. acc @ [(ty, d)]) xs acc = acc @ map snd xs"
  by (induction xs arbitrary: acc) (auto simp: split_beta)

lemma first_tag_map_of: "map_option (tag_payload \<circ> snd) (first_tag ty xs) = map_of (map snd xs) ty"
  by (induction xs) (auto simp: first_tag_def mk_tag_def)

text \<open>
  C31: \<open>findTag\<close> and \<open>parsePacket\<close> stay inside the payload for every packet, whatever its length
  field and tag lengths claim, and a payload built from any sequence of tags that fits
  is read back as that sequence: \<open>parsePacket\<close> calls its handler for each tag in order and
  returns 0, \<open>findTag\<close> finds the first tag of the type asked for.
\<close>

theorem tags_roundtrip:
  assumes "pkt_wf p" and "hdr_ok p" and "window p = concat (map (\<lambda>(ty, d). enc_tag ty d) ts)"
    and "\<forall>(ty, d) \<in> set ts. ty \<noteq> TAG_END_OF_LIST"
  shows "parsePacket p (\<lambda>ty len d acc. acc @ [(ty, d)]) [] = Some (0, ts) \<and>
     map_option (map_option (tag_payload \<circ> snd)) (findTag p ty) = Some (map_of ts ty) \<and>
     (\<forall>p' f s. pkt_wf p' \<longrightarrow> findTag p' ty \<noteq> None \<and> parsePacket p' f (s :: 's) \<noteq> None)"
proof -
  have "length (window p) \<le> 1502" using length_window [OF assms(1)] assms(2) by (simp add: hdr_ok_def)
  then have "\<forall>(ty, d) \<in> set ts. ty \<noteq> 0 \<and> length d < 65536"
    using enc_tag_in_concat [of _ _ ts] assms(3,4) by fastforce
  from tlvs_concat [OF this, of 0] have t: "map snd (ptags p) = ts" "snd (tlvs 0 (window p)) = Exhausted"
    by (simp_all add: ptags_def assms(3))
  have "parsePacket p (\<lambda>ty len d acc. acc @ [(ty, d)]) [] = Some (0, ts)"
    using assms(2) t by (simp add: parsePacket_eq [OF assms(1)] fold_tags rc_of_end_def)
  moreover have "map_option (map_option (tag_payload \<circ> snd)) (findTag p ty) = Some (map_of ts ty)"
    using assms(2) t(1) first_tag_map_of [of ty "ptags p"] by (simp add: findTag_eq [OF assms(1)])
  ultimately show ?thesis by (simp add: findTag_eq parsePacket_eq)
qed

lemma tags_roundtrip_witness:
  "parsePacket ex_padi (\<lambda>ty len d acc. acc @ [(ty, d)]) [] = Some (0, [(0x0101, [])])"
  by (rule tags_roundtrip [THEN conjunct1]) (simp_all add: ex_padi_ok)

text \<open>
  C14: \<open>removeBytes\<close> undoes \<open>addTag\<close>. Adding a tag that fits puts it in front of the tags the
  packet has, grows the length by the number of bytes the call returns, and removing that many
  bytes at the front gives back the payload and the length.
\<close>

theorem addTag_removeBytes:
  assumes "pkt_wf p" and "tag = mk_tag ty d" and "ty \<noteq> 0" and "length d + 4 + plen p \<le> MAX_PPPOE_PAYLOAD"
  shows "\<exists>p1 p2. addTag p tag = Some (int (length d) + 4, p1) \<and> tvals (window p1) = (ty, d) # tvals (window p) \<and>
     plen p1 = plen p + 4 + length d \<and>
     removeBytes p1 0 (int (length d) + 4) = Some (int (length d) + 4, p2) \<and>
     window p2 = window p \<and> plen p2 = plen p"
proof -
  have n: "length d = unat (ntohs (tag_length tag))" using assms by (simp add: mk_tag_def)
  from addTag_ok [OF assms(1) _ n, of ty] assms obtain buf l where
    a: "addTag p tag = Some (int (length d) + 4, p\<lparr>payload := buf, plength := l\<rparr>)"
    and wf: "pkt_wf (p\<lparr>payload := buf, plength := l\<rparr>)"
    and pl: "plen (p\<lparr>payload := buf, plength := l\<rparr>) = length d + 4 + plen p"
    and w: "window (p\<lparr>payload := buf, plength := l\<rparr>) = enc_tag ty d @ window p"
    by (auto simp: mk_tag_def)
  define p1 where "p1 = p\<lparr>payload := buf, plength := l\<rparr>"
  have le: "plen p1 \<le> 1508" "0 + (length d + 4) \<le> plen p1" using pl assms(4) by (simp_all add: p1_def)
  from removeBytes_ok [OF wf [folded p1_def] le] obtain buf' where
    r: "removeBytes p1 (int 0) (int (length d + 4)) = Some (int (length d + 4),
        p1\<lparr>payload := buf', plength := htons (word_of_int (int (plen p1 - (length d + 4))))\<rparr>)"
    and t: "take (plen p1 - (length d + 4)) buf' = take 0 (window p1) @ drop (0 + (length d + 4)) (window p1)" by blast
  define p2 where "p2 = p1\<lparr>payload := buf', plength := htons (word_of_int (int (plen p1 - (length d + 4))))\<rparr>"
  have d: "plen p1 - (length d + 4) = plen p" using pl by (simp add: p1_def)
  have l2: "plen p2 = plen p" unfolding p2_def d using plen_bound by (rule plen_set)
  have "window p2 = window p"
    unfolding window_def [of p2] l2 using t w unfolding d by (simp add: p2_def p1_def)
  moreover have "removeBytes p1 0 (int (length d) + 4) = Some (int (length d) + 4, p2)"
    using r by (simp add: p2_def)
  moreover have "tvals (window p1) = (ty, d) # tvals (window p)" using w assms(3,4) by (simp add: p1_def)
  moreover have "plen p1 = plen p + 4 + length d" using pl by (simp add: p1_def)
  ultimately show ?thesis using a l2 unfolding p1_def by blast
qed

lemma addTag_removeBytes_witness:
  "\<exists>p1 p2. addTag ex_padi (mk_tag 0x0103 [9]) = Some (5, p1) \<and> removeBytes p1 0 5 = Some (5, p2) \<and> plen p2 = 4"
  using addTag_removeBytes [of ex_padi "mk_tag 0x0103 [9]" "0x0103" "[9]"] ex_padi_ok by auto

end
