(* ===== verification/Tcp_Mss.thy ===== *)
theory Tcp_Mss
  imports Pppoe_Packet
begin

text \<open>
  MSS clamping (\<open>common.c\<close>): \<open>computeTCPChecksum\<close> and \<open>clampMSS\<close> on the payload
  array of a packet. Pointers into the packet are offsets into the payload; every read and
  write is checked against the array, so \<open>None\<close> is an access outside it. The 16-bit
  reads through \<open>uint16_t *\<close> are little-endian.
\<close>

section \<open>Code\<close>

text \<open>The loop over the segment; \<open>n\<close> is the value of the 16-bit \<open>count\<close>.\<close>

function sum_loop :: "byte_buf \<Rightarrow> nat \<Rightarrow> nat \<Rightarrow> u32 \<Rightarrow> u32 option" where
  "sum_loop buf a n s =
     (if n > 1 then do {
        l \<leftarrow> arr_get buf a;
        h \<leftarrow> arr_get buf (a + 1);
        sum_loop buf (a + 2) (n - 2) (s + ucast (join16 h l)) }
      else if n > 0 then do { b \<leftarrow> arr_get buf a; Some (s + ucast b) }
      else Some s)"
  by pat_completeness auto
termination by (relation "measure (\<lambda>(buf, a, n, s). n)") auto

lemma fold_step_unat:
  "unat ((s AND 0xFFFF) + drop_bit 16 s :: u32) = unat s mod 65536 + unat s div 65536"
proof -
  have m: "unat (s AND 0xFFFF) = unat s mod 65536"
  proof -
    have "s AND 0xFFFF = take_bit 16 s" by (simp add: take_bit_eq_mask mask_eq_exp_minus_1)
    then show ?thesis by (simp add: take_bit_eq_mod unat_mod_distrib)
  qed
  have d: "unat (drop_bit 16 s) = unat s div 65536"
    by (simp add: drop_bit_eq_div unat_div_distrib)
  have "unat s < 4294967296" using unsigned_less [of s] by simp
  then have "unat s mod 65536 + unat s div 65536 < 4294967296" by linarith
  then show ?thesis using m d by (simp add: unat_word_ariths)
qed

lemma drop_zero: "drop_bit 16 (s :: u32) = 0 \<longleftrightarrow> unat s < 65536"
proof -
  have "drop_bit 16 s = 0 \<longleftrightarrow> unat (drop_bit 16 s) = 0" by (simp add: unsigned_eq_0_iff)
  also have "unat (drop_bit 16 s) = unat s div 65536"
    by (simp add: drop_bit_eq_div unat_div_distrib)
  finally show ?thesis by (simp add: div_eq_0_iff)
qed

text \<open>\<open>while (sum >> 16) sum = (sum & 0xffff) + (sum >> 16)\<close>\<close>

function fold_loop :: "u32 \<Rightarrow> u32" where
  "fold_loop s = (if drop_bit 16 s = 0 then s else fold_loop ((s AND 0xFFFF) + drop_bit 16 s))"
  by pat_completeness auto

termination
proof (relation "measure unat")
  fix s :: u32 assume "drop_bit 16 s \<noteq> 0"
  then have "65536 \<le> unat s" by (simp add: drop_zero)
  then have "unat s mod 65536 + unat s div 65536 < unat s"
    using mult_div_mod_eq [of 65536 "unat s"] by linarith
  then show "((s AND 0xFFFF) + drop_bit 16 s, s) \<in> measure unat" by (simp add: fold_step_unat)
qed simp

declare sum_loop.simps [simp del] fold_loop.simps [simp del]

definition computeTCPChecksum :: "byte_buf \<Rightarrow> nat \<Rightarrow> nat \<Rightarrow> u16 option" where
  "computeTCPChecksum buf ipHdr tcpHdr = do {
     b2 \<leftarrow> arr_get buf (ipHdr + 2);
     b3 \<leftarrow> arr_get buf (ipHdr + 3);
     b0 \<leftarrow> arr_get buf ipHdr;
     let count = (ucast b2 * 256 + ucast b3 :: u16) - ucast (b0 AND 0x0F) * 4;
     addrs \<leftarrow> rd_bytes buf (ipHdr + 12) 8;
     b9 \<leftarrow> arr_get buf (ipHdr + 9);
     let pseudoHeader = addrs @ [0, b9, hi8 count, lo8 count];
     sum \<leftarrow> sum_loop pseudoHeader 0 12 0;
     sum \<leftarrow> sum_loop buf tcpHdr (unat count) sum;
     Some (ucast (NOT (fold_loop sum))) }"

datatype mss_search = Bogus | NoMss | Mss nat

text \<open>The walk over the TCP options; \<open>Bogus\<close> is the early return on a bad option length.\<close>

function mss_loop :: "byte_buf \<Rightarrow> nat \<Rightarrow> nat \<Rightarrow> mss_search option" where
  "mss_loop buf opt endHdr =
     (if opt < endHdr then do {
        k \<leftarrow> arr_get buf opt;
        if k = 0 then Some NoMss
        else if k = 1 then mss_loop buf (opt + 1) endHdr
        else do {
          l \<leftarrow> arr_get buf (opt + 1);
          if k = 2 then (if l \<noteq> 4 then Some Bogus else Some (Mss opt))
          else if l < 2 then Some Bogus
          else mss_loop buf (opt + unat l) endHdr } }
      else Some NoMss)"
  by pat_completeness auto
termination
proof (relation "measure (\<lambda>(buf, opt, endHdr). endHdr - opt)")
  fix buf :: byte_buf and opt endHdr :: nat and k l :: u8
  assume "opt < endHdr" "\<not> l < 2"
  moreover have "l \<noteq> 0" using \<open>\<not> l < 2\<close> by auto
  then have "0 < unat l" by (simp add: unat_gt_0)
  ultimately show "((buf, opt + unat l, endHdr), buf, opt, endHdr) \<in> measure (\<lambda>(buf, opt, endHdr). endHdr - opt)"
    by simp
qed auto

declare mss_loop.simps [simp del]

text \<open>Where the IP header starts and the least length, or the early return for other protocols.\<close>

definition ppp_ipv4 :: "byte_buf \<Rightarrow> (nat \<times> nat) option option" where
  "ppp_ipv4 buf = do {
     b0 \<leftarrow> arr_get buf 0;
     if b0 AND 0x01 \<noteq> 0
     then (if b0 \<noteq> 0x21 then Some None else Some (Some (1, 41)))
     else do {
       b1 \<leftarrow> arr_get buf 1;
       if b0 \<noteq> 0 \<or> b1 \<noteq> 0x21 then Some None else Some (Some (2, 42)) } }"

text \<open>Storing the clamp value and the new checksum.\<close>

definition mss_rewrite :: "byte_buf \<Rightarrow> nat \<Rightarrow> nat \<Rightarrow> nat \<Rightarrow> u32 \<Rightarrow> byte_buf option" where
  "mss_rewrite buf ipHdr tcpHdr opt clampMss = do {
     buf \<leftarrow> arr_upd buf (opt + 2) (\<lambda>_. ucast (drop_bit 8 clampMss));
     buf \<leftarrow> arr_upd buf (opt + 3) (\<lambda>_. ucast clampMss);
     buf \<leftarrow> arr_upd buf (tcpHdr + 16) (\<lambda>_. 0);
     buf \<leftarrow> arr_upd buf (tcpHdr + 17) (\<lambda>_. 0);
     csum \<leftarrow> computeTCPChecksum buf ipHdr tcpHdr;
     buf \<leftarrow> arr_upd buf (tcpHdr + 16) (\<lambda>_. lo8 csum);
     arr_upd buf (tcpHdr + 17) (\<lambda>_. hi8 csum) }"

text \<open>
  Everything \<open>clampMSS\<close> does before it looks at the option's value: \<open>Some None\<close> is each
  of its early returns, otherwise the offsets of the IP header, the TCP header and
  the MSS option.
\<close>

definition find_mss :: "packet \<Rightarrow> (nat \<times> nat \<times> nat) option option" where
  "find_mss p = do {
     let buf = payload p;
     start \<leftarrow> ppp_ipv4 buf;
     case start of
       None \<Rightarrow> Some None
     | Some (ipHdr, minlen) \<Rightarrow>
         if plen p < minlen then Some None
         else do {
           b0 \<leftarrow> arr_get buf ipHdr;
           b6 \<leftarrow> arr_get buf (ipHdr + 6);
           b7 \<leftarrow> arr_get buf (ipHdr + 7);
           b9 \<leftarrow> arr_get buf (ipHdr + 9);
           if b0 AND 0xF0 \<noteq> 0x40 then Some None
           else if b6 AND 0x1F \<noteq> 0 \<or> b7 \<noteq> 0 then Some None
           else if b9 \<noteq> 0x06 then Some None
           else do {
             let tcpHdr = ipHdr + unat (b0 AND 0x0F) * 4;
             b13 \<leftarrow> arr_get buf (tcpHdr + 13);
             if b13 AND 0x02 = 0 then Some None
             else do {
               csum \<leftarrow> computeTCPChecksum buf ipHdr tcpHdr;
               if csum \<noteq> 0 then Some None
               else do {
                 b12 \<leftarrow> arr_get buf (tcpHdr + 12);
                 let endHdr = tcpHdr + unat (drop_bit 2 (b12 AND 0xF0));
                 res \<leftarrow> mss_loop buf (tcpHdr + 20) endHdr;
                 case res of
                   Bogus \<Rightarrow> Some None
                 | NoMss \<Rightarrow> Some None
                 | Mss opt \<Rightarrow> Some (Some (ipHdr, tcpHdr, opt)) } } } } }"

definition clampMSS :: "packet \<Rightarrow> u32 \<Rightarrow> packet option" where
  "clampMSS p clampMss = do {
     found \<leftarrow> find_mss p;
     case found of
       None \<Rightarrow> Some p
     | Some (ipHdr, tcpHdr, opt) \<Rightarrow> do {
         m2 \<leftarrow> arr_get (payload p) (opt + 2);
         m3 \<leftarrow> arr_get (payload p) (opt + 3);
         if (ucast m2 * 256 + ucast m3 :: u32) \<le> clampMss then Some p
         else do {
           buf \<leftarrow> mss_rewrite (payload p) ipHdr tcpHdr opt clampMss;
           Some (p\<lparr>payload := buf\<rparr>) } } }"

section \<open>The checksum as a sum of natural numbers\<close>

text \<open>One's complement folding of a sum to 16 bits.\<close>

definition ones :: "nat \<Rightarrow> nat" where
  "ones n = (if n = 0 then 0 else (n - 1) mod 65535 + 1)"

fun seg_sum :: "byte_buf \<Rightarrow> nat \<Rightarrow> nat \<Rightarrow> nat" where
  "seg_sum buf a (Suc (Suc n)) = unat (join16 (buf ! Suc a) (buf ! a)) + seg_sum buf (a + 2) n"
| "seg_sum buf a (Suc 0) = unat (buf ! a)"
| "seg_sum buf a 0 = 0"

lemma ones_fold: "ones (n mod 65536 + n div 65536) = ones n"
proof (cases "n = 0")
  case False
  let ?q = "n div 65536" and ?r = "n mod 65536"
  have n: "n = 65536 * ?q + ?r" by simp
  have p: "0 < ?r + ?q" using False by (metis add_is_0 gr0I mod_div_trivial mod_eq_self_iff_div_eq_0)
  have "n - 1 = 65535 * ?q + (?r + ?q - 1)" using n p by linarith
  then have "(n - 1) mod 65535 = (?r + ?q - 1) mod 65535" by simp
  with p False show ?thesis by (simp add: ones_def)
qed simp

lemma fold_loop_unat: "unat (fold_loop s) = ones (unat s)"
proof (induction s rule: fold_loop.induct)
  case (1 s)
  show ?case
  proof (cases "drop_bit 16 s = 0")
    case True
    then have "unat s < 65536" by (simp add: drop_zero)
    with True show ?thesis by (simp add: fold_loop.simps [of s] ones_def)
  next
    case False
    then have "unat (fold_loop s) = ones (unat ((s AND 0xFFFF) + drop_bit 16 s))"
      using 1 by (simp add: fold_loop.simps [of s])
    then show ?thesis by (simp only: fold_step_unat ones_fold)
  qed
qed

lemma ones_le: "ones n \<le> 65535"
proof (cases "n = 0")
  case False
  have "(n - 1) mod 65535 < 65535" by simp
  moreover have "ones n = (n - 1) mod 65535 + 1" using False unfolding ones_def by simp
  ultimately show ?thesis by linarith
qed (simp add: ones_def)

lemma seg_sum_bound: "seg_sum buf a n \<le> 65535 * ((n + 1) div 2)"
proof (induction buf a n rule: seg_sum.induct)
  case (1 buf a n)
  have "unat (join16 (buf ! Suc a) (buf ! a)) \<le> 65535"
    using unat_u16_lt [of "join16 (buf ! Suc a) (buf ! a)"] by linarith
  with 1 show ?case by simp
next
  case (2 buf a)
  have "unat (buf ! a) < 256" by (rule unat_u8_lt)
  then show ?case unfolding seg_sum.simps by linarith
qed simp

lemma seg_sum_cong:
  "(\<And>i. a \<le> i \<Longrightarrow> i < a + n \<Longrightarrow> buf ! i = buf' ! i) \<Longrightarrow> seg_sum buf a n = seg_sum buf' a n"
proof (induction buf a n rule: seg_sum.induct)
  case (1 buf a n)
  have "buf ! a = buf' ! a" "buf ! Suc a = buf' ! Suc a" by (auto intro: "1.prems")
  moreover have "seg_sum buf (a + 2) n = seg_sum buf' (a + 2) n" by (rule "1.IH") (auto intro: "1.prems")
  ultimately show ?case by simp
qed auto

lemma seg_sum_even: "even m \<Longrightarrow> seg_sum buf a (m + n) = seg_sum buf a m + seg_sum buf (a + m) n"
proof (induction buf a m rule: seg_sum.induct)
  case (1 buf a m)
  then have "seg_sum buf (a + 2) (m + n) = seg_sum buf (a + 2) m + seg_sum buf (a + 2 + m) n" by simp
  then show ?case by (simp add: add.commute add.left_commute)
qed auto

lemma sum_loop_seg:
  "a + n \<le> length buf \<Longrightarrow> unat s + seg_sum buf a n < 4294967296 \<Longrightarrow>
   \<exists>s'. sum_loop buf a n s = Some s' \<and> unat s' = unat s + seg_sum buf a n"
proof (induction buf a n arbitrary: s rule: seg_sum.induct)
  case (1 buf a n)
  let ?w = "join16 (buf ! Suc a) (buf ! a)"
  have u: "unat (ucast ?w :: u32) = unat ?w" by (rule unat_ucast_16_32)
  have "unat (s + ucast ?w) = unat s + unat ?w"
    using "1.prems"(2) by (simp add: unat_word_ariths u)
  with "1.IH" [of "s + ucast ?w"] "1.prems" show ?case
    by (simp add: sum_loop.simps [of buf a] arr_get_def add.assoc)
next
  case (2 buf a)
  have u: "unat (ucast (buf ! a) :: u32) = unat (buf ! a)" by (rule unat_ucast_8_32)
  with "2.prems" show ?case by (simp add: sum_loop.simps arr_get_def unat_word_ariths)
qed (simp add: sum_loop.simps)

lemma sum_loop_fault: "0 < n \<Longrightarrow> length buf < a + n \<Longrightarrow> sum_loop buf a n s = None"
proof (induction buf a n arbitrary: s rule: seg_sum.induct)
  case (1 buf a n)
  show ?case
  proof (cases "n = 0")
    case True
    with 1 show ?thesis by (subst sum_loop.simps) (simp add: arr_get_def)
  next
    case False
    with 1 have "sum_loop buf (a + 2) n s' = None" for s' by simp
    then show ?thesis by (subst sum_loop.simps) (simp add: arr_get_def)
  qed
qed (auto simp: sum_loop.simps arr_get_def)

text \<open>The 16-bit count the code computes, and everything the checksum covers.\<close>

definition tcp_count :: "byte_buf \<Rightarrow> nat \<Rightarrow> u16" where
  "tcp_count buf ip = (ucast (buf ! (ip + 2)) * 256 + ucast (buf ! (ip + 3)) :: u16) - ucast (buf ! ip AND 0x0F) * 4"

definition pseudo :: "byte_buf \<Rightarrow> nat \<Rightarrow> byte_buf" where
  "pseudo buf ip =
     take 8 (drop (ip + 12) buf) @ [0, buf ! (ip + 9), hi8 (tcp_count buf ip), lo8 (tcp_count buf ip)]"

definition tcp_total :: "byte_buf \<Rightarrow> nat \<Rightarrow> nat \<Rightarrow> nat" where
  "tcp_total buf ip tcp = seg_sum (pseudo buf ip) 0 12 + seg_sum buf tcp (unat (tcp_count buf ip))"

lemma unat_not16: "unat (NOT w :: u16) = 65535 - unat w"
proof -
  have "NOT w = -1 - w" by (simp add: not_eq_complement)
  moreover have "w \<le> -1" by (rule word_order.extremum)
  moreover have "unat (-1 :: u16) = 65535" by (simp add: unsigned_minus_1_eq_mask mask_eq_exp_minus_1)
  ultimately show ?thesis by (simp add: unat_sub)
qed

lemma ucast_not: "unat (w :: u32) \<le> 65535 \<Longrightarrow> unat (ucast (NOT w) :: u16) = 65535 - unat w"
proof -
  assume w: "unat w \<le> 65535"
  have "(ucast (NOT w) :: u16) = NOT (ucast w)" by (rule bit_word_eqI) (simp add: bit_simps)
  moreover have "unat (ucast w :: u16) = unat w"
    using w by (simp add: unsigned_ucast_eq take_bit_nat_eq_self)
  ultimately show ?thesis by (simp add: unat_not16)
qed

lemma length_pseudo: "ip + 20 \<le> length buf \<Longrightarrow> length (pseudo buf ip) = 12"
  by (simp add: pseudo_def)

lemma checksum_ok:
  assumes ip: "ip + 20 \<le> length buf" and tcp: "tcp + unat (tcp_count buf ip) \<le> length buf"
  shows "\<exists>c. computeTCPChecksum buf ip tcp = Some c \<and> unat c = 65535 - ones (tcp_total buf ip tcp)"
proof -
  let ?n = "unat (tcp_count buf ip)"
  have b1: "seg_sum (pseudo buf ip) 0 12 \<le> 393210" using seg_sum_bound [of "pseudo buf ip" 0 12] by simp
  have "(?n + 1) div 2 \<le> 32768" using unat_u16_lt [of "tcp_count buf ip"] by linarith
  with seg_sum_bound [of buf tcp ?n] have b2: "seg_sum buf tcp ?n \<le> 2147450880" by linarith
  from sum_loop_seg [of 0 12 "pseudo buf ip" 0] b1 length_pseudo [OF ip] obtain s1 where
    s1: "sum_loop (pseudo buf ip) 0 12 0 = Some s1" "unat s1 = seg_sum (pseudo buf ip) 0 12" by auto
  from sum_loop_seg [OF tcp, of s1] s1(2) b1 b2 obtain s2 where
    s2: "sum_loop buf tcp ?n s1 = Some s2" "unat s2 = tcp_total buf ip tcp" by (auto simp: tcp_total_def)
  have "unat (fold_loop s2) = ones (tcp_total buf ip tcp)" by (simp add: fold_loop_unat s2(2))
  moreover from this have "unat (ucast (NOT (fold_loop s2)) :: u16) = 65535 - ones (tcp_total buf ip tcp)"
    using ucast_not [of "fold_loop s2"] ones_le by simp
  moreover have "computeTCPChecksum buf ip tcp = Some (ucast (NOT (fold_loop s2)))"
    using ip s1(1) s2(1)
    by (simp add: computeTCPChecksum_def arr_get_def rd_bytes_def Let_def tcp_count_def pseudo_def)
  ultimately show ?thesis by blast
qed

lemma checksum_fault:
  assumes ip: "ip + 20 \<le> length buf" and tcp: "length buf < tcp + unat (tcp_count buf ip)" "0 < unat (tcp_count buf ip)"
  shows "computeTCPChecksum buf ip tcp = None"
proof -
  have b1: "seg_sum (pseudo buf ip) 0 12 \<le> 393210" using seg_sum_bound [of "pseudo buf ip" 0 12] by simp
  from sum_loop_seg [of 0 12 "pseudo buf ip" 0] b1 length_pseudo [OF ip] obtain s1 where
    s1: "sum_loop (pseudo buf ip) 0 12 0 = Some s1" by auto
  with ip sum_loop_fault [OF tcp(2,1)] show ?thesis
    by (simp add: computeTCPChecksum_def arr_get_def rd_bytes_def Let_def tcp_count_def pseudo_def)
qed

lemma checksum_zero: "unat (c :: u16) = 65535 - ones t \<Longrightarrow> c = 0 \<longleftrightarrow> 0 < t \<and> t mod 65535 = 0"
proof -
  assume c: "unat c = 65535 - ones t"
  have "c = 0 \<longleftrightarrow> unat c = 0" by (simp add: unsigned_eq_0_iff)
  also have "\<dots> \<longleftrightarrow> ones t = 65535" using c ones_le [of t] by linarith
  also have "\<dots> \<longleftrightarrow> 0 < t \<and> t mod 65535 = 0"
  proof (cases "t = 0")
    case False
    then have "ones t = 65535 \<longleftrightarrow> (t - 1) mod 65535 = 65534" by (simp add: ones_def)
    also have "\<dots> \<longleftrightarrow> t mod 65535 = 0"
      using False by (cases t) (auto simp: mod_Suc)
    finally show ?thesis using False by simp
  qed (simp add: ones_def)
  finally show ?thesis .
qed

section \<open>Rewriting\<close>

lemma unat_and_15: "unat (b AND 0x0F :: u8) \<le> 15"
proof -
  have "b AND 0x0F \<le> 0x0F" by (rule word_and_le1)
  then have "unat (b AND 0x0F) \<le> unat (0x0F :: u8)" by (simp only: word_le_nat_alt)
  then show ?thesis by simp
qed

lemma unat_drop_2: "unat (drop_bit 2 (b AND 0xF0) :: u8) \<le> 63"
proof -
  have "unat (drop_bit 2 (b AND 0xF0) :: u8) = unat (b AND 0xF0) div 4"
    by (simp add: drop_bit_eq_div unat_div_distrib)
  moreover have "unat (b AND 0xF0) < 256" by (rule unat_u8_lt)
  ultimately show ?thesis by linarith
qed

text \<open>The checksum field set to zero, then to the checksum, makes the segment sum to zero.\<close>

lemma seg_sum_18:
  assumes "18 \<le> n"
  shows "seg_sum b a n = seg_sum b a 16 + unat (join16 (b ! (a + 17)) (b ! (a + 16))) + seg_sum b (a + 18) (n - 18)"
proof -
  have n: "n = 16 + (2 + (n - 18))" using assms by simp
  have "seg_sum b a n = seg_sum b a 16 + seg_sum b (a + 16) (2 + (n - 18))"
    by (subst n, rule seg_sum_even) simp
  also have "seg_sum b (a + 16) (2 + (n - 18)) = seg_sum b (a + 16) 2 + seg_sum b (a + 16 + 2) (n - 18)"
    by (rule seg_sum_even) simp
  finally show ?thesis by (simp add: numeral_2_eq_2 eval_nat_numeral)
qed

lemma pseudo_pos:
  assumes "ip + 20 \<le> length buf" and "buf ! (ip + 9) \<noteq> 0"
  shows "0 < seg_sum (pseudo buf ip) 0 12"
proof -
  let ?p = "pseudo buf ip"
  have l: "length (take 8 (drop (ip + 12) buf)) = 8" using assms(1) by simp
  then have p: "?p ! 9 = buf ! (ip + 9)" by (simp add: pseudo_def nth_append)
  have "seg_sum ?p 0 (8 + (2 + 2)) = seg_sum ?p 0 8 + seg_sum ?p (0 + 8) (2 + 2)"
    by (rule seg_sum_even) simp
  also have "seg_sum ?p (0 + 8) (2 + 2) = seg_sum ?p (0 + 8) 2 + seg_sum ?p (0 + 8 + 2) 2"
    by (rule seg_sum_even) simp
  also have "seg_sum ?p (0 + 8) 2 = unat (join16 (?p ! 9) (?p ! 8))" by (simp add: numeral_2_eq_2)
  finally have s: "seg_sum ?p 0 12 \<ge> unat (join16 (?p ! 9) (?p ! 8))" by simp
  have "0 < unat (?p ! 9)" using assms(2) p by (simp add: unat_gt_0)
  then have "0 < unat (join16 (?p ! 9) (?p ! 8))" by (simp add: unat_join16)
  with s show ?thesis by linarith
qed

lemma ones_mod: "ones t mod 65535 = t mod 65535"
proof (cases "t = 0")
  case False
  then have "ones t = (t - 1) mod 65535 + 1" by (simp add: ones_def)
  then have "ones t mod 65535 = (t - 1 + 1) mod 65535" by (simp only: mod_add_left_eq)
  with False show ?thesis by simp
qed (simp add: ones_def)

lemma checksum_field:
  assumes ip: "ip + 20 \<le> tcp" and n: "18 \<le> unat (tcp_count b ip)" "tcp + unat (tcp_count b ip) \<le> length b"
    and z: "b ! (tcp + 16) = 0" "b ! (tcp + 17) = 0" and pr: "b ! (ip + 9) \<noteq> 0"
    and c: "computeTCPChecksum b ip tcp = Some c"
  shows "computeTCPChecksum (b[tcp + 16 := lo8 c, tcp + 17 := hi8 c]) ip tcp = Some 0"
proof -
  let ?b = "b[tcp + 16 := lo8 c, tcp + 17 := hi8 c]" and ?n = "unat (tcp_count b ip)"
  have hdr: "?b ! i = b ! i" if "i < tcp + 16 \<or> tcp + 18 \<le> i" for i using that by auto
  have lb: "length ?b = length b" by simp
  have cnt: "tcp_count ?b ip = tcp_count b ip" using ip by (simp add: tcp_count_def)
  have ps: "pseudo ?b ip = pseudo b ip"
  proof -
    have "take 8 (drop (ip + 12) ?b) = take 8 (drop (ip + 12) b)"
      using ip n by (intro nth_equalityI) auto
    moreover have "?b ! (ip + 9) = b ! (ip + 9)" using ip by simp
    ultimately show ?thesis by (simp add: pseudo_def cnt)
  qed
  have f: "join16 (?b ! (tcp + 17)) (?b ! (tcp + 16)) = c" using n by simp
  have f0: "join16 (b ! (tcp + 17)) (b ! (tcp + 16)) = 0" by (simp add: z join16_def)
  have "seg_sum ?b tcp 16 = seg_sum b tcp 16" by (rule seg_sum_cong) (use hdr in auto)
  moreover have "seg_sum ?b (tcp + 18) (?n - 18) = seg_sum b (tcp + 18) (?n - 18)"
    by (rule seg_sum_cong) (use hdr in auto)
  ultimately have "seg_sum ?b tcp ?n = seg_sum b tcp ?n + unat c"
    by (simp only: seg_sum_18 [OF n(1)] f f0 unsigned_0)
  then have tot: "tcp_total ?b ip tcp = tcp_total b ip tcp + unat c" by (simp add: tcp_total_def ps cnt)
  have ib: "ip + 20 \<le> length b" using ip n by simp
  from checksum_ok [OF ib n(2)] c have uc: "unat c = 65535 - ones (tcp_total b ip tcp)" by auto
  have pos: "0 < tcp_total b ip tcp" using pseudo_pos [OF ib pr] by (simp add: tcp_total_def)
  have "(tcp_total b ip tcp + unat c) mod 65535 = 0"
  proof -
    have "(tcp_total b ip tcp + unat c) mod 65535 = (ones (tcp_total b ip tcp) + unat c) mod 65535"
      using ones_mod by (metis mod_add_left_eq)
    also have "ones (tcp_total b ip tcp) + unat c = 65535" using uc ones_le [of "tcp_total b ip tcp"] by simp
    finally show ?thesis by simp
  qed
  moreover from checksum_ok [of ip ?b tcp] ib n(2) cnt obtain c' where
    c': "computeTCPChecksum ?b ip tcp = Some c'" "unat c' = 65535 - ones (tcp_total ?b ip tcp)" by auto
  ultimately have "c' = 0" using checksum_zero [OF c'(2)] pos tot by simp
  with c'(1) show ?thesis by simp
qed

lemma mss_rewrite_ok:
  assumes ip: "ip + 20 \<le> tcp" and n: "18 \<le> unat (tcp_count b ip)" "tcp + unat (tcp_count b ip) \<le> length b"
    and o: "tcp + 20 \<le> opt" "opt + 3 < length b" and pr: "b ! (ip + 9) \<noteq> 0"
  shows "\<exists>b'. mss_rewrite b ip tcp opt v = Some b' \<and> length b' = length b \<and>
     computeTCPChecksum b' ip tcp = Some 0 \<and>
     b' ! (opt + 2) = ucast (drop_bit 8 v) \<and> b' ! (opt + 3) = ucast v \<and>
     (\<forall>i. i \<notin> {opt + 2, opt + 3, tcp + 16, tcp + 17} \<longrightarrow> b' ! i = b ! i)"
proof -
  define b0 where "b0 = b[opt + 2 := ucast (drop_bit 8 v), opt + 3 := ucast v, tcp + 16 := 0, tcp + 17 := 0]"
  have l0: "length b0 = length b" by (simp add: b0_def)
  have cnt: "tcp_count b0 ip = tcp_count b ip" using ip o by (simp add: tcp_count_def b0_def)
  have z: "b0 ! (tcp + 16) = 0" "b0 ! (tcp + 17) = 0" "b0 ! (ip + 9) \<noteq> 0"
    using n o ip pr by (simp_all add: b0_def)
  from checksum_ok [of ip b0 tcp] ip n cnt l0 obtain c where c: "computeTCPChecksum b0 ip tcp = Some c" by auto
  let ?b = "b0[tcp + 16 := lo8 c, tcp + 17 := hi8 c]"
  have "computeTCPChecksum ?b ip tcp = Some 0"
    using checksum_field [OF ip _ _ z c] n cnt l0 by simp
  moreover have "mss_rewrite b ip tcp opt v = Some ?b"
    using n o c by (simp add: mss_rewrite_def arr_upd_def b0_def)
  moreover have "?b ! (opt + 2) = ucast (drop_bit 8 v)" "?b ! (opt + 3) = ucast v"
    using o by (simp_all add: b0_def)
  moreover have "\<forall>i. i \<notin> {opt + 2, opt + 3, tcp + 16, tcp + 17} \<longrightarrow> ?b ! i = b ! i"
    by (simp add: b0_def)
  ultimately show ?thesis using l0 by (intro exI [of _ ?b]) simp
qed

section \<open>Finding the option\<close>

lemma mss_loop_total: "e < length buf \<Longrightarrow> \<exists>r. mss_loop buf opt e = Some r"
proof (induction buf opt e rule: mss_loop.induct)
  case (1 buf opt e)
  show ?case
    using 1 by (subst mss_loop.simps) (auto simp: arr_get_def)
qed

lemma mss_loop_hit:
  "mss_loop buf o' e = Some (Mss opt) \<Longrightarrow> o' \<le> opt \<and> opt < e \<and>
   (length buf' = length buf \<longrightarrow> (\<forall>i. o' \<le> i \<longrightarrow> i \<le> opt + 1 \<longrightarrow> buf' ! i = buf ! i) \<longrightarrow> mss_loop buf' o' e = Some (Mss opt))"
proof (induction buf o' e rule: mss_loop.induct)
  case (1 buf o' e)
  note r = "1.prems" [unfolded mss_loop.simps [of buf o' e]]
  from r have lt: "o' < e" by (auto split: if_splits)
  from r lt obtain k where k: "o' < length buf" "k = buf ! o'" "k \<noteq> 0"
    by (auto simp: arr_get_def split: if_splits)
  show ?case
  proof (cases "k = 1")
    case True
    with r k lt have h: "mss_loop buf (o' + 1) e = Some (Mss opt)" by (simp add: arr_get_def)
    have "arr_get buf o' = Some k" using k by (simp add: arr_get_def)
    from "1.IH" (1) [OF lt this k(3) True h] show ?thesis
      using k True lt by (auto simp: mss_loop.simps [of buf' o' e] arr_get_def)
  next
    case False
    have g: "arr_get buf o' = Some k" using k by (simp add: arr_get_def)
    from r k lt False obtain l where l: "Suc o' < length buf" "l = buf ! Suc o'"
      by (auto simp: arr_get_def split: if_splits)
    have gl: "arr_get buf (o' + 1) = Some l" using l by (simp add: arr_get_def)
    show ?thesis
    proof (cases "k = 2")
      case True
      with r k lt False l have "opt = o'" "l = 4" by (auto simp: arr_get_def split: if_splits)
      then show ?thesis using True lt k l by (subst mss_loop.simps) (auto simp: arr_get_def)
    next
      case k2: False
      with r k lt False l have l2: "\<not> l < 2" and h: "mss_loop buf (o' + unat l) e = Some (Mss opt)"
        by (auto simp: arr_get_def split: if_splits)
      have "2 \<le> unat l" using l2 by (simp add: word_less_nat_alt)
      from "1.IH"(2) [OF lt g k(3) False gl k2 l2 h] this show ?thesis
        using k k2 False lt l l2 by (auto simp: mss_loop.simps [of buf' o' e] arr_get_def)
    qed
  qed
qed

text \<open>The IP length field is consistent: a full TCP header fits, and the segment is inside the array.\<close>

definition tcp_sane :: "byte_buf \<Rightarrow> nat \<Rightarrow> bool" where
  "tcp_sane buf ip \<longleftrightarrow>
     (let n = unat (buf ! (ip + 2)) * 256 + unat (buf ! (ip + 3)); h = unat (buf ! ip AND 0x0F) * 4
      in 20 \<le> h \<and> h + 20 \<le> n \<and> ip + n \<le> length buf)"

lemma tcp_sane_count:
  assumes "tcp_sane buf ip"
  shows "20 \<le> unat (tcp_count buf ip)" "ip + unat (buf ! ip AND 0x0F) * 4 + unat (tcp_count buf ip) \<le> length buf"
    "20 \<le> unat (buf ! ip AND 0x0F) * 4"
proof -
  let ?n = "unat (buf ! (ip + 2)) * 256 + unat (buf ! (ip + 3))" and ?h = "unat (buf ! ip AND 0x0F) * 4"
  from assms have s: "20 \<le> ?h" "?h + 20 \<le> ?n" "ip + ?n \<le> length buf" by (simp_all add: tcp_sane_def Let_def)
  have n16: "?n < 65536" using unat_u8_lt [of "buf ! (ip + 2)"] unat_u8_lt [of "buf ! (ip + 3)"] by linarith
  have un: "unat (ucast (buf ! (ip + 2)) * 256 + ucast (buf ! (ip + 3)) :: u16) = ?n"
    using n16 by (simp add: unat_word_ariths)
  have uh: "unat (ucast (buf ! ip AND 0x0F) * 4 :: u16) = ?h"
    using unat_and_15 [of "buf ! ip"] by (simp add: unat_word_ariths)
  have le: "(ucast (buf ! ip AND 0x0F) * 4 :: u16) \<le> ucast (buf ! (ip + 2)) * 256 + ucast (buf ! (ip + 3))"
    unfolding word_le_nat_alt un uh using s by linarith
  have c: "unat (tcp_count buf ip) = ?n - ?h" unfolding tcp_count_def by (simp only: unat_sub [OF le] un uh)
  show "20 \<le> unat (tcp_count buf ip)" "ip + ?h + unat (tcp_count buf ip) \<le> length buf" "20 \<le> ?h"
    using s c by linarith+
qed

lemma ppp_ipv4_cases:
  assumes "2 \<le> length buf"
  shows "ppp_ipv4 buf = Some None \<or> ppp_ipv4 buf = Some (Some (1, 41)) \<or> ppp_ipv4 buf = Some (Some (2, 42))"
  using assms by (auto simp: ppp_ipv4_def arr_get_def)

definition ip_sane :: "packet \<Rightarrow> bool" where
  "ip_sane p \<longleftrightarrow> (\<forall>ip \<in> {1, 2}. ppp_ipv4 (payload p) = Some (Some (ip, ip + 40)) \<longrightarrow> tcp_sane (payload p) ip)"

text \<open>All the facts that hold at the point where the code has found the option.\<close>

lemma find_mss_cases:
  assumes wf: "pkt_wf p" and sane: "ip_sane p"
  shows "find_mss p = Some None \<or>
     (\<exists>ip tcp opt e. find_mss p = Some (Some (ip, tcp, opt)) \<and> ip \<in> {1, 2} \<and>
        ppp_ipv4 (payload p) = Some (Some (ip, ip + 40)) \<and> ip + 40 \<le> plen p \<and>
        payload p ! ip AND 0xF0 = 0x40 \<and> payload p ! (ip + 6) AND 0x1F = 0 \<and> payload p ! (ip + 7) = 0 \<and>
        payload p ! (ip + 9) = 0x06 \<and> tcp = ip + unat (payload p ! ip AND 0x0F) * 4 \<and>
        payload p ! (tcp + 13) AND 0x02 \<noteq> 0 \<and> computeTCPChecksum (payload p) ip tcp = Some 0 \<and>
        e = tcp + unat (drop_bit 2 (payload p ! (tcp + 12) AND 0xF0)) \<and>
        mss_loop (payload p) (tcp + 20) e = Some (Mss opt))"
proof -
  have lb: "length (payload p) = 1508" using wf by (simp add: pkt_wf_def)
  show ?thesis
  proof (cases "ppp_ipv4 (payload p) = Some None")
    case True
    then show ?thesis by (simp add: find_mss_def)
  next
    case False
    then obtain ip where ip: "ip \<in> {1, 2}" "ppp_ipv4 (payload p) = Some (Some (ip, ip + 40))"
      using ppp_ipv4_cases [of "payload p"] lb by fastforce
    with sane have ts: "tcp_sane (payload p) ip" by (auto simp: ip_sane_def)
    define tcp where "tcp = ip + unat (payload p ! ip AND 0x0F) * 4"
    define e where "e = tcp + unat (drop_bit 2 (payload p ! (tcp + 12) AND 0xF0))"
    note T = tcp_sane_count [OF ts, folded tcp_def]
    have small: "tcp \<le> 62" using ip(1) unat_and_15 [of "payload p ! ip"] by (auto simp: tcp_def)
    have "e < length (payload p)" using small unat_drop_2 [of "payload p ! (tcp + 12)"] lb by (simp add: e_def)
    from mss_loop_total [OF this] obtain r where r: "mss_loop (payload p) (tcp + 20) e = Some r" by blast
    from checksum_ok [of ip "payload p" tcp] T(2) ip(1) lb obtain c where
      c: "computeTCPChecksum (payload p) ip tcp = Some c" by auto
    have run: "find_mss p =
       (if plen p < ip + 40 then Some None
        else if payload p ! ip AND 0xF0 \<noteq> 0x40 then Some None
        else if payload p ! (ip + 6) AND 0x1F \<noteq> 0 \<or> payload p ! (ip + 7) \<noteq> 0 then Some None
        else if payload p ! (ip + 9) \<noteq> 0x06 then Some None
        else if payload p ! (tcp + 13) AND 0x02 = 0 then Some None
        else if c \<noteq> 0 then Some None
        else case r of Bogus \<Rightarrow> Some None | NoMss \<Rightarrow> Some None | Mss opt \<Rightarrow> Some (Some (ip, tcp, opt)))"
      using ip c r small lb e_def
      by (auto simp: find_mss_def arr_get_def Let_def tcp_def [symmetric])
    show ?thesis
    proof (cases "find_mss p = Some None")
      case False
      with run have "plen p \<ge> ip + 40" "payload p ! ip AND 0xF0 = 0x40" "payload p ! (ip + 6) AND 0x1F = 0"
        "payload p ! (ip + 7) = 0" "payload p ! (ip + 9) = 0x06" "payload p ! (tcp + 13) AND 0x02 \<noteq> 0" "c = 0"
        by (auto split: if_splits)
      moreover from this False run obtain opt where "r = Mss opt" by (cases r) auto
      ultimately show ?thesis
        using run ip c r tcp_def e_def
        by (intro disjI2 exI [of _ ip] exI [of _ tcp] exI [of _ opt] exI [of _ e]) simp
    qed simp
  qed
qed

lemma find_mss_intro:
  assumes wf: "pkt_wf p" and ip: "ip \<in> {1, 2}" "ppp_ipv4 (payload p) = Some (Some (ip, ip + 40))" "ip + 40 \<le> plen p"
    and b: "payload p ! ip AND 0xF0 = 0x40" "payload p ! (ip + 6) AND 0x1F = 0" "payload p ! (ip + 7) = 0"
      "payload p ! (ip + 9) = 0x06" "tcp = ip + unat (payload p ! ip AND 0x0F) * 4"
      "payload p ! (tcp + 13) AND 0x02 \<noteq> 0" "computeTCPChecksum (payload p) ip tcp = Some 0"
      "e = tcp + unat (drop_bit 2 (payload p ! (tcp + 12) AND 0xF0))"
      "mss_loop (payload p) (tcp + 20) e = Some (Mss opt)"
  shows "find_mss p = Some (Some (ip, tcp, opt))"
proof -
  have lb: "length (payload p) = 1508" using wf by (simp add: pkt_wf_def)
  have small: "tcp \<le> 62" using ip(1) unat_and_15 [of "payload p ! ip"] b(5) by auto
  show ?thesis
    using ip b small lb by (auto simp: find_mss_def arr_get_def Let_def)
qed

text \<open>The value of the MSS option that \<open>clampMSS\<close> would act on, if there is one.\<close>

definition mss_value :: "packet \<Rightarrow> u32 option" where
  "mss_value p = (case find_mss p of
      Some (Some (ip, tcp, opt)) \<Rightarrow> Some (ucast (payload p ! (opt + 2)) * 256 + ucast (payload p ! (opt + 3)))
    | _ \<Rightarrow> None)"

lemma mss_bytes:
  assumes "v < 65536"
  shows "ucast (ucast (drop_bit 8 v) :: u8) * 256 + ucast (ucast v :: u8) = (v :: u32)"
proof -
  have u: "unat v < 65536" using assms by (simp add: word_less_nat_alt)
  have a: "unat (ucast (drop_bit 8 v) :: u8) = unat v div 256"
    using u by (simp add: unsigned_ucast_eq drop_bit_eq_div unat_div_distrib take_bit_eq_mod)
  have b: "unat (ucast v :: u8) = unat v mod 256" by (simp add: unsigned_ucast_eq take_bit_eq_mod)
  have "unat (ucast (ucast (drop_bit 8 v) :: u8) * 256 + ucast (ucast v :: u8) :: u32) = unat v div 256 * 256 + unat v mod 256"
    using u by (simp add: unat_word_ariths a b)
  also have "\<dots> = unat v" by simp
  finally show ?thesis by (simp add: word_eq_iff_unsigned [where ?'a = nat])
qed

lemma ppp_ipv4_cong:
  "length b' = length b \<Longrightarrow> b' ! 0 = b ! 0 \<Longrightarrow> b' ! 1 = b ! 1 \<Longrightarrow> ppp_ipv4 b' = ppp_ipv4 b"
  by (simp add: ppp_ipv4_def arr_get_def)

section \<open>Properties\<close>

text \<open>
  C22: MSS clamping. On a packet whose IP length field is consistent with the packet,
  \<open>clampMSS\<close> stays inside it and does exactly this: if the packet is the SYN of an IPv4 TCP
  connection with a correct checksum and an MSS option above the limit, then afterwards it is
  still one, with the option at the limit, a correct checksum and every byte but the option's
  value and the checksum field as it was; any other packet is not touched.
\<close>

theorem clampMSS_clamps:
  assumes wf: "pkt_wf p" and sane: "ip_sane p" and c: "clampMss < 65536"
  shows "\<exists>p'. clampMSS p clampMss = Some p' \<and>
     (case mss_value p of
        None \<Rightarrow> p' = p
      | Some v \<Rightarrow> if v \<le> clampMss then p' = p
          else mss_value p' = Some clampMss \<and> p' = p\<lparr>payload := payload p'\<rparr> \<and>
            (\<exists>ip tcp opt. find_mss p = Some (Some (ip, tcp, opt)) \<and> find_mss p' = find_mss p \<and>
              (\<forall>i. i \<notin> {opt + 2, opt + 3, tcp + 16, tcp + 17} \<longrightarrow> payload p' ! i = payload p ! i)))"
  using find_mss_cases [OF wf sane]
proof
  assume "find_mss p = Some None"
  then show ?thesis by (simp add: clampMSS_def mss_value_def)
next
  assume "\<exists>ip tcp opt e. find_mss p = Some (Some (ip, tcp, opt)) \<and> ip \<in> {1, 2} \<and>
        ppp_ipv4 (payload p) = Some (Some (ip, ip + 40)) \<and> ip + 40 \<le> plen p \<and>
        payload p ! ip AND 0xF0 = 0x40 \<and> payload p ! (ip + 6) AND 0x1F = 0 \<and> payload p ! (ip + 7) = 0 \<and>
        payload p ! (ip + 9) = 0x06 \<and> tcp = ip + unat (payload p ! ip AND 0x0F) * 4 \<and>
        payload p ! (tcp + 13) AND 0x02 \<noteq> 0 \<and> computeTCPChecksum (payload p) ip tcp = Some 0 \<and>
        e = tcp + unat (drop_bit 2 (payload p ! (tcp + 12) AND 0xF0)) \<and>
        mss_loop (payload p) (tcp + 20) e = Some (Mss opt)"
  then obtain ip tcp opt e where f: "find_mss p = Some (Some (ip, tcp, opt))" and ip: "ip \<in> {1, 2}"
      "ppp_ipv4 (payload p) = Some (Some (ip, ip + 40))" "ip + 40 \<le> plen p"
    and b: "payload p ! ip AND 0xF0 = 0x40" "payload p ! (ip + 6) AND 0x1F = 0" "payload p ! (ip + 7) = 0"
      "payload p ! (ip + 9) = 0x06" "tcp = ip + unat (payload p ! ip AND 0x0F) * 4"
      "payload p ! (tcp + 13) AND 0x02 \<noteq> 0" "computeTCPChecksum (payload p) ip tcp = Some 0"
      "e = tcp + unat (drop_bit 2 (payload p ! (tcp + 12) AND 0xF0))"
      "mss_loop (payload p) (tcp + 20) e = Some (Mss opt)" by blast
  have lb: "length (payload p) = 1508" using wf by (simp add: pkt_wf_def)
  have ts: "tcp_sane (payload p) ip" using sane ip by (auto simp: ip_sane_def)
  note T = tcp_sane_count [OF ts, folded b(5)]
  have small: "ip + 20 \<le> tcp" "tcp \<le> 62" using T(3) b(5) ip(1) unat_and_15 [of "payload p ! ip"] by auto
  from mss_loop_hit [OF b(9)] have o: "tcp + 20 \<le> opt" "opt < e" by auto
  have eb: "e \<le> 125" using b(8) small(2) unat_drop_2 [of "payload p ! (tcp + 12)"] by simp
  let ?v = "ucast (payload p ! (opt + 2)) * 256 + ucast (payload p ! (opt + 3)) :: u32"
  have mv: "mss_value p = Some ?v" by (simp add: mss_value_def f)
  have g: "arr_get (payload p) (opt + 2) = Some (payload p ! (opt + 2))"
    "arr_get (payload p) (opt + 3) = Some (payload p ! (opt + 3))" using o eb lb by (simp_all add: arr_get_def)
  show ?thesis
  proof (cases "?v \<le> clampMss")
    case True
    then have "clampMSS p clampMss = Some p" unfolding clampMSS_def f using g by simp
    with True mv show ?thesis by simp
  next
    case False
    have "18 \<le> unat (tcp_count (payload p) ip)" "opt + 3 < length (payload p)" "payload p ! (ip + 9) \<noteq> 0"
      using T(1) o eb lb b(4) by simp_all
    from mss_rewrite_ok [OF small(1) this(1) _ o(1) this(2,3), of clampMss] T(2) obtain b' where
      r: "mss_rewrite (payload p) ip tcp opt clampMss = Some b'" and l: "length b' = length (payload p)"
      and cs: "computeTCPChecksum b' ip tcp = Some 0"
      and m: "b' ! (opt + 2) = ucast (drop_bit 8 clampMss)" "b' ! (opt + 3) = ucast clampMss"
      and same: "\<forall>i. i \<notin> {opt + 2, opt + 3, tcp + 16, tcp + 17} \<longrightarrow> b' ! i = payload p ! i" by auto
    let ?p = "p\<lparr>payload := b'\<rparr>"
    have run: "clampMSS p clampMss = Some ?p" unfolding clampMSS_def f using g False r by simp
    have keep: "b' ! i = payload p ! i" if "i < tcp + 16" for i
      using same that o by auto
    have keep2: "b' ! i = payload p ! i" if "tcp + 20 \<le> i" "i \<le> opt + 1" for i
      using same that by auto
    have ml: "mss_loop b' (tcp + 20) e = Some (Mss opt)" using mss_loop_hit [OF b(9)] l keep2 by blast
    have pp: "ppp_ipv4 b' = Some (Some (ip, ip + 40))" using ppp_ipv4_cong [OF l] keep ip(2) small by simp
    have f': "find_mss ?p = Some (Some (ip, tcp, opt))"
      by (rule find_mss_intro [where e = e])
        (use wf l ip b keep small cs ml pp in \<open>simp_all add: pkt_wf_def plen_def\<close>)
    then have "mss_value ?p = Some clampMss"
      using mss_bytes [OF c] m by (simp add: mss_value_def)
    with run False mv f f' same show ?thesis by (intro exI [of _ ?p]) simp
  qed
qed

text \<open>A SYN from 10.0.0.1 to 10.0.0.2 with an MSS of 1460.\<close>

definition ex_syn :: packet where
  "ex_syn = \<lparr>h_dest = Mac 2 0 0 0 0 1, h_source = Mac 2 0 0 0 0 2, h_proto = htons 0x8864, vertype = 0x11, pcode = 0,
     psession = 1, plength = htons 45,
     payload = [33, 69, 0, 0, 44, 0, 0, 0, 0, 64, 6, 0, 0, 10, 0, 0, 1, 10, 0, 0, 2, 4, 210, 0, 80, 0, 0, 0, 0, 0, 0, 0, 0, 96, 2, 255, 255, 127, 2, 0, 0, 2, 4, 5, 180] @ replicate 1463 0\<rparr>"

lemma ex_syn_payload:
  "payload ex_syn = [33, 69, 0, 0, 44, 0, 0, 0, 0, 64, 6, 0, 0, 10, 0, 0, 1, 10, 0, 0, 2, 4, 210, 0, 80, 0, 0, 0, 0, 0, 0, 0, 0, 96, 2, 255, 255, 127, 2, 0, 0, 2, 4, 5, 180] @ replicate 1463 0"
  by (simp add: ex_syn_def)

lemma ex_syn_nth:
  "payload ex_syn ! 0 = 0x21" "payload ex_syn ! Suc 0 = 0x45" "payload ex_syn ! Suc (Suc (Suc 0)) = 0"
  "payload ex_syn ! 3 = 0" "payload ex_syn ! 4 = 44" "payload ex_syn ! 7 = 0" "payload ex_syn ! 8 = 0"
  "payload ex_syn ! 10 = 6" "payload ex_syn ! 33 = 0x60" "payload ex_syn ! 34 = 2"
  "payload ex_syn ! 41 = 2" "payload ex_syn ! 42 = 4" "payload ex_syn ! 43 = 5" "payload ex_syn ! 44 = 180"
  by (simp_all add: ex_syn_payload)

lemma ex_syn_len: "length (payload ex_syn) = 1508"
  by (simp add: ex_syn_payload)

lemma ex_syn_plen: "plen ex_syn = 45"
  by (simp add: plen_def ex_syn_def)

lemma ex_syn_ipv4: "ppp_ipv4 (payload ex_syn) = Some (Some (1, 41))"
  by (simp add: ppp_ipv4_def arr_get_def ex_syn_nth ex_syn_len)

lemma ex_syn_sane: "tcp_sane (payload ex_syn) 1"
  by (simp add: tcp_sane_def ex_syn_nth ex_syn_len)

lemma ex_syn_ok: "pkt_wf ex_syn" "ip_sane ex_syn"
proof -
  show "pkt_wf ex_syn" unfolding pkt_wf_def by (rule ex_syn_len)
  show "ip_sane ex_syn"
    unfolding ip_sane_def
  proof (intro ballI impI)
    fix ip :: nat assume "ppp_ipv4 (payload ex_syn) = Some (Some (ip, ip + 40))"
    then have "1 = ip" unfolding ex_syn_ipv4 option.inject prod.inject by (rule conjunct1)
    with ex_syn_sane show "tcp_sane (payload ex_syn) ip" by (simp only:)
  qed
qed

lemma ex_syn_checksum: "computeTCPChecksum (payload ex_syn) 1 21 = Some 0"
proof -
  have p: "sum_loop [10, 0, 0, 1, 10, 0, 0, 2, 0, 6, 0, 24] 0 12 0 = Some 8468"
    by (simp add: sum_loop.simps arr_get_def join16_def)
  have "sum_loop (payload ex_syn) 21 24 8468 = Some 0x2FFFD"
    by (simp add: sum_loop.simps arr_get_def ex_syn_payload join16_def)
  moreover have "fold_loop 0x2FFFD = 0xFFFF" by (simp add: fold_loop.simps)
  ultimately show ?thesis
    using p by (simp add: computeTCPChecksum_def arr_get_def rd_bytes_def Let_def ex_syn_nth ex_syn_len)
      (simp add: ex_syn_payload hi8_def lo8_def)
qed

lemma ex_syn_mss: "mss_loop (payload ex_syn) 41 45 = Some (Mss 41)"
  by (simp add: mss_loop.simps arr_get_def ex_syn_nth ex_syn_len)

lemma ex_syn_value: "mss_value ex_syn = Some 1460"
proof -
  have "find_mss ex_syn = Some (Some (1, 21, 41))"
    by (rule find_mss_intro [where e = 45])
      (use ex_syn_checksum in \<open>simp_all add: ex_syn_ok ex_syn_mss ex_syn_ipv4 ex_syn_nth ex_syn_plen\<close>)
  then show ?thesis by (simp add: mss_value_def ex_syn_nth)
qed

lemma clampMSS_clamps_witness:
  "\<exists>p'. clampMSS ex_syn 1412 = Some p' \<and> mss_value p' = Some 1412"
  using clampMSS_clamps [OF ex_syn_ok, of 1412] by (auto simp: ex_syn_value)

text \<open>
  The IP length field is not checked against the packet. Any packet that passes the
  tests before the checksum, a SYN whose IP header claims a segment that reaches beyond the
  payload array, makes \<open>computeTCPChecksum\<close> read past its end: one frame of 62
  bytes from the network is enough.
\<close>

theorem clampMSS_overreads:
  assumes wf: "pkt_wf p" and ip: "ip \<in> {1, 2}" "ppp_ipv4 (payload p) = Some (Some (ip, ip + 40))" "ip + 40 \<le> plen p"
    and b: "payload p ! ip AND 0xF0 = 0x40" "payload p ! (ip + 6) AND 0x1F = 0" "payload p ! (ip + 7) = 0"
      "payload p ! (ip + 9) = 0x06" "tcp = ip + unat (payload p ! ip AND 0x0F) * 4"
      "payload p ! (tcp + 13) AND 0x02 \<noteq> 0"
    and long: "length (payload p) < tcp + unat (tcp_count (payload p) ip)"
  shows "clampMSS p clampMss = None"
proof -
  have lb: "length (payload p) = 1508" using wf by (simp add: pkt_wf_def)
  have small: "tcp \<le> 62" using ip(1) unat_and_15 [of "payload p ! ip"] b(5) by auto
  with long lb have "0 < unat (tcp_count (payload p) ip)" by simp
  from checksum_fault [OF _ long this] ip(1) lb have "computeTCPChecksum (payload p) ip tcp = None" by auto
  then have "find_mss p = None"
    using ip b small lb by (auto simp: find_mss_def arr_get_def Let_def)
  then show ?thesis by (simp add: clampMSS_def)
qed

definition ex_long :: packet where
  "ex_long = ex_syn\<lparr>payload := (payload ex_syn)[3 := 0xFF, 4 := 0xFF]\<rparr>"

lemma ex_long_nth:
  "payload ex_long ! i = (if i = 3 then 0xFF else if i = 4 then 0xFF else payload ex_syn ! i)"
  "length (payload ex_long) = 1508" "plen ex_long = 45"
  using ex_syn_len ex_syn_plen by (simp_all add: ex_long_def nth_list_update plen_def)

lemma ex_long_ipv4: "ppp_ipv4 (payload ex_long) = Some (Some (1, 41))"
  using ppp_ipv4_cong [of "payload ex_long" "payload ex_syn"] ex_syn_ipv4 ex_syn_len by (simp add: ex_long_nth)

lemma ex_long_count: "tcp_count (payload ex_long) (Suc 0) = 0xFFEB"
  by (simp add: tcp_count_def ex_long_nth ex_syn_nth)

lemma clampMSS_overreads_witness: "plen ex_long = 45 \<and> clampMSS ex_long 1412 = None"
proof -
  have "clampMSS ex_long 1412 = None"
    by (rule clampMSS_overreads [where ip = 1 and tcp = 21])
      (simp_all add: pkt_wf_def ex_long_nth ex_syn_nth ex_long_count ex_long_ipv4 [simplified])
  then show ?thesis by (simp add: ex_long_nth)
qed

end
