(* ===== verification/Ppp_Fcs.thy ===== *)
theory Ppp_Fcs
  imports Pppoe_Packet
begin

text \<open>
  The frame check sequence of PPP (\<open>pppFCS16\<close> and its table in \<open>ppp.c\<close>).
  The table-driven routine is proved equal to the bit-by-bit division by the polynomial
  of RFC 1662, which is linear and invertible; from that follow the facts a receiver
  relies on: a frame followed by its complemented check sequence leaves a fixed value, and
  an error confined to two neighbouring bytes never goes undetected.
\<close>

section \<open>The routine\<close>

definition fcstab :: "u16 list" where
  "fcstab = [
   0x0000, 0x1189, 0x2312, 0x329b, 0x4624, 0x57ad, 0x6536, 0x74bf,
   0x8c48, 0x9dc1, 0xaf5a, 0xbed3, 0xca6c, 0xdbe5, 0xe97e, 0xf8f7,
   0x1081, 0x0108, 0x3393, 0x221a, 0x56a5, 0x472c, 0x75b7, 0x643e,
   0x9cc9, 0x8d40, 0xbfdb, 0xae52, 0xdaed, 0xcb64, 0xf9ff, 0xe876,
   0x2102, 0x308b, 0x0210, 0x1399, 0x6726, 0x76af, 0x4434, 0x55bd,
   0xad4a, 0xbcc3, 0x8e58, 0x9fd1, 0xeb6e, 0xfae7, 0xc87c, 0xd9f5,
   0x3183, 0x200a, 0x1291, 0x0318, 0x77a7, 0x662e, 0x54b5, 0x453c,
   0xbdcb, 0xac42, 0x9ed9, 0x8f50, 0xfbef, 0xea66, 0xd8fd, 0xc974,
   0x4204, 0x538d, 0x6116, 0x709f, 0x0420, 0x15a9, 0x2732, 0x36bb,
   0xce4c, 0xdfc5, 0xed5e, 0xfcd7, 0x8868, 0x99e1, 0xab7a, 0xbaf3,
   0x5285, 0x430c, 0x7197, 0x601e, 0x14a1, 0x0528, 0x37b3, 0x263a,
   0xdecd, 0xcf44, 0xfddf, 0xec56, 0x98e9, 0x8960, 0xbbfb, 0xaa72,
   0x6306, 0x728f, 0x4014, 0x519d, 0x2522, 0x34ab, 0x0630, 0x17b9,
   0xef4e, 0xfec7, 0xcc5c, 0xddd5, 0xa96a, 0xb8e3, 0x8a78, 0x9bf1,
   0x7387, 0x620e, 0x5095, 0x411c, 0x35a3, 0x242a, 0x16b1, 0x0738,
   0xffcf, 0xee46, 0xdcdd, 0xcd54, 0xb9eb, 0xa862, 0x9af9, 0x8b70,
   0x8408, 0x9581, 0xa71a, 0xb693, 0xc22c, 0xd3a5, 0xe13e, 0xf0b7,
   0x0840, 0x19c9, 0x2b52, 0x3adb, 0x4e64, 0x5fed, 0x6d76, 0x7cff,
   0x9489, 0x8500, 0xb79b, 0xa612, 0xd2ad, 0xc324, 0xf1bf, 0xe036,
   0x18c1, 0x0948, 0x3bd3, 0x2a5a, 0x5ee5, 0x4f6c, 0x7df7, 0x6c7e,
   0xa50a, 0xb483, 0x8618, 0x9791, 0xe32e, 0xf2a7, 0xc03c, 0xd1b5,
   0x2942, 0x38cb, 0x0a50, 0x1bd9, 0x6f66, 0x7eef, 0x4c74, 0x5dfd,
   0xb58b, 0xa402, 0x9699, 0x8710, 0xf3af, 0xe226, 0xd0bd, 0xc134,
   0x39c3, 0x284a, 0x1ad1, 0x0b58, 0x7fe7, 0x6e6e, 0x5cf5, 0x4d7c,
   0xc60c, 0xd785, 0xe51e, 0xf497, 0x8028, 0x91a1, 0xa33a, 0xb2b3,
   0x4a44, 0x5bcd, 0x6956, 0x78df, 0x0c60, 0x1de9, 0x2f72, 0x3efb,
   0xd68d, 0xc704, 0xf59f, 0xe416, 0x90a9, 0x8120, 0xb3bb, 0xa232,
   0x5ac5, 0x4b4c, 0x79d7, 0x685e, 0x1ce1, 0x0d68, 0x3ff3, 0x2e7a,
   0xe70e, 0xf687, 0xc41c, 0xd595, 0xa12a, 0xb0a3, 0x8238, 0x93b1,
   0x6b46, 0x7acf, 0x4854, 0x59dd, 0x2d62, 0x3ceb, 0x0e70, 0x1ff9,
   0xf78f, 0xe606, 0xd49d, 0xc514, 0xb1ab, 0xa022, 0x92b9, 0x8330,
   0x7bc7, 0x6a4e, 0x58d5, 0x495c, 0x3de3, 0x2c6a, 0x1ef1, 0x0f78]"

fun pppFCS16 :: "u16 \<Rightarrow> byte_buf \<Rightarrow> u16" where
  "pppFCS16 fcs [] = fcs"
| "pppFCS16 fcs (c # cp) = pppFCS16 (drop_bit 8 fcs XOR fcstab ! unat ((fcs XOR ucast c) AND 0xff)) cp"

abbreviation (input) "PPPINITFCS16 \<equiv> (0xffff :: u16)"

lemma length_fcstab [simp]: "length fcstab = 256"
  by (simp add: fcstab_def)

section \<open>Division bit by bit\<close>

definition crc_bit :: "u16 \<Rightarrow> u16" where
  "crc_bit c = (if c AND 1 = 0 then drop_bit 1 c else drop_bit 1 c XOR 0x8408)"

fun crc_bits :: "nat \<Rightarrow> u16 \<Rightarrow> u16" where
  "crc_bits 0 c = c"
| "crc_bits (Suc n) c = crc_bits n (crc_bit c)"

text \<open>RFC 1662 states the sequence as the division of the whole frame, a byte at a time.\<close>

fun crc_bytes :: "u16 \<Rightarrow> byte_buf \<Rightarrow> u16" where
  "crc_bytes fcs [] = fcs"
| "crc_bytes fcs (c # cp) = crc_bytes (crc_bits 8 (fcs XOR ucast c)) cp"

lemma crc_bit_xor: "crc_bit (a XOR b) = crc_bit a XOR crc_bit b"
proof -
  have b: "(x :: u16) AND 1 = 0 \<longleftrightarrow> \<not> bit x 0" for x
    by (simp add: and_one_eq mod_2_eq_odd bit_0)
  show ?thesis
    by (rule bit_word_eqI) (auto simp: crc_bit_def b bit_simps)
qed

lemma crc_bits_xor: "crc_bits n (a XOR b) = crc_bits n a XOR crc_bits n b"
  by (induction n arbitrary: a b) (simp_all add: crc_bit_xor)

lemma crc_bits_add: "crc_bits (m + n) c = crc_bits n (crc_bits m c)"
  by (induction m arbitrary: c) simp_all

text \<open>While the low bits are zero, division only shifts.\<close>

lemma crc_bits_shift:
  assumes "\<And>i. i < n \<Longrightarrow> \<not> bit c i"
  shows "crc_bits n c = drop_bit n c"
  using assms
proof (induction n arbitrary: c)
  case (Suc n)
  have "c AND 1 = 0" using Suc.prems [of 0] by (simp add: and_one_eq mod_2_eq_odd bit_0)
  then have "crc_bit c = drop_bit 1 c" by (simp add: crc_bit_def)
  moreover have "crc_bits n (drop_bit 1 c) = drop_bit n (drop_bit 1 c)"
    by (rule Suc.IH) (use Suc.prems in \<open>auto simp: bit_simps\<close>)
  ultimately show ?case by simp
qed simp

text \<open>
  The table holds the division of each byte: it is checked on the sixteen low and the
  sixteen high nibbles, and linearity gives the rest.
\<close>

definition nibbles :: "nat \<Rightarrow> u16 list" where
  "nibbles k = map (\<lambda>i. crc_bits 8 (push_bit k (word_of_nat i))) [0..<16]"

lemma crc_bits_8: "crc_bits 8 c = crc_bit (crc_bit (crc_bit (crc_bit (crc_bit (crc_bit (crc_bit (crc_bit c)))))))"
  by (simp add: eval_nat_numeral)

lemma nibbles_low: "nibbles 0 = take 16 fcstab"
  by (simp add: nibbles_def crc_bits_8 crc_bit_def fcstab_def upt_rec)

lemma nibbles_high: "nibbles 4 = map (\<lambda>i. fcstab ! (16 * i)) [0,1,2,3,4,5,6,7,8,9,10,11,12,13,14,15]"
  by (simp add: nibbles_def crc_bits_8 crc_bit_def fcstab_def upt_rec)

lemma fcstab_nibbles: "concat (map (\<lambda>h. map ((XOR) h) (nibbles 0)) (nibbles 4)) = fcstab"
  unfolding nibbles_low nibbles_high by (simp add: fcstab_def)

lemma nth_concat_rows:
  assumes "\<forall>r \<in> set rows. length r = n" "h < length rows" "l < n"
  shows "concat rows ! (n * h + l) = rows ! h ! l"
  using assms
proof (induction rows arbitrary: h)
  case (Cons r rows)
  show ?case
  proof (cases h)
    case (Suc k)
    then have "concat rows ! (n * k + l) = rows ! k ! l" using Cons by simp
    then show ?thesis using Suc Cons.prems by (simp add: nth_append add.assoc)
  qed (use Cons in \<open>simp add: nth_append\<close>)
qed simp

lemma fcstab_nth: "i < 256 \<Longrightarrow> fcstab ! i = crc_bits 8 (word_of_nat i)"
proof -
  assume i: "i < 256"
  define h l where "h = i div 16" and "l = i mod 16"
  have hl: "i = 16 * h + l" "h < 16" "l < 16" using i by (auto simp: h_def l_def)
  have "fcstab ! i = nibbles 4 ! h XOR nibbles 0 ! l"
    unfolding fcstab_nibbles [symmetric] hl(1) using hl(2,3)
    by (subst nth_concat_rows) (auto simp: nibbles_def)
  also have "\<dots> = crc_bits 8 (push_bit 4 (word_of_nat h) XOR word_of_nat l)"
    using hl by (simp add: nibbles_def crc_bits_xor)
  also have "push_bit 4 (word_of_nat h) XOR word_of_nat l = (word_of_nat i :: u16)"
  proof -
    have l4: "take_bit 4 l = l" using hl(3) by (simp add: take_bit_nat_eq_self)
    have bl: "n < 4" if "bit l n" for n
      using that l4 by (metis bit_take_bit_iff)
    have "push_bit 4 h + l = push_bit 4 h OR l"
      by (rule disjunctive_add) (auto simp: bit_push_bit_iff dest: bl)
    then have "i = push_bit 4 h OR l" using hl(1) by (simp add: push_bit_eq_mult mult.commute)
    then show ?thesis
      by (intro bit_word_eqI) (auto simp: bit_simps dest: bl)
  qed
  finally show ?thesis .
qed

lemma crc_byte: "crc_bits 8 c = drop_bit 8 c XOR fcstab ! unat (c AND 0xff)"
proof -
  have n: "(0xff00 :: u16) = NOT 0xff" by simp
  have "c = (c AND 0xff00) XOR (c AND 0xff)"
    unfolding n by (rule bit_word_eqI) (auto simp: bit_simps)
  then have "crc_bits 8 c = crc_bits 8 (c AND 0xff00) XOR crc_bits 8 (c AND 0xff)"
    by (metis crc_bits_xor)
  moreover have m: "(0xff :: u16) = mask 8" by (simp add: mask_eq_exp_minus_1)
  then have "crc_bits 8 (c AND 0xff00) = drop_bit 8 (c AND 0xff00)"
    unfolding n m by (intro crc_bits_shift) (simp add: bit_simps)
  moreover have "drop_bit 8 (c AND 0xff00) = drop_bit 8 c"
    unfolding n m by (rule bit_word_eqI) (auto simp: bit_simps dest: bit_imp_le_length)
  moreover have "unat (c AND 0xff) < 256"
    using word_and_le1 [of c "0xff"] word_and_le2 [of c "0xff"] by (simp add: word_le_nat_alt)
  ultimately show ?thesis by (simp add: fcstab_nth)
qed

theorem pppFCS16_crc: "pppFCS16 fcs bs = crc_bytes fcs bs"
proof (induction fcs bs rule: pppFCS16.induct)
  case (2 fcs c cp)
  have "drop_bit 8 (fcs XOR ucast c) = drop_bit 8 fcs"
    by (rule bit_word_eqI) (auto simp: bit_simps dest: bit_imp_le_length)
  then show ?case using 2 by (simp add: crc_byte)
qed simp

section \<open>Consequences\<close>

text \<open>Division is invertible, so no information is lost from one byte to the next.\<close>

lemma crc_bit_0: "crc_bit c = 0 \<longleftrightarrow> c = 0"
proof
  assume z: "crc_bit c = 0"
  have odd: "c AND 1 = 0"
  proof (rule ccontr)
    assume "c AND 1 \<noteq> 0"
    with z have "drop_bit 1 c XOR 0x8408 = 0" by (simp add: crc_bit_def)
    then have "bit (drop_bit 1 c XOR (0x8408 :: u16)) 15 = bit (0 :: u16) 15" by simp
    then show False by (auto simp: bit_simps bit_numeral_rec dest: bit_imp_le_length)
  qed
  then have "drop_bit 1 c = 0" using z by (simp add: crc_bit_def)
  show "c = 0"
  proof (rule bit_word_eqI)
    fix n assume "n < LENGTH(16)"
    show "bit c n = bit 0 n"
    proof (cases n)
      case 0
      then show ?thesis using odd by (simp add: and_one_eq mod_2_eq_odd bit_0)
    next
      case (Suc m)
      have "bit (drop_bit 1 c) m = bit (0 :: u16) m" using \<open>drop_bit 1 c = 0\<close> by simp
      then show ?thesis using Suc by (simp add: bit_drop_bit_eq)
    qed
  qed
qed (simp add: crc_bit_def)

lemma crc_bits_0: "crc_bits n c = 0 \<longleftrightarrow> c = 0"
  by (induction n arbitrary: c) (simp_all add: crc_bit_0)

lemma xor_zero_iff: "a XOR b = 0 \<longleftrightarrow> a = (b :: u16)"
  by (metis xor.assoc xor.left_neutral xor_self_eq)

lemma xor_cancel: "a XOR c = b XOR c \<longleftrightarrow> a = (b :: u16)"
  by (metis xor.assoc xor.right_neutral xor_self_eq)

lemma crc_bits_inj: "crc_bits n a = crc_bits n b \<longleftrightarrow> a = b"
proof -
  have "crc_bits n a = crc_bits n b \<longleftrightarrow> crc_bits n (a XOR b) = 0"
    by (simp add: crc_bits_xor xor_zero_iff)
  then show ?thesis by (simp add: crc_bits_0 xor_zero_iff)
qed

lemma crc_bytes_inj: "crc_bytes a bs = crc_bytes b bs \<longleftrightarrow> a = b"
  by (induction bs arbitrary: a b) (auto simp: crc_bits_inj xor_cancel)

text \<open>Two neighbouring bytes act on the sequence as one 16-bit value.\<close>

lemma crc_two_bytes: "crc_bytes fcs [x, y] = crc_bits 16 (fcs XOR join16 y x)"
proof -
  have "drop_bit 8 (push_bit 8 (ucast y)) = (ucast y :: u16)"
    by (rule bit_word_eqI) (auto simp: bit_simps dest: bit_imp_le_length)
  then have "crc_bits 8 (push_bit 8 (ucast y)) = (ucast y :: u16)"
    by (subst crc_bits_shift) (simp_all add: bit_simps)
  then have "crc_bits 8 (fcs XOR ucast x) XOR ucast y = crc_bits 8 (fcs XOR ucast x XOR push_bit 8 (ucast y))"
    by (simp add: crc_bits_xor xor.assoc)
  moreover have "join16 y x = ucast x XOR push_bit 8 (ucast y)"
    by (rule bit_word_eqI) (auto simp: join16_def bit_simps dest: bit_imp_le_length)
  ultimately show ?thesis using crc_bits_add [of 8 8] by (simp add: xor.assoc)
qed

lemma pppFCS16_append: "pppFCS16 fcs (xs @ ys) = pppFCS16 (pppFCS16 fcs xs) ys"
  by (induction fcs xs rule: pppFCS16.induct) simp_all

lemma crc_bytes_append: "crc_bytes fcs (xs @ ys) = crc_bytes (crc_bytes fcs xs) ys"
  by (induction fcs xs rule: crc_bytes.induct) simp_all

lemma pppFCS16_residue:
  "pppFCS16 fcs (bs @ [lo8 (pppFCS16 fcs bs XOR 0xffff), hi8 (pppFCS16 fcs bs XOR 0xffff)]) = 0xf0b8"
proof -
  let ?f = "pppFCS16 fcs bs"
  have "pppFCS16 ?f [lo8 (?f XOR 0xffff), hi8 (?f XOR 0xffff)] = crc_bits 16 (?f XOR (?f XOR 0xffff))"
    by (simp add: pppFCS16_crc crc_two_bytes del: crc_bytes.simps)
  also have "?f XOR (?f XOR 0xffff) = 0xffff"
    by (simp only: xor.assoc [symmetric] xor_self_eq xor.left_neutral)
  also have "crc_bits 16 0xffff = (0xf0b8 :: u16)"
    using crc_bits_add [of 8 8 "0xffff"] by (simp add: crc_bits_8 crc_bit_def)
  finally show ?thesis by (simp only: pppFCS16_crc crc_bytes_append)
qed

section \<open>Properties\<close>

text \<open>
  C23: The check sequence. \<open>pppFCS16\<close> with its table computes the bitwise division of RFC 1662,
  and a frame followed by the complement of its check sequence, low byte first, always leaves
  the value \<open>0xf0b8\<close>.
\<close>

theorem pppFCS16_correct:
  "pppFCS16 fcs bs = crc_bytes fcs bs \<and>
   pppFCS16 fcs (bs @ [lo8 (pppFCS16 fcs bs XOR 0xffff), hi8 (pppFCS16 fcs bs XOR 0xffff)]) = 0xf0b8"
  by (simp only: pppFCS16_crc pppFCS16_residue [unfolded pppFCS16_crc] simp_thms)

text \<open>
  Error detection. Two frames that agree except in two neighbouring bytes have different
  check sequences, so such an error is always caught by a receiver that checks.
\<close>

theorem pppFCS16_detects:
  assumes "(x, y) \<noteq> (x', y')"
  shows "pppFCS16 fcs (pre @ [x, y] @ post) \<noteq> pppFCS16 fcs (pre @ [x', y'] @ post)"
proof -
  let ?s = "crc_bytes fcs pre"
  have "?s XOR join16 y x \<noteq> ?s XOR join16 y' x'"
    using assms by (auto simp: xor.commute [of ?s] xor_cancel)
  then have "crc_bytes ?s [x, y] \<noteq> crc_bytes ?s [x', y']"
    unfolding crc_two_bytes crc_bits_inj .
  then show ?thesis by (simp only: pppFCS16_crc crc_bytes_append crc_bytes_inj not_False_eq_True simp_thms)
qed

theorem pppFCS16_detects_witness:
  "pppFCS16 0xffff ([0xff, 0x03] @ [0xc0, 0x21] @ [1]) \<noteq> pppFCS16 0xffff ([0xff, 0x03] @ [0xc0, 0x23] @ [1])"
  by (rule pppFCS16_detects) simp

end
