(* ===== verification/Pppoe_Session.thy ===== *)
theory Pppoe_Session
  imports Tcp_Mss Ppp_Fcs
begin

text \<open>
  The session phase of the PPPoE client: \<open>ppp.c\<close>, the session functions of
  \<open>pppoe.c\<close> (\<open>sendSessionPacket\<close>, \<open>sessionDiscoveryPacket\<close>, \<open>session\<close>,
  \<open>asyncReadFromEth\<close>, \<open>syncReadFromEth\<close>, \<open>rp_fatal\<close>, \<open>fatalSys\<close>, \<open>sigPADT\<close>) and
  \<open>sendPADT\<close> with its helpers from \<open>common.c\<close>.

  The state \<open>pppoe\<close> holds the connection, the static variables of the PPP state machine,
  the packet buffer of \<open>session\<close> and three logs: frames handed to \<open>send\<close>, buffers written
  to the PPP device and error tags logged. The results of system calls come from outside:
  what \<open>read\<close> and \<open>recv\<close> deliver are arguments, the results of the \<open>n\<close>-th \<open>send\<close>
  and \<open>write\<close> are the functions \<open>send_rc\<close> and \<open>write_rc\<close> (a failing write with its
  \<open>strerror\<close> text). \<open>exited\<close> is the exit status once the process has exited.
\<close>

section \<open>State\<close>

datatype ppp_state = STATE_WAITFOR_FRAME_ADDR | STATE_DROP_PROTO | STATE_BUILDING_PACKET

datatype send_result = SendOk | SendNoBufs | SendErr

datatype read_result =
    ReadErr bool byte_buf \<comment> \<open>whether \<open>errno\<close> is \<open>EAGAIN\<close>, and \<open>strerror(errno)\<close>\<close>
  | Read byte_buf

datatype recv_result = RecvErr | Recv packet int

record conn =
  discoverySocket :: int
  sessionSocket :: int
  myEth :: mac
  peerEth :: mac
  session_id :: u16
  synchronous :: bool
  hostUniq :: "byte_buf option"
  cookie :: ptag
  relayId :: ptag

record pppoe =
  conn :: conn
  optClampMSS :: u32
  PPPState :: ppp_state
  PPPPacketSize :: nat
  PPPXorValue :: u8
  spkt :: packet
  send_rc :: "nat \<Rightarrow> send_result"
  write_rc :: "nat \<Rightarrow> byte_buf option"
  wire :: "(int \<times> byte_buf) list"
  tty :: "byte_buf list"
  errlog :: "(string \<times> string \<times> byte_buf) list"
  exited :: "nat option"

abbreviation (input) "FRAME_ESC \<equiv> (0x7D::u8)"
abbreviation (input) "FRAME_FLAG \<equiv> (0x7E::u8)"
abbreviation (input) "FRAME_ADDR \<equiv> (0xFF::u8)"
abbreviation (input) "FRAME_CTRL \<equiv> (0x03::u8)"
abbreviation (input) "FRAME_ENC \<equiv> (0x20::u8)"
abbreviation (input) "READ_CHUNK \<equiv> (4096::nat)"
abbreviation (input) "TAG_SERVICE_NAME_ERROR \<equiv> (0x0201::u16)"
abbreviation (input) "TAG_AC_SYSTEM_ERROR \<equiv> (0x0202::u16)"

definition exit_with :: "nat \<Rightarrow> pppoe \<Rightarrow> pppoe" where
  "exit_with code st = st\<lparr>exited := Some code\<rparr>"

section \<open>Sending (if.c, common.c)\<close>

definition if_sendPacket :: "pppoe \<Rightarrow> int \<Rightarrow> packet \<Rightarrow> int \<Rightarrow> (int \<times> pppoe) option" where
  "if_sendPacket st sock p sz =
     (if sz < 0 then None
      else do {
        bs \<leftarrow> rd_bytes (frame_bytes p) 0 (nat sz);
        Some (if send_rc st (length (wire st)) = SendErr then -1 else 0,
              st\<lparr>wire := wire st @ [(sock, bs)]\<rparr>) })"

text \<open>
  \<open>CHECK_ROOM\<close> (where \<open>checked\<close>) and the \<open>memcpy\<close> of \<open>len\<close> payload bytes of a tag and its
  header to the cursor; \<open>Some None\<close> is the return \<open>CHECK_ROOM\<close> makes.
\<close>

definition put_tag :: "bool \<Rightarrow> ptag \<Rightarrow> nat \<Rightarrow> byte_buf \<times> nat \<Rightarrow> (byte_buf \<times> nat) option option" where
  "put_tag checked tag len bc = (case bc of (buf, cursor) \<Rightarrow>
     if checked \<and> cursor + (len + TAG_HDR_SIZE) > MAX_PPPOE_PAYLOAD then Some None
     else do {
       bs \<leftarrow> rd_bytes (tag_bytes tag) 0 (len + TAG_HDR_SIZE);
       buf \<leftarrow> wr_bytes buf cursor bs;
       Some (Some (buf, cursor + len + TAG_HDR_SIZE)) })"

definition host_uniq_tag :: "byte_buf option \<Rightarrow> byte_buf \<times> nat \<Rightarrow> (byte_buf \<times> nat) option option" where
  "host_uniq_tag hu bc = (case hu of
     None \<Rightarrow> Some (Some bc)
   | Some h \<Rightarrow>
       if length h > ETH_DATA_LEN then None
       else put_tag True \<lparr>tag_type = htons TAG_HOST_UNIQ,
              tag_length = htons (word_of_nat (length h)), tag_payload = h\<rparr> (length h) bc)"

definition error_tag :: "byte_buf option \<Rightarrow> byte_buf \<times> nat \<Rightarrow> (byte_buf \<times> nat) option option" where
  "error_tag msg bc = (case msg of
     None \<Rightarrow> Some (Some bc)
   | Some m \<Rightarrow>
       if length m + 1 > ETH_DATA_LEN then None
       else put_tag False \<lparr>tag_type = htons TAG_GENERIC_ERROR,
              tag_length = htons (word_of_nat (length m)), tag_payload = m @ [0]\<rparr> (length m) bc)"

definition saved_tag :: "ptag \<Rightarrow> byte_buf \<times> nat \<Rightarrow> (byte_buf \<times> nat) option option" where
  "saved_tag tag bc =
     (if tag_type tag \<noteq> 0 then put_tag True tag (unat (ntohs (tag_length tag))) bc else Some (Some bc))"

text \<open>
  The bytes of the stack buffer that are not written are arbitrary and never sent; \<open>plen\<close>
  is advanced together with \<open>cursor\<close>, as a 16-bit value.
\<close>

definition sendPADT :: "pppoe \<Rightarrow> byte_buf option \<Rightarrow> pppoe option" where
  "sendPADT st msg =
     (if session_id (conn st) = 0 then Some st
      else if discoverySocket (conn st) < 0 then Some st
      else do {
        let c = conn st;
        let p = \<lparr>h_dest = peerEth c, h_source = myEth c, h_proto = htons 0x8863,
                 vertype = PPPOE_VER_TYPE 1 1, pcode = CODE_PADT, psession = session_id c,
                 plength = 0, payload = replicate ETH_JUMBO_LEN 0\<rparr>;
        let st = st\<lparr>conn := c\<lparr>session_id := 0\<rparr>\<rparr>;
        r \<leftarrow> host_uniq_tag (hostUniq c) (payload p, 0);
        case r of None \<Rightarrow> Some st | Some bc \<Rightarrow> do {
        r \<leftarrow> error_tag msg bc;
        case r of None \<Rightarrow> Some st | Some bc \<Rightarrow> do {
        r \<leftarrow> saved_tag (cookie c) bc;
        case r of None \<Rightarrow> Some st | Some bc \<Rightarrow> do {
        r \<leftarrow> saved_tag (relayId c) bc;
        case r of None \<Rightarrow> Some st | Some (buf, cursor) \<Rightarrow> do {
        let pl = (word_of_nat cursor :: u16);
        (rc, st) \<leftarrow> if_sendPacket st (discoverySocket c)
                     (p\<lparr>payload := buf, plength := htons pl\<rparr>) (int (unat pl) + int HDR_SIZE);
        Some st }}}} })"

text \<open>\<open>vsnprintf\<close> into \<open>char msg[512]\<close>.\<close>

definition sendPADTf :: "pppoe \<Rightarrow> byte_buf \<Rightarrow> pppoe option" where
  "sendPADTf st formatted = sendPADT st (Some (take 511 formatted))"

definition rp_fatal :: "pppoe \<Rightarrow> byte_buf \<Rightarrow> pppoe option" where
  "rp_fatal st str = do {
     st \<leftarrow> sendPADTf st (msg_bytes ''RP-PPPoE: Session '' @ fmt_d (unat (ntohs (session_id (conn st)))) @
            msg_bytes '': '' @ take 256 str);
     Some (exit_with 1 st) }"

definition fatalSys :: "pppoe \<Rightarrow> byte_buf \<Rightarrow> pppoe option" where
  "fatalSys st strerror = do {
     st \<leftarrow> sendPADTf st (msg_bytes ''RP-PPPoE: System call error: '' @ strerror);
     Some (exit_with 1 st) }"

definition sigPADT :: "pppoe \<Rightarrow> nat \<Rightarrow> pppoe option" where
  "sigPADT st src = do {
     st \<leftarrow> sendPADTf st (msg_bytes ''RP-PPPoE: Client terminated by signal '' @ fmt_d src);
     Some (exit_with 0 st) }"

definition sendSessionPacket :: "pppoe \<Rightarrow> int \<Rightarrow> pppoe option" where
  "sendSessionPacket st len = do {
     let p = (spkt st)\<lparr>plength := htons (word_of_int len)\<rparr>;
     p \<leftarrow> (if optClampMSS st \<noteq> 0 then clampMSS p (optClampMSS st) else Some p);
     let st = st\<lparr>spkt := p\<rparr>;
     (rc, st) \<leftarrow> if_sendPacket st (sessionSocket (conn st)) p (len + int HDR_SIZE);
     if rc < 0 then Some (exit_with 1 st) else Some st }"

section \<open>From the PPP device (ppp.c)\<close>

definition initPPP :: "pppoe \<Rightarrow> pppoe" where
  "initPPP st = st\<lparr>PPPState := STATE_WAITFOR_FRAME_ADDR, PPPPacketSize := 0, PPPXorValue := 0\<rparr>"

text \<open>
  \<open>readv\<close> puts the first two bytes into \<open>dummy\<close> and the rest into the packet's payload.
\<close>

definition syncReadFromPPP :: "pppoe \<Rightarrow> read_result \<Rightarrow> pppoe option" where
  "syncReadFromPPP st r = (case r of
     ReadErr again err \<Rightarrow>
       if again then rp_fatal st (msg_bytes (''Linux select bug hit!  This message is harmless, but please ask '' @
                                   ''the Linux kernel developers to fix it.''))
       else fatalSys st err
   | Read bs \<Rightarrow> do {
       pl \<leftarrow> wr_bytes (payload (spkt st)) 0 (drop 2 bs);
       let st = st\<lparr>spkt := (spkt st)\<lparr>payload := pl\<rparr>\<rparr>;
       if bs = [] then do {
         st \<leftarrow> sendPADT st (Some (msg_bytes ''RP-PPPoE: EOF in syncReadFromPPP''));
         Some (exit_with 0 st) }
       else if length bs < 2 then rp_fatal st (msg_bytes ''too few characters read from PPP (syncReadFromPPP)'')
       else sendSessionPacket st (int (length bs) - 2) })"

text \<open>
  \<open>asyncReadFromPPP\<close>: the list is what \<open>ptr\<close> and \<open>r\<close> have left. The three inner loops are
  \<open>wait_addr\<close>, \<open>drop_proto\<close> and \<open>build\<close>; \<open>build_byte\<close> is the \<open>switch\<close>.
\<close>

fun wait_addr :: "pppoe \<Rightarrow> byte_buf \<Rightarrow> pppoe \<times> byte_buf" where
  "wait_addr st [] = (st, [])"
| "wait_addr st (c # cs) =
     (if c = FRAME_ADDR then (st\<lparr>PPPState := STATE_DROP_PROTO\<rparr>, cs) else wait_addr st cs)"

fun drop_proto :: "pppoe \<Rightarrow> byte_buf \<Rightarrow> pppoe \<times> byte_buf" where
  "drop_proto st [] = (st, [])"
| "drop_proto st (c # cs) =
     (if PPPState st = STATE_DROP_PROTO
      then drop_proto (if c = FRAME_CTRL XOR FRAME_ENC then st\<lparr>PPPState := STATE_BUILDING_PACKET\<rparr> else st) cs
      else (st, c # cs))"

definition build_byte :: "pppoe \<Rightarrow> u8 \<Rightarrow> pppoe option" where
  "build_byte st c =
     (if c = FRAME_ESC then Some (st\<lparr>PPPXorValue := FRAME_ENC\<rparr>)
      else if c = FRAME_FLAG then
        (if PPPPacketSize st < 2 then rp_fatal st (msg_bytes ''Packet too short from PPP (asyncReadFromPPP)'')
         else do {
           st \<leftarrow> sendSessionPacket st (int (PPPPacketSize st) - 2);
           if exited st \<noteq> None then Some st else Some (initPPP st) })
      else if PPPPacketSize st \<ge> ETH_JUMBO_LEN - 4 then Some (initPPP st)
      else do {
        pl \<leftarrow> arr_upd (payload (spkt st)) (PPPPacketSize st) (\<lambda>_. c XOR PPPXorValue st);
        Some (st\<lparr>spkt := (spkt st)\<lparr>payload := pl\<rparr>, PPPPacketSize := PPPPacketSize st + 1, PPPXorValue := 0\<rparr>) })"

fun build :: "pppoe \<Rightarrow> byte_buf \<Rightarrow> (pppoe \<times> byte_buf) option" where
  "build st [] = Some (st, [])"
| "build st (c # cs) =
     (if PPPState st = STATE_BUILDING_PACKET \<and> exited st = None
      then do { st \<leftarrow> build_byte st c; build st cs }
      else Some (st, c # cs))"

lemma wait_addr_frame:
  "length (snd (wait_addr st bs)) \<le> length bs - 1 \<and> exited (fst (wait_addr st bs)) = exited st \<and>
   (bs \<noteq> [] \<longrightarrow> length (snd (wait_addr st bs)) < length bs)"
  by (induction st bs rule: wait_addr.induct) auto

lemma drop_proto_frame:
  "length (snd (drop_proto st bs)) \<le> length bs \<and> exited (fst (drop_proto st bs)) = exited st \<and>
   (bs \<noteq> [] \<and> PPPState st = STATE_DROP_PROTO \<longrightarrow> length (snd (drop_proto st bs)) < length bs) \<and>
   (PPPState st \<noteq> STATE_DROP_PROTO \<longrightarrow> drop_proto st bs = (st, bs))"
  by (induction st bs rule: drop_proto.induct) auto

lemma build_frame:
  "build st bs = Some (st', bs') \<Longrightarrow> length bs' \<le> length bs \<and>
   (bs \<noteq> [] \<and> PPPState st = STATE_BUILDING_PACKET \<and> exited st = None \<longrightarrow> length bs' < length bs)"
  by (induction st bs arbitrary: st' bs' rule: build.induct) (fastforce split: bind_splits if_splits)+

function async_loop :: "pppoe \<Rightarrow> byte_buf \<Rightarrow> pppoe option" where
  "async_loop st bs =
     (if bs = [] \<or> exited st \<noteq> None then Some st
      else do {
        let (st1, bs1) = (if PPPState st = STATE_WAITFOR_FRAME_ADDR then wait_addr st bs else (st, bs));
        if PPPState st1 = STATE_WAITFOR_FRAME_ADDR then Some st1
        else do {
          let (st2, bs2) = drop_proto st1 bs1;
          if PPPState st2 = STATE_DROP_PROTO then Some st2
          else do {
            (st3, bs3) \<leftarrow> build st2 bs2;
            async_loop st3 bs3 } } })"
  by pat_completeness auto

termination
proof (relation "measure (\<lambda>(st, bs). length bs)")
  fix st st1 st2 st3 :: pppoe and bs bs1 bs2 bs3 x y z
  assume a: "\<not> (bs = [] \<or> exited st \<noteq> None)"
    "x = (if PPPState st = STATE_WAITFOR_FRAME_ADDR then wait_addr st bs else (st, bs))" "(st1, bs1) = x"
    "PPPState st1 \<noteq> STATE_WAITFOR_FRAME_ADDR" "y = drop_proto st1 bs1" "(st2, bs2) = y"
    "PPPState st2 \<noteq> STATE_DROP_PROTO" "build st2 bs2 = Some z" "(st3, bs3) = z"
  have l1: "length bs1 \<le> length bs" "PPPState st = STATE_WAITFOR_FRAME_ADDR \<longrightarrow> length bs1 < length bs"
    "PPPState st \<noteq> STATE_WAITFOR_FRAME_ADDR \<longrightarrow> st1 = st \<and> bs1 = bs"
    using a wait_addr_frame [of st bs] by (auto split: if_splits simp: prod_eq_iff)
  have l2: "length bs2 \<le> length bs1" "bs1 \<noteq> [] \<and> PPPState st1 = STATE_DROP_PROTO \<longrightarrow> length bs2 < length bs1"
    "PPPState st1 \<noteq> STATE_DROP_PROTO \<longrightarrow> st2 = st1 \<and> bs2 = bs1"
    using a(5,6) drop_proto_frame [of st1 bs1] by (auto simp: prod_eq_iff)
  have l3: "length bs3 \<le> length bs2"
    "bs2 \<noteq> [] \<and> PPPState st2 = STATE_BUILDING_PACKET \<and> exited st2 = None \<longrightarrow> length bs3 < length bs2"
    using a(8,9) build_frame [of st2 bs2 st3 bs3] by auto
  have "length bs3 < length bs"
  proof (cases "PPPState st")
    case STATE_WAITFOR_FRAME_ADDR
    with l1 have "length bs1 < length bs" by simp
    then show ?thesis using l2(1) l3(1) by linarith
  next
    case STATE_DROP_PROTO
    with l1 l2 a(1) have "length bs2 < length bs" by simp
    then show ?thesis using l3(1) by linarith
  next
    case STATE_BUILDING_PACKET
    with l1 l2 l3 a(1) show ?thesis by simp
  qed
  then show "((st3, bs3), st, bs) \<in> measure (\<lambda>(st, bs). length bs)" by simp
qed auto

declare async_loop.simps [simp del]

definition asyncReadFromPPP :: "pppoe \<Rightarrow> read_result \<Rightarrow> pppoe option" where
  "asyncReadFromPPP st r = (case r of
     ReadErr again err \<Rightarrow> fatalSys st err
   | Read bs \<Rightarrow>
       if length bs > READ_CHUNK then None
       else if bs = [] then do {
         st \<leftarrow> sendPADT st (Some (msg_bytes ''RP-PPPoE: EOF in asyncReadFromPPP''));
         Some (exit_with 0 st) }
       else async_loop st bs)"

section \<open>From the Ethernet (pppoe.c)\<close>

text \<open>
  The tests \<open>asyncReadFromEth\<close> and \<open>syncReadFromEth\<close> make, in order: the length field against
  the received size, code, version, type, both addresses, the session number.
\<close>

definition session_accepts :: "conn \<Rightarrow> packet \<Rightarrow> int \<Rightarrow> bool" where
  "session_accepts c p len \<longleftrightarrow>
     \<not> int (plen p) + int HDR_SIZE > len \<and> pcode p = CODE_SESS \<and> PPPOE_VER (vertype p) = 1 \<and>
     PPPOE_TYPE (vertype p) = 1 \<and> h_dest p = myEth c \<and> h_source p = peerEth c \<and> psession p = session_id c"

definition ppp_special :: "u8 \<Rightarrow> bool" where
  "ppp_special c \<longleftrightarrow> c = FRAME_FLAG \<or> c = FRAME_ADDR \<or> c = FRAME_ESC \<or> c < 0x20"

fun ppp_escape :: "byte_buf \<Rightarrow> byte_buf" where
  "ppp_escape [] = []"
| "ppp_escape (c # cs) = (if ppp_special c then [FRAME_ESC, c XOR FRAME_ENC] else [c]) @ ppp_escape cs"

text \<open>The HDLC-like frame \<open>asyncReadFromEth\<close> builds in \<open>pppBuf\<close>.\<close>

definition async_frame :: "byte_buf \<Rightarrow> byte_buf" where
  "async_frame d =
     (let fcs = pppFCS16 (pppFCS16 PPPINITFCS16 [FRAME_ADDR, FRAME_CTRL]) d XOR 0xffff
      in [FRAME_FLAG, FRAME_ADDR, FRAME_ESC, FRAME_CTRL XOR FRAME_ENC] @ ppp_escape d @
         ppp_escape [lo8 fcs, hi8 fcs] @ [FRAME_FLAG])"

text \<open>\<open>write(1, ...)\<close>; its failure ends the process.\<close>

definition write_tty :: "pppoe \<Rightarrow> byte_buf \<Rightarrow> pppoe option" where
  "write_tty st bs =
     (let e = write_rc st (length (tty st)); st = st\<lparr>tty := tty st @ [bs]\<rparr>
      in case e of None \<Rightarrow> Some st | Some err \<Rightarrow> fatalSys st err)"

text \<open>
  The frame is written to \<open>pppBuf\<close> front to back, so a write outside its 4096 bytes happens
  exactly when the finished frame is longer.
\<close>

definition asyncReadFromEth :: "pppoe \<Rightarrow> recv_result \<Rightarrow> pppoe option" where
  "asyncReadFromEth st r = (case r of
     RecvErr \<Rightarrow> Some st
   | Recv p len \<Rightarrow>
       if \<not> session_accepts (conn st) p len then Some st
       else do {
         p \<leftarrow> (if optClampMSS st \<noteq> 0 then clampMSS p (optClampMSS st) else Some p);
         d \<leftarrow> rd_bytes (payload p) 0 (plen p);
         let pppBuf = async_frame d;
         if length pppBuf > 4096 then None else write_tty st pppBuf })"

definition syncReadFromEth :: "pppoe \<Rightarrow> recv_result \<Rightarrow> pppoe option" where
  "syncReadFromEth st r = (case r of
     RecvErr \<Rightarrow> Some st
   | Recv p len \<Rightarrow>
       if \<not> session_accepts (conn st) p len then Some st
       else do {
         p \<leftarrow> (if optClampMSS st \<noteq> 0 then clampMSS p (optClampMSS st) else Some p);
         d \<leftarrow> rd_bytes (payload p) 0 (plen p);
         write_tty st ([FRAME_ADDR, FRAME_CTRL] @ d) })"

section \<open>Discovery packets during the session (pppoe.c, common.c)\<close>

definition pktLogErrs ::
  "string \<Rightarrow> u16 \<Rightarrow> u16 \<Rightarrow> byte_buf \<Rightarrow> (string \<times> string \<times> byte_buf) list \<Rightarrow> (string \<times> string \<times> byte_buf) list" where
  "pktLogErrs pkt ty len data log =
     (if ty = TAG_SERVICE_NAME_ERROR then log @ [(pkt, ''Service-Name-Error'', take (unat len) data)]
      else if ty = TAG_AC_SYSTEM_ERROR then log @ [(pkt, ''System-Error'', take (unat len) data)]
      else if ty = TAG_GENERIC_ERROR then log @ [(pkt, ''Generic-Error'', take (unat len) data)]
      else log)"

definition parseLogErrs ::
  "u16 \<Rightarrow> u16 \<Rightarrow> byte_buf \<Rightarrow> (string \<times> string \<times> byte_buf) list \<Rightarrow> (string \<times> string \<times> byte_buf) list" where
  "parseLogErrs ty len data log = pktLogErrs ''PADT'' ty len data log"

definition sessionDiscoveryPacket :: "pppoe \<Rightarrow> recv_result \<Rightarrow> pppoe option" where
  "sessionDiscoveryPacket st r = (case r of
     RecvErr \<Rightarrow> Some st
   | Recv p len \<Rightarrow>
       if int (plen p) + int HDR_SIZE > len then Some st
       else if psession p \<noteq> session_id (conn st) then Some st
       else if h_dest p \<noteq> myEth (conn st) then Some st
       else if h_source p \<noteq> peerEth (conn st) then Some st
       else if pcode p \<noteq> CODE_PADT then Some st
       else do {
         (rc, log) \<leftarrow> parsePacket p parseLogErrs (errlog st);
         st \<leftarrow> sendPADT (st\<lparr>errlog := log\<rparr>) (Some (msg_bytes ''Received PADT from peer''));
         Some (exit_with 0 st) })"

section \<open>The session loop (pppoe.c)\<close>

definition session_start :: "pppoe \<Rightarrow> pppoe" where
  "session_start st = initPPP (st\<lparr>spkt := (spkt st)\<lparr>h_dest := peerEth (conn st), h_source := myEth (conn st),
     h_proto := htons 0x8864, vertype := PPPOE_VER_TYPE 1 1, pcode := CODE_SESS,
     psession := session_id (conn st)\<rparr>\<rparr>)"

text \<open>What \<open>select\<close> reports and the reads then made deliver: \<open>None\<close> where a descriptor is not ready.\<close>

datatype session_event =
    Timeout
  | SelectErr byte_buf
  | Signal nat
  | Ready "read_result option" "recv_result option" "recv_result option"

definition unless_exited :: "(pppoe \<Rightarrow> 'a \<Rightarrow> pppoe option) \<Rightarrow> 'a option \<Rightarrow> pppoe \<Rightarrow> pppoe option" where
  "unless_exited f r st = (case r of None \<Rightarrow> Some st | Some r \<Rightarrow> if exited st \<noteq> None then Some st else f st r)"

definition session_step :: "pppoe \<Rightarrow> session_event \<Rightarrow> pppoe option" where
  "session_step st ev = (case ev of
     Timeout \<Rightarrow> do {
       st \<leftarrow> sendPADT st (Some (msg_bytes ''RP-PPPoE: Inactivity timeout''));
       Some (exit_with 1 st) }
   | SelectErr err \<Rightarrow> fatalSys st err
   | Signal n \<Rightarrow> sigPADT st n
   | Ready ppp sess disc \<Rightarrow> do {
       st \<leftarrow> unless_exited (if synchronous (conn st) then syncReadFromPPP else asyncReadFromPPP) ppp st;
       st \<leftarrow> unless_exited (if synchronous (conn st) then syncReadFromEth else asyncReadFromEth) sess st;
       if discoverySocket (conn st) \<ge> 0 then unless_exited sessionDiscoveryPacket disc st else Some st })"

fun session :: "pppoe \<Rightarrow> session_event list \<Rightarrow> pppoe option" where
  "session st [] = Some st"
| "session st (ev # evs) =
     (if exited st \<noteq> None then Some st else do { st \<leftarrow> session_step st ev; session st evs })"

end
