(* ===== verification/Pppoe_Session_Props.thy ===== *)
theory Pppoe_Session_Props
  imports Pppoe_Session
begin

text \<open>
  What the session phase of the PPPoE client guarantees. The nested loops of
  \<open>asyncReadFromPPP\<close> are reduced to an automaton that takes one byte at a time, from
  which follow independence of how \<open>read\<close> cuts the stream and the round trip with the
  framing of \<open>asyncReadFromEth\<close>; the last part is memory safety of the whole session.
\<close>

section \<open>The byte automaton\<close>

definition ppp_byte :: "pppoe \<Rightarrow> u8 \<Rightarrow> pppoe option" where
  "ppp_byte st c =
     (if exited st \<noteq> None then Some st
      else case PPPState st of
        STATE_WAITFOR_FRAME_ADDR \<Rightarrow> Some (if c = 0xFF then st\<lparr>PPPState := STATE_DROP_PROTO\<rparr> else st)
      | STATE_DROP_PROTO \<Rightarrow> Some (if c = 0x23 then st\<lparr>PPPState := STATE_BUILDING_PACKET\<rparr> else st)
      | STATE_BUILDING_PACKET \<Rightarrow> build_byte st c)"

fun ppp_bytes :: "pppoe \<Rightarrow> byte_buf \<Rightarrow> pppoe option" where
  "ppp_bytes st [] = Some st"
| "ppp_bytes st (c # cs) = do { st \<leftarrow> ppp_byte st c; ppp_bytes st cs }"

lemma ppp_bytes_append: "ppp_bytes st (xs @ ys) = do { st \<leftarrow> ppp_bytes st xs; ppp_bytes st ys }"
  by (induction xs arbitrary: st) (simp_all add: bind_assoc)

lemma ppp_bytes_exited: "exited st \<noteq> None \<Longrightarrow> ppp_bytes st bs = Some st"
  by (induction bs) (simp_all add: ppp_byte_def)

lemma wait_addr_bytes:
  "PPPState st = STATE_WAITFOR_FRAME_ADDR \<Longrightarrow> exited st = None \<Longrightarrow>
   ppp_bytes st bs = ppp_bytes (fst (wait_addr st bs)) (snd (wait_addr st bs)) \<and>
   (PPPState (fst (wait_addr st bs)) = STATE_WAITFOR_FRAME_ADDR \<longrightarrow> snd (wait_addr st bs) = [])"
  by (induction st bs rule: wait_addr.induct) (auto simp: ppp_byte_def)

lemma drop_proto_bytes:
  "PPPState st \<noteq> STATE_WAITFOR_FRAME_ADDR \<Longrightarrow> exited st = None \<Longrightarrow>
   ppp_bytes st bs = ppp_bytes (fst (drop_proto st bs)) (snd (drop_proto st bs)) \<and>
   (PPPState (fst (drop_proto st bs)) = STATE_DROP_PROTO \<longrightarrow> snd (drop_proto st bs) = []) \<and>
   PPPState (fst (drop_proto st bs)) \<noteq> STATE_WAITFOR_FRAME_ADDR"
  by (induction st bs rule: drop_proto.induct) (auto simp: ppp_byte_def)

lemma build_bytes:
  "ppp_bytes st bs = do { (st, bs) \<leftarrow> build st bs; ppp_bytes st bs }"
  by (induction st bs rule: build.induct) (auto simp: ppp_byte_def split: bind_splits)

lemma async_loop_bytes: "async_loop st bs = ppp_bytes st bs"
proof (induction st bs rule: async_loop.induct)
  case (1 st bs)
  show ?case
  proof (cases "bs = [] \<or> exited st \<noteq> None")
    case True
    then show ?thesis by (auto simp: async_loop.simps [of st] ppp_bytes_exited)
  next
    case run: False
    obtain st1 bs1 where w: "(if PPPState st = STATE_WAITFOR_FRAME_ADDR then wait_addr st bs else (st, bs)) = (st1, bs1)"
      by (metis surj_pair)
    have e1: "ppp_bytes st bs = ppp_bytes st1 bs1" "exited st1 = None"
      "PPPState st1 = STATE_WAITFOR_FRAME_ADDR \<longrightarrow> bs1 = []"
      using w run wait_addr_bytes [of st bs] wait_addr_frame [of st bs] by (auto split: if_splits)
    show ?thesis
    proof (cases "PPPState st1 = STATE_WAITFOR_FRAME_ADDR")
      case True
      then show ?thesis using run e1 by (simp add: async_loop.simps [of st] w)
    next
      case w1: False
      obtain st2 bs2 where d: "drop_proto st1 bs1 = (st2, bs2)" by (metis surj_pair)
      have e2: "ppp_bytes st bs = ppp_bytes st2 bs2" "PPPState st2 = STATE_DROP_PROTO \<longrightarrow> bs2 = []"
        using drop_proto_bytes [OF w1 e1(2), of bs1] d e1(1) by auto
      show ?thesis
      proof (cases "PPPState st2 = STATE_DROP_PROTO")
        case True
        then show ?thesis using run w1 e2 by (simp add: async_loop.simps [of st] w d)
      next
        case d2: False
        have "async_loop st bs = do { (st3, bs3) \<leftarrow> build st2 bs2; async_loop st3 bs3 }"
          using run w1 d2 by (simp add: async_loop.simps [of st] w d)
        also have "\<dots> = do { (st3, bs3) \<leftarrow> build st2 bs2; ppp_bytes st3 bs3 }"
        proof (cases "build st2 bs2")
          case (Some z)
          then show ?thesis using "1" [OF run w [symmetric] refl w1 refl d [symmetric] d2 Some]
            by (cases z) simp
        qed simp
        also have "\<dots> = ppp_bytes st bs" using build_bytes [of st2 bs2] e2(1) by simp
        finally show ?thesis .
      qed
    qed
  qed
qed

section \<open>Reading in chunks\<close>

text \<open>Successive calls of \<open>asyncReadFromPPP\<close>, one for each buffer \<open>read\<close> returns.\<close>

fun read_chunks :: "pppoe \<Rightarrow> byte_buf list \<Rightarrow> pppoe option" where
  "read_chunks st [] = Some st"
| "read_chunks st (b # bs) =
     (if exited st \<noteq> None then Some st else do { st \<leftarrow> asyncReadFromPPP st (Read b); read_chunks st bs })"

lemma asyncReadFromPPP_bytes:
  "b \<noteq> [] \<Longrightarrow> length b \<le> READ_CHUNK \<Longrightarrow> asyncReadFromPPP st (Read b) = ppp_bytes st b"
  by (simp add: asyncReadFromPPP_def async_loop_bytes)

lemma read_chunks_bytes:
  assumes "\<forall>b \<in> set bs. b \<noteq> [] \<and> length b \<le> READ_CHUNK"
  shows "read_chunks st bs = ppp_bytes st (concat bs)"
  using assms
proof (induction bs arbitrary: st)
  case (Cons b bs)
  then show ?case
    by (cases "exited st = None") (simp_all add: asyncReadFromPPP_bytes ppp_bytes_append ppp_bytes_exited)
qed simp

section \<open>One session frame\<close>

definition sess_pkt :: "pppoe \<Rightarrow> byte_buf \<Rightarrow> byte_buf" where
  "sess_pkt st d = hdr_bytes ((spkt st)\<lparr>plength := htons (word_of_nat (length d))\<rparr>) @ d"

lemma if_sendPacket_ok:
  assumes "sized p sz"
  shows "if_sendPacket st sock p sz =
     Some (if send_rc st (length (wire st)) = SendErr then -1 else 0, st\<lparr>wire := wire st @ [(sock, frame_of p)]\<rparr>)"
  using assms rd_frame [OF assms] by (simp add: if_sendPacket_def sized_def)

lemma sendSessionPacket_ok:
  assumes wf: "pkt_wf (spkt st)" and n: "n \<le> ETH_JUMBO_LEN" and clamp: "optClampMSS st = 0"
  shows "\<exists>st'. sendSessionPacket st (int n) = Some st' \<and>
     wire st' = wire st @ [(sessionSocket (conn st), sess_pkt st (take n (payload (spkt st))))] \<and>
     exited st' = (if send_rc st (length (wire st)) = SendErr then Some 1 else exited st) \<and>
     st' = st\<lparr>spkt := (spkt st)\<lparr>plength := htons (word_of_nat n)\<rparr>, wire := wire st', exited := exited st'\<rparr>"
proof -
  let ?p = "(spkt st)\<lparr>plength := htons (word_of_nat n)\<rparr>"
  have pl: "plen ?p = n" using n by (simp add: plen_def)
  then have sz: "sized ?p (int n + int HDR_SIZE)"
    using wf n by (simp add: sized_def pkt_wf_def)
  have f: "frame_of ?p = sess_pkt st (take n (payload (spkt st)))"
    using pl wf n by (simp add: frame_of_def sess_pkt_def window_def pkt_wf_def)
  show ?thesis
    using if_sendPacket_ok [OF sz, of "st\<lparr>spkt := ?p\<rparr>" "sessionSocket (conn st)"] f clamp
    by (auto simp: sendSessionPacket_def exit_with_def)
qed

section \<open>The framing and its inverse\<close>

lemma xor_enc_twice: "(c XOR x) XOR x = (c :: u8)"
  by (simp only: xor.assoc xor_self_eq xor.right_neutral)

lemma escaped_plain:
  assumes "ppp_special c"
  shows "c XOR 0x20 \<noteq> 0x7D" "c XOR 0x20 \<noteq> 0x7E"
proof -
  have "c \<noteq> 0x7D XOR 0x20" "c \<noteq> 0x7E XOR 0x20" using assms by (auto simp: ppp_special_def)
  then show "c XOR 0x20 \<noteq> 0x7D" "c XOR 0x20 \<noteq> 0x7E" by (metis xor_enc_twice)+
qed

definition stored :: "pppoe \<Rightarrow> byte_buf \<Rightarrow> pppoe" where
  "stored st d = st\<lparr>spkt := (spkt st)\<lparr>payload := take (PPPPacketSize st) (payload (spkt st)) @ d @
       drop (PPPPacketSize st + length d) (payload (spkt st))\<rparr>,
     PPPPacketSize := PPPPacketSize st + length d\<rparr>"

lemma stored_Nil [simp]: "stored st [] = st"
  by (simp add: stored_def)

lemma escape_byte_run:
  assumes "PPPState st = STATE_BUILDING_PACKET" "exited st = None" "PPPXorValue st = 0"
    "PPPPacketSize st < 1504" "pkt_wf (spkt st)"
  shows "ppp_bytes st (ppp_escape [c]) = Some (stored st [c])"
proof -
  have u: "arr_upd (payload (spkt st)) (PPPPacketSize st) (\<lambda>_. c) =
     Some (take (PPPPacketSize st) (payload (spkt st)) @ [c] @ drop (Suc (PPPPacketSize st)) (payload (spkt st)))"
    using assms(4,5) by (simp add: arr_upd_def pkt_wf_def upd_conv_take_nth_drop)
  have n: "\<not> ppp_special c \<Longrightarrow> c \<noteq> 0x7D \<and> c \<noteq> 0x7E" by (auto simp: ppp_special_def)
  show ?thesis
    using assms escaped_plain [of c] u n
    by (cases "ppp_special c") (simp_all add: ppp_byte_def build_byte_def xor_enc_twice stored_def)
qed

lemma stored_stored:
  assumes "PPPPacketSize st + length d + length e \<le> length (payload (spkt st))"
  shows "stored (stored st d) e = stored st (d @ e)"
  using assms by (simp add: stored_def drop_append ac_simps)

lemma stored_fields [simp]:
  "PPPState (stored st d) = PPPState st" "exited (stored st d) = exited st" "PPPXorValue (stored st d) = PPPXorValue st"
  "PPPPacketSize (stored st d) = PPPPacketSize st + length d" "conn (stored st d) = conn st"
  "optClampMSS (stored st d) = optClampMSS st" "wire (stored st d) = wire st" "send_rc (stored st d) = send_rc st"
  by (simp_all add: stored_def)

lemma stored_wf:
  "pkt_wf (spkt st) \<Longrightarrow> PPPPacketSize st + length d \<le> ETH_JUMBO_LEN \<Longrightarrow> pkt_wf (spkt (stored st d))"
  by (simp add: stored_def pkt_wf_def)

lemma ppp_escape_Cons: "ppp_escape (c # cs) = ppp_escape [c] @ ppp_escape cs"
  by simp

lemma ppp_escape_append: "ppp_escape (xs @ ys) = ppp_escape xs @ ppp_escape ys"
  by (induction xs) simp_all

lemma escape_run:
  assumes "PPPState st = STATE_BUILDING_PACKET" "exited st = None" "PPPXorValue st = 0"
    "PPPPacketSize st + length d \<le> 1504" "pkt_wf (spkt st)"
  shows "ppp_bytes st (ppp_escape d) = Some (stored st d)"
  using assms
proof (induction d arbitrary: st)
  case (Cons c d)
  then have "ppp_bytes st (ppp_escape [c]) = Some (stored st [c])"
    by (intro escape_byte_run) auto
  moreover have "ppp_bytes (stored st [c]) (ppp_escape d) = Some (stored (stored st [c]) d)"
    using Cons.prems by (intro Cons.IH) (auto intro: stored_wf)
  moreover have "stored (stored st [c]) d = stored st (c # d)"
    using Cons.prems by (subst stored_stored) (simp_all add: pkt_wf_def)
  ultimately show ?case by (simp only: ppp_escape_Cons [of c d] ppp_bytes_append) simp
qed simp

definition ppp_idle :: "pppoe \<Rightarrow> bool" where
  "ppp_idle st \<longleftrightarrow> PPPState st = STATE_WAITFOR_FRAME_ADDR \<and> PPPPacketSize st = 0 \<and> PPPXorValue st = 0 \<and> exited st = None"

lemma async_frame_split: "\<exists>t. length t = 2 \<and> async_frame d = [0x7E, 0xFF, 0x7D, 0x23] @ ppp_escape (d @ t) @ [0x7E]"
  unfolding async_frame_def Let_def
  by (rule exI [of _ "[lo8 (pppFCS16 (pppFCS16 0xffff [0xFF, 0x03]) d XOR 0xffff),
        hi8 (pppFCS16 (pppFCS16 0xffff [0xFF, 0x03]) d XOR 0xffff)]"])
     (simp only: ppp_escape_append append_assoc, simp)

lemma length_ppp_escape: "length (ppp_escape d) \<le> 2 * length d"
  by (induction d) auto

lemma length_async_frame: "length (async_frame d) \<le> 2 * length d + 9"
proof -
  obtain t where "length t = 2" "async_frame d = [0x7E, 0xFF, 0x7D, 0x23] @ ppp_escape (d @ t) @ [0x7E]"
    using async_frame_split by blast
  then show ?thesis using length_ppp_escape [of "d @ t"] by simp
qed

lemma frame_run:
  assumes idle: "ppp_idle st" and wf: "pkt_wf (spkt st)" and clamp: "optClampMSS st = 0"
    and ok: "send_rc st (length (wire st)) \<noteq> SendErr" and d: "length d \<le> 1502"
  shows "\<exists>st'. ppp_bytes st (async_frame d) = Some st' \<and> ppp_idle st' \<and>
     wire st' = wire st @ [(sessionSocket (conn st), sess_pkt st d)] \<and>
     tty st' = tty st \<and> conn st' = conn st"
proof -
  obtain t where t: "length t = 2" "async_frame d = [0x7E, 0xFF, 0x7D, 0x23] @ ppp_escape (d @ t) @ [0x7E]"
    using async_frame_split by blast
  define st1 where "st1 = st\<lparr>PPPState := STATE_BUILDING_PACKET\<rparr>"
  define st2 where "st2 = stored st1 (d @ t)"
  have s1: "ppp_bytes st [0x7E, 0xFF, 0x7D, 0x23] = Some st1"
    using idle by (simp add: ppp_byte_def ppp_idle_def st1_def)
  have s2: "ppp_bytes st1 (ppp_escape (d @ t)) = Some st2"
    unfolding st2_def using idle wf d t(1) by (intro escape_run) (simp_all add: st1_def ppp_idle_def)
  have f: "wire st2 = wire st" "send_rc st2 = send_rc st" "conn st2 = conn st" "exited st2 = None"
    "PPPPacketSize st2 = length d + 2" "pkt_wf (spkt st2)" "optClampMSS st2 = 0" "tty st2 = tty st"
    "take (length d) (payload (spkt st2)) = d"
    "PPPState st2 = STATE_BUILDING_PACKET"
    "hdr_bytes ((spkt st2)\<lparr>plength := l\<rparr>) = hdr_bytes ((spkt st)\<lparr>plength := l\<rparr>)" for l
    using idle wf d t(1) clamp
    by (simp_all add: st2_def st1_def ppp_idle_def stored_def pkt_wf_def hdr_bytes_def)
  obtain st3 where s3: "sendSessionPacket st2 (int (length d)) = Some st3"
    "wire st3 = wire st @ [(sessionSocket (conn st), sess_pkt st d)]" "exited st3 = None"
    "st3 = st2\<lparr>spkt := (spkt st2)\<lparr>plength := htons (word_of_nat (length d))\<rparr>, wire := wire st3, exited := exited st3\<rparr>"
    using sendSessionPacket_ok [OF f(6), of "length d"] d f ok by (auto simp: sess_pkt_def)
  have "ppp_bytes st2 [0x7E] = Some (initPPP st3)"
    using f s3(1,3) by (simp add: ppp_byte_def build_byte_def)
  moreover have "ppp_idle (initPPP st3)" "wire (initPPP st3) = wire st3"
    "tty (initPPP st3) = tty st" "conn (initPPP st3) = conn st"
    using s3(3) f by (simp_all add: ppp_idle_def initPPP_def, (subst s3(4), simp)+)
  ultimately show ?thesis
    using s1 s2 s3(2) by (simp only: t(2) ppp_bytes_append) simp
qed

section \<open>Properties of the framing\<close>

text \<open>
  C32: The PPP reader does not depend on how \<open>read\<close> cuts the byte stream: its nested loops act
  as an automaton on single bytes, so the same bytes in any other division into non-empty
  buffers leave the same state, frames sent and exit status included.
\<close>

theorem asyncReadFromPPP_chunks:
  assumes "\<forall>b \<in> set bs. b \<noteq> [] \<and> length b \<le> READ_CHUNK" "\<forall>b \<in> set bs'. b \<noteq> [] \<and> length b \<le> READ_CHUNK"
    and "concat bs = concat bs'"
  shows "read_chunks st bs = ppp_bytes st (concat bs) \<and> read_chunks st bs' = read_chunks st bs"
  using assms by (simp add: read_chunks_bytes)

definition ex_conn :: conn where
  "ex_conn = \<lparr>discoverySocket = 3, sessionSocket = 4, myEth = Mac 2 0 0 0 0 1, peerEth = Mac 2 0 0 0 0 2,
     session_id = 0x0700, synchronous = False, hostUniq = Some [0x31, 0x32],
     cookie = mk_tag 0x0104 [7, 8, 9], relayId = \<lparr>tag_type = 0, tag_length = 0, tag_payload = []\<rparr>\<rparr>"

definition ex_packet :: "byte_buf \<Rightarrow> packet" where
  "ex_packet d = \<lparr>h_dest = Mac 2 0 0 0 0 1, h_source = Mac 2 0 0 0 0 2, h_proto = htons 0x8864, vertype = 0x11,
     pcode = 0, psession = 0x0700, plength = htons (word_of_nat (length d)),
     payload = d @ replicate (1508 - length d) 0\<rparr>"

definition ex_session :: pppoe where
  "ex_session = session_start \<lparr>conn = ex_conn, optClampMSS = 0, PPPState = STATE_DROP_PROTO, PPPPacketSize = 9,
     PPPXorValue = 5, spkt = ex_packet [], send_rc = (\<lambda>_. SendOk), write_rc = (\<lambda>_. None), wire = [], tty = [],
     errlog = [], exited = None\<rparr>"

lemma ex_session_idle: "ppp_idle ex_session" "pkt_wf (spkt ex_session)" "optClampMSS ex_session = 0"
  "send_rc ex_session n = SendOk" "wire ex_session = []" "tty ex_session = []" "write_rc ex_session n = None"
  "conn ex_session = ex_conn" "exited ex_session = None"
  by (simp_all add: ex_session_def session_start_def initPPP_def ppp_idle_def pkt_wf_def ex_packet_def)

lemma asyncReadFromPPP_chunks_witness:
  "read_chunks ex_session [[0x7E, 0xFF], [0x7D, 0x23, 0xC0]] = read_chunks ex_session [[0x7E], [0xFF, 0x7D], [0x23, 0xC0]]"
  using asyncReadFromPPP_chunks
    [of "[[0x7E], [0xFF, 0x7D], [0x23, 0xC0]]" "[[0x7E, 0xFF], [0x7D, 0x23, 0xC0]]" ex_session]
  by simp

text \<open>
  C8: Framing round trip. A session packet that \<open>asyncReadFromEth\<close> accepts is written to the PPP
  device as one frame; when that frame arrives at the PPP side of a client, in whatever pieces,
  \<open>asyncReadFromPPP\<close> sends exactly one session packet, with the same payload byte for byte
  (address, control and check sequence stripped), and is ready for the next frame. Both sides run without \<open>-m\<close>
  (\<open>optClampMSS = 0\<close>), which would rewrite the MSS option of a SYN on the way; the payload has at most 1502 bytes, the
  write to the device and the sending of the packet succeed, and no read returns more than \<open>READ_CHUNK\<close> bytes.
\<close>

theorem framing_roundtrip:
  assumes acc: "session_accepts (conn a) p len" and p: "pkt_wf p" "plen p \<le> 1502"
    and a: "optClampMSS a = 0" "write_rc a (length (tty a)) = None"
    and b: "ppp_idle b" "pkt_wf (spkt b)" "optClampMSS b = 0" "send_rc b (length (wire b)) \<noteq> SendErr"
    and cut: "concat bs = async_frame (window p)" "\<forall>x \<in> set bs. x \<noteq> [] \<and> length x \<le> READ_CHUNK"
  shows "\<exists>a' b'. asyncReadFromEth a (Recv p len) = Some a' \<and> tty a' = tty a @ [concat bs] \<and>
     read_chunks b bs = Some b' \<and> ppp_idle b' \<and>
     wire b' = wire b @ [(sessionSocket (conn b), sess_pkt b (window p))]"
proof -
  have w: "length (window p) = plen p" "rd_bytes (payload p) 0 (plen p) = Some (window p)"
    using p by (simp_all add: window_def rd_bytes_def pkt_wf_def)
  have "length (async_frame (window p)) \<le> 4096"
    using length_async_frame [of "window p"] w p by simp
  then have "asyncReadFromEth a (Recv p len) = Some (a\<lparr>tty := tty a @ [concat bs]\<rparr>)"
    using acc a w cut(1) by (simp add: asyncReadFromEth_def write_tty_def Let_def)
  moreover obtain b' where "read_chunks b bs = Some b'" "ppp_idle b'"
    "wire b' = wire b @ [(sessionSocket (conn b), sess_pkt b (window p))]"
    using frame_run [OF b, of "window p"] w p read_chunks_bytes [OF cut(2), of b] cut(1) by auto
  ultimately show ?thesis by simp
qed

lemma framing_roundtrip_witness:
  "\<exists>a' b'. asyncReadFromEth ex_session (Recv (ex_packet [0xC0, 0x21, 0x7E, 1]) 60) = Some a' \<and>
     read_chunks ex_session [async_frame [0xC0, 0x21, 0x7E, 1]] = Some b' \<and>
     wire b' = [(4, sess_pkt ex_session [0xC0, 0x21, 0x7E, 1])]"
proof -
  let ?p = "ex_packet [0xC0, 0x21, 0x7E, 1]"
  have p: "pkt_wf ?p" "plen ?p = 4" "window ?p = [0xC0, 0x21, 0x7E, 1]"
    by (simp_all add: ex_packet_def pkt_wf_def plen_def window_def)
  have acc: "session_accepts (conn ex_session) ?p 60"
    using p(2) by (simp add: session_accepts_def ex_session_idle ex_conn_def PPPOE_VER_def PPPOE_TYPE_def, simp add: ex_packet_def)
  have n: "async_frame [0xC0, 0x21, 0x7E, 1] \<noteq> []" "length (async_frame [0xC0, 0x21, 0x7E, 1]) \<le> 4096"
    using length_async_frame [of "[0xC0, 0x21, 0x7E, 1]"] by (simp add: async_frame_def Let_def, simp)
  show ?thesis
    using framing_roundtrip [OF acc p(1), of ex_session "[async_frame [0xC0, 0x21, 0x7E, 1]]"] p n
    by (auto simp: ex_session_idle ex_conn_def)
qed

text \<open>
  Transparency of the framing. What \<open>asyncReadFromEth\<close> writes starts and ends with a flag,
  has no flag, address byte or control character in between (the leading address byte apart), carries
  a check sequence that verifies, and never exceeds the 4096-byte buffer it is built in.
\<close>

theorem async_frame_transparent:
  assumes "length d \<le> ETH_JUMBO_LEN"
  shows "\<exists>inner fcs. async_frame d = [0x7E, 0xFF] @ inner @ [0x7E] \<and> (\<forall>c \<in> set inner. c \<noteq> 0x7E \<and> c \<noteq> 0xFF \<and> \<not> c < 0x20) \<and>
     length (async_frame d) \<le> 4096 \<and> inner = [0x7D, 0x23] @ ppp_escape (d @ fcs) \<and>
     pppFCS16 0xffff ([0xFF, 0x03] @ d @ fcs) = 0xf0b8"
proof -
  let ?f = "pppFCS16 0xffff ([0xFF, 0x03] @ d)"
  let ?t = "[lo8 (?f XOR 0xffff), hi8 (?f XOR 0xffff)]"
  have f: "async_frame d = [0x7E, 0xFF] @ ([0x7D, 0x23] @ ppp_escape (d @ ?t)) @ [0x7E]"
    unfolding async_frame_def Let_def by (simp only: ppp_escape_append pppFCS16_append append_assoc) simp
  have x: "c XOR 0x20 \<noteq> 0xFF \<and> \<not> c XOR 0x20 < 0x20" if "ppp_special c" for c
  proof -
    from that have "c = 0x7E \<or> c = 0xFF \<or> c = 0x7D \<or> unat c < 32" by (simp add: ppp_special_def word_less_nat_alt)
    moreover have "c XOR 0x20 \<noteq> 0xFF \<and> \<not> c XOR 0x20 < 0x20" if "unat c < 32"
    proof -
      have "unat (drop_bit 5 c) = 0" using that by (simp add: drop_bit_eq_div unat_div_distrib)
      then have "drop_bit 5 c = 0" by (simp only: unsigned_eq_0_iff)
      then have "\<not> bit c 5" by (simp add: bit_iff_odd_drop_bit)
      moreover have "(0x20 :: u8) = 2 ^ 5" by simp
      ultimately have "c AND 0x20 = 0" by (metis and_exp_eq_0_iff_not_bit)
      then have "c XOR 0x20 = c + 0x20" by (rule disjunctive_add_eq_xor [symmetric])
      moreover have "unat (c + 0x20) = unat c + 32" using that by (simp add: unat_word_ariths)
      ultimately show ?thesis using that by (simp add: word_less_nat_alt word_unat_eq_iff)
    qed
    ultimately show ?thesis by auto
  qed
  have e: "c \<noteq> 0x7E \<and> c \<noteq> 0xFF \<and> \<not> c < 0x20" if "c \<in> set (ppp_escape xs)" for c xs
    using that
  proof (induction xs)
    case (Cons y ys)
    then show ?case using x [of y] escaped_plain [of y]
      by (cases "ppp_special y") (auto simp: ppp_special_def)
  qed simp
  have "pppFCS16 0xffff (([0xFF, 0x03] @ d) @ ?t) = 0xf0b8"
    using pppFCS16_residue [of "0xffff" "[0xFF, 0x03] @ d"] by simp
  then show ?thesis
    using f e length_async_frame [of d] assms
    by (intro exI [of _ "[0x7D, 0x23] @ ppp_escape (d @ ?t)"] exI [of _ ?t]) (auto simp only: append_assoc, auto)
qed

lemma async_frame_transparent_witness:
  "\<exists>inner fcs. async_frame [0x7E, 0x11] = [0x7E, 0xFF] @ inner @ [0x7E] \<and>
     (\<forall>c \<in> set inner. c \<noteq> 0x7E \<and> c \<noteq> 0xFF \<and> \<not> c < 0x20) \<and>
     pppFCS16 0xffff ([0xFF, 0x03] @ [0x7E, 0x11] @ fcs) = 0xf0b8"
  using async_frame_transparent [of "[0x7E, 0x11]"] by auto

section \<open>The terminating PADT\<close>

definition saved_ok :: "ptag \<Rightarrow> bool" where
  "saved_ok t \<longleftrightarrow> tag_type t = 0 \<or> unat (ntohs (tag_length t)) \<le> length (tag_payload t)"

text \<open>
  What discovery leaves in a connection: saved tags are as long as they say, and a Host-Uniq
  value has at most the 64 bytes \<open>main\<close> accepts with \<open>-W\<close>; with \<open>-U\<close> it is the hexadecimal process id.
\<close>

definition conn_ok :: "conn \<Rightarrow> bool" where
  "conn_ok c \<longleftrightarrow> saved_ok (cookie c) \<and> saved_ok (relayId c) \<and> (\<forall>h. hostUniq c = Some h \<longrightarrow> length h \<le> 64)"

definition saved_bytes :: "ptag \<Rightarrow> byte_buf" where
  "saved_bytes t = (if tag_type t = 0 then [] else take (unat (ntohs (tag_length t)) + 4) (tag_bytes t))"

definition host_bytes :: "byte_buf option \<Rightarrow> byte_buf" where
  "host_bytes hu = (case hu of None \<Rightarrow> [] | Some h \<Rightarrow> enc_tag TAG_HOST_UNIQ h)"

definition err_bytes :: "byte_buf option \<Rightarrow> byte_buf" where
  "err_bytes msg = (case msg of None \<Rightarrow> [] | Some m \<Rightarrow> enc_tag TAG_GENERIC_ERROR m)"

definition padt_body :: "conn \<Rightarrow> byte_buf option \<Rightarrow> byte_buf" where
  "padt_body c msg = host_bytes (hostUniq c) @ err_bytes msg @ saved_bytes (cookie c) @ saved_bytes (relayId c)"

definition padt_frame :: "conn \<Rightarrow> byte_buf option \<Rightarrow> byte_buf" where
  "padt_frame c msg = mac_bytes (peerEth c) @ mac_bytes (myEth c) @ be16_bytes 0x8863 @ [0x11, 0xA7] @
     le16_bytes (session_id c) @ be16_bytes (word_of_nat (length (padt_body c msg))) @ padt_body c msg"

text \<open>The buffer under construction: the tags so far, zeroes behind them.\<close>

definition padt_buf :: "byte_buf \<Rightarrow> byte_buf \<times> nat" where
  "padt_buf b = (b @ replicate (1508 - length b) 0, length b)"

lemma put_tag_buf:
  assumes "n + 4 \<le> length (tag_bytes t)" "checked \<or> length b + n + 4 \<le> 1508"
  shows "put_tag checked t n (padt_buf b) =
     (if checked \<and> length b + n + 4 > 1502 then Some None
      else Some (Some (padt_buf (b @ take (n + 4) (tag_bytes t)))))"
  using assms by (auto simp: put_tag_def padt_buf_def rd_bytes_def wr_bytes_def)

lemma tag_bytes_enc:
  "take (length d + 4) (tag_bytes \<lparr>tag_type = htons ty, tag_length = htons (word_of_nat (length d)), tag_payload = d @ z\<rparr>)
     = enc_tag ty d"
  by (simp add: tag_bytes_def enc_tag_def le16_htons)

lemma host_uniq_tag_buf:
  assumes "\<forall>h. hu = Some h \<longrightarrow> length h \<le> 64"
  shows "host_uniq_tag hu (padt_buf []) = Some (Some (padt_buf (host_bytes hu)))"
proof (cases hu)
  case (Some h)
  with assms have "length h \<le> 64" by simp
  then show ?thesis
    using Some tag_bytes_enc [of h "TAG_HOST_UNIQ" "[]"]
    by (simp add: host_uniq_tag_def host_bytes_def, subst put_tag_buf) (simp_all add: tag_bytes_def)
qed (simp add: host_uniq_tag_def host_bytes_def)

lemma error_tag_buf:
  assumes "\<forall>m. msg = Some m \<longrightarrow> length m \<le> 511" "length b \<le> 68"
  shows "error_tag msg (padt_buf b) = Some (Some (padt_buf (b @ err_bytes msg)))"
proof (cases msg)
  case (Some m)
  with assms have "length m \<le> 511" by simp
  then show ?thesis
    using Some assms(2) tag_bytes_enc [of m "TAG_GENERIC_ERROR" "[0]"]
    by (simp add: error_tag_def err_bytes_def, subst put_tag_buf) (simp_all add: tag_bytes_def)
qed (simp add: error_tag_def err_bytes_def)

lemma saved_tag_buf:
  assumes "saved_ok t"
  shows "saved_tag t (padt_buf b) =
     (if tag_type t \<noteq> 0 \<and> length (b @ saved_bytes t) > 1502 then Some None else Some (Some (padt_buf (b @ saved_bytes t))))"
proof (cases "tag_type t = 0")
  case False
  then have "unat (ntohs (tag_length t)) + 4 \<le> length (tag_bytes t)"
    using assms by (simp add: saved_ok_def tag_bytes_def)
  then show ?thesis using False by (simp add: saved_tag_def put_tag_buf saved_bytes_def)
qed (simp add: saved_tag_def saved_bytes_def)

text \<open>Whether \<open>CHECK_ROOM\<close> lets the cookie and the relay id through.\<close>

definition padt_fits :: "conn \<Rightarrow> byte_buf option \<Rightarrow> bool" where
  "padt_fits c msg \<longleftrightarrow> (tag_type (cookie c) = 0 \<and> tag_type (relayId c) = 0) \<or> length (padt_body c msg) \<le> 1502"

lemma length_small_body: "\<forall>h. hu = Some h \<longrightarrow> length h \<le> 64 \<Longrightarrow> length (host_bytes hu) \<le> 68"
  "\<forall>m. msg = Some m \<longrightarrow> length m \<le> 511 \<Longrightarrow> length (err_bytes msg) \<le> 515"
  by (auto simp: host_bytes_def err_bytes_def split: option.splits)

lemma padt_cookie_relay:
  assumes c: "conn_ok c" and m: "\<forall>m. msg = Some m \<longrightarrow> length m \<le> 511"
  defines "b \<equiv> host_bytes (hostUniq c) @ err_bytes msg"
  shows "do { r \<leftarrow> saved_tag (cookie c) (padt_buf b);
              case r of None \<Rightarrow> Some x | Some bc \<Rightarrow> do {
              r \<leftarrow> saved_tag (relayId c) bc;
              case r of None \<Rightarrow> Some x | Some bc \<Rightarrow> f bc } }
         = (if padt_fits c msg then f (padt_buf (padt_body c msg)) else Some x)"
proof -
  have s: "saved_ok (cookie c)" "saved_ok (relayId c)" using c by (simp_all add: conn_ok_def)
  have z: "tag_type t = 0 \<Longrightarrow> saved_bytes t = []" for t by (simp add: saved_bytes_def)
  show ?thesis
    using z [of "cookie c"] z [of "relayId c"]
    by (auto simp: saved_tag_buf [OF s(1)] saved_tag_buf [OF s(2)] padt_fits_def padt_body_def b_def)
qed

lemma sendPADT_ok:
  assumes c: "conn_ok (conn st)" and m: "\<forall>m. msg = Some m \<longrightarrow> length m \<le> 511"
    and on: "session_id (conn st) \<noteq> 0" "\<not> discoverySocket (conn st) < 0"
  shows "sendPADT st msg = Some (st\<lparr>conn := (conn st)\<lparr>session_id := 0\<rparr>,
     wire := wire st @ (if padt_fits (conn st) msg then [(discoverySocket (conn st), padt_frame (conn st) msg)] else [])\<rparr>)"
proof -
  define cn where "cn = conn st"
  define st0 where "st0 = st\<lparr>conn := cn\<lparr>session_id := 0\<rparr>\<rparr>"
  define p where "p = \<lparr>h_dest = peerEth cn, h_source = myEth cn, h_proto = htons 0x8863, vertype = PPPOE_VER_TYPE 1 1,
     pcode = CODE_PADT, psession = session_id cn, plength = 0, payload = replicate ETH_JUMBO_LEN 0\<rparr>"
  define fin where "fin bc = (case bc of (buf, cursor) \<Rightarrow> do {
     (rc, st) \<leftarrow> if_sendPacket st0 (discoverySocket cn) (p\<lparr>payload := buf, plength := htons (word_of_nat cursor)\<rparr>)
       (int (unat (word_of_nat cursor :: u16)) + int HDR_SIZE);
     Some st })" for bc
  have l: "length (host_bytes (hostUniq cn)) \<le> 68" "length (err_bytes msg) \<le> 515"
    using c m by (auto simp: conn_ok_def cn_def intro: length_small_body)
  have h: "host_uniq_tag (hostUniq cn) (replicate 1508 0, 0) = Some (Some (padt_buf (host_bytes (hostUniq cn))))"
    using host_uniq_tag_buf [of "hostUniq cn"] c by (simp add: conn_ok_def cn_def padt_buf_def)
  have e: "error_tag msg (padt_buf (host_bytes (hostUniq cn))) = Some (Some (padt_buf (host_bytes (hostUniq cn) @ err_bytes msg)))"
    by (rule error_tag_buf [OF m l(1)])
  have "sendPADT st msg = do { r \<leftarrow> saved_tag (cookie cn) (padt_buf (host_bytes (hostUniq cn) @ err_bytes msg));
              case r of None \<Rightarrow> Some st0 | Some bc \<Rightarrow> do {
              r \<leftarrow> saved_tag (relayId cn) bc;
              case r of None \<Rightarrow> Some st0 | Some bc \<Rightarrow> fin bc } }"
    using on h e by (simp add: sendPADT_def cn_def [symmetric] st0_def [symmetric] p_def [symmetric] Let_def, simp add: p_def fin_def [abs_def])
  also have "\<dots> = (if padt_fits cn msg then fin (padt_buf (padt_body cn msg)) else Some st0)"
    by (rule padt_cookie_relay) (use c m in \<open>simp_all add: cn_def\<close>)
  finally have run: "sendPADT st msg = (if padt_fits cn msg then fin (padt_buf (padt_body cn msg)) else Some st0)" .
  have "fin (padt_buf (padt_body cn msg)) = Some (st0\<lparr>wire := wire st @ [(discoverySocket cn, padt_frame cn msg)]\<rparr>)"
    if f: "padt_fits cn msg"
  proof -
    have b: "length (padt_body cn msg) \<le> 1502"
      using f l by (auto simp: padt_fits_def padt_body_def saved_bytes_def)
    let ?p = "p\<lparr>payload := fst (padt_buf (padt_body cn msg)), plength := htons (word_of_nat (length (padt_body cn msg)))\<rparr>"
    have sz: "sized ?p (int (length (padt_body cn msg)) + int HDR_SIZE)"
      using b by (simp add: sized_def pkt_wf_def plen_def padt_buf_def)
    have "frame_of ?p = padt_frame cn msg"
      using b by (simp add: frame_of_def hdr_bytes_def window_def plen_def p_def padt_frame_def padt_buf_def le16_htons
                            PPPOE_VER_TYPE_def)
    moreover have "uint (word_of_nat (length (padt_body cn msg)) :: u16) = int (length (padt_body cn msg))"
      using b by (simp add: unsigned_of_nat take_bit_nat_eq_self)
    ultimately show ?thesis
      using b if_sendPacket_ok [OF sz, of st0 "discoverySocket cn"]
      by (simp add: fin_def padt_buf_def st0_def)
  qed
  then show ?thesis using run by (simp add: cn_def st0_def)
qed

lemma sendPADT_off:
  "session_id (conn st) = 0 \<or> discoverySocket (conn st) < 0 \<Longrightarrow> sendPADT st msg = Some st"
  by (auto simp: sendPADT_def)

section \<open>The session never leaves defined behaviour\<close>

definition padts :: "pppoe \<Rightarrow> (int \<times> byte_buf) list" where
  "padts st = filter (\<lambda>f. fst f = discoverySocket (conn st)) (wire st)"

definition sess_inv :: "pppoe \<Rightarrow> bool" where
  "sess_inv st \<longleftrightarrow> pkt_wf (spkt st) \<and> PPPPacketSize st \<le> 1504 \<and> optClampMSS st = 0 \<and> conn_ok (conn st) \<and>
     discoverySocket (conn st) \<noteq> sessionSocket (conn st) \<and> length (padts st) \<le> 1 \<and>
     (session_id (conn st) \<noteq> 0 \<longrightarrow> padts st = [])"

text \<open>Each operation is total on the invariant and keeps it; \<open>keeps f\<close> says so of \<open>f st\<close>.\<close>

definition keeps :: "pppoe option \<Rightarrow> bool" where
  "keeps r \<longleftrightarrow> (case r of None \<Rightarrow> False | Some st \<Rightarrow> sess_inv st)"

lemma keeps_Some [simp]: "keeps (Some st) = sess_inv st" by (simp add: keeps_def)

lemma keeps_bind: "keeps r \<Longrightarrow> (\<And>st. sess_inv st \<Longrightarrow> keeps (f st)) \<Longrightarrow> keeps (Option.bind r f)"
  by (cases r) (simp_all add: keeps_def)

lemma inv_exit [simp]: "sess_inv (exit_with n st) = sess_inv st"
  by (simp add: sess_inv_def exit_with_def padts_def)

lemma inv_ppp [simp]:
  "sess_inv (st\<lparr>PPPState := s\<rparr>) = sess_inv st" "sess_inv (st\<lparr>PPPXorValue := x\<rparr>) = sess_inv st"
  "sess_inv (st\<lparr>tty := t\<rparr>) = sess_inv st" "sess_inv (st\<lparr>errlog := l\<rparr>) = sess_inv st"
  by (simp_all add: sess_inv_def padts_def)

lemma inv_initPPP [simp]: "sess_inv st \<Longrightarrow> sess_inv (initPPP st)"
  by (simp add: sess_inv_def padts_def initPPP_def)

lemma keeps_sendPADT:
  assumes "sess_inv st" "\<forall>m. msg = Some m \<longrightarrow> length m \<le> 511"
  shows "keeps (sendPADT st msg)"
proof (cases "session_id (conn st) = 0 \<or> discoverySocket (conn st) < 0")
  case True
  then show ?thesis using assms by (simp add: sendPADT_off)
next
  case False
  then show ?thesis
    using assms by (subst sendPADT_ok) (auto simp: sess_inv_def padts_def conn_ok_def)
qed

lemma keeps_sendPADTf: "sess_inv st \<Longrightarrow> keeps (sendPADTf st m)"
  by (simp add: sendPADTf_def keeps_sendPADT)

lemma keeps_fatal:
  "sess_inv st \<Longrightarrow> keeps (rp_fatal st m)" "sess_inv st \<Longrightarrow> keeps (fatalSys st m)" "sess_inv st \<Longrightarrow> keeps (sigPADT st n)"
  unfolding rp_fatal_def fatalSys_def sigPADT_def by (rule keeps_bind [OF keeps_sendPADTf]; simp)+

lemma keeps_sendSessionPacket:
  assumes "sess_inv st" "n \<le> ETH_JUMBO_LEN"
  shows "keeps (sendSessionPacket st (int n))"
proof -
  have "pkt_wf (spkt st)" "optClampMSS st = 0" using assms(1) by (simp_all add: sess_inv_def)
  from sendSessionPacket_ok [OF this(1) assms(2) this(2)] obtain st' where
    s: "sendSessionPacket st (int n) = Some st'"
    "wire st' = wire st @ [(sessionSocket (conn st), sess_pkt st (take n (payload (spkt st))))]"
    "st' = st\<lparr>spkt := (spkt st)\<lparr>plength := htons (word_of_nat n)\<rparr>, wire := wire st', exited := exited st'\<rparr>" by blast
  have f: "conn st' = conn st" "PPPPacketSize st' = PPPPacketSize st" "optClampMSS st' = optClampMSS st"
    "payload (spkt st') = payload (spkt st)"
    by (subst s(3), simp)+
  show ?thesis
    using assms(1) s(1,2) f by (simp add: sess_inv_def padts_def pkt_wf_def)
qed

lemma keeps_build_byte:
  assumes "sess_inv st"
  shows "keeps (build_byte st c)"
proof -
  have wf: "length (payload (spkt st)) = 1508" "PPPPacketSize st \<le> 1504" using assms by (simp_all add: sess_inv_def pkt_wf_def)
  have "\<not> PPPPacketSize st < 2 \<Longrightarrow> keeps (sendSessionPacket st (int (PPPPacketSize st) - 2))"
    using keeps_sendSessionPacket [OF assms, of "PPPPacketSize st - 2"] wf by (simp add: of_nat_diff)
  moreover have "arr_upd (payload (spkt st)) (PPPPacketSize st) (\<lambda>_. c XOR PPPXorValue st)
      = Some ((payload (spkt st))[PPPPacketSize st := c XOR PPPXorValue st])"
    using wf by (simp add: arr_upd_def)
  moreover have "PPPPacketSize st < 1504 \<Longrightarrow> sess_inv (st\<lparr>spkt := (spkt st)\<lparr>payload :=
      (payload (spkt st))[PPPPacketSize st := c XOR PPPXorValue st]\<rparr>, PPPPacketSize := PPPPacketSize st + 1, PPPXorValue := 0\<rparr>)"
    using assms by (simp add: sess_inv_def padts_def pkt_wf_def)
  ultimately show ?thesis
    using assms by (auto simp: build_byte_def keeps_fatal intro!: keeps_bind)
qed

lemma keeps_ppp_bytes: "sess_inv st \<Longrightarrow> keeps (ppp_bytes st bs)"
proof (induction bs arbitrary: st)
  case (Cons c cs)
  then have "keeps (ppp_byte st c)" by (auto simp: ppp_byte_def keeps_build_byte split: ppp_state.splits)
  then show ?case by (auto intro: keeps_bind Cons.IH)
qed simp

lemma keeps_asyncReadFromPPP:
  assumes "sess_inv st" "\<forall>bs. r = Read bs \<longrightarrow> length bs \<le> READ_CHUNK"
  shows "keeps (asyncReadFromPPP st r)"
proof (cases r)
  case (Read bs)
  then show ?thesis
    using assms by (auto simp: asyncReadFromPPP_def async_loop_bytes keeps_ppp_bytes msg_bytes_def
        intro!: keeps_bind [OF keeps_sendPADT])
qed (use assms in \<open>simp add: asyncReadFromPPP_def keeps_fatal\<close>)

lemma keeps_syncReadFromPPP:
  assumes "sess_inv st" "\<forall>bs. r = Read bs \<longrightarrow> length bs \<le> 1504"
  shows "keeps (syncReadFromPPP st r)"
proof (cases r)
  case (Read bs)
  with assms have l: "length bs \<le> 1504" by simp
  have wf: "length (payload (spkt st)) = 1508" using assms(1) by (simp add: sess_inv_def pkt_wf_def)
  define st1 where "st1 = st\<lparr>spkt := (spkt st)\<lparr>payload :=
     drop 2 bs @ drop (length bs - 2) (payload (spkt st))\<rparr>\<rparr>"
  have i: "sess_inv st1"
    using assms(1) l wf by (simp add: st1_def sess_inv_def padts_def pkt_wf_def)
  have "syncReadFromPPP st r =
     (if bs = [] then do { st \<leftarrow> sendPADT st1 (Some (msg_bytes ''RP-PPPoE: EOF in syncReadFromPPP'')); Some (exit_with 0 st) }
      else if length bs < 2 then rp_fatal st1 (msg_bytes ''too few characters read from PPP (syncReadFromPPP)'')
      else sendSessionPacket st1 (int (length bs) - 2))"
    using Read l wf by (auto simp: syncReadFromPPP_def wr_bytes_def st1_def)
  moreover have "\<not> length bs < 2 \<Longrightarrow> keeps (sendSessionPacket st1 (int (length bs) - 2))"
    using keeps_sendSessionPacket [OF i, of "length bs - 2"] l by (simp add: of_nat_diff)
  ultimately show ?thesis
    using i by (auto simp: keeps_fatal msg_bytes_def intro!: keeps_bind [OF keeps_sendPADT])
qed (use assms in \<open>simp add: syncReadFromPPP_def keeps_fatal\<close>)

definition recv_ok :: "recv_result \<Rightarrow> bool" where
  "recv_ok r \<longleftrightarrow> (case r of RecvErr \<Rightarrow> True | Recv p len \<Rightarrow> pkt_wf p \<and> len \<le> 1528)"

lemma keeps_write_tty: "sess_inv st \<Longrightarrow> keeps (write_tty st bs)"
  by (auto simp: write_tty_def Let_def keeps_fatal split: option.splits)

lemma accepted_window:
  assumes "recv_ok (Recv p len)" "session_accepts c p len"
  shows "plen p \<le> 1508" "rd_bytes (payload p) 0 (plen p) = Some (window p)"
proof -
  show n: "plen p \<le> 1508" using assms by (simp add: recv_ok_def session_accepts_def)
  then show "rd_bytes (payload p) 0 (plen p) = Some (window p)"
    using assms by (simp add: recv_ok_def rd_bytes_def window_def pkt_wf_def)
qed

lemma keeps_eth:
  assumes "sess_inv st" "recv_ok r"
  shows "keeps (asyncReadFromEth st r)" "keeps (syncReadFromEth st r)"
proof -
  have c: "optClampMSS st = 0" using assms(1) by (simp add: sess_inv_def)
  have "keeps (asyncReadFromEth st (Recv p len)) \<and> keeps (syncReadFromEth st (Recv p len))"
    if ok: "recv_ok (Recv p len)" for p len
  proof (cases "session_accepts (conn st) p len")
    case True
    have "length (window p) \<le> 1508" using accepted_window [OF ok True] by (simp add: window_def)
    then have "length (async_frame (window p)) \<le> 4096" using length_async_frame [of "window p"] by simp
    then show ?thesis
      using True c accepted_window [OF ok True] keeps_write_tty [OF assms(1)]
      by (simp add: asyncReadFromEth_def syncReadFromEth_def Let_def)
  qed (use assms(1) in \<open>simp add: asyncReadFromEth_def syncReadFromEth_def\<close>)
  then show "keeps (asyncReadFromEth st r)" "keeps (syncReadFromEth st r)"
    using assms by (cases r; simp add: asyncReadFromEth_def syncReadFromEth_def)+
qed

lemma keeps_sessionDiscoveryPacket:
  assumes "sess_inv st" "recv_ok r"
  shows "keeps (sessionDiscoveryPacket st r)"
proof (cases r)
  case (Recv p len)
  then have "pkt_wf p" using assms(2) by (simp add: recv_ok_def)
  then obtain rc log where "parsePacket p parseLogErrs (errlog st) = Some (rc, log)"
    using parsePacket_eq [of p parseLogErrs "errlog st"] by (auto split: if_splits)
  then show ?thesis
    using assms(1) Recv
    by (auto simp: sessionDiscoveryPacket_def msg_bytes_def intro!: keeps_bind [OF keeps_sendPADT])
qed (use assms in \<open>simp add: sessionDiscoveryPacket_def\<close>)

lemma keeps_unless_exited:
  assumes "sess_inv st" "\<And>x. r = Some x \<Longrightarrow> keeps (f st x)"
  shows "keeps (unless_exited f r st)"
  using assms by (auto simp: unless_exited_def split: option.splits)

definition event_ok :: "pppoe \<Rightarrow> session_event \<Rightarrow> bool" where
  "event_ok st ev \<longleftrightarrow> (case ev of
     Ready ppp sess disc \<Rightarrow>
       (\<forall>bs. ppp = Some (Read bs) \<longrightarrow> length bs \<le> (if synchronous (conn st) then 1504 else 4096)) \<and>
       (\<forall>r. sess = Some r \<longrightarrow> recv_ok r) \<and> (\<forall>r. disc = Some r \<longrightarrow> recv_ok r)
   | _ \<Rightarrow> True)"

lemma keeps_session_step:
  assumes i: "sess_inv st" and ev: "event_ok st ev"
  shows "keeps (session_step st ev)"
proof (cases ev)
  case Timeout
  then show ?thesis using i by (auto simp: session_step_def msg_bytes_def intro!: keeps_bind [OF keeps_sendPADT])
next
  case (Ready ppp sess disc)
  have p: "keeps (unless_exited (if synchronous (conn st) then syncReadFromPPP else asyncReadFromPPP) ppp st)"
    using i ev Ready
    by (intro keeps_unless_exited) (auto simp: event_ok_def intro: keeps_asyncReadFromPPP keeps_syncReadFromPPP)
  have e: "keeps (unless_exited (if synchronous (conn s) then syncReadFromEth else asyncReadFromEth) sess s)"
    if "sess_inv s" for s
    using that ev Ready by (intro keeps_unless_exited) (auto simp: event_ok_def keeps_eth)
  have d: "keeps (if discoverySocket (conn s) \<ge> 0 then unless_exited sessionDiscoveryPacket disc s else Some s)"
    if "sess_inv s" for s
    using that ev Ready by (auto simp: event_ok_def intro!: keeps_unless_exited keeps_sessionDiscoveryPacket)
  show ?thesis unfolding session_step_def Ready session_event.case
    by (intro keeps_bind p e d)
qed (use i in \<open>simp_all add: session_step_def keeps_fatal\<close>)

text \<open>The states of a running session, from what discovery hands over.\<close>

inductive session_reach :: "pppoe \<Rightarrow> bool" where
  start: "conn_ok (conn st) \<Longrightarrow> discoverySocket (conn st) \<noteq> sessionSocket (conn st) \<Longrightarrow> optClampMSS st = 0 \<Longrightarrow>
          pkt_wf (spkt st) \<Longrightarrow> wire st = [] \<Longrightarrow> exited st = None \<Longrightarrow> session_reach (session_start st)"
| step: "session_reach st \<Longrightarrow> exited st = None \<Longrightarrow> event_ok st ev \<Longrightarrow> session_step st ev = Some st' \<Longrightarrow> session_reach st'"

lemma session_reach_inv: "session_reach st \<Longrightarrow> sess_inv st"
proof (induction rule: session_reach.induct)
  case (start st)
  then show ?case by (simp add: session_start_def sess_inv_def padts_def initPPP_def pkt_wf_def)
next
  case (step st ev st')
  then show ?case using keeps_session_step [of st ev] by simp
qed

lemma ex_conn_ok: "conn_ok ex_conn"
  by (simp add: conn_ok_def saved_ok_def ex_conn_def mk_tag_def)

lemma ex_session_reach: "session_reach ex_session"
  unfolding ex_session_def
  by (rule session_reach.start) (simp_all add: ex_conn_ok ex_packet_def pkt_wf_def, simp add: ex_conn_def)

text \<open>
  C7: Memory safety of the session phase. From what discovery hands over, whatever is read from
  the PPP device, received from the network, or signalled, the next round of \<open>session\<close> is carried out
  without an access outside any buffer, and over the whole life of the process at most one PADT is
  sent, after which the session number is cleared. This is the client without \<open>-m\<close>: \<open>session_reach.start\<close> asks for
  \<open>optClampMSS = 0\<close>, because with it the checksum of a short TCP segment is computed beyond the packet
  (\<open>clampMSS_overreads\<close>). It starts from a connection as \<open>conn_ok\<close> describes it (Host-Uniq of at most 64 bytes, saved tags as long
  as they say) with two different sockets; \<open>event_ok\<close> says that \<open>read\<close> and \<open>recv\<close> return no more than they were asked for.
\<close>

theorem session_never_faults:
  assumes "session_reach st" "exited st = None" "event_ok st ev"
  shows "\<exists>st'. session_step st ev = Some st' \<and> session_reach st' \<and> length (padts st') \<le> 1 \<and>
     (padts st' \<noteq> [] \<longrightarrow> session_id (conn st') = 0) \<and> pkt_wf (spkt st') \<and> PPPPacketSize st' \<le> 1504"
proof -
  have "keeps (session_step st ev)" using assms by (intro keeps_session_step session_reach_inv)
  then obtain st' where s: "session_step st ev = Some st'" by (auto simp: keeps_def split: option.splits)
  then have r: "session_reach st'" by (rule session_reach.step [OF assms])
  from session_reach_inv [OF this] have "sess_inv st'" .
  then show ?thesis using s r by (auto simp: sess_inv_def)
qed

lemma session_never_faults_witness:
  "\<exists>st'. session_step ex_session (Ready (Some (Read [0x7E, 0xFF])) (Some RecvErr) None) = Some st' \<and> length (padts st') \<le> 1"
  using session_never_faults [OF ex_session_reach, of "Ready (Some (Read [0x7E, 0xFF])) (Some RecvErr) None"]
  by (auto simp: event_ok_def recv_ok_def ex_session_idle ex_conn_def)

text \<open>
  C33: The PADT. With a session and a discovery socket, \<open>sendPADT\<close> clears the session number and sends
  one PADT to the peer that carries, in this order, the Host-Uniq tag, the error message, the cookie
  and the relay id; it is left out only when the cookie or relay id would not fit. Without a session
  or socket it does nothing, so a second call never sends.
\<close>

theorem sendPADT_frame:
  assumes "conn_ok (conn st)" "\<forall>m. msg = Some m \<longrightarrow> length m \<le> 511"
  shows "\<exists>st'. sendPADT st msg = Some st' \<and> sendPADT st' msg' = Some st' \<and>
     (if session_id (conn st) = 0 \<or> discoverySocket (conn st) < 0 then st' = st
      else session_id (conn st') = 0 \<and>
        wire st' = wire st @ (if padt_fits (conn st) msg then [(discoverySocket (conn st), padt_frame (conn st) msg)] else []))"
  using sendPADT_ok [OF assms] by (cases "session_id (conn st) = 0 \<or> discoverySocket (conn st) < 0") (auto simp: sendPADT_off)


lemma sendPADT_frame_witness:
  "\<exists>st'. sendPADT ex_session (Some [0x62, 0x79, 0x65]) = Some st' \<and> sendPADT st' None = Some st' \<and>
     wire st' = [(3, padt_frame ex_conn (Some [0x62, 0x79, 0x65]))]"
proof -
  have "padt_fits ex_conn (Some [0x62, 0x79, 0x65])"
    by (simp add: padt_fits_def padt_body_def ex_conn_def mk_tag_def host_bytes_def err_bytes_def saved_bytes_def
        tag_bytes_def)
  moreover have "session_id ex_conn \<noteq> 0" "\<not> discoverySocket ex_conn < 0" "discoverySocket ex_conn = 3"
    by (simp_all add: ex_conn_def)
  ultimately show ?thesis
    using sendPADT_frame [of ex_session "Some [0x62, 0x79, 0x65]" None] ex_conn_ok
    by (auto simp: ex_session_idle)
qed

end
