(* ===== verification/Addr_Pool.thy ===== *)
theory Addr_Pool
  imports Prelude
begin

text \<open>
  The pool of IP addresses \<open>xl2tpd\<close> hands out to its peers (\<open>aaa.c\<close>): the hash table
  \<open>uaddr\<close> of addresses in use and the search for a free address in the configured ranges. Addresses in the
  table are in host order; those the callers pass and get are in network order. A chain of \<open>addr_ent\<close> is the list
  of its addresses. Memory for new entries is assumed to be available, as the code does.
\<close>

section \<open>The table (aaa.c)\<close>

abbreviation (input) "ADDR_HASH_SIZE \<equiv> (256 :: nat)"

type_synonym addr_table = "u32 list list"

definition swap32 :: "u32 \<Rightarrow> u32" where
  "swap32 v = le32_of (ucast (drop_bit 24 v)) (ucast (drop_bit 16 v)) (ucast (drop_bit 8 v)) (ucast v)"

definition ntohl :: "u32 \<Rightarrow> u32" where "ntohl v = swap32 v"
definition htonl :: "u32 \<Rightarrow> u32" where "htonl v = swap32 v"

definition init_addr :: addr_table where
  "init_addr = replicate ADDR_HASH_SIZE []"

definition slot_of :: "u32 \<Rightarrow> nat" where "slot_of addr = unat addr mod ADDR_HASH_SIZE"

fun chain_has :: "u32 list \<Rightarrow> u32 \<Rightarrow> bool" where
  "chain_has [] addr = False"
| "chain_has (a # as) addr = (if a = addr then True else chain_has as addr)"

definition ip_used :: "addr_table \<Rightarrow> u32 \<Rightarrow> bool" where
  "ip_used t addr = chain_has (t ! slot_of addr) addr"

definition reserve_addr :: "addr_table \<Rightarrow> u32 \<Rightarrow> addr_table" where
  "reserve_addr t addr =
     (let addr = ntohl addr
      in if ip_used t addr then t else t[slot_of addr := addr # t ! slot_of addr])"

fun chain_remove :: "u32 list \<Rightarrow> u32 \<Rightarrow> u32 list" where
  "chain_remove [] addr = []"
| "chain_remove (a # as) addr = (if a = addr then chain_remove as addr else a # chain_remove as addr)"

definition unreserve_addr :: "addr_table \<Rightarrow> u32 \<Rightarrow> addr_table" where
  "unreserve_addr t addr =
     (let addr = ntohl addr in t[slot_of addr := chain_remove (t ! slot_of addr) addr])"

section \<open>The search (aaa.c, file.h)\<close>

text \<open>\<open>r_allow\<close> is \<open>sense == SENSE_ALLOW\<close>; the list of ranges is \<open>ipr\<close> with its successors.\<close>

record iprange =
  r_start :: u32
  r_end :: u32
  r_allow :: bool

fun later_sense :: "bool \<Rightarrow> u32 \<Rightarrow> iprange list \<Rightarrow> bool" where
  "later_sense status x [] = status"
| "later_sense status x (r # rs) =
     later_sense (if x \<ge> ntohl (r_start r) \<and> x \<le> ntohl (r_end r) then r_allow r else status) x rs"

text \<open>
  The loop over one range: \<open>x++\<close> wraps around, so for a range that ends at 255.255.255.255 the loop
  condition never fails. \<open>None\<close> is a search that never ends, \<open>Some None\<close> one that finds nothing.
\<close>

partial_function (option) scan_range :: "addr_table \<Rightarrow> iprange list \<Rightarrow> u32 \<Rightarrow> u32 \<Rightarrow> u32 option option" where
  "scan_range t rs x z =
     (if x \<le> z then
        (if \<not> ip_used t x \<and> later_sense True x rs then Some (Some (htonl x)) else scan_range t rs (x + 1) z)
      else Some None)"

fun get_addr :: "addr_table \<Rightarrow> iprange list \<Rightarrow> u32 option" where
  "get_addr t [] = Some 0"
| "get_addr t (r # rs) =
     (if r_allow r then do {
        y \<leftarrow> scan_range t rs (ntohl (r_start r)) (ntohl (r_end r));
        case y of Some y \<Rightarrow> Some y | None \<Rightarrow> get_addr t rs }
      else get_addr t rs)"

text \<open>
  What the callers do for a call (\<open>control.c\<close>, \<open>get_local_addr\<close> and the case \<open>ICCN\<close> of
  \<open>control_finish\<close>): the address is taken out of the pool when there is one.
\<close>

definition assign_addr :: "addr_table \<Rightarrow> iprange list \<Rightarrow> (u32 option \<times> addr_table) option" where
  "assign_addr t rs = do {
     y \<leftarrow> get_addr t rs;
     if y = 0 then Some (None, t) else Some (Some y, reserve_addr t y) }"

section \<open>The table is a set\<close>

lemma swap32_swap32 [simp]: "swap32 (swap32 v) = v"
proof -
  have *: "ucast (le32_of a b c d) = a" "ucast (drop_bit 8 (le32_of a b c d)) = b"
    "ucast (drop_bit 16 (le32_of a b c d)) = c" "ucast (drop_bit 24 (le32_of a b c d)) = d" for a b c d
    using le32_bytes_of [of a b c d] by (simp_all add: le32_bytes_def)
  show ?thesis unfolding swap32_def [of "swap32 v"] unfolding swap32_def by (simp add: *)
qed

lemma swap_orders [simp]: "ntohl (htonl v) = v" "htonl (ntohl v) = v"
  by (simp_all add: ntohl_def htonl_def)

lemma swap32_inj: "swap32 a = swap32 b \<longleftrightarrow> a = b"
  using swap32_swap32 [of a] swap32_swap32 [of b] by metis

lemma swap32_0 [simp]: "swap32 0 = 0"
  by (simp add: swap32_def le32_of_def)

definition used :: "addr_table \<Rightarrow> u32 set" where
  "used t = {ntohl a | a. \<exists>as\<in>set t. a \<in> set as}"

text \<open>Every address is in its slot, and only once.\<close>

definition table_ok :: "addr_table \<Rightarrow> bool" where
  "table_ok t \<longleftrightarrow> length t = ADDR_HASH_SIZE \<and> (\<forall>i<ADDR_HASH_SIZE. distinct (t ! i) \<and> (\<forall>a\<in>set (t ! i). slot_of a = i))"

lemma chain_has_set [simp]: "chain_has as a \<longleftrightarrow> a \<in> set as"
  by (induction as) auto

lemma chain_remove_filter [simp]: "chain_remove as a = [x \<leftarrow> as. x \<noteq> a]"
  by (induction as) auto

lemma slot_of_lt [simp]: "slot_of a < ADDR_HASH_SIZE"
  by (simp add: slot_of_def)

lemma slot_chain:
  assumes "table_ok t"
  shows "length t = ADDR_HASH_SIZE" "distinct (t ! slot_of a)" "b \<in> set (t ! slot_of a) \<Longrightarrow> slot_of b = slot_of a"
  using assms slot_of_lt [of a] unfolding table_ok_def by blast+

lemma in_slot:
  assumes "table_ok t" "as \<in> set t" "a \<in> set as"
  shows "a \<in> set (t ! slot_of a)"
proof -
  obtain i where "i < ADDR_HASH_SIZE" "as = t ! i" using assms(1,2) by (auto simp: in_set_conv_nth table_ok_def)
  moreover from this have "slot_of a = i" using assms(1,3) unfolding table_ok_def by blast
  ultimately show ?thesis using assms(3) by simp
qed

lemma in_used: "table_ok t \<Longrightarrow> y \<in> used t \<longleftrightarrow> ntohl y \<in> set (t ! slot_of (ntohl y))"
proof
  assume ok: "table_ok t" and "y \<in> used t"
  then obtain a as where "y = ntohl a" "as \<in> set t" "a \<in> set as" by (auto simp: used_def)
  then show "ntohl y \<in> set (t ! slot_of (ntohl y))" using in_slot [OF ok] by (simp add: ntohl_def)
next
  assume ok: "table_ok t" and a: "ntohl y \<in> set (t ! slot_of (ntohl y))"
  have "t ! slot_of (ntohl y) \<in> set t" using ok by (simp add: table_ok_def)
  with a have "\<exists>as\<in>set t. ntohl y \<in> set as" by blast
  then show "y \<in> used t" unfolding used_def using swap32_swap32 [of y] by (auto simp: ntohl_def intro!: exI [of _ "swap32 y"])
qed

lemma ip_used_in: "table_ok t \<Longrightarrow> ip_used t x \<longleftrightarrow> htonl x \<in> used t"
  by (simp add: in_used ip_used_def ntohl_def htonl_def)

lemma used_eqI: "table_ok t \<Longrightarrow> (\<And>a. a \<in> set (t ! slot_of a) \<longleftrightarrow> ntohl a \<in> S) \<Longrightarrow> used t = S"
  by (rule set_eqI) (simp add: in_used, simp add: ntohl_def)

lemma table_ok_update:
  assumes "table_ok t" "distinct as" "\<forall>b\<in>set as. slot_of b = i" "i < ADDR_HASH_SIZE"
  shows "table_ok (t[i := as])"
  using assms by (auto simp: table_ok_def nth_list_update)

lemma reserve_ok:
  assumes "table_ok t"
  shows "table_ok (reserve_addr t y)"
proof (cases "ip_used t (ntohl y)")
  case False
  then have "table_ok (t[slot_of (ntohl y) := ntohl y # t ! slot_of (ntohl y)])"
    using slot_chain(2,3) [OF assms, where a = "ntohl y"] by (intro table_ok_update [OF assms]) (auto simp: ip_used_def)
  then show ?thesis using False by (simp add: reserve_addr_def Let_def)
qed (simp add: reserve_addr_def assms)

lemma unreserve_ok:
  assumes "table_ok t"
  shows "table_ok (unreserve_addr t y)"
proof -
  have "table_ok (t[slot_of (ntohl y) := [x \<leftarrow> t ! slot_of (ntohl y). x \<noteq> ntohl y]])"
    using slot_chain(2,3) [OF assms, where a = "ntohl y"] by (intro table_ok_update [OF assms]) auto
  then show ?thesis by (simp add: unreserve_addr_def Let_def)
qed

lemma used_reserve:
  assumes "table_ok t"
  shows "used (reserve_addr t y) = insert y (used t)"
proof (rule used_eqI [OF reserve_ok [OF assms]])
  fix a
  have "length t = ADDR_HASH_SIZE" using assms by (simp add: table_ok_def)
  then have "a \<in> set (reserve_addr t y ! slot_of a) \<longleftrightarrow> a = ntohl y \<or> a \<in> set (t ! slot_of a)"
    by (auto simp: reserve_addr_def Let_def ip_used_def nth_list_update)
  also have "\<dots> \<longleftrightarrow> ntohl a \<in> insert y (used t)"
    using in_used [OF assms, of "ntohl a"] swap32_inj [of a "swap32 y"] by (auto simp: ntohl_def)
  finally show "a \<in> set (reserve_addr t y ! slot_of a) \<longleftrightarrow> ntohl a \<in> insert y (used t)" .
qed

lemma used_unreserve:
  assumes "table_ok t"
  shows "used (unreserve_addr t y) = used t - {y}"
proof (rule used_eqI [OF unreserve_ok [OF assms]])
  fix a
  have "length t = ADDR_HASH_SIZE" using assms by (simp add: table_ok_def)
  then have "a \<in> set (unreserve_addr t y ! slot_of a) \<longleftrightarrow> a \<noteq> ntohl y \<and> a \<in> set (t ! slot_of a)"
    by (auto simp: unreserve_addr_def Let_def nth_list_update)
  also have "\<dots> \<longleftrightarrow> ntohl a \<in> used t - {y}"
    using in_used [OF assms, of "ntohl a"] swap32_inj [of a "swap32 y"] by (auto simp: ntohl_def)
  finally show "a \<in> set (unreserve_addr t y ! slot_of a) \<longleftrightarrow> ntohl a \<in> used t - {y}" .
qed

lemma init_ok: "table_ok init_addr" "used init_addr = {}"
  by (simp_all add: table_ok_def used_def init_addr_def)

section \<open>The pool as an interface\<close>

text \<open>What the calls of a tunnel rely on: taking an address and giving it back.\<close>

locale address_pool =
  fixes take_out :: "'p \<Rightarrow> 'a \<Rightarrow> 'p" and give_back :: "'p \<Rightarrow> 'a \<Rightarrow> 'p" and busy :: "'p \<Rightarrow> 'a set" and valid :: "'p \<Rightarrow> bool"
  assumes take_valid: "valid p \<Longrightarrow> valid (take_out p a)" and give_valid: "valid p \<Longrightarrow> valid (give_back p a)"
    and busy_take: "valid p \<Longrightarrow> busy (take_out p a) = insert a (busy p)"
    and busy_give: "valid p \<Longrightarrow> busy (give_back p a) = busy p - {a}"
begin

lemma take_give: "valid p \<Longrightarrow> a \<notin> busy p \<Longrightarrow> busy (give_back (take_out p a) a) = busy p"
  by (simp add: busy_take busy_give take_valid)

lemma give_other: "valid p \<Longrightarrow> a \<noteq> b \<Longrightarrow> b \<in> busy (give_back p a) \<longleftrightarrow> b \<in> busy p"
  by (simp add: busy_give)

lemma holders: "valid p \<Longrightarrow> valid (fold (\<lambda>a p. take_out p a) as p) \<and> busy (fold (\<lambda>a p. take_out p a) as p) = set as \<union> busy p"
  by (induction as arbitrary: p) (auto simp: busy_take take_valid)

end

interpretation pool: address_pool reserve_addr unreserve_addr used table_ok
  by unfold_locales (simp_all add: reserve_ok unreserve_ok used_reserve used_unreserve)

section \<open>What the search finds\<close>

text \<open>The specification: the last range that contains an address decides.\<close>

definition in_range :: "u32 \<Rightarrow> iprange \<Rightarrow> bool" where
  "in_range x r \<longleftrightarrow> ntohl (r_start r) \<le> x \<and> x \<le> ntohl (r_end r)"

definition allowed :: "iprange list \<Rightarrow> u32 \<Rightarrow> bool" where
  "allowed rs x \<longleftrightarrow> (case [r \<leftarrow> rs. in_range x r] of [] \<Rightarrow> False | ms \<Rightarrow> r_allow (last ms))"

lemma later_sense_last: "later_sense s x rs = (case [r \<leftarrow> rs. in_range x r] of [] \<Rightarrow> s | ms \<Rightarrow> r_allow (last ms))"
  by (induction rs arbitrary: s) (auto simp: in_range_def split: list.splits)

lemma allowed_Cons:
  "allowed (r # rs) x \<longleftrightarrow> allowed rs x \<or> (r_allow r \<and> in_range x r \<and> [q \<leftarrow> rs. in_range x q] = [])"
  by (auto simp: allowed_def split: list.splits)

lemma later_sense_allowed:
  "later_sense True x rs \<longleftrightarrow> allowed rs x \<or> [q \<leftarrow> rs. in_range x q] = []"
  by (auto simp: later_sense_last allowed_def split: list.splits)

text \<open>The loop over one range finds its first good address; it ends unless the range ends with the largest address.\<close>

lemma scan_range_ok:
  assumes "z < - 1"
  shows "(\<exists>w. x \<le> w \<and> w \<le> z \<and> \<not> ip_used t w \<and> later_sense True w rs \<and> scan_range t rs x z = Some (Some (htonl w))) \<or>
    (\<forall>w. x \<le> w \<and> w \<le> z \<longrightarrow> ip_used t w \<or> \<not> later_sense True w rs) \<and> scan_range t rs x z = Some None"
proof (induction "unat z + 1 - unat x" arbitrary: x rule: less_induct)
  case less
  show ?case
  proof (cases "x \<le> z \<and> (ip_used t x \<or> \<not> later_sense True x rs)")
    case True
    then have step: "scan_range t rs x z = scan_range t rs (x + 1) z" by (subst scan_range.simps) auto
    have "x \<noteq> - 1" using True assms by auto
    then have nxt: "unat (x + 1) = unat x + 1" using unatSuc [of x] by (simp add: add.commute add_eq_0_iff)
    have le: "x + 1 \<le> w \<longleftrightarrow> x < w" for w by (simp add: word_le_nat_alt word_less_nat_alt nxt Suc_le_eq)
    have "unat x \<le> unat z" using True by (simp add: word_le_nat_alt)
    then have "unat z + 1 - unat (x + 1) < unat z + 1 - unat x" using nxt by simp
    from less [OF this] show ?thesis unfolding step le using True by (metis order_le_less)
  next
    case False
    then show ?thesis by (subst (1 2) scan_range.simps) auto
  qed
qed

text \<open>The first range that allows an address decides about it unless later ranges do.\<close>

lemma get_addr_spec:
  assumes "\<forall>r\<in>set rs. ntohl (r_end r) < - 1"
  shows "(\<exists>x. allowed rs x \<and> \<not> ip_used t x \<and> get_addr t rs = Some (htonl x)) \<or>
    (\<forall>x. allowed rs x \<longrightarrow> ip_used t x) \<and> get_addr t rs = Some 0"
  using assms
proof (induction rs)
  case Nil
  then show ?case by (simp add: allowed_def)
next
  case (Cons r rs)
  have IH: "(\<exists>x. allowed rs x \<and> \<not> ip_used t x \<and> get_addr t rs = Some (htonl x)) \<or>
      (\<forall>x. allowed rs x \<longrightarrow> ip_used t x) \<and> get_addr t rs = Some 0"
    using Cons by simp
  have range: "in_range x r \<longleftrightarrow> ntohl (r_start r) \<le> x \<and> x \<le> ntohl (r_end r)" for x by (simp add: in_range_def)
  show ?case
  proof (cases "r_allow r")
    case False
    then have "allowed (r # rs) x \<longleftrightarrow> allowed rs x" "get_addr t (r # rs) = get_addr t rs" for x by (simp_all add: allowed_Cons)
    then show ?thesis using IH by simp
  next
    case True
    have a: "allowed (r # rs) x \<longleftrightarrow> allowed rs x \<or> (ntohl (r_start r) \<le> x \<and> x \<le> ntohl (r_end r) \<and> later_sense True x rs)" for x
      using True by (auto simp: allowed_Cons later_sense_allowed range)
    have g: "get_addr t (r # rs) = (case scan_range t rs (ntohl (r_start r)) (ntohl (r_end r)) of None \<Rightarrow> None
        | Some None \<Rightarrow> get_addr t rs | Some (Some y) \<Rightarrow> Some y)"
      using True by (auto split: option.splits)
    have "ntohl (r_end r) < - 1" using Cons.prems by simp
    from scan_range_ok [OF this, of "ntohl (r_start r)" t rs] show ?thesis
    proof (elim disjE exE conjE)
      fix w assume w: "ntohl (r_start r) \<le> w" "w \<le> ntohl (r_end r)" "\<not> ip_used t w" "later_sense True w rs"
        and "scan_range t rs (ntohl (r_start r)) (ntohl (r_end r)) = Some (Some (htonl w))"
      then have "get_addr t (r # rs) = Some (htonl w)" unfolding g by simp
      moreover have "allowed (r # rs) w" unfolding a using w by blast
      ultimately show ?thesis using w(3) by blast
    next
      assume none: "\<forall>w. ntohl (r_start r) \<le> w \<and> w \<le> ntohl (r_end r) \<longrightarrow> ip_used t w \<or> \<not> later_sense True w rs"
        and "scan_range t rs (ntohl (r_start r)) (ntohl (r_end r)) = Some None"
      then have "get_addr t (r # rs) = get_addr t rs" unfolding g by simp
      then show ?thesis unfolding a using none IH by metis
    qed
  qed
qed

text \<open>
  C36: functional behaviour of the address pool. If no range ends at 255.255.255.255, \<open>assign_addr\<close>
  ends; the address it hands out is allowed by the configured ranges (the last one that
  contains it decides) and was not in use, and now is; when it finds none, every allowed address (but 0.0.0.0, which
  stands for failure) is in use.
\<close>

theorem assign_addr_correct:
  assumes "table_ok t" "\<forall>r\<in>set rs. ntohl (r_end r) < - 1"
  shows "\<exists>y t'. assign_addr t rs = Some (y, t') \<and> table_ok t' \<and>
    (case y of Some y \<Rightarrow> allowed rs (ntohl y) \<and> y \<notin> used t \<and> used t' = insert y (used t)
     | None \<Rightarrow> t' = t \<and> (0 \<in> used t \<or> \<not> allowed rs 0 \<longrightarrow> (\<forall>y. allowed rs (ntohl y) \<longrightarrow> y \<in> used t)))"
  using get_addr_spec [OF assms(2), of t]
proof (elim disjE exE conjE)
  fix x assume x: "allowed rs x" "\<not> ip_used t x" "get_addr t rs = Some (htonl x)"
  then have n: "htonl x \<notin> used t" using ip_used_in [OF assms(1)] by simp
  show ?thesis
  proof (cases "htonl x = 0")
    case True
    then have "x = 0" using swap_orders(1) [of x] by (simp add: ntohl_def)
    then show ?thesis using x n True assms(1) by (simp add: assign_addr_def)
  next
    case False
    then show ?thesis using x n assms(1) pool.busy_take [of t "htonl x"] pool.take_valid [of t "htonl x"] by (simp add: assign_addr_def)
  qed
next
  assume x: "\<forall>x. allowed rs x \<longrightarrow> ip_used t x" "get_addr t rs = Some 0"
  then have "\<forall>y. allowed rs (ntohl y) \<longrightarrow> y \<in> used t" using ip_used_in [OF assms(1)] swap_orders(2) by metis
  then show ?thesis using x assms(1) by (simp add: assign_addr_def)
qed

definition ex_pool :: addr_table where
  "ex_pool = reserve_addr init_addr (htonl 0x0A000001)"

definition ex_ranges :: "iprange list" where
  "ex_ranges = [\<lparr>r_start = htonl 0x0A000001, r_end = htonl 0x0A0000FE, r_allow = True\<rparr>,
     \<lparr>r_start = htonl 0x0A000010, r_end = htonl 0x0A000020, r_allow = False\<rparr>]"

lemma assign_addr_correct_witness:
  "\<exists>y t'. assign_addr ex_pool ex_ranges = Some (Some y, t') \<and> y \<noteq> htonl 0x0A000001 \<and> allowed ex_ranges (ntohl y)"
proof -
  have ok: "table_ok ex_pool" "used ex_pool = {htonl 0x0A000001}"
    unfolding ex_pool_def by (simp_all add: pool.take_valid pool.busy_take init_ok)
  have ranges: "\<forall>r\<in>set ex_ranges. ntohl (r_end r) < - 1" by (simp add: ex_ranges_def)
  have free: "allowed ex_ranges (ntohl (htonl 0x0A000002))" "htonl 0x0A000002 \<notin> used ex_pool"
    using swap32_inj [of "0x0A000002" "0x0A000001"] ok(2) by (simp_all add: allowed_def ex_ranges_def in_range_def, simp add: htonl_def)
  have "\<not> allowed ex_ranges 0" by (simp add: allowed_def ex_ranges_def in_range_def)
  with assign_addr_correct [OF ok(1) ranges] free ok(2) show ?thesis by (auto split: option.splits)
qed

text \<open>
  Error behaviour (a defect). \<open>get_addr\<close> counts up with \<open>x++\<close> while \<open>x <= end\<close>: a range that ends at
  255.255.255.255 is never left, so when later ranges or the table exclude all addresses the daemon hangs.
\<close>

theorem get_addr_hangs:
  assumes "r_allow r" "ntohl (r_end r) = - 1" "\<forall>x. ip_used t x \<or> \<not> later_sense True x rs"
  shows "get_addr t (r # rs) = None"
proof -
  let ?P = "\<lambda>t rs x z (y :: u32 option). z = - 1 \<longrightarrow> (\<exists>x. \<not> ip_used t x \<and> later_sense True x rs)"
  have "?P t rs x z y" if "scan_range t rs x z = Some y" for x z y
    by (rule scan_range.raw_induct [where P = ?P and xa = "(((t, rs), x), z)" and y = y, unfolded split_conv, OF _ that])
      (auto split: if_splits)
  then have "scan_range t rs (ntohl (r_start r)) (- 1) = None" using assms(3) by fastforce
  then show ?thesis using assms(1,2) by simp
qed

lemma get_addr_hangs_witness:
  "get_addr init_addr [\<lparr>r_start = htonl 0xE0000000, r_end = - 1, r_allow = True\<rparr>, \<lparr>r_start = 0, r_end = - 1, r_allow = False\<rparr>] = None"
proof (rule get_addr_hangs)
  have m: "swap32 (- 1) = - 1" by code_simp
  show "ntohl (r_end \<lparr>r_start = htonl 0xE0000000, r_end = - 1, r_allow = True\<rparr>) = - 1" by (simp add: ntohl_def m)
  show "\<forall>x. ip_used init_addr x \<or> \<not> later_sense True x [\<lparr>r_start = 0, r_end = - 1, r_allow = False\<rparr>]"
    by (simp add: ntohl_def m)
qed simp

end
