(* ===== verification/L2tp_Data.thy ===== *)
theory L2tp_Data
  imports Addr_Pool
begin

text \<open>
  The state of one L2TP tunnel of \<open>xl2tpd\<close> as its control-message code sees it:
  \<open>struct tunnel\<close> (\<open>l2tp.h\<close>, fields \<open>t_...\<close>, its two \<open>struct challenge\<close> as
  \<open>us_...\<close> and \<open>them_...\<close>), \<open>struct call\<close> (\<open>call.h\<close>, fields \<open>c_...\<close>), the helpers of
  \<open>misc.c\<close> and \<open>new_call\<close> of \<open>call.c\<close>.

  Calls live in a store \<open>calls\<close>, pointers to them are indices; the tunnel's own
  pseudo-call \<open>t->self\<close> is one of them. \<open>alloc\<close> says which of the calls of \<open>malloc\<close>
  and \<open>calloc\<close> with a tested result succeed, \<open>allocs\<close> counts them; \<open>entropy\<close> is what the random source
  delivers for the \<open>n\<close>-th call. A \<open>char[MAXSTRLEN]\<close> is a list of 120 bytes. Fields the
  modelled code neither reads nor writes are left out, as are buffers a call owns.
\<close>

section \<open>Structures (call.h, l2tp.h, aaa.h)\<close>

type_synonym ptr = "nat option"

text \<open>
  The settings of \<open>struct lns\<close> and \<open>struct lac\<close> (\<open>file.h\<close>) that are used for tunnels and calls; each
  of the two has some the other lacks. \<open>pc_entry\<close> is the number of a LAC entry, which stands for the pointer to it, and
  \<open>pc_host\<close> the name of the first host it may connect to.
\<close>

record peer_conf =
  tun_rws :: int
  pc_rxspeed :: int
  pc_txspeed :: int
  pc_hbit :: bool
  pc_lbit :: bool
  pc_hostname :: byte_buf
  pc_peername :: byte_buf
  pc_challenge :: bool
  pc_lacs :: "iprange list"
  pc_range :: "iprange list"
  pc_assign_ip :: bool
  pc_localaddr :: u32
  pc_remoteaddr :: u32
  pc_defaultroute :: bool
  pc_authself :: bool
  pc_authpeer :: bool
  pc_pap_refuse :: bool
  pc_chap_refuse :: bool
  pc_pap_require :: bool
  pc_chap_require :: bool
  pc_passwdauth :: bool
  pc_authname :: byte_buf
  pc_password :: byte_buf
  pc_debug :: bool
  pc_pass_peer :: bool
  pc_pppoptfile :: byte_buf
  pc_entry :: nat
  pc_host :: "byte_buf option"
  pc_redial :: bool
  pc_rtimeout :: int
  pc_rmax :: int

record l2call =
  c_lbit :: u16
  c_seq_reqd :: int
  c_state :: int
  c_frame :: int
  c_next :: ptr
  c_msgtype :: int
  c_ourcid :: int
  c_cid :: int
  c_qcid :: int
  c_bearer :: int
  c_serno :: u32
  c_txspeed :: u32
  c_rxspeed :: u32
  c_ppd :: int
  c_physchan :: u32
  c_dialed :: byte_buf
  c_dialing :: byte_buf
  c_subaddy :: byte_buf
  c_needclose :: int
  c_closing :: int
  c_result :: int
  c_error :: int
  c_errormsg :: byte_buf
  c_fd :: int
  c_fbit :: u16
  c_ourfbit :: u16
  c_cnu :: int
  c_pnu :: int
  c_pLr :: int
  c_data_seq_num :: u16
  c_data_rec_seq_num :: u16
  c_closeSs :: u16
  c_lns :: "peer_conf option"
  c_lac :: "peer_conf option"
  c_addr :: u32
  c_dial_no :: byte_buf
  c_pppd :: int

record l2tp =
  t_call_head :: ptr
  t_self :: nat
  t_fc :: int
  t_bc :: int
  t_tid :: int
  t_qtid :: int
  t_firmware :: int
  t_count :: int
  t_state :: int
  t_sanity :: bool
  t_rws :: int
  t_ourfc :: int
  t_ourbc :: int
  t_hbit :: bool
  t_ourtid :: int
  t_ourrws :: int
  control_seq_num :: u16
  control_rec_seq_num :: u16
  t_cLr :: int
  t_addr :: u32
  t_rxspeed :: int
  t_txspeed :: int
  t_lns :: "peer_conf option"
  t_lac :: "peer_conf option"
  t_hostname :: byte_buf
  t_vendor :: byte_buf
  us_secret :: byte_buf
  us_challenge :: "byte_buf option"
  us_chal_len :: int
  us_vector :: ptr
  us_vector_len :: int
  us_state :: int
  us_ss :: u8
  us_response :: byte_buf
  them_secret :: byte_buf
  them_vector :: byte_buf
  them_reply :: byte_buf
  them_challenge :: "byte_buf option"
  them_chal_len :: int
  them_state :: int
  them_ss :: u8
  them_response :: byte_buf
  calls :: "l2call list"
  alloc :: "nat \<Rightarrow> bool"
  allocs :: nat
  entropy :: "nat \<Rightarrow> u16"

abbreviation (input) "MAXSTRLEN \<equiv> (120::nat)"
abbreviation (input) "MAX_RECV_SIZE \<equiv> (4096::nat)"
abbreviation (input) "MD_SIG_SIZE \<equiv> (16::nat)"
abbreviation (input) "VECTOR_SIZE \<equiv> (16::nat)"
abbreviation (input) "MAX_VECTOR_SIZE \<equiv> (1024::int)"
abbreviation (input) "EINVAL \<equiv> (22::int)"
abbreviation (input) "ENOMEM \<equiv> (12::int)"
abbreviation (input) "STATE_CHALLENGED \<equiv> (1::int)"

text \<open>Message types (\<open>control.h\<close>); they also name the states of tunnels and calls.\<close>

abbreviation (input) "SCCRQ \<equiv> (1::int)"
abbreviation (input) "SCCRP \<equiv> (2::int)"
abbreviation (input) "SCCCN \<equiv> (3::int)"
abbreviation (input) "StopCCN \<equiv> (4::int)"
abbreviation (input) "Hello \<equiv> (6::int)"
abbreviation (input) "OCRQ \<equiv> (7::int)"
abbreviation (input) "OCRP \<equiv> (8::int)"
abbreviation (input) "OCCN \<equiv> (9::int)"
abbreviation (input) "ICRQ \<equiv> (10::int)"
abbreviation (input) "ICRP \<equiv> (11::int)"
abbreviation (input) "ICCN \<equiv> (12::int)"
abbreviation (input) "CDN \<equiv> (14::int)"
abbreviation (input) "WEN \<equiv> (15::int)"
abbreviation (input) "SLI \<equiv> (16::int)"
abbreviation (input) "MAX_MSG \<equiv> (16::int)"

abbreviation (input) "VENDOR_ERROR \<equiv> (6::int)"
abbreviation (input) "ERROR_RESERVED \<equiv> (3::int)"
abbreviation (input) "ERROR_LENGTH \<equiv> (2::int)"
abbreviation (input) "RESULT_ERROR \<equiv> (2::int)"

section \<open>Access to calls\<close>

definition get_c :: "l2tp \<Rightarrow> nat \<Rightarrow> l2call option" where
  "get_c st c = arr_get (calls st) c"

definition upd_c :: "l2tp \<Rightarrow> nat \<Rightarrow> (l2call \<Rightarrow> l2call) \<Rightarrow> l2tp option" where
  "upd_c st c f = do { cs \<leftarrow> arr_upd (calls st) c f; Some (st\<lparr>calls := cs\<rparr>) }"

text \<open>\<open>t->call_head->field = ...\<close>\<close>

definition upd_head :: "l2tp \<Rightarrow> (l2call \<Rightarrow> l2call) \<Rightarrow> l2tp option" where
  "upd_head st f = (case t_call_head st of None \<Rightarrow> None | Some h \<Rightarrow> upd_c st h f)"

lemma upd_c_Some: "c < length (calls st) \<Longrightarrow> upd_c st c f = Some (st\<lparr>calls := (calls st)[c := f (calls st ! c)]\<rparr>)"
  by (simp add: upd_c_def arr_upd_def)

lemma get_c_Some: "c < length (calls st) \<Longrightarrow> get_c st c = Some (calls st ! c)"
  by (simp add: get_c_def arr_get_def)

section \<open>Helpers (misc.c)\<close>

text \<open>The error text goes into \<open>errormsg\<close>; a final newline is cut off.\<close>

definition chop_newline :: "byte_buf \<Rightarrow> byte_buf option" where
  "chop_newline a =
     (let n = length (c_string a)
      in if n = 0 then None
         else if a ! (n - 1) = 0x0A then Some (a[n - 1 := 0]) else Some a)"

definition set_error :: "l2tp \<Rightarrow> nat \<Rightarrow> int \<Rightarrow> byte_buf \<Rightarrow> l2tp option" where
  "set_error st c err text = do {
     cl \<leftarrow> get_c st c;
     msg \<leftarrow> chop_newline (snprintf (c_errormsg cl) text);
     upd_c st c (\<lambda>cl. cl\<lparr>c_error := err, c_result := RESULT_ERROR, c_needclose := -1, c_errormsg := msg\<rparr>) }"

text \<open>\<open>swaps\<close>: \<open>n\<close> 16-bit values from \<open>off\<close> on are put into host order.\<close>

fun swaps :: "byte_buf \<Rightarrow> nat \<Rightarrow> nat \<Rightarrow> byte_buf option" where
  "swaps b off 0 = Some b"
| "swaps b off (Suc n) = do {
     x0 \<leftarrow> arr_get b off;
     x1 \<leftarrow> arr_get b (off + 1);
     b \<leftarrow> wr_bytes b off [x1, x0];
     swaps b (off + 2) n }"

definition safe_copy :: "byte_buf \<Rightarrow> byte_buf \<Rightarrow> int \<Rightarrow> byte_buf option" where
  "safe_copy a src sz =
     (if sz < 0 then None
      else do {
        a \<leftarrow> strncpy a src (min (nat sz) (MAXSTRLEN - 1));
        arr_upd a (min (nat sz) (MAXSTRLEN - 1)) (\<lambda>_. 0) })"

section \<open>New calls (call.c)\<close>

definition zero_call :: l2call where
  "zero_call = \<lparr>c_lbit = 0, c_seq_reqd = 0, c_state = 0, c_frame = 0, c_next = None, c_msgtype = 0, c_ourcid = 0, c_cid = 0,
     c_qcid = -1, c_bearer = -1, c_serno = 0, c_txspeed = 0, c_rxspeed = 0, c_ppd = 0, c_physchan = -1,
     c_dialed = replicate 120 0, c_dialing = replicate 120 0, c_subaddy = replicate 120 0, c_needclose = 0,
     c_closing = 0, c_result = -1, c_error = -1, c_errormsg = replicate 120 0, c_fd = -1, c_fbit = 0,
     c_ourfbit = 0, c_cnu = 0, c_pnu = 0, c_pLr = -1, c_data_seq_num = 0,
     c_data_rec_seq_num = 0, c_closeSs = 0,
     c_lns = None, c_lac = None, c_addr = 0, c_dial_no = replicate 128 0, c_pppd = 0\<rparr>"

definition next_alloc :: "l2tp \<Rightarrow> bool \<times> l2tp" where
  "next_alloc st = (alloc st (allocs st), st\<lparr>allocs := allocs st + 1\<rparr>)"

text \<open>The new call is at the end of the store; a tunnel that handles messages has its \<open>self\<close>.\<close>

definition new_call :: "l2tp \<Rightarrow> nat option \<times> l2tp" where
  "new_call st = (case next_alloc st of (ok, st) \<Rightarrow>
     if \<not> ok then (None, st)
     else (Some (length (calls st)),
           st\<lparr>calls := calls st @ [zero_call\<lparr>c_ourcid := uint (entropy st (length (calls st))), c_lns := t_lns st, c_lac := t_lac st\<rparr>]\<rparr>))"

section \<open>What handlers preserve\<close>

definition call_wf :: "l2call \<Rightarrow> bool" where
  "call_wf c \<longleftrightarrow> length (c_errormsg c) = MAXSTRLEN \<and> length (c_dialed c) = MAXSTRLEN \<and>
     length (c_dialing c) = MAXSTRLEN \<and> length (c_subaddy c) = MAXSTRLEN"

definition l2tp_wf :: "l2tp \<Rightarrow> bool" where
  "l2tp_wf st \<longleftrightarrow> (\<forall>c \<in> set (calls st). call_wf c) \<and> t_self st < length (calls st) \<and>
     (\<forall>h. t_call_head st = Some h \<longrightarrow> h < length (calls st)) \<and>
     length (t_hostname st) = MAXSTRLEN \<and> length (t_vendor st) = MAXSTRLEN \<and> length (them_reply st) = MD_SIG_SIZE"

lemma wf_upd_c:
  assumes "l2tp_wf st" "c < length (calls st)" "call_wf (f (calls st ! c))"
  shows "\<exists>st'. upd_c st c f = Some st' \<and> l2tp_wf st' \<and> st' = st\<lparr>calls := (calls st)[c := f (calls st ! c)]\<rparr>"
  using assms by (auto simp: upd_c_Some l2tp_wf_def dest!: set_update_subset_insert [THEN subsetD])

lemma wf_call: "l2tp_wf st \<Longrightarrow> c < length (calls st) \<Longrightarrow> call_wf (calls st ! c)"
  by (simp add: l2tp_wf_def)

lemma length_chop_newline: "chop_newline a = Some b \<Longrightarrow> length b = length a"
  by (auto simp: chop_newline_def Let_def split: if_splits)

lemma safe_copy_Some:
  assumes "0 \<le> sz" "length a = MAXSTRLEN" "nat sz \<le> length src"
  shows "\<exists>a'. safe_copy a src sz = Some a' \<and> length a' = MAXSTRLEN"
proof -
  have "min (nat sz) 119 \<le> length a" "min (nat sz) 119 \<le> length src" using assms by auto
  from strncpy_Some [OF this] obtain a' where "strncpy a src (min (nat sz) 119) = Some a'" "length a' = length a" by blast
  then show ?thesis using assms by (auto simp: safe_copy_def arr_upd_def)
qed

end
