(* ===== verification/Md5.thy ===== *)
theory Md5
  imports Prelude
begin

text \<open>
  The MD5 routines both daemons carry (\<open>xl2tpd/md5.c\<close>; \<open>rp-pppoe/src/md5.c\<close> is the
  same code in another layout), with the context as the code keeps it: chaining values, a
  64-bit count in two words, and a 64-byte block buffer. They are proved to implement the
  definition of RFC 1321 on the concatenation of everything that was fed in.
\<close>

section \<open>The routines (md5.c)\<close>

type_synonym md5_state = "u32 \<times> u32 \<times> u32 \<times> u32"

record MD5Context =
  mbuf :: md5_state
  bits0 :: u32
  bits1 :: u32
  inb :: byte_buf

definition F1 :: "u32 \<Rightarrow> u32 \<Rightarrow> u32 \<Rightarrow> u32" where "F1 x y z = z XOR (x AND (y XOR z))"
definition F2 :: "u32 \<Rightarrow> u32 \<Rightarrow> u32 \<Rightarrow> u32" where "F2 x y z = F1 z x y"
definition F3 :: "u32 \<Rightarrow> u32 \<Rightarrow> u32 \<Rightarrow> u32" where "F3 x y z = x XOR y XOR z"
definition F4 :: "u32 \<Rightarrow> u32 \<Rightarrow> u32 \<Rightarrow> u32" where "F4 x y z = y XOR (x OR NOT z)"

definition md5_f :: "nat \<Rightarrow> u32 \<Rightarrow> u32 \<Rightarrow> u32 \<Rightarrow> u32" where
  "md5_f r = (if r = 1 then F1 else if r = 2 then F2 else if r = 3 then F3 else F4)"

definition MD5STEP :: "(u32 \<Rightarrow> u32 \<Rightarrow> u32 \<Rightarrow> u32) \<Rightarrow> u32 \<Rightarrow> u32 \<Rightarrow> u32 \<Rightarrow> u32 \<Rightarrow> u32 \<Rightarrow> nat \<Rightarrow> u32" where
  "MD5STEP f w x y z data s =
     (let w = w + (f x y z + data); w = push_bit s w OR drop_bit (32 - s) w in w + x)"

text \<open>
  The 64 lines of \<open>MD5Transform\<close>: which of \<open>F1\<close> to \<open>F4\<close>, the index into \<open>in\<close>, the constant and
  the rotation. Each line works on the registers rotated by one place, and after 64 of them they are
  back where they started.
\<close>

definition md5_steps :: "(nat \<times> nat \<times> u32 \<times> nat) list" where
  "md5_steps = [
   (1, 0, 0xd76aa478, 7), (1, 1, 0xe8c7b756, 12), (1, 2, 0x242070db, 17), (1, 3, 0xc1bdceee, 22),
   (1, 4, 0xf57c0faf, 7), (1, 5, 0x4787c62a, 12), (1, 6, 0xa8304613, 17), (1, 7, 0xfd469501, 22),
   (1, 8, 0x698098d8, 7), (1, 9, 0x8b44f7af, 12), (1, 10, 0xffff5bb1, 17), (1, 11, 0x895cd7be, 22),
   (1, 12, 0x6b901122, 7), (1, 13, 0xfd987193, 12), (1, 14, 0xa679438e, 17), (1, 15, 0x49b40821, 22),
   (2, 1, 0xf61e2562, 5), (2, 6, 0xc040b340, 9), (2, 11, 0x265e5a51, 14), (2, 0, 0xe9b6c7aa, 20),
   (2, 5, 0xd62f105d, 5), (2, 10, 0x02441453, 9), (2, 15, 0xd8a1e681, 14), (2, 4, 0xe7d3fbc8, 20),
   (2, 9, 0x21e1cde6, 5), (2, 14, 0xc33707d6, 9), (2, 3, 0xf4d50d87, 14), (2, 8, 0x455a14ed, 20),
   (2, 13, 0xa9e3e905, 5), (2, 2, 0xfcefa3f8, 9), (2, 7, 0x676f02d9, 14), (2, 12, 0x8d2a4c8a, 20),
   (3, 5, 0xfffa3942, 4), (3, 8, 0x8771f681, 11), (3, 11, 0x6d9d6122, 16), (3, 14, 0xfde5380c, 23),
   (3, 1, 0xa4beea44, 4), (3, 4, 0x4bdecfa9, 11), (3, 7, 0xf6bb4b60, 16), (3, 10, 0xbebfbc70, 23),
   (3, 13, 0x289b7ec6, 4), (3, 0, 0xeaa127fa, 11), (3, 3, 0xd4ef3085, 16), (3, 6, 0x04881d05, 23),
   (3, 9, 0xd9d4d039, 4), (3, 12, 0xe6db99e5, 11), (3, 15, 0x1fa27cf8, 16), (3, 2, 0xc4ac5665, 23),
   (4, 0, 0xf4292244, 6), (4, 7, 0x432aff97, 10), (4, 14, 0xab9423a7, 15), (4, 5, 0xfc93a039, 21),
   (4, 12, 0x655b59c3, 6), (4, 3, 0x8f0ccc92, 10), (4, 10, 0xffeff47d, 15), (4, 1, 0x85845dd1, 21),
   (4, 8, 0x6fa87e4f, 6), (4, 15, 0xfe2ce6e0, 10), (4, 6, 0xa3014314, 15), (4, 13, 0x4e0811a1, 21),
   (4, 4, 0xf7537e82, 6), (4, 11, 0xbd3af235, 10), (4, 2, 0x2ad7d2bb, 15), (4, 9, 0xeb86d391, 21)]"

definition md5_line :: "u32 list \<Rightarrow> nat \<times> nat \<times> u32 \<times> nat \<Rightarrow> md5_state \<Rightarrow> md5_state" where
  "md5_line inw l r = (case l of (fn, k, t, s) \<Rightarrow> case r of (w, x, y, z) \<Rightarrow>
     (z, MD5STEP (md5_f fn) w x y z (inw ! k + t) s, x, y))"

definition MD5Transform :: "md5_state \<Rightarrow> u32 list \<Rightarrow> md5_state" where
  "MD5Transform h inw = (case fold (md5_line inw) md5_steps h of (a, b, c, d) \<Rightarrow>
     case h of (h0, h1, h2, h3) \<Rightarrow> (h0 + a, h1 + b, h2 + c, h3 + d))"

text \<open>The block buffer read as sixteen 32-bit words on a little-endian machine.\<close>

fun le32_words :: "byte_buf \<Rightarrow> u32 list" where
  "le32_words (a # b # c # d # bs) = le32_of a b c d # le32_words bs"
| "le32_words _ = []"

definition MD5Init :: MD5Context where
  "MD5Init = \<lparr>mbuf = (0x67452301, 0xefcdab89, 0x98badcfe, 0x10325476), bits0 = 0, bits1 = 0,
     inb = replicate 64 0\<rparr>"

text \<open>The loop over whole blocks: what is left of the input is returned.\<close>

function md5_blocks :: "MD5Context \<Rightarrow> byte_buf \<Rightarrow> (MD5Context \<times> byte_buf) option" where
  "md5_blocks ctx bs =
     (if length bs \<ge> 64 then do {
        i \<leftarrow> wr_bytes (inb ctx) 0 (take 64 bs);
        md5_blocks (ctx\<lparr>inb := i, mbuf := MD5Transform (mbuf ctx) (le32_words i)\<rparr>) (drop 64 bs) }
      else Some (ctx, bs))"
  by pat_completeness auto
termination by (relation "measure (\<lambda>(ctx, bs). length bs)") auto

declare md5_blocks.simps [simp del]

text \<open>The bit count: \<open>len\<close> is an \<open>unsigned\<close>.\<close>

definition md5_count :: "MD5Context \<Rightarrow> u32 \<Rightarrow> MD5Context" where
  "md5_count ctx len =
     (let t = bits0 ctx; b0 = t + push_bit 3 len;
          b1 = (if b0 < t then bits1 ctx + 1 else bits1 ctx) + drop_bit 29 len
      in ctx\<lparr>bits0 := b0, bits1 := b1\<rparr>)"

definition MD5Update :: "MD5Context \<Rightarrow> byte_buf \<Rightarrow> MD5Context option" where
  "MD5Update ctx bs =
     (let t = unat (drop_bit 3 (bits0 ctx) AND 0x3f);
          ctx = md5_count ctx (word_of_nat (length bs))
      in if t \<noteq> 0 \<and> length bs < 64 - t then do {
           i \<leftarrow> wr_bytes (inb ctx) t bs;
           Some (ctx\<lparr>inb := i\<rparr>) }
         else do {
           (ctx, bs) \<leftarrow>
             (if t \<noteq> 0 then do {
                i \<leftarrow> wr_bytes (inb ctx) t (take (64 - t) bs);
                Some (ctx\<lparr>inb := i, mbuf := MD5Transform (mbuf ctx) (le32_words i)\<rparr>, drop (64 - t) bs) }
              else Some (ctx, bs));
           (ctx, bs) \<leftarrow> md5_blocks ctx bs;
           i \<leftarrow> wr_bytes (inb ctx) 0 bs;
           Some (ctx\<lparr>inb := i\<rparr>) })"

definition md5_bytes :: "md5_state \<Rightarrow> byte_buf" where
  "md5_bytes h = (case h of (a, b, c, d) \<Rightarrow> le32_bytes a @ le32_bytes b @ le32_bytes c @ le32_bytes d)"

definition MD5Final :: "MD5Context \<Rightarrow> (byte_buf \<times> MD5Context) option" where
  "MD5Final ctx = do {
     let count = unat (drop_bit 3 (bits0 ctx) AND 0x3f);
     i \<leftarrow> wr_bytes (inb ctx) count [0x80];
     let p = count + 1;
     let count = 64 - 1 - count;
     (h, i) \<leftarrow>
       (if count < 8 then do {
          i \<leftarrow> wr_bytes i p (replicate count 0);
          let h = MD5Transform (mbuf ctx) (le32_words i);
          i \<leftarrow> wr_bytes i 0 (replicate 56 0);
          Some (h, i) }
        else do {
          i \<leftarrow> wr_bytes i p (replicate (count - 8) 0);
          Some (mbuf ctx, i) });
     i \<leftarrow> wr_bytes i 56 (le32_bytes (bits0 ctx) @ le32_bytes (bits1 ctx));
     Some (md5_bytes (MD5Transform h (le32_words i)),
           \<lparr>mbuf = (0, 0, 0, 0), bits0 = 0, bits1 = 0, inb = replicate 64 0\<rparr>) }"

section \<open>RFC 1321\<close>

text \<open>The chaining value after all whole blocks of a byte sequence.\<close>

function md5_chain :: "md5_state \<Rightarrow> byte_buf \<Rightarrow> md5_state" where
  "md5_chain h bs = (if length bs \<ge> 64 then md5_chain (MD5Transform h (le32_words (take 64 bs))) (drop 64 bs) else h)"
  by pat_completeness auto
termination by (relation "measure (\<lambda>(h, bs). length bs)") auto

declare md5_chain.simps [simp del]

definition md5_iv :: md5_state where "md5_iv = (0x67452301, 0xefcdab89, 0x98badcfe, 0x10325476)"

text \<open>One bit, zeroes up to 56 modulo 64 bytes, and the length in bits modulo \<open>2^64\<close>, low word first.\<close>

definition md5_pad :: "nat \<Rightarrow> byte_buf" where
  "md5_pad n = 0x80 # replicate ((119 - n mod 64) mod 64) 0 @
     le32_bytes (word_of_nat (8 * n)) @ le32_bytes (word_of_nat (8 * n div 2 ^ 32))"

definition md5 :: "byte_buf \<Rightarrow> byte_buf" where
  "md5 m = md5_bytes (md5_chain md5_iv (m @ md5_pad (length m)))"

lemma length_md5 [simp]: "length (md5 m) = 16"
  by (simp add: md5_def md5_bytes_def split: prod.splits)

section \<open>The routines against the definition\<close>

lemma md5_chain_short: "length bs < 64 \<Longrightarrow> md5_chain h bs = h"
  by (simp add: md5_chain.simps)

lemma md5_chain_append:
  "md5_chain h (xs @ ys) = md5_chain (md5_chain h xs) (drop (length xs - length xs mod 64) xs @ ys)"
proof (induction h xs rule: md5_chain.induct)
  case (1 h xs)
  show ?case
  proof (cases "64 \<le> length xs")
    case True
    then have l: "length xs - length xs mod 64 = (length xs - 64 - (length xs - 64) mod 64) + 64"
      by (simp add: le_mod_geq)
    have "md5_chain h (xs @ ys) = md5_chain (MD5Transform h (le32_words (take 64 xs))) (drop 64 xs @ ys)"
      using True by (simp add: md5_chain.simps [of h "xs @ ys"])
    then show ?thesis using 1 True l by (simp add: md5_chain.simps [of h xs] add.commute)
  qed (simp add: md5_chain_short)
qed

lemma md5_chain_block:
  "length p = 64 \<Longrightarrow> md5_chain h (p @ bs) = md5_chain (MD5Transform h (le32_words p)) bs"
  by (simp add: md5_chain.simps [of h "p @ bs"])

lemma md5_blocks_ok:
  assumes "length (inb ctx) = 64"
  shows "\<exists>i. md5_blocks ctx bs = Some (ctx\<lparr>inb := i, mbuf := md5_chain (mbuf ctx) bs\<rparr>, drop (length bs - length bs mod 64) bs) \<and>
     length i = 64"
  using assms
proof (induction ctx bs rule: md5_blocks.induct)
  case (1 ctx bs)
  show ?case
  proof (cases "64 \<le> length bs")
    case True
    then have w: "wr_bytes (inb ctx) 0 (take 64 bs) = Some (take 64 bs)"
      using "1.prems" by (simp add: wr_bytes_def)
    have l: "length bs - length bs mod 64 = (length bs - 64 - (length bs - 64) mod 64) + 64"
      using True by (simp add: le_mod_geq)
    obtain i where i: "md5_blocks (ctx\<lparr>inb := take 64 bs, mbuf := MD5Transform (mbuf ctx) (le32_words (take 64 bs))\<rparr>) (drop 64 bs) =
       Some (ctx\<lparr>inb := i, mbuf := md5_chain (MD5Transform (mbuf ctx) (le32_words (take 64 bs))) (drop 64 bs)\<rparr>,
         drop (length bs - length bs mod 64) bs)" "length i = 64"
      using "1.IH" [OF True w] True l by (auto simp: add.commute)
    then show ?thesis
      using True w by (intro exI [of _ i]) (simp add: md5_blocks.simps [of ctx bs] md5_chain.simps [of "mbuf ctx" bs])
  next
    case False
    then show ?thesis
      using "1.prems" by (intro exI [of _ "inb ctx"]) (simp add: md5_blocks.simps [of ctx bs] md5_chain_short)
  qed
qed

definition md5_bits :: "MD5Context \<Rightarrow> nat" where
  "md5_bits ctx = unat (bits0 ctx) + 2 ^ 32 * unat (bits1 ctx)"

lemma mod_wrap: "N \<le> x \<Longrightarrow> x < 2 * N \<Longrightarrow> x mod N = x - (N :: nat)"
  by (simp add: le_mod_geq)

lemma wrap_less: "t < N \<Longrightarrow> r < N \<Longrightarrow> (t + r) mod N < t \<longleftrightarrow> N \<le> t + (r :: nat)"
  by (cases "N \<le> t + r") (simp_all add: mod_wrap)

lemma mod_pair: "lo < N \<Longrightarrow> lo + N * (hi mod M) = (lo + N * hi) mod (N * (M :: nat))"
  by (cases "N = 0") (simp_all add: mod_mult2_eq)

text \<open>Addition of a multiple of eight to a two-word count, with the carry as the code computes it.\<close>

lemma count_arith:
  fixes t u r k N :: nat
  assumes "t < N" "r < N"
  shows "(t + r) mod N + N * ((if (t + r) mod N < t then u + 1 + k else u + k) mod N) = (t + N * u + (r + N * k)) mod (N * N)"
proof (cases "N \<le> t + r")
  case True
  then have w: "(t + r) mod N = t + r - N" using assms by (simp add: mod_wrap)
  have "(t + r - N) + N * ((u + 1 + k) mod N) = ((t + r - N) + N * (u + 1 + k)) mod (N * N)"
    using assms by (intro mod_pair) linarith
  also have "(t + r - N) + N * (u + 1 + k) = t + N * u + (r + N * k)"
    using True by (simp add: algebra_simps)
  finally show ?thesis using True assms w by (simp add: wrap_less)
next
  case False
  have "(t + r) + N * ((u + k) mod N) = ((t + r) + N * (u + k)) mod (N * N)"
    using False by (intro mod_pair) simp
  also have "(t + r) + N * (u + k) = t + N * u + (r + N * k)" by (simp add: algebra_simps)
  finally show ?thesis using False assms by (simp add: wrap_less)
qed

lemma unat_add32: "unat (x + y) = (unat x + unat y) mod 2 ^ 32" for x y :: u32
  using unat_word_ariths(1) [of x y] by simp

lemma md5_count_fields:
  "bits0 (md5_count ctx l) = bits0 ctx + push_bit 3 l"
  "bits1 (md5_count ctx l) =
     (if bits0 ctx + push_bit 3 l < bits0 ctx then bits1 ctx + 1 else bits1 ctx) + drop_bit 29 l"
  "mbuf (md5_count ctx l) = mbuf ctx" "inb (md5_count ctx l) = inb ctx"
  by (simp_all add: md5_count_def Let_def)

lemma md5_count_bits:
  assumes "n < 2 ^ 32"
  shows "md5_bits (md5_count ctx (word_of_nat n)) = (md5_bits ctx + 8 * n) mod 2 ^ 64"
proof -
  let ?t = "unat (bits0 ctx)" and ?u = "unat (bits1 ctx)"
  let ?l = "word_of_nat n :: u32"
  have l: "unat ?l = n" using assms by (simp add: unsigned_of_nat take_bit_nat_eq_self)
  define r where "r = 8 * n mod 2 ^ 32"
  have p: "unat (push_bit 3 ?l) = r"
    unfolding r_def using l by (simp add: push_bit_eq_mult unat_word_ariths mult.commute)
  have d: "unat (drop_bit 29 ?l) = n div 2 ^ 29"
    using l by (simp add: drop_bit_eq_div unat_div_distrib)
  have tl: "?t < 2 ^ 32" "r < 2 ^ 32" using unsigned_less [of "bits0 ctx"] by (simp_all add: r_def)
  have "8 * n div 2 ^ 32 = n div 2 ^ 29"
    using div_mult_mult1 [of 8 n "2 ^ 29"] by simp
  then have q: "8 * n = r + 2 ^ 32 * (n div 2 ^ 29)" unfolding r_def by (metis mult_div_mod_eq add.commute)
  have c: "bits0 ctx + push_bit 3 ?l < bits0 ctx \<longleftrightarrow> (?t + r) mod 2 ^ 32 < ?t"
    by (simp only: word_less_nat_alt unat_add32 p)
  have u: "unat ((if bits0 ctx + push_bit 3 ?l < bits0 ctx then bits1 ctx + 1 else bits1 ctx) + drop_bit 29 ?l)
     = (if (?t + r) mod 2 ^ 32 < ?t then ?u + 1 + n div 2 ^ 29 else ?u + n div 2 ^ 29) mod 2 ^ 32"
    unfolding c by (cases "(?t + r) mod 2 ^ 32 < ?t") (simp_all only: unat_add32 d unsigned_1 mod_add_left_eq if_True if_False)
  have "md5_bits (md5_count ctx ?l) = (?t + r) mod 2 ^ 32 + 2 ^ 32 *
     ((if (?t + r) mod 2 ^ 32 < ?t then ?u + 1 + n div 2 ^ 29 else ?u + n div 2 ^ 29) mod 2 ^ 32)"
    unfolding md5_bits_def md5_count_fields u unat_add32 [of "bits0 ctx"] p ..
  also have "\<dots> = (?t + 2 ^ 32 * ?u + (r + 2 ^ 32 * (n div 2 ^ 29))) mod (2 ^ 32 * 2 ^ 32)"
    by (rule count_arith [OF tl])
  finally show ?thesis unfolding q md5_bits_def by (simp only: power_add [symmetric]) simp
qed

text \<open>What a context holds after the bytes \<open>m\<close>.\<close>

definition md5_pending :: "byte_buf \<Rightarrow> byte_buf" where
  "md5_pending m = drop (length m - length m mod 64) m"

definition md5_rep :: "MD5Context \<Rightarrow> byte_buf \<Rightarrow> bool" where
  "md5_rep ctx m \<longleftrightarrow> length (inb ctx) = 64 \<and> mbuf ctx = md5_chain md5_iv m \<and>
     take (length m mod 64) (inb ctx) = md5_pending m \<and> md5_bits ctx = 8 * length m mod 2 ^ 64"

lemma length_pending: "length (md5_pending m) = length m mod 64"
  by (simp add: md5_pending_def)

lemma pending_append: "md5_pending (md5_pending m @ bs) = md5_pending (m @ bs)"
proof -
  have "length m = (length m - length m mod 64) + length m mod 64" by simp
  moreover have "m = take (length m - length m mod 64) m @ md5_pending m" by (simp add: md5_pending_def)
  moreover have "(length m - length m mod 64) mod 64 = 0" by (simp add: minus_mod_eq_mult_div)
  moreover have "md5_pending (p @ x) = md5_pending x" if "length p mod 64 = 0" for p x :: byte_buf
  proof -
    have "(length p + length x) mod 64 = length x mod 64" using that by (metis add_0 mod_add_left_eq)
    then have "length p + length x - (length p + length x) mod 64 = length p + (length x - length x mod 64)"
      by simp
    then show ?thesis by (simp add: md5_pending_def)
  qed
  ultimately show ?thesis
    by (metis append_assoc diff_le_self length_take min.absorb2)
qed

lemma chain_pending: "md5_chain h (m @ bs) = md5_chain (md5_chain h m) (md5_pending m @ bs)"
  by (simp add: md5_chain_append [of h m bs] md5_pending_def)

lemma md5_offset:
  assumes "md5_bits ctx = 8 * n mod 2 ^ 64"
  shows "unat (drop_bit 3 (bits0 ctx) AND 0x3f) = n mod 64"
proof -
  have "unat (bits0 ctx) = md5_bits ctx mod 2 ^ 32"
  proof -
    have "unat (bits0 ctx) < 2 ^ 32" using unsigned_less [of "bits0 ctx"] by simp
    then show ?thesis by (simp add: md5_bits_def)
  qed
  also have "\<dots> = 8 * n mod 2 ^ 32" unfolding assms by (rule mod_mod_cancel) simp
  finally have b: "unat (bits0 ctx) = 8 * n mod 2 ^ 32" .
  have "drop_bit 3 (bits0 ctx) AND 0x3f = take_bit 6 (drop_bit 3 (bits0 ctx))"
    by (simp add: take_bit_eq_mask mask_eq_exp_minus_1)
  then have "unat (drop_bit 3 (bits0 ctx) AND 0x3f) = unat (bits0 ctx) div 8 mod 64"
    by (simp add: take_bit_eq_mod unat_mod_distrib drop_bit_eq_div unat_div_distrib)
  also have "\<dots> = n mod 64"
  proof -
    have "8 * n mod 2 ^ 32 = 8 * (n mod 2 ^ 29)" using mult_mod_right [of 8 n "2 ^ 29"] by simp
    moreover have "n mod 2 ^ 29 mod 64 = n mod 64" by (rule mod_mod_cancel) simp
    ultimately show ?thesis unfolding b by simp
  qed
  finally show ?thesis .
qed

lemma md5_rep_init: "md5_rep MD5Init []"
  by (simp add: md5_rep_def MD5Init_def md5_chain_short md5_iv_def md5_pending_def md5_bits_def)

text \<open>The part of \<open>MD5Update\<close> after the bit count and the first, partial block.\<close>

lemma md5_update_tail:
  assumes "length (inb ctx) = 64"
  shows "\<exists>i. do { (ctx, bs) \<leftarrow> md5_blocks ctx bs; i \<leftarrow> wr_bytes (inb ctx) 0 bs; Some (ctx\<lparr>inb := i\<rparr>) } =
      Some (ctx\<lparr>inb := i, mbuf := md5_chain (mbuf ctx) bs\<rparr>) \<and>
     length i = 64 \<and> take (length bs mod 64) i = md5_pending bs"
proof -
  obtain i where i: "md5_blocks ctx bs = Some (ctx\<lparr>inb := i, mbuf := md5_chain (mbuf ctx) bs\<rparr>, md5_pending bs)" "length i = 64"
    using md5_blocks_ok [OF assms, of bs] by (auto simp: md5_pending_def)
  have "length (md5_pending bs) < 64" by (simp add: length_pending)
  then show ?thesis
    using i by (intro exI [of _ "md5_pending bs @ drop (length (md5_pending bs)) i"])
       (simp add: wr_bytes_def length_pending [symmetric])
qed

lemma MD5Update_ok:
  assumes r: "md5_rep ctx m" and n: "length bs < 2 ^ 32"
  shows "\<exists>ctx'. MD5Update ctx bs = Some ctx' \<and> md5_rep ctx' (m @ bs)"
proof -
  define t where "t = length m mod 64"
  define c1 where "c1 = md5_count ctx (word_of_nat (length bs))"
  have c: "inb c1 = inb ctx" "mbuf c1 = mbuf ctx" by (simp_all add: c1_def md5_count_fields)
  have off: "unat (drop_bit 3 (bits0 ctx) AND 0x3f) = t"
    using r unfolding t_def by (intro md5_offset) (simp add: md5_rep_def)
  have "md5_bits c1 = (8 * length m mod 2 ^ 64 + 8 * length bs) mod 2 ^ 64"
    unfolding c1_def md5_count_bits [OF n] using r by (simp only: md5_rep_def)
  then have bits: "md5_bits c1 = 8 * length (m @ bs) mod 2 ^ 64"
    by (simp only: mod_add_left_eq length_append distrib_left)
  have p: "take t (inb ctx) = md5_pending m" "length (md5_pending m) = t" "length (inb ctx) = 64"
    "mbuf ctx = md5_chain md5_iv m" "t < 64"
    using r by (simp_all add: md5_rep_def t_def length_pending)
  have fin: "md5_rep (c1\<lparr>inb := i, mbuf := md5_chain md5_iv (m @ bs)\<rparr>) (m @ bs)"
    if "length i = 64" "take (length (m @ bs) mod 64) i = md5_pending (m @ bs)" for i
    using that bits by (simp add: md5_rep_def md5_bits_def)
  show ?thesis
  proof (cases "t \<noteq> 0 \<and> length bs < 64 - t")
    case True
    define i where "i = take t (inb ctx) @ bs @ drop (t + length bs) (inb ctx)"
    have tb: "t + length bs < 64" using True by linarith
    have w: "wr_bytes (inb ctx) t bs = Some i"
      using tb p by (simp add: wr_bytes_def i_def)
    have s: "length (md5_pending m @ bs) < 64" using tb p by simp
    then have "md5_chain md5_iv (m @ bs) = md5_chain md5_iv m"
      by (simp only: chain_pending [of _ m bs] md5_chain_short)
    moreover have "md5_pending (m @ bs) = md5_pending m @ bs"
      using s unfolding pending_append [of m bs, symmetric] by (simp add: md5_pending_def)
    moreover have "length (m @ bs) mod 64 = t + length bs"
      using calculation(2) length_pending [of "m @ bs"] p by simp
    ultimately have "md5_rep (c1\<lparr>inb := i\<rparr>) (m @ bs)"
      using p tb c bits by (simp add: i_def md5_rep_def md5_bits_def)
    then show ?thesis using True w off c by (simp add: MD5Update_def c1_def [symmetric] Let_def)
  next
    case False
    show ?thesis
    proof (cases "t = 0")
      case True
      then have "md5_pending m = []" using p by simp
      then have e: "md5_chain md5_iv (m @ bs) = md5_chain (mbuf c1) bs" "md5_pending (m @ bs) = md5_pending bs"
        using chain_pending [of md5_iv m bs] pending_append [of m bs] p c by simp_all
      have "length (m @ bs) mod 64 = length bs mod 64" using True unfolding t_def by (metis add_0 length_append mod_add_left_eq)
      then show ?thesis
        using md5_update_tail [of c1 bs] fin e p c off True
        by (auto simp: MD5Update_def c1_def [symmetric] Let_def)
    next
      case t0: False
      define i where "i = md5_pending m @ take (64 - t) bs"
      define c2 where "c2 = c1\<lparr>inb := i, mbuf := MD5Transform (mbuf c1) (le32_words i)\<rparr>"
      have li: "length i = 64" using False t0 p by (simp add: i_def)
      have w: "wr_bytes (inb ctx) t (take (64 - t) bs) = Some i"
        using False t0 p by (simp add: wr_bytes_def i_def)
      have s: "md5_pending m @ bs = i @ drop (64 - t) bs" by (simp add: i_def)
      have e: "md5_chain md5_iv (m @ bs) = md5_chain (mbuf c2) (drop (64 - t) bs)"
        unfolding chain_pending [of _ m bs] s md5_chain_block [OF li] using c p by (simp add: c2_def)
      have d: "md5_pending (m @ bs) = md5_pending (drop (64 - t) bs)"
        unfolding pending_append [of m bs, symmetric] s using li by (simp add: md5_pending_def)
      then have l: "length (m @ bs) mod 64 = length (drop (64 - t) bs) mod 64"
        by (simp only: length_pending [symmetric])
      have c21: "c2\<lparr>inb := j, mbuf := x\<rparr> = c1\<lparr>inb := j, mbuf := x\<rparr>" for j x by (simp add: c2_def)
      have "MD5Update ctx bs = do { (ctx, bs) \<leftarrow> md5_blocks c2 (drop (64 - t) bs);
          i \<leftarrow> wr_bytes (inb ctx) 0 bs; Some (ctx\<lparr>inb := i\<rparr>) }"
        using w off t0 False c by (simp add: MD5Update_def c1_def [symmetric] Let_def c2_def)
      moreover obtain j where "do { (ctx, bs) \<leftarrow> md5_blocks c2 (drop (64 - t) bs);
          i \<leftarrow> wr_bytes (inb ctx) 0 bs; Some (ctx\<lparr>inb := i\<rparr>) } =
          Some (c1\<lparr>inb := j, mbuf := md5_chain md5_iv (m @ bs)\<rparr>)" "length j = 64"
          "take (length (m @ bs) mod 64) j = md5_pending (m @ bs)"
        using md5_update_tail [of c2 "drop (64 - t) bs"] li unfolding c21 e [symmetric] d [symmetric] l [symmetric]
        by (auto simp: c2_def)
      ultimately show ?thesis using fin [of j] by simp
    qed
  qed
qed

lemma MD5Final_ok:
  assumes r: "md5_rep ctx m"
  shows "MD5Final ctx = Some (md5 m, \<lparr>mbuf = (0, 0, 0, 0), bits0 = 0, bits1 = 0, inb = replicate 64 0\<rparr>)"
proof -
  define t where "t = length m mod 64"
  define p where "p = md5_pending m"
  define z where "z = drop t (inb ctx)"
  define cnt where "cnt = le32_bytes (bits0 ctx) @ le32_bytes (bits1 ctx)"
  have off: "unat (drop_bit 3 (bits0 ctx) AND 0x3f) = t"
    using r unfolding t_def by (intro md5_offset) (simp add: md5_rep_def)
  have f: "inb ctx = p @ z" "length p = t" "length z = 64 - t" "t < 64" "mbuf ctx = md5_chain md5_iv m"
    using r append_take_drop_id [of t "inb ctx"] by (simp_all add: md5_rep_def t_def p_def z_def length_pending)
  have w80: "wr_bytes (inb ctx) t [0x80] = Some (p @ 0x80 # drop 1 z)"
    using f by (simp add: wr_bytes_def)
  have b: "md5_bits ctx = 8 * length m mod 2 ^ 64" using r by (simp add: md5_rep_def)
  have lt: "unat (bits0 ctx) < 2 ^ 32" "unat (bits1 ctx) < 2 ^ 32"
    using unsigned_less [of "bits0 ctx"] unsigned_less [of "bits1 ctx"] by simp_all
  have b0: "bits0 ctx = word_of_nat (8 * length m)"
  proof -
    have "unat (bits0 ctx) = md5_bits ctx mod 2 ^ 32" using lt by (simp add: md5_bits_def)
    also have "\<dots> = 8 * length m mod 2 ^ 32" unfolding b by (rule mod_mod_cancel) simp
    also have "\<dots> = unat (word_of_nat (8 * length m) :: u32)"
      by (simp only: unsigned_of_nat take_bit_eq_mod) simp
    finally show ?thesis by (simp only: word_unat_eq_iff)
  qed
  have b1: "bits1 ctx = word_of_nat (8 * length m div 2 ^ 32)"
  proof -
    have "unat (bits1 ctx) = md5_bits ctx div 2 ^ 32" using lt by (simp add: md5_bits_def)
    also have "\<dots> = 8 * length m div 2 ^ 32 mod 2 ^ 32"
      unfolding b using div_mult2_eq mod_mult2_eq [of "8 * length m" "2 ^ 32" "2 ^ 32"] by (simp add: power_add [symmetric])
    also have "\<dots> = unat (word_of_nat (8 * length m div 2 ^ 32) :: u32)"
      by (simp only: unsigned_of_nat take_bit_eq_mod) simp
    finally show ?thesis by (simp only: word_unat_eq_iff)
  qed
  have pad: "md5_pad (length m) = 0x80 # replicate ((119 - t) mod 64) 0 @ cnt"
    unfolding md5_pad_def t_def cnt_def b0 b1 ..
  have lc: "length cnt = 8" by (simp add: cnt_def)
  have ch: "md5_chain md5_iv (m @ x) = md5_chain (mbuf ctx) (p @ x)" for x
    using chain_pending [of md5_iv m x] f(5) by (simp add: p_def)
  show ?thesis
  proof (cases "63 - t < 8")
    case True
    then have z: "(119 - t) mod 64 = (63 - t) + 56" using f(4) by (simp add: mod_if)
    define i1 where "i1 = p @ 0x80 # replicate (63 - t) 0"
    define i2 where "i2 = replicate 56 0 @ cnt"
    have l: "length i1 = 64" "length i2 = 64" using f lc by (simp_all add: i1_def i2_def)
    have w1: "wr_bytes (p @ 0x80 # drop 1 z) (t + 1) (replicate (63 - t) 0) = Some i1"
      using f by (simp add: wr_bytes_def i1_def)
    have w2: "wr_bytes i1 0 (replicate 56 0) = Some (replicate 56 0 @ drop 56 i1)"
      using l by (simp add: wr_bytes_def)
    have w3: "wr_bytes (replicate 56 0 @ drop 56 i1) 56 cnt = Some i2"
      using l lc by (simp add: wr_bytes_def i2_def)
    have "p @ md5_pad (length m) = i1 @ i2 @ []"
      unfolding pad z i1_def i2_def by (simp add: replicate_add)
    then have "md5 m = md5_bytes (MD5Transform (MD5Transform (mbuf ctx) (le32_words i1)) (le32_words i2))"
      unfolding md5_def ch by (simp only: md5_chain_block l) (simp add: md5_chain_short)
    then show ?thesis
      using True off w80 w1 w2 w3 by (simp add: MD5Final_def cnt_def)
  next
    case False
    then have z: "(119 - t) mod 64 = 63 - t - 8" using f(4) by (simp add: mod_if)
    define i where "i = p @ 0x80 # replicate (63 - t - 8) 0 @ cnt"
    have l: "length i = 64" using f lc False by (simp add: i_def)
    have w1: "wr_bytes (p @ 0x80 # drop 1 z) (t + 1) (replicate (63 - t - 8) 0) =
        Some (p @ 0x80 # replicate (63 - t - 8) 0 @ drop (63 - t - 8) (drop 1 z))"
      using f False Suc_diff_le [of t 55] by (simp add: wr_bytes_def)
    have w3: "wr_bytes (p @ 0x80 # replicate (63 - t - 8) 0 @ drop (63 - t - 8) (drop 1 z)) 56 cnt = Some i"
      using f lc False Suc_diff_le [of t 55] by (simp add: wr_bytes_def i_def)
    have "p @ md5_pad (length m) = i @ []" unfolding pad z i_def by simp
    then have "md5 m = md5_bytes (MD5Transform (mbuf ctx) (le32_words i))"
      unfolding md5_def ch by (simp only: md5_chain_block l) (simp add: md5_chain_short)
    then show ?thesis
      using False off w80 w1 w3 by (simp add: MD5Final_def cnt_def)
  qed
qed

text \<open>A digest as the callers compute it: one \<open>MD5Update\<close> per piece.\<close>

fun md5_updates :: "MD5Context \<Rightarrow> byte_buf list \<Rightarrow> MD5Context option" where
  "md5_updates ctx [] = Some ctx"
| "md5_updates ctx (b # bs) = do { ctx \<leftarrow> MD5Update ctx b; md5_updates ctx bs }"

definition md5_of :: "byte_buf list \<Rightarrow> byte_buf option" where
  "md5_of bs = do { ctx \<leftarrow> md5_updates MD5Init bs; (d, ctx) \<leftarrow> MD5Final ctx; Some d }"

lemma md5_updates_ok:
  assumes "md5_rep ctx m" "\<forall>b \<in> set bs. length b < 2 ^ 32"
  shows "\<exists>ctx'. md5_updates ctx bs = Some ctx' \<and> md5_rep ctx' (m @ concat bs)"
  using assms
proof (induction bs arbitrary: ctx m)
  case (Cons b bs)
  then obtain c1 where "MD5Update ctx b = Some c1" "md5_rep c1 (m @ b)"
    using MD5Update_ok [of ctx m b] by auto
  then show ?case using Cons.IH [of c1 "m @ b"] Cons.prems(2) by simp
qed simp

lemma md5_of_ok:
  assumes "\<forall>b \<in> set bs. length b < 2 ^ 32"
  shows "md5_of bs = Some (md5 (concat bs))"
proof -
  obtain c where c: "md5_updates MD5Init bs = Some c" "md5_rep c (concat bs)"
    using md5_updates_ok [OF md5_rep_init assms] by auto
  then obtain c' where "MD5Final c = Some (md5 (concat bs), c')"
    using MD5Final_ok by blast
  with c show ?thesis by (simp add: md5_of_def)
qed

section \<open>Properties\<close>

text \<open>
  C11: MD5. However the input is cut into calls of \<open>MD5Update\<close>, the digest \<open>MD5Final\<close> returns is
  that of RFC 1321 for the concatenation: padding, the 64-bit length with its carry, and the block
  buffer are handled without leaving the 64-byte buffer. \<open>MD5Final\<close> wipes the context: all of it is zero afterwards.
  Each piece is shorter than 4 GB, which is what the 32-bit length of \<open>MD5Update\<close> can express.
\<close>

theorem md5_streaming:
  assumes "\<forall>b \<in> set bs. length b < 2 ^ 32"
  shows "\<exists>ctx. md5_updates MD5Init bs = Some ctx \<and>
     MD5Final ctx = Some (md5 (concat bs), \<lparr>mbuf = (0, 0, 0, 0), bits0 = 0, bits1 = 0, inb = replicate 64 0\<rparr>) \<and>
     mbuf ctx = md5_chain md5_iv (concat bs) \<and> md5_bits ctx = 8 * length (concat bs) mod 2 ^ 64"
proof -
  obtain c where c: "md5_updates MD5Init bs = Some c" "md5_rep c (concat bs)"
    using md5_updates_ok [OF md5_rep_init assms] by auto
  then show ?thesis using MD5Final_ok [OF c(2)] by (auto simp: md5_rep_def)
qed

lemma md5_streaming_witness:
  "\<exists>ctx ctx'. md5_updates MD5Init [[1, 2], replicate 70 7, []] = Some ctx \<and>
     MD5Final ctx = Some (md5 ([1, 2] @ replicate 70 7), ctx') \<and> inb ctx' = replicate 64 0"
  using md5_streaming [of "[[1, 2], replicate 70 7, []]"] by auto

end
