(* ===== verification/L2tp_Hidden.thy ===== *)
theory L2tp_Hidden
  imports L2tp_Data Md5
begin

text \<open>
  Hidden AVPs (\<open>encrypt_avp\<close> and \<open>decrypt_avp\<close> of \<open>aaa.c\<close>): the value of an AVP is
  combined with a chain of MD5 digests over a shared secret, a random vector and the
  preceding cipher text. A packet buffer is the list of bytes from \<open>buf->start\<close> to the end
  of its allocation; pointers into it are offsets. Decryption is proved to invert encryption.
\<close>

section \<open>16-bit fields of a packet (struct unaligned_u16, struct avp_hdr)\<close>

text \<open>\<open>raw[i].s\<close> for \<open>raw\<close> at offset \<open>off\<close>, and its assignment.\<close>

definition raw :: "byte_buf \<Rightarrow> nat \<Rightarrow> nat \<Rightarrow> u16 option" where
  "raw b off i = do {
     lo \<leftarrow> arr_get b (off + 2 * i);
     hi \<leftarrow> arr_get b (off + 2 * i + 1);
     Some (join16 hi lo) }"

definition set_raw :: "byte_buf \<Rightarrow> nat \<Rightarrow> nat \<Rightarrow> u16 \<Rightarrow> byte_buf option" where
  "set_raw b off i w = wr_bytes b (off + 2 * i) (le16_bytes w)"

abbreviation (input) "HBIT \<equiv> (0x4000 :: u16)"

section \<open>Encryption (aaa.c)\<close>

text \<open>One round of the inner loop: the 16 bytes at \<open>ptr\<close> are combined with the digest.\<close>

fun xor_bytes :: "byte_buf \<Rightarrow> byte_buf \<Rightarrow> byte_buf" where
  "xor_bytes (x # xs) (y # ys) = (x XOR y) # xor_bytes xs ys"
| "xor_bytes _ _ = []"

definition xor_segment :: "byte_buf \<Rightarrow> nat \<Rightarrow> byte_buf \<Rightarrow> byte_buf option" where
  "xor_segment b ptr digest = do {
     seg \<leftarrow> rd_bytes b ptr MD_SIG_SIZE;
     wr_bytes b ptr (xor_bytes seg digest) }"

function encrypt_loop :: "byte_buf \<Rightarrow> byte_buf \<Rightarrow> nat \<Rightarrow> nat \<Rightarrow> byte_buf \<Rightarrow> byte_buf option" where
  "encrypt_loop secret b ptr stop digest =
     (if ptr < stop then do {
        b \<leftarrow> xor_segment b ptr digest;
        if ptr + 16 < stop then do {
          previous_segment \<leftarrow> rd_bytes b ptr MD_SIG_SIZE;
          digest \<leftarrow> md5_of [secret, previous_segment];
          encrypt_loop secret b (ptr + 16) stop digest }
        else Some b }
      else Some b)"
  by pat_completeness auto
termination by (relation "measure (\<lambda>(secret, b, ptr, stop, digest). stop - ptr)") auto

declare encrypt_loop.simps [simp del]

text \<open>\<open>blen\<close> is \<open>buf->len\<close>; the AVP of \<open>len\<close> bytes, two spare bytes included before it, ends there.\<close>

definition encrypt_avp :: "l2tp \<Rightarrow> byte_buf \<Rightarrow> nat \<Rightarrow> nat \<Rightarrow> (byte_buf \<times> nat) option" where
  "encrypt_avp st b blen len =
     (if blen < len \<or> len < 6 then None
      else do {
        let new_hdr = blen - len;
        let old_hdr = new_hdr + 2;
        let length' = ((len - 6 + 1) div 16 + 1) * 16 + 6;
        ol \<leftarrow> raw b old_hdr 0;
        let flags = htons ol AND 0xF000;
        b \<leftarrow> set_raw b new_hdr 0 (htons (word_of_nat length' OR flags OR HBIT));
        ov \<leftarrow> raw b old_hdr 1;
        b \<leftarrow> set_raw b new_hdr 1 ov;
        attr \<leftarrow> raw b old_hdr 2;
        b \<leftarrow> set_raw b new_hdr 2 attr;
        b \<leftarrow> set_raw b old_hdr 2 (htons (word_of_nat (len - 6)));
        vec \<leftarrow> rd_bytes (them_vector st) 0 VECTOR_SIZE;
        let secret = c_string (them_secret st);
        digest \<leftarrow> md5_of [le16_bytes attr, secret, vec];
        b \<leftarrow> encrypt_loop secret b (new_hdr + 6) (new_hdr + length') digest;
        Some (b, blen - len + length') })"

section \<open>Decryption (aaa.c)\<close>

function decrypt_loop ::
  "byte_buf \<Rightarrow> byte_buf \<Rightarrow> nat \<Rightarrow> nat \<Rightarrow> nat \<Rightarrow> byte_buf \<Rightarrow> byte_buf \<Rightarrow> byte_buf option" where
  "decrypt_loop secret b ptr stop cnt digest saved =
     (if ptr < stop then do {
        (digest, cnt) \<leftarrow>
          (if cnt \<ge> MD_SIG_SIZE then do { d \<leftarrow> md5_of [secret, saved]; Some (d, 0) } else Some (digest, cnt));
        saved \<leftarrow>
          (if cnt = 0 then do { s \<leftarrow> rd_bytes b ptr (min (stop - ptr) MD_SIG_SIZE); wr_bytes saved 0 s }
           else Some saved);
        d \<leftarrow> arr_get digest cnt;
        b \<leftarrow> arr_upd b ptr (\<lambda>x. x XOR d);
        decrypt_loop secret b (ptr + 1) stop (cnt + 1) digest saved }
      else Some b)"
  by pat_completeness auto
termination by (relation "measure (\<lambda>(secret, b, ptr, stop, cnt, digest, saved). stop - ptr)") auto

declare decrypt_loop.simps [simp del]

text \<open>The header at \<open>buf\<close> is already in host order; the result is 0 or \<open>-EINVAL\<close>.\<close>

definition decrypt_avp :: "l2tp \<Rightarrow> byte_buf \<Rightarrow> nat \<Rightarrow> (int \<times> byte_buf) option" where
  "decrypt_avp st b old_hdr = do {
     let new_hdr = old_hdr + 2;
     ol \<leftarrow> raw b old_hdr 0;
     let olen = unat (ol AND 0x0FFF);
     case us_vector st of
       None \<Rightarrow> Some (- EINVAL, b)
     | Some v \<Rightarrow> do {
         oa \<leftarrow> raw b old_hdr 2;
         vec \<leftarrow> rd_bytes b v (nat (us_vector_len st));
         let secret = c_string (us_secret st);
         digest \<leftarrow> md5_of [le16_bytes (ntohs oa), secret, vec];
         b \<leftarrow> decrypt_loop secret b (old_hdr + 6) (old_hdr + olen) 0 digest (replicate 16 0);
         let flags = ol AND 0xF000 AND NOT HBIT;
         na \<leftarrow> raw b new_hdr 2;
         let len = unat (ntohs na) + 6;
         if int len > int olen - 2 then Some (- EINVAL, b)
         else do {
           b \<leftarrow> set_raw b new_hdr 2 oa;
           ov \<leftarrow> raw b old_hdr 1;
           b \<leftarrow> set_raw b new_hdr 1 ov;
           b \<leftarrow> set_raw b new_hdr 0 (word_of_nat len OR flags);
           Some (0, b) } } }"

section \<open>Hiding as a function on byte sequences\<close>

text \<open>RFC 2661, section 4.3: each block of 16 is combined with the digest of secret and previous block.\<close>

function hide :: "byte_buf \<Rightarrow> byte_buf \<Rightarrow> byte_buf \<Rightarrow> byte_buf" where
  "hide secret d p =
     (let c = xor_bytes (take 16 p) d
      in if length p \<le> 16 then c else c @ hide secret (md5 (secret @ c)) (drop 16 p))"
  by pat_completeness auto
termination by (relation "measure (\<lambda>(secret, d, p). length p)") auto

function unhide :: "byte_buf \<Rightarrow> byte_buf \<Rightarrow> byte_buf \<Rightarrow> byte_buf" where
  "unhide secret d c =
     (if length c \<le> 16 then xor_bytes c d
      else xor_bytes (take 16 c) d @ unhide secret (md5 (secret @ take 16 c)) (drop 16 c))"
  by pat_completeness auto
termination by (relation "measure (\<lambda>(secret, d, c). length c)") auto

declare hide.simps [simp del] unhide.simps [simp del]

lemma length_xor_bytes [simp]: "length (xor_bytes xs ys) = min (length xs) (length ys)"
  by (induction xs ys rule: xor_bytes.induct) auto

lemma xor_bytes_twice: "length xs \<le> length d \<Longrightarrow> xor_bytes (xor_bytes xs d) d = xs"
  by (induction xs d rule: xor_bytes.induct) (auto simp: xor.assoc)

lemma length_hide: "length d = 16 \<Longrightarrow> length (hide secret d p) = length p"
proof (induction secret d p rule: hide.induct)
  case (1 secret d p)
  show ?case
  proof (cases "length p \<le> 16")
    case False
    then have "length (hide secret (md5 (secret @ xor_bytes (take 16 p) d)) (drop 16 p)) = length (drop 16 p)"
      using 1 by simp
    then show ?thesis using False 1(2) by (simp add: hide.simps [of secret d p] Let_def)
  qed (use 1(2) in \<open>simp add: hide.simps [of secret d p] Let_def\<close>)
qed

lemma unhide_hide: "length d = 16 \<Longrightarrow> unhide secret d (hide secret d p) = p"
proof (induction secret d p rule: hide.induct)
  case (1 secret d p)
  show ?case
  proof (cases "length p \<le> 16")
    case True
    then show ?thesis using 1(2) by (simp add: hide.simps [of secret d p] unhide.simps Let_def xor_bytes_twice)
  next
    case False
    let ?c = "xor_bytes (take 16 p) d" and ?r = "hide secret (md5 (secret @ xor_bytes (take 16 p) d)) (drop 16 p)"
    have h: "hide secret d p = ?c @ ?r" using False by (simp add: hide.simps [of secret d p] Let_def)
    have l: "length ?c = 16" "length ?r = length p - 16" using False 1(2) by (simp_all add: length_hide)
    have "unhide secret d (?c @ ?r) = xor_bytes ?c d @ unhide secret (md5 (secret @ ?c)) ?r"
      using l False by (simp add: unhide.simps [of secret d "?c @ ?r"])
    also have "\<dots> = p" using 1 False by (simp add: xor_bytes_twice)
    finally show ?thesis unfolding h .
  qed
qed

lemma rd_mid: "length pre = o' \<Longrightarrow> length xs = n \<Longrightarrow> rd_bytes (pre @ xs @ post) o' n = Some xs"
  by (simp add: rd_bytes_def)

lemma wr_mid: "length pre = o' \<Longrightarrow> length ys = length xs \<Longrightarrow> wr_bytes (pre @ xs @ post) o' ys = Some (pre @ ys @ post)"
  by (simp add: wr_bytes_def)

lemma md5_of_two: "length a < 2 ^ 32 \<Longrightarrow> length b < 2 ^ 32 \<Longrightarrow> md5_of [a, b] = Some (md5 (a @ b))"
  by (simp add: md5_of_ok)

lemma encrypt_loop_hide:
  assumes "length p = 16 * k" "0 < k" "length d = 16" "length secret < 2 ^ 32"
  shows "encrypt_loop secret (pre @ p @ post) (length pre) (length pre + length p) d = Some (pre @ hide secret d p @ post)"
  using assms
proof (induction k arbitrary: pre p d)
  case (Suc k)
  define s r where "s = take 16 p" and "r = drop 16 p"
  have p: "p = s @ r" "length s = 16" "length r = 16 * k" using Suc.prems by (simp_all add: s_def r_def)
  define c where "c = xor_bytes s d"
  have lc: "length c = 16" using p Suc.prems by (simp add: c_def)
  have x: "xor_segment (pre @ p @ post) (length pre) d = Some (pre @ c @ r @ post)"
    using rd_mid [of pre "length pre" s 16 "r @ post"] wr_mid [of pre "length pre" c s "r @ post"] p lc
    by (simp add: xor_segment_def c_def)
  have rc: "rd_bytes (pre @ c @ r @ post) (length pre) 16 = Some c" using lc by (intro rd_mid) simp_all
  have m: "md5_of [secret, c] = Some (md5 (secret @ c))" using Suc.prems lc by (intro md5_of_two) simp_all
  show ?case
  proof (cases "k = 0")
    case True
    then show ?thesis using p x by (subst encrypt_loop.simps, subst hide.simps) (simp add: c_def Let_def)
  next
    case False
    then have "encrypt_loop secret ((pre @ c) @ r @ post) (length (pre @ c)) (length (pre @ c) + length r) (md5 (secret @ c)) =
      Some ((pre @ c) @ hide secret (md5 (secret @ c)) r @ post)"
      using p Suc.prems by (intro Suc.IH) simp_all
    then show ?thesis using False p x rc m lc Suc.prems(3)
      by (subst encrypt_loop.simps, subst hide.simps) (simp add: c_def Let_def add.assoc)
  qed
qed simp

text \<open>The rest of a segment, byte by byte.\<close>

lemma decrypt_segment:
  assumes "length d = 16" "0 < i" "i + length s \<le> 16"
  shows "decrypt_loop secret (pre @ s @ r) (length pre) (length pre + length s + n) i d saved =
         decrypt_loop secret (pre @ xor_bytes s (drop i d) @ r) (length pre + length s) (length pre + length s + n) (i + length s) d saved"
  using assms
proof (induction s arbitrary: pre i)
  case (Cons x s)
  have d: "drop i d = d ! i # drop (Suc i) d" using Cons.prems by (simp add: Cons_nth_drop_Suc)
  have "decrypt_loop secret ((pre @ [x XOR d ! i]) @ s @ r) (length (pre @ [x XOR d ! i])) (length (pre @ [x XOR d ! i]) + length s + n) (Suc i) d saved =
    decrypt_loop secret ((pre @ [x XOR d ! i]) @ xor_bytes s (drop (Suc i) d) @ r) (length (pre @ [x XOR d ! i]) + length s)
      (length (pre @ [x XOR d ! i]) + length s + n) (Suc i + length s) d saved"
    using Cons.prems by (intro Cons.IH) simp_all
  then show ?case using Cons.prems
    by (subst decrypt_loop.simps) (simp add: arr_get_def arr_upd_def d list_update_append)
qed simp

lemma decrypt_loop_next:
  assumes "ptr < stop" "length saved = 16" "length secret < 2 ^ 32"
  shows "decrypt_loop secret b ptr stop 16 d saved = decrypt_loop secret b ptr stop 0 (md5 (secret @ saved)) saved"
proof -
  have "md5_of [secret, saved] = Some (md5 (secret @ saved))" using assms by (intro md5_of_two) simp_all
  then show ?thesis
    using assms(1) by (simp add: decrypt_loop.simps [of secret b ptr stop 16] decrypt_loop.simps [of secret b ptr stop 0])
qed

text \<open>The first byte of a segment saves the segment's cipher text; the others follow.\<close>

lemma decrypt_block:
  assumes "length d = 16" "length saved = 16" "s \<noteq> []" "length s \<le> 16" "r = [] \<or> length s = 16"
  shows "decrypt_loop secret (pre @ s @ r @ post) (length pre) (length pre + length (s @ r)) 0 d saved =
     decrypt_loop secret (pre @ xor_bytes s d @ r @ post) (length pre + length s) (length pre + length (s @ r)) (length s) d
       (s @ drop (length s) saved)"
proof -
  obtain x s' where s: "s = x # s'" using assms(3) by (cases s) auto
  have m: "min (length (s @ r)) 16 = length s" using assms(4,5) by auto
  have rd: "rd_bytes (pre @ s @ r @ post) (length pre) (length s) = Some s" by (rule rd_mid) simp_all
  have wr: "wr_bytes saved 0 s = Some (s @ drop (length s) saved)" using assms by (simp add: wr_bytes_def)
  have d0: "d = d ! 0 # drop 1 d" using assms(1) by (cases d) auto
  have x0: "xor_bytes s d = (x XOR d ! 0) # xor_bytes s' (drop 1 d)"
    unfolding s by (subst d0) simp
  have "decrypt_loop secret (pre @ s @ r @ post) (length pre) (length pre + length (s @ r)) 0 d saved =
    decrypt_loop secret ((pre @ [x XOR d ! 0]) @ s' @ r @ post) (length (pre @ [x XOR d ! 0]))
      (length (pre @ [x XOR d ! 0]) + length s' + length r) 1 d (s @ drop (length s) saved)"
    using rd wr m assms(1) by (subst decrypt_loop.simps) (simp add: s arr_get_def arr_upd_def list_update_append add.assoc)
  also have "\<dots> = decrypt_loop secret ((pre @ [x XOR d ! 0]) @ xor_bytes s' (drop 1 d) @ r @ post)
      (length (pre @ [x XOR d ! 0]) + length s') (length (pre @ [x XOR d ! 0]) + length s' + length r) (1 + length s') d
      (s @ drop (length s) saved)"
    using assms s by (intro decrypt_segment) simp_all
  finally show ?thesis by (simp add: x0, simp add: s add.assoc)
qed

lemma decrypt_loop_unhide:
  assumes "length d = 16" "length saved = 16" "length secret < 2 ^ 32"
  shows "decrypt_loop secret (pre @ c @ post) (length pre) (length pre + length c) 0 d saved = Some (pre @ unhide secret d c @ post)"
  using assms
proof (induction secret d c arbitrary: pre saved rule: unhide.induct)
  case (1 secret d c)
  show ?case
  proof (cases "length c \<le> 16")
    case True
    show ?thesis
    proof (cases "c = []")
      case False
      have "decrypt_loop secret (pre @ c @ [] @ post) (length pre) (length pre + length (c @ [])) 0 d saved =
        decrypt_loop secret (pre @ xor_bytes c d @ [] @ post) (length pre + length c) (length pre + length (c @ [])) (length c) d
          (c @ drop (length c) saved)"
        using True False 1(2,3) by (intro decrypt_block) simp_all
      also have "\<dots> = Some (pre @ xor_bytes c d @ post)" by (subst decrypt_loop.simps) simp
      finally show ?thesis using True by (simp add: unhide.simps [of secret d c])
    qed (simp add: decrypt_loop.simps [of secret "pre @ post"] unhide.simps)
  next
    case False
    define s r where "s = take 16 c" and "r = drop 16 c"
    have c: "c = s @ r" "length s = 16" "0 < length r" using False by (simp_all add: s_def r_def)
    let ?x = "xor_bytes s d"
    have lx: "length ?x = 16" using c 1(2) by simp
    have "decrypt_loop secret (pre @ s @ r @ post) (length pre) (length pre + length (s @ r)) 0 d saved =
      decrypt_loop secret (pre @ ?x @ r @ post) (length pre + length s) (length pre + length (s @ r)) (length s) d (s @ drop (length s) saved)"
      using c 1(2,3) by (intro decrypt_block) auto
    also have "\<dots> = decrypt_loop secret ((pre @ ?x) @ r @ post) (length (pre @ ?x)) (length (pre @ ?x) + length r) 16 d s"
      using c lx 1(3) by (simp add: add.assoc)
    also have "\<dots> = decrypt_loop secret ((pre @ ?x) @ r @ post) (length (pre @ ?x)) (length (pre @ ?x) + length r) 0 (md5 (secret @ s)) s"
      using c 1(4) by (intro decrypt_loop_next) simp_all
    also have "\<dots> = Some ((pre @ ?x) @ unhide secret (md5 (secret @ s)) r @ post)"
      using 1(1) [OF False, of s "pre @ ?x"] False c(2) 1(4) by (simp add: s_def [symmetric] r_def [symmetric])
    also have "(pre @ ?x) @ unhide secret (md5 (secret @ s)) r @ post = pre @ unhide secret d c @ post"
      using False by (simp add: unhide.simps [of secret d c] s_def r_def)
    finally show ?thesis unfolding c(1) by simp
  qed
qed

section \<open>Headers\<close>

lemma raw_mid: "length pre = o' \<Longrightarrow> raw (pre @ le16_bytes w @ post) o' 0 = Some w"
  by (simp add: raw_def arr_get_def le16_bytes_def nth_append)

lemma set_raw_mid:
  assumes "length pre = o' + 2 * i" "length xs = 2"
  shows "set_raw (pre @ xs @ post) o' i w = Some (pre @ le16_bytes w @ post)"
  using assms by (simp add: set_raw_def wr_bytes_def)

lemma raw_shift: "raw b (off + 2 * k) i = raw b off (k + i)"
  by (simp add: raw_def algebra_simps)

lemma raw_at: "length pre = off + 2 * i \<Longrightarrow> raw (pre @ le16_bytes w @ post) off i = Some w"
  using raw_mid [of pre "off + 2 * i" w post] raw_shift [of _ off i 0] by simp

lemma be16_le16: "be16_bytes w = le16_bytes (htons w)"
  by (simp add: le16_htons)

lemma swaps_header:
  "length pre = o' \<Longrightarrow>
   swaps (pre @ be16_bytes x @ be16_bytes y @ be16_bytes z @ post) o' 3 =
   Some (pre @ le16_bytes x @ le16_bytes y @ le16_bytes z @ post)"
  by (simp add: numeral_3_eq_3 be16_bytes_def le16_bytes_def arr_get_def wr_bytes_def nth_append
      drop_Cons' take_Cons')

text \<open>An AVP as it stands in memory: header in host order, then the value.\<close>

definition host_avp :: "u16 \<Rightarrow> u16 \<Rightarrow> u16 \<Rightarrow> byte_buf" where
  "host_avp lf ven attr = le16_bytes lf @ le16_bytes ven @ le16_bytes attr"

definition net_avp :: "u16 \<Rightarrow> u16 \<Rightarrow> u16 \<Rightarrow> byte_buf" where
  "net_avp lf ven attr = be16_bytes lf @ be16_bytes ven @ be16_bytes attr"

lemma length_avps [simp]: "length (host_avp a b c) = 6" "length (net_avp a b c) = 6"
  by (simp_all add: host_avp_def net_avp_def)

definition hidden_len :: "nat \<Rightarrow> nat" where
  "hidden_len n = ((n + 1) div 16 + 1) * 16"

lemma htons_htons: "htons (htons w) = w"
  by (simp add: htons_def)

text \<open>What encryption leaves in the buffer.\<close>

lemma encrypt_avp_ok:
  assumes sec: "length (c_string (them_secret st)) < 2 ^ 32" and vec: "length (them_vector st) = 16"
    and room: "hidden_len (length val) \<le> 2 + length val + length post"
    and v: "length val < 65536" and xy: "length xy = 2"
  shows "encrypt_avp st (pre @ xy @ net_avp lf ven attr @ val @ post) (length pre + 6 + length val) (6 + length val) =
    Some (pre @ net_avp (word_of_nat (hidden_len (length val) + 6) OR (lf AND 0xF000) OR HBIT) ven attr @
        hide (c_string (them_secret st)) (md5 (be16_bytes attr @ c_string (them_secret st) @ them_vector st))
          (be16_bytes (word_of_nat (length val)) @ val @ take (hidden_len (length val) - 2 - length val) post) @
        drop (hidden_len (length val) - 2 - length val) post,
      length pre + hidden_len (length val) + 6)"
proof -
  let ?n = "length val" and ?h = "hidden_len (length val)"
  let ?sec = "c_string (them_secret st)"
  define pad rest where "pad = take (?h - 2 - ?n) post" and "rest = drop (?h - 2 - ?n) post"
  have post: "post = pad @ rest" by (simp add: pad_def rest_def)
  define nl where "nl = word_of_nat (?h + 6) OR (lf AND 0xF000) OR HBIT"
  define p where "p = be16_bytes (word_of_nat ?n) @ val @ pad"
  have hn: "?n + 2 \<le> ?h" unfolding hidden_len_def by presburger
  have lp: "length p = ?h" using hn room by (simp add: p_def pad_def)
  obtain k where k: "?h = 16 * k" "0 < k" unfolding hidden_len_def by (metis mult.commute zero_less_Suc Suc_eq_plus1)
  obtain l0 l1 where l0: "be16_bytes lf = [l0, l1]" by (simp add: be16_bytes_def)
  have d: "md5_of [be16_bytes attr, ?sec, them_vector st] = Some (md5 (be16_bytes attr @ ?sec @ them_vector st))"
    using sec vec by (simp add: md5_of_ok)
  have r0: "raw (pre @ xy @ net_avp lf ven attr @ val @ post) (length pre + 2) 0 = Some (htons lf)"
    using raw_at [of "pre @ xy" "length pre + 2" 0 "htons lf"] xy by (simp add: net_avp_def be16_le16)
  have s0: "set_raw (pre @ xy @ net_avp lf ven attr @ val @ post) (length pre) 0 (htons nl) =
     Some (pre @ be16_bytes nl @ net_avp lf ven attr @ val @ post)"
    using set_raw_mid [of pre "length pre" 0 xy "net_avp lf ven attr @ val @ post" "htons nl"] xy by (simp add: be16_le16)
  have r1: "raw (pre @ be16_bytes nl @ net_avp lf ven attr @ val @ post) (length pre + 2) 1 = Some (htons ven)"
    using raw_at [of "pre @ be16_bytes nl @ be16_bytes lf" "length pre + 2" 1 "htons ven"] by (simp add: net_avp_def be16_le16)
  have s1: "set_raw (pre @ be16_bytes nl @ net_avp lf ven attr @ val @ post) (length pre) 1 (htons ven) =
     Some (pre @ be16_bytes nl @ be16_bytes ven @ be16_bytes ven @ be16_bytes attr @ val @ post)"
    using set_raw_mid [of "pre @ be16_bytes nl" "length pre" 1 "be16_bytes lf" "be16_bytes ven @ be16_bytes attr @ val @ post" "htons ven"]
    by (simp add: net_avp_def be16_le16)
  have r2: "raw (pre @ be16_bytes nl @ be16_bytes ven @ be16_bytes ven @ be16_bytes attr @ val @ post) (length pre + 2) 2 = Some (htons attr)"
    using raw_at [of "pre @ be16_bytes nl @ be16_bytes ven @ be16_bytes ven" "length pre + 2" 2 "htons attr"] by (simp add: be16_le16)
  have s2: "set_raw (pre @ be16_bytes nl @ be16_bytes ven @ be16_bytes ven @ be16_bytes attr @ val @ post) (length pre) 2 (htons attr) =
     Some (pre @ net_avp nl ven attr @ be16_bytes attr @ val @ post)"
    using set_raw_mid [of "pre @ be16_bytes nl @ be16_bytes ven" "length pre" 2 "be16_bytes ven" "be16_bytes attr @ val @ post" "htons attr"]
    by (simp add: net_avp_def be16_le16)
  have s3: "set_raw (pre @ net_avp nl ven attr @ be16_bytes attr @ val @ post) (length pre + 2) 2 (htons (word_of_nat ?n)) =
     Some ((pre @ net_avp nl ven attr) @ p @ rest)"
    using set_raw_mid [of "pre @ net_avp nl ven attr" "length pre + 2" 2 "be16_bytes attr" "val @ post" "htons (word_of_nat ?n)"]
    by (simp add: p_def post be16_le16)
  have lo: "encrypt_loop ?sec ((pre @ net_avp nl ven attr) @ p @ rest) (length pre + 6) (length pre + (?h + 6)) (md5 (be16_bytes attr @ ?sec @ them_vector st)) =
     Some ((pre @ net_avp nl ven attr) @ hide ?sec (md5 (be16_bytes attr @ ?sec @ them_vector st)) p @ rest)"
    using encrypt_loop_hide [of p k "md5 (be16_bytes attr @ ?sec @ them_vector st)" ?sec "pre @ net_avp nl ven attr" rest] lp k sec
    by (simp add: add.commute [of 6] add.assoc)
  have rv: "rd_bytes (them_vector st) 0 16 = Some (them_vector st)" using vec by (simp add: rd_bytes_def)
  have b: "\<not> (length pre + 6 + ?n < 6 + ?n \<or> 6 + ?n < (6::nat))" "length pre + 6 + ?n - (6 + ?n) = length pre"
    "((?n + 1) div 16 + 1) * 16 + 6 = ?h + 6" "6 + ?n - 6 = ?n"
    by (simp_all add: hidden_len_def)
  have nl: "word_of_nat (?h + 6) OR htons (htons lf) AND 0xF000 OR HBIT = nl"
    by (simp add: nl_def htons_htons)
  show ?thesis
    unfolding encrypt_avp_def Let_def b if_False
    by (simp only: r0 s0 r1 s1 r2 s2 s3 lo rv d nl le16_htons bind.bind_lunit)
       (simp add: p_def pad_def rest_def nl_def add.assoc)
qed

lemma hidden_length_bits:
  assumes "n < 4096"
  shows "unat ((word_of_nat n OR (lf AND 0xF000) OR 0x4000) AND 0x0FFF :: u16) = n"
    and "(word_of_nat n OR (lf AND 0xF000) OR 0x4000) AND 0xF000 AND NOT 0x4000 = lf AND (0xB000 :: u16)"
proof -
  define w where "w = (word_of_nat n :: u16)"
  have un: "unat w = n" using assms by (simp add: w_def)
  have "unat (take_bit 12 w) = n" using assms un by (simp add: take_bit_eq_mod unat_mod_distrib)
  then have t: "take_bit 12 w = w" using un by (simp add: word_unat_eq_iff)
  have wb: "k < 12" if "bit w k" for k using that t by (metis bit_take_bit_iff)
  have m: "(0x0FFF :: u16) = mask 12" "(0xF000 :: u16) = NOT (mask 12)" by (simp_all add: mask_eq_exp_minus_1)
  have b: "(0xB000 :: u16) = NOT (mask 12) AND NOT 0x4000" by (simp add: mask_eq_exp_minus_1)
  have h: "bit (0x4000 :: int) k \<longleftrightarrow> k = 14" for k
    using bit_exp_iff [where 'a = int and m = 14 and n = k] by auto
  have "(w OR (lf AND 0xF000) OR 0x4000) AND 0x0FFF = w"
    unfolding m by (rule bit_word_eqI) (auto simp: bit_simps h dest: wb)
  then show "unat ((word_of_nat n OR (lf AND 0xF000) OR 0x4000) AND 0x0FFF) = n" using un by (simp add: w_def)
  have "(w OR (lf AND 0xF000) OR 0x4000) AND 0xF000 AND NOT 0x4000 = lf AND 0xB000"
    unfolding b unfolding m by (rule bit_word_eqI) (auto simp: bit_simps h dest: wb)
  then show "(word_of_nat n OR (lf AND 0xF000) OR 0x4000) AND 0xF000 AND NOT 0x4000 = lf AND 0xB000" by (simp add: w_def)
qed
lemma decrypt_avp_ok:
  assumes lf: "unat (nl AND 0x0FFF) = length c + 6" and n: "length val + 2 \<le> length c"
    and sec: "length (c_string (us_secret st)) < 2 ^ 32" and vec: "us_vector st = Some v" "us_vector_len st = 16"
    and v: "rd_bytes (pre @ host_avp nl ven attr @ c @ rest) v 16 = Some vector" "length val < 65536"
    and c: "unhide (c_string (us_secret st)) (md5 (be16_bytes attr @ c_string (us_secret st) @ vector)) c =
       be16_bytes (word_of_nat (length val)) @ val @ pad"
  shows "decrypt_avp st (pre @ host_avp nl ven attr @ c @ rest) (length pre) =
     Some (0, pre @ le16_bytes nl @ host_avp (word_of_nat (length val + 6) OR (nl AND 0xF000 AND NOT HBIT)) ven attr @ val @ pad @ rest)"
proof -
  let ?sec = "c_string (us_secret st)"
  let ?d = "md5 (be16_bytes attr @ ?sec @ vector)"
  have lv: "length vector = 16" using v(1) by (rule rd_bytes_length)
  have r0: "raw (pre @ host_avp nl ven attr @ c @ rest) (length pre) 0 = Some nl"
    using raw_at [of pre "length pre" 0 nl] by (simp add: host_avp_def)
  have r2: "raw (pre @ host_avp nl ven attr @ c @ rest) (length pre) 2 = Some attr"
    using raw_at [of "pre @ le16_bytes nl @ le16_bytes ven" "length pre" 2 attr] by (simp add: host_avp_def)
  have d: "md5_of [le16_bytes (ntohs attr), ?sec, vector] = Some ?d"
    using sec lv by (simp add: md5_of_ok be16_le16 htons_def ntohs_def)
  have lo: "decrypt_loop ?sec (pre @ host_avp nl ven attr @ c @ rest) (length pre + 6) (length pre + (length c + 6)) 0 ?d (replicate 16 0)
     = Some (pre @ host_avp nl ven attr @ be16_bytes (word_of_nat (length val)) @ val @ pad @ rest)"
    using decrypt_loop_unhide [of ?d "replicate 16 0" ?sec "pre @ host_avp nl ven attr" c rest] sec
    by (simp add: c add.assoc add.commute [of 6])
  let ?w = "word_of_nat (length val) :: u16"
  have na: "raw (pre @ host_avp nl ven attr @ be16_bytes ?w @ val @ pad @ rest) (length pre + 2) 2 = Some (htons ?w)"
    using raw_at [of "pre @ host_avp nl ven attr" "length pre + 2" 2 "htons ?w"] by (simp add: be16_le16)
  have un: "unat (ntohs (htons ?w)) = length val" using v(2) by simp
  have s2: "set_raw (pre @ host_avp nl ven attr @ be16_bytes ?w @ val @ pad @ rest) (length pre + 2) 2 attr =
     Some (pre @ host_avp nl ven attr @ le16_bytes attr @ val @ pad @ rest)"
    using set_raw_mid [of "pre @ host_avp nl ven attr" "length pre + 2" 2 "be16_bytes ?w" "val @ pad @ rest" attr] by simp
  have r1: "raw (pre @ host_avp nl ven attr @ le16_bytes attr @ val @ pad @ rest) (length pre) 1 = Some ven"
    using raw_at [of "pre @ le16_bytes nl" "length pre" 1 ven] by (simp add: host_avp_def)
  have s1: "set_raw (pre @ host_avp nl ven attr @ le16_bytes attr @ val @ pad @ rest) (length pre + 2) 1 ven =
     Some (pre @ le16_bytes nl @ le16_bytes ven @ le16_bytes ven @ le16_bytes attr @ val @ pad @ rest)"
    using set_raw_mid [of "pre @ le16_bytes nl @ le16_bytes ven" "length pre + 2" 1 "le16_bytes attr" "le16_bytes attr @ val @ pad @ rest" ven]
    by (simp add: host_avp_def)
  have s0: "set_raw (pre @ le16_bytes nl @ le16_bytes ven @ le16_bytes ven @ le16_bytes attr @ val @ pad @ rest) (length pre + 2) 0 x =
     Some (pre @ le16_bytes nl @ host_avp x ven attr @ val @ pad @ rest)" for x
    using set_raw_mid [of "pre @ le16_bytes nl" "length pre + 2" 0 "le16_bytes ven" "le16_bytes ven @ le16_bytes attr @ val @ pad @ rest" x]
    by (simp add: host_avp_def)
  have le: "\<not> int (length val + 6) > int (length c + 6) - 2" using n by simp
  show ?thesis
    unfolding decrypt_avp_def Let_def vec option.case nat_numeral
    by (simp only: r0 r2 d lo na un s2 r1 s1 s0 lf v(1) le bind.bind_lunit if_False)
qed

text \<open>
  C12: Hidden AVPs. An AVP hidden by \<open>encrypt_avp\<close> and put in host order by the receiver is
  restored by \<open>decrypt_avp\<close>, two bytes further on, with its own length, flags (the H bit cleared),
  vendor, attribute and value, provided both ends share the secret and the receiver's random vector
  is the sender's.
\<close>

theorem hidden_avp_roundtrip:
  assumes key: "c_string (us_secret st') = c_string (them_secret st)" "length (c_string (them_secret st)) < 2 ^ 32"
    and vec: "length (them_vector st) = 16" "us_vector st' = Some v" "us_vector_len st' = 16"
      "rd_bytes pre v 16 = Some (them_vector st)"
    and val: "length val \<le> 1017" "length xy = 2" "hidden_len (length val) \<le> 2 + length val + length post"
    and lf: "lf AND 0x0FFF = word_of_nat (length val + 6)"
  shows "\<exists>b b' rest nl.
     encrypt_avp st (pre @ xy @ net_avp lf ven attr @ val @ post) (length pre + 6 + length val) (6 + length val) =
       Some (b, length pre + hidden_len (length val) + 6) \<and>
     swaps b (length pre) 3 = Some b' \<and>
     decrypt_avp st' b' (length pre) = Some (0, pre @ le16_bytes nl @ host_avp (lf AND NOT HBIT) ven attr @ val @ rest) \<and>
     nl AND HBIT \<noteq> 0 \<and> unat (nl AND 0x0FFF) = hidden_len (length val) + 6"
proof -
  let ?h = "hidden_len (length val)" and ?sec = "c_string (them_secret st)" and ?n = "length val"
  define nl where "nl = word_of_nat (?h + 6) OR (lf AND 0xF000) OR HBIT"
  define pad rest where "pad = take (?h - 2 - ?n) post" and "rest = drop (?h - 2 - ?n) post"
  define d where "d = md5 (be16_bytes attr @ ?sec @ them_vector st)"
  define p where "p = be16_bytes (word_of_nat ?n) @ val @ pad"
  define c where "c = hide ?sec d p"
  have hn: "?n + 2 \<le> ?h" unfolding hidden_len_def by presburger
  have h4: "?h + 6 < 4096" using val(1) unfolding hidden_len_def by (simp add: div_le_mono [of _ 1018 16, simplified] less_mult_imp_div_less)
  have lc: "length c = ?h" using hn val(3) by (simp add: c_def d_def p_def pad_def length_hide)
  have e: "encrypt_avp st (pre @ xy @ net_avp lf ven attr @ val @ post) (length pre + 6 + ?n) (6 + ?n) =
      Some (pre @ net_avp nl ven attr @ c @ rest, length pre + ?h + 6)"
    using encrypt_avp_ok [OF key(2) vec(1) val(3) _ val(2)] val(1)
    by (simp add: nl_def c_def d_def p_def pad_def rest_def)
  have s: "swaps (pre @ net_avp nl ven attr @ c @ rest) (length pre) 3 = Some (pre @ host_avp nl ven attr @ c @ rest)"
    using swaps_header [of pre "length pre"] by (simp add: net_avp_def host_avp_def)
  have nlb: "unat (nl AND 0x0FFF) = length c + 6" "nl AND 0xF000 AND NOT HBIT = lf AND 0xB000"
    using hidden_length_bits [OF h4, of lf] lc by (simp_all add: nl_def)
  have rv: "rd_bytes (pre @ host_avp nl ven attr @ c @ rest) v 16 = Some (them_vector st)"
    using vec(4) by (auto simp: rd_bytes_def split: if_splits)
  have u: "unhide ?sec d c = be16_bytes (word_of_nat ?n) @ val @ pad"
    by (simp add: c_def d_def unhide_hide p_def)
  have dc: "decrypt_avp st' (pre @ host_avp nl ven attr @ c @ rest) (length pre) =
     Some (0, pre @ le16_bytes nl @ host_avp (word_of_nat (?n + 6) OR (nl AND 0xF000 AND NOT HBIT)) ven attr @ val @ pad @ rest)"
    using nlb(1) hn lc key vec(2,3) rv val(1) u by (intro decrypt_avp_ok) (simp_all add: d_def)
  have m: "(0x0FFF :: u16) = mask 12" by (simp add: mask_eq_exp_minus_1)
  have b: "(0xB000 :: u16) = NOT (mask 12) AND NOT HBIT" by (simp add: mask_eq_exp_minus_1)
  have h: "bit (0x4000 :: int) k \<longleftrightarrow> k = 14" for k
    using bit_exp_iff [where 'a = int and m = 14 and n = k] by auto
  have "(lf AND 0x0FFF) OR (lf AND 0xB000) = lf AND NOT HBIT"
    unfolding b unfolding m by (rule bit_word_eqI) (auto simp: bit_simps h)
  then have "word_of_nat (?n + 6) OR (nl AND 0xF000 AND NOT HBIT) = lf AND NOT HBIT"
    unfolding nlb(2) lf .
  moreover have "nl AND HBIT \<noteq> 0"
  proof
    assume "nl AND HBIT = 0"
    then have "bit (nl AND HBIT) 14 = bit (0 :: u16) 14" by simp
    then show False by (simp add: nl_def bit_simps h)
  qed
  ultimately show ?thesis using e s dc nlb(1) lc by (intro exI conjI) auto
qed

definition ex_l2tp :: l2tp where
  "ex_l2tp = \<lparr>t_call_head = None, t_self = 0, t_fc = -1, t_bc = -1, t_tid = -1, t_qtid = -1, t_firmware = -1,
     t_count = 0, t_state = 0, t_sanity = True, t_rws = -1,
     t_ourfc = 3, t_ourbc = 3, t_hbit = False, t_ourtid = 1234, t_ourrws = 4, control_seq_num = 0, control_rec_seq_num = 0,
     t_cLr = 0, t_addr = 0, t_rxspeed = 0, t_txspeed = 0, t_lns = None, t_lac = None, t_hostname = replicate 120 0, t_vendor = replicate 120 0,
     us_secret = [0x73, 0x65, 0x63] @ replicate 117 0, us_challenge = None, us_chal_len = 0, us_vector = Some 2,
     us_vector_len = 16, us_state = 0, us_ss = 0, us_response = replicate 16 0, them_secret = [0x73, 0x65, 0x63, 0, 1] @ replicate 115 0,
     them_vector = [1, 2, 3, 4, 5, 6, 7, 8, 9, 10, 11, 12, 13, 14, 15, 16], them_reply = replicate 16 0,
     them_challenge = None, them_chal_len = 0, them_state = 0, them_ss = 0, them_response = replicate 16 0,
     calls = [zero_call], alloc = (\<lambda>_. True), allocs = 0, entropy = (\<lambda>n. word_of_nat n)\<rparr>"

lemma hidden_avp_roundtrip_witness:
  "\<exists>b b' nl rest.
     encrypt_avp ex_l2tp ([0, 0] @ them_vector ex_l2tp @ [0, 0] @ net_avp 0x8008 0 14 @ [0x12, 0x34] @ replicate 40 0) 26 8 =
       Some (b, 40) \<and> swaps b 18 3 = Some b' \<and>
     decrypt_avp ex_l2tp b' 18 =
       Some (0, ([0, 0] @ them_vector ex_l2tp) @ le16_bytes nl @ host_avp 0x8008 0 14 @ [0x12, 0x34] @ rest)"
proof -
  have k: "c_string (us_secret ex_l2tp) = [0x73, 0x65, 0x63]" "c_string (them_secret ex_l2tp) = [0x73, 0x65, 0x63]"
    by (simp_all add: ex_l2tp_def c_string_def)
  have v: "length (them_vector ex_l2tp) = 16" "us_vector ex_l2tp = Some 2" "us_vector_len ex_l2tp = 16"
    by (simp_all add: ex_l2tp_def)
  have r: "rd_bytes ([0, 0] @ them_vector ex_l2tp) 2 16 = Some (them_vector ex_l2tp)"
    using v(1) by (simp add: rd_bytes_def)
  have lf: "(0x8008 :: u16) AND 0x0FFF = word_of_nat (length [0x12, 0x34 :: u8] + 6)" "(0x8008 :: u16) AND NOT HBIT = 0x8008"
    by simp_all
  show ?thesis
    using hidden_avp_roundtrip [of ex_l2tp ex_l2tp 2 "[0, 0] @ them_vector ex_l2tp" "[0x12, 0x34]" "[0, 0]" "replicate 40 0" "0x8008" 0 14]
      k v r lf by (simp add: hidden_len_def) blast
qed

end
