(* ===== verification/L2tp_Send.thy ===== *)
theory L2tp_Send
  imports L2tp_Hidden
begin

text \<open>
  Outgoing control messages: the AVP-creating routines of \<open>avpsend.c\<close> and the buffer and
  header routines of \<open>control.c\<close>. Each routine appends one AVP to the message; the
  contract \<open>appends\<close> and its composition rules describe whole messages.
\<close>

section \<open>Buffers (misc.h, control.c)\<close>

text \<open>\<open>struct buffer\<close>: the memory from \<open>rstart\<close> on, the offset of \<open>start\<close> in it, and \<open>len\<close>.\<close>

record obuf =
  ob_mem :: byte_buf
  ob_start :: nat
  ob_len :: nat

text \<open>\<open>mem\<close> is the fresh, uninitialised memory, \<open>ok\<close> whether it was allocated.\<close>

definition new_outgoing :: "bool \<Rightarrow> byte_buf \<Rightarrow> obuf option" where
  "new_outgoing ok mem = (if ok then Some \<lparr>ob_mem = mem, ob_start = 12, ob_len = 0\<rparr> else None)"

definition recycle_outgoing :: "obuf \<Rightarrow> obuf" where
  "recycle_outgoing b = b\<lparr>ob_start := 12, ob_len := 0\<rparr>"

definition add_control_hdr :: "l2tp \<Rightarrow> nat \<Rightarrow> obuf \<Rightarrow> (l2tp \<times> obuf) option" where
  "add_control_hdr st c b =
     (if ob_start b < 12 then None
      else do {
        let start = ob_start b - 12;
        let len = ob_len b + 12;
        cl \<leftarrow> get_c st c;
        mem \<leftarrow> wr_bytes (ob_mem b) start
          (be16_bytes 0xC802 @ be16_bytes (word_of_nat len) @ be16_bytes (word_of_int (t_tid st)) @
           be16_bytes (word_of_int (c_cid cl)) @ be16_bytes (control_seq_num st) @ be16_bytes (control_rec_seq_num st));
        Some (st\<lparr>control_seq_num := control_seq_num st + 1\<rparr>, \<lparr>ob_mem = mem, ob_start = start, ob_len = len\<rparr>) })"

text \<open>A zero-length body message; the caller transmits it.\<close>

definition control_zlb :: "obuf \<Rightarrow> l2tp \<Rightarrow> nat \<Rightarrow> (l2tp \<times> obuf) option" where
  "control_zlb b st c = do {
     (st, b) \<leftarrow> add_control_hdr st c (recycle_outgoing b);
     Some (st\<lparr>control_seq_num := control_seq_num st - 1\<rparr>, b) }"

text \<open>The bytes \<open>udp_xmit\<close> sends.\<close>

definition sent_bytes :: "obuf \<Rightarrow> byte_buf" where
  "sent_bytes b = take (ob_len b) (drop (ob_start b) (ob_mem b))"

section \<open>AVPs (avpsend.c)\<close>

abbreviation (input) "MBIT \<equiv> (0x8000 :: u16)"
abbreviation (input) "MAXAVPSIZE \<equiv> (1023::nat)"

definition VENDOR_NAME :: byte_buf where "VENDOR_NAME = msg_bytes ''xelerance.com''"

text \<open>A write at \<open>buf->start + buf->len + off\<close>.\<close>

definition put :: "obuf \<Rightarrow> nat \<Rightarrow> byte_buf \<Rightarrow> obuf option" where
  "put b off bs = do { mem \<leftarrow> wr_bytes (ob_mem b) (ob_start b + ob_len b + off) bs; Some (b\<lparr>ob_mem := mem\<rparr>) }"

text \<open>\<open>ptr->s<i> = htons (w)\<close>\<close>

definition put_half :: "obuf \<Rightarrow> nat \<Rightarrow> u16 \<Rightarrow> obuf option" where
  "put_half b i w = put b (6 + 2 * i) (be16_bytes w)"

definition grow :: "obuf \<Rightarrow> nat \<Rightarrow> obuf option" where
  "grow b n = Some (b\<lparr>ob_len := ob_len b + n\<rparr>)"

definition add_nonmandatory_header :: "obuf \<Rightarrow> u16 \<Rightarrow> u16 \<Rightarrow> obuf option" where
  "add_nonmandatory_header b l type = put b 0 (be16_bytes l @ be16_bytes 0 @ be16_bytes type)"

definition add_header :: "obuf \<Rightarrow> u16 \<Rightarrow> u16 \<Rightarrow> obuf option" where
  "add_header b l type = add_nonmandatory_header b (l OR MBIT) type"

text \<open>\<open>(v >> 16) & 0xFFFF\<close> and \<open>v & 0xFFFF\<close>\<close>

definition hi16 :: "u32 \<Rightarrow> u16" where "hi16 v = ucast (drop_bit 16 v)"
definition lo16 :: "u32 \<Rightarrow> u16" where "lo16 v = ucast v"

definition add_message_type_avp :: "u16 \<Rightarrow> obuf \<Rightarrow> obuf option" where
  "add_message_type_avp type b = do { b \<leftarrow> add_header b 8 0; b \<leftarrow> put_half b 0 type; grow b 8 }"

definition add_protocol_avp :: "obuf \<Rightarrow> obuf option" where
  "add_protocol_avp b = do { b \<leftarrow> add_header b 8 2; b \<leftarrow> put_half b 0 0x100; grow b 8 }"

definition add_frame_caps_avp :: "u16 \<Rightarrow> obuf \<Rightarrow> obuf option" where
  "add_frame_caps_avp caps b = do {
     b \<leftarrow> add_header b 10 3; b \<leftarrow> put_half b 0 0; b \<leftarrow> put_half b 1 caps; grow b 10 }"

definition add_bearer_caps_avp :: "u16 \<Rightarrow> obuf \<Rightarrow> obuf option" where
  "add_bearer_caps_avp caps b = do {
     b \<leftarrow> add_header b 10 4; b \<leftarrow> put_half b 0 0; b \<leftarrow> put_half b 1 caps; grow b 10 }"

definition add_firmware_avp :: "obuf \<Rightarrow> obuf option" where
  "add_firmware_avp b = do { b \<leftarrow> add_nonmandatory_header b 8 6; b \<leftarrow> put_half b 0 0x0690; grow b 8 }"

definition add_hostname_avp :: "byte_buf \<Rightarrow> obuf \<Rightarrow> obuf option" where
  "add_hostname_avp hostname b = do {
     let name = c_string hostname;
     let namelen = (if length name > MAXAVPSIZE - 6 then MAXAVPSIZE - 6 else length name);
     b \<leftarrow> add_header b (word_of_nat (6 + namelen)) 7;
     b \<leftarrow> put b 6 (take namelen name);
     grow b (6 + namelen) }"

text \<open>\<open>strcpy\<close> also writes the terminating zero.\<close>

definition add_vendor_avp :: "obuf \<Rightarrow> obuf option" where
  "add_vendor_avp b = do {
     b \<leftarrow> add_nonmandatory_header b (word_of_nat (6 + length VENDOR_NAME)) 8;
     b \<leftarrow> put b 6 (VENDOR_NAME @ [0]);
     grow b (6 + length VENDOR_NAME) }"

definition add_tunnelid_avp :: "u16 \<Rightarrow> obuf \<Rightarrow> obuf option" where
  "add_tunnelid_avp tid b = do { b \<leftarrow> add_header b 8 9; b \<leftarrow> put_half b 0 tid; grow b 8 }"

definition add_avp_rws :: "u16 \<Rightarrow> obuf \<Rightarrow> obuf option" where
  "add_avp_rws rws b = do { b \<leftarrow> add_header b 8 10; b \<leftarrow> put_half b 0 rws; grow b 8 }"

definition add_challenge_avp :: "byte_buf \<Rightarrow> obuf \<Rightarrow> obuf option" where
  "add_challenge_avp c b = do {
     b \<leftarrow> add_header b (word_of_nat (6 + length c)) 0xB; b \<leftarrow> put b 6 c; grow b (6 + length c) }"

definition add_chalresp_avp :: "byte_buf \<Rightarrow> obuf \<Rightarrow> obuf option" where
  "add_chalresp_avp c b = do {
     b \<leftarrow> add_header b (word_of_nat (6 + length c)) 0xD; b \<leftarrow> put b 6 c; grow b (6 + length c) }"

definition add_randvect_avp :: "byte_buf \<Rightarrow> obuf \<Rightarrow> obuf option" where
  "add_randvect_avp c b = do {
     b \<leftarrow> add_header b (word_of_nat (6 + length c)) 0x24; b \<leftarrow> put b 6 c; grow b (6 + length c) }"

definition add_result_code_avp :: "u16 \<Rightarrow> u16 \<Rightarrow> byte_buf \<Rightarrow> obuf \<Rightarrow> obuf option" where
  "add_result_code_avp result error msg b = do {
     b \<leftarrow> add_header b (word_of_nat (10 + length msg)) 1;
     b \<leftarrow> put_half b 0 result;
     b \<leftarrow> put_half b 1 error;
     b \<leftarrow> put b 10 msg;
     grow b (10 + length msg) }"

definition add_callid_avp :: "u16 \<Rightarrow> obuf \<Rightarrow> obuf option" where
  "add_callid_avp callid b = do { b \<leftarrow> add_header b 8 0xE; b \<leftarrow> put_half b 0 callid; grow b 8 }"

definition add_serno_avp :: "u32 \<Rightarrow> obuf \<Rightarrow> obuf option" where
  "add_serno_avp serno b = do {
     b \<leftarrow> add_header b 10 0xF; b \<leftarrow> put_half b 0 (hi16 serno); b \<leftarrow> put_half b 1 (lo16 serno); grow b 10 }"

definition add_bearer_avp :: "u32 \<Rightarrow> obuf \<Rightarrow> obuf option" where
  "add_bearer_avp bearer b = do {
     b \<leftarrow> add_header b 10 0x12; b \<leftarrow> put_half b 0 (hi16 bearer); b \<leftarrow> put_half b 1 (lo16 bearer); grow b 10 }"

definition add_frame_avp :: "u32 \<Rightarrow> obuf \<Rightarrow> obuf option" where
  "add_frame_avp frame b = do {
     b \<leftarrow> add_header b 10 0x13; b \<leftarrow> put_half b 0 (hi16 frame); b \<leftarrow> put_half b 1 (lo16 frame); grow b 10 }"

definition add_txspeed_avp :: "u32 \<Rightarrow> obuf \<Rightarrow> obuf option" where
  "add_txspeed_avp speed b = do {
     b \<leftarrow> add_header b 10 0x18; b \<leftarrow> put_half b 0 (hi16 speed); b \<leftarrow> put_half b 1 (lo16 speed); grow b 10 }"

definition add_rxspeed_avp :: "u32 \<Rightarrow> obuf \<Rightarrow> obuf option" where
  "add_rxspeed_avp speed b = do {
     b \<leftarrow> add_nonmandatory_header b 10 0x26; b \<leftarrow> put_half b 0 (hi16 speed); b \<leftarrow> put_half b 1 (lo16 speed); grow b 10 }"

definition add_physchan_avp :: "u32 \<Rightarrow> obuf \<Rightarrow> obuf option" where
  "add_physchan_avp physchan b = do {
     b \<leftarrow> add_nonmandatory_header b 10 0x19; b \<leftarrow> put_half b 0 (hi16 physchan); b \<leftarrow> put_half b 1 (lo16 physchan); grow b 10 }"

definition add_ppd_avp :: "u16 \<Rightarrow> obuf \<Rightarrow> obuf option" where
  "add_ppd_avp ppd b = do { b \<leftarrow> add_header b 8 0x14; b \<leftarrow> put_half b 0 ppd; grow b 8 }"

definition add_seqreqd_avp :: "obuf \<Rightarrow> obuf option" where
  "add_seqreqd_avp b = do { b \<leftarrow> add_header b 6 0x27; grow b 6 }"

definition add_minbps_avp :: "u32 \<Rightarrow> obuf \<Rightarrow> obuf option" where
  "add_minbps_avp speed b = do {
     b \<leftarrow> add_header b 10 0x10; b \<leftarrow> put_half b 0 (hi16 speed); b \<leftarrow> put_half b 1 (lo16 speed); grow b 10 }"

definition add_maxbps_avp :: "u32 \<Rightarrow> obuf \<Rightarrow> obuf option" where
  "add_maxbps_avp speed b = do {
     b \<leftarrow> add_header b 10 0x11; b \<leftarrow> put_half b 0 (hi16 speed); b \<leftarrow> put_half b 1 (lo16 speed); grow b 10 }"

definition add_number_avp :: "byte_buf \<Rightarrow> obuf \<Rightarrow> obuf option" where
  "add_number_avp no b = do {
     let no = c_string no;
     b \<leftarrow> add_header b (word_of_nat (6 + length no)) 0x15;
     b \<leftarrow> put b 6 no;
     grow b (6 + length no) }"

section \<open>What each routine appends\<close>

text \<open>
  A buffer whose message so far is \<open>m\<close>: \<open>pre\<close> is the memory before it, \<open>junk\<close> the room after it.
\<close>

definition mkbuf :: "byte_buf \<Rightarrow> byte_buf \<Rightarrow> byte_buf \<Rightarrow> obuf" where
  "mkbuf pre m junk = \<lparr>ob_mem = pre @ m @ junk, ob_start = length pre, ob_len = length m\<rparr>"

lemma new_outgoing_mk: "12 \<le> length mem \<Longrightarrow> new_outgoing True mem = Some (mkbuf (take 12 mem) [] (drop 12 mem))"
  by (simp add: new_outgoing_def mkbuf_def)

lemma sent_mkbuf: "sent_bytes (mkbuf pre m junk) = m"
  by (simp add: sent_bytes_def mkbuf_def)

definition appends :: "(obuf \<Rightarrow> obuf option) \<Rightarrow> byte_buf \<Rightarrow> bool" where
  "appends f bs \<longleftrightarrow> (\<forall>pre m junk. length bs < length junk \<longrightarrow>
     (\<exists>junk'. f (mkbuf pre m junk) = Some (mkbuf pre (m @ bs) junk') \<and> length junk' + length bs = length junk))"

lemma appendsD:
  "appends f bs \<Longrightarrow> length bs < length junk \<Longrightarrow>
   \<exists>junk'. f (mkbuf pre m junk) = Some (mkbuf pre (m @ bs) junk') \<and> length junk' + length bs = length junk"
  by (simp add: appends_def)

named_theorems appends_intros \<open>what a composed writer appends\<close>

lemma appends_bind [appends_intros]:
  assumes "appends f x" "appends g y"
  shows "appends (\<lambda>b. f b \<bind> g) (x @ y)"
  unfolding appends_def
proof (intro allI impI)
  fix pre m junk :: byte_buf
  assume room: "length (x @ y) < length junk"
  then obtain j1 where j1: "f (mkbuf pre m junk) = Some (mkbuf pre (m @ x) j1)" "length j1 + length x = length junk"
    using assms(1) unfolding appends_def by (metis add_lessD1 length_append)
  then obtain j2 where "g (mkbuf pre (m @ x) j1) = Some (mkbuf pre ((m @ x) @ y) j2)" "length j2 + length y = length j1"
    using assms(2) room unfolding appends_def by (metis add.commute add_less_cancel_right length_append)
  then show "\<exists>junk'. f (mkbuf pre m junk) \<bind> g = Some (mkbuf pre (m @ x @ y) junk') \<and> length junk' + length (x @ y) = length junk"
    using j1 by auto
qed

lemma ex_mkbuf: "length j + n = k \<Longrightarrow> \<exists>junk'. mkbuf pre m j = mkbuf pre m junk' \<and> length junk' + n = k"
  by blast

lemma appends_if [appends_intros]:
  "appends f x \<Longrightarrow> appends (\<lambda>b. if P then f b else Some b) (if P then x else [])"
  by (auto simp: appends_def)

lemma wr_at:
  "length p = off \<Longrightarrow> length bs \<le> length v \<Longrightarrow> wr_bytes (p @ v) off bs = Some (p @ bs @ drop (length bs) v)"
  by (simp add: wr_bytes_def)

text \<open>A header followed by \<open>val\<close>, written in one piece or in halves.\<close>

definition avp_bytes :: "u16 \<Rightarrow> u16 \<Rightarrow> byte_buf \<Rightarrow> byte_buf" where
  "avp_bytes l attr val = net_avp l 0 attr @ val"

lemma length_avp_bytes [simp]: "length (avp_bytes l attr val) = 6 + length val"
  by (simp add: avp_bytes_def)

text \<open>After the header and part of the value have been written; the length is not yet updated.\<close>

definition partial :: "byte_buf \<Rightarrow> byte_buf \<Rightarrow> byte_buf \<Rightarrow> byte_buf \<Rightarrow> obuf" where
  "partial pre m w junk = \<lparr>ob_mem = pre @ m @ w @ junk, ob_start = length pre, ob_len = length m\<rparr>"

lemma header_partial:
  "6 \<le> length junk \<Longrightarrow> add_nonmandatory_header (mkbuf pre m junk) l a = Some (partial pre m (net_avp l 0 a) (drop 6 junk))"
  using wr_at [of "pre @ m" "length pre + length m" "net_avp l 0 a" junk]
  by (simp add: add_nonmandatory_header_def put_def mkbuf_def partial_def net_avp_def)

lemma put_partial:
  "length w = off \<Longrightarrow> length bs \<le> length junk \<Longrightarrow>
   put (partial pre m w junk) off bs = Some (partial pre m (w @ bs) (drop (length bs) junk))"
  using wr_at [of "pre @ m @ w" "length pre + length m + off" bs junk] by (simp add: put_def partial_def)

lemma put_half_partial:
  "length w = 6 + 2 * i \<Longrightarrow> 2 \<le> length junk \<Longrightarrow>
   put_half (partial pre m w junk) i h = Some (partial pre m (w @ be16_bytes h) (drop 2 junk))"
  using put_partial [of w "6 + 2 * i" "be16_bytes h" junk] by (simp add: put_half_def)

lemma grow_partial: "length w = n \<Longrightarrow> grow (partial pre m w junk) n = Some (mkbuf pre (m @ w) junk)"
  by (simp add: grow_def partial_def mkbuf_def)

lemma appendsI:
  assumes "\<And>pre m junk. length bs < length junk \<Longrightarrow>
    \<exists>junk'. f (mkbuf pre m junk) = Some (mkbuf pre (m @ bs) junk') \<and> length junk' + length bs = length junk"
  shows "appends f bs"
  using assms by (simp add: appends_def)

lemmas partial_simps = add_header_def header_partial put_half_partial put_partial grow_partial avp_bytes_def

text \<open>The attribute values with one and with two halves, and those that are copied.\<close>

lemma appends_half:
  "appends (\<lambda>b. do { b \<leftarrow> add_nonmandatory_header b l a; b \<leftarrow> put_half b 0 v; grow b 8 }) (avp_bytes l a (be16_bytes v))"
  by (rule appendsI) (simp add: partial_simps, rule ex_mkbuf, simp)

lemma appends_halves:
  "appends (\<lambda>b. do { b \<leftarrow> add_nonmandatory_header b l a; b \<leftarrow> put_half b 0 v; b \<leftarrow> put_half b 1 w; grow b 10 })
     (avp_bytes l a (be16_bytes v @ be16_bytes w))"
  by (rule appendsI) (simp add: partial_simps, rule ex_mkbuf, simp)

lemma appends_copy:
  "length c = n \<Longrightarrow> appends (\<lambda>b. do { b \<leftarrow> add_nonmandatory_header b l a; b \<leftarrow> put b 6 c; grow b (6 + n) }) (avp_bytes l a c)"
  by (rule appendsI) (simp add: partial_simps, rule ex_mkbuf, simp)

lemma appends_adders [appends_intros]:
  "appends (add_message_type_avp type) (avp_bytes 0x8008 0 (be16_bytes type))"
  "appends add_protocol_avp (avp_bytes 0x8008 2 (be16_bytes 0x100))"
  "appends (add_frame_caps_avp caps) (avp_bytes 0x800A 3 (be16_bytes 0 @ be16_bytes caps))"
  "appends (add_bearer_caps_avp caps) (avp_bytes 0x800A 4 (be16_bytes 0 @ be16_bytes caps))"
  "appends add_firmware_avp (avp_bytes 8 6 (be16_bytes 0x0690))"
  "appends (add_tunnelid_avp tid) (avp_bytes 0x8008 9 (be16_bytes tid))"
  "appends (add_avp_rws rws) (avp_bytes 0x8008 10 (be16_bytes rws))"
  "appends (add_callid_avp cid) (avp_bytes 0x8008 14 (be16_bytes cid))"
  "appends (add_serno_avp x) (avp_bytes 0x800A 15 (be16_bytes (hi16 x) @ be16_bytes (lo16 x)))"
  "appends (add_minbps_avp x) (avp_bytes 0x800A 16 (be16_bytes (hi16 x) @ be16_bytes (lo16 x)))"
  "appends (add_maxbps_avp x) (avp_bytes 0x800A 17 (be16_bytes (hi16 x) @ be16_bytes (lo16 x)))"
  "appends (add_bearer_avp x) (avp_bytes 0x800A 18 (be16_bytes (hi16 x) @ be16_bytes (lo16 x)))"
  "appends (add_frame_avp x) (avp_bytes 0x800A 19 (be16_bytes (hi16 x) @ be16_bytes (lo16 x)))"
  "appends (add_ppd_avp ppd) (avp_bytes 0x8008 20 (be16_bytes ppd))"
  "appends (add_txspeed_avp x) (avp_bytes 0x800A 24 (be16_bytes (hi16 x) @ be16_bytes (lo16 x)))"
  "appends (add_physchan_avp x) (avp_bytes 10 25 (be16_bytes (hi16 x) @ be16_bytes (lo16 x)))"
  "appends (add_rxspeed_avp x) (avp_bytes 10 38 (be16_bytes (hi16 x) @ be16_bytes (lo16 x)))"
  unfolding add_message_type_avp_def add_protocol_avp_def add_frame_caps_avp_def add_bearer_caps_avp_def add_firmware_avp_def
    add_tunnelid_avp_def add_avp_rws_def add_callid_avp_def add_serno_avp_def add_minbps_avp_def add_maxbps_avp_def
    add_bearer_avp_def add_frame_avp_def add_ppd_avp_def add_txspeed_avp_def add_physchan_avp_def add_rxspeed_avp_def
    add_header_def
  using appends_half [of "0x8008"] appends_halves [of "0x800A"] appends_half [of 8] appends_halves [of 10] by simp_all

lemma appends_copies [appends_intros]:
  "appends (add_challenge_avp c) (avp_bytes (word_of_nat (6 + length c) OR MBIT) 11 c)"
  "appends (add_chalresp_avp c) (avp_bytes (word_of_nat (6 + length c) OR MBIT) 13 c)"
  "appends (add_randvect_avp c) (avp_bytes (word_of_nat (6 + length c) OR MBIT) 36 c)"
  "appends (add_number_avp no) (avp_bytes (word_of_nat (6 + length (c_string no)) OR MBIT) 21 (c_string no))"
  unfolding add_challenge_avp_def add_chalresp_avp_def add_randvect_avp_def add_number_avp_def add_header_def Let_def
  using appends_copy by simp_all

lemma appends_hostname [appends_intros]:
  "appends (add_hostname_avp h)
     (avp_bytes (word_of_nat (6 + length (take (MAXAVPSIZE - 6) (c_string h))) OR MBIT) 7 (take (MAXAVPSIZE - 6) (c_string h)))"
proof -
  define nm where "nm = take (MAXAVPSIZE - 6) (c_string h)"
  have n: "(if length (c_string h) > MAXAVPSIZE - 6 then MAXAVPSIZE - 6 else length (c_string h)) = length nm"
    "take (length nm) (c_string h) = nm"
    by (cases "length (c_string h) \<le> 1017"; simp add: nm_def)+
  have "add_hostname_avp h = (\<lambda>b. do { b \<leftarrow> add_nonmandatory_header b (word_of_nat (6 + length nm) OR MBIT) 7;
      b \<leftarrow> put b 6 nm; grow b (6 + length nm) })"
    unfolding add_hostname_avp_def Let_def add_header_def n by (rule refl)
  then show ?thesis using appends_copy [OF refl, of "word_of_nat (6 + length nm) OR MBIT" 7 nm] by (simp add: nm_def)
qed

lemma appends_vendor [appends_intros]:
  "appends add_vendor_avp (avp_bytes 19 8 VENDOR_NAME)"
proof (rule appendsI)
  fix pre m junk :: byte_buf
  assume room: "length (avp_bytes 19 8 VENDOR_NAME) < length junk"
  have v: "length VENDOR_NAME = 13" by (simp add: VENDOR_NAME_def msg_bytes_def)
  let ?w = "net_avp 19 0 8 @ VENDOR_NAME"
  have g: "grow (partial pre m (net_avp 19 0 8 @ VENDOR_NAME @ [0]) j) (6 + 13) = Some (mkbuf pre (m @ ?w) (0 # j))" for j
    using v by (simp add: grow_def partial_def mkbuf_def)
  show "\<exists>junk'. add_vendor_avp (mkbuf pre m junk) = Some (mkbuf pre (m @ avp_bytes 19 8 VENDOR_NAME) junk') \<and>
      length junk' + length (avp_bytes 19 8 VENDOR_NAME) = length junk"
    using room v g by (simp add: add_vendor_avp_def header_partial put_partial avp_bytes_def, intro ex_mkbuf) simp
qed

lemma appends_seqreqd [appends_intros]: "appends add_seqreqd_avp (avp_bytes 0x8006 39 [])"
  by (rule appendsI) (simp add: add_seqreqd_avp_def partial_simps, rule ex_mkbuf, simp)

lemma appends_result_code [appends_intros]:
  "appends (add_result_code_avp result error msg)
     (avp_bytes (word_of_nat (10 + length msg) OR MBIT) 1 (be16_bytes result @ be16_bytes error @ msg))"
  by (rule appendsI) (simp add: add_result_code_avp_def partial_simps, rule ex_mkbuf, simp)

end
