(* ===== verification/L2tp_Avp.thy ===== *)
theory L2tp_Avp
  imports L2tp_Hidden
begin

text \<open>
  The attribute-value pairs of an L2TP control message (\<open>avp.c\<close>): one handler per attribute,
  the table that lists them, and the loop \<open>handle_avps\<close> that walks a received message. A
  handler gets the state, the call \<open>c\<close> the message is for, the packet buffer, the offset of
  the AVP and \<open>datalen\<close>; it returns 0, \<open>-EINVAL\<close> or \<open>-ENOMEM\<close> with the new state. The
  program is built with \<open>SANITY\<close> and without \<open>STRICT\<close>; log messages are left out.
\<close>

type_synonym avp_handler = "l2tp \<Rightarrow> nat \<Rightarrow> byte_buf \<Rightarrow> nat \<Rightarrow> int \<Rightarrow> (int \<times> l2tp) option"

definition AMBIT :: "u16 \<Rightarrow> bool" where "AMBIT w \<longleftrightarrow> w AND 0x8000 \<noteq> 0"
definition AHBIT :: "u16 \<Rightarrow> bool" where "AHBIT w \<longleftrightarrow> w AND 0x4000 \<noteq> 0"
definition AZBITS :: "u16 \<Rightarrow> bool" where "AZBITS w \<longleftrightarrow> w AND 0x3C00 \<noteq> 0"
definition ALENGTH :: "u16 \<Rightarrow> int" where "ALENGTH w = uint (w AND 0x03FF)"

section \<open>What the handlers share\<close>

definition wrong_length :: "l2tp \<Rightarrow> nat \<Rightarrow> string \<Rightarrow> int \<Rightarrow> int \<Rightarrow> bool \<Rightarrow> l2tp option" where
  "wrong_length st c field expected found atleast =
     upd_c st c (\<lambda>cl. cl\<lparr>
       c_errormsg := snprintf (c_errormsg cl)
         (if atleast then msg_bytes (field @ '': expected at least '') @ fmt_int expected @ msg_bytes '', got '' @ fmt_int found
          else msg_bytes (field @ '': expected '') @ fmt_int expected @ msg_bytes '', got '' @ fmt_int found),
       c_error := ERROR_LENGTH, c_result := RESULT_ERROR, c_needclose := -1\<rparr>)"

text \<open>
  The two tests under \<open>if (t->sanity)\<close>: \<open>for_messages\<close> is the \<open>switch (c->msgtype)\<close> whose
  default ignores the AVP with return value 0; \<open>need_length\<close> reports a bad length, when \<open>ok\<close>
  does not hold, and returns \<open>-EINVAL\<close>.
\<close>

definition for_messages :: "l2tp \<Rightarrow> nat \<Rightarrow> int list \<Rightarrow> (int \<times> l2tp) option \<Rightarrow> (int \<times> l2tp) option" where
  "for_messages st c ms k =
     (if t_sanity st then do {
        cl \<leftarrow> get_c st c;
        if c_msgtype cl \<in> set ms then k else Some (0, st) }
      else k)"

definition need_length ::
  "l2tp \<Rightarrow> nat \<Rightarrow> bool \<Rightarrow> string \<Rightarrow> int \<Rightarrow> int \<Rightarrow> bool \<Rightarrow> (int \<times> l2tp) option \<Rightarrow> (int \<times> l2tp) option" where
  "need_length st c ok field expected datalen atleast k =
     (if t_sanity st \<and> \<not> ok then do {
        st \<leftarrow> wrong_length st c field expected datalen atleast;
        Some (- EINVAL, st) }
      else k)"

text \<open>\<open>ntohs (raw[i].s)\<close>\<close>

definition net16 :: "byte_buf \<Rightarrow> nat \<Rightarrow> nat \<Rightarrow> int option" where
  "net16 b off i = do { w \<leftarrow> raw b off i; Some (uint (ntohs w)) }"

definition net32 :: "byte_buf \<Rightarrow> nat \<Rightarrow> u32 option" where
  "net32 b off = do {
     h \<leftarrow> raw b off 3;
     l \<leftarrow> raw b off 4;
     Some (push_bit 16 (ucast (ntohs h)) OR ucast (ntohs l)) }"

text \<open>\<open>size = (raw[0].s & 0x03FF) - sizeof (struct avp_hdr)\<close>\<close>

definition avp_size :: "byte_buf \<Rightarrow> nat \<Rightarrow> int option" where
  "avp_size b off = do { w \<leftarrow> raw b off 0; Some (ALENGTH w - 6) }"

text \<open>The string a handler copies: at most \<open>MAXSTRLEN - 1\<close> bytes of the AVP's value.\<close>

definition copy_value :: "byte_buf \<Rightarrow> byte_buf \<Rightarrow> nat \<Rightarrow> byte_buf option" where
  "copy_value a b off = do {
     size \<leftarrow> avp_size b off;
     safe_copy a (drop (off + 6) b) (if size > int MAXSTRLEN - 1 then int MAXSTRLEN - 1 else size) }"

section \<open>Message type\<close>

text \<open>\<open>msgtypes\<close> has no entry for the reserved numbers 0, 5 and 13.\<close>

definition known_msg :: "int \<Rightarrow> bool" where
  "known_msg m \<longleftrightarrow> 0 \<le> m \<and> m \<le> MAX_MSG \<and> m \<noteq> 0 \<and> m \<noteq> 5 \<and> m \<noteq> 13"

text \<open>The \<open>switch\<close> on the message type: whether the message fits the state of tunnel and call.\<close>

definition msg_in_state :: "int \<Rightarrow> int \<Rightarrow> int \<Rightarrow> bool \<Rightarrow> bool" where
  "msg_in_state m tstate cstate is_self \<longleftrightarrow>
     \<not> (\<not> is_self \<and> m < Hello) \<and>
     (if m = SCCRQ then tstate = 0 \<or> tstate = SCCRQ
      else if m = SCCRP then tstate = SCCRQ
      else if m = SCCCN then tstate = SCCRP
      else if m = ICRQ then tstate = SCCCN \<and> is_self
      else if m = ICRP then tstate = SCCCN \<and> cstate = ICRQ
      else if m = ICCN then cstate = ICRP
      else if m = SLI then cstate = ICCN
      else if m = OCRP then tstate = SCCCN \<and> cstate = OCRQ
      else if m = OCCN then cstate = OCRQ
      else m = StopCCN \<or> m = CDN \<or> m = Hello)"

definition message_type_avp :: avp_handler where
  "message_type_avp st c b off datalen = do {
     m \<leftarrow> net16 b off 3;
     st \<leftarrow> upd_c st c (\<lambda>cl. cl\<lparr>c_msgtype := m\<rparr>);
     if datalen \<noteq> 8 then do {
       st \<leftarrow> wrong_length st c ''Message Type'' 8 datalen False;
       Some (- EINVAL, st) }
     else if \<not> known_msg m then Some (- EINVAL, st)
     else do {
       cl \<leftarrow> get_c st c;
       if t_sanity st \<and> \<not> msg_in_state m (t_state st) (c_state cl) (c = t_self st) then Some (- EINVAL, st)
       else if m = ICRQ then
         (case new_call st of
            (None, st) \<Rightarrow> Some (- EINVAL, st)
          | (Some tmp, st) \<Rightarrow> do {
              st \<leftarrow> upd_c st tmp (\<lambda>cl. cl\<lparr>c_next := t_call_head st\<rparr>);
              Some (0, st\<lparr>t_call_head := Some tmp, t_count := t_count st + 1\<rparr>) })
       else Some (0, st) } }"

section \<open>Tunnel attributes\<close>

definition rand_vector_avp :: avp_handler where
  "rand_vector_avp st c b off datalen = do {
     size \<leftarrow> avp_size b off;
     if t_sanity st \<and> size < 0 then do {
       st \<leftarrow> wrong_length st c ''Random Vector'' 6 datalen True;
       Some (- EINVAL, st) }
     else if t_sanity st \<and> size > MAX_VECTOR_SIZE then do {
       st \<leftarrow> wrong_length st c ''Random Vector'' 6 datalen True;
       Some (- EINVAL, st) }
     else Some (0, st\<lparr>us_vector := Some (off + 6), us_vector_len := size\<rparr>) }"

definition ignore_avp :: avp_handler where
  "ignore_avp st c b off datalen = Some (0, st)"

definition protocol_version_avp :: avp_handler where
  "protocol_version_avp st c b off datalen =
     need_length st c (datalen = 8) ''Protocol Version'' 8 datalen True (
     for_messages st c [SCCRP, SCCRQ] (do {
       ver \<leftarrow> net16 b off 3;
       Some (0, st) }))"

definition framing_caps_avp :: avp_handler where
  "framing_caps_avp st c b off datalen =
     for_messages st c [SCCRP, SCCRQ] (
     need_length st c (datalen = 10) ''Framming Capabilities'' 10 datalen False (do {
       caps \<leftarrow> net16 b off 4;
       Some (0, st\<lparr>t_fc := caps AND 3\<rparr>) }))"

definition bearer_caps_avp :: avp_handler where
  "bearer_caps_avp st c b off datalen =
     for_messages st c [SCCRP, SCCRQ] (
     need_length st c (datalen = 10) ''Bearer Capabilities'' 10 datalen False (do {
       caps \<leftarrow> net16 b off 4;
       Some (0, st\<lparr>t_bc := caps AND 3\<rparr>) }))"

definition firmware_rev_avp :: avp_handler where
  "firmware_rev_avp st c b off datalen =
     for_messages st c [SCCRP, SCCRQ] (
     need_length st c (datalen = 8) ''Firmware Revision'' 8 datalen False (do {
       ver \<leftarrow> net16 b off 3;
       Some (0, st\<lparr>t_firmware := ver\<rparr>) }))"

definition hostname_avp :: avp_handler where
  "hostname_avp st c b off datalen =
     for_messages st c [SCCRP, SCCRQ] (
     need_length st c (\<not> datalen < 6) ''Hostname'' 6 datalen True (do {
       s \<leftarrow> copy_value (t_hostname st) b off;
       Some (0, st\<lparr>t_hostname := s\<rparr>) }))"

definition vendor_avp :: avp_handler where
  "vendor_avp st c b off datalen =
     for_messages st c [SCCRP, SCCRQ] (
     need_length st c (\<not> datalen < 6) ''Vendor'' 6 datalen True (do {
       s \<leftarrow> copy_value (t_vendor st) b off;
       Some (0, st\<lparr>t_vendor := s\<rparr>) }))"

definition assigned_tunnel_avp :: avp_handler where
  "assigned_tunnel_avp st c b off datalen =
     for_messages st c [SCCRP, SCCRQ, StopCCN] (
     need_length st c (datalen = 8) ''Assigned Tunnel ID'' 8 datalen False (do {
       cl \<leftarrow> get_c st c;
       v \<leftarrow> net16 b off 3;
       Some (0, if c_msgtype cl = StopCCN then st\<lparr>t_qtid := v\<rparr> else st\<lparr>t_tid := v\<rparr>) }))"

definition receive_window_size_avp :: avp_handler where
  "receive_window_size_avp st c b off datalen =
     for_messages st c [SCCRP, SCCRQ, OCRP, OCCN, StopCCN] (
     need_length st c (datalen = 8) ''Receive Window Size'' 8 datalen False (do {
       v \<leftarrow> net16 b off 3;
       Some (0, st\<lparr>t_rws := v\<rparr>) }))"

text \<open>\<open>bcopy\<close> of \<open>size\<close> bytes into the fresh block; a negative size is an enormous one.\<close>

definition challenge_avp :: avp_handler where
  "challenge_avp st c b off datalen =
     for_messages st c [SCCRP, SCCRQ] (
     need_length st c (\<not> datalen < 6) ''challenge'' 6 datalen True (do {
       size \<leftarrow> avp_size b off;
       case next_alloc st of (ok, st) \<Rightarrow>
         if \<not> ok then Some (- ENOMEM, st\<lparr>us_challenge := None\<rparr>)
         else if size < 0 then None
         else do {
           v \<leftarrow> rd_bytes b (off + 6) (nat size);
           Some (0, st\<lparr>us_challenge := Some v, us_chal_len := size, us_state := STATE_CHALLENGED\<rparr>) } }))"

definition chalresp_avp :: avp_handler where
  "chalresp_avp st c b off datalen =
     for_messages st c [SCCRP, SCCCN] (
     need_length st c (\<not> datalen < 6) ''challenge'' 6 datalen True (do {
       size \<leftarrow> avp_size b off;
       if size \<noteq> int MD_SIG_SIZE then Some (- EINVAL, st)
       else do {
         v \<leftarrow> rd_bytes b (off + 6) MD_SIG_SIZE;
         Some (0, st\<lparr>them_reply := v\<rparr>) } }))"

section \<open>Call attributes\<close>

definition seq_reqd_avp :: avp_handler where
  "seq_reqd_avp st c b off datalen =
     need_length st c (datalen = 6) ''Sequencing Required'' 6 datalen True (do {
       cl \<leftarrow> get_c st c;
       if t_sanity st \<and> c_msgtype cl \<noteq> ICCN then Some (- EINVAL, st)
       else do {
         st \<leftarrow> upd_c st c (\<lambda>cl. cl\<lparr>c_seq_reqd := -1\<rparr>);
         Some (0, st) } })"

text \<open>The repair of values that a known client sends without \<open>htons\<close>.\<close>

definition apple_fix :: "int \<Rightarrow> int" where
  "apple_fix v = (if v AND 0xFF = 0 \<and> drop_bit 8 v \<noteq> 0 then drop_bit 8 v else v)"

definition result_code_avp :: avp_handler where
  "result_code_avp st c b off datalen =
     need_length st c (\<not> datalen < 8) ''Result Code'' 8 datalen True (
     for_messages st c [CDN, StopCCN] (do {
       cl \<leftarrow> get_c st c;
       r \<leftarrow> net16 b off 3;
       let result = apple_fix r;
       if c_msgtype cl = StopCCN \<and> (result > 7 \<or> result < 1) then Some (0, st)
       else if c_msgtype cl = CDN \<and> (result > 11 \<or> result < 1) then Some (0, st)
       else do {
         error \<leftarrow> (if datalen \<ge> 10 then do { e \<leftarrow> net16 b off 4; Some (apple_fix e) } else Some (-1));
         msg \<leftarrow> (if datalen > 10 then safe_copy (c_errormsg cl) (drop (off + 10) b) (datalen - 10)
                 else arr_upd (c_errormsg cl) 0 (\<lambda>_. 0));
         st \<leftarrow> upd_c st c (\<lambda>cl. cl\<lparr>c_error := error, c_result := result, c_errormsg := msg\<rparr>);
         Some (0, st) } }))"

definition bearer_type_avp :: avp_handler where
  "bearer_type_avp st c b off datalen =
     for_messages st c [ICRQ, OCRQ] (
     need_length st c (datalen = 10) ''Bearer Type'' 10 datalen False (do {
       v \<leftarrow> net16 b off 4;
       st \<leftarrow> upd_head st (\<lambda>cl. cl\<lparr>c_bearer := v\<rparr>);
       Some (0, st) }))"

definition frame_type_avp :: avp_handler where
  "frame_type_avp st c b off datalen =
     for_messages st c [ICCN, OCRQ, OCCN] (
     need_length st c (datalen = 10) ''Frame Type'' 10 datalen False (do {
       v \<leftarrow> net16 b off 4;
       st \<leftarrow> upd_c st c (\<lambda>cl. cl\<lparr>c_frame := v\<rparr>);
       Some (0, st) }))"

text \<open>The three numbers of a call go to the head of the tunnel's call list.\<close>

definition head_string ::
  "l2tp \<Rightarrow> (l2call \<Rightarrow> byte_buf) \<Rightarrow> (byte_buf \<Rightarrow> l2call \<Rightarrow> l2call) \<Rightarrow> byte_buf \<Rightarrow> nat \<Rightarrow> (int \<times> l2tp) option" where
  "head_string st get put b off = (case t_call_head st of
     None \<Rightarrow> None
   | Some h \<Rightarrow> do {
       cl \<leftarrow> get_c st h;
       s \<leftarrow> copy_value (get cl) b off;
       st \<leftarrow> upd_c st h (put s);
       Some (0, st) })"

definition dialing_number_avp :: avp_handler where
  "dialing_number_avp st c b off datalen =
     for_messages st c [ICRQ] (
     need_length st c (\<not> datalen < 6) ''Dialing Number'' 6 datalen True (
       head_string st c_dialing (\<lambda>s cl. cl\<lparr>c_dialing := s\<rparr>) b off))"

definition dialed_number_avp :: avp_handler where
  "dialed_number_avp st c b off datalen =
     for_messages st c [OCRQ, ICRQ] (
     need_length st c (\<not> datalen < 6) ''Dialed Number'' 6 datalen True (
       head_string st c_dialed (\<lambda>s cl. cl\<lparr>c_dialed := s\<rparr>) b off))"

definition sub_address_avp :: avp_handler where
  "sub_address_avp st c b off datalen =
     for_messages st c [OCRP, ICRQ] (
     need_length st c (\<not> datalen < 6) ''Sub-address'' 6 datalen True (
       head_string st c_subaddy (\<lambda>s cl. cl\<lparr>c_subaddy := s\<rparr>) b off))"

definition assigned_call_avp :: avp_handler where
  "assigned_call_avp st c b off datalen =
     for_messages st c [CDN, ICRP, ICRQ, OCRP] (
     need_length st c (datalen = 8) ''Assigned Call ID'' 8 datalen False (do {
       cl \<leftarrow> get_c st c;
       v \<leftarrow> net16 b off 3;
       st \<leftarrow>
         (if c_msgtype cl = CDN then upd_c st c (\<lambda>cl. cl\<lparr>c_qcid := v\<rparr>)
          else if c_msgtype cl = ICRQ then upd_head st (\<lambda>cl. cl\<lparr>c_cid := v\<rparr>)
          else if c_msgtype cl = ICRP then upd_c st c (\<lambda>cl. cl\<lparr>c_cid := v\<rparr>)
          else if c_msgtype cl = OCRP then upd_c st c (\<lambda>cl. cl\<lparr>c_cid := v\<rparr>)
          else Some st);
       Some (0, st) }))"

definition packet_delay_avp :: avp_handler where
  "packet_delay_avp st c b off datalen =
     for_messages st c [ICRP, OCRQ, ICCN, OCRP, OCCN] (
     need_length st c (datalen = 8) ''Assigned Call ID'' 8 datalen False (do {
       v \<leftarrow> net16 b off 3;
       st \<leftarrow> upd_c st c (\<lambda>cl. cl\<lparr>c_ppd := v\<rparr>);
       Some (0, st) }))"

definition call_serno_avp :: avp_handler where
  "call_serno_avp st c b off datalen =
     for_messages st c [ICRQ, OCRQ] (do {
       v \<leftarrow> net32 b off;
       st \<leftarrow> upd_head st (\<lambda>cl. cl\<lparr>c_serno := v\<rparr>);
       Some (0, st) })"

definition rx_speed_avp :: avp_handler where
  "rx_speed_avp st c b off datalen =
     for_messages st c [ICCN, OCCN, OCRP] (
     need_length st c (datalen = 10) ''Connect Speed (RX)'' 10 datalen False (do {
       v \<leftarrow> net32 b off;
       st \<leftarrow> upd_c st c (\<lambda>cl. cl\<lparr>c_rxspeed := v\<rparr>);
       Some (0, st) }))"

definition tx_speed_avp :: avp_handler where
  "tx_speed_avp st c b off datalen =
     for_messages st c [ICCN, OCCN, OCRP] (
     need_length st c (datalen = 10) ''Connect Speed (tx)'' 10 datalen False (do {
       v \<leftarrow> net32 b off;
       st \<leftarrow> upd_c st c (\<lambda>cl. cl\<lparr>c_txspeed := v\<rparr>);
       Some (0, st) }))"

definition call_physchan_avp :: avp_handler where
  "call_physchan_avp st c b off datalen =
     for_messages st c [ICRQ, OCRQ, OCRP, OCCN] (
     need_length st c (datalen = 10) ''Physical Channel'' 10 datalen False (do {
       v \<leftarrow> net32 b off;
       st \<leftarrow> upd_head st (\<lambda>cl. cl\<lparr>c_physchan := v\<rparr>);
       Some (0, st) }))"

section \<open>The table of attributes\<close>

type_synonym avp_table = "(avp_handler option \<times> string) list"

definition avps :: avp_table where
  "avps =
     [(Some message_type_avp, ''Message Type''),
      (Some result_code_avp, ''Result Code''),
      (Some protocol_version_avp, ''Protocol Version''),
      (Some framing_caps_avp, ''Framing Capabilities''),
      (Some bearer_caps_avp, ''Bearer Capabilities''),
      (None, ''Tie Breaker''),
      (Some firmware_rev_avp, ''Firmware Revision''),
      (Some hostname_avp, ''Host Name''),
      (Some vendor_avp, ''Vendor Name''),
      (Some assigned_tunnel_avp, ''Assigned Tunnel ID''),
      (Some receive_window_size_avp, ''Receive Window Size''),
      (Some challenge_avp, ''Challenge''),
      (None, ''Q.931 Cause Code''),
      (Some chalresp_avp, ''Challenge Response''),
      (Some assigned_call_avp, ''Assigned Call ID''),
      (Some call_serno_avp, ''Call Serial Number''),
      (None, ''Minimum BPS''),
      (None, ''Maximum BPS''),
      (Some bearer_type_avp, ''Bearer Type''),
      (Some frame_type_avp, ''Framing Type''),
      (Some packet_delay_avp, ''Packet Processing Delay''),
      (Some dialed_number_avp, ''Dialed Number''),
      (Some dialing_number_avp, ''Dialing Number''),
      (Some sub_address_avp, ''Sub-Address''),
      (Some tx_speed_avp, ''Transmit Connect Speed''),
      (Some call_physchan_avp, ''Physical channel ID''),
      (None, ''Initial Received LCP Confreq''),
      (None, ''Last Sent LCP Confreq''),
      (None, ''Last Received LCP Confreq''),
      (Some ignore_avp, ''Proxy Authen Type''),
      (Some ignore_avp, ''Proxy Authen Name''),
      (Some ignore_avp, ''Proxy Authen Challenge''),
      (Some ignore_avp, ''Proxy Authen ID''),
      (Some ignore_avp, ''Proxy Authen Response''),
      (None, ''Call Errors''),
      (Some ignore_avp, ''ACCM''),
      (Some rand_vector_avp, ''Random Vector''),
      (None, ''Private Group ID''),
      (Some rx_speed_avp, ''Receive Connect Speed''),
      (Some seq_reqd_avp, ''Sequencing Required'')]"

abbreviation (input) "AVP_MAX \<equiv> (39::nat)"

section \<open>The loop over a message\<close>

text \<open>
  One round of the loop of \<open>handle_avps\<close> up to the label \<open>next\<close>: it returns from the function,
  or goes on with \<open>moved\<close> bytes already consumed (two when a hidden AVP was uncovered) and
  with \<open>hidlen\<close>.
\<close>

datatype avp_outcome = Return int | Next nat u16

definition close_with :: "l2tp \<Rightarrow> nat \<Rightarrow> int \<Rightarrow> byte_buf \<Rightarrow> byte_buf \<Rightarrow> (avp_outcome \<times> l2tp \<times> byte_buf) option" where
  "close_with st c err text b = do {
     st \<leftarrow> set_error st c err text;
     st \<leftarrow> upd_c st c (\<lambda>cl. cl\<lparr>c_needclose := -1\<rparr>);
     Some (Return (- EINVAL), st, b) }"

text \<open>
  From the test of \<open>avps[avp->attr].handler\<close> on, for the (possibly uncovered) AVP at \<open>data\<close>.
\<close>

definition call_handler ::
  "avp_table \<Rightarrow> l2tp \<Rightarrow> nat \<Rightarrow> byte_buf \<Rightarrow> nat \<Rightarrow> nat \<Rightarrow> u16 \<Rightarrow> (avp_outcome \<times> l2tp \<times> byte_buf) option" where
  "call_handler tab st c b data moved hidlen = do {
     length' \<leftarrow> raw b data 0;
     attr \<leftarrow> raw b data 2;
     entry \<leftarrow> arr_get tab (unat attr);
     case fst entry of
       None \<Rightarrow>
         if AMBIT length' then do {
           st \<leftarrow> set_error st c VENDOR_ERROR
                  (msg_bytes ''No handler for attr '' @ fmt_int (uint attr) @ msg_bytes ('' ('' @ snd entry @ '')'') @ [0x0A]);
           Some (Return (- EINVAL), st, b) }
         else Some (Next moved hidlen, st, b)
     | Some handler \<Rightarrow> do {
         (rc, st) \<leftarrow> handler st c b data (ALENGTH length');
         if rc \<noteq> 0 \<and> AMBIT length' then do {
           st \<leftarrow> upd_c st c (\<lambda>cl. cl\<lparr>c_needclose := -1\<rparr>);
           Some (Return (- EINVAL), st, b) }
         else Some (Next moved hidlen, st, b) } }"

definition handle_avp ::
  "avp_table \<Rightarrow> l2tp \<Rightarrow> nat \<Rightarrow> byte_buf \<Rightarrow> nat \<Rightarrow> int \<Rightarrow> bool \<Rightarrow> (avp_outcome \<times> l2tp \<times> byte_buf) option" where
  "handle_avp tab st c b data len firstavp = do {
     b \<leftarrow> swaps b data 3;
     length' \<leftarrow> raw b data 0;
     attr \<leftarrow> raw b data 2;
     if unat attr > AVP_MAX then
       (if AMBIT length' then
          close_with st c VENDOR_ERROR
            (msg_bytes ''mandatory attribute '' @ fmt_int (uint attr) @ msg_bytes '' cannot be handled'') b
        else Some (Next 0 0, st, b))
     else if ALENGTH length' > len then close_with st c ERROR_LENGTH (msg_bytes ''Invalid AVP length'') b
     else if attr \<noteq> 0 \<and> firstavp then close_with st c VENDOR_ERROR (msg_bytes ''First AVP must be message type'') b
     else if ALENGTH length' < 6 then close_with st c ERROR_LENGTH (msg_bytes ''AVP too small'') b
     else if AZBITS length' then
       (if AMBIT length' then close_with st c ERROR_RESERVED (msg_bytes ''reserved bits set in AVP'') b
        else Some (Next 0 0, st, b))
     else if AHBIT length' then do {
       (rc, b) \<leftarrow> decrypt_avp st b data;
       if rc \<noteq> 0 then
         (if AMBIT length' then close_with st c VENDOR_ERROR (msg_bytes ''Invalid Hidden AVP'') b
          else Some (Next 0 length', st, b))
       else call_handler tab st c b (data + 2) 2 (length' - 2) }
     else call_handler tab st c b data 0 0 }"

text \<open>The number of bytes skipped at \<open>next\<close>; 0 is the \<open>break\<close> for a length of zero.\<close>

definition skip_avp :: "byte_buf \<Rightarrow> nat \<Rightarrow> u16 \<Rightarrow> nat option" where
  "skip_avp b data hidlen = do {
     length' \<leftarrow> raw b data 0;
     Some (if hidlen \<noteq> 0 \<and> ALENGTH hidlen \<noteq> 0 then nat (ALENGTH hidlen) else nat (ALENGTH length')) }"

function handle_loop ::
  "avp_table \<Rightarrow> l2tp \<Rightarrow> nat \<Rightarrow> byte_buf \<Rightarrow> nat \<Rightarrow> int \<Rightarrow> bool \<Rightarrow> (int \<times> l2tp \<times> byte_buf) option" where
  "handle_loop tab st c b data len firstavp =
     (if len > 0 then do {
        (out, st, b) \<leftarrow> handle_avp tab st c b data len firstavp;
        case out of
          Return rc \<Rightarrow> Some (rc, st, b)
        | Next moved hidlen \<Rightarrow> do {
            skip \<leftarrow> skip_avp b (data + moved) hidlen;
            if skip > 0 then handle_loop tab st c b (data + moved + skip) (len - int moved - int skip) False
            else Some (- EINVAL, st, b) } }
      else Some (if len \<noteq> 0 then - EINVAL else 0, st, b))"
  by pat_completeness auto
termination by (relation "measure (\<lambda>(tab, st, c, b, data, len, firstavp). nat len)") auto

declare handle_loop.simps [simp del]

text \<open>\<open>struct control_hdr\<close> has 12 bytes; \<open>blen\<close> is \<open>buf->len\<close>.\<close>

definition handle_avps :: "l2tp \<Rightarrow> byte_buf \<Rightarrow> nat \<Rightarrow> nat \<Rightarrow> (int \<times> l2tp \<times> byte_buf) option" where
  "handle_avps st b blen c = handle_loop avps st c b 12 (int blen - 12) True"

end
