(* ===== verification/L2tp_Avp_Props.thy ===== *)
theory L2tp_Avp_Props
  imports L2tp_Avp
begin

text \<open>
  Properties of the treatment of AVPs. The contract of the handlers in the attribute table is
  the locale \<open>attribute_table\<close>, in which the loop over a message is shown to stay within the
  packet and the state; the table of \<open>avp.c\<close> is an instance.
\<close>

section \<open>Reading and writing headers\<close>

lemma length_snprintf': "0 < length a \<Longrightarrow> length (snprintf a s) = length a"
  by (rule length_snprintf) auto

lemma set_raw_Some: "off + 2 * i + 2 \<le> length b \<Longrightarrow> \<exists>b'. set_raw b off i w = Some b'"
  by (simp add: set_raw_def wr_bytes_def)

lemma length_set_raw: "set_raw b off i w = Some b' \<Longrightarrow> length b' = length b"
  by (simp add: set_raw_def wr_bytes_length)

lemma raw_Some: "off + 2 * i + 2 \<le> length b \<Longrightarrow> \<exists>w. raw b off i = Some w"
  by (simp add: raw_def arr_get_def)

lemma raw_set_raw_same: "set_raw b off i w = Some b' \<Longrightarrow> raw b' off i = Some w"
  using length_set_raw [of b off i w b']
  by (auto simp: set_raw_def raw_def arr_get_def wr_bytes_nth wr_bytes_def le16_bytes_def nth_append split: if_splits)

lemma raw_set_raw_other:
  assumes "set_raw b off i w = Some b'" "off' + 2 * j + 2 \<le> off + 2 * i \<or> off + 2 * i + 2 \<le> off' + 2 * j"
  shows "raw b' off' j = raw b off' j"
proof -
  have w: "wr_bytes b (off + 2 * i) (le16_bytes w) = Some b'" using assms(1) by (simp add: set_raw_def)
  show ?thesis using assms(2) wr_bytes_length [OF w] wr_bytes_nth [OF w]
    by (auto simp: raw_def arr_get_def)
qed

lemma swaps_Some: "off + 2 * n \<le> length b \<Longrightarrow> \<exists>b'. swaps b off n = Some b' \<and> length b' = length b"
proof (induction b off n rule: swaps.induct)
  case (2 b off n)
  obtain b1 where b1: "wr_bytes b off [b ! (off + 1), b ! off] = Some b1" "length b1 = length b"
    using 2(2) by (auto simp: wr_bytes_def)
  have "\<exists>b'. swaps b1 (off + 2) n = Some b' \<and> length b' = length b1"
    using b1 2(2) by (intro 2(1) [of "b ! off" "b ! (off + 1)"]) (simp_all add: arr_get_def)
  then show ?case using b1 2(2) by (simp add: arr_get_def)
qed simp

lemma ALENGTH_take_bit: "ALENGTH w = uint (take_bit 10 w)"
proof -
  have "(0x03FF :: u16) = mask 10" by (simp add: mask_eq_exp_minus_1)
  then show ?thesis by (simp add: ALENGTH_def take_bit_eq_mask)
qed

lemma ALENGTH_range: "0 \<le> ALENGTH w" "ALENGTH w < 1024"
  using take_bit_int_less_exp [of 10 "uint w"] by (simp_all add: ALENGTH_take_bit unsigned_take_bit_eq)

lemma ALENGTH_hidden:
  assumes "n < 1024"
  shows "ALENGTH (word_of_nat n OR (w AND 0xF000 AND NOT HBIT)) = int n"
proof -
  have m: "(0xF000 :: u16) = NOT (mask 12)" by (simp add: mask_eq_exp_minus_1)
  have "take_bit 10 (word_of_nat n OR (w AND 0xF000 AND NOT HBIT)) = (take_bit 10 (word_of_nat n) :: u16)"
    unfolding m by (rule bit_word_eqI) (auto simp: bit_simps)
  moreover have "uint (word_of_nat n :: u16) = int n"
    using assms unat_u16_of_nat [of n] uint_nat [of "word_of_nat n :: u16"] by simp
  ultimately show ?thesis
    using assms by (simp add: ALENGTH_take_bit unsigned_take_bit_eq take_bit_int_eq_self)
qed

lemma olen_ALENGTH:
  assumes "\<not> AZBITS w"
  shows "int (unat (w AND 0x0FFF)) = ALENGTH w"
proof -
  have z: "w AND 0x3C00 = 0" using assms by (simp add: AZBITS_def)
  have "w AND 0x0FFF = w AND (0x0C00 OR 0x03FF)" by simp
  also have "\<dots> = w AND 0x03FF" 
  proof -
    have "w AND 0x0C00 = (w AND 0x3C00) AND 0x0C00" by (simp add: and.assoc)
    then show ?thesis using z by (simp only: bit.conj_disj_distrib) simp
  qed
  finally show ?thesis by (simp add: ALENGTH_def)
qed

section \<open>Decryption stays within the packet\<close>

lemma decrypt_loop_Some:
  assumes "stop \<le> length b" "cnt \<le> 16" "length digest = 16" "length saved = 16" "length secret < 2 ^ 32"
  shows "\<exists>b'. decrypt_loop secret b ptr stop cnt digest saved = Some b' \<and> length b' = length b"
  using assms
proof (induction "stop - ptr" arbitrary: b ptr cnt digest saved)
  case 0
  then show ?case by (simp add: decrypt_loop.simps)
next
  case (Suc k)
  then have lt: "ptr < stop" by simp
  have "md5_of [secret, saved] = Some (md5 (secret @ saved))" using Suc.prems by (intro md5_of_two) simp_all
  then obtain d c where d: "(if cnt \<ge> 16 then do { d \<leftarrow> md5_of [secret, saved]; Some (d, 0) } else Some (digest, cnt)) = Some (d, c)"
    "length d = 16" "c < 16" using Suc.prems by (cases "16 \<le> cnt") (auto simp: length_md5)
  have m: "ptr + min (stop - ptr) 16 \<le> length b" using Suc.prems lt by linarith
  obtain s where s: "(if c = 0 then do { s \<leftarrow> rd_bytes b ptr (min (stop - ptr) 16); wr_bytes saved 0 s } else Some saved) = Some s"
    "length s = 16"
    using Suc.prems m by (cases "c = 0") (auto simp: rd_bytes_def wr_bytes_def simp del: add.commute)
  have "\<exists>b'. decrypt_loop secret (b[ptr := b ! ptr XOR d ! c]) (ptr + 1) stop (c + 1) d s = Some b' \<and>
     length b' = length (b[ptr := b ! ptr XOR d ! c])"
    using Suc.hyps(2) Suc.prems d s lt by (intro Suc.hyps(1)) simp_all
  then show ?case
    using d s lt Suc.prems by (subst decrypt_loop.simps) (simp add: arr_get_def arr_upd_def)
qed

text \<open>
  The random vector a peer has sent is a pointer into the packet buffer; it is in bounds. The
  secret is a \<open>char[MAXSTRLEN]\<close>.
\<close>

definition vector_ok :: "l2tp \<Rightarrow> byte_buf \<Rightarrow> bool" where
  "vector_ok st b \<longleftrightarrow> length (us_secret st) \<le> MAXSTRLEN \<and>
     (\<forall>v. us_vector st = Some v \<longrightarrow> us_vector_len st \<le> MAX_VECTOR_SIZE \<and> v + nat (us_vector_len st) \<le> length b)"

lemma decrypt_avp_Some:
  assumes vec: "vector_ok st b" and hdr: "raw b off 0 = Some w" "raw b off 2 = Some attr"
    and n: "\<not> AZBITS w" "6 \<le> ALENGTH w" "off + nat (ALENGTH w) \<le> length b" "off + 8 \<le> length b"
  shows "\<exists>rc b'. decrypt_avp st b off = Some (rc, b') \<and> length b' = length b \<and>
     (rc = 0 \<longrightarrow> raw b' (off + 2) 2 = Some attr \<and>
       (\<exists>w'. raw b' (off + 2) 0 = Some w' \<and> 6 \<le> ALENGTH w' \<and> ALENGTH w' \<le> ALENGTH w - 2))"
proof (cases "us_vector st")
  case None
  then show ?thesis using hdr by (simp add: decrypt_avp_def)
next
  case (Some v)
  define olen where "olen = unat (w AND 0x0FFF)"
  have ol: "int olen = ALENGTH w" using n(1) unfolding olen_def by (rule olen_ALENGTH)
  then have olb: "olen < 1024" "6 \<le> olen" "off + olen \<le> length b" using ALENGTH_range [of w] n by simp_all
  have v: "v + nat (us_vector_len st) \<le> length b" "nat (us_vector_len st) \<le> 1024" using vec Some by (auto simp: vector_ok_def)
  define vec where "vec = take (nat (us_vector_len st)) (drop v b)"
  have rv: "rd_bytes b v (nat (us_vector_len st)) = Some vec" "length vec \<le> 1024" using v by (simp_all add: rd_bytes_def vec_def)
  let ?sec = "c_string (us_secret st)"
  have ls: "length ?sec \<le> 120" using length_c_string [of "us_secret st"] vec by (simp add: vector_ok_def)
  have md: "md5_of [le16_bytes (ntohs attr), ?sec, vec] = Some (md5 (le16_bytes (ntohs attr) @ ?sec @ vec))"
    using ls rv(2) by (simp add: md5_of_ok)
  obtain b1 where b1: "decrypt_loop ?sec b (off + 6) (off + olen) 0 (md5 (le16_bytes (ntohs attr) @ ?sec @ vec)) (replicate 16 0) = Some b1"
    "length b1 = length b"
    using decrypt_loop_Some [of "off + olen" b 0 "md5 (le16_bytes (ntohs attr) @ ?sec @ vec)" "replicate 16 0" ?sec "off + 6"] olb ls
    by (auto simp: length_md5)
  obtain na where na: "raw b1 (off + 2) 2 = Some na" using raw_Some [of "off + 2" 2 b1] b1 n by auto
  define len where "len = unat (ntohs na) + 6"
  show ?thesis
  proof (cases "int len > int olen - 2")
    case True
    then show ?thesis using Some hdr rv(1) md b1 na by (simp add: decrypt_avp_def olen_def len_def)
  next
    case False
    obtain b2 where b2: "set_raw b1 (off + 2) 2 attr = Some b2" using set_raw_Some [of "off + 2" 2 b1 attr] b1 n by auto
    obtain ov where ov: "raw b2 off 1 = Some ov" using raw_Some [of off 1 b2] length_set_raw [OF b2] b1 n by auto
    obtain b3 where b3: "set_raw b2 (off + 2) 1 ov = Some b3"
      using set_raw_Some [of "off + 2" 1 b2 ov] length_set_raw [OF b2] b1 n by auto
    let ?w' = "word_of_nat len OR (w AND 0xF000 AND NOT HBIT)"
    obtain b4 where b4: "set_raw b3 (off + 2) 0 ?w' = Some b4"
      using set_raw_Some [of "off + 2" 0 b3 ?w'] length_set_raw [OF b2] length_set_raw [OF b3] b1 n by auto
    have "length b4 = length b" using length_set_raw [OF b2] length_set_raw [OF b3] length_set_raw [OF b4] b1 by simp
    moreover have "raw b4 (off + 2) 2 = Some attr"
      using raw_set_raw_same [OF b2] raw_set_raw_other [OF b3, of "off + 2" 2] raw_set_raw_other [OF b4, of "off + 2" 2] by simp
    moreover have "ALENGTH ?w' = int len" using False olb by (intro ALENGTH_hidden) simp
    moreover have "decrypt_avp st b off = Some (0, b4)"
      using Some hdr rv(1) md b1 na False b2 ov b3 b4 by (simp add: decrypt_avp_def olen_def len_def)
    moreover have "6 \<le> len" by (simp add: len_def)
    ultimately show ?thesis using raw_set_raw_same [OF b4] False ol by auto
  qed
qed

section \<open>What a handler may rely on and promises\<close>

definition avp_state :: "nat \<Rightarrow> byte_buf \<Rightarrow> l2tp \<Rightarrow> bool" where
  "avp_state c b st \<longleftrightarrow> l2tp_wf st \<and> c < length (calls st) \<and> t_sanity st \<and> t_call_head st \<noteq> None \<and> vector_ok st b"

definition avp_at :: "byte_buf \<Rightarrow> nat \<Rightarrow> int \<Rightarrow> bool" where
  "avp_at b off n \<longleftrightarrow> off + 10 \<le> length b \<and> 6 \<le> n \<and> off + nat n \<le> length b \<and> (\<exists>w. raw b off 0 = Some w \<and> ALENGTH w = n)"

text \<open>The operation ends without a fault, in a good state.\<close>

definition safe :: "nat \<Rightarrow> byte_buf \<Rightarrow> (int \<times> l2tp) option \<Rightarrow> bool" where
  "safe c b r \<longleftrightarrow> (\<exists>rc st. r = Some (rc, st) \<and> avp_state c b st)"

named_theorems safe_intros \<open>composition of safe handlers\<close>

lemma safe_Some [safe_intros]: "avp_state c b st \<Longrightarrow> safe c b (Some (rc, st))"
  by (simp add: safe_def)

lemma safe_if [safe_intros]: "(P \<Longrightarrow> safe c b x) \<Longrightarrow> (\<not> P \<Longrightarrow> safe c b y) \<Longrightarrow> safe c b (if P then x else y)"
  by simp

lemma safe_if_bind [safe_intros]:
  "(P \<Longrightarrow> safe c b (x \<bind> k)) \<Longrightarrow> (\<not> P \<Longrightarrow> safe c b (y \<bind> k)) \<Longrightarrow> safe c b ((if P then x else y) \<bind> k)"
  by simp

lemma safe_Some_bind [safe_intros]: "safe c b (k x) \<Longrightarrow> safe c b (Some x \<bind> k)"
  by simp

lemma safe_rd_bytes [safe_intros]:
  assumes "i + n \<le> length b" "\<And>v. length v = n \<Longrightarrow> safe c b (k v)"
  shows "safe c b (rd_bytes b i n \<bind> k)"
  using assms by (simp add: rd_bytes_def)

lemma safe_assoc [safe_intros]: "safe c b (x \<bind> (\<lambda>a. g a \<bind> k)) \<Longrightarrow> safe c b ((x \<bind> g) \<bind> k)"
  by (cases x) simp_all

lemma safe_safe_copy [safe_intros]:
  assumes "0 \<le> sz" "length a = MAXSTRLEN" "nat sz \<le> length src" "\<And>s. length s = MAXSTRLEN \<Longrightarrow> safe c b (k s)"
  shows "safe c b (safe_copy a src sz \<bind> k)"
  using safe_copy_Some [OF assms(1-3)] assms(4) by fastforce

lemma safe_arr_upd [safe_intros]:
  assumes "i < length a" "\<And>s. length s = length a \<Longrightarrow> safe c b (k s)"
  shows "safe c b (arr_upd a i f \<bind> k)"
  using assms by (simp add: arr_upd_def)

lemma safe_get_c [safe_intros]:
  "avp_state c b st \<Longrightarrow> (\<And>cl. cl = calls st ! c \<Longrightarrow> call_wf cl \<Longrightarrow> safe c b (k cl)) \<Longrightarrow> safe c b (get_c st c \<bind> k)"
  by (simp add: avp_state_def get_c_Some wf_call)

lemma avp_state_upd_c:
  assumes "avp_state c b st" "d < length (calls st)" "call_wf (f (calls st ! d))"
  shows "\<exists>st'. upd_c st d f = Some st' \<and> avp_state c b st'"
proof -
  obtain st' where "upd_c st d f = Some st'" "l2tp_wf st'" "st' = st\<lparr>calls := (calls st)[d := f (calls st ! d)]\<rparr>"
    using wf_upd_c [of st d f] assms by (auto simp: avp_state_def)
  then show ?thesis using assms(1) by (auto simp: avp_state_def vector_ok_def)
qed

lemma safe_upd_c [safe_intros]:
  assumes "avp_state c b st" "\<And>cl. call_wf cl \<Longrightarrow> call_wf (f cl)" "\<And>st'. avp_state c b st' \<Longrightarrow> safe c b (k st')"
  shows "safe c b (upd_c st c f \<bind> k)"
  using avp_state_upd_c [of c b st c f] assms by (force simp: avp_state_def wf_call)

lemma avp_state_upd_head:
  assumes "avp_state c b st" "\<And>cl. call_wf cl \<Longrightarrow> call_wf (f cl)"
  shows "\<exists>st'. upd_head st f = Some st' \<and> avp_state c b st'"
proof -
  obtain h where h: "t_call_head st = Some h" "h < length (calls st)" using assms(1) by (auto simp: avp_state_def l2tp_wf_def)
  then show ?thesis using avp_state_upd_c [OF assms(1) h(2)] assms by (simp add: upd_head_def avp_state_def wf_call)
qed

lemma safe_upd_head [safe_intros]:
  assumes "avp_state c b st" "\<And>cl. call_wf cl \<Longrightarrow> call_wf (f cl)" "\<And>st'. avp_state c b st' \<Longrightarrow> safe c b (k st')"
  shows "safe c b (upd_head st f \<bind> k)"
  using avp_state_upd_head [OF assms(1,2)] assms(3) by fastforce

lemma safe_net16 [safe_intros]:
  assumes "off + 2 * i + 2 \<le> length b" "\<And>v. safe c b (k v)"
  shows "safe c b (net16 b off i \<bind> k)"
  using raw_Some [OF assms(1)] assms(2) by (auto simp: net16_def)

lemma safe_net32 [safe_intros]:
  assumes "off + 10 \<le> length b" "\<And>v. safe c b (k v)"
  shows "safe c b (net32 b off \<bind> k)"
proof -
  obtain h l where "raw b off 3 = Some h" "raw b off 4 = Some l"
    using raw_Some [of off 3 b] raw_Some [of off 4 b] assms(1) by auto
  then show ?thesis using assms(2) by (simp add: net32_def)
qed

lemma safe_avp_size [safe_intros]: "avp_at b off n \<Longrightarrow> safe c b (k (n - 6)) \<Longrightarrow> safe c b (avp_size b off \<bind> k)"
  by (auto simp: avp_at_def avp_size_def)

lemma copy_value_Some:
  assumes "avp_at b off n" "length a = MAXSTRLEN"
  shows "\<exists>a'. copy_value a b off = Some a' \<and> length a' = MAXSTRLEN"
proof -
  define sz where "sz = (if n - 6 > int MAXSTRLEN - 1 then int MAXSTRLEN - 1 else n - 6)"
  have s: "avp_size b off = Some (n - 6)" using assms(1) by (auto simp: avp_at_def avp_size_def)
  have "\<exists>a'. safe_copy a (drop (off + 6) b) sz = Some a' \<and> length a' = MAXSTRLEN"
    using assms by (intro safe_copy_Some) (auto simp: avp_at_def sz_def)
  then show ?thesis by (auto simp: copy_value_def s sz_def)
qed

lemma safe_copy_value [safe_intros]:
  assumes "avp_at b off n" "length a = MAXSTRLEN" "\<And>s. length s = MAXSTRLEN \<Longrightarrow> safe c b (k s)"
  shows "safe c b (copy_value a b off \<bind> k)"
  using copy_value_Some [OF assms(1,2)] assms(3) by fastforce

lemma safe_wrong_length [safe_intros]:
  assumes "avp_state c b st" "\<And>st'. avp_state c b st' \<Longrightarrow> safe c b (k st')"
  shows "safe c b (wrong_length st c field e n m \<bind> k)"
  unfolding wrong_length_def
  by (intro safe_upd_c assms) (auto simp: call_wf_def length_snprintf')

lemma safe_for_messages [safe_intros]:
  "avp_state c b st \<Longrightarrow> safe c b k \<Longrightarrow> safe c b (for_messages st c ms k)"
  unfolding for_messages_def by (intro safe_intros)

lemma safe_need_length [safe_intros]:
  assumes "avp_state c b st" "ok \<Longrightarrow> safe c b k"
  shows "safe c b (need_length st c ok field e n m k)"
proof -
  have "t_sanity st" using assms(1) by (simp add: avp_state_def)
  then show ?thesis unfolding need_length_def by (intro safe_intros assms) auto
qed

lemma safe_head_string [safe_intros]:
  assumes "avp_state c b st" "avp_at b off n" "\<And>cl. call_wf cl \<Longrightarrow> length (get cl) = MAXSTRLEN"
    "\<And>cl s. call_wf cl \<Longrightarrow> length s = MAXSTRLEN \<Longrightarrow> call_wf (put s cl)"
  shows "safe c b (head_string st get put b off)"
proof -
  obtain h where h: "t_call_head st = Some h" "h < length (calls st)" using assms(1) by (auto simp: avp_state_def l2tp_wf_def)
  have w: "call_wf (calls st ! h)" using assms(1) h by (simp add: avp_state_def wf_call)
  obtain s where s: "copy_value (get (calls st ! h)) b off = Some s" "length s = MAXSTRLEN"
    using copy_value_Some [OF assms(2,3)] w by blast
  obtain st' where "upd_c st h (put s) = Some st'" "avp_state c b st'"
    using avp_state_upd_c [OF assms(1) h(2), of "put s"] assms(4) [OF w s(2)] by blast
  then show ?thesis using h s by (simp add: head_string_def get_c_Some safe_def)
qed

lemma avp_state_field [simp]:
  "avp_state c b st \<Longrightarrow> avp_state c b (st\<lparr>t_fc := x\<rparr>)"
  "avp_state c b st \<Longrightarrow> avp_state c b (st\<lparr>t_bc := x\<rparr>)"
  "avp_state c b st \<Longrightarrow> avp_state c b (st\<lparr>t_firmware := x\<rparr>)"
  "avp_state c b st \<Longrightarrow> avp_state c b (st\<lparr>t_tid := x\<rparr>)"
  "avp_state c b st \<Longrightarrow> avp_state c b (st\<lparr>t_qtid := x\<rparr>)"
  "avp_state c b st \<Longrightarrow> avp_state c b (st\<lparr>t_rws := x\<rparr>)"
  "avp_state c b st \<Longrightarrow> avp_state c b (st\<lparr>allocs := n\<rparr>)"
  "avp_state c b st \<Longrightarrow> avp_state c b (st\<lparr>us_challenge := ch\<rparr>)"
  "avp_state c b st \<Longrightarrow> avp_state c b (st\<lparr>us_chal_len := x\<rparr>)"
  "avp_state c b st \<Longrightarrow> avp_state c b (st\<lparr>us_state := x\<rparr>)"
  "avp_state c b st \<Longrightarrow> length s = MAXSTRLEN \<Longrightarrow> avp_state c b (st\<lparr>t_hostname := s\<rparr>)"
  "avp_state c b st \<Longrightarrow> length s = MAXSTRLEN \<Longrightarrow> avp_state c b (st\<lparr>t_vendor := s\<rparr>)"
  "avp_state c b st \<Longrightarrow> length s = MD_SIG_SIZE \<Longrightarrow> avp_state c b (st\<lparr>them_reply := s\<rparr>)"
  by (simp_all add: avp_state_def l2tp_wf_def vector_ok_def)

lemma avp_state_strings: "avp_state c b st \<Longrightarrow> length (t_hostname st) = MAXSTRLEN \<and> length (t_vendor st) = MAXSTRLEN"
  by (simp add: avp_state_def l2tp_wf_def)

section \<open>The handlers keep the contract\<close>

locale attribute_table =
  fixes tab :: avp_table
  assumes size: "length tab = AVP_MAX + 1"
    and handler: "\<lbrakk>(Some h, name) \<in> set tab; avp_state c b st; avp_at b off n\<rbrakk> \<Longrightarrow> safe c b (h st c b off n)"

lemma message_type_safe:
  assumes s: "avp_state c b st" and a: "avp_at b off n"
  shows "safe c b (message_type_avp st c b off n)"
proof -
  have icrq: "safe c b (case new_call st1 of
      (None, st) \<Rightarrow> Some (- EINVAL, st)
    | (Some tmp, st) \<Rightarrow> do {
        st \<leftarrow> upd_c st tmp (\<lambda>cl. cl\<lparr>c_next := t_call_head st\<rparr>);
        Some (0, st\<lparr>t_call_head := Some tmp, t_count := t_count st + 1\<rparr>) })"
    if st1: "avp_state c b st1" for st1
  proof (cases "alloc st1 (allocs st1)")
    case False
    then show ?thesis using st1 by (simp add: new_call_def next_alloc_def safe_def)
  next
    case True
    have "call_wf (zero_call\<lparr>c_ourcid := i, c_lns := l, c_lac := l', c_next := p\<rparr>)" for i p l l' by (simp add: zero_call_def call_wf_def)
    then show ?thesis using True st1
      by (auto simp: new_call_def next_alloc_def safe_def upd_c_Some avp_state_def l2tp_wf_def vector_ok_def)
  qed
  show ?thesis unfolding message_type_avp_def
    by (intro safe_intros icrq s) (use a in \<open>auto simp: call_wf_def avp_at_def\<close>)
qed

lemma protocol_version_safe: "avp_state c b st \<Longrightarrow> avp_at b off n \<Longrightarrow> safe c b (protocol_version_avp st c b off n)"
  unfolding protocol_version_avp_def by (intro safe_intros) (auto simp: call_wf_def avp_state_strings avp_at_def)

lemma framing_caps_safe: "avp_state c b st \<Longrightarrow> avp_at b off n \<Longrightarrow> safe c b (framing_caps_avp st c b off n)"
  unfolding framing_caps_avp_def by (intro safe_intros) (auto simp: call_wf_def avp_state_strings avp_at_def)

lemma bearer_caps_safe: "avp_state c b st \<Longrightarrow> avp_at b off n \<Longrightarrow> safe c b (bearer_caps_avp st c b off n)"
  unfolding bearer_caps_avp_def by (intro safe_intros) (auto simp: call_wf_def avp_state_strings avp_at_def)

lemma firmware_rev_safe: "avp_state c b st \<Longrightarrow> avp_at b off n \<Longrightarrow> safe c b (firmware_rev_avp st c b off n)"
  unfolding firmware_rev_avp_def by (intro safe_intros) (auto simp: call_wf_def avp_state_strings avp_at_def)

lemma hostname_safe: "avp_state c b st \<Longrightarrow> avp_at b off n \<Longrightarrow> safe c b (hostname_avp st c b off n)"
  unfolding hostname_avp_def by (intro safe_intros) (auto simp: call_wf_def avp_state_strings)

lemma vendor_safe: "avp_state c b st \<Longrightarrow> avp_at b off n \<Longrightarrow> safe c b (vendor_avp st c b off n)"
  unfolding vendor_avp_def by (intro safe_intros) (auto simp: call_wf_def avp_state_strings)

lemma assigned_tunnel_safe: "avp_state c b st \<Longrightarrow> avp_at b off n \<Longrightarrow> safe c b (assigned_tunnel_avp st c b off n)"
  unfolding assigned_tunnel_avp_def by (intro safe_intros) (auto simp: call_wf_def avp_state_strings avp_at_def)

lemma receive_window_size_safe: "avp_state c b st \<Longrightarrow> avp_at b off n \<Longrightarrow> safe c b (receive_window_size_avp st c b off n)"
  unfolding receive_window_size_avp_def by (intro safe_intros) (auto simp: call_wf_def avp_state_strings avp_at_def)

lemma chalresp_safe:
  assumes "avp_state c b st" "avp_at b off n"
  shows "safe c b (chalresp_avp st c b off n)"
  unfolding chalresp_avp_def
  by (intro safe_intros safe_avp_size [OF assms(2)] assms(1)) (use assms in \<open>auto simp: avp_at_def\<close>)

lemma seq_reqd_safe: "avp_state c b st \<Longrightarrow> avp_at b off n \<Longrightarrow> safe c b (seq_reqd_avp st c b off n)"
  unfolding seq_reqd_avp_def by (intro safe_intros) (auto simp: call_wf_def avp_state_strings avp_at_def)

lemma bearer_type_safe: "avp_state c b st \<Longrightarrow> avp_at b off n \<Longrightarrow> safe c b (bearer_type_avp st c b off n)"
  unfolding bearer_type_avp_def by (intro safe_intros) (auto simp: call_wf_def avp_state_strings avp_at_def)

lemma frame_type_safe: "avp_state c b st \<Longrightarrow> avp_at b off n \<Longrightarrow> safe c b (frame_type_avp st c b off n)"
  unfolding frame_type_avp_def by (intro safe_intros) (auto simp: call_wf_def avp_state_strings avp_at_def)

lemma dialing_number_safe: "avp_state c b st \<Longrightarrow> avp_at b off n \<Longrightarrow> safe c b (dialing_number_avp st c b off n)"
  unfolding dialing_number_avp_def by (intro safe_intros) (auto simp: call_wf_def avp_state_strings)

lemma dialed_number_safe: "avp_state c b st \<Longrightarrow> avp_at b off n \<Longrightarrow> safe c b (dialed_number_avp st c b off n)"
  unfolding dialed_number_avp_def by (intro safe_intros) (auto simp: call_wf_def avp_state_strings)

lemma sub_address_safe: "avp_state c b st \<Longrightarrow> avp_at b off n \<Longrightarrow> safe c b (sub_address_avp st c b off n)"
  unfolding sub_address_avp_def by (intro safe_intros) (auto simp: call_wf_def avp_state_strings)

lemma assigned_call_safe: "avp_state c b st \<Longrightarrow> avp_at b off n \<Longrightarrow> safe c b (assigned_call_avp st c b off n)"
  unfolding assigned_call_avp_def by (intro safe_intros) (auto simp: call_wf_def avp_state_strings avp_at_def)

lemma packet_delay_safe: "avp_state c b st \<Longrightarrow> avp_at b off n \<Longrightarrow> safe c b (packet_delay_avp st c b off n)"
  unfolding packet_delay_avp_def by (intro safe_intros) (auto simp: call_wf_def avp_state_strings avp_at_def)

lemma call_serno_safe: "avp_state c b st \<Longrightarrow> avp_at b off n \<Longrightarrow> safe c b (call_serno_avp st c b off n)"
  unfolding call_serno_avp_def by (intro safe_intros) (auto simp: call_wf_def avp_state_strings avp_at_def)

lemma rx_speed_safe: "avp_state c b st \<Longrightarrow> avp_at b off n \<Longrightarrow> safe c b (rx_speed_avp st c b off n)"
  unfolding rx_speed_avp_def by (intro safe_intros) (auto simp: call_wf_def avp_state_strings avp_at_def)

lemma tx_speed_safe: "avp_state c b st \<Longrightarrow> avp_at b off n \<Longrightarrow> safe c b (tx_speed_avp st c b off n)"
  unfolding tx_speed_avp_def by (intro safe_intros) (auto simp: call_wf_def avp_state_strings avp_at_def)

lemma call_physchan_safe: "avp_state c b st \<Longrightarrow> avp_at b off n \<Longrightarrow> safe c b (call_physchan_avp st c b off n)"
  unfolding call_physchan_avp_def by (intro safe_intros) (auto simp: call_wf_def avp_state_strings avp_at_def)

lemma ignore_safe: "avp_state c b st \<Longrightarrow> safe c b (ignore_avp st c b off n)"
  unfolding ignore_avp_def by (rule safe_Some)

lemma rand_vector_safe:
  assumes "avp_state c b st" "avp_at b off n"
  shows "safe c b (rand_vector_avp st c b off n)"
proof -
  have "avp_state c b (st\<lparr>us_vector := Some (off + 6), us_vector_len := n - 6\<rparr>)" if "\<not> n - 6 > MAX_VECTOR_SIZE"
  proof -
    have "6 \<le> n" "off + nat n \<le> length b" using assms(2) by (auto simp: avp_at_def)
    then have "off + 6 + nat (n - 6) \<le> length b" by linarith
    then show ?thesis using assms(1) that by (simp add: avp_state_def l2tp_wf_def vector_ok_def)
  qed
  moreover have "t_sanity st" using assms(1) by (simp add: avp_state_def)
  ultimately show ?thesis unfolding rand_vector_avp_def
    by (intro safe_avp_size [OF assms(2)] safe_intros assms) auto
qed

lemma challenge_safe:
  assumes "avp_state c b st" "avp_at b off n"
  shows "safe c b (challenge_avp st c b off n)"
proof -
  have n: "6 \<le> n" "off + 6 + nat (n - 6) \<le> length b" using assms(2) unfolding avp_at_def by linarith+
  have "safe c b (case next_alloc st of (ok, st) \<Rightarrow>
         if \<not> ok then Some (- ENOMEM, st\<lparr>us_challenge := None\<rparr>)
         else if n - 6 < 0 then None
         else do {
           v \<leftarrow> rd_bytes b (off + 6) (nat (n - 6));
           Some (0, st\<lparr>us_challenge := Some v, us_chal_len := n - 6, us_state := STATE_CHALLENGED\<rparr>) })"
    using n assms(1) by (simp add: next_alloc_def safe_def rd_bytes_def)
  then show ?thesis unfolding challenge_avp_def using assms by (intro safe_intros)
qed

lemma result_code_safe:
  assumes "avp_state c b st" "avp_at b off n"
  shows "safe c b (result_code_avp st c b off n)"
  unfolding result_code_avp_def Let_def
  by (intro safe_intros assms(1)) (use assms(2) in \<open>auto simp: avp_at_def call_wf_def\<close>)

lemma avps_size: "length avps = AVP_MAX + 1"
  by (simp add: avps_def)

lemma avps_handlers:
  assumes "(Some h, name) \<in> set avps"
  shows "h \<in> {message_type_avp, result_code_avp, protocol_version_avp, framing_caps_avp, bearer_caps_avp,
     firmware_rev_avp, hostname_avp, vendor_avp, assigned_tunnel_avp, receive_window_size_avp, challenge_avp,
     chalresp_avp, assigned_call_avp, call_serno_avp, bearer_type_avp, frame_type_avp, packet_delay_avp,
     dialed_number_avp, dialing_number_avp, sub_address_avp, tx_speed_avp, call_physchan_avp, ignore_avp,
     rand_vector_avp, rx_speed_avp, seq_reqd_avp}"
proof -
  have "Some h \<in> set (map fst avps)" using assms by force
  then show ?thesis
    unfolding avps_def by (simp only: list.map fst_conv list.set insert_iff empty_iff option.inject option.distinct simp_thms)
qed

lemmas handlers_safe = message_type_safe result_code_safe protocol_version_safe framing_caps_safe bearer_caps_safe
  firmware_rev_safe hostname_safe vendor_safe assigned_tunnel_safe receive_window_size_safe challenge_safe
  chalresp_safe assigned_call_safe call_serno_safe bearer_type_safe frame_type_safe packet_delay_safe
  dialed_number_safe dialing_number_safe sub_address_safe tx_speed_safe call_physchan_safe
  rand_vector_safe rx_speed_safe seq_reqd_safe

interpretation avp_c: attribute_table avps
proof
  show "length avps = AVP_MAX + 1" by (rule avps_size)
  fix h name c b st off n
  assume h: "(Some h, name) \<in> set avps" and st: "avp_state c b st" "avp_at b off n"
  show "safe c b (h st c b off n)"
    using avps_handlers [OF h] by (elim insertE emptyE; simp only: handlers_safe [OF st] ignore_safe [OF st(1)])
qed

section \<open>The loop\<close>

lemma avp_state_length: "length b' = length b \<Longrightarrow> avp_state c b' st \<longleftrightarrow> avp_state c b st"
  by (simp add: avp_state_def vector_ok_def)

lemma set_error_Some:
  assumes "avp_state c b st" "x \<noteq> 0"
  shows "\<exists>st'. set_error st c err (x # text) = Some st' \<and> avp_state c b st'"
proof -
  have c: "c < length (calls st)" "call_wf (calls st ! c)" using assms(1) by (simp_all add: avp_state_def wf_call)
  define a where "a = snprintf (c_errormsg (calls st ! c)) (x # text)"
  have l: "length a = MAXSTRLEN" using c(2) by (simp add: a_def call_wf_def length_snprintf')
  have "hd a = x" using c(2) by (simp add: a_def snprintf_def Let_def call_wf_def)
  then have "c_string a \<noteq> []" using assms(2) l by (cases a) (auto simp: c_string_def)
  then obtain m where m: "chop_newline a = Some m" "length m = MAXSTRLEN"
    using l by (cases "a ! (length (c_string a) - 1) = 0x0A") (simp_all add: chop_newline_def Let_def)
  have "\<exists>st'. upd_c st c (\<lambda>cl. cl\<lparr>c_error := err, c_result := RESULT_ERROR, c_needclose := -1, c_errormsg := m\<rparr>) = Some st' \<and>
      avp_state c b st'"
    using avp_state_upd_c [OF assms(1) c(1)] c(2) m(2) by (auto simp: call_wf_def)
  then show ?thesis using c(1) m(1) by (simp add: set_error_def get_c_Some a_def)
qed

text \<open>The outcome of one round: no fault, a good state, the same buffer length, room to read the length field.\<close>

definition round_ok :: "nat \<Rightarrow> byte_buf \<Rightarrow> nat \<Rightarrow> (avp_outcome \<times> l2tp \<times> byte_buf) option \<Rightarrow> bool" where
  "round_ok c b data r \<longleftrightarrow> (\<exists>out st' b'. r = Some (out, st', b') \<and> avp_state c b' st' \<and> length b' = length b \<and>
     (\<forall>moved hidlen. out = Next moved hidlen \<longrightarrow> data + moved + 2 \<le> length b) \<and> (\<forall>rc. out = Return rc \<longrightarrow> rc = - EINVAL))"

lemma close_with_ok:
  assumes s: "avp_state c b st" and x: "x \<noteq> 0" and l: "length b' = length b"
  shows "round_ok c b data (close_with st c err (x # text) b')"
proof -
  obtain st1 where st1: "set_error st c err (x # text) = Some st1" "avp_state c b st1"
    using set_error_Some [OF s x] by blast
  have c: "c < length (calls st1)" using st1 by (simp add: avp_state_def)
  obtain st2 where "upd_c st1 c (\<lambda>cl. cl\<lparr>c_needclose := -1\<rparr>) = Some st2" "avp_state c b st2"
    using avp_state_upd_c [OF st1(2) c, of "\<lambda>cl. cl\<lparr>c_needclose := -1\<rparr>"] st1(2) c
    by (auto simp: call_wf_def avp_state_def l2tp_wf_def)
  then show ?thesis using st1(1) l by (simp add: close_with_def round_ok_def avp_state_length [of b' b])
qed

lemma texts_start: "msg_bytes (CHR ''m'' # s) @ t = 0x6D # (msg_bytes s @ t)" "msg_bytes (CHR ''I'' # s) @ t = 0x49 # (msg_bytes s @ t)"
  "msg_bytes (CHR ''F'' # s) @ t = 0x46 # (msg_bytes s @ t)" "msg_bytes (CHR ''A'' # s) @ t = 0x41 # (msg_bytes s @ t)"
  "msg_bytes (CHR ''r'' # s) @ t = 0x72 # (msg_bytes s @ t)" "msg_bytes (CHR ''N'' # s) @ t = 0x4E # (msg_bytes s @ t)"
  by (simp_all add: msg_bytes_def)

lemma close_with_msg:
  assumes "avp_state c b st" "length b' = length b"
  shows "round_ok c b data (close_with st c err (msg_bytes (CHR ''I'' # cs)) b')"
    and "round_ok c b data (close_with st c err (msg_bytes (CHR ''F'' # cs)) b')"
    and "round_ok c b data (close_with st c err (msg_bytes (CHR ''A'' # cs)) b')"
    and "round_ok c b data (close_with st c err (msg_bytes (CHR ''r'' # cs)) b')"
    and "round_ok c b data (close_with st c err (msg_bytes (CHR ''m'' # cs) @ rest) b')"
  using close_with_ok [OF assms(1) _ assms(2)] by (simp_all add: msg_bytes_def)

context attribute_table
begin

lemma call_handler_ok:
  assumes s: "avp_state c b st" and a: "avp_at b data n" and attr: "raw b data 2 = Some attr" "unat attr \<le> AVP_MAX"
    and d: "data = start + moved"
  shows "round_ok c b start (call_handler tab st c b data moved hidlen)"
proof -
  obtain w where w: "raw b data 0 = Some w" "ALENGTH w = n" and room: "data + 10 \<le> length b" using a by (auto simp: avp_at_def)
  obtain h name where e: "arr_get tab (unat attr) = Some (h, name)" "(h, name) \<in> set tab"
    using attr(2) size by (cases "tab ! unat attr") (auto simp: arr_get_def intro: nth_mem dest: sym)
  have c: "c < length (calls st')" "call_wf (calls st' ! c)" if "avp_state c b st'" for st'
    using that by (simp_all add: avp_state_def wf_call)
  show ?thesis
  proof (cases h)
    case None
    obtain st1 where "set_error st c VENDOR_ERROR
          (0x4E # msg_bytes ''o handler for attr '' @ fmt_int (uint attr) @ msg_bytes ('' ('' @ name @ '')'') @ [0x0A]) = Some st1"
        "avp_state c b st1"
      using set_error_Some [OF s, of "0x4E" VENDOR_ERROR] by auto
    then show ?thesis using None w attr e d room s by (simp add: call_handler_def round_ok_def texts_start)
  next
    case (Some g)
    obtain rc st1 where g: "g st c b data n = Some (rc, st1)" "avp_state c b st1"
      using handler [of g name c b st data n] e(2) Some s a by (auto simp: safe_def)
    obtain st2 where "upd_c st1 c (\<lambda>cl. cl\<lparr>c_needclose := -1\<rparr>) = Some st2" "avp_state c b st2"
      using avp_state_upd_c [OF g(2) c(1) [OF g(2)], of "\<lambda>cl. cl\<lparr>c_needclose := -1\<rparr>"] c(2) [OF g(2)] by (auto simp: call_wf_def)
    then show ?thesis using Some w attr e d room g by (simp add: call_handler_def round_ok_def)
  qed
qed

lemma handle_avp_ok:
  assumes s: "avp_state c b st" and len: "0 < len" "data + nat len + 6 \<le> length b"
  shows "round_ok c b data (handle_avp tab st c b data len firstavp)"
proof -
  have "data + 2 * 3 \<le> length b" using len by linarith
  then obtain b1 where b1: "swaps b data 3 = Some b1" "length b1 = length b" using swaps_Some by blast
  have s1: "avp_state c b1 st" using s b1 by (simp add: avp_state_length [of b1 b])
  obtain w where w: "raw b1 data 0 = Some w" using raw_Some [of data 0 b1] b1 len by auto
  obtain attr where attr: "raw b1 data 2 = Some attr" using raw_Some [of data 2 b1] b1 len by auto
  note close' = close_with_msg [OF s]
  have next1: "round_ok c b data (Some (Next 0 hid, st, b'))" if "length b' = length b" for hid b'
    using that s len by (simp add: round_ok_def avp_state_length [of b' b])
  have plain: "round_ok c b data (call_handler tab st c b1 data 0 0)" if "unat attr \<le> AVP_MAX" "\<not> ALENGTH w > len" "\<not> ALENGTH w < 6"
  proof -
    have "avp_at b1 data (ALENGTH w)" unfolding avp_at_def using that w b1(2) len by auto
    from call_handler_ok [OF s1 this attr that(1), of data 0 0] show ?thesis using b1(2) by (simp add: round_ok_def)
  qed
  have hidden: "round_ok c b data (do { (rc, b) \<leftarrow> decrypt_avp st b1 data;
       if rc \<noteq> 0 then
         (if AMBIT w then close_with st c VENDOR_ERROR (msg_bytes ''Invalid Hidden AVP'') b else Some (Next 0 w, st, b))
       else call_handler tab st c b (data + 2) 2 (w - 2) })"
    if "unat attr \<le> AVP_MAX" "\<not> ALENGTH w > len" "\<not> ALENGTH w < 6" "\<not> AZBITS w"
  proof -
    have pre: "vector_ok st b1" "6 \<le> ALENGTH w" "data + nat (ALENGTH w) \<le> length b1" "data + 8 \<le> length b1" "\<not> AZBITS w"
      using s1 that b1(2) len by (simp_all add: avp_state_def)
    obtain rc b2 where b2: "decrypt_avp st b1 data = Some (rc, b2)" "length b2 = length b1"
      and ok: "rc = 0 \<Longrightarrow> raw b2 (data + 2) 2 = Some attr \<and>
        (\<exists>w'. raw b2 (data + 2) 0 = Some w' \<and> 6 \<le> ALENGTH w' \<and> ALENGTH w' \<le> ALENGTH w - 2)"
      using decrypt_avp_Some [OF pre(1) w attr pre(5) pre(2-4)] by blast
    show ?thesis
    proof (cases "rc = 0")
      case True
      then obtain w' where w': "raw b2 (data + 2) 0 = Some w'" "6 \<le> ALENGTH w'" "ALENGTH w' \<le> ALENGTH w - 2" "raw b2 (data + 2) 2 = Some attr"
        using ok by blast
      have a: "avp_at b2 (data + 2) (ALENGTH w')" unfolding avp_at_def using w' that len b1(2) b2(2) by auto
      have "avp_state c b2 st" using s1 b2(2) by (simp add: avp_state_length [of b2 b1])
      from call_handler_ok [OF this a w'(4) that(1) refl, of "w - 2"] show ?thesis
        using True b1(2) b2 by (simp add: round_ok_def)
    next
      case False
      then show ?thesis using b1(2) b2 close' next1 by simp
    qed
  qed
  show ?thesis
    unfolding handle_avp_def b1(1) bind.bind_lunit w attr
    using close' next1 plain hidden b1(2) by simp
qed

lemma handle_loop_ok:
  assumes "avp_state c b st" "0 < len \<longrightarrow> data + nat len + 6 \<le> length b"
  shows "\<exists>rc st' b'. handle_loop tab st c b data len firstavp = Some (rc, st', b') \<and>
    rc \<in> {0, - EINVAL} \<and> avp_state c b' st' \<and> length b' = length b"
  using assms
proof (induction "nat len" arbitrary: st b data len firstavp rule: less_induct)
  case less
  show ?case
  proof (cases "0 < len")
    case False
    then show ?thesis using less.prems(1) by (subst handle_loop.simps) simp
  next
    case True
    obtain out st1 b1 where r: "handle_avp tab st c b data len firstavp = Some (out, st1, b1)" "avp_state c b1 st1"
        "length b1 = length b" "\<And>moved hidlen. out = Next moved hidlen \<Longrightarrow> data + moved + 2 \<le> length b"
        "\<And>rc. out = Return rc \<Longrightarrow> rc = - EINVAL"
      using handle_avp_ok [OF less.prems(1) True] less.prems(2) True unfolding round_ok_def by blast
    show ?thesis
    proof (cases out)
      case (Return rc)
      then show ?thesis using True r by (subst handle_loop.simps) simp
    next
      case (Next moved hidlen)
      obtain w where w: "raw b1 (data + moved) 0 = Some w" using raw_Some [of "data + moved" 0 b1] r(3) r(4) [OF Next] by auto
      obtain skip where k: "skip_avp b1 (data + moved) hidlen = Some skip" by (simp add: skip_avp_def w)
      show ?thesis
      proof (cases "0 < skip")
        case True': True
        have "nat (len - int moved - int skip) < nat len" using True True' by linarith
        moreover have "0 < len - int moved - int skip \<longrightarrow> data + moved + skip + nat (len - int moved - int skip) + 6 \<le> length b1"
          using less.prems(2) True r(3) by linarith
        ultimately have "\<exists>rc st' b'. handle_loop tab st1 c b1 (data + moved + skip) (len - int moved - int skip) False =
           Some (rc, st', b') \<and> rc \<in> {0, - EINVAL} \<and> avp_state c b' st' \<and> length b' = length b1"
          using r(2) less.hyps by blast
        then show ?thesis using True True' r(1,3) Next k by (subst handle_loop.simps) simp
      next
        case False
        then show ?thesis using True r Next k by (subst handle_loop.simps) simp
      qed
    qed
  qed
qed

end

section \<open>One AVP that is neither hidden nor malformed\<close>

lemma handle_avp_plain:
  assumes "\<not> AHBIT lf" "\<not> AZBITS lf" "ALENGTH lf = 6 + int (length val)" "6 + int (length val) \<le> len"
    "unat attr \<le> AVP_MAX" "attr = 0 \<or> \<not> firstavp"
  shows "handle_avp tab st c (pre @ net_avp lf ven attr @ val @ post) (length pre) len firstavp =
     call_handler tab st c (pre @ host_avp lf ven attr @ val @ post) (length pre) 0 0"
proof -
  have w: "swaps (pre @ net_avp lf ven attr @ val @ post) (length pre) 3 = Some (pre @ host_avp lf ven attr @ val @ post)"
    using swaps_header [of pre "length pre" lf ven attr "val @ post"] by (simp add: net_avp_def host_avp_def)
  have r: "raw (pre @ host_avp lf ven attr @ val @ post) (length pre) 0 = Some lf"
    using raw_mid [of pre "length pre" lf "le16_bytes ven @ le16_bytes attr @ val @ post"] by (simp add: host_avp_def)
  have r2: "raw (pre @ host_avp lf ven attr @ val @ post) (length pre) 2 = Some attr"
    using raw_at [of "pre @ le16_bytes lf @ le16_bytes ven" "length pre" 2 attr "val @ post"] by (simp add: host_avp_def)
  show ?thesis unfolding handle_avp_def w bind.bind_lunit r r2 using assms by auto
qed

lemma handle_loop_plain:
  assumes p: "\<not> AHBIT lf" "\<not> AZBITS lf" "ALENGTH lf = 6 + int (length val)" "6 + int (length val) \<le> len"
    "unat attr \<le> AVP_MAX" "attr = 0 \<or> \<not> firstavp"
    and h: "arr_get tab (unat attr) = Some (Some h, name)"
  shows "handle_loop tab st c (pre @ net_avp lf ven attr @ val @ post) (length pre) len firstavp =
    (do { (rc, st') \<leftarrow> h st c (pre @ host_avp lf ven attr @ val @ post) (length pre) (6 + int (length val));
      if rc \<noteq> 0 \<and> AMBIT lf then do {
        st' \<leftarrow> upd_c st' c (\<lambda>cl. cl\<lparr>c_needclose := -1\<rparr>);
        Some (- EINVAL, st', pre @ host_avp lf ven attr @ val @ post) }
      else handle_loop tab st' c ((pre @ host_avp lf ven attr @ val) @ post) (length (pre @ host_avp lf ven attr @ val))
        (len - (6 + int (length val))) False })"
proof -
  have r: "raw (pre @ host_avp lf ven attr @ val @ post) (length pre) 0 = Some lf"
    using raw_mid [of pre "length pre" lf "le16_bytes ven @ le16_bytes attr @ val @ post"] by (simp add: host_avp_def)
  have r2: "raw (pre @ host_avp lf ven attr @ val @ post) (length pre) 2 = Some attr"
    using raw_at [of "pre @ le16_bytes lf @ le16_bytes ven" "length pre" 2 attr "val @ post"] by (simp add: host_avp_def)
  have k: "skip_avp (pre @ host_avp lf ven attr @ val @ post) (length pre) 0 = Some (6 + length val)"
    by (simp add: skip_avp_def r p(3) nat_add_distrib)
  have len: "0 < len" using p(4) by linarith
  show ?thesis
    unfolding handle_loop.simps [of tab st c "pre @ net_avp lf ven attr @ val @ post"] handle_avp_plain [OF p] call_handler_def
    by (cases "h st c (pre @ host_avp lf ven attr @ val @ post) (length pre) (6 + int (length val))")
      (auto simp: len r r2 h p(3) k add.assoc split: option.splits bind_splits)
qed

section \<open>Properties\<close>

text \<open>
  C5: safety. On a tunnel with a call, whatever bytes a peer sends, \<open>handle_avps\<close> ends, reads
  and writes only inside the packet buffer (of which it may use six bytes past the packet), dereferences
  no null pointer, returns 0 or \<open>-EINVAL\<close>, and leaves a well-formed tunnel, all of whose strings
  fit their arrays.
\<close>

theorem handle_avps_safe:
  assumes "avp_state c b st" "blen + 6 \<le> length b"
  shows "\<exists>rc st' b'. handle_avps st b blen c = Some (rc, st', b') \<and> rc \<in> {0, - EINVAL} \<and>
    avp_state c b' st' \<and> length b' = length b"
  unfolding handle_avps_def using assms by (intro avp_c.handle_loop_ok) auto

lemma handle_avps_safe_witness:
  "\<exists>rc st' b'. handle_avps (ex_l2tp\<lparr>calls := [zero_call, zero_call], t_call_head := Some 1\<rparr>) (replicate 60 0xFF) 54 1 = Some (rc, st', b') \<and>
    rc \<in> {0, - EINVAL} \<and> avp_state 1 b' st' \<and> length b' = 60"
  using handle_avps_safe [of 1 "replicate 60 0xFF" "ex_l2tp\<lparr>calls := [zero_call, zero_call], t_call_head := Some 1\<rparr>" 54]
  by (simp add: avp_state_def l2tp_wf_def vector_ok_def ex_l2tp_def zero_call_def call_wf_def)

text \<open>
  What happens without a call: the message type of a rejected \<open>ICRQ\<close> stays in \<open>c->msgtype\<close>. When
  its AVP is not mandatory the loop goes on, and the next call attribute is stored through
  \<open>t->call_head\<close>, which is null.
\<close>

text \<open>
  Error behaviour (a defect). A peer whose tunnel is not established and has no call makes
  \<open>handle_avps\<close> dereference a null pointer with a 30-byte message: an \<open>ICRQ\<close> message type without the
  mandatory bit, followed by a Bearer Type attribute.
\<close>

theorem handle_avps_null_call:
  assumes hdr: "length hdr = 12" and st: "t_call_head st = None" "t_sanity st" "t_self st < length (calls st)" "t_state st \<noteq> SCCCN"
    and v: "length v = 4"
  shows "handle_avps st (hdr @ net_avp 8 0 0 @ be16_bytes 10 @ net_avp 10 0 18 @ v @ post) 30 (t_self st) = None"
proof -
  let ?b = "hdr @ host_avp 8 0 0 @ be16_bytes 10 @ net_avp 10 0 18 @ v @ post"
  let ?st = "st\<lparr>calls := (calls st)[t_self st := (calls st ! t_self st)\<lparr>c_msgtype := 10\<rparr>]\<rparr>"
  have n: "net16 ?b 12 3 = Some 10"
    using hdr raw_at [of "hdr @ host_avp 8 0 0" 12 3 "htons 10"] by (simp add: net16_def be16_le16)
  have m: "message_type_avp st (t_self st) ?b 12 8 = Some (- EINVAL, ?st)"
    using st n by (simp add: message_type_avp_def upd_c_Some get_c_Some known_msg_def msg_in_state_def)
  have "handle_avps st (hdr @ net_avp 8 0 0 @ be16_bytes 10 @ net_avp 10 0 18 @ v @ post) 30 (t_self st) =
    handle_loop avps ?st (t_self st) ((hdr @ host_avp 8 0 0 @ be16_bytes 10) @ net_avp 10 0 18 @ v @ post) 20 10 False"
    using handle_loop_plain [of 8 "be16_bytes 10" 18 0 True avps message_type_avp "''Message Type''" st "t_self st" hdr 0 "net_avp 10 0 18 @ v @ post"]
      m hdr by (simp add: handle_avps_def AHBIT_def AZBITS_def ALENGTH_def AMBIT_def arr_get_def avps_def)
  also have "\<dots> = None"
  proof -
    have "bearer_type_avp ?st (t_self st) ((hdr @ host_avp 8 0 0 @ be16_bytes 10) @ host_avp 10 0 18 @ v @ post) 20 10 = None"
      using st by (simp add: bearer_type_avp_def for_messages_def get_c_Some need_length_def upd_head_def net16_def split: bind_splits)
    then show ?thesis
      using handle_loop_plain [of 10 v 10 18 False avps bearer_type_avp "''Bearer Type''" ?st "t_self st" "hdr @ host_avp 8 0 0 @ be16_bytes 10" 0 post]
        hdr v by (simp add: AHBIT_def AZBITS_def ALENGTH_def AMBIT_def arr_get_def avps_def)
  qed
  finally show ?thesis .
qed

lemma handle_avps_null_call_witness:
  "handle_avps ex_l2tp (replicate 12 0 @ net_avp 8 0 0 @ be16_bytes 10 @ net_avp 10 0 18 @ [0, 0, 0, 1] @ replicate 10 0) 30 0 = None"
  using handle_avps_null_call [of "replicate 12 0" ex_l2tp "[0, 0, 0, 1]" "replicate 10 0"]
  by (simp add: ex_l2tp_def)

end
