(* ===== verification/L2tp_Start.thy ===== *)
theory L2tp_Start
  imports L2tp_Send L2tp_Avp_Props
begin

text \<open>
  The messages that open a tunnel or a call (\<open>control_finish\<close> of \<open>control.c\<close>, the case of a
  message type 0), and their reception: what \<open>handle_avps\<close> makes of a
  \<open>Start-Control-Connection-Request\<close> is what the sender put into it.
\<close>

section \<open>Opening (control.c)\<close>

text \<open>The settings are those of the LNS entry, or else of the LAC entry.\<close>

definition open_settings :: "l2tp \<Rightarrow> l2tp" where
  "open_settings st = (case t_lns st of
     Some l \<Rightarrow> st\<lparr>t_ourrws := tun_rws l, t_hbit := pc_hbit l, t_rxspeed := pc_rxspeed l, t_txspeed := pc_txspeed l\<rparr>
   | None \<Rightarrow> (case t_lac st of
       Some l \<Rightarrow> st\<lparr>t_ourrws := tun_rws l, t_hbit := pc_hbit l, t_rxspeed := pc_rxspeed l, t_txspeed := pc_txspeed l\<rparr>
     | None \<Rightarrow> st))"

text \<open>\<open>host\<close> is the machine's name, used when neither entry sets one.\<close>

definition own_name :: "byte_buf \<Rightarrow> l2tp \<Rightarrow> byte_buf" where
  "own_name host st = (case t_lac st of
     Some l \<Rightarrow> if c_string (pc_hostname l) \<noteq> [] then pc_hostname l
       else (case t_lns st of Some n \<Rightarrow> if c_string (pc_hostname n) \<noteq> [] then pc_hostname n else host | None \<Rightarrow> host)
   | None \<Rightarrow> (case t_lns st of Some n \<Rightarrow> if c_string (pc_hostname n) \<noteq> [] then pc_hostname n else host | None \<Rightarrow> host))"

definition wants_challenge :: "l2tp \<Rightarrow> bool" where
  "wants_challenge st \<longleftrightarrow> (case t_lac st of Some l \<Rightarrow> pc_challenge l | None \<Rightarrow> False) \<or>
     (case t_lns st of Some l \<Rightarrow> pc_challenge l | None \<Rightarrow> False)"

text \<open>The AVPs of the message up to the receive window size.\<close>

definition sccrq_avps :: "byte_buf \<Rightarrow> l2tp \<Rightarrow> obuf \<Rightarrow> obuf option" where
  "sccrq_avps host st b = do {
     b \<leftarrow> add_message_type_avp (word_of_int SCCRQ) b;
     b \<leftarrow> (if t_hbit st then add_randvect_avp (them_vector st) b else Some b);
     b \<leftarrow> add_protocol_avp b;
     b \<leftarrow> add_frame_caps_avp (word_of_int (t_ourfc st)) b;
     b \<leftarrow> add_bearer_caps_avp (word_of_int (t_ourbc st)) b;
     b \<leftarrow> add_firmware_avp b;
     b \<leftarrow> add_hostname_avp (own_name host st) b;
     b \<leftarrow> add_vendor_avp b;
     b \<leftarrow> add_tunnelid_avp (word_of_int (t_ourtid st)) b;
     if t_ourrws st \<ge> 0 then add_avp_rws (word_of_int (t_ourrws st)) b else Some b }"

text \<open>The challenge, the header and the transmission: the buffer handed to \<open>control_xmit\<close>.\<close>

definition challenge_and_send :: "byte_buf \<Rightarrow> nat \<Rightarrow> l2tp \<Rightarrow> obuf \<Rightarrow> (int \<times> l2tp \<times> obuf option) option" where
  "challenge_and_send ch c st b = do {
     let (ok, st) = (if wants_challenge st then next_alloc st else (True, st));
     if \<not> ok then Some (- EINVAL, st\<lparr>them_challenge := None\<rparr>, None)
     else do {
       (st, b) \<leftarrow>
         (if wants_challenge st then do {
            b \<leftarrow> add_challenge_avp ch b;
            Some (st\<lparr>them_challenge := Some ch, them_chal_len := int MD_SIG_SIZE, them_state := STATE_CHALLENGED\<rparr>, b) }
          else Some (st, b));
       (st, b) \<leftarrow> add_control_hdr st c b;
       st \<leftarrow> upd_c st c (\<lambda>cl. cl\<lparr>c_cnu := 0\<rparr>);
       Some (0, st, Some b) } }"

text \<open>
  \<open>rv\<close> and \<open>ch\<close> are what the random source delivers for the vector and the challenge, \<open>mem\<close> is the
  memory of the new buffer.
\<close>

definition open_tunnel ::
  "byte_buf \<Rightarrow> byte_buf \<Rightarrow> byte_buf \<Rightarrow> byte_buf \<Rightarrow> l2tp \<Rightarrow> (int \<times> l2tp \<times> obuf option) option" where
  "open_tunnel host rv ch mem st = do {
     let c = t_self st;
     let st = (open_settings st)\<lparr>t_state := SCCRQ\<rparr>;
     let (ok, st) = next_alloc st;
     b \<leftarrow> new_outgoing ok mem;
     let st = (if t_hbit st then st\<lparr>them_vector := rv\<rparr> else st);
     b \<leftarrow> sccrq_avps host st b;
     challenge_and_send ch c st b }"

section \<open>The bytes of the request\<close>

definition sccrq_body :: "byte_buf \<Rightarrow> l2tp \<Rightarrow> byte_buf" where
  "sccrq_body host st =
     avp_bytes 0x8008 0 (be16_bytes 1) @
     (if t_hbit st then avp_bytes (word_of_nat (6 + length (them_vector st)) OR MBIT) 36 (them_vector st) else []) @
     avp_bytes 0x8008 2 (be16_bytes 0x100) @
     avp_bytes 0x800A 3 (be16_bytes 0 @ be16_bytes (word_of_int (t_ourfc st))) @
     avp_bytes 0x800A 4 (be16_bytes 0 @ be16_bytes (word_of_int (t_ourbc st))) @
     avp_bytes 8 6 (be16_bytes 0x0690) @
     avp_bytes (word_of_nat (6 + length (take (MAXAVPSIZE - 6) (c_string (own_name host st)))) OR MBIT) 7
       (take (MAXAVPSIZE - 6) (c_string (own_name host st))) @
     avp_bytes 19 8 VENDOR_NAME @
     avp_bytes 0x8008 9 (be16_bytes (word_of_int (t_ourtid st))) @
     (if t_ourrws st \<ge> 0 then avp_bytes 0x8008 10 (be16_bytes (word_of_int (t_ourrws st))) else [])"

lemma sccrq_avps_appends: "appends (sccrq_avps host st) (sccrq_body host st)"
proof -
  have r: "sccrq_avps host st = (\<lambda>b. add_message_type_avp 1 b \<bind> (\<lambda>b. (if t_hbit st then add_randvect_avp (them_vector st) b else Some b) \<bind>
    (\<lambda>b. add_protocol_avp b \<bind> (\<lambda>b. add_frame_caps_avp (word_of_int (t_ourfc st)) b \<bind> (\<lambda>b. add_bearer_caps_avp (word_of_int (t_ourbc st)) b \<bind>
    (\<lambda>b. add_firmware_avp b \<bind> (\<lambda>b. add_hostname_avp (own_name host st) b \<bind> (\<lambda>b. add_vendor_avp b \<bind>
    (\<lambda>b. add_tunnelid_avp (word_of_int (t_ourtid st)) b \<bind>
    (\<lambda>b. if t_ourrws st \<ge> 0 then add_avp_rws (word_of_int (t_ourrws st)) b else Some b))))))))))"
    by (rule ext) (simp add: sccrq_avps_def)
  show ?thesis unfolding r sccrq_body_def by (intro appends_intros)
qed

lemma add_control_hdr_mk:
  assumes "length pre = 12" "c < length (calls st)"
  shows "\<exists>hdr. length hdr = 12 \<and> add_control_hdr st c (mkbuf pre m junk) =
    Some (st\<lparr>control_seq_num := control_seq_num st + 1\<rparr>, mkbuf [] (hdr @ m) junk)"
proof -
  define hdr where "hdr = be16_bytes 0xC802 @ be16_bytes (word_of_nat (length m + 12)) @ be16_bytes (word_of_int (t_tid st)) @
     be16_bytes (word_of_int (c_cid (calls st ! c))) @ be16_bytes (control_seq_num st) @ be16_bytes (control_rec_seq_num st)"
  have "length hdr = 12" by (simp add: hdr_def)
  moreover from this have "wr_bytes (pre @ m @ junk) 0 hdr = Some (hdr @ m @ junk)"
    using assms(1) by (simp add: wr_bytes_def)
  ultimately show ?thesis using assms
    by (intro exI [of _ hdr]) (simp add: add_control_hdr_def mkbuf_def get_c_Some hdr_def)
qed

section \<open>Messages whose AVPs are all accepted\<close>

text \<open>An AVP as header length field, attribute and value.\<close>

type_synonym avp_item = "u16 \<times> u16 \<times> byte_buf"

definition item_bytes :: "avp_item \<Rightarrow> byte_buf" where
  "item_bytes i = (case i of (l, attr, val) \<Rightarrow> avp_bytes l attr val)"

definition item_len :: "avp_item \<Rightarrow> nat" where
  "item_len i = (case i of (l, attr, val) \<Rightarrow> 6 + length val)"

text \<open>The handler for an AVP at offset \<open>off\<close> takes \<open>r\<close> to \<open>r'\<close>, whatever else is in the packet.\<close>

definition yields :: "nat \<Rightarrow> nat \<Rightarrow> l2tp \<Rightarrow> avp_item \<Rightarrow> l2tp \<Rightarrow> bool" where
  "yields c off r i r' \<longleftrightarrow> (case i of (l, attr, val) \<Rightarrow>
     \<not> AHBIT l \<and> \<not> AZBITS l \<and> ALENGTH l = 6 + int (length val) \<and> unat attr \<le> AVP_MAX \<and>
     (\<exists>h name. arr_get avps (unat attr) = Some (Some h, name) \<and>
       (\<forall>pre post. length pre = off \<longrightarrow>
          h r c (pre @ host_avp l 0 attr @ val @ post) off (6 + int (length val)) = Some (0, r'))))"

inductive accepted :: "nat \<Rightarrow> nat \<Rightarrow> l2tp \<Rightarrow> avp_item list \<Rightarrow> l2tp \<Rightarrow> bool" for c where
  accepted_Nil: "accepted c off r [] r"
| accepted_Cons: "yields c off r i r1 \<Longrightarrow> accepted c (off + item_len i) r1 is r2 \<Longrightarrow> accepted c off r (i # is) r2"

inductive_cases accepted_ConsE: "accepted c off r (i # is) r'"

lemma accepted_append:
  "accepted c off r is r1 \<Longrightarrow> accepted c (off + sum_list (map item_len is)) r1 js r2 \<Longrightarrow> accepted c off r (is @ js) r2"
proof (induction rule: accepted.induct)
  case (accepted_Cons off r i r1 "is" r2')
  then show ?case by (auto intro!: accepted.accepted_Cons simp: add.assoc)
qed simp

lemma yields_step:
  assumes y: "yields c (length pre) r i r'" and first: "firstavp \<longrightarrow> fst (snd i) = 0" and len: "int (item_len i) \<le> len"
  shows "\<exists>done. length done = item_len i \<and> handle_loop avps r c (pre @ item_bytes i @ post) (length pre) len firstavp =
    handle_loop avps r' c ((pre @ done) @ post) (length (pre @ done)) (len - int (item_len i)) False"
proof -
  obtain l attr val where i: "i = (l, attr, val)" by (cases i)
  obtain h name where h: "arr_get avps (unat attr) = Some (Some h, name)"
      "h r c (pre @ host_avp l 0 attr @ val @ post) (length pre) (6 + int (length val)) = Some (0, r')"
    using y unfolding yields_def i by auto
  have p: "\<not> AHBIT l" "\<not> AZBITS l" "ALENGTH l = 6 + int (length val)" "6 + int (length val) \<le> len" "unat attr \<le> AVP_MAX"
      "attr = 0 \<or> \<not> firstavp"
    using y first len by (auto simp: yields_def i item_len_def)
  show ?thesis
    using handle_loop_plain [OF p h(1), of r c pre 0 post] h(2)
    by (intro exI [of _ "host_avp l 0 attr @ val"]) (simp add: i item_bytes_def item_len_def avp_bytes_def)
qed

lemma accepted_handle:
  assumes "accepted c off r is r'" "length pre = off" "firstavp \<and> is \<noteq> [] \<longrightarrow> fst (snd (hd is)) = 0"
  shows "\<exists>b'. handle_loop avps r c (pre @ concat (map item_bytes is) @ post) off (int (sum_list (map item_len is))) firstavp =
    Some (0, r', b')"
  using assms
proof (induction arbitrary: pre firstavp rule: accepted.induct)
  case (accepted_Nil off r)
  then show ?case by (simp add: handle_loop.simps)
next
  case (accepted_Cons off r i r1 "is" r2)
  let ?rest = "concat (map item_bytes is) @ post" and ?n = "sum_list (map item_len is)"
  obtain d where d: "length d = item_len i"
    "handle_loop avps r c (pre @ item_bytes i @ ?rest) (length pre) (int (item_len i + ?n)) firstavp =
     handle_loop avps r1 c ((pre @ d) @ ?rest) (length (pre @ d)) (int (item_len i + ?n) - int (item_len i)) False"
    using yields_step [of c pre r i r1 firstavp "int (item_len i + ?n)" ?rest] accepted_Cons.hyps(1) accepted_Cons.prems by auto
  obtain b' where "handle_loop avps r1 c ((pre @ d) @ ?rest) (off + item_len i) (int ?n) False = Some (0, r2, b')"
    using accepted_Cons.IH [of "pre @ d" False] accepted_Cons.prems(1) d(1) by auto
  then show ?case using d accepted_Cons.prems(1) by auto
qed

section \<open>What the handlers make of our own AVPs\<close>

lemma mandatory_length:
  assumes "n < 1024"
  shows "ALENGTH (word_of_nat n OR MBIT) = int n" "\<not> AHBIT (word_of_nat n OR MBIT)" "\<not> AZBITS (word_of_nat n OR MBIT)"
proof -
  define w where "w = (word_of_nat n :: u16)"
  have un: "unat w = n" using assms by (simp add: w_def)
  have "unat (take_bit 10 w) = n" using assms un by (simp add: take_bit_eq_mod unat_mod_distrib)
  then have t: "take_bit 10 w = w" using un by (simp add: word_unat_eq_iff)
  have wb: "k < 10" if "bit w k" for k using that t by (metis bit_take_bit_iff)
  have m: "(0x03FF :: u16) = mask 10" by (simp add: mask_eq_exp_minus_1)
  have h: "bit (0x8000 :: int) k \<longleftrightarrow> k = 15" "bit (0x4000 :: int) k \<longleftrightarrow> k = 14" for k
    using bit_exp_iff [where 'a = int and m = 15 and n = k] bit_exp_iff [where 'a = int and m = 14 and n = k] by auto
  have "(w OR MBIT) AND 0x03FF = w"
    unfolding m by (rule bit_word_eqI) (auto simp: bit_simps h dest: wb)
  then show "ALENGTH (word_of_nat n OR MBIT) = int n" using un by (simp add: ALENGTH_def w_def uint_nat)
  have "(w OR MBIT) AND 0x4000 = 0"
    by (rule bit_word_eqI) (auto simp: bit_simps h dest: wb)
  then show "\<not> AHBIT (word_of_nat n OR MBIT)" by (simp add: AHBIT_def w_def)
  have "w AND 0x3C00 = 0" 
  proof -
    have "(0x3C00 :: u16) = NOT (mask 10) AND mask 14" by (simp add: mask_eq_exp_minus_1)
    then show ?thesis by (metis (no_types) t m and.assoc and.commute bit.conj_cancel_right bit.conj_zero_left take_bit_eq_mask)
  qed
  then show "\<not> AZBITS (word_of_nat n OR MBIT)" by (simp add: AZBITS_def w_def bit.conj_disj_distrib2)
qed

lemma net16_item:
  "length pre = off \<Longrightarrow> net16 (pre @ host_avp l 0 attr @ (be16_bytes v @ val) @ post) off 3 = Some (uint v)"
  using raw_at [of "pre @ host_avp l 0 attr" off 3 "htons v" "val @ post"] by (simp add: net16_def be16_le16)

lemma net16_item2:
  "length pre = off \<Longrightarrow> net16 (pre @ host_avp l 0 attr @ (be16_bytes u @ be16_bytes v) @ post) off 4 = Some (uint v)"
  using raw_at [of "pre @ host_avp l 0 attr @ be16_bytes u" off 4 "htons v" post] by (simp add: net16_def be16_le16)

text \<open>A string attribute is stored as the first 119 bytes of its value, wherever it stands.\<close>

lemma c_string_plain: "0 \<notin> set xs \<Longrightarrow> c_string (xs @ 0 # ys) = xs"
  unfolding c_string_def by (subst takeWhile_append2) auto

lemma c_string_id: "0 \<notin> set xs \<Longrightarrow> c_string xs = xs"
  by (simp add: c_string_def takeWhile_eq_all_conv) (metis)

lemma safe_copy_plain:
  assumes a: "length a = MAXSTRLEN" and v: "0 \<notin> set val"
  defines "n \<equiv> min (length val) (MAXSTRLEN - 1)"
  shows "safe_copy a (val @ post) (int n) = Some (take n val @ 0 # drop (n + 1) a)"
proof -
  have z: "0 \<notin> set (take n val)" using v by (meson in_set_takeD)
  have n: "n \<le> length val" "n \<le> 119" by (simp_all add: n_def)
  have "strncpy a (val @ post) n = Some (take n val @ drop n a)"
    using n z a by (simp add: strncpy_def Let_def c_string_id wr_bytes_def min_def)
  moreover have "drop n a = a ! n # drop (n + 1) a" using n a by (simp add: Cons_nth_drop_Suc)
  ultimately show ?thesis using n a by (simp add: safe_copy_def arr_upd_def min_def list_update_append)
qed

definition stored :: "byte_buf \<Rightarrow> byte_buf \<Rightarrow> byte_buf" where
  "stored a val = (let n = min (length val) (MAXSTRLEN - 1) in take n val @ 0 # drop (n + 1) a)"

lemma c_string_stored: "0 \<notin> set val \<Longrightarrow> c_string (stored a val) = take (MAXSTRLEN - 1) val"
proof -
  assume "0 \<notin> set val"
  then have "0 \<notin> set (take (min (length val) 119) val)" by (meson in_set_takeD)
  then show ?thesis by (cases "length val \<le> 119") (simp_all add: stored_def Let_def c_string_plain min_def)
qed

lemma copy_item:
  assumes "length pre = off" "length a = MAXSTRLEN" "0 \<notin> set val" "ALENGTH l = 6 + int (length val)"
  shows "copy_value a (pre @ host_avp l 0 attr @ val @ post) off = Some (stored a val)"
proof -
  have r: "raw (pre @ host_avp l 0 attr @ val @ post) off 0 = Some l"
    using raw_mid [of pre off l "le16_bytes 0 @ le16_bytes attr @ val @ post"] assms(1) by (simp add: host_avp_def)
  have d: "drop (off + 6) (pre @ host_avp l 0 attr @ val @ post) = val @ post"
    using assms(1) by simp
  have sz: "(if int (length val) > int MAXSTRLEN - 1 then int MAXSTRLEN - 1 else int (length val)) = int (min (length val) (MAXSTRLEN - 1))"
    by auto
  show ?thesis unfolding copy_value_def avp_size_def r d
    using safe_copy_plain [OF assms(2,3), of post] assms(4) sz by (simp add: stored_def Let_def)
qed

text \<open>A state in which a \<open>Start-Control-Connection-Request\<close> is being read for call \<open>c\<close>.\<close>

definition reading :: "nat \<Rightarrow> l2tp \<Rightarrow> bool" where
  "reading c r \<longleftrightarrow> t_sanity r \<and> c < length (calls r) \<and> c_msgtype (calls r ! c) = SCCRQ"

lemma length8: "ALENGTH 0x8008 = 8" "\<not> AHBIT 0x8008" "\<not> AZBITS 0x8008" "ALENGTH 8 = 8" "\<not> AHBIT 8" "\<not> AZBITS 8"
  "ALENGTH 0x800A = 10" "\<not> AHBIT 0x800A" "\<not> AZBITS 0x800A" "ALENGTH 19 = 19" "\<not> AHBIT 19" "\<not> AZBITS 19"
  by (simp_all add: ALENGTH_def AHBIT_def AZBITS_def)

lemma yieldsI:
  assumes "\<not> AHBIT l" "\<not> AZBITS l" "ALENGTH l = 6 + int (length val)" "arr_get avps (unat attr) = Some (Some h, name)"
    "\<And>pre post. length pre = off \<Longrightarrow> h r c (pre @ host_avp l 0 attr @ val @ post) off (6 + int (length val)) = Some (0, r')"
  shows "yields c off r (l, attr, val) r'"
  using assms avps_size by (auto simp: yields_def arr_get_eq_Some_iff)

lemma yields_message_type:
  assumes "t_sanity r" "c = t_self r" "c < length (calls r)" "t_state r = 0"
  shows "yields c off r (0x8008, 0, be16_bytes 1) (r\<lparr>calls := (calls r)[c := (calls r ! c)\<lparr>c_msgtype := SCCRQ\<rparr>]\<rparr>)"
  using assms net16_item [where v = 1 and val = "[]"]
  by (intro yieldsI [where h = message_type_avp])
    (auto simp: length8 avps_def arr_get_def message_type_avp_def upd_c_Some get_c_Some known_msg_def msg_in_state_def)

lemma yields_protocol:
  assumes reading: "reading c r"
  shows "yields c off r (0x8008, 2, be16_bytes 0x100) r"
  using reading net16_item [where v = "0x100" and val = "[]"]
  by (intro yieldsI [where h = protocol_version_avp])
    (auto simp: length8 avps_def arr_get_def protocol_version_avp_def for_messages_def need_length_def get_c_Some reading_def)

lemma yields_frame_caps:
  assumes reading: "reading c r"
  shows "yields c off r (0x800A, 3, be16_bytes 0 @ be16_bytes caps) (r\<lparr>t_fc := uint caps AND 3\<rparr>)"
  using reading net16_item2 [where u = 0 and v = caps]
  by (intro yieldsI [where h = framing_caps_avp])
    (auto simp: length8 avps_def arr_get_def framing_caps_avp_def for_messages_def need_length_def get_c_Some reading_def)

lemma yields_bearer_caps:
  assumes reading: "reading c r"
  shows "yields c off r (0x800A, 4, be16_bytes 0 @ be16_bytes caps) (r\<lparr>t_bc := uint caps AND 3\<rparr>)"
  using reading net16_item2 [where u = 0 and v = caps]
  by (intro yieldsI [where h = bearer_caps_avp])
    (auto simp: length8 avps_def arr_get_def bearer_caps_avp_def for_messages_def need_length_def get_c_Some reading_def)

lemma yields_firmware:
  assumes reading: "reading c r"
  shows "yields c off r (8, 6, be16_bytes 0x690) (r\<lparr>t_firmware := 0x690\<rparr>)"
  using reading net16_item [where v = "0x690" and val = "[]"]
  by (intro yieldsI [where h = firmware_rev_avp])
    (auto simp: length8 avps_def arr_get_def firmware_rev_avp_def for_messages_def need_length_def get_c_Some reading_def)

lemma yields_tunnelid:
  assumes reading: "reading c r"
  shows "yields c off r (0x8008, 9, be16_bytes tid) (r\<lparr>t_tid := uint tid\<rparr>)"
  using reading net16_item [where v = tid and val = "[]"]
  by (intro yieldsI [where h = assigned_tunnel_avp])
    (auto simp: length8 avps_def arr_get_def assigned_tunnel_avp_def for_messages_def need_length_def get_c_Some reading_def)

lemma yields_rws:
  assumes reading: "reading c r"
  shows "yields c off r (0x8008, 10, be16_bytes rws) (r\<lparr>t_rws := uint rws\<rparr>)"
  using reading net16_item [where v = rws and val = "[]"]
  by (intro yieldsI [where h = receive_window_size_avp])
    (auto simp: length8 avps_def arr_get_def receive_window_size_avp_def for_messages_def need_length_def get_c_Some reading_def)

lemma yields_hostname:
  assumes reading: "reading c r" and a: "length (t_hostname r) = MAXSTRLEN" "0 \<notin> set nm" "length nm \<le> 1017"
  shows "yields c off r (word_of_nat (6 + length nm) OR MBIT, 7, nm) (r\<lparr>t_hostname := stored (t_hostname r) nm\<rparr>)"
  using reading mandatory_length [of "6 + length nm"] assms copy_item [where val = nm and a = "t_hostname r"]
  by (intro yieldsI [where h = hostname_avp])
    (auto simp: avps_def arr_get_def hostname_avp_def for_messages_def need_length_def get_c_Some reading_def simp del: of_nat_add)

lemma yields_vendor:
  assumes reading: "reading c r" and a: "length (t_vendor r) = MAXSTRLEN"
  shows "yields c off r (19, 8, VENDOR_NAME) (r\<lparr>t_vendor := stored (t_vendor r) VENDOR_NAME\<rparr>)"
proof -
  have "length VENDOR_NAME = 13" "0 \<notin> set VENDOR_NAME" by (simp_all add: VENDOR_NAME_def msg_bytes_def)
  then show ?thesis
    using reading assms copy_item [where val = VENDOR_NAME and a = "t_vendor r" and l = 19]
    by (intro yieldsI [where h = vendor_avp])
      (auto simp: length8 avps_def arr_get_def vendor_avp_def for_messages_def need_length_def get_c_Some reading_def)
qed

lemma raw0_item: "length pre = off \<Longrightarrow> raw (pre @ host_avp l 0 attr @ val @ post) off 0 = Some l"
  using raw_mid [of pre off l "le16_bytes 0 @ le16_bytes attr @ val @ post"] by (simp add: host_avp_def)

lemma yields_randvect:
  assumes reading: "reading c r" and a: "length rv = 16"
  shows "yields c off r (word_of_nat (6 + length rv) OR MBIT, 36, rv) (r\<lparr>us_vector := Some (off + 6), us_vector_len := 16\<rparr>)"
  using reading mandatory_length [of "6 + length rv"] assms raw0_item
  by (intro yieldsI [where h = rand_vector_avp])
    (auto simp: avps_def arr_get_def rand_vector_avp_def avp_size_def reading_def simp del: of_nat_add)

lemma yields_challenge:
  assumes reading: "reading c r" and a: "length ch = 16" "alloc r (allocs r)"
  shows "yields c off r (word_of_nat (6 + length ch) OR MBIT, 11, ch)
    (r\<lparr>allocs := allocs r + 1, us_challenge := Some ch, us_chal_len := 16, us_state := STATE_CHALLENGED\<rparr>)"
  using reading mandatory_length [of "6 + length ch"] assms raw0_item rd_mid [where xs = ch]
  by (intro yieldsI [where h = challenge_avp])
    (auto simp: avps_def arr_get_def challenge_avp_def avp_size_def for_messages_def need_length_def get_c_Some
      next_alloc_def reading_def rd_bytes_def simp del: of_nat_add)

section \<open>The request as a list of AVPs\<close>

definition sccrq_fixed :: "byte_buf \<Rightarrow> l2tp \<Rightarrow> avp_item list" where
  "sccrq_fixed host st =
     [(0x8008, 2, be16_bytes 0x100),
      (0x800A, 3, be16_bytes 0 @ be16_bytes (word_of_int (t_ourfc st))),
      (0x800A, 4, be16_bytes 0 @ be16_bytes (word_of_int (t_ourbc st))),
      (8, 6, be16_bytes 0x690),
      (word_of_nat (6 + length (take (MAXAVPSIZE - 6) (c_string (own_name host st)))) OR MBIT, 7,
         take (MAXAVPSIZE - 6) (c_string (own_name host st))),
      (19, 8, VENDOR_NAME),
      (0x8008, 9, be16_bytes (word_of_int (t_ourtid st)))]"

definition sccrq_items :: "byte_buf \<Rightarrow> l2tp \<Rightarrow> bool \<Rightarrow> byte_buf \<Rightarrow> avp_item list" where
  "sccrq_items host st chal ch =
     (0x8008, 0, be16_bytes 1) #
     (if t_hbit st then [(word_of_nat (6 + length (them_vector st)) OR MBIT, 36, them_vector st)] else []) @
     sccrq_fixed host st @
     (if t_ourrws st \<ge> 0 then [(0x8008, 10, be16_bytes (word_of_int (t_ourrws st)))] else []) @
     (if chal then [(word_of_nat (6 + length ch) OR MBIT, 11, ch)] else [])"

lemma sccrq_body_items:
  "sccrq_body host st @ (if chal then avp_bytes (word_of_nat (6 + length ch) OR MBIT) 11 ch else []) =
   concat (map item_bytes (sccrq_items host st chal ch))"
  by (simp add: sccrq_body_def sccrq_items_def sccrq_fixed_def item_bytes_def)

lemma item_bytes_len: "length (concat (map item_bytes is)) = sum_list (map item_len is)"
  by (induction "is") (auto simp: item_bytes_def item_len_def split: prod.splits)

lemma accepted_if:
  "(P \<Longrightarrow> yields c off r i r1) \<Longrightarrow> accepted c off r (if P then [i] else []) (if P then r1 else r)"
  by (auto intro: accepted.intros)

lemma accepted_fixed:
  fixes host :: byte_buf and st :: l2tp
  assumes r: "reading c r" "length (t_hostname r) = MAXSTRLEN" "length (t_vendor r) = MAXSTRLEN"
  defines "nm \<equiv> take (MAXAVPSIZE - 6) (c_string (own_name host st))"
  shows "accepted c off r (sccrq_fixed host st)
    (r\<lparr>t_fc := uint (word_of_int (t_ourfc st) :: u16) AND 3, t_bc := uint (word_of_int (t_ourbc st) :: u16) AND 3,
       t_firmware := 0x690, t_hostname := stored (t_hostname r) nm, t_vendor := stored (t_vendor r) VENDOR_NAME,
       t_tid := uint (word_of_int (t_ourtid st) :: u16)\<rparr>)"
proof -
  have z: "0 \<notin> set nm"
    unfolding nm_def c_string_def by (auto dest!: in_set_takeD set_takeWhileD)
  have rd: "reading c (r\<lparr>t_fc := x1\<rparr>)" "reading c (r\<lparr>t_fc := x1, t_bc := x2\<rparr>)"
    "reading c (r\<lparr>t_fc := x1, t_bc := x2, t_firmware := x3\<rparr>)"
    "reading c (r\<lparr>t_fc := x1, t_bc := x2, t_firmware := x3, t_hostname := x4\<rparr>)"
    "reading c (r\<lparr>t_fc := x1, t_bc := x2, t_firmware := x3, t_hostname := x4, t_vendor := x5\<rparr>)" for x1 x2 x3 x4 x5
    using r(1) by (simp_all add: reading_def)
  show ?thesis
    unfolding sccrq_fixed_def nm_def [symmetric]
    by (intro accepted_Cons [OF yields_protocol [OF r(1)]] accepted_Cons [OF yields_frame_caps [OF r(1)]]
        accepted_Cons [OF yields_bearer_caps [OF rd(1)]] accepted_Cons [OF yields_firmware [OF rd(2)]])
      (use yields_hostname [OF rd(3), where nm = nm] yields_vendor [OF rd(4)] yields_tunnelid [OF rd(5)] r z in
        \<open>auto intro!: accepted.intros simp: nm_def\<close>)
qed

text \<open>The receiver accepts every AVP of the request.\<close>

lemma request_accepted:
  assumes r: "l2tp_wf r" "t_sanity r" "t_state r = 0" "alloc r (allocs r)"
    and v: "t_hbit st \<longrightarrow> length (them_vector st) = 16" "length ch = 16"
  defines "c \<equiv> t_self r"
  shows "\<exists>r'. accepted c 12 r (sccrq_items host st chal ch) r' \<and> c_msgtype (calls r' ! c) = SCCRQ \<and>
    t_fc r' = uint (word_of_int (t_ourfc st) :: u16) AND 3 \<and> t_bc r' = uint (word_of_int (t_ourbc st) :: u16) AND 3 \<and>
    t_firmware r' = 0x690 \<and> t_tid r' = uint (word_of_int (t_ourtid st) :: u16) \<and>
    c_string (t_hostname r') = take (MAXSTRLEN - 1) (c_string (own_name host st)) \<and> c_string (t_vendor r') = VENDOR_NAME \<and>
    (t_ourrws st \<ge> 0 \<longrightarrow> t_rws r' = uint (word_of_int (t_ourrws st) :: u16)) \<and>
    (chal \<longrightarrow> us_challenge r' = Some ch \<and> us_state r' = STATE_CHALLENGED)"
proof -
  have c: "c < length (calls r)" "length (t_hostname r) = MAXSTRLEN" "length (t_vendor r) = MAXSTRLEN"
    using r(1) by (simp_all add: c_def l2tp_wf_def)
  let ?nm = "take (MAXAVPSIZE - 6) (c_string (own_name host st))"
  define r1 where "r1 = r\<lparr>calls := (calls r)[c := (calls r ! c)\<lparr>c_msgtype := SCCRQ\<rparr>]\<rparr>"
  define off2 where "off2 = 12 + item_len (0x8008, 0, be16_bytes 1)"
  define r2 where "r2 = (if t_hbit st then r1\<lparr>us_vector := Some (off2 + 6), us_vector_len := 16\<rparr> else r1)"
  define r3 where "r3 = r2\<lparr>t_fc := uint (word_of_int (t_ourfc st) :: u16) AND 3, t_bc := uint (word_of_int (t_ourbc st) :: u16) AND 3,
       t_firmware := 0x690, t_hostname := stored (t_hostname r) ?nm, t_vendor := stored (t_vendor r) VENDOR_NAME,
       t_tid := uint (word_of_int (t_ourtid st) :: u16)\<rparr>"
  define r4 where "r4 = (if t_ourrws st \<ge> 0 then r3\<lparr>t_rws := uint (word_of_int (t_ourrws st) :: u16)\<rparr> else r3)"
  define r5 where "r5 = (if chal then r4\<lparr>allocs := allocs r4 + 1, us_challenge := Some ch, us_chal_len := 16,
    us_state := STATE_CHALLENGED\<rparr> else r4)"
  have rd: "reading c r1" "reading c r2" "reading c r3" "reading c r4"
    using r(2) c(1) by (simp_all add: reading_def r1_def r2_def r3_def r4_def)
  have f2: "t_hostname r2 = t_hostname r" "t_vendor r2 = t_vendor r" by (simp_all add: r2_def r1_def)
  have a1: "yields c 12 r (0x8008, 0, be16_bytes 1) r1"
    unfolding r1_def using r(2,3) c(1) by (intro yields_message_type) (simp_all add: c_def)
  have a2: "accepted c off2 r1 (if t_hbit st then [(word_of_nat (6 + length (them_vector st)) OR MBIT, 36, them_vector st)] else []) r2"
    unfolding r2_def using v(1) by (intro accepted_if yields_randvect rd) simp
  have a3: "accepted c off r2 (sccrq_fixed host st) r3" for off
    using accepted_fixed [OF rd(2)] f2 c(2,3) by (simp add: r3_def)
  have a4: "accepted c off r3 (if t_ourrws st \<ge> 0 then [(0x8008, 10, be16_bytes (word_of_int (t_ourrws st)))] else []) r4" for off
    unfolding r4_def by (intro accepted_if yields_rws rd)
  have "alloc r4 (allocs r4)" using r(4) by (simp add: r4_def r3_def r2_def r1_def)
  then have a5: "accepted c off r4 (if chal then [(word_of_nat (6 + length ch) OR MBIT, 11, ch)] else []) r5" for off
    unfolding r5_def by (intro accepted_if yields_challenge rd v)
  have "accepted c 12 r (sccrq_items host st chal ch) r5"
    unfolding sccrq_items_def using a1 accepted_append [OF a2 accepted_append [OF a3 accepted_append [OF a4 a5]]]
    by (auto simp: off2_def intro: accepted_Cons)
  moreover have "0 \<notin> set ?nm" "0 \<notin> set VENDOR_NAME" "length VENDOR_NAME = 13"
    by (auto simp: c_string_def VENDOR_NAME_def msg_bytes_def dest!: in_set_takeD set_takeWhileD)
  ultimately show ?thesis using c(1)
    by (intro exI [of _ r5]) (simp add: r5_def r4_def r3_def r2_def r1_def c_string_stored)
qed

text \<open>The sender's message.\<close>

lemma open_settings_simps [simp]:
  "t_self (open_settings st) = t_self st" "calls (open_settings st) = calls st" "alloc (open_settings st) = alloc st"
  "allocs (open_settings st) = allocs st" "t_ourfc (open_settings st) = t_ourfc st" "t_ourbc (open_settings st) = t_ourbc st"
  "t_ourtid (open_settings st) = t_ourtid st" "t_lns (open_settings st) = t_lns st" "t_lac (open_settings st) = t_lac st"
  "them_vector (open_settings st) = them_vector st"
  by (simp_all add: open_settings_def split: option.splits)

lemma length_sccrq_body: "t_hbit st \<longrightarrow> length (them_vector st) = 16 \<Longrightarrow> length (sccrq_body host st) \<le> 1124"
  by (auto simp: sccrq_body_def VENDOR_NAME_def msg_bytes_def)

lemma open_tunnel_ok:
  assumes c: "t_self st < length (calls st)" and a: "alloc st (allocs st)" "alloc st (allocs st + 1)"
    and l: "length rv = 16" "length ch = 16" "1200 \<le> length mem"
  defines "st1 \<equiv> (if t_hbit (open_settings st) then (open_settings st)\<lparr>them_vector := rv\<rparr> else open_settings st)"
  shows "\<exists>st' b hdr. open_tunnel host rv ch mem st = Some (0, st', Some b) \<and> length hdr = 12 \<and>
    sent_bytes b = hdr @ concat (map item_bytes (sccrq_items host st1 (wants_challenge st) ch)) \<and>
    ob_len b = length (sent_bytes b) \<and> t_state st' = SCCRQ \<and> control_seq_num st' = control_seq_num st1 + 1 \<and>
    (wants_challenge st \<longrightarrow> them_challenge st' = Some ch \<and> them_state st' = STATE_CHALLENGED)"
proof -
  let ?s = "(open_settings st)\<lparr>t_state := SCCRQ, allocs := allocs st + 1\<rparr>"
  define s1 where "s1 = (if t_hbit ?s then ?s\<lparr>them_vector := rv\<rparr> else ?s)"
  define pre junk where "pre = take 12 mem" and "junk = drop 12 mem"
  have pj: "length pre = 12" "1188 \<le> length junk" using l(3) by (simp_all add: pre_def junk_def)
  have nb: "new_outgoing True mem = Some (mkbuf pre [] junk)" using l(3) by (simp add: new_outgoing_mk pre_def junk_def)
  have lr: "t_lac s1 = t_lac st" "t_lns s1 = t_lns st" "t_lac st1 = t_lac st" "t_lns st1 = t_lns st"
    by (simp_all add: s1_def st1_def)
  have wc: "wants_challenge s1 = wants_challenge st" "own_name host s1 = own_name host st1"
    by (simp_all only: wants_challenge_def own_name_def lr)
  have body: "sccrq_body host s1 = sccrq_body host st1"
    using wc(2) by (simp add: sccrq_body_def s1_def st1_def)
  have f1: "t_self s1 = t_self st" "calls s1 = calls st" "alloc s1 = alloc st" "allocs s1 = allocs st + 1" "t_state s1 = SCCRQ"
    "control_seq_num s1 = control_seq_num st1"
    by (simp_all add: s1_def st1_def)
  have "length (sccrq_body host st1) \<le> 1124" using l(1) by (intro length_sccrq_body) (simp add: st1_def)
  then have "length (sccrq_body host st1) + 64 \<le> length junk" using pj(2) by linarith
  then obtain j1 where j1: "sccrq_avps host s1 (mkbuf pre [] junk) = Some (mkbuf pre (sccrq_body host st1) j1)" "64 \<le> length j1"
    using appendsD [OF sccrq_avps_appends [of host s1], of junk pre "[]"] unfolding body by auto
  define chal where "chal = (if wants_challenge st then avp_bytes (word_of_nat (6 + length ch) OR MBIT) 11 ch else [])"
  define s2 where "s2 = (if wants_challenge st then s1\<lparr>allocs := allocs st + 2, them_challenge := Some ch,
    them_chal_len := int MD_SIG_SIZE, them_state := STATE_CHALLENGED\<rparr> else s1)"
  have f2: "calls s2 = calls st" "t_state s2 = SCCRQ" "control_seq_num s2 = control_seq_num st1"
    "wants_challenge st \<Longrightarrow> them_challenge s2 = Some ch \<and> them_state s2 = STATE_CHALLENGED"
    using f1 by (simp_all add: s2_def)
  obtain j2 where j2: "(if wants_challenge st then add_challenge_avp ch (mkbuf pre (sccrq_body host st1) j1)
      else Some (mkbuf pre (sccrq_body host st1) j1)) = Some (mkbuf pre (sccrq_body host st1 @ chal) j2)"
    using appendsD [OF appends_copies(1) [of ch], of j1 pre "sccrq_body host st1"] l(2) j1(2)
    by (cases "wants_challenge st") (auto simp: chal_def)
  obtain hdr where hdr: "length hdr = 12" "add_control_hdr s2 (t_self st) (mkbuf pre (sccrq_body host st1 @ chal) j2) =
      Some (s2\<lparr>control_seq_num := control_seq_num s2 + 1\<rparr>, mkbuf [] (hdr @ sccrq_body host st1 @ chal) j2)"
    using add_control_hdr_mk [OF pj(1), of "t_self st" s2 "sccrq_body host st1 @ chal" j2] c f2(1) by auto
  let ?fin = "Some (0, s2\<lparr>control_seq_num := control_seq_num s2 + 1,
      calls := (calls st)[t_self st := (calls st ! t_self st)\<lparr>c_cnu := 0\<rparr>]\<rparr>, Some (mkbuf [] (hdr @ sccrq_body host st1 @ chal) j2))"
  have "open_tunnel host rv ch mem st = do { b \<leftarrow> new_outgoing (alloc st (allocs st)) mem; b \<leftarrow> sccrq_avps host s1 b;
      challenge_and_send ch (t_self st) s1 b }"
    unfolding open_tunnel_def next_alloc_def Let_def s1_def by simp
  also have "\<dots> = challenge_and_send ch (t_self st) s1 (mkbuf pre (sccrq_body host st1) j1)"
    using a(1) nb j1(1) by simp
  also have "\<dots> = ?fin"
  proof (cases "wants_challenge st")
    case True
    have "wants_challenge (s1\<lparr>allocs := n\<rparr>)" for n using True wc(1) by (simp add: wants_challenge_def)
    then show ?thesis
      using True a j2 hdr(2) c wc(1) f1 by (simp add: challenge_and_send_def next_alloc_def s2_def upd_c_Some)
  next
    case False
    then show ?thesis
      using j2 hdr(2) c wc(1) f1 by (simp add: challenge_and_send_def s2_def upd_c_Some)
  qed
  finally have "open_tunnel host rv ch mem st = ?fin" .
  moreover have "ob_len (mkbuf [] m j) = length (sent_bytes (mkbuf [] m j))" for m j by (simp add: sent_mkbuf) (simp add: mkbuf_def)
  moreover have "sccrq_body host st1 @ chal = concat (map item_bytes (sccrq_items host st1 (wants_challenge st) ch))"
    unfolding chal_def by (rule sccrq_body_items)
  ultimately show ?thesis using hdr(1) f2
    by (intro exI [of _ "s2\<lparr>control_seq_num := control_seq_num s2 + 1, calls := X\<rparr>" for X] exI [of _ "mkbuf [] (hdr @ sccrq_body host st1 @ chal) j2"]
        exI [of _ hdr]) (simp add: sent_mkbuf)
qed

text \<open>
  C25: round trip between two daemons. The \<open>Start-Control-Connection-Request\<close> one side builds is
  accepted as a whole by a fresh tunnel of the other side, which then holds exactly what the sender put in:
  its capabilities, firmware, vendor, tunnel number, window, challenge, and the first 119 bytes of its name.
\<close>

theorem sccrq_roundtrip:
  assumes snd: "t_self st < length (calls st)" "alloc st (allocs st)" "alloc st (allocs st + 1)"
      "length rv = 16" "length ch = 16" "1200 \<le> length mem"
    and rcv: "l2tp_wf r" "t_sanity r" "t_state r = 0" "alloc r (allocs r)"
  shows "\<exists>st' b r' b'. open_tunnel host rv ch mem st = Some (0, st', Some b) \<and>
    handle_avps r (sent_bytes b @ slack) (ob_len b) (t_self r) = Some (0, r', b') \<and>
    c_msgtype (calls r' ! t_self r) = SCCRQ \<and>
    t_fc r' = uint (word_of_int (t_ourfc st) :: u16) AND 3 \<and> t_bc r' = uint (word_of_int (t_ourbc st) :: u16) AND 3 \<and>
    t_firmware r' = 0x690 \<and> t_tid r' = uint (word_of_int (t_ourtid st) :: u16) \<and>
    c_string (t_hostname r') = take (MAXSTRLEN - 1) (c_string (own_name host st)) \<and> c_string (t_vendor r') = VENDOR_NAME \<and>
    (t_ourrws (open_settings st) \<ge> 0 \<longrightarrow> t_rws r' = uint (word_of_int (t_ourrws (open_settings st)) :: u16)) \<and>
    (wants_challenge st \<longrightarrow> us_challenge r' = Some ch \<and> them_challenge st' = Some ch)"
proof -
  define st1 where "st1 = (if t_hbit (open_settings st) then (open_settings st)\<lparr>them_vector := rv\<rparr> else open_settings st)"
  let ?items = "sccrq_items host st1 (wants_challenge st) ch"
  obtain st' b hdr where b: "open_tunnel host rv ch mem st = Some (0, st', Some b)" "length hdr = 12"
      "sent_bytes b = hdr @ concat (map item_bytes ?items)" "ob_len b = length (sent_bytes b)"
      "wants_challenge st \<longrightarrow> them_challenge st' = Some ch"
    using open_tunnel_ok [OF snd, of host] unfolding st1_def by blast
  have lr: "t_lac st1 = t_lac st" "t_lns st1 = t_lns st" by (simp_all add: st1_def)
  have o: "own_name host st1 = own_name host st" by (simp only: own_name_def lr)
  have v: "t_hbit st1 \<longrightarrow> length (them_vector st1) = 16" using snd(4) by (simp add: st1_def)
  obtain r' where r': "accepted (t_self r) 12 r ?items r'" and f: "c_msgtype (calls r' ! t_self r) = SCCRQ \<and>
    t_fc r' = uint (word_of_int (t_ourfc st1) :: u16) AND 3 \<and> t_bc r' = uint (word_of_int (t_ourbc st1) :: u16) AND 3 \<and>
    t_firmware r' = 0x690 \<and> t_tid r' = uint (word_of_int (t_ourtid st1) :: u16) \<and>
    c_string (t_hostname r') = take (MAXSTRLEN - 1) (c_string (own_name host st1)) \<and> c_string (t_vendor r') = VENDOR_NAME \<and>
    (t_ourrws st1 \<ge> 0 \<longrightarrow> t_rws r' = uint (word_of_int (t_ourrws st1) :: u16)) \<and>
    (wants_challenge st \<longrightarrow> us_challenge r' = Some ch \<and> us_state r' = STATE_CHALLENGED)"
    using request_accepted [OF rcv v snd(5)] by blast
  have len: "int (ob_len b) - 12 = int (sum_list (map item_len ?items))" using b(2-4) by (simp add: item_bytes_len)
  obtain b' where "handle_avps r (sent_bytes b @ slack) (ob_len b) (t_self r) = Some (0, r', b')"
    using accepted_handle [OF r' b(2), of True slack] unfolding handle_avps_def len b(3) by (auto simp: sccrq_items_def)
  then show ?thesis using b(1,5) f o by (intro exI [of _ st'] exI [of _ b] exI [of _ r']) (auto simp: st1_def split: if_splits)
qed

lemma sccrq_roundtrip_witness:
  "\<exists>st' b r' b'. open_tunnel [0x61, 0] (replicate 16 1) (replicate 16 2) (replicate 4096 0xFF) ex_l2tp = Some (0, st', Some b) \<and>
    handle_avps ex_l2tp (sent_bytes b @ []) (ob_len b) (t_self ex_l2tp) = Some (0, r', b') \<and>
    t_tid r' = 1234 \<and> c_string (t_hostname r') = [0x61]"
proof -
  have o: "own_name [0x61, 0] ex_l2tp = [0x61, 0]" by (simp add: own_name_def ex_l2tp_def)
  have w: "l2tp_wf ex_l2tp" by (simp add: ex_l2tp_def l2tp_wf_def call_wf_def zero_call_def)
  show ?thesis
    using sccrq_roundtrip [of ex_l2tp "replicate 16 1" "replicate 16 2" "replicate 4096 0xFF" ex_l2tp "[0x61, 0]" "[]"] w
    unfolding o by (simp add: ex_l2tp_def c_string_def) blast
qed

end
