(* ===== verification/L2tp_Payload.thy ===== *)
theory L2tp_Payload
  imports L2tp_Send Ppp_Fcs
begin

text \<open>
  Data packets of an L2TP call: byte order and addressing of a received header
  (\<open>network.c\<close>), its checks and its expansion to the full form (\<open>control.c\<close>), the header
  and the framing of what is sent (\<open>call.c\<close>, \<open>control.c\<close>). A buffer is \<open>obuf\<close>: its whole
  allocation with the offset of \<open>start\<close>; header words are in host order once \<open>fix_hdr\<close> has
  swapped them.
\<close>

section \<open>Header bits (l2tp.h)\<close>

definition CTBIT :: "u16 \<Rightarrow> bool" where "CTBIT v \<longleftrightarrow> v AND 0x8000 \<noteq> 0"
definition CLBIT :: "u16 \<Rightarrow> bool" where "CLBIT v \<longleftrightarrow> v AND 0x4000 \<noteq> 0"
definition CFBIT :: "u16 \<Rightarrow> bool" where "CFBIT v \<longleftrightarrow> v AND 0x0800 \<noteq> 0"
definition PSBIT :: "u16 \<Rightarrow> bool" where "PSBIT v \<longleftrightarrow> v AND 0x0200 \<noteq> 0"
definition CVER :: "u16 \<Rightarrow> u16" where "CVER v = v AND 0x0007"

abbreviation (input) "VER_L2TP \<equiv> (2 :: u16)"
abbreviation (input) "PAYLOAD_HDR_LEN \<equiv> (14 :: nat)"
abbreviation (input) "MIN_PAYLOAD_HDR_LEN \<equiv> (6 :: nat)"
abbreviation (input) "PAYLOAD_BUF \<equiv> (10 :: nat)"
abbreviation (input) "PAYLOAD_FUDGE \<equiv> (2 :: nat)"

text \<open>\<open>buf->start\<close> seen as \<open>struct payload_hdr\<close> or \<open>struct control_hdr\<close>: word \<open>i\<close>.\<close>

definition hdr_word :: "obuf \<Rightarrow> nat \<Rightarrow> u16 option" where
  "hdr_word b i = raw (ob_mem b) (ob_start b) i"

section \<open>Receiving (network.c)\<close>

text \<open>
  \<open>network_thread\<close> puts the received bytes behind \<open>PAYLOAD_BUF\<close> spare ones; \<open>mem\<close> is what the
  buffer of \<open>MAX_RECV_SIZE\<close> bytes held before.
\<close>

definition receive :: "byte_buf \<Rightarrow> byte_buf \<Rightarrow> obuf option" where
  "receive mem bs = do {
     mem \<leftarrow> wr_bytes mem PAYLOAD_BUF bs;
     Some \<lparr>ob_mem = mem, ob_start = PAYLOAD_BUF, ob_len = length bs\<rparr> }"

text \<open>The control bit is tested on the word as received, the others on the swapped one.\<close>

definition fix_hdr :: "obuf \<Rightarrow> obuf option" where
  "fix_hdr b = do {
     pver \<leftarrow> hdr_word b 0;
     let ver = ntohs pver;
     let len = (if CTBIT pver then 12
       else 6 + (if PSBIT ver then 2 else 0) + (if CLBIT ver then 2 else 0) + (if CFBIT ver then 4 else 0));
     mem \<leftarrow> swaps (ob_mem b) (ob_start b) (len div 2);
     Some (b\<lparr>ob_mem := mem\<rparr>) }"

definition extract_ids :: "obuf \<Rightarrow> (int \<times> int) option" where
  "extract_ids b = do {
     ver \<leftarrow> hdr_word b 0;
     tunnel \<leftarrow> hdr_word b (if CLBIT ver then 2 else 1);
     call \<leftarrow> hdr_word b (if CLBIT ver then 3 else 2);
     Some (uint tunnel, uint call) }"

section \<open>Checks (control.c)\<close>

definition check_payload :: "obuf \<Rightarrow> bool \<Rightarrow> int option" where
  "check_payload b sanity =
     (if ob_len b < MIN_PAYLOAD_HDR_LEN then Some (- EINVAL)
      else if sanity then do {
        ver \<leftarrow> hdr_word b 0;
        hlen \<leftarrow> hdr_word b 1;
        let ehlen = MIN_PAYLOAD_HDR_LEN + (if CLBIT ver then 2 else 0) + (if CFBIT ver then 4 else 0) +
          (if PSBIT ver then 2 else 0) + (if CLBIT ver then unat hlen else 0);
        Some (if CTBIT ver then - EINVAL
          else if CVER ver \<noteq> VER_L2TP then - EINVAL
          else if ob_len b < ehlen \<and> \<not> CLBIT ver then - EINVAL
          else if ob_len b \<noteq> unat hlen \<and> CLBIT ver then - EINVAL
          else 0) }
      else Some 0)"

text \<open>
  \<open>expand_payload\<close>: the header is moved to the front, word by word and in this order, so that it
  has all seven words; then the sequence number is judged.
\<close>

definition expand_hdr :: "obuf \<Rightarrow> l2call \<Rightarrow> (int \<times> obuf) option" where
  "expand_hdr b c = do {
     let h = ob_start b;
     ver \<leftarrow> hdr_word b 0;
     let ehlen = (if CLBIT ver then 0 else 2) + (if CFBIT ver then 0 else 4) + (if PSBIT ver then 0 else 2 :: nat);
     if ehlen = 0 then Some (0, b)
     else if h < ehlen then Some (- EINVAL, b)
     else do {
       let new = h - ehlen;
       mem \<leftarrow> set_raw (ob_mem b) new 0 ver;
       let r = (if CLBIT ver then 1 else 0);
       mem \<leftarrow> (if CLBIT ver then do { w \<leftarrow> raw mem h r; set_raw mem new 1 w }
               else set_raw mem new 1 (word_of_nat (ob_len b + ehlen)));
       w \<leftarrow> raw mem h (r + 1);
       mem \<leftarrow> set_raw mem new 2 w;
       w \<leftarrow> raw mem h (r + 2);
       mem \<leftarrow> set_raw mem new 3 w;
       mem \<leftarrow>
         (if CFBIT ver then do {
            w \<leftarrow> raw mem h (r + 3);
            mem \<leftarrow> set_raw mem new 4 w;
            w \<leftarrow> raw mem h (r + 4);
            set_raw mem new 5 w }
          else do {
            mem \<leftarrow> set_raw mem new 5 (c_data_seq_num c);
            set_raw mem new 4 (c_data_rec_seq_num c) });
       let r = (if CFBIT ver then r + 4 else r + 2);
       mem \<leftarrow> (if PSBIT ver then do { w \<leftarrow> raw mem h (r + 1); set_raw mem new 6 w } else set_raw mem new 6 0);
       Some (0, \<lparr>ob_mem = mem, ob_start = new, ob_len = ob_len b + ehlen\<rparr>) } }"

definition judge_seq :: "u16 \<Rightarrow> l2call \<Rightarrow> int \<times> l2call" where
  "judge_seq ns c =
     (let n = uint ns; rec = uint (c_data_rec_seq_num c)
      in if ns \<noteq> c_data_seq_num c then
           (if (n < rec \<and> rec - n < 32768) \<or> (n > rec \<and> rec - n > 32768) then (- EINVAL, c)
            else if n \<le> rec + int PAYLOAD_FUDGE then (0, c\<lparr>c_data_rec_seq_num := ns\<rparr>)
            else (- EINVAL, c))
         else (0, c\<lparr>c_data_rec_seq_num := c_data_rec_seq_num c + 1, c_pnu := -1\<rparr>))"

definition expand_payload :: "obuf \<Rightarrow> l2call \<Rightarrow> (int \<times> obuf \<times> l2call) option" where
  "expand_payload b c = do {
     (rc, b') \<leftarrow> expand_hdr b c;
     if rc \<noteq> 0 then Some (rc, b, c)
     else do {
       ns \<leftarrow> hdr_word b' 4;
       nr \<leftarrow> hdr_word b' 5;
       case judge_seq ns c of (rc, c) \<Rightarrow>
         if rc \<noteq> 0 then Some (rc, b\<lparr>ob_mem := ob_mem b'\<rparr>, c) else Some (0, b', c\<lparr>c_pLr := uint nr\<rparr>) } }"

section \<open>Headers of what is sent (call.c)\<close>

definition new_payload :: "bool \<Rightarrow> byte_buf \<Rightarrow> obuf option" where
  "new_payload ok mem = (if ok then Some \<lparr>ob_mem = mem, ob_start = PAYLOAD_HDR_LEN, ob_len = 0\<rparr> else None)"

definition add_payload_hdr :: "l2tp \<Rightarrow> l2call \<Rightarrow> obuf \<Rightarrow> (l2call \<times> obuf) option" where
  "add_payload_hdr st c b =
     (if ob_start b < PAYLOAD_HDR_LEN then None
      else do {
        let seq = (c_fbit c \<noteq> 0 \<or> c_ourfbit c \<noteq> 0);
        let hlen = PAYLOAD_HDR_LEN - 2 - (if seq then 0 else 4) - (if c_lbit c \<noteq> 0 then 0 else 2);
        let start = ob_start b - hlen;
        let len = ob_len b + hlen;
        mem \<leftarrow> wr_bytes (ob_mem b) start (be16_bytes (c_lbit c OR c_fbit c OR c_ourfbit c OR VER_L2TP));
        mem \<leftarrow> (if c_lbit c \<noteq> 0 then wr_bytes mem (start + 2) (be16_bytes (word_of_nat len)) else Some mem);
        let p = (if c_lbit c \<noteq> 0 then start + 4 else start + 2);
        mem \<leftarrow> wr_bytes mem p (be16_bytes (word_of_int (t_tid st)) @ be16_bytes (word_of_int (c_cid c)));
        mem \<leftarrow> (if seq then wr_bytes mem (p + 4) (be16_bytes (c_data_seq_num c) @ be16_bytes (c_data_rec_seq_num c))
                else Some mem);
        Some (c\<lparr>c_data_seq_num := c_data_seq_num c + 1\<rparr>, \<lparr>ob_mem = mem, ob_start = start, ob_len = len\<rparr>) })"

section \<open>To and from the PPP daemon (control.c, call.c)\<close>

text \<open>The table of \<open>control.c\<close> holds the same 256 numbers as the one of \<open>rp-pppoe\<close>.\<close>

definition ppp_crc16_table :: "u16 list" where
  "ppp_crc16_table = fcstab"

abbreviation (input) "PPP_FLAG \<equiv> (0x7e :: u8)"
abbreviation (input) "PPP_ESCAPE \<equiv> (0x7d :: u8)"
abbreviation (input) "PPP_TRANS \<equiv> (0x20 :: u8)"

definition PPP_FCS :: "u16 \<Rightarrow> u8 \<Rightarrow> u16" where
  "PPP_FCS fcs c = drop_bit 8 fcs XOR ppp_crc16_table ! unat ((fcs XOR ucast c) AND 0xff)"

text \<open>\<open>buf->len\<close> is a 64-bit \<open>size_t\<close>; the check sequence goes behind the last byte.\<close>

definition add_fcs :: "obuf \<Rightarrow> obuf option" where
  "add_fcs b = do {
     d \<leftarrow> rd_bytes (ob_mem b) (ob_start b) (ob_len b);
     let fcs = foldl PPP_FCS 0xffff d XOR 0xffff;
     mem \<leftarrow> wr_bytes (ob_mem b) (ob_start b + ob_len b) [lo8 fcs, hi8 fcs];
     Some (b\<lparr>ob_mem := mem, ob_len := ob_len b + 2\<rparr>) }"

definition needs_escape :: "u8 \<Rightarrow> bool" where
  "needs_escape e \<longleftrightarrow> e < 0x20 \<or> e = PPP_ESCAPE \<or> e = PPP_FLAG"

text \<open>
  The loop that fills \<open>wbuf\<close>, of which \<open>out\<close> has been written; \<open>None\<close> is the return for a packet that
  is too big. The test leaves room for two bytes and the final flag, so \<open>wbuf\<close> is never overrun.
\<close>

fun stuff :: "byte_buf \<Rightarrow> byte_buf \<Rightarrow> byte_buf option" where
  "stuff out [] = Some out"
| "stuff out (e # es) =
     (if length out \<ge> MAX_RECV_SIZE - 4 then None
      else stuff (out @ (if needs_escape e then [PPP_ESCAPE, e XOR 0x20] else [e])) es)"

text \<open>
  One answer of \<open>write\<close> to the request to write \<open>n\<close> bytes: it wrote some, was interrupted, or
  failed. When the list of answers is used up, the rest is written.
\<close>

datatype wres = Wrote nat | Again | Failed

fun write_all :: "byte_buf \<Rightarrow> wres list \<Rightarrow> byte_buf \<times> bool" where
  "write_all bs [] = (bs, True)"
| "write_all bs (Wrote n # ws) =
     (if bs = [] then ([], True)
      else case write_all (drop (min n (length bs)) bs) ws of (out, ok) \<Rightarrow> (take (min n (length bs)) bs @ out, ok))"
| "write_all bs (Again # ws) = (if bs = [] then ([], True) else write_all bs ws)"
| "write_all bs (Failed # ws) = (if bs = [] then ([], True) else ([], False))"

abbreviation (input) "EIO \<equiv> (5 :: int)"

text \<open>
  \<open>write_packet\<close> as it is called, with conversion to asynchronous framing: the return code, the call and
  the bytes that went to the PPP daemon.
\<close>

definition write_packet :: "obuf \<Rightarrow> l2call \<Rightarrow> wres list \<Rightarrow> (int \<times> l2call \<times> byte_buf) option" where
  "write_packet b c ws =
     (if c_fd c < 0 then Some (- EIO, c, [])
      else do {
        offset \<leftarrow> hdr_word b 6;
        let skip = PAYLOAD_HDR_LEN + unat offset;
        let b = b\<lparr>ob_start := ob_start b + skip, ob_len := nat ((int (ob_len b) - int skip) mod 2 ^ 64)\<rparr>;
        b \<leftarrow> add_fcs b;
        d \<leftarrow> rd_bytes (ob_mem b) (ob_start b) (ob_len b);
        case stuff [PPP_FLAG] d of
          None \<Rightarrow> Some (- EINVAL, c, [])
        | Some w \<Rightarrow> (case write_all (w @ [PPP_FLAG]) ws of (out, ok) \<Rightarrow>
            if ok then Some (0, c, out) else Some (- EIO, c\<lparr>c_needclose := -1, c_fd := -1\<rparr>, out)) })"

text \<open>
  One answer of \<open>read\<close> on the PPP device: bytes, nothing to read (end of file, interrupted or no data),
  or another error. No more answers means nothing to read.
\<close>

datatype rres = Bytes byte_buf | Nothing | Error int

text \<open>
  \<open>read_packet\<close>: \<open>rem\<close> is the unread part of \<open>c->rbuf\<close>, \<open>escape\<close> and \<open>errors\<close> are the locals. The
  result is the return code, what is left of \<open>rbuf\<close>, the answers not used and the packet buffer.
\<close>

function read_loop ::
  "byte_buf \<Rightarrow> rres list \<Rightarrow> u8 \<Rightarrow> nat \<Rightarrow> obuf \<Rightarrow> (int \<times> byte_buf \<times> rres list \<times> obuf) option" where
  "read_loop [] [] escape errors b = Some (0, [], [], b)"
| "read_loop [] (Nothing # rs) escape errors b = Some (0, [], rs, b)"
| "read_loop [] (Error e # rs) escape errors b =
     (if errors + 1 > 10 then Some (- e, [], rs, b) else read_loop [] rs escape (errors + 1) b)"
| "read_loop [] (Bytes bs # rs) escape errors b =
     (if bs = [] then Some (0, [], rs, b) else read_loop bs rs escape errors b)"
| "read_loop (ch # rem) rs escape errors b =
     (if ch = PPP_FLAG then
        (if escape \<noteq> 0 then Some (- EINVAL, [], rs, b)
         else if ob_len b \<ge> 2 then Some (int (ob_len b) - 2, rem, rs, b\<lparr>ob_len := ob_len b - 2\<rparr>)
         else if ob_len b = 1 then Some (1, rem, rs, b)
         else read_loop rem rs escape errors b)
      else if ch = PPP_ESCAPE then read_loop rem rs PPP_TRANS errors b
      else if ob_len b < MAX_RECV_SIZE then do {
        mem \<leftarrow> arr_upd (ob_mem b) (ob_start b + ob_len b) (\<lambda>_. ch XOR escape);
        read_loop rem rs 0 errors (b\<lparr>ob_mem := mem, ob_len := ob_len b + 1\<rparr>) }
      else Some (- EINVAL, [], rs, b))"
  by pat_completeness auto
termination
  by (relation "measure (\<lambda>(rem, rs, escape, errors, b). length rem + length rs +
      sum_list (map (\<lambda>r. case r of Bytes bs \<Rightarrow> length bs | _ \<Rightarrow> 0) rs))") auto

definition read_packet :: "byte_buf \<Rightarrow> rres list \<Rightarrow> obuf \<Rightarrow> (int \<times> byte_buf \<times> rres list \<times> obuf) option" where
  "read_packet rem rs b = read_loop rem rs 0 0 b"

section \<open>A received data packet (control.c)\<close>

text \<open>The part of \<open>handle_packet\<close> for packets that are not control messages.\<close>

definition handle_payload :: "obuf \<Rightarrow> bool \<Rightarrow> l2call \<Rightarrow> wres list \<Rightarrow> (int \<times> l2call \<times> byte_buf) option" where
  "handle_payload b sanity c ws = do {
     rc \<leftarrow> check_payload b sanity;
     if rc \<noteq> 0 then Some (- EINVAL, c, [])
     else do {
       (rc, b, c) \<leftarrow> expand_payload b c;
       if rc \<noteq> 0 then Some (- EINVAL, c, [])
       else if ob_len b > PAYLOAD_HDR_LEN then write_packet b c ws
       else if ob_len b = PAYLOAD_HDR_LEN then Some (0, c\<lparr>c_data_rec_seq_num := c_data_rec_seq_num c - 1\<rparr>, [])
       else Some (- EINVAL, c, []) } }"

section \<open>Header fields\<close>

text \<open>The word sequence of a header with the given fields, and of the full header.\<close>

definition pay_words :: "u16 \<Rightarrow> u16 \<Rightarrow> u16 \<Rightarrow> u16 \<Rightarrow> u16 \<Rightarrow> u16 \<Rightarrow> u16 \<Rightarrow> u16 list" where
  "pay_words ver len tid cid ns nr off =
     ver # (if CLBIT ver then [len] else []) @ [tid, cid] @ (if CFBIT ver then [ns, nr] else []) @
     (if PSBIT ver then [off] else [])"

definition words_bytes :: "u16 list \<Rightarrow> byte_buf" where "words_bytes ws = concat (map le16_bytes ws)"
definition net_words :: "u16 list \<Rightarrow> byte_buf" where "net_words ws = concat (map be16_bytes ws)"

lemma length_words [simp]: "length (words_bytes ws) = 2 * length ws" "length (net_words ws) = 2 * length ws"
  by (induction ws) (simp_all add: words_bytes_def net_words_def)

lemma words_Cons: "words_bytes (w # ws) = le16_bytes w @ words_bytes ws" "net_words (w # ws) = be16_bytes w @ net_words ws"
  by (simp_all add: words_bytes_def net_words_def)

lemma swaps_words: "length pre = off \<Longrightarrow> swaps (pre @ net_words ws @ post) off (length ws) = Some (pre @ words_bytes ws @ post)"
proof (induction ws arbitrary: pre off)
  case (Cons w ws)
  have "swaps ((pre @ le16_bytes w) @ net_words ws @ post) (off + 2) (length ws) = Some ((pre @ le16_bytes w) @ words_bytes ws @ post)"
    using Cons.prems by (intro Cons.IH) simp
  moreover have "wr_bytes (pre @ be16_bytes w @ net_words ws @ post) off (le16_bytes w) = Some (pre @ le16_bytes w @ net_words ws @ post)"
    using Cons.prems by (intro wr_mid) simp_all
  moreover have "arr_get (pre @ be16_bytes w @ net_words ws @ post) off = Some (hi8 w)"
    "arr_get (pre @ be16_bytes w @ net_words ws @ post) (off + 1) = Some (lo8 w)"
    using Cons.prems by (simp_all add: arr_get_def be16_bytes_def nth_append)
  ultimately show ?case by (simp add: words_Cons le16_bytes_def)
qed (simp add: words_bytes_def net_words_def)

lemma raw_words:
  assumes "length pre = off" "i < length ws"
  shows "raw (pre @ words_bytes ws @ post) off i = Some (ws ! i)"
proof -
  have "words_bytes ws = words_bytes (take i ws) @ le16_bytes (ws ! i) @ words_bytes (drop (Suc i) ws)"
    using assms(2) by (metis append_Cons append_Nil id_take_nth_drop words_Cons(1) words_bytes_def concat_append map_append)
  then show ?thesis
    using raw_at [of "pre @ words_bytes (take i ws)" off i "ws ! i" "words_bytes (drop (Suc i) ws) @ post"] assms by simp
qed

end
