(* ===== verification/L2tp_Payload_Props.thy ===== *)
theory L2tp_Payload_Props
  imports L2tp_Payload
begin

text \<open>
  Properties of data packets: the header one daemon adds is understood by the other, the framing
  towards the PPP daemon is reversible, and where the buffers are too small or the peer is trusted too much.
\<close>

section \<open>Headers as sequences of words\<close>

lemma words_append: "words_bytes (xs @ ys) = words_bytes xs @ words_bytes ys"
  by (simp add: words_bytes_def)

lemma words_update:
  assumes "i < length ws"
  shows "words_bytes (ws[i := w]) = words_bytes (take i ws) @ le16_bytes w @ words_bytes (drop (Suc i) ws)"
  using assms by (simp add: upd_conv_take_nth_drop words_append words_Cons)

lemma set_raw_words:
  assumes "length pre = off" "i < length ws"
  shows "set_raw (pre @ words_bytes ws @ post) off i w = Some (pre @ words_bytes (ws[i := w]) @ post)"
proof -
  have "words_bytes ws = words_bytes (take i ws) @ le16_bytes (ws ! i) @ words_bytes (drop (Suc i) ws)"
    using words_update [OF assms(2), of "ws ! i"] by simp
  then show ?thesis
    using set_raw_mid [of "pre @ words_bytes (take i ws)" off i "le16_bytes (ws ! i)" "words_bytes (drop (Suc i) ws) @ post" w] assms
      words_update [OF assms(2), of w] by simp
qed

text \<open>Words at \<open>start\<close> that lie behind \<open>k\<close> words of the same sequence.\<close>

lemma raw_words_shift:
  assumes "length pre = off" "k + i < length ws"
  shows "raw (pre @ words_bytes ws @ post) (off + 2 * k) i = Some (ws ! (k + i))"
  using raw_words [OF assms] raw_shift [of "pre @ words_bytes ws @ post" off k i] by simp

lemma even_words: "length bs = 2 * n \<Longrightarrow> \<exists>ws. length ws = n \<and> bs = words_bytes ws"
proof (induction n arbitrary: bs)
  case (Suc n)
  then obtain x y cs where b: "bs = x # y # cs" "length cs = 2 * n" by (cases bs rule: list.exhaust; cases "tl bs") auto
  then obtain ws where "length ws = n" "cs = words_bytes ws" using Suc.IH by blast
  then show ?case using b by (intro exI [of _ "join16 y x # ws"]) (simp add: words_Cons le16_bytes_def)
qed (simp add: words_bytes_def)

definition full_words :: "u16 \<Rightarrow> u16 \<Rightarrow> u16 \<Rightarrow> u16 \<Rightarrow> u16 \<Rightarrow> u16 \<Rightarrow> u16 \<Rightarrow> l2call \<Rightarrow> nat \<Rightarrow> u16 list" where
  "full_words ver len tid cid ns nr off c tot =
     [ver, if CLBIT ver then len else word_of_nat tot, tid, cid,
      if CFBIT ver then ns else c_data_rec_seq_num c, if CFBIT ver then nr else c_data_seq_num c,
      if PSBIT ver then off else 0]"

text \<open>The missing words of the header are filled in, the payload does not move.\<close>

lemma expand_hdr_words:
  fixes ver :: u16
  defines "k \<equiv> (if CLBIT ver then 0 else 1) + (if CFBIT ver then 0 else 2) + (if PSBIT ver then 0 else 1 :: nat)"
  assumes b: "ob_mem b = pre @ words_bytes (pay_words ver len tid cid ns nr off) @ d" "ob_start b = length pre"
    and room: "8 \<le> length pre"
  shows "expand_hdr b c = Some (0,
     \<lparr>ob_mem = take (length pre - 2 * k) pre @ words_bytes (full_words ver len tid cid ns nr off c (ob_len b + 2 * k)) @ d,
      ob_start = length pre - 2 * k, ob_len = ob_len b + 2 * k\<rparr>)"
proof -
  have k4: "k \<le> 4" by (simp add: k_def)
  then have k: "2 * k \<le> length pre" using room by linarith
  obtain js where js: "length js = k" "drop (length pre - 2 * k) pre = words_bytes js"
    using even_words [of "drop (length pre - 2 * k) pre" k] k by auto
  define p where "p = take (length pre - 2 * k) pre"
  have pre: "pre = p @ words_bytes js" using js(2) append_take_drop_id [of "length pre - 2 * k" pre] by (simp add: p_def)
  have lp: "length p = length pre - 2 * k" by (simp add: p_def)
  have st: "ob_start b = length p + 2 * k" using b(2) lp k by simp
  let ?ws = "js @ pay_words ver len tid cid ns nr off"
  have mem: "ob_mem b = p @ words_bytes ?ws @ d" by (simp add: b(1) pre words_append)
  have ver0: "hdr_word b 0 = Some ver"
    unfolding hdr_word_def mem st by (subst raw_words_shift) (simp_all add: js(1) nth_append pay_words_def)
  have S: "set_raw (p @ words_bytes ws @ d) (length p) i w = Some (p @ words_bytes (ws[i := w]) @ d)" if "i < length ws" for ws i w
    using that by (rule set_raw_words [OF refl])
  have R: "raw (p @ words_bytes ws @ d) (length p + 2 * k) i = Some (ws ! (k + i))" if "k + i < length ws" for ws i
    using that by (rule raw_words_shift [OF refl])
  have goal: "expand_hdr b c = Some (0, \<lparr>ob_mem = p @ words_bytes (full_words ver len tid cid ns nr off c (ob_len b + 2 * k)) @ d,
      ob_start = length p, ob_len = ob_len b + 2 * k\<rparr>)"
    if "CLBIT ver = L" "CFBIT ver = F" "PSBIT ver = P" for L F P
    using that js(1) S R
    by (cases L; cases F; cases P)
      (auto simp: expand_hdr_def ver0 mem st k_def Let_def pay_words_def full_words_def length_Suc_conv numeral_eq_Suc)
  show ?thesis using goal [OF refl refl refl] by (simp add: p_def [symmetric] lp)
qed

section \<open>The header that is sent\<close>

definition pay_ver :: "l2call \<Rightarrow> u16" where
  "pay_ver c = c_lbit c OR c_fbit c OR c_ourfbit c OR VER_L2TP"

text \<open>The only values the program gives these fields.\<close>

definition pay_flags :: "l2call \<Rightarrow> bool" where
  "pay_flags c \<longleftrightarrow> c_lbit c \<in> {0, 0x4000} \<and> c_fbit c \<in> {0, 0x0800} \<and> c_ourfbit c \<in> {0, 0x0800}"

lemma pay_ver_bits:
  assumes "pay_flags c"
  shows "CLBIT (pay_ver c) \<longleftrightarrow> c_lbit c \<noteq> 0" "CFBIT (pay_ver c) \<longleftrightarrow> c_fbit c \<noteq> 0 \<or> c_ourfbit c \<noteq> 0"
    "\<not> PSBIT (pay_ver c)" "\<not> CTBIT (pay_ver c)" "CVER (pay_ver c) = 2" "\<not> bit (pay_ver c) 7"
  using assms unfolding pay_flags_def pay_ver_def CLBIT_def CFBIT_def PSBIT_def CTBIT_def CVER_def by auto

definition sent_words :: "l2tp \<Rightarrow> l2call \<Rightarrow> nat \<Rightarrow> u16 list" where
  "sent_words st c len = pay_words (pay_ver c) (word_of_nat len) (word_of_int (t_tid st)) (word_of_int (c_cid c))
     (c_data_seq_num c) (c_data_rec_seq_num c) 0"

lemma wr_at2: "length p + length w = off \<Longrightarrow> length bs \<le> length v \<Longrightarrow>
   wr_bytes (p @ w @ v) off bs = Some (p @ w @ bs @ drop (length bs) v)"
  using wr_at [of "p @ w" off bs v] by simp

lemma wr_at3: "length p + length w + length x = off \<Longrightarrow> length bs \<le> length v \<Longrightarrow>
   wr_bytes (p @ w @ x @ v) off bs = Some (p @ w @ x @ bs @ drop (length bs) v)"
  using wr_at [of "p @ w @ x" off bs v] by simp

lemma wr_at4: "length p + length w + length x + length y = off \<Longrightarrow> length bs \<le> length v \<Longrightarrow>
   wr_bytes (p @ w @ x @ y @ v) off bs = Some (p @ w @ x @ y @ bs @ drop (length bs) v)"
  using wr_at [of "p @ w @ x @ y" off bs v] by simp

lemma wr_at5: "length p + length w + length x + length y + length z = off \<Longrightarrow> length bs \<le> length v \<Longrightarrow>
   wr_bytes (p @ w @ x @ y @ z @ v) off bs = Some (p @ w @ x @ y @ z @ bs @ drop (length bs) v)"
  using wr_at [of "p @ w @ x @ y @ z" off bs v] by simp

lemma add_payload_hdr_sent:
  assumes f: "pay_flags c" and pre: "length pre = 14"
  shows "\<exists>p len. add_payload_hdr st c (mkbuf pre d post) =
      Some (c\<lparr>c_data_seq_num := c_data_seq_num c + 1\<rparr>, mkbuf p (net_words (sent_words st c len) @ d) post) \<and>
      len = 2 * length (sent_words st c len) + length d"
proof -
  let ?L = "c_lbit c \<noteq> 0" and ?F = "c_fbit c \<noteq> 0 \<or> c_ourfbit c \<noteq> 0"
  define hlen where "hlen = 6 + (if ?L then 2 else 0) + (if ?F then 4 else 0 :: nat)"
  define p v where "p = take (14 - hlen) pre" and "v = drop (14 - hlen) pre"
  have pv: "pre = p @ v" "length p = 14 - hlen" "length v = hlen" using pre by (simp_all add: p_def v_def hlen_def)
  let ?len = "length d + hlen"
  have "2 * length (sent_words st c ?len) = hlen"
    using pay_ver_bits(1-3) [OF f] by (simp add: sent_words_def pay_words_def hlen_def)
  moreover have "add_payload_hdr st c (mkbuf pre d post) =
      Some (c\<lparr>c_data_seq_num := c_data_seq_num c + 1\<rparr>, mkbuf p (net_words (sent_words st c ?len) @ d) post)"
    using pv(2,3) pay_ver_bits(1-3) [OF f] unfolding add_payload_hdr_def pay_ver_def [symmetric]
    by (cases ?L; cases ?F)
      (simp_all add: mkbuf_def pv(1) sent_words_def pay_words_def words_Cons hlen_def wr_at wr_at2 wr_at3 wr_at4 wr_at5
        net_words_def)
  ultimately show ?thesis by (intro exI [of _ p] exI [of _ ?len]) simp
qed

lemma CTBIT_htons: "CTBIT (htons v) \<longleftrightarrow> bit v 7"
proof -
  have "CTBIT w \<longleftrightarrow> bit w 15" for w
    using and_exp_eq_0_iff_not_bit [of w 15] by (simp add: CTBIT_def)
  moreover have "bit (htons v) 15 \<longleftrightarrow> bit v 7"
    by (auto simp: htons_def join16_def lo8_def hi8_def bit_simps dest: bit_imp_le_length)
  ultimately show ?thesis by simp
qed

section \<open>The header that is received\<close>

lemma receive_mk:
  "PAYLOAD_BUF + length bs \<le> length mem \<Longrightarrow>
   receive mem bs = Some (mkbuf (take PAYLOAD_BUF mem) bs (drop (PAYLOAD_BUF + length bs) mem))"
  by (simp add: receive_def wr_bytes_def mkbuf_def)

lemma hdr_word_mk: "i < length ws \<Longrightarrow> hdr_word (mkbuf pre (words_bytes ws @ d) post) i = Some (ws ! i)"
  using raw_words [of pre "length pre" i ws "d @ post"] by (simp add: hdr_word_def mkbuf_def)

lemma fix_hdr_mk:
  assumes "\<not> bit ver 7" "\<not> PSBIT ver"
  shows "fix_hdr (mkbuf pre (net_words (pay_words ver len tid cid ns nr 0) @ d) post) =
    Some (mkbuf pre (words_bytes (pay_words ver len tid cid ns nr 0) @ d) post)"
proof -
  let ?ws = "pay_words ver len tid cid ns nr 0"
  have w: "hdr_word (mkbuf pre (net_words ?ws @ d) post) 0 = Some (htons ver)"
    using raw_at [of pre "length pre" 0 "htons ver" "net_words (tl ?ws) @ d @ post"]
    by (simp add: hdr_word_def mkbuf_def pay_words_def words_Cons be16_le16)
  have n: "(6 + (if PSBIT ver then 2 else 0) + (if CLBIT ver then 2 else 0) + (if CFBIT ver then 4 else 0)) div 2 = length ?ws"
    using assms(2) by (simp add: pay_words_def)
  have s: "swaps (pre @ net_words ?ws @ d @ post) (length pre) (length ?ws) = Some (pre @ words_bytes ?ws @ d @ post)"
    by (rule swaps_words) simp
  show ?thesis
    unfolding fix_hdr_def w bind.bind_lunit Let_def ntohs_htons CTBIT_htons using assms(1) n s by (simp add: mkbuf_def)
qed

text \<open>A sequence number that is accepted is the expected one or is stored.\<close>

lemma judge_seq_ok:
  assumes "fst (judge_seq ns c) = 0"
  shows "judge_seq ns c = (0, if ns = c_data_seq_num c then c\<lparr>c_data_rec_seq_num := c_data_rec_seq_num c + 1, c_pnu := -1\<rparr>
    else c\<lparr>c_data_rec_seq_num := ns\<rparr>)"
proof -
  have "(if p then if a then (- EINVAL, z) else if b then (0, x) else (- EINVAL, z) else (0, y)) = (0 :: int, if \<not> p then y else x)"
    if "fst (if p then if a then (- EINVAL, z) else if b then (0, x) else (- EINVAL, z) else (0, y)) = 0"
    for p a b and x y z :: l2call using that by (cases p; cases a; cases b; simp)
  from this [OF assms [unfolded judge_seq_def Let_def]] show ?thesis unfolding judge_seq_def Let_def by simp
qed

text \<open>
  C24: round trip between two daemons. The data packet \<open>add_payload_hdr\<close> makes, with or without length and
  sequence fields, is attributed by the receiver to the tunnel and call it was sent for and passes
  \<open>check_payload\<close>. If its sequence number is acceptable to the receiver (\<open>judge_seq\<close>), \<open>expand_payload\<close> puts in front of
  the unchanged payload the full fourteen-byte header: flags and version, length, tunnel, call, Ns, Nr and offset 0. Ns and Nr are
  the sender's counter and the last number it received if the packet has sequence fields, and the receiver's own two numbers
  if not. The receiver counts on if Ns is equal to its own counter and stores Ns otherwise, and stores Nr.
\<close>

theorem payload_header_roundtrip:
  assumes snd: "pay_flags c" "length pre = PAYLOAD_HDR_LEN" "length d + PAYLOAD_HDR_LEN + PAYLOAD_BUF \<le> length mem"
      "length d + PAYLOAD_HDR_LEN < 65536"
    and ns: "ns = (if c_fbit c \<noteq> 0 \<or> c_ourfbit c \<noteq> 0 then c_data_seq_num c else c_data_rec_seq_num rcv)"
    and nr: "nr = (if c_fbit c \<noteq> 0 \<or> c_ourfbit c \<noteq> 0 then c_data_rec_seq_num c else c_data_seq_num rcv)"
    and seq: "fst (judge_seq ns rcv) = 0"
  shows "\<exists>b1 b2 b3 b4.
    add_payload_hdr st c (mkbuf pre d post) = Some (c\<lparr>c_data_seq_num := c_data_seq_num c + 1\<rparr>, b1) \<and>
    receive mem (sent_bytes b1) = Some b2 \<and> fix_hdr b2 = Some b3 \<and>
    extract_ids b3 = Some (uint (word_of_int (t_tid st) :: u16), uint (word_of_int (c_cid c) :: u16)) \<and>
    check_payload b3 sanity = Some 0 \<and>
    expand_payload b3 rcv = Some (0, b4,
      (if ns = c_data_seq_num rcv then rcv\<lparr>c_data_rec_seq_num := c_data_rec_seq_num rcv + 1, c_pnu := -1\<rparr>
       else rcv\<lparr>c_data_rec_seq_num := ns\<rparr>)\<lparr>c_pLr := uint nr\<rparr>) \<and>
    sent_bytes b4 = words_bytes [c_lbit c OR c_fbit c OR c_ourfbit c OR VER_L2TP,
      word_of_nat (if c_lbit c \<noteq> 0 then length (sent_bytes b1) else PAYLOAD_HDR_LEN + length d),
      word_of_int (t_tid st), word_of_int (c_cid c), ns, nr, 0] @ d"
proof -
  let ?ver = "pay_ver c" and ?F = "c_fbit c \<noteq> 0 \<or> c_ourfbit c \<noteq> 0"
  obtain p len where b1: "add_payload_hdr st c (mkbuf pre d post) =
      Some (c\<lparr>c_data_seq_num := c_data_seq_num c + 1\<rparr>, mkbuf p (net_words (sent_words st c len) @ d) post)"
      "len = 2 * length (sent_words st c len) + length d"
    using add_payload_hdr_sent [OF snd(1,2), of st d post] by (elim exE conjE) (rule that)
  define ws where "ws = sent_words st c len"
  note bits = pay_ver_bits [OF snd(1)]
  have lw: "length ws \<le> 6" "3 \<le> length ws" using bits by (auto simp: ws_def sent_words_def pay_words_def)
  have len: "len = 2 * length ws + length d" "len < 65536" using b1(2) snd(4) lw by (simp_all add: ws_def)
  define pr where "pr = take PAYLOAD_BUF mem"
  define po where "po = drop (PAYLOAD_BUF + (2 * length ws + length d)) mem"
  have lpr: "length pr = 10" using snd(3) by (simp add: pr_def)
  have b2: "receive mem (net_words ws @ d) = Some (mkbuf pr (net_words ws @ d) po)"
    using receive_mk [of "net_words ws @ d" mem] snd(3) lw by (simp add: pr_def po_def)
  have b3: "fix_hdr (mkbuf pr (net_words ws @ d) po) = Some (mkbuf pr (words_bytes ws @ d) po)"
    unfolding ws_def sent_words_def using bits by (intro fix_hdr_mk)
  let ?b3 = "mkbuf pr (words_bytes ws @ d) po"
  have w: "hdr_word ?b3 i = Some (ws ! i)" if "i < length ws" for i using that by (rule hdr_word_mk)
  have ol: "ob_len ?b3 = len" using len(1) by (simp add: mkbuf_def)
  have w0: "hdr_word ?b3 0 = Some ?ver" using lw(2) by (subst w) (auto simp: ws_def sent_words_def pay_words_def)
  have "(if CLBIT ?ver then 3 else 2) < length ws" "ws ! (if CLBIT ?ver then 2 else 1) = word_of_int (t_tid st)"
    "ws ! (if CLBIT ?ver then 3 else 2) = word_of_int (c_cid c)" "(if CLBIT ?ver then 2 else 1) < length ws"
    by (simp_all add: ws_def sent_words_def pay_words_def numeral_2_eq_2 numeral_3_eq_3)
  then have ids: "extract_ids ?b3 = Some (uint (word_of_int (t_tid st) :: u16), uint (word_of_int (c_cid c) :: u16))"
    by (simp only: extract_ids_def w0 bind.bind_lunit w)
  obtain hl where w1: "hdr_word ?b3 1 = Some hl" "CLBIT ?ver \<Longrightarrow> unat hl = len"
    using w [of 1] lw(2) len(2) by (auto simp: ws_def sent_words_def pay_words_def)
  have lf: "6 + (if CLBIT ?ver then 2 else 0) + (if CFBIT ?ver then 4 else 0) = 2 * length ws"
    using bits(3) by (simp add: ws_def sent_words_def pay_words_def)
  have chk: "check_payload ?b3 sanity = Some 0"
    unfolding check_payload_def w0 w1(1) ol bind.bind_lunit Let_def
    using bits(3-5) w1(2) lf len(1) lw(2) by auto
  let ?full = "full_words ?ver (word_of_nat len) (word_of_int (t_tid st)) (word_of_int (c_cid c)) (c_data_seq_num c) (c_data_rec_seq_num c) 0 rcv"
  obtain k tot where e: "expand_hdr ?b3 rcv = Some (0, mkbuf (take (length pr - 2 * k) pr) (words_bytes (?full tot) @ d) po)"
    and tot: "tot = PAYLOAD_HDR_LEN + length d"
  proof -
    define k where "k = (if CLBIT ?ver then 0 else 1) + (if CFBIT ?ver then 0 else 2) + (if PSBIT ?ver then 0 else 1 :: nat)"
    have b: "ob_mem ?b3 = pr @ words_bytes (sent_words st c len) @ d @ po" "ob_start ?b3 = length pr"
      by (simp_all add: mkbuf_def ws_def)
    have k: "length ws + k = 7" using bits(3) by (simp add: ws_def sent_words_def pay_words_def k_def)
    have "length pr - 2 * k = length (take (length pr - 2 * k) pr)" by simp
    moreover have "len + 2 * k = length (words_bytes (?full (len + 2 * k)) @ d)" using k len(1) by (simp add: full_words_def)
    ultimately have "expand_hdr ?b3 rcv = Some (0, mkbuf (take (length pr - 2 * k) pr) (words_bytes (?full (len + 2 * k)) @ d) po)"
      using expand_hdr_words [OF b [unfolded sent_words_def], where c = rcv] lpr ol by (simp add: k_def mkbuf_def)
    moreover have "len + 2 * k = PAYLOAD_HDR_LEN + length d" using k len(1) by simp
    ultimately show ?thesis by (rule that)
  qed
  let ?b4 = "mkbuf (take (length pr - 2 * k) pr) (words_bytes (?full tot) @ d) po"
  have full: "?full tot = [?ver, word_of_nat (if c_lbit c \<noteq> 0 then len else tot), word_of_int (t_tid st), word_of_int (c_cid c), ns, nr, 0]"
    using bits(1-3) by (simp add: full_words_def ns nr)
  have w45: "hdr_word ?b4 4 = Some ns" "hdr_word ?b4 5 = Some nr"
    unfolding full by (subst hdr_word_mk; simp)+
  have j: "judge_seq ns rcv = (0, if ns = c_data_seq_num rcv then rcv\<lparr>c_data_rec_seq_num := c_data_rec_seq_num rcv + 1, c_pnu := -1\<rparr>
       else rcv\<lparr>c_data_rec_seq_num := ns\<rparr>)"
    using seq by (rule judge_seq_ok)
  have x: "expand_payload ?b3 rcv = Some (0, ?b4, (if ns = c_data_seq_num rcv
       then rcv\<lparr>c_data_rec_seq_num := c_data_rec_seq_num rcv + 1, c_pnu := -1\<rparr> else rcv\<lparr>c_data_rec_seq_num := ns\<rparr>)\<lparr>c_pLr := uint nr\<rparr>)"
    using e by (simp add: expand_payload_def w45 j)
  let ?b1 = "mkbuf p (net_words ws @ d) post" and ?b2 = "mkbuf pr (net_words ws @ d) po"
  have s1: "sent_bytes ?b1 = net_words ws @ d" "sent_bytes ?b4 = words_bytes (?full tot) @ d" by (simp_all add: sent_mkbuf)
  then have r: "receive mem (sent_bytes ?b1) = Some ?b2" and l: "length (sent_bytes ?b1) = len" using b2 len(1) by simp_all
  have s4: "sent_bytes ?b4 = words_bytes [c_lbit c OR c_fbit c OR c_ourfbit c OR VER_L2TP,
      word_of_nat (if c_lbit c \<noteq> 0 then length (sent_bytes ?b1) else PAYLOAD_HDR_LEN + length d),
      word_of_int (t_tid st), word_of_int (c_cid c), ns, nr, 0] @ d"
    unfolding l by (simp only: sent_mkbuf full [unfolded pay_ver_def tot] pay_ver_def tot)
  note b = b1(1) [folded ws_def]
  show ?thesis
    by (intro exI [of _ ?b1] exI [of _ ?b2] exI [of _ ?b3] exI [of _ ?b4] conjI) (fact b r b3 ids chk x s4)+
qed

lemma payload_header_roundtrip_witness:
  "\<exists>b1 b2 b3 b4.
    add_payload_hdr ex_l2tp (zero_call\<lparr>c_fbit := 0x0800, c_cid := 7, c_data_rec_seq_num := 5\<rparr>)
      (mkbuf (replicate 14 0) [0xC0, 0x21] (replicate 4080 0)) =
      Some (zero_call\<lparr>c_fbit := 0x0800, c_cid := 7, c_data_rec_seq_num := 5, c_data_seq_num := 1\<rparr>, b1) \<and>
    receive (replicate 4096 0) (sent_bytes b1) = Some b2 \<and> fix_hdr b2 = Some b3 \<and>
    expand_payload b3 zero_call = Some (0, b4, zero_call\<lparr>c_data_rec_seq_num := 1, c_pnu := -1, c_pLr := 5\<rparr>) \<and>
    sent_bytes b4 = words_bytes [0x0802, 16, word_of_int (t_tid ex_l2tp), 7, 0, 5, 0] @ [0xC0, 0x21]"
  using payload_header_roundtrip [of "zero_call\<lparr>c_fbit := 0x0800, c_cid := 7, c_data_rec_seq_num := 5\<rparr>" "replicate 14 0" "[0xC0, 0x21]"
      "replicate 4096 0" 0 zero_call 5 ex_l2tp "replicate 4080 0" True]
  by (simp add: pay_flags_def zero_call_def judge_seq_def Let_def) blast

section \<open>Framing\<close>

lemma PPP_FCS_fold: "foldl PPP_FCS fcs bs = pppFCS16 fcs bs"
  by (induction bs arbitrary: fcs) (simp_all add: PPP_FCS_def ppp_crc16_table_def)

definition stuffed :: "byte_buf \<Rightarrow> byte_buf" where
  "stuffed bs = concat (map (\<lambda>e. if needs_escape e then [PPP_ESCAPE, e XOR 0x20] else [e]) bs)"

lemma stuff_stuffed: "stuff out bs = Some w \<Longrightarrow> w = out @ stuffed bs"
proof (induction bs arbitrary: out)
  case (Cons e bs)
  then have "stuff (out @ (if needs_escape e then [PPP_ESCAPE, e XOR 0x20] else [e])) bs = Some w"
    by (simp split: if_splits)
  from Cons.IH [OF this] show ?case by (simp add: stuffed_def)
qed (simp add: stuffed_def)

lemma xor_not_flag: "needs_escape e \<Longrightarrow> e XOR 0x20 \<noteq> PPP_FLAG \<and> e XOR 0x20 \<noteq> PPP_ESCAPE"
proof -
  assume n: "needs_escape e"
  have "e = (e XOR 0x20) XOR 0x20" by (simp add: xor.assoc)
  then have "e XOR 0x20 = x \<Longrightarrow> e = x XOR 0x20" for x by metis
  from this [of PPP_FLAG] this [of PPP_ESCAPE] n show ?thesis by (auto simp: needs_escape_def)
qed

text \<open>One stuffed byte, read back into a buffer with room.\<close>

lemma read_stuffed_byte:
  assumes "ob_start b + ob_len b < length (ob_mem b)" "ob_len b < MAX_RECV_SIZE"
  shows "read_loop ((if needs_escape e then [PPP_ESCAPE, e XOR 0x20] else [e]) @ rest) rs 0 n b =
    read_loop rest rs 0 n (b\<lparr>ob_mem := (ob_mem b)[ob_start b + ob_len b := e], ob_len := ob_len b + 1\<rparr>)"
proof (cases "needs_escape e")
  case True
  then show ?thesis using assms xor_not_flag [OF True] by (simp add: arr_upd_def xor.assoc)
next
  case False
  then show ?thesis using assms by (simp add: arr_upd_def needs_escape_def)
qed

lemma read_stuffed:
  assumes "length m + length bs < MAX_RECV_SIZE + 1" "length bs \<le> length junk"
  shows "read_loop (stuffed bs @ rest) rs 0 n (mkbuf pre m junk) = read_loop rest rs 0 n (mkbuf pre (m @ bs) (drop (length bs) junk))"
  using assms
proof (induction bs arbitrary: m junk)
  case Nil
  then show ?case by (simp add: stuffed_def)
next
  case (Cons e bs)
  then obtain j junk' where j: "junk = j # junk'" by (cases junk) auto
  have "read_loop (stuffed (e # bs) @ rest) rs 0 n (mkbuf pre m junk) = read_loop (stuffed bs @ rest) rs 0 n (mkbuf pre (m @ [e]) junk')"
    using read_stuffed_byte [of "mkbuf pre m junk" e "stuffed bs @ rest" rs n] Cons.prems j
    by (simp add: stuffed_def mkbuf_def list_update_append)
  then show ?case using Cons j by simp
qed

lemma write_all_ok: "write_all bs ws = (out, True) \<Longrightarrow> out = bs"
  by (induction bs ws arbitrary: out rule: write_all.induct) (auto split: if_splits prod.splits)

lemma read_flag_empty: "read_loop (PPP_FLAG # rest) rs 0 n (mkbuf pre [] junk) = read_loop rest rs 0 n (mkbuf pre [] junk)"
  by (simp add: mkbuf_def)

lemma stuff_Some: "length out + 2 * length bs \<le> MAX_RECV_SIZE - 4 \<Longrightarrow> \<exists>w. stuff out bs = Some w"
  by (induction bs arbitrary: out) auto

lemma write_all_True: "Failed \<notin> set ws \<Longrightarrow> \<exists>out. write_all bs ws = (out, True)"
  by (induction bs ws rule: write_all.induct) (auto split: prod.splits)

text \<open>\<open>write_packet\<close> on a packet without offset: two bytes of check sequence follow the data.\<close>

lemma write_packet_eq:
  assumes b: "ob_mem b = pre @ words_bytes ws @ d @ x # y # post" "ob_start b = length pre" "ob_len b = PAYLOAD_HDR_LEN + length d"
      "length ws = 7" "ws ! 6 = 0" "length d < 2 ^ 64" and fd: "0 \<le> c_fd c"
  shows "\<exists>f1 f2. write_packet b c answers =
      (case stuff [PPP_FLAG] (d @ [f1, f2]) of
          None \<Rightarrow> Some (- EINVAL, c, [])
        | Some w \<Rightarrow> (case write_all (w @ [PPP_FLAG]) answers of (out, ok) \<Rightarrow>
            if ok then Some (0, c, out) else Some (- EIO, c\<lparr>c_needclose := -1, c_fd := -1\<rparr>, out)))"
proof -
  have o: "hdr_word b 6 = Some 0"
    using raw_words [of pre "length pre" 6 ws "d @ x # y # post"] b(1,2,4,5) by (simp add: hdr_word_def)
  let ?b = "b\<lparr>ob_start := length pre + 14, ob_len := length d\<rparr>"
  have len: "nat ((int (ob_len b) - int (PAYLOAD_HDR_LEN + unat (0 :: u16))) mod 2 ^ 64) = length d"
    using b(3,6) by simp
  define fcs where "fcs = foldl PPP_FCS 0xffff d XOR 0xffff"
  have "rd_bytes ((pre @ words_bytes ws) @ d @ x # y # post) (length pre + 14) (length d) = Some d"
    using b(4) by (intro rd_mid) simp_all
  moreover have "wr_bytes ((pre @ words_bytes ws @ d) @ [x, y] @ post) (length pre + 14 + length d) [lo8 fcs, hi8 fcs] =
      Some ((pre @ words_bytes ws @ d) @ [lo8 fcs, hi8 fcs] @ post)"
    using b(4) by (intro wr_mid) simp_all
  ultimately have f: "add_fcs ?b = Some (?b\<lparr>ob_mem := pre @ words_bytes ws @ d @ [lo8 fcs, hi8 fcs] @ post, ob_len := length d + 2\<rparr>)"
    using b(1) by (simp add: add_fcs_def fcs_def Let_def)
  have r: "rd_bytes (pre @ words_bytes ws @ d @ [lo8 fcs, hi8 fcs] @ post) (length pre + 14) (length d + 2) = Some (d @ [lo8 fcs, hi8 fcs])"
    using rd_mid [of "pre @ words_bytes ws" "length pre + 14" "d @ [lo8 fcs, hi8 fcs]" "length d + 2" post] b(4) by simp
  show ?thesis
    by (rule exI [of _ "lo8 fcs"], rule exI [of _ "hi8 fcs"], unfold write_packet_def o bind.bind_lunit Let_def len)
      (use b(2) f r fd in simp)
qed

text \<open>What \<open>write_packet\<close> hands to the PPP daemon.\<close>

lemma write_packet_out:
  assumes b: "ob_mem b = pre @ words_bytes ws @ d @ x # y # post" "ob_start b = length pre" "ob_len b = PAYLOAD_HDR_LEN + length d"
      "length ws = 7" "ws ! 6 = 0" "length d < 2 ^ 64"
    and w: "write_packet b c answers = Some (0, c', out)"
  shows "c' = c \<and> (\<exists>f1 f2. out = [PPP_FLAG] @ stuffed (d @ [f1, f2]) @ [PPP_FLAG])"
proof -
  have fd: "0 \<le> c_fd c" using w by (simp add: write_packet_def split: if_splits)
  obtain f1 f2 where e: "write_packet b c answers =
      (case stuff [PPP_FLAG] (d @ [f1, f2]) of
          None \<Rightarrow> Some (- EINVAL, c, [])
        | Some w \<Rightarrow> (case write_all (w @ [PPP_FLAG]) answers of (out, ok) \<Rightarrow>
            if ok then Some (0, c, out) else Some (- EIO, c\<lparr>c_needclose := -1, c_fd := -1\<rparr>, out)))"
    using write_packet_eq [OF b fd] by blast
  then obtain w' where w': "stuff [PPP_FLAG] (d @ [f1, f2]) = Some w'" "write_all (w' @ [PPP_FLAG]) answers = (out, True)" "c' = c"
    using w by (auto split: option.splits prod.splits if_splits)
  then show ?thesis using stuff_stuffed [OF w'(1)] write_all_ok [OF w'(2)] by auto
qed

text \<open>
  C34: round trip of the framing towards the PPP daemon. What \<open>write_packet\<close> writes for a packet, in as many
  pieces as the device takes, \<open>read_packet\<close> reads back as the same bytes: escapes are undone and the
  check sequence is cut off.
\<close>

theorem ppp_framing_roundtrip:
  assumes b: "ob_mem b = pre @ words_bytes ws @ d @ x # y # post" "ob_start b = length pre" "ob_len b = PAYLOAD_HDR_LEN + length d"
      "length ws = 7" "ws ! 6 = 0"
    and d: "d \<noteq> []" "length d + 2 \<le> length junk" "length junk \<le> MAX_RECV_SIZE - PAYLOAD_HDR_LEN"
    and w: "write_packet b c answers = Some (0, c', out)"
  shows "\<exists>b'. read_packet out [] (mkbuf hdr [] junk) = Some (int (length d), [], [], b') \<and> sent_bytes b' = d \<and> c' = c"
proof -
  have "length d < 2 ^ 64" using d(2,3) by simp
  from write_packet_out [OF b this w] obtain f1 f2 where
    out: "out = PPP_FLAG # stuffed (d @ [f1, f2]) @ [PPP_FLAG]" and c': "c' = c" by auto
  have "read_packet out [] (mkbuf hdr [] junk) = read_loop (stuffed (d @ [f1, f2]) @ [PPP_FLAG]) [] 0 0 (mkbuf hdr [] junk)"
    unfolding read_packet_def out by (rule read_flag_empty)
  also have "\<dots> = read_loop [PPP_FLAG] [] 0 0 (mkbuf hdr (d @ [f1, f2]) (drop (length d + 2) junk))"
    using read_stuffed [of "[]" "d @ [f1, f2]" junk "[PPP_FLAG]" "[]" 0 hdr] d by simp
  also have "\<dots> = Some (int (length d), [], [], mkbuf hdr d ([f1, f2] @ drop (length d + 2) junk))"
    by (simp add: mkbuf_def)
  finally show ?thesis using c' by (simp add: sent_mkbuf)
qed

definition ex_words :: "u16 list" where "ex_words = [2, 0, 7, 9, 0, 0, 0]"

definition ex_packet :: obuf where
  "ex_packet = mkbuf [0, 0] (words_bytes ex_words @ [0x7e, 0x21]) ([0, 0] @ replicate 100 0)"

lemma ppp_framing_roundtrip_witness:
  "\<exists>out b'. write_packet ex_packet (zero_call\<lparr>c_fd := 3\<rparr>) [Wrote 1, Again] = Some (0, zero_call\<lparr>c_fd := 3\<rparr>, out) \<and>
     read_packet out [] (mkbuf (replicate 14 0) [] (replicate 4080 0)) = Some (2, [], [], b') \<and> sent_bytes b' = [0x7e, 0x21]"
proof -
  have b: "ob_mem ex_packet = [0, 0] @ words_bytes ex_words @ [0x7e, 0x21] @ 0 # 0 # replicate 100 0"
    "ob_start ex_packet = length [0, 0 :: u8]" "ob_len ex_packet = PAYLOAD_HDR_LEN + length [0x7e, 0x21 :: u8]"
    "length ex_words = 7" "ex_words ! 6 = 0"
    by (simp_all add: ex_packet_def mkbuf_def ex_words_def)
  have small: "length [0x7e, 0x21 :: u8] < 2 ^ 64" "0 \<le> c_fd (zero_call\<lparr>c_fd := 3\<rparr>)" by simp_all
  obtain f1 f2 where e: "write_packet ex_packet (zero_call\<lparr>c_fd := 3\<rparr>) [Wrote 1, Again] =
      (case stuff [PPP_FLAG] ([0x7e, 0x21] @ [f1, f2]) of
          None \<Rightarrow> Some (- EINVAL, zero_call\<lparr>c_fd := 3\<rparr>, [])
        | Some w \<Rightarrow> (case write_all (w @ [PPP_FLAG]) [Wrote 1, Again] of (out, ok) \<Rightarrow>
            if ok then Some (0, zero_call\<lparr>c_fd := 3\<rparr>, out)
            else Some (- EIO, (zero_call\<lparr>c_fd := 3\<rparr>)\<lparr>c_needclose := -1, c_fd := -1\<rparr>, out)))"
    using write_packet_eq [OF b, of "zero_call\<lparr>c_fd := 3\<rparr>" "[Wrote 1, Again]"] small by blast
  obtain w where "stuff [PPP_FLAG] ([0x7e, 0x21] @ [f1, f2]) = Some w" using stuff_Some [of "[PPP_FLAG]" "[0x7e, 0x21] @ [f1, f2]"] by auto
  moreover have "\<exists>out. write_all (w @ [PPP_FLAG]) [Wrote 1, Again] = (out, True)" by (rule write_all_True) simp
  then obtain out where "write_all (w @ [PPP_FLAG]) [Wrote 1, Again] = (out, True)" by blast
  ultimately have o: "write_packet ex_packet (zero_call\<lparr>c_fd := 3\<rparr>) [Wrote 1, Again] = Some (0, zero_call\<lparr>c_fd := 3\<rparr>, out)"
    using e by simp
  then show ?thesis
    using ppp_framing_roundtrip [OF b, where junk = "replicate 4080 0" and hdr = "replicate 14 0", OF _ _ _ o] by auto
qed

section \<open>Where the packet is trusted too much\<close>

text \<open>
  Error behaviour (a defect). The offset field of a received packet is not compared with its length: if
  it points past the packet, the length \<open>write_packet\<close> computes wraps around, and \<open>add_fcs\<close> reads
  beyond every buffer.
\<close>

theorem offset_overrun:
  assumes "0 \<le> c_fd c" "hdr_word b 6 = Some off" "ob_len b < PAYLOAD_HDR_LEN + unat off" "length (ob_mem b) < 2 ^ 63"
  shows "write_packet b c answers = None"
proof -
  define n where "n = PAYLOAD_HDR_LEN + unat off"
  have "unat off < 65536" by simp
  with assms(3) have n: "ob_len b < n" "n < 131072" unfolding n_def by linarith+
  have "(int (ob_len b) - int n + 2 ^ 64) mod 2 ^ 64 = int (ob_len b) - int n + 2 ^ 64"
    using n by (intro mod_pos_pos_trivial) simp_all
  then have "(int (ob_len b) - int n) mod 2 ^ 64 = int (ob_len b) - int n + 2 ^ 64" by simp
  then have "nat ((int (ob_len b) - int n) mod 2 ^ 64) > 2 ^ 63" using n by simp
  then have "rd_bytes (ob_mem b) (ob_start b + n) (nat ((int (ob_len b) - int n) mod 2 ^ 64)) = None"
    using assms(4) unfolding rd_bytes_def by simp
  then show ?thesis using assms(1,2) by (simp add: write_packet_def add_fcs_def Let_def del: of_nat_add flip: n_def)
qed

definition ex_offset :: obuf where
  "ex_offset = mkbuf [] (words_bytes [0x0202, 0, 7, 9, 0, 0, 100] @ [0x21]) (replicate 30 0)"

lemma offset_overrun_witness: "write_packet ex_offset (zero_call\<lparr>c_fd := 3\<rparr>) [] = None"
proof (rule offset_overrun [where off = 100])
  show "hdr_word ex_offset 6 = Some 100"
    using raw_words [of "[]" 0 6 "[0x0202, 0, 7, 9, 0, 0, 100]" "[0x21] @ replicate 30 0"]
    by (simp add: ex_offset_def mkbuf_def hdr_word_def)
qed (simp_all add: ex_offset_def mkbuf_def)

lemma read_plain_overrun:
  assumes "\<forall>ch\<in>set bs. ch \<noteq> PPP_FLAG \<and> ch \<noteq> PPP_ESCAPE" "length junk < length bs" "length m + length junk < MAX_RECV_SIZE"
  shows "read_loop (bs @ rest) rs 0 n (mkbuf hdr m junk) = None"
  using assms
proof (induction bs arbitrary: m junk)
  case (Cons ch bs)
  show ?case
  proof (cases junk)
    case Nil
    then show ?thesis using Cons.prems by (simp add: mkbuf_def arr_upd_def)
  next
    case (Cons j junk')
    then show ?thesis using Cons.IH [of junk' "m @ [ch]"] Cons.prems
      by (simp add: mkbuf_def arr_upd_def list_update_append)
  qed
qed simp

text \<open>
  Error behaviour (a defect). \<open>read_packet\<close> compares the length of the packet with the size of the whole
  buffer although the packet starts behind the space for the header: a PPP daemon that sends more than
  4082 bytes without a flag makes it write past the end of the buffer.
\<close>

theorem read_packet_overrun:
  assumes "new_payload True mem = Some b" "length mem = MAX_RECV_SIZE"
    and "\<forall>ch\<in>set bs. ch \<noteq> PPP_FLAG \<and> ch \<noteq> PPP_ESCAPE" "MAX_RECV_SIZE - PAYLOAD_HDR_LEN < length bs"
  shows "read_packet (PPP_FLAG # bs @ rest) rs b = None"
proof -
  have "b = mkbuf (take 14 mem) [] (drop 14 mem)" using assms(1,2) by (simp add: new_payload_def mkbuf_def)
  then show ?thesis
    using read_flag_empty [of "bs @ rest" rs 0 "take 14 mem" "drop 14 mem"] read_plain_overrun [of bs "drop 14 mem" "[]" rest rs 0 "take 14 mem"] assms
    by (simp add: read_packet_def)
qed

lemma read_packet_overrun_witness:
  "read_packet (PPP_FLAG # replicate 4083 0x41 @ []) [] \<lparr>ob_mem = replicate 4096 0, ob_start = 14, ob_len = 0\<rparr> = None"
  by (rule read_packet_overrun [where mem = "replicate 4096 0"]) (simp_all add: new_payload_def)

end
