(* ===== verification/Scheduler.thy ===== *)
theory Scheduler
  imports Prelude "HOL-Library.Multiset"
begin

text \<open>
  The event queue of \<open>xl2tpd\<close> (\<open>scheduler.c\<close>, \<open>scheduler.h\<close>): a list of timed events in order of
  increasing time. The clock is an oracle: \<open>clock s n\<close> is what the \<open>n\<close>-th call of
  \<open>gettimeofday\<close> delivers. Events are of an arbitrary type, and the state is an extensible record: the daemon's
  state adds its own fields, which the functions run by the queue may change.
\<close>

section \<open>Points of time\<close>

datatype timeval = TV (tv_sec: int) (tv_usec: int)

text \<open>\<open>TVLESSEQ\<close> and \<open>TVLESS\<close>\<close>

definition TVLESSEQ :: "timeval \<Rightarrow> timeval \<Rightarrow> bool" where
  "TVLESSEQ a b \<longleftrightarrow> (if tv_sec a = tv_sec b then tv_usec a \<le> tv_usec b else tv_sec a < tv_sec b)"

definition TVLESS :: "timeval \<Rightarrow> timeval \<Rightarrow> bool" where
  "TVLESS a b \<longleftrightarrow> (if tv_sec a = tv_sec b then tv_usec a < tv_usec b else tv_sec a < tv_sec b)"

instantiation timeval :: linorder
begin

definition less_eq_timeval :: "timeval \<Rightarrow> timeval \<Rightarrow> bool" where "less_eq_timeval = TVLESSEQ"
definition less_timeval :: "timeval \<Rightarrow> timeval \<Rightarrow> bool" where "less_timeval = TVLESS"

instance
proof
  fix a b c :: timeval
  show "a < b \<longleftrightarrow> a \<le> b \<and> \<not> b \<le> a" by (auto simp: less_eq_timeval_def less_timeval_def TVLESSEQ_def TVLESS_def)
  show "a \<le> a" by (simp add: less_eq_timeval_def TVLESSEQ_def)
  show "a \<le> b \<Longrightarrow> b \<le> c \<Longrightarrow> a \<le> c" by (auto simp: less_eq_timeval_def TVLESSEQ_def split: if_splits)
  show "a \<le> b \<Longrightarrow> b \<le> a \<Longrightarrow> a = b"
    by (rule timeval.expand) (simp add: less_eq_timeval_def TVLESSEQ_def split: if_splits)
  show "a \<le> b \<or> b \<le> a" by (auto simp: less_eq_timeval_def TVLESSEQ_def)
qed

end

lemma TVLESS_less [simp]: "TVLESS a b \<longleftrightarrow> a < b" "TVLESSEQ a b \<longleftrightarrow> a \<le> b"
  by (simp_all add: less_timeval_def less_eq_timeval_def)

text \<open>Microseconds.\<close>

definition micros :: "timeval \<Rightarrow> int" where "micros t = 1000000 * tv_sec t + tv_usec t"

definition normal :: "timeval \<Rightarrow> bool" where "normal t \<longleftrightarrow> 0 \<le> tv_usec t \<and> tv_usec t < 1000000"

text \<open>What \<open>schedule\<close> makes of normal times: a whole second can be left in the microseconds.\<close>

definition seminormal :: "timeval \<Rightarrow> bool" where "seminormal t \<longleftrightarrow> 0 \<le> tv_usec t \<and> tv_usec t \<le> 1000000"

section \<open>The queue\<close>

text \<open>An entry's address is a number that is never used again.\<close>

record 'e schedule_entry =
  e_ptr :: nat
  e_tv :: timeval
  e_fn :: 'e

record 'e sched =
  events :: "'e schedule_entry list"
  next_ptr :: nat
  clock :: "nat \<Rightarrow> timeval"
  readings :: nat

definition gettimeofday :: "('e, 'z) sched_scheme \<Rightarrow> timeval \<times> ('e, 'z) sched_scheme" where
  "gettimeofday s = (clock s (readings s), s\<lparr>readings := readings s + 1\<rparr>)"

definition add_time :: "timeval \<Rightarrow> timeval \<Rightarrow> timeval" where
  "add_time now diff =
     (let sec = tv_sec now + tv_sec diff; usec = tv_usec now + tv_usec diff
      in if usec > 1000000 then TV (sec + 1) (usec - 1000000) else TV sec usec)"

text \<open>Behind the last entry that is not later.\<close>

fun insert_entry :: "'e schedule_entry \<Rightarrow> 'e schedule_entry list \<Rightarrow> 'e schedule_entry list" where
  "insert_entry e [] = [e]"
| "insert_entry e (p # ps) = (if TVLESS (e_tv e) (e_tv p) then e # p # ps else p # insert_entry e ps)"

definition schedule :: "timeval \<Rightarrow> 'e \<Rightarrow> ('e, 'z) sched_scheme \<Rightarrow> nat \<times> ('e, 'z) sched_scheme" where
  "schedule diff f s =
     (case gettimeofday s of (now, s) \<Rightarrow>
        (next_ptr s, s\<lparr>events := insert_entry \<lparr>e_ptr = next_ptr s, e_tv = add_time now diff, e_fn = f\<rparr> (events s),
                       next_ptr := next_ptr s + 1\<rparr>))"

definition aschedule :: "timeval \<Rightarrow> 'e \<Rightarrow> ('e, 'z) sched_scheme \<Rightarrow> nat \<times> ('e, 'z) sched_scheme" where
  "aschedule tv f s =
     (case gettimeofday s of (now, s) \<Rightarrow>
        let usec = tv_usec tv - tv_usec now
        in schedule (if usec < 0 then TV (tv_sec tv - 1 - tv_sec now) (usec + 1000000) else TV (tv_sec tv - tv_sec now) usec) f s)"

fun remove_entry :: "nat \<Rightarrow> 'e schedule_entry list \<Rightarrow> 'e schedule_entry list" where
  "remove_entry a [] = []"
| "remove_entry a (p # ps) = (if e_ptr p = a then ps else p # remove_entry a ps)"

definition deschedule :: "nat option \<Rightarrow> ('e, 'z) sched_scheme \<Rightarrow> ('e, 'z) sched_scheme" where
  "deschedule a s = (case a of None \<Rightarrow> s | Some a \<Rightarrow> s\<lparr>events := remove_entry a (events s)\<rparr>)"

section \<open>Processing\<close>

text \<open>The time until the next event, as \<open>process_schedule\<close> hands it to \<open>select\<close>.\<close>

definition wait_time :: "timeval \<Rightarrow> timeval \<Rightarrow> timeval" where
  "wait_time tv now =
     (let sec = tv_sec tv - tv_sec now; usec = tv_usec tv - tv_usec now;
          t = (if usec < 0 then TV (sec - 1) (usec + 1000000) else TV sec usec)
      in if tv_sec t \<le> 0 \<and> tv_usec t \<le> 0 then TV 1 0 else t)"

text \<open>
  \<open>run\<close> executes an event on the state, with its entry already taken out of the queue; the loop need not
  end if the events run schedule others that are due at once.
\<close>

partial_function (option) process_schedule ::
  "('e \<Rightarrow> ('e, 'z) sched_scheme \<Rightarrow> ('e, 'z) sched_scheme option) \<Rightarrow> ('e, 'z) sched_scheme \<Rightarrow>
   (timeval option \<times> ('e, 'z) sched_scheme) option" where
  "process_schedule run s =
     (case events s of
        [] \<Rightarrow> Some (None, s)
      | p # ps \<Rightarrow> (case gettimeofday s of (now, s) \<Rightarrow>
          if TVLESSEQ (e_tv p) now then do {
            s \<leftarrow> run (e_fn p) (s\<lparr>events := ps\<rparr>);
            process_schedule run s }
          else Some (Some (wait_time (e_tv p) now), s)))"

section \<open>A queue of timed events\<close>

text \<open>
  What the daemon expects of its queue: an inserted event is in it, and the next one is one of the earliest.
\<close>

locale timer_queue =
  fixes due :: "'v \<Rightarrow> 'k::linorder" and ins :: "'v \<Rightarrow> 'q \<Rightarrow> 'q" and pop :: "'q \<Rightarrow> ('v \<times> 'q) option"
    and content :: "'q \<Rightarrow> 'v multiset" and ok :: "'q \<Rightarrow> bool"
  assumes ok_ins: "ok q \<Longrightarrow> ok (ins v q)"
    and content_ins: "ok q \<Longrightarrow> content (ins v q) = add_mset v (content q)"
    and pop_None: "pop q = None \<Longrightarrow> content q = {#}"
    and pop_Some: "ok q \<Longrightarrow> pop q = Some (v, q') \<Longrightarrow>
      ok q' \<and> content q = add_mset v (content q') \<and> (\<forall>x\<in>#content q'. due v \<le> due x)"
begin

lemma none_due: "ok q \<Longrightarrow> pop q = Some (v, q') \<Longrightarrow> t < due v \<Longrightarrow> x \<in># content q \<Longrightarrow> t < due x"
  using pop_Some [of q v q'] by (auto dest: less_le_trans)

lemma in_order: "ok q \<Longrightarrow> pop q = Some (v, q') \<Longrightarrow> pop q' = Some (w, q'') \<Longrightarrow> due v \<le> due w"
  using pop_Some [of q v q'] pop_Some [of q' w q''] by auto

lemma later_event_waits:
  assumes "ok q" "pop q = Some (v, q')" "due v \<le> due w"
  shows "\<exists>u q''. pop (ins w q) = Some (u, q'') \<and> due u = due v"
proof (cases "pop (ins w q)")
  case None
  then show ?thesis using pop_None [OF None] content_ins [OF assms(1)] by simp
next
  case (Some p)
  then obtain u q'' where p: "pop (ins w q) = Some (u, q'')" by (cases p) simp
  note u = pop_Some [OF ok_ins [OF assms(1)] p] and v = pop_Some [OF assms(1,2)] and c = content_ins [OF assms(1), of w]
  have "v \<in># content (ins w q)" using v c by simp
  moreover have "u \<in># add_mset w (content q)" using u c by (metis union_single_eq_member add_mset_add_single union_commute)
  ultimately have "due u \<le> due v" "due v \<le> due u" using u v assms(3) by auto
  then show ?thesis using p by auto
qed

end

definition pop_entry :: "'e schedule_entry list \<Rightarrow> ('e schedule_entry \<times> 'e schedule_entry list) option" where
  "pop_entry es = (case es of [] \<Rightarrow> None | p # ps \<Rightarrow> Some (p, ps))"

definition by_time :: "'e schedule_entry list \<Rightarrow> bool" where
  "by_time es \<longleftrightarrow> sorted (map e_tv es)"

lemma mset_insert_entry: "mset (insert_entry e es) = add_mset e (mset es)"
  by (induction es) (simp_all add: add_mset_commute)

lemma set_insert_entry: "set (insert_entry e es) = insert e (set es)"
  by (induction es) auto

lemma by_time_insert: "by_time es \<Longrightarrow> by_time (insert_entry e es)"
  by (induction es) (auto simp: by_time_def set_insert_entry)

lemma pop_entry_Some: "pop_entry q = Some (v, q') \<longleftrightarrow> q = v # q'"
  by (cases q) (auto simp: pop_entry_def)

interpretation eq: timer_queue e_tv insert_entry pop_entry mset by_time
proof
  show "by_time q \<Longrightarrow> pop_entry q = Some (v, q') \<Longrightarrow>
      by_time q' \<and> mset q = add_mset v (mset q') \<and> (\<forall>x\<in>#mset q'. e_tv v \<le> e_tv x)" for q v q' 
    by (auto simp: pop_entry_Some by_time_def)
qed (simp_all add: by_time_insert mset_insert_entry pop_entry_def split: list.splits)

lemma distinct_map_insert_entry:
  "distinct (map e_ptr (insert_entry e es)) \<longleftrightarrow> distinct (map e_ptr es) \<and> e_ptr e \<notin> e_ptr ` set es"
  by (induction es) (auto simp: set_insert_entry)

text \<open>Equal times: first come, first served.\<close>

lemma insert_entry_split:
  assumes "by_time es"
  shows "\<exists>xs ys. es = xs @ ys \<and> insert_entry e es = xs @ e # ys \<and> (\<forall>x\<in>set xs. e_tv x \<le> e_tv e) \<and> (\<forall>y\<in>set ys. e_tv e < e_tv y)"
  using assms
proof (induction es)
  case (Cons p ps)
  show ?case
  proof (cases "e_tv e < e_tv p")
    case True
    then show ?thesis using Cons.prems by (intro exI [of _ "[]"] exI [of _ "p # ps"]) (auto simp: by_time_def)
  next
    case False
    from Cons.IH Cons.prems obtain xs ys where "ps = xs @ ys" "insert_entry e ps = xs @ e # ys"
      "\<forall>x\<in>set xs. e_tv x \<le> e_tv e" "\<forall>y\<in>set ys. e_tv e < e_tv y" by (auto simp: by_time_def)
    then show ?thesis using False by (intro exI [of _ "p # xs"] exI [of _ ys]) auto
  qed
qed simp

section \<open>The invariant\<close>

definition sched_inv :: "('e, 'z) sched_scheme \<Rightarrow> bool" where
  "sched_inv s \<longleftrightarrow> by_time (events s) \<and> distinct (map e_ptr (events s)) \<and> (\<forall>e\<in>set (events s). e_ptr e < next_ptr s)"

lemma sched_inv_tl: "sched_inv s \<Longrightarrow> events s = p # ps \<Longrightarrow> sched_inv (s\<lparr>events := ps\<rparr>)"
  by (auto simp: sched_inv_def by_time_def)

lemma sched_inv_reading [simp]: "sched_inv (s\<lparr>readings := n\<rparr>) = sched_inv s"
  by (simp add: sched_inv_def)

lemma remove_entry_split: "a \<notin> e_ptr ` set xs \<Longrightarrow> remove_entry a (xs @ e # ys) = (if e_ptr e = a then xs @ ys else xs @ e # remove_entry a ys)"
  by (induction xs) auto

lemma remove_entry_filter: "distinct (map e_ptr es) \<Longrightarrow> remove_entry a es = [e \<leftarrow> es. e_ptr e \<noteq> a]"
proof (induction es)
  case (Cons e es)
  then show ?case by (auto simp: filter_id_conv image_iff intro!: filter_True [symmetric])
qed simp

lemma deschedule_inv: "sched_inv s \<Longrightarrow> sched_inv (deschedule a s)"
  by (auto simp: sched_inv_def deschedule_def remove_entry_filter by_time_def distinct_map inj_on_def sorted_filter split: option.splits)

lemma schedule_inv: "sched_inv s \<Longrightarrow> sched_inv (snd (schedule diff f s))"
  using by_time_insert [of "events s"]
  by (auto simp: sched_inv_def schedule_def gettimeofday_def set_insert_entry distinct_map_insert_entry intro: less_SucI)

lemma add_time_micros: "micros (add_time now diff) = micros now + micros diff"
  by (simp add: add_time_def micros_def Let_def)

lemma add_time_seminormal: "normal now \<Longrightarrow> normal diff \<Longrightarrow> seminormal (add_time now diff)"
  by (auto simp: add_time_def normal_def seminormal_def Let_def)

text \<open>
  C35: invariant and functional behaviour of \<open>schedule\<close>: the queue stays in order, the new entry stands behind
  those that are due before or at the same time, its time is the current time plus the delay, and
  \<open>deschedule\<close> with the returned pointer takes out exactly this entry. The delay may be negative: the comment in
  \<open>schedule\<close> says that an event that has already expired is run immediately, but it is queued like any other and waits for the next
  \<open>process_schedule\<close> (\<open>expired_is_queued\<close>).
\<close>

theorem schedule_correct:
  assumes "sched_inv s" "normal (clock s (readings s))" "normal diff" "schedule diff f s = (a, s')"
  shows "sched_inv s' \<and> (\<exists>xs ys tv. events s = xs @ ys \<and> events s' = xs @ \<lparr>e_ptr = a, e_tv = tv, e_fn = f\<rparr> # ys \<and>
      micros tv = micros (clock s (readings s)) + micros diff \<and> seminormal tv \<and>
      (\<forall>x\<in>set xs. e_tv x \<le> tv) \<and> (\<forall>y\<in>set ys. tv < e_tv y)) \<and>
    events (deschedule (Some a) s') = events s"
proof -
  define e where "e = \<lparr>e_ptr = a, e_tv = add_time (clock s (readings s)) diff, e_fn = f\<rparr>"
  have s': "events s' = insert_entry e (events s)" "next_ptr s' = a + 1" "a = next_ptr s"
    using assms(4) by (auto simp: schedule_def gettimeofday_def e_def)
  obtain xs ys where q: "events s = xs @ ys" "events s' = xs @ e # ys"
    "\<forall>x\<in>set xs. e_tv x \<le> e_tv e" "\<forall>y\<in>set ys. e_tv e < e_tv y"
    using insert_entry_split [of "events s" e] assms(1) s'(1) by (auto simp: sched_inv_def)
  have "sched_inv s'" using schedule_inv [OF assms(1), of diff f] assms(4) by simp
  moreover have "a \<notin> e_ptr ` set xs" using assms(1) q(1) s'(3) by (auto simp: sched_inv_def)
  moreover have "events (deschedule (Some a) s') = events s"
    using remove_entry_split [OF calculation(2), of e ys] q(1,2) by (simp add: deschedule_def e_def)
  ultimately show ?thesis
    using q add_time_micros add_time_seminormal assms(2,3)
    by (intro conjI exI [of _ xs] exI [of _ ys] exI [of _ "e_tv e"]) (simp_all add: e_def)
qed

definition ex_sched :: "string sched" where
  "ex_sched = \<lparr>events = [\<lparr>e_ptr = 0, e_tv = TV 12 500000, e_fn = ''hello''\<rparr>, \<lparr>e_ptr = 2, e_tv = TV 20 0, e_fn = ''redial''\<rparr>],
     next_ptr = 3, clock = (\<lambda>n. TV (10 + int n) 250000), readings = 0\<rparr>"

lemma ex_sched_steps:
  "schedule (TV 2 250000) ''xmit'' ex_sched = (3, ex_sched\<lparr>events := [\<lparr>e_ptr = 0, e_tv = TV 12 500000, e_fn = ''hello''\<rparr>,
     \<lparr>e_ptr = 3, e_tv = TV 12 500000, e_fn = ''xmit''\<rparr>, \<lparr>e_ptr = 2, e_tv = TV 20 0, e_fn = ''redial''\<rparr>], next_ptr := 4, readings := 1\<rparr>)"
  by (simp add: schedule_def gettimeofday_def ex_sched_def add_time_def less_timeval_def TVLESS_def del: TVLESS_less)

lemma schedule_correct_witness:
  "\<exists>s'. schedule (TV 2 250000) ''xmit'' ex_sched = (3, s') \<and> sched_inv s' \<and> events (deschedule (Some 3) s') = events ex_sched"
proof -
  have "sched_inv ex_sched" "normal (clock ex_sched (readings ex_sched))" "normal (TV 2 250000)"
    by (simp_all add: ex_sched_def sched_inv_def by_time_def normal_def less_eq_timeval_def TVLESSEQ_def del: TVLESS_less)
  from schedule_correct [OF this ex_sched_steps] show ?thesis using ex_sched_steps by blast
qed

lemma expired_is_queued:
  "schedule (TV (-5) 0) ''late'' (ex_sched\<lparr>events := []\<rparr>) =
     (3, ex_sched\<lparr>events := [\<lparr>e_ptr = 3, e_tv = TV 5 250000, e_fn = ''late''\<rparr>], next_ptr := 4, readings := 1\<rparr>)"
  by (simp add: schedule_def gettimeofday_def ex_sched_def add_time_def)

section \<open>What \<open>process_schedule\<close> leaves behind\<close>

text \<open>The events run keep the queue's invariant.\<close>

definition keeps_queue :: "('e \<Rightarrow> ('e, 'z) sched_scheme \<Rightarrow> ('e, 'z) sched_scheme option) \<Rightarrow> bool" where
  "keeps_queue run \<longleftrightarrow> (\<forall>e s s'. sched_inv s \<longrightarrow> run e s = Some s' \<longrightarrow> sched_inv s')"

lemma process_schedule_stops:
  "process_schedule run s = Some (t, s') \<Longrightarrow> sched_inv s \<Longrightarrow> keeps_queue run \<Longrightarrow>
    sched_inv s' \<and> (case t of None \<Rightarrow> events s' = []
     | Some w \<Rightarrow> \<exists>p ps n. events s' = p # ps \<and> readings s' = n + 1 \<and> clock s' n < e_tv p \<and> w = wait_time (e_tv p) (clock s' n))"
proof (induction run s "(t, s')" arbitrary: t s' rule: process_schedule.raw_induct [rotated, consumes 1, case_names step])
  case (step process run s t s')
  note body = step.hyps(2) and IH = step.hyps(1) and inv = step.prems
  show ?case
  proof (cases "events s")
    case Nil
    then show ?thesis using body inv by auto
  next
    case (Cons p ps)
    let ?now = "clock s (readings s)"
    show ?thesis
    proof (cases "e_tv p \<le> ?now")
      case True
      then obtain s1 where s1: "run (e_fn p) (s\<lparr>readings := readings s + 1, events := ps\<rparr>) = Some s1" "process run s1 = Some (t, s')"
        using body Cons by (auto simp: gettimeofday_def split: bind_splits)
      then have "sched_inv s1" using inv sched_inv_tl [of "s\<lparr>readings := readings s + 1\<rparr>" p ps] Cons
        unfolding keeps_queue_def by auto
      then show ?thesis using IH [OF s1(2)] inv(2) by blast
    next
      case False
      then show ?thesis using body inv Cons by (auto simp: gettimeofday_def)
    qed
  qed
qed

lemma wait_time_micros:
  assumes "now < tv" "normal now" "seminormal tv"
  shows "micros (wait_time tv now) = micros tv - micros now \<and> seminormal (wait_time tv now)"
  using assms
  by (auto simp: wait_time_def micros_def Let_def normal_def seminormal_def less_timeval_def TVLESS_def simp del: TVLESS_less split: if_splits)

text \<open>
  Functional behaviour of \<open>process_schedule\<close>, whatever the events do to the queue. When it returns, the
  queue is in order and no event that is due is left; the time it hands to \<open>select\<close> is exactly
  the time from the last look at the clock to the next event, and there is none only when the queue is empty.
  The warning branch for times that are not positive is never taken.
\<close>

theorem process_schedule_exact:
  assumes "process_schedule run s = Some (t, s')" "sched_inv s" "keeps_queue run"
    and "\<forall>n. normal (clock s' n)" "\<forall>e\<in>set (events s'). seminormal (e_tv e)"
  shows "sched_inv s' \<and> (case t of None \<Rightarrow> events s' = []
     | Some w \<Rightarrow> (\<exists>p ps n. events s' = p # ps \<and> readings s' = n + 1 \<and> micros w = micros (e_tv p) - micros (clock s' n) \<and>
         seminormal w \<and> (\<forall>e\<in>set (events s'). clock s' n < e_tv e)))"
proof (cases t)
  case None
  then show ?thesis using process_schedule_stops [OF assms(1-3)] by simp
next
  case (Some w)
  with process_schedule_stops [OF assms(1-3)] obtain p ps n where p: "sched_inv s'" "events s' = p # ps" "readings s' = n + 1"
    "clock s' n < e_tv p" "w = wait_time (e_tv p) (clock s' n)" by auto
  have "\<forall>e\<in>set (events s'). clock s' n < e_tv e"
    using eq.none_due [of "events s'" p ps "clock s' n"] p by (auto simp: sched_inv_def pop_entry_Some)
  moreover have "micros w = micros (e_tv p) - micros (clock s' n)" "seminormal w"
    using wait_time_micros [OF p(4), of] assms(4,5) p(2,5) by simp_all
  ultimately show ?thesis using p Some by auto
qed

definition ex_run :: "string \<Rightarrow> string sched \<Rightarrow> string sched option" where
  "ex_run e s = Some (if e = ''hello'' then snd (schedule (TV 60 0) e s) else s)"

text \<open>The first event schedules itself again, the second is not yet due.\<close>

definition ex_after :: "string sched" where
  "ex_after = ex_sched\<lparr>events := [\<lparr>e_ptr = 2, e_tv = TV 20 0, e_fn = ''redial''\<rparr>, \<lparr>e_ptr = 3, e_tv = TV 74 250000, e_fn = ''hello''\<rparr>],
     next_ptr := 4, readings := 6\<rparr>"

lemma ex_run_steps: "process_schedule ex_run (ex_sched\<lparr>readings := 3\<rparr>) = Some (Some (TV 4 750000), ex_after)"
proof -
  have le: "TV a b \<le> TV c d \<longleftrightarrow> (if a = c then b \<le> d else a < c)" "TV a b < TV c d \<longleftrightarrow> (if a = c then b < d else a < c)" for a b c d
    by (simp_all add: less_eq_timeval_def less_timeval_def TVLESSEQ_def TVLESS_def del: TVLESS_less)
  have 1: "process_schedule ex_run ex_after' = Some (Some (TV 4 750000), ex_after)" if "ex_after' = ex_after\<lparr>readings := 5\<rparr>" for ex_after'
    by (subst process_schedule.simps) (simp add: that ex_after_def ex_sched_def gettimeofday_def wait_time_def le)
  have 2: "ex_run ''hello'' (ex_sched\<lparr>readings := 4, events := [\<lparr>e_ptr = 2, e_tv = TV 20 0, e_fn = ''redial''\<rparr>]\<rparr>) = Some (ex_after\<lparr>readings := 5\<rparr>)"
    by (simp add: ex_run_def schedule_def gettimeofday_def ex_sched_def ex_after_def add_time_def le)
  show ?thesis
    using 1 [OF refl] 2 by (subst process_schedule.simps) (simp add: ex_sched_def gettimeofday_def le)
qed

lemma process_schedule_exact_witness:
  "process_schedule ex_run (ex_sched\<lparr>readings := 3\<rparr>) = Some (Some (TV 4 750000), ex_after) \<and>
   micros (TV 4 750000) = micros (TV 20 0) - micros (clock ex_after 5)"
proof -
  have "sched_inv (ex_sched\<lparr>readings := 3\<rparr>)"
    by (simp add: ex_sched_def sched_inv_def by_time_def less_eq_timeval_def TVLESSEQ_def del: TVLESS_less)
  moreover have "keeps_queue ex_run" by (auto simp: keeps_queue_def ex_run_def schedule_inv split: if_splits)
  moreover have "\<forall>n. normal (clock ex_after n)" "\<forall>e\<in>set (events ex_after). seminormal (e_tv e)"
    by (simp_all add: ex_after_def ex_sched_def normal_def seminormal_def)
  ultimately show ?thesis
    using process_schedule_exact [OF ex_run_steps] ex_run_steps by (auto simp: ex_after_def)
qed

end
