(* ===== verification/L2tp_Control.thy ===== *)
theory L2tp_Control
  imports Scheduler Chain L2tp_Payload
begin

text \<open>
  Reliable delivery of control messages: retransmission with backoff (\<open>network.c\<close>), keepalives and the
  sequence check of received messages (\<open>control.c\<close>), closing and destroying calls and
  tunnels (\<open>call.c\<close>, \<open>xl2tpd.c\<close>).

  The daemon's state extends the event queue by the tunnels it has allocated (\<open>None\<close> is one that has been
  freed), their list \<open>tunnels.head\<close>, the addresses in use, what \<open>udp_xmit\<close> has sent, the next serial
  number, the PPP daemons started, the file descriptors the system hands out, the contents of fresh buffers and of the random source.
  \<open>lac_states\<close> is what changes in the entries of \<open>laclist\<close>. Reading a freed tunnel is a fault. Left out: accounting, the terminal
  of the PPP process, \<open>lns->t\<close>, which nothing reads. No \<open>local ip range\<close> is configured.
\<close>

section \<open>State\<close>

text \<open>A buffer with the fields \<open>tunnel\<close> and \<open>retries\<close>.\<close>

record xbuf =
  x_buf :: obuf
  x_tun :: nat
  x_retries :: int

text \<open>A function with its argument.\<close>

datatype event = Control_xmit xbuf | Hello_event nat | Dial_event peer_conf

text \<open>The fields of \<open>struct lac\<close> that change: \<open>active\<close>, \<open>rsched\<close>, \<open>rtries\<close>, \<open>t\<close> and \<open>c\<close>.\<close>

record lac_state =
  la_active :: bool
  la_rsched :: "nat option"
  la_rtries :: int
  la_tun :: "nat option"
  la_call :: "(nat \<times> nat) option"

record world = "event sched" +
  tuns :: "l2tp option list"
  tlist :: "nat list"
  sent :: "byte_buf list"
  max_retries :: int
  fresh :: "nat \<Rightarrow> byte_buf"
  news :: nat
  random :: "nat \<Rightarrow> byte_buf"
  randoms :: nat
  uaddr :: addr_table
  serno :: u32
  pppds :: "(nat \<times> nat \<times> byte_buf list) list"
  fds :: "nat \<Rightarrow> int"
  opened :: nat
  lac_states :: "nat \<Rightarrow> lac_state"

definition get_t :: "world \<Rightarrow> nat \<Rightarrow> l2tp option" where
  "get_t w i = (if i < length (tuns w) then tuns w ! i else None)"

definition set_t :: "world \<Rightarrow> nat \<Rightarrow> l2tp \<Rightarrow> world" where
  "set_t w i st = w\<lparr>tuns := (tuns w)[i := Some st]\<rparr>"

definition udp_xmit :: "obuf \<Rightarrow> world \<Rightarrow> world" where
  "udp_xmit b w = w\<lparr>sent := sent w @ [sent_bytes b]\<rparr>"

text \<open>\<open>new_outgoing (t)\<close>; a failed allocation is returned as NULL, and every caller uses the result unchecked.\<close>

definition new_outgoing_for :: "nat \<Rightarrow> world \<Rightarrow> (xbuf \<times> world) option" where
  "new_outgoing_for i w = do {
     st \<leftarrow> get_t w i;
     let (ok, st) = next_alloc st;
     b \<leftarrow> new_outgoing ok (fresh w (news w));
     Some (\<lparr>x_buf = b, x_tun = i, x_retries = 0\<rparr>, (set_t w i st)\<lparr>news := news w + 1\<rparr>) }"

section \<open>Redialling (call.c, xl2tpd.c)\<close>

definition lac_state :: "world \<Rightarrow> peer_conf \<Rightarrow> lac_state" where
  "lac_state w l = lac_states w (pc_entry l)"

definition upd_lac :: "peer_conf \<Rightarrow> (lac_state \<Rightarrow> lac_state) \<Rightarrow> world \<Rightarrow> world" where
  "upd_lac l f w = w\<lparr>lac_states := (lac_states w)(pc_entry l := f (lac_state w l))\<rparr>"

definition redial_due :: "peer_conf \<Rightarrow> world \<Rightarrow> bool" where
  "redial_due l w \<longleftrightarrow> pc_redial l \<and> pc_rtimeout l > 0 \<and> la_rsched (lac_state w l) = None \<and> la_active (lac_state w l)"

definition redial :: "peer_conf \<Rightarrow> world \<Rightarrow> world" where
  "redial l w =
     (if redial_due l w then
        (case schedule (TV (pc_rtimeout l) 0) (Dial_event l) w of (p, w) \<Rightarrow> upd_lac l (\<lambda>s. s\<lparr>la_rsched := Some p\<rparr>) w)
      else w)"

section \<open>Destroying (call.c, xl2tpd.c)\<close>

text \<open>\<open>while (p->next && (p->next != c)) p = p->next\<close>, for the list of calls of a tunnel.\<close>

partial_function (option) call_before :: "l2tp \<Rightarrow> nat \<Rightarrow> nat \<Rightarrow> nat option" where
  "call_before st c p = do {
     pc \<leftarrow> get_c st p;
     case c_next pc of
       None \<Rightarrow> Some p
     | Some q \<Rightarrow> if q = c then Some p else call_before st c q }"

text \<open>Closing the terminal, giving back the address, killing the PPP process.\<close>

definition release_call :: "l2tp \<Rightarrow> nat \<Rightarrow> addr_table \<Rightarrow> (l2tp \<times> addr_table) option" where
  "release_call st c tab = do {
     cl \<leftarrow> get_c st c;
     st \<leftarrow> upd_c st c (\<lambda>cl. cl\<lparr>c_fd := (if c_fd cl > 0 then -1 else c_fd cl), c_pppd := (if c_pppd cl > 0 then 0 else c_pppd cl)\<rparr>);
     Some (st, if c_addr cl \<noteq> 0 then unreserve_addr tab (c_addr cl) else tab) }"

text \<open>Taking the call out of its tunnel's list, in which it need not be.\<close>

definition unlink_call :: "l2tp \<Rightarrow> nat \<Rightarrow> l2tp option" where
  "unlink_call st c = do {
     cl \<leftarrow> get_c st c;
     case t_call_head st of
       None \<Rightarrow> Some st
     | Some p \<Rightarrow>
         if p = c then Some (st\<lparr>t_call_head := c_next cl, t_count := t_count st - 1\<rparr>)
         else do {
           p \<leftarrow> call_before st c p;
           pc \<leftarrow> get_c st p;
           case c_next pc of
             None \<Rightarrow> Some st
           | Some _ \<Rightarrow> do {
               st \<leftarrow> upd_c st p (\<lambda>pc. pc\<lparr>c_next := c_next cl\<rparr>);
               Some (st\<lparr>t_count := t_count st - 1\<rparr>) } } }"

definition destroy_call :: "nat \<Rightarrow> nat \<Rightarrow> world \<Rightarrow> world option" where
  "destroy_call i c w = do {
     st \<leftarrow> get_t w i;
     cl \<leftarrow> get_c st c;
     (st, tab) \<leftarrow> release_call st c (uaddr w);
     st \<leftarrow> unlink_call st c;
     let w = (set_t w i st)\<lparr>uaddr := tab\<rparr>;
     Some (case c_lac cl of None \<Rightarrow> w | Some l \<Rightarrow> redial l (upd_lac l (\<lambda>s. s\<lparr>la_call := None\<rparr>) w)) }"

text \<open>The member calls from \<open>c\<close> on, one after the other.\<close>

partial_function (option) destroy_calls :: "nat \<Rightarrow> nat option \<Rightarrow> world \<Rightarrow> world option" where
  "destroy_calls i c w =
     (case c of
        None \<Rightarrow> Some w
      | Some c \<Rightarrow> do {
          st \<leftarrow> get_t w i;
          cl \<leftarrow> get_c st c;
          w \<leftarrow> destroy_call i c w;
          destroy_calls i (c_next cl) w })"

definition destroy_tunnel :: "nat \<Rightarrow> world \<Rightarrow> world option" where
  "destroy_tunnel i w = do {
     st \<leftarrow> get_t w i;
     w \<leftarrow> destroy_calls i (t_call_head st) w;
     let w = w\<lparr>tlist := remove1 i (tlist w)\<rparr>;
     st \<leftarrow> get_t w i;
     let w = (case t_lac st of None \<Rightarrow> w | Some l \<Rightarrow> redial l (upd_lac l (\<lambda>s. s\<lparr>la_tun := None\<rparr>) w));
     w \<leftarrow> destroy_call i (t_self st) w;
     Some (w\<lparr>tuns := (tuns w)[i := None]\<rparr>) }"

section \<open>Transmission (network.c)\<close>

definition backoff :: "int \<Rightarrow> timeval" where
  "backoff retries = TV (2 ^ (if nat (retries - 1) > 31 then 31 else nat (retries - 1))) 0"

text \<open>\<open>((struct control_hdr *) (buf->start))->Ns\<close>, in network order\<close>

definition msg_ns :: "obuf \<Rightarrow> u16 option" where
  "msg_ns b = hdr_word b 4"

definition timeout_text :: byte_buf where "timeout_text = msg_bytes ''Timeout''"

text \<open>\<open>close\<close> is \<open>call_close\<close> for the tunnel's own call.\<close>

definition xmit :: "(nat \<Rightarrow> world \<Rightarrow> world option) \<Rightarrow> xbuf \<Rightarrow> world \<Rightarrow> world option" where
  "xmit close x w = do {
     st \<leftarrow> get_t w (x_tun x);
     let x = x\<lparr>x_retries := x_retries x + 1\<rparr>;
     ns \<leftarrow> msg_ns (x_buf x);
     if uint (ntohs ns) < t_cLr st then Some w
     else if x_retries x > max_retries w then do {
       self \<leftarrow> get_c st (t_self st);
       st \<leftarrow>
         (if c_needclose self \<noteq> 0 then upd_c st (t_self st) (\<lambda>c. c\<lparr>c_needclose := 0, c_closing := -1\<rparr>)
          else do {
            msg \<leftarrow> wr_bytes (c_errormsg self) 0 (timeout_text @ [0]);
            upd_c st (t_self st) (\<lambda>c. c\<lparr>c_errormsg := msg, c_needclose := -1\<rparr>) });
       close (x_tun x) (set_t w (x_tun x) st) }
     else Some (udp_xmit (x_buf x) (snd (schedule (backoff (x_retries x)) (Control_xmit x) w))) }"

section \<open>Closing (call.c)\<close>

definition concerns :: "nat \<Rightarrow> event \<Rightarrow> bool" where
  "concerns i e = (case e of Control_xmit x \<Rightarrow> x_tun x = i | Hello_event j \<Rightarrow> j = i | Dial_event l \<Rightarrow> False)"

definition deschedule_tunnel :: "nat \<Rightarrow> world \<Rightarrow> world" where
  "deschedule_tunnel i w = w\<lparr>events := [e \<leftarrow> events w. \<not> concerns i (e_fn e)]\<rparr>"

text \<open>The AVPs of the closing message: \<open>own_id\<close> stands before the result code in a StopCCN, \<open>call_id\<close> behind it in a CDN.\<close>

definition close_avps ::
  "u16 \<Rightarrow> (obuf \<Rightarrow> obuf option) \<Rightarrow> (obuf \<Rightarrow> obuf option) \<Rightarrow> l2tp \<Rightarrow> l2call \<Rightarrow> obuf \<Rightarrow> obuf option" where
  "close_avps type own_id call_id st cl b = do {
     b \<leftarrow> add_message_type_avp type b;
     b \<leftarrow> (if t_hbit st then add_randvect_avp (them_vector st) b else Some b);
     b \<leftarrow> own_id b;
     b \<leftarrow> add_result_code_avp (word_of_int (c_result cl)) (word_of_int (c_error cl)) (c_string (c_errormsg cl)) b;
     call_id b }"

definition default_result :: "l2call \<Rightarrow> l2call" where
  "default_result c = (let c = (if c_result c < 0 then c\<lparr>c_result := 1\<rparr> else c) in if c_error c < 0 then c\<lparr>c_error := 0\<rparr> else c)"

text \<open>
  Building and sending the closing message of call \<open>c\<close>. If \<open>control_xmit\<close> gives a fresh message up at
  once (with \<open>max_retries\<close> below 1), the tunnel is destroyed under the hands of
  \<open>call_close\<close>, which goes on using it: the fault \<open>\<lambda>_ _. None\<close>.
\<close>

definition send_closing ::
  "u16 \<Rightarrow> (obuf \<Rightarrow> obuf option) \<Rightarrow> (obuf \<Rightarrow> obuf option) \<Rightarrow> nat \<Rightarrow> nat \<Rightarrow> world \<Rightarrow> world option" where
  "send_closing type own_id call_id i c w = do {
     st \<leftarrow> get_t w i;
     st \<leftarrow> upd_c st c (\<lambda>cl. cl\<lparr>c_closeSs := control_seq_num st\<rparr>);
     (x, w) \<leftarrow> new_outgoing_for i (set_t w i st);
     st \<leftarrow> get_t w i;
     let rnd = random w (randoms w);
     let w = (if t_hbit st then w\<lparr>randoms := randoms w + 1\<rparr> else w);
     let st = (if t_hbit st then st\<lparr>them_vector := rnd\<rparr> else st);
     st \<leftarrow> upd_c st c default_result;
     cl \<leftarrow> get_c st c;
     b \<leftarrow> close_avps type own_id call_id st cl (x_buf x);
     (st, b) \<leftarrow> add_control_hdr st c b;
     xmit (\<lambda>_ _. None) (x\<lparr>x_buf := b\<rparr>) (set_t w i st) }"

definition mark_closing :: "nat \<Rightarrow> nat \<Rightarrow> world \<Rightarrow> world option" where
  "mark_closing i c w = do {
     st \<leftarrow> get_t w i;
     st \<leftarrow> upd_c st c (\<lambda>cl. cl\<lparr>c_closing := -1\<rparr>);
     Some (set_t w i st) }"

text \<open>\<open>call_close\<close> for a call that is not the tunnel's own.\<close>

definition close_member :: "nat \<Rightarrow> nat \<Rightarrow> world \<Rightarrow> world option" where
  "close_member i c w = do {
     st \<leftarrow> get_t w i;
     cl \<leftarrow> get_c st c;
     if c_closing cl \<noteq> 0 then destroy_call i c w
     else do {
       w \<leftarrow> send_closing (word_of_int CDN) Some (add_callid_avp (word_of_int (c_ourcid cl))) i c w;
       mark_closing i c w } }"

text \<open>The loop over the members when their tunnel is closed.\<close>

partial_function (option) close_members :: "nat \<Rightarrow> nat option \<Rightarrow> world \<Rightarrow> world option" where
  "close_members i c w =
     (case c of
        None \<Rightarrow> Some w
      | Some c \<Rightarrow> do {
          st \<leftarrow> get_t w i;
          cl \<leftarrow> get_c st c;
          st \<leftarrow> upd_c st c (\<lambda>cl. cl\<lparr>c_needclose := 0, c_closing := -1\<rparr>);
          w \<leftarrow> close_member i c (set_t w i st);
          close_members i (c_next cl) w })"

definition close_tunnel :: "nat \<Rightarrow> world \<Rightarrow> world option" where
  "close_tunnel i w = do {
     st \<leftarrow> get_t w i;
     self \<leftarrow> get_c st (t_self st);
     let w = deschedule_tunnel i w;
     if c_closing self \<noteq> 0 then destroy_tunnel i w
     else do {
       w \<leftarrow> send_closing (word_of_int StopCCN) (add_tunnelid_avp (word_of_int (t_ourtid st))) Some i (t_self st) w;
       st \<leftarrow> get_t w i;
       w \<leftarrow> close_members i (t_call_head st) w;
       mark_closing i (t_self st) w } }"

definition call_close :: "nat \<Rightarrow> nat \<Rightarrow> world \<Rightarrow> world option" where
  "call_close i c w = do {
     st \<leftarrow> get_t w i;
     if c = t_self st then close_tunnel i w else close_member i c w }"

definition control_xmit :: "xbuf \<Rightarrow> world \<Rightarrow> world option" where
  "control_xmit x w = xmit close_tunnel x w"

section \<open>Keepalives (control.c)\<close>

definition hello :: "nat \<Rightarrow> world \<Rightarrow> world option" where
  "hello i w = do {
     (x, w) \<leftarrow> new_outgoing_for i w;
     b \<leftarrow> add_message_type_avp (word_of_int Hello) (x_buf x);
     st \<leftarrow> get_t w i;
     (st, b) \<leftarrow> add_control_hdr st (t_self st) b;
     w \<leftarrow> control_xmit (x\<lparr>x_buf := b\<rparr>) (set_t w i st);
     st \<leftarrow> get_t w i;
     Some (snd (schedule (TV 60 0) (Hello_event i) w)) }"

text \<open>\<open>dial\<close> is \<open>magic_lac_dial\<close>, which is defined with the messages it sends (\<open>L2tp_Finish.run_events\<close>).\<close>

definition run_event :: "(peer_conf \<Rightarrow> world \<Rightarrow> world option) \<Rightarrow> event \<Rightarrow> world \<Rightarrow> world option" where
  "run_event dial e w = (case e of Control_xmit x \<Rightarrow> control_xmit x w | Hello_event i \<Rightarrow> hello i w | Dial_event l \<Rightarrow> dial l w)"

section \<open>The main loop (network.c)\<close>

text \<open>
  \<open>build_fdset\<close> closes what is marked: one of \<open>needclose\<close> and \<open>closing\<close>, which are 0 or -1, is set. The
  loop over the calls of a tunnel starts again after each call it has closed, and so does the one over the tunnels.
\<close>

definition pending :: "l2call \<Rightarrow> bool" where
  "pending c \<longleftrightarrow> c_needclose c \<noteq> c_closing c"

partial_function (option) close_pending_calls :: "nat \<Rightarrow> nat option \<Rightarrow> world \<Rightarrow> world option" where
  "close_pending_calls i c w =
     (case c of
        None \<Rightarrow> Some w
      | Some c \<Rightarrow> do {
          st \<leftarrow> get_t w i;
          cl \<leftarrow> get_c st c;
          if pending cl then do {
            w \<leftarrow> call_close i c w;
            st \<leftarrow> get_t w i;
            close_pending_calls i (t_call_head st) w }
          else close_pending_calls i (c_next cl) w })"

partial_function (option) close_pending :: "nat list \<Rightarrow> world \<Rightarrow> world option" where
  "close_pending ts w =
     (case ts of
        [] \<Rightarrow> Some w
      | i # ts \<Rightarrow> do {
          st \<leftarrow> get_t w i;
          w \<leftarrow> close_pending_calls i (t_call_head st) w;
          st \<leftarrow> get_t w i;
          self \<leftarrow> get_c st (t_self st);
          if pending self then do { w \<leftarrow> call_close i (t_self st) w; close_pending (tlist w) w }
          else close_pending ts w })"

text \<open>One round of \<open>network_thread\<close> in which nothing is received.\<close>

definition idle_round :: "(peer_conf \<Rightarrow> world \<Rightarrow> world option) \<Rightarrow> world \<Rightarrow> world option" where
  "idle_round dial w = do {
     w \<leftarrow> close_pending (tlist w) w;
     (timeout, w) \<leftarrow> process_schedule (run_event dial) w;
     Some w }"

fun idle_rounds :: "(peer_conf \<Rightarrow> world \<Rightarrow> world option) \<Rightarrow> nat \<Rightarrow> world \<Rightarrow> world option" where
  "idle_rounds dial 0 w = Some w"
| "idle_rounds dial (Suc k) w = do { w \<leftarrow> idle_round dial w; idle_rounds dial k w }"

end
