(* ===== verification/L2tp_Control_Props.thy ===== *)
theory L2tp_Control_Props
  imports L2tp_Control L2tp_Payload_Props L2tp_Avp_Props
begin

text \<open>
  Properties of the reliable delivery: a peer that never answers is given up after a
  fixed number of messages, and the tunnel is destroyed.
\<close>

section \<open>Control messages and their sequence number\<close>

lemma net_words_le: "net_words ws = words_bytes (map htons ws)"
  by (induction ws) (simp_all add: words_Cons be16_le16, simp_all add: net_words_def words_bytes_def)

definition control_words :: "l2tp \<Rightarrow> l2call \<Rightarrow> nat \<Rightarrow> u16 list" where
  "control_words st cl len =
     [0xC802, word_of_nat len, word_of_int (t_tid st), word_of_int (c_cid cl), control_seq_num st, control_rec_seq_num st]"

lemma add_control_hdr_at:
  assumes "length pre = 12" "c < length (calls st)"
  shows "add_control_hdr st c (mkbuf pre m junk) = Some (st\<lparr>control_seq_num := control_seq_num st + 1\<rparr>,
    mkbuf [] (net_words (control_words st (calls st ! c) (length m + 12)) @ m) junk)"
proof -
  let ?h = "net_words (control_words st (calls st ! c) (length m + 12))"
  have h: "?h = be16_bytes 0xC802 @ be16_bytes (word_of_nat (length m + 12)) @ be16_bytes (word_of_int (t_tid st)) @
     be16_bytes (word_of_int (c_cid (calls st ! c))) @ be16_bytes (control_seq_num st) @ be16_bytes (control_rec_seq_num st)"
    by (simp add: net_words_def control_words_def)
  have "wr_bytes (pre @ m @ junk) 0 ?h = Some (?h @ m @ junk)"
    using assms(1) by (simp add: wr_bytes_def control_words_def)
  then show ?thesis using assms unfolding h
    by (simp add: add_control_hdr_def mkbuf_def get_c_Some add.commute [of 12])
qed

lemma msg_ns_at: "msg_ns (mkbuf [] (net_words (control_words st cl n) @ m) junk) = Some (htons (control_seq_num st))"
  unfolding msg_ns_def net_words_le by (subst hdr_word_mk) (simp_all add: control_words_def)

section \<open>Rounds of the main loop\<close>

text \<open>The rest of a round and some more rounds lead to \<open>Q\<close>.\<close>

definition settles :: "(peer_conf \<Rightarrow> world \<Rightarrow> world option) \<Rightarrow> world \<Rightarrow> (world \<Rightarrow> bool) \<Rightarrow> bool" where
  "settles dial w Q \<longleftrightarrow> (\<exists>t w1 k w'. process_schedule (run_event dial) w = Some (t, w1) \<and> idle_rounds dial k w1 = Some w' \<and> Q w')"

lemma settles_fire:
  assumes "events w = p # ps" "e_tv p \<le> clock w (readings w)"
    and "run_event dial (e_fn p) (w\<lparr>readings := readings w + 1, events := ps\<rparr>) = Some w1" "settles dial w1 Q"
  shows "settles dial w Q"
proof -
  have "process_schedule (run_event dial) w = process_schedule (run_event dial) w1"
    using assms(1-3) by (subst process_schedule.simps) (simp add: gettimeofday_def)
  then show ?thesis using assms(4) by (simp add: settles_def)
qed

text \<open>The event at the head of the queue is run some day, if the clock goes on.\<close>

lemma eventually_fires:
  assumes ev: "events w = p # ps"
    and quiet: "\<And>n. close_pending (tlist w) (w\<lparr>readings := n\<rparr>) = Some (w\<lparr>readings := n\<rparr>)"
    and clock: "\<exists>n0. \<forall>n\<ge>n0. e_tv p \<le> clock w n"
    and fire: "\<And>n. \<exists>w1. run_event dial (e_fn p) (w\<lparr>readings := n, events := ps\<rparr>) = Some w1 \<and> settles dial w1 Q"
  shows "settles dial w Q"
proof -
  obtain n0 where n0: "\<forall>n\<ge>n0. e_tv p \<le> clock w n" using clock by blast
  have "settles dial (w\<lparr>readings := m\<rparr>) Q" for m
  proof (induction "n0 - m" arbitrary: m rule: less_induct)
    case less
    show ?case
    proof (cases "e_tv p \<le> clock w m")
      case True
      obtain w1 where w1: "run_event dial (e_fn p) (w\<lparr>readings := m + 1, events := ps\<rparr>) = Some w1" "settles dial w1 Q"
        using fire by blast
      show ?thesis using settles_fire [of "w\<lparr>readings := m\<rparr>" p ps dial w1 Q] ev True w1 by simp
    next
      case False
      then have "n0 - (m + 1) < n0 - m" using n0 by (meson diff_less_mono2 less_add_one not_le_imp_less)
      from less [OF this] obtain t w1 k w' where k: "process_schedule (run_event dial) (w\<lparr>readings := m + 1\<rparr>) = Some (t, w1)"
        "idle_rounds dial k w1 = Some w'" "Q w'" unfolding settles_def by blast
      have "process_schedule (run_event dial) (w\<lparr>readings := m\<rparr>) = Some (Some (wait_time (e_tv p) (clock w m)), w\<lparr>readings := m + 1\<rparr>)"
        using ev False by (subst process_schedule.simps) (simp add: gettimeofday_def)
      moreover have "idle_rounds dial (Suc k) (w\<lparr>readings := m + 1\<rparr>) = Some w'"
        using k(1,2) quiet [of "m + 1"] by (simp add: idle_round_def)
      ultimately show ?thesis using k(3) unfolding settles_def by blast
    qed
  qed
  from this [of "readings w"] show ?thesis by simp
qed

section \<open>Closing messages\<close>

text \<open>What a tunnel and the daemon need so that messages can be built: memory, strings that fit, retries.\<close>

definition roomy :: "world \<Rightarrow> bool" where
  "roomy w \<longleftrightarrow> (\<forall>n. length (fresh w n) = MAX_RECV_SIZE) \<and> (\<forall>n. length (random w n) = VECTOR_SIZE) \<and> 1 \<le> max_retries w"

definition tunnel_ok :: "l2tp \<Rightarrow> bool" where
  "tunnel_ok st \<longleftrightarrow> l2tp_wf st \<and> (\<forall>n. alloc st n)"

lemma get_set_t: "i < length (tuns w) \<Longrightarrow> get_t (set_t w i st) j = (if j = i then Some st else get_t w j)"
  by (simp add: get_t_def set_t_def)

lemma get_t_lt: "get_t w i = Some st \<Longrightarrow> i < length (tuns w)"
  by (simp add: get_t_def split: if_splits)

definition closing_body :: "u16 \<Rightarrow> byte_buf \<Rightarrow> byte_buf \<Rightarrow> l2tp \<Rightarrow> l2call \<Rightarrow> byte_buf" where
  "closing_body type own call st cl =
     avp_bytes 0x8008 0 (be16_bytes type) @
     (if t_hbit st then avp_bytes (word_of_nat (6 + length (them_vector st)) OR MBIT) 36 (them_vector st) else []) @
     own @
     avp_bytes (word_of_nat (10 + length (c_string (c_errormsg cl))) OR MBIT) 1
       (be16_bytes (word_of_int (c_result cl)) @ be16_bytes (word_of_int (c_error cl)) @ c_string (c_errormsg cl)) @
     call"

lemma close_avps_appends:
  assumes "appends own_id own" "appends call_id call"
  shows "appends (close_avps type own_id call_id st cl) (closing_body type own call st cl)"
proof -
  have r: "close_avps type own_id call_id st cl = (\<lambda>b. add_message_type_avp type b \<bind>
      (\<lambda>b. (if t_hbit st then add_randvect_avp (them_vector st) b else Some b) \<bind> (\<lambda>b. own_id b \<bind>
      (\<lambda>b. add_result_code_avp (word_of_int (c_result cl)) (word_of_int (c_error cl)) (c_string (c_errormsg cl)) b \<bind> call_id))))"
    by (rule ext) (simp add: close_avps_def)
  show ?thesis unfolding r closing_body_def by (intro appends_intros assms)
qed

lemma appends_none: "appends Some []"
  by (rule appendsI) (simp, rule ex_mkbuf [of _ 0, simplified], simp)

text \<open>The first transmission of a message that was just built.\<close>

definition first_sent :: "xbuf \<Rightarrow> world \<Rightarrow> world" where
  "first_sent x w = udp_xmit (x_buf x) (snd (schedule (TV 1 0) (Control_xmit (x\<lparr>x_retries := 1\<rparr>)) w))"

lemma xmit_again:
  assumes "get_t w (x_tun x) = Some st" "msg_ns (x_buf x) = Some (htons s)" "t_cLr st \<le> uint s" "x_retries x + 1 \<le> max_retries w"
  shows "xmit close x w = Some (udp_xmit (x_buf x)
    (snd (schedule (backoff (x_retries x + 1)) (Control_xmit (x\<lparr>x_retries := x_retries x + 1\<rparr>)) w)))"
  using assms by (simp add: xmit_def)

lemma xmit_first:
  assumes "get_t w (x_tun x) = Some st" "x_retries x = 0" "msg_ns (x_buf x) = Some (htons s)" "t_cLr st \<le> uint s" "1 \<le> max_retries w"
  shows "xmit close x w = Some (first_sent x w)"
  using xmit_again [OF assms(1,3,4)] assms(2,5) by (simp add: first_sent_def backoff_def)

definition after_closing :: "l2tp \<Rightarrow> nat \<Rightarrow> byte_buf \<Rightarrow> l2tp" where
  "after_closing st c rnd = st\<lparr>them_vector := (if t_hbit st then rnd else them_vector st),
     calls := (calls st)[c := default_result ((calls st ! c)\<lparr>c_closeSs := control_seq_num st\<rparr>)],
     allocs := allocs st + 1\<rparr>"

lemma send_closing_ok:
  assumes w: "get_t w i = Some st" "tunnel_ok st" "roomy w" and c: "c < length (calls st)" and q: "t_cLr st \<le> uint (control_seq_num st)"
    and a: "appends own_id own" "appends call_id call" "length own \<le> 100" "length call \<le> 100"
  defines "st1 \<equiv> after_closing st c (random w (randoms w))"
  shows "\<exists>junk. send_closing type own_id call_id i c w = Some (first_sent
      \<lparr>x_buf = mkbuf [] (net_words (control_words st1 (calls st1 ! c) (length (closing_body type own call st1 (calls st1 ! c)) + 12)) @
                 closing_body type own call st1 (calls st1 ! c)) junk, x_tun = i, x_retries = 0\<rparr>
      ((set_t w i (st1\<lparr>control_seq_num := control_seq_num st + 1\<rparr>))\<lparr>news := news w + 1,
         randoms := (if t_hbit st then randoms w + 1 else randoms w)\<rparr>))"
proof -
  have i: "i < length (tuns w)" using w(1) by (rule get_t_lt)
  have al: "alloc st n" for n using w(2) by (simp add: tunnel_ok_def)
  let ?mem = "fresh w (news w)" and ?rnd = "random w (randoms w)"
  have mem: "length ?mem = 4096" "length ?rnd = 16" using w(3) by (simp_all add: roomy_def)
  define st0 where "st0 = st\<lparr>calls := (calls st)[c := (calls st ! c)\<lparr>c_closeSs := control_seq_num st\<rparr>]\<rparr>"
  define cl where "cl = calls st1 ! c"
  let ?body = "closing_body type own call st1 cl"
  have new: "new_outgoing_for i (set_t w i st0) = Some (\<lparr>x_buf = mkbuf (take 12 ?mem) [] (drop 12 ?mem), x_tun = i, x_retries = 0\<rparr>,
      (set_t w i (st0\<lparr>allocs := allocs st + 1\<rparr>))\<lparr>news := news w + 1\<rparr>)"
    using i al mem new_outgoing_mk [of ?mem] by (simp add: new_outgoing_for_def get_set_t next_alloc_def st0_def) (simp add: set_t_def)
  have "call_wf (calls st ! c)" using w(2) c by (simp add: tunnel_ok_def l2tp_wf_def)
  then have "length (c_errormsg cl) = 120"
    using c by (simp add: cl_def st1_def after_closing_def default_result_def Let_def call_wf_def)
  then have "length (c_string (c_errormsg cl)) \<le> 120" using length_c_string [of "c_errormsg cl"] by simp
  then have len: "length ?body < length (drop 12 ?mem)"
    using mem a(3,4) by (simp add: closing_body_def st1_def after_closing_def)
  have st1c: "c < length (calls st1)" "control_seq_num st1 = control_seq_num st" "t_hbit st1 = t_hbit st" "t_cLr st1 = t_cLr st"
    using c by (simp_all add: st1_def after_closing_def)
  obtain junk where junk: "close_avps type own_id call_id st1 cl (mkbuf (take 12 ?mem) [] (drop 12 ?mem)) = Some (mkbuf (take 12 ?mem) ?body junk)"
    using appendsD [OF close_avps_appends [OF a(1,2)] len, of "take 12 ?mem" "[]"] by auto
  have hdr: "add_control_hdr st1 c (mkbuf (take 12 ?mem) ?body junk) = Some (st1\<lparr>control_seq_num := control_seq_num st1 + 1\<rparr>,
      mkbuf [] (net_words (control_words st1 cl (length ?body + 12)) @ ?body) junk)"
    using add_control_hdr_at [OF _ st1c(1)] mem by (simp add: cl_def)
  let ?b = "mkbuf [] (net_words (control_words st1 cl (length ?body + 12)) @ ?body) junk"
  let ?w = "(set_t w i (st1\<lparr>control_seq_num := control_seq_num st + 1\<rparr>))\<lparr>news := news w + 1,
         randoms := (if t_hbit st then randoms w + 1 else randoms w)\<rparr>"
  have x: "xmit (\<lambda>_ _. None) \<lparr>x_buf = ?b, x_tun = i, x_retries = 0\<rparr> ?w = Some (first_sent \<lparr>x_buf = ?b, x_tun = i, x_retries = 0\<rparr> ?w)"
  proof (rule xmit_first)
    show "get_t ?w (x_tun \<lparr>x_buf = ?b, x_tun = i, x_retries = 0\<rparr>) = Some (st1\<lparr>control_seq_num := control_seq_num st + 1\<rparr>)"
      using i by (simp add: get_t_def set_t_def)
    show "msg_ns (x_buf \<lparr>x_buf = ?b, x_tun = i, x_retries = 0\<rparr>) = Some (htons (control_seq_num st))"
      using msg_ns_at [of st1 cl "length ?body + 12" ?body junk] st1c(2) by simp
  qed (use q st1c(4) w(3) in \<open>simp_all add: roomy_def set_t_def\<close>)
  define sta where "sta = st0\<lparr>allocs := allocs st + 1\<rparr>"
  define wa where "wa = (set_t w i sta)\<lparr>news := news w + 1\<rparr>"
  have e1: "upd_c st c (\<lambda>cl. cl\<lparr>c_closeSs := control_seq_num st\<rparr>) = Some st0" using c by (simp add: upd_c_Some st0_def)
  have e2: "get_t wa i = Some sta" "random wa (randoms wa) = ?rnd" using i by (simp_all add: wa_def get_t_def set_t_def)
  have e3: "upd_c (if t_hbit sta then sta\<lparr>them_vector := ?rnd\<rparr> else sta) c default_result = Some st1"
    using c by (simp add: upd_c_Some sta_def st0_def st1_def after_closing_def)
  have e4: "set_t (if t_hbit sta then wa\<lparr>randoms := randoms wa + 1\<rparr> else wa) i (st1\<lparr>control_seq_num := control_seq_num st1 + 1\<rparr>) = ?w"
    using st1c by (simp add: wa_def sta_def st0_def set_t_def)
  have e5: "get_c st1 c = Some cl" using st1c(1) by (simp add: get_c_Some cl_def)
  have "send_closing type own_id call_id i c w = xmit (\<lambda>_ _. None) \<lparr>x_buf = ?b, x_tun = i, x_retries = 0\<rparr> ?w"
    by (simp only: send_closing_def w(1) e1 new [folded sta_def, folded wa_def] e2 e3 e4 e5 junk hdr bind.bind_lunit
        prod.case Let_def xbuf.simps)
  then show ?thesis using x unfolding cl_def by (intro exI [of _ junk]) (simp only:)
qed

section \<open>A peer that never answers\<close>

text \<open>The daemon serves just the tunnel \<open>i\<close>; \<open>m\<close> is the configured number of transmissions.\<close>

definition serves :: "nat \<Rightarrow> l2tp \<Rightarrow> (nat \<Rightarrow> timeval) \<Rightarrow> (nat \<Rightarrow> lac_state) \<Rightarrow> nat \<Rightarrow> world \<Rightarrow> bool" where
  "serves i st clk la m w \<longleftrightarrow> roomy w \<and> tlist w = [i] \<and> get_t w i = Some st \<and> clock w = clk \<and> lac_states w = la \<and> max_retries w = int m"

definition unbounded :: "(nat \<Rightarrow> timeval) \<Rightarrow> bool" where
  "unbounded clk \<longleftrightarrow> (\<forall>T. \<exists>n0. \<forall>n\<ge>n0. T \<le> clk n)"

definition self_of :: "l2tp \<Rightarrow> l2call" where "self_of st = calls st ! t_self st"

lemma self_get: "tunnel_ok st \<Longrightarrow> get_c st (t_self st) = Some (self_of st) \<and> t_self st < length (calls st)"
  by (simp add: tunnel_ok_def l2tp_wf_def get_c_Some self_of_def)

lemma close_pending_quiet:
  assumes "tlist w = [i]" "get_t w i = Some st" "tunnel_ok st" "t_call_head st = None" "\<not> pending (self_of st)"
  shows "close_pending (tlist w) w = Some w"
  using assms self_get [OF assms(3)]
  by (subst close_pending.simps) (simp add: close_pending_calls.simps, subst close_pending.simps, simp)

lemma serves_cong:
  "serves i st clk la m w \<Longrightarrow> tuns w' = tuns w \<Longrightarrow> tlist w' = tlist w \<Longrightarrow> clock w' = clock w \<Longrightarrow> lac_states w' = lac_states w \<Longrightarrow> max_retries w' = max_retries w \<Longrightarrow>
    fresh w' = fresh w \<Longrightarrow> random w' = random w \<Longrightarrow> serves i st clk la m w'"
  by (simp add: serves_def roomy_def get_t_def split: if_splits)

text \<open>Sent once more: the message waits again, alone in the queue.\<close>

lemma resent:
  assumes "events w = []"
  shows "\<exists>p. events (udp_xmit b (snd (schedule tv e w))) = [p] \<and> e_fn p = e"
    "sent (udp_xmit b (snd (schedule tv e w))) = sent w @ [sent_bytes b]"
    "serves i st clk la m w \<Longrightarrow> serves i st clk la m (udp_xmit b (snd (schedule tv e w)))"
  using assms by (auto simp: udp_xmit_def schedule_def gettimeofday_def elim: serves_cong)

lemma retransmit:
  assumes "serves i st clk la m w" "events w = [p]" "e_fn p = Control_xmit (x\<lparr>x_retries := int r\<rparr>)"
    and st: "tunnel_ok st" "t_call_head st = None" "\<not> pending (self_of st)" "unbounded clk"
    and x: "x_tun x = i" "msg_ns (x_buf x) = Some (htons s)" "t_cLr st \<le> uint s"
    and "r \<le> m"
    and given_up: "\<And>w'. serves i st clk la m w' \<Longrightarrow> events w' = [] \<Longrightarrow>
      sent w' = sent w @ replicate (m - r) (sent_bytes (x_buf x)) \<Longrightarrow>
      \<exists>w1. xmit close_tunnel (x\<lparr>x_retries := int m\<rparr>) w' = Some w1 \<and> settles dial w1 Q"
  shows "settles dial w Q"
  using assms(1-3,11,12)
proof (induction "m - r" arbitrary: r w p)
  case 0
  note prems = this
  show ?case
  proof (rule eventually_fires [OF prems(3)])
    fix n
    have "serves i st clk la m (w\<lparr>readings := n\<rparr>)" by (rule serves_cong [OF prems(2)]) simp_all
    then show "close_pending (tlist w) (w\<lparr>readings := n\<rparr>) = Some (w\<lparr>readings := n\<rparr>)"
      using close_pending_quiet [of "w\<lparr>readings := n\<rparr>" i st] st prems(2) by (simp add: serves_def)
    have "serves i st clk la m (w\<lparr>readings := n, events := []\<rparr>)" by (rule serves_cong [OF prems(2)]) simp_all
    then show "\<exists>w1. run_event dial (e_fn p) (w\<lparr>readings := n, events := []\<rparr>) = Some w1 \<and> settles dial w1 Q"
      using prems(6) [of "w\<lparr>readings := n, events := []\<rparr>"] prems(1,4,5) by (simp add: run_event_def control_xmit_def)
  qed (use st(4) prems(2) in \<open>simp add: unbounded_def serves_def\<close>)
next
  case (Suc k)
  note prems = this
  show ?case
  proof (rule eventually_fires [OF prems(4)])
    fix n
    have "serves i st clk la m (w\<lparr>readings := n\<rparr>)" by (rule serves_cong [OF prems(3)]) simp_all
    then show "close_pending (tlist w) (w\<lparr>readings := n\<rparr>) = Some (w\<lparr>readings := n\<rparr>)"
      using close_pending_quiet [of "w\<lparr>readings := n\<rparr>" i st] st prems(3) by (simp add: serves_def)
    let ?w = "w\<lparr>readings := n, events := []\<rparr>"
    let ?w1 = "udp_xmit (x_buf x) (snd (schedule (backoff (int (r + 1))) (Control_xmit (x\<lparr>x_retries := int (r + 1)\<rparr>)) ?w))"
    have s: "serves i st clk la m ?w" by (rule serves_cong [OF prems(3)]) simp_all
    have "run_event dial (e_fn p) ?w = Some ?w1"
      using xmit_again [of ?w "x\<lparr>x_retries := int r\<rparr>" st s close_tunnel] s x prems(2,5)
      by (simp add: run_event_def control_xmit_def serves_def add.commute)
    moreover have "settles dial ?w1 Q"
    proof -
      have "\<exists>q. events ?w1 = [q] \<and> e_fn q = Control_xmit (x\<lparr>x_retries := int (r + 1)\<rparr>)" by (rule resent(1)) simp
      then obtain q where q: "events ?w1 = [q]" "e_fn q = Control_xmit (x\<lparr>x_retries := int (r + 1)\<rparr>)" by blast
      have "k = m - (r + 1)" "r + 1 \<le> m" using prems(2) by simp_all
      moreover have "sent ?w1 = sent w @ [sent_bytes (x_buf x)]" using resent(2) [of ?w] by simp
      then have "sent ?w1 @ replicate (m - (r + 1)) (sent_bytes (x_buf x)) = sent w @ replicate (m - r) (sent_bytes (x_buf x))"
        using prems(2) \<open>k = m - (r + 1)\<close> by (simp flip: prems(2))
      moreover have "serves i st clk la m ?w1" by (rule resent(3) [OF _ s]) simp
      ultimately show ?thesis using prems(1) [of "r + 1" ?w1 q] q prems(7) by simp
    qed
    ultimately show "\<exists>w1. run_event dial (e_fn p) ?w = Some w1 \<and> settles dial w1 Q" by blast
  qed (use st(4) prems(3) in \<open>simp add: unbounded_def serves_def\<close>)
qed

text \<open>The entries that are dialled again when a tunnel of \<open>lac\<close> is destroyed.\<close>

definition redials :: "peer_conf option \<Rightarrow> world \<Rightarrow> peer_conf list" where
  "redials lac w = (case lac of None \<Rightarrow> [] | Some l \<Rightarrow> if redial_due l w then [l] else [])"

lemma redials_cong: "lac_states w' = lac_states w \<Longrightarrow> redials lac w' = redials lac w"
  by (simp add: redials_def redial_due_def lac_state_def split: option.split)

lemma destroy_tunnel_alone:
  assumes "get_t w i = Some st" "t_call_head st = None" "t_self st < length (calls st)" "c_lac (calls st ! t_self st) = t_lac st"
    and "events w = []"
  shows "\<exists>w'. destroy_tunnel i w = Some w' \<and> get_t w' i = None \<and> tlist w' = remove1 i (tlist w) \<and> sent w' = sent w \<and>
    clock w' = clock w \<and> (redials (t_lac st) w \<noteq> [] \<longrightarrow> readings w' = readings w + 1) \<and>
    events w' = map (\<lambda>l. \<lparr>e_ptr = next_ptr w, e_tv = add_time (clock w (readings w)) (TV (pc_rtimeout l) 0), e_fn = Dial_event l\<rparr>)
      (redials (t_lac st) w) \<and> (\<forall>l. t_lac st = Some l \<longrightarrow> la_tun (lac_state w' l) = None)"
proof -
  have i: "i < length (tuns w)" using assms(1) by (rule get_t_lt)
  have a: "destroy_calls i None w = Some w" by (simp add: destroy_calls.simps)
  show ?thesis
  proof (cases "t_lac st")
    case None
    then show ?thesis using assms i a
      by (auto simp: destroy_tunnel_def destroy_call_def release_call_def unlink_call_def upd_c_Some get_c_Some redials_def get_t_def set_t_def
        Let_def)
  next
    case (Some l)
    then show ?thesis using assms i a
      by (cases "redial_due l w")
        (auto simp: destroy_tunnel_def destroy_call_def release_call_def unlink_call_def upd_c_Some get_c_Some redials_def get_t_def set_t_def
          redial_def redial_due_def upd_lac_def lac_state_def schedule_def gettimeofday_def Let_def)
  qed
qed

text \<open>The second time: the closing message was not acknowledged either.\<close>

lemma give_up_last:
  assumes s: "serves i st clk la m w" "events w = []" and st: "tunnel_ok st" "t_call_head st = None" "c_needclose (self_of st) \<noteq> 0"
      "c_lac (self_of st) = t_lac st"
    and x: "x_tun x = i" "msg_ns (x_buf x) = Some (htons s)" "t_cLr st \<le> uint s" "x_retries x = int m"
  shows "\<exists>w1 a n. xmit close_tunnel x w = Some w1 \<and> get_t w1 i = None \<and> tlist w1 = [] \<and> sent w1 = sent w \<and> clock w1 = clk \<and>
    (redials (t_lac st) w \<noteq> [] \<longrightarrow> readings w1 = n + 1) \<and>
    events w1 = map (\<lambda>l. \<lparr>e_ptr = a, e_tv = add_time (clk n) (TV (pc_rtimeout l) 0), e_fn = Dial_event l\<rparr>) (redials (t_lac st) w) \<and>
    (\<forall>l. t_lac st = Some l \<longrightarrow> la_tun (lac_state w1 l) = None)"
proof -
  have g: "get_t w i = Some st" "i < length (tuns w)" using s(1) by (auto simp: serves_def dest: get_t_lt)
  note self = self_get [OF st(1)]
  define st' where "st' = st\<lparr>calls := (calls st)[t_self st := (self_of st)\<lparr>c_needclose := 0, c_closing := -1\<rparr>]\<rparr>"
  have u: "upd_c st (t_self st) (\<lambda>c. c\<lparr>c_needclose := 0, c_closing := -1\<rparr>) = Some st'"
    using self by (simp add: upd_c_Some st'_def self_of_def)
  have first: "xmit close_tunnel x w = close_tunnel i (set_t w i st')"
    using g x st(3) self u s(1) by (simp add: xmit_def serves_def)
  define w2 where "w2 = deschedule_tunnel i (set_t w i st')"
  have w2: "get_t w2 i = Some st'" "events w2 = []" "tlist w2 = [i]" "sent w2 = sent w" "clock w2 = clk" "lac_states w2 = lac_states w"
    using g(2) s by (simp_all add: w2_def deschedule_tunnel_def set_t_def get_t_def serves_def)
  have close: "close_tunnel i (set_t w i st') = destroy_tunnel i w2"
    using g(2) self by (simp add: close_tunnel_def get_set_t get_c_Some st'_def w2_def)
  have st': "t_call_head st' = None" "t_self st' < length (calls st')" "c_lac (calls st' ! t_self st') = t_lac st'" "t_lac st' = t_lac st"
    using self st(2,4) by (simp_all add: st'_def)
  from destroy_tunnel_alone [OF w2(1) st'(1-3) w2(2)] obtain w1 where "destroy_tunnel i w2 = Some w1" "get_t w1 i = None" "tlist w1 = []"
    "sent w1 = sent w" "clock w1 = clk" "redials (t_lac st) w \<noteq> [] \<longrightarrow> readings w1 = readings w2 + 1"
    "events w1 = map (\<lambda>l. \<lparr>e_ptr = next_ptr w2, e_tv = add_time (clk (readings w2)) (TV (pc_rtimeout l) 0), e_fn = Dial_event l\<rparr>)
      (redials (t_lac st) w)" "\<forall>l. t_lac st = Some l \<longrightarrow> la_tun (lac_state w1 l) = None"
    by (auto simp: w2 st'(4) redials_cong [OF w2(6)])
  then show ?thesis using first close by (intro exI [of _ w1] exI [of _ "next_ptr w2"] exI [of _ "readings w2"] conjI) simp_all
qed

text \<open>
  A clock whose readings are less than a second apart: a dial that was just scheduled is not due at the next reading. The
  event queue is then left as it is.
\<close>

definition steady :: "(nat \<Rightarrow> timeval) \<Rightarrow> bool" where
  "steady clk \<longleftrightarrow> (\<forall>n. normal (clk n) \<and> micros (clk (n + 1)) < micros (clk n) + 1000000)"

lemma steady_later:
  assumes "steady clk" "0 < s"
  shows "\<not> add_time (clk n) (TV s 0) \<le> clk (n + 1)"
proof -
  have "normal (clk n)" "normal (clk (n + 1))" "micros (clk (n + 1)) < micros (clk n) + 1000000" using assms(1) by (auto simp: steady_def)
  then show ?thesis using assms(2)
    by (cases "clk n"; cases "clk (n + 1)")
      (auto simp: add_time_def normal_def micros_def less_eq_timeval_def TVLESSEQ_def simp del: TVLESS_less)
qed

lemma settled:
  assumes ev: "events w = map (\<lambda>l. \<lparr>e_ptr = a, e_tv = add_time (clock w n) (TV (pc_rtimeout l) 0), e_fn = Dial_event l\<rparr>) ls"
    and ls: "length ls \<le> 1" "\<forall>l\<in>set ls. 0 < pc_rtimeout l" "ls \<noteq> [] \<longrightarrow> steady (clock w) \<and> readings w = n + 1"
    and q: "\<And>r. Q (w\<lparr>readings := r\<rparr>)"
  shows "settles dial w Q"
proof (cases ls)
  case Nil
  have "Q w" using q [of "readings w"] by simp
  then show ?thesis using Nil ev unfolding settles_def
    by (intro exI [of _ None] exI [of _ w] exI [of _ "0 :: nat"]) (simp add: process_schedule.simps)
next
  case (Cons l ls')
  then have "ls = [l]" using ls(1) by simp
  moreover from this have "\<not> add_time (clock w n) (TV (pc_rtimeout l) 0) \<le> clock w (n + 1)" using ls(2,3) steady_later by simp
  ultimately show ?thesis using ev ls(3) q [of "n + 2"] unfolding settles_def
    by (intro exI exI [of _ "w\<lparr>readings := n + 2\<rparr>"] exI [of _ "0 :: nat"]) (auto simp: process_schedule.simps [of _ w] gettimeofday_def)
qed

lemma redials_one: "length (redials lac w) \<le> 1 \<and> (\<forall>l\<in>set (redials lac w). 0 < pc_rtimeout l)"
  by (auto simp: redials_def redial_due_def split: option.split)

definition is_stop :: "byte_buf \<Rightarrow> bool" where
  "is_stop bs \<longleftrightarrow> (\<exists>h b. length h = 12 \<and> bs = h @ avp_bytes 0x8008 0 (be16_bytes 4) @ b)"

lemma is_stop_closing: "is_stop (net_words (control_words a cl n) @ closing_body (word_of_int StopCCN) own call st cl')"
proof -
  obtain b where "closing_body (word_of_int StopCCN) own call st cl' = avp_bytes 0x8008 0 (be16_bytes 4) @ b"
    unfolding closing_body_def by simp
  moreover have "length (net_words (control_words a cl n)) = 12" by (simp add: control_words_def)
  ultimately show ?thesis unfolding is_stop_def by (simp only:) blast
qed

lemma tunnel_ok_update:
  assumes "tunnel_ok st" "c < length (calls st)" "call_wf (calls st ! c) \<Longrightarrow> call_wf cl"
  shows "tunnel_ok (st\<lparr>control_seq_num := s, calls := (calls st)[c := cl]\<rparr>)"
proof -
  have "call_wf cl" using assms wf_call by (auto simp: tunnel_ok_def)
  then have "l2tp_wf (st\<lparr>calls := (calls st)[c := cl]\<rparr>)"
    using wf_upd_c [of st c "\<lambda>_. cl"] assms(1,2) unfolding tunnel_ok_def by blast
  then show ?thesis using assms(1) by (simp add: tunnel_ok_def l2tp_wf_def)
qed

lemma after_closing_ok:
  assumes "tunnel_ok st" "c < length (calls st)"
  shows "tunnel_ok (after_closing st c rnd)"
proof -
  let ?cl = "default_result ((calls st ! c)\<lparr>c_closeSs := control_seq_num st\<rparr>)"
  have "call_wf (calls st ! c) \<Longrightarrow> call_wf ?cl" by (simp add: call_wf_def default_result_def Let_def)
  from tunnel_ok_update [OF assms this, of "control_seq_num st"] show ?thesis
    by (simp add: tunnel_ok_def l2tp_wf_def after_closing_def)
qed

text \<open>The first time: the tunnel is marked and the closing message is sent.\<close>

lemma give_up_first:
  assumes s: "serves i st clk la m w" "events w = []" and st: "tunnel_ok st" "t_call_head st = None" "t_cLr st \<le> uint (control_seq_num st)"
      "c_needclose (self_of st) = 0" "c_closing (self_of st) = 0"
    and x: "x_tun x = i" "msg_ns (x_buf x) = Some (htons s)" "t_cLr st \<le> uint s" "x_retries x = int m"
  shows "\<exists>w1 st1 p x1 s1. xmit close_tunnel x w = Some w1 \<and> serves i st1 clk la m w1 \<and> events w1 = [p] \<and>
    e_fn p = Control_xmit (x1\<lparr>x_retries := int 1\<rparr>) \<and> x_tun x1 = i \<and> msg_ns (x_buf x1) = Some (htons s1) \<and> t_cLr st1 \<le> uint s1 \<and>
    tunnel_ok st1 \<and> t_call_head st1 = None \<and> \<not> pending (self_of st1) \<and> c_needclose (self_of st1) \<noteq> 0 \<and>
    sent w1 = sent w @ [sent_bytes (x_buf x1)] \<and> is_stop (sent_bytes (x_buf x1)) \<and>
    t_lac st1 = t_lac st \<and> c_lac (self_of st1) = c_lac (self_of st)"
proof -
  have g: "get_t w i = Some st" "i < length (tuns w)" using s(1) by (auto simp: serves_def dest: get_t_lt)
  note self = self_get [OF st(1)]
  have cw: "length (c_errormsg (self_of st)) = 120" "call_wf (self_of st)"
    using wf_call [of st "t_self st"] st(1) self by (simp_all add: tunnel_ok_def self_of_def call_wf_def)
  obtain msg where msg: "wr_bytes (c_errormsg (self_of st)) 0 (timeout_text @ [0]) = Some msg" "length msg = 120"
    using cw(1) by (simp add: wr_bytes_def timeout_text_def msg_bytes_def)
  define st' where "st' = st\<lparr>calls := (calls st)[t_self st := (self_of st)\<lparr>c_errormsg := msg, c_needclose := -1\<rparr>]\<rparr>"
  have u: "upd_c st (t_self st) (\<lambda>c. c\<lparr>c_errormsg := msg, c_needclose := -1\<rparr>) = Some st'"
    using self by (simp add: upd_c_Some st'_def self_of_def)
  have f': "t_self st' = t_self st" "t_call_head st' = None" "length (calls st') = length (calls st)"
    "calls st' ! t_self st = (self_of st)\<lparr>c_errormsg := msg, c_needclose := -1\<rparr>"
    "t_cLr st' = t_cLr st" "control_seq_num st' = control_seq_num st"
    using self st(2) by (simp_all add: st'_def)
  have ok': "tunnel_ok st'"
    using st(1) cw msg(2) self wf_upd_c [of st "t_self st" "\<lambda>c. c\<lparr>c_errormsg := msg, c_needclose := -1\<rparr>"]
    by (auto simp: tunnel_ok_def st'_def call_wf_def self_of_def)
  define w0 where "w0 = set_t w i st'"
  have w0: "get_t w0 i = Some st'" "roomy w0" "events w0 = []" "deschedule_tunnel i w0 = w0"
    using g(2) s by (simp_all add: w0_def get_set_t serves_def roomy_def deschedule_tunnel_def) (simp_all add: set_t_def)
  have first: "xmit close_tunnel x w = close_tunnel i w0"
    using g x st(4) self u s(1) msg(1) by (simp add: xmit_def serves_def w0_def)
  define st1 where "st1 = after_closing st' (t_self st) (random w0 (randoms w0))"
  let ?own = "avp_bytes 0x8008 9 (be16_bytes (word_of_int (t_ourtid st')))"
  let ?body = "closing_body (word_of_int StopCCN) ?own [] st1 (calls st1 ! t_self st)"
  have "appends (add_tunnelid_avp (word_of_int (t_ourtid st'))) ?own" by (rule appends_intros)
  from send_closing_ok [OF w0(1) ok' w0(2), of "t_self st", OF _ _ this appends_none, of "word_of_int StopCCN"] self st(3) f'
  obtain junk where snd: "send_closing (word_of_int StopCCN) (add_tunnelid_avp (word_of_int (t_ourtid st'))) Some i (t_self st) w0 =
      Some (first_sent \<lparr>x_buf = mkbuf [] (net_words (control_words st1 (calls st1 ! t_self st) (length ?body + 12)) @ ?body) junk,
        x_tun = i, x_retries = 0\<rparr> ((set_t w0 i (st1\<lparr>control_seq_num := control_seq_num st' + 1\<rparr>))\<lparr>news := news w0 + 1,
         randoms := (if t_hbit st' then randoms w0 + 1 else randoms w0)\<rparr>))"
    by (auto simp: st1_def)
  define x1 where "x1 = \<lparr>x_buf = mkbuf [] (net_words (control_words st1 (calls st1 ! t_self st) (length ?body + 12)) @ ?body) junk,
      x_tun = i, x_retries = 0\<rparr>"
  define w1 where "w1 = (set_t w0 i (st1\<lparr>control_seq_num := control_seq_num st' + 1\<rparr>))\<lparr>news := news w0 + 1,
      randoms := (if t_hbit st' then randoms w0 + 1 else randoms w0)\<rparr>"
  define st2 where "st2 = st1\<lparr>control_seq_num := control_seq_num st' + 1,
      calls := (calls st1)[t_self st := (calls st1 ! t_self st)\<lparr>c_closing := -1\<rparr>]\<rparr>"
  have st1: "t_self st1 = t_self st" "t_call_head st1 = None" "t_cLr st1 = t_cLr st" "control_seq_num st1 = control_seq_num st"
    "length (calls st1) = length (calls st)" "c_needclose (calls st1 ! t_self st) = -1"
    using f' self by (simp_all add: st1_def after_closing_def default_result_def Let_def)
  have lac: "t_lac st2 = t_lac st" "c_lac (self_of st2) = c_lac (self_of st)"
    using f' self st1(5) by (simp_all add: st2_def st1_def st'_def after_closing_def default_result_def Let_def self_of_def)
  have sent1: "get_t (first_sent x1 w1) i = Some (st1\<lparr>control_seq_num := control_seq_num st' + 1\<rparr>)"
    "sent (first_sent x1 w1) = sent w @ [sent_bytes (x_buf x1)]"
    "\<exists>p. events (first_sent x1 w1) = [p] \<and> e_fn p = Control_xmit (x1\<lparr>x_retries := int 1\<rparr>)"
    using g(2) s(2) by (simp_all add: first_sent_def udp_xmit_def schedule_def gettimeofday_def w1_def w0_def set_t_def get_t_def)
  note snd = snd [folded x1_def w1_def]
  have mark: "mark_closing i (t_self st) (first_sent x1 w1) = Some (set_t (first_sent x1 w1) i st2)"
    using sent1(1) self st1(5) by (simp add: mark_closing_def upd_c_Some st2_def)
  have "close_members i None (first_sent x1 w1) = Some (first_sent x1 w1)" by (simp add: close_members.simps)
  moreover have "get_c st' (t_self st) = Some (calls st' ! t_self st)" using f'(3) self by (simp add: get_c_Some)
  moreover have "c_closing (calls st' ! t_self st) = 0" using f'(4) st(5) by simp
  ultimately have "close_tunnel i w0 = Some (set_t (first_sent x1 w1) i st2)"
    using sent1(1) st1(1,2) snd mark by (simp add: close_tunnel_def w0 f'(1))
  then have "xmit close_tunnel x w = Some (set_t (first_sent x1 w1) i st2)" using first by simp
  moreover have "serves i st2 clk la m (set_t (first_sent x1 w1) i st2)"
    using s(1) g(2) by (simp add: serves_def roomy_def first_sent_def udp_xmit_def schedule_def gettimeofday_def w1_def w0_def set_t_def get_t_def)
  moreover obtain p where "events (set_t (first_sent x1 w1) i st2) = [p]" "e_fn p = Control_xmit (x1\<lparr>x_retries := int 1\<rparr>)"
    using sent1(3) by (auto simp: set_t_def)
  moreover have "msg_ns (x_buf x1) = Some (htons (control_seq_num st))" using msg_ns_at st1(4) by (simp add: x1_def)
  moreover have "tunnel_ok st1" unfolding st1_def using ok' f'(1,3) self by (intro after_closing_ok) simp_all
  then have "tunnel_ok st2" unfolding st2_def using self st1(5) by (intro tunnel_ok_update) (simp_all add: call_wf_def)
  moreover have "\<not> pending (self_of st2)" "c_needclose (self_of st2) \<noteq> 0"
    using st1 self by (simp_all add: self_of_def st2_def pending_def)
  moreover have "is_stop (sent_bytes (x_buf x1))"
    by (simp only: x1_def xbuf.simps sent_mkbuf is_stop_closing)
  moreover have "sent (set_t (first_sent x1 w1) i st2) = sent w @ [sent_bytes (x_buf x1)]" using sent1(2) by (simp add: set_t_def)
  moreover have "t_call_head st2 = None" "t_cLr st2 \<le> uint (control_seq_num st)" "x_tun x1 = i"
    using st1 st(3) by (simp_all add: st2_def x1_def)
  ultimately show ?thesis using lac by blast
qed

text \<open>
  C9: liveness of the reliable delivery. The daemon has one tunnel, without calls, and nothing else is scheduled. A control message
  for it that its peer never acknowledges is sent \<open>max_retries\<close> times, then a \<open>StopCCN\<close> is sent \<open>max_retries\<close> times, then the tunnel
  is destroyed: if the clock goes on, some number of rounds of the main loop gets there without a fault. What is left in the
  event queue is the redial of the tunnel's LAC entry, if it has one that is active, has \<open>redial\<close> set with a positive timeout
  and has no dial scheduled yet, and otherwise nothing; the entry no longer points to the tunnel. If there is such a redial, the
  readings of the clock have to be less than a second apart, so that it is not carried out at once. \<open>dial\<close> stands for what it does.
\<close>

theorem dead_peer_given_up:
  assumes w: "tlist w = [i]" "get_t w i = Some st" "events w = []" "roomy w" "max_retries w = int m" "unbounded (clock w)"
    and st: "tunnel_ok st" "t_call_head st = None" "t_cLr st \<le> uint (control_seq_num st)"
      "c_needclose (calls st ! t_self st) = 0" "c_closing (calls st ! t_self st) = 0" "c_lac (calls st ! t_self st) = t_lac st"
    and x: "x_tun x = i" "x_retries x = 0" "msg_ns (x_buf x) = Some (htons s)" "t_cLr st \<le> uint s"
    and steady: "redials (t_lac st) w \<noteq> [] \<longrightarrow> steady (clock w)"
  shows "\<exists>w1 k w' stop. control_xmit x w = Some w1 \<and> idle_rounds dial k w1 = Some w' \<and>
    get_t w' i = None \<and> tlist w' = [] \<and> map e_fn (events w') = map Dial_event (redials (t_lac st) w) \<and>
    (\<forall>l. t_lac st = Some l \<longrightarrow> la_tun (lac_state w' l) = None) \<and>
    sent w' = sent w @ replicate m (sent_bytes (x_buf x)) @ replicate m stop \<and> is_stop stop"
proof -
  have m: "1 \<le> m" using w(4,5) by (simp add: roomy_def)
  define Q where "Q w' \<longleftrightarrow> (\<exists>stop. get_t w' i = None \<and> tlist w' = [] \<and> map e_fn (events w') = map Dial_event (redials (t_lac st) w) \<and>
    (\<forall>l. t_lac st = Some l \<longrightarrow> la_tun (lac_state w' l) = None) \<and>
    sent w' = sent w @ replicate m (sent_bytes (x_buf x)) @ replicate m stop \<and> is_stop stop)" for w'
  have s: "serves i st (clock w) (lac_states w) m w" using w by (simp add: serves_def)
  have xm: "x_retries (y\<lparr>x_retries := n\<rparr>) = n" "x_tun (y\<lparr>x_retries := n\<rparr>) = x_tun y" "x_buf (y\<lparr>x_retries := n\<rparr>) = x_buf y" for y n
    by simp_all
  let ?w1 = "first_sent x w"
  have w1: "control_xmit x w = Some ?w1" unfolding control_xmit_def using w x m by (intro xmit_first) simp_all
  obtain p where p: "events ?w1 = [p]" "e_fn p = Control_xmit (x\<lparr>x_retries := int 1\<rparr>)"
    using resent(1) [OF w(3), of "x_buf x" "TV 1 0" "Control_xmit (x\<lparr>x_retries := 1\<rparr>)"] by (auto simp: first_sent_def)
  have s1: "serves i st (clock w) (lac_states w) m ?w1" "sent ?w1 = sent w @ [sent_bytes (x_buf x)]"
    using resent(2,3) [OF w(3)] s by (simp_all add: first_sent_def)
  have np: "\<not> pending (self_of st)" using st(4,5) by (simp add: pending_def self_of_def)
  have "settles dial ?w1 Q"
  proof (rule retransmit [OF s1(1) p st(1,2) np w(6) x(1,3,4) m])
    fix w2 assume w2: "serves i st (clock w) (lac_states w) m w2" "events w2 = []" "sent w2 = sent ?w1 @ replicate (m - 1) (sent_bytes (x_buf x))"
    from give_up_first [OF w2(1,2) st(1-3), of "x\<lparr>x_retries := int m\<rparr>" s] st(4,5) x
    obtain w3 st1 p1 x1 s1 where w3: "xmit close_tunnel (x\<lparr>x_retries := int m\<rparr>) w2 = Some w3" "serves i st1 (clock w) (lac_states w) m w3"
      "events w3 = [p1]" "e_fn p1 = Control_xmit (x1\<lparr>x_retries := int 1\<rparr>)" "x_tun x1 = i" "msg_ns (x_buf x1) = Some (htons s1)"
      "t_cLr st1 \<le> uint s1" "tunnel_ok st1" "t_call_head st1 = None" "\<not> pending (self_of st1)" "c_needclose (self_of st1) \<noteq> 0"
      "sent w3 = sent w2 @ [sent_bytes (x_buf x1)]" "is_stop (sent_bytes (x_buf x1))" "t_lac st1 = t_lac st" "c_lac (self_of st1) = c_lac (self_of st)"
      unfolding xm self_of_def [of st] by blast
    have "settles dial w3 Q"
    proof (rule retransmit [OF w3(2-4,8-10) w(6) w3(5-7) m])
      fix w4 assume w4: "serves i st1 (clock w) (lac_states w) m w4" "events w4 = []" "sent w4 = sent w3 @ replicate (m - 1) (sent_bytes (x_buf x1))"
      have lac: "c_lac (self_of st1) = t_lac st1" using w3(14,15) st(6) by (simp add: self_of_def)
      have r: "redials (t_lac st) w4 = redials (t_lac st) w" by (rule redials_cong) (use w4(1) in \<open>simp add: serves_def\<close>)
      from give_up_last [OF w4(1,2) w3(8,9,11) lac, of "x1\<lparr>x_retries := int m\<rparr>" s1] w3(5-7)
      obtain w5 a n where w5: "xmit close_tunnel (x1\<lparr>x_retries := int m\<rparr>) w4 = Some w5" "get_t w5 i = None" "tlist w5 = []" "sent w5 = sent w4"
        "clock w5 = clock w" "redials (t_lac st) w \<noteq> [] \<longrightarrow> readings w5 = n + 1"
        "events w5 = map (\<lambda>l. \<lparr>e_ptr = a, e_tv = add_time (clock w n) (TV (pc_rtimeout l) 0), e_fn = Dial_event l\<rparr>) (redials (t_lac st) w)"
        "\<forall>l. t_lac st = Some l \<longrightarrow> la_tun (lac_state w5 l) = None" unfolding xm w3(14) r by blast
      obtain m' where m': "m = Suc m'" using m by (cases m) simp_all
      have "sent w5 = sent w @ replicate m (sent_bytes (x_buf x)) @ replicate m (sent_bytes (x_buf x1))"
        by (simp add: w5(4) w4(3) w3(12) w2(3) s1(2) m')
      then have "Q (w5\<lparr>readings := k\<rparr>)" for k using w5 w3(13) unfolding Q_def
        by (intro exI [of _ "sent_bytes (x_buf x1)"]) (simp add: get_t_def lac_state_def comp_def split: if_splits)
      then have "settles dial w5 Q" using w5 steady redials_one [of "t_lac st" w] by (intro settled [of w5 a n "redials (t_lac st) w"]) simp_all
      then show "\<exists>w5. xmit close_tunnel (x1\<lparr>x_retries := int m\<rparr>) w4 = Some w5 \<and> settles dial w5 Q" using w5(1) by blast
    qed
    then show "\<exists>w3. xmit close_tunnel (x\<lparr>x_retries := int m\<rparr>) w2 = Some w3 \<and> settles dial w3 Q" using w3(1) by blast
  qed
  then obtain t w2 k w' where k: "process_schedule (run_event dial) ?w1 = Some (t, w2)" "idle_rounds dial k w2 = Some w'" "Q w'"
    unfolding settles_def by blast
  have "close_pending (tlist ?w1) ?w1 = Some ?w1"
    using close_pending_quiet [OF _ _ st(1,2) np] s1(1) by (simp add: serves_def)
  then have "idle_rounds dial (Suc k) ?w1 = Some w'" using k(1,2) by (simp add: idle_round_def)
  then show ?thesis using w1 k(3) unfolding Q_def by blast
qed

definition ex_world :: world where
  "ex_world = \<lparr>events = [], next_ptr = 0, clock = (\<lambda>n. TV (int n) 0), readings = 0, tuns = [Some ex_l2tp], tlist = [0],
     sent = [], max_retries = 5, fresh = (\<lambda>_. replicate 4096 0), news = 0, random = (\<lambda>_. replicate 16 7), randoms = 0, uaddr = init_addr,
     serno = 1, pppds = [], fds = (\<lambda>n. int n + 5), opened = 0,
     lac_states = (\<lambda>_. \<lparr>la_active = True, la_rsched = None, la_rtries = 0, la_tun = Some 0, la_call = None\<rparr>)\<rparr>"

definition ex_msg :: xbuf where
  "ex_msg = \<lparr>x_buf = mkbuf [] (net_words [0xC802, 20, 0, 0, 0, 0] @ avp_bytes 0x8008 0 (be16_bytes 1)) [], x_tun = 0, x_retries = 0\<rparr>"

definition ex_entry :: peer_conf where
  "ex_entry = \<lparr>tun_rws = 4, pc_rxspeed = 0, pc_txspeed = 0, pc_hbit = False, pc_lbit = False, pc_hostname = [0], pc_peername = [0],
     pc_challenge = True, pc_lacs = [], pc_range = [], pc_assign_ip = False, pc_localaddr = 0, pc_remoteaddr = 0, pc_defaultroute = False,
     pc_authself = False, pc_authpeer = False, pc_pap_refuse = False, pc_chap_refuse = False, pc_pap_require = False, pc_chap_require = False,
     pc_passwdauth = False, pc_authname = [0], pc_password = [0], pc_debug = False, pc_pass_peer = False, pc_pppoptfile = [0],
     pc_entry = 0, pc_host = None, pc_redial = True, pc_rtimeout = 30, pc_rmax = 0\<rparr>"

text \<open>A tunnel of a LAC entry that redials, and a clock that goes on by half a second.\<close>

definition ex_dialled :: l2tp where
  "ex_dialled = ex_l2tp\<lparr>t_lac := Some ex_entry, calls := [zero_call\<lparr>c_lac := Some ex_entry\<rparr>]\<rparr>"

definition ex_redial :: world where
  "ex_redial = ex_world\<lparr>tuns := [Some ex_dialled], clock := \<lambda>n. TV (int (n div 2)) (if even n then 0 else 500000)\<rparr>"

lemma ex_clock: "unbounded (clock ex_redial)" "steady (clock ex_redial)"
proof -
  have "T \<le> clock ex_redial n" if "n \<ge> 2 * (nat (tv_sec T) + 1)" for T n
  proof -
    have "nat (tv_sec T) + 1 \<le> n div 2" using that by simp
    then have "tv_sec T < int (n div 2)" by linarith
    then show ?thesis by (simp add: ex_redial_def less_eq_timeval_def TVLESSEQ_def del: TVLESS_less)
  qed
  then show "unbounded (clock ex_redial)" unfolding unbounded_def by blast
  have "normal (clock ex_redial n) \<and> micros (clock ex_redial (n + 1)) < micros (clock ex_redial n) + 1000000" for n
    by (cases "even n") (auto simp: ex_redial_def normal_def micros_def elim!: evenE oddE)
  then show "steady (clock ex_redial)" by (simp add: steady_def)
qed

lemma dead_peer_given_up_witness:
  "\<exists>w1 k w'. control_xmit ex_msg ex_redial = Some w1 \<and> idle_rounds (\<lambda>_ _. None) k w1 = Some w' \<and> get_t w' 0 = None \<and> length (sent w') = 10 \<and>
     map e_fn (events w') = [Dial_event ex_entry]"
proof -
  have "tunnel_ok ex_dialled" by (simp add: tunnel_ok_def l2tp_wf_def ex_dialled_def ex_l2tp_def call_wf_def zero_call_def)
  moreover have "msg_ns (x_buf ex_msg) = Some (htons 0)"
    by (simp add: msg_ns_def ex_msg_def net_words_le hdr_word_mk)
  moreover have "tlist ex_redial = [0]" "get_t ex_redial 0 = Some ex_dialled" "events ex_redial = []" "roomy ex_redial"
    "max_retries ex_redial = int 5" "sent ex_redial = []"
    by (simp_all add: ex_redial_def ex_world_def get_t_def roomy_def)
  moreover have "t_call_head ex_dialled = None" "t_cLr ex_dialled = 0" "control_seq_num ex_dialled = 0" "t_lac ex_dialled = Some ex_entry"
    "c_needclose (calls ex_dialled ! t_self ex_dialled) = 0" "c_closing (calls ex_dialled ! t_self ex_dialled) = 0"
    "c_lac (calls ex_dialled ! t_self ex_dialled) = t_lac ex_dialled"
    by (simp_all add: ex_dialled_def ex_l2tp_def zero_call_def)
  moreover have "redials (Some ex_entry) ex_redial = [ex_entry]"
    by (simp add: redials_def redial_due_def lac_state_def ex_redial_def ex_world_def ex_entry_def)
  moreover have "x_tun ex_msg = 0" "x_retries ex_msg = 0" by (simp_all add: ex_msg_def)
  ultimately show ?thesis using ex_clock dead_peer_given_up [of ex_redial 0 ex_dialled 5 ex_msg 0 "\<lambda>_ _. None"] by fastforce
qed

end
