(* ===== verification/L2tp_Auth.thy ===== *)
theory L2tp_Auth
  imports L2tp_Hidden
begin

text \<open>
  Authentication and access control of \<open>aaa.c\<close>: the search for a secret in the file of secrets, the
  response to a challenge and the choice of the LNS entry for a peer.

  The file is given by its contents, \<open>None\<close> when it cannot be opened; \<open>buf\<close> is the
  array \<open>char buf[STRLEN]\<close> on the stack, which \<open>get_secret\<close> takes apart in place.
  A \<open>char\<close> is signed.
\<close>

section \<open>The file of secrets\<close>

abbreviation (input) "STRLEN \<equiv> (100 :: nat)"

text \<open>\<open>fgets (buf, n, f)\<close>: at most \<open>n - 1\<close> bytes, up to and including a newline.\<close>

definition line_length :: "nat \<Rightarrow> byte_buf \<Rightarrow> nat" where
  "line_length n f = (let k = length (takeWhile (\<lambda>b. b \<noteq> 0x0A) f) in min (n - 1) (if k < length f then k + 1 else k))"

definition fgets :: "byte_buf \<Rightarrow> nat \<Rightarrow> byte_buf \<Rightarrow> (byte_buf \<times> byte_buf) option" where
  "fgets buf n f =
     (if f = [] then None
      else let k = line_length n f in Some (take k f @ [0] @ drop (k + 1) buf, drop k f))"

text \<open>\<open>while (p (*t)) t++\<close>: the first index from \<open>t\<close> on that fails the test, a fault when there is none.\<close>

definition scan :: "(u8 \<Rightarrow> bool) \<Rightarrow> byte_buf \<Rightarrow> nat \<Rightarrow> nat option" where
  "scan p buf t = (let k = length (takeWhile p (drop t buf)) in if t + k < length buf then Some (t + k) else None)"

definition blank :: "u8 \<Rightarrow> bool" where "blank b \<longleftrightarrow> sint b < 33"

text \<open>The comment signs become the end of the string, but the rest of the line stays where it is.\<close>

definition strip_comments :: "byte_buf \<Rightarrow> byte_buf" where
  "strip_comments buf =
     map (\<lambda>b. if b = 0x23 \<or> b = 0x3B then 0 else b) (c_string buf) @ drop (length (c_string buf)) buf"

fun strip_blanks :: "nat \<Rightarrow> byte_buf \<Rightarrow> byte_buf" where
  "strip_blanks 0 buf = buf"
| "strip_blanks (Suc t) buf = (if blank (buf ! t) then strip_blanks t (buf[t := 0]) else buf)"

text \<open>The start of the word behind the one that starts at \<open>t\<close>, with a zero put between them.\<close>

definition next_word :: "(u8 \<Rightarrow> bool) \<Rightarrow> byte_buf \<Rightarrow> nat \<Rightarrow> (nat \<times> byte_buf) option" where
  "next_word inside buf t = do {
     e \<leftarrow> scan inside buf t;
     buf \<leftarrow> arr_upd buf e (\<lambda>_. 0);
     n \<leftarrow> scan (\<lambda>b. b \<noteq> 0 \<and> blank b) buf (e + 1);
     Some (n, buf) }"

definition lower :: "u8 \<Rightarrow> u8" where "lower b = (if 0x41 \<le> b \<and> b \<le> 0x5A then b + 0x20 else b)"

definition strcasecmp_eq :: "byte_buf \<Rightarrow> byte_buf \<Rightarrow> bool" where
  "strcasecmp_eq a b \<longleftrightarrow> map lower (c_string a) = map lower (c_string b)"

definition name_matches :: "byte_buf \<Rightarrow> byte_buf \<Rightarrow> bool" where
  "name_matches entry name \<longleftrightarrow> strcasecmp_eq entry name \<or> strcasecmp_eq entry [0x2A, 0]"

text \<open>What one line says: the secret if it is for these two names. \<open>Some None\<close> goes on to the next line.\<close>

definition parse_secret :: "byte_buf \<Rightarrow> byte_buf \<Rightarrow> byte_buf \<Rightarrow> (byte_buf option \<times> byte_buf) option" where
  "parse_secret us them buf = do {
     let buf = strip_comments buf;
     let buf = strip_blanks (length (c_string buf)) buf;
     if c_string buf = [] then Some (None, buf)
     else do {
       u \<leftarrow> scan (\<lambda>b. b \<noteq> 0 \<and> blank b) buf 0;
       if buf ! u = 0 then Some (None, buf)
       else do {
         (t, buf) \<leftarrow> next_word (\<lambda>b. sint b > 32) buf u;
         if buf ! t = 0 then Some (None, buf)
         else do {
           (s, buf) \<leftarrow> next_word (\<lambda>b. sint b > 33) buf t;
           if buf ! s = 0 then Some (None, buf)
           else Some (if name_matches (drop u buf) us \<and> name_matches (drop t buf) them then Some (c_string (drop s buf)) else None,
                      buf) } } } }"

text \<open>\<open>fgets\<close> takes at least one byte, so the file gets shorter.\<close>

function get_secret_loop :: "byte_buf \<Rightarrow> byte_buf \<Rightarrow> byte_buf \<Rightarrow> byte_buf \<Rightarrow> byte_buf option option" where
  "get_secret_loop us them buf f =
     (case fgets buf STRLEN f of
        None \<Rightarrow> Some None
      | Some (buf, f) \<Rightarrow> do {
          (r, buf) \<leftarrow> parse_secret us them buf;
          case r of Some s \<Rightarrow> Some (Some s) | None \<Rightarrow> get_secret_loop us them buf f })"
  by pat_completeness auto
termination
  by (relation "measure (\<lambda>(us, them, buf, f). length f)")
    (auto simp: fgets_def line_length_def Let_def min_def split: if_splits)

definition get_secret :: "byte_buf option \<Rightarrow> byte_buf \<Rightarrow> byte_buf \<Rightarrow> byte_buf \<Rightarrow> byte_buf option option" where
  "get_secret authfile buf us them = (case authfile of None \<Rightarrow> Some None | Some f \<Rightarrow> get_secret_loop us them buf f)"

section \<open>Challenges\<close>

text \<open>The names: those of the LNS entry, or else of the LAC entry, or else the machine's and the peer's own.\<close>

definition auth_names :: "byte_buf \<Rightarrow> l2tp \<Rightarrow> (byte_buf \<times> byte_buf) option" where
  "auth_names host st =
     (case (case t_lns st of Some l \<Rightarrow> Some l | None \<Rightarrow> t_lac st) of
        None \<Rightarrow> None
      | Some l \<Rightarrow> Some (if c_string (pc_hostname l) \<noteq> [] then pc_hostname l else host,
                       if c_string (pc_peername l) \<noteq> [] then pc_peername l else t_hostname st))"

definition chal_response :: "u8 \<Rightarrow> byte_buf \<Rightarrow> byte_buf option \<Rightarrow> int \<Rightarrow> byte_buf option" where
  "chal_response ss secret challenge len = do {
     challenge \<leftarrow> challenge;
     c \<leftarrow> rd_bytes challenge 0 (nat len);
     md5_of [[ss], c_string secret, c] }"

text \<open>
  \<open>handle_challenge\<close> for \<open>chal_us\<close> and for \<open>chal_them\<close>; \<open>secret\<close> is what \<open>get_secret\<close>
  finds. \<open>strncpy\<close> fills \<open>chal->secret\<close> with zeros.
\<close>

definition stored_secret :: "byte_buf \<Rightarrow> byte_buf" where
  "stored_secret s = take MAXSTRLEN (s @ replicate MAXSTRLEN 0)"

definition handle_challenge_us :: "byte_buf \<Rightarrow> (byte_buf \<Rightarrow> byte_buf \<Rightarrow> byte_buf option option) \<Rightarrow> l2tp \<Rightarrow> (int \<times> l2tp) option" where
  "handle_challenge_us host secret st =
     (case auth_names host st of
        None \<Rightarrow> Some (-1, st)
      | Some (us, them) \<Rightarrow> do {
          s \<leftarrow> secret us them;
          case s of
            None \<Rightarrow> Some (-1, st)
          | Some s \<Rightarrow> do {
              let st = st\<lparr>us_secret := stored_secret s\<rparr>;
              r \<leftarrow> chal_response (us_ss st) (us_secret st) (us_challenge st) (us_chal_len st);
              Some (0, st\<lparr>us_response := r, us_state := STATE_CHALLENGED\<rparr>) } })"

definition handle_challenge_them :: "byte_buf \<Rightarrow> (byte_buf \<Rightarrow> byte_buf \<Rightarrow> byte_buf option option) \<Rightarrow> l2tp \<Rightarrow> (int \<times> l2tp) option" where
  "handle_challenge_them host secret st =
     (case auth_names host st of
        None \<Rightarrow> Some (-1, st)
      | Some (us, them) \<Rightarrow> do {
          s \<leftarrow> secret us them;
          case s of
            None \<Rightarrow> Some (-1, st)
          | Some s \<Rightarrow> do {
              let st = st\<lparr>them_secret := stored_secret s\<rparr>;
              r \<leftarrow> chal_response (them_ss st) (them_secret st) (them_challenge st) (them_chal_len st);
              Some (0, st\<lparr>them_response := r, them_state := STATE_CHALLENGED\<rparr>) } })"

section \<open>Access control\<close>

text \<open>
  \<open>get_lns\<close>: the first entry whose ranges allow the peer's address (the last matching range decides), then the
  default entry; without access control the default entry. The list and the default entry are the configuration's.
\<close>

fun lacs_allow :: "bool \<Rightarrow> u32 \<Rightarrow> iprange list \<Rightarrow> bool" where
  "lacs_allow allow x [] = allow"
| "lacs_allow allow x (r # rs) = lacs_allow (if ntohl x \<ge> ntohl (r_start r) \<and> ntohl x \<le> ntohl (r_end r) then r_allow r else allow) x rs"

fun lns_loop :: "bool \<Rightarrow> u32 \<Rightarrow> peer_conf list \<Rightarrow> peer_conf option" where
  "lns_loop allow x [] = None"
| "lns_loop allow x (l # ls) = (let a = lacs_allow allow x (pc_lacs l) in if a then Some l else lns_loop a x ls)"

definition get_lns :: "bool \<Rightarrow> peer_conf list \<Rightarrow> peer_conf \<Rightarrow> l2tp \<Rightarrow> peer_conf option" where
  "get_lns accesscontrol lnslist deflns st =
     (case lns_loop False (t_addr st) (lnslist @ [deflns]) of
        Some l \<Rightarrow> Some l
      | None \<Rightarrow> if accesscontrol then None else Some deflns)"

end
