(* ===== verification/L2tp_Finish.thy ===== *)
theory L2tp_Finish
  imports L2tp_Control L2tp_Start L2tp_Auth
begin

text \<open>
  What the daemon does with a complete control message: \<open>control_finish\<close> of \<open>control.c\<close>, one
  definition for each message type, with the calls it opens (\<open>lac_call\<close> of \<open>xl2tpd.c\<close>) and the options it
  gives to the PPP daemon. The configuration is a constant argument; so are the resolver of host names
  and what the system gives to a tunnel the daemon opens itself.

  The password of a LAC entry is not cleared. Pipes and the first steps of starting
  the PPP daemon succeed; file descriptors are what the system hands out.
\<close>

record config =
  cf_host :: byte_buf
  cf_authfile :: "byte_buf option"
  cf_stack :: byte_buf
  cf_lnslist :: "peer_conf list"
  cf_deflns :: peer_conf
  cf_access :: bool
  cf_switch_io :: bool
  cf_resolve :: "byte_buf \<Rightarrow> u32 option"
  cf_deflac_host :: "byte_buf option"
  cf_opening :: "nat \<Rightarrow> u16 \<times> bool \<times> bool \<times> (nat \<Rightarrow> bool) \<times> (nat \<Rightarrow> u16)"

definition secret_of :: "config \<Rightarrow> byte_buf \<Rightarrow> byte_buf \<Rightarrow> byte_buf option option" where
  "secret_of cf us them = get_secret (cf_authfile cf) (cf_stack cf) us them"

section \<open>Steps the cases share\<close>

definition upd_call :: "nat \<Rightarrow> nat \<Rightarrow> (l2call \<Rightarrow> l2call) \<Rightarrow> world \<Rightarrow> world option" where
  "upd_call i c f w = do { st \<leftarrow> get_t w i; st \<leftarrow> upd_c st c f; Some (set_t w i st) }"

text \<open>\<open>set_error (...); c->needclose = -1; return -EINVAL\<close>\<close>

definition refuse :: "nat \<Rightarrow> nat \<Rightarrow> string \<Rightarrow> world \<Rightarrow> (int \<times> world) option" where
  "refuse i c text w = do {
     st \<leftarrow> get_t w i;
     st \<leftarrow> set_error st c VENDOR_ERROR (msg_bytes text);
     st \<leftarrow> upd_c st c (\<lambda>cl. cl\<lparr>c_needclose := -1\<rparr>);
     Some (- EINVAL, set_t w i st) }"

text \<open>\<open>if (t->hbit) mk_challenge (t->chal_them.vector, VECTOR_SIZE)\<close>\<close>

definition fresh_vector :: "nat \<Rightarrow> world \<Rightarrow> world option" where
  "fresh_vector i w = do {
     st \<leftarrow> get_t w i;
     Some (if t_hbit st then (set_t w i (st\<lparr>them_vector := random w (randoms w)\<rparr>))\<lparr>randoms := randoms w + 1\<rparr> else w) }"

text \<open>From the finished AVPs to the transmission.\<close>

definition finish_message :: "nat \<Rightarrow> nat \<Rightarrow> xbuf \<Rightarrow> obuf \<Rightarrow> world \<Rightarrow> world option" where
  "finish_message i c x b w = do {
     st \<leftarrow> get_t w i;
     (st, b) \<leftarrow> add_control_hdr st c b;
     st \<leftarrow> upd_c st c (\<lambda>cl. cl\<lparr>c_cnu := 0\<rparr>);
     control_xmit (x\<lparr>x_buf := b\<rparr>) (set_t w i st) }"

definition vector_avp :: "l2tp \<Rightarrow> obuf \<Rightarrow> obuf option" where
  "vector_avp st b = (if t_hbit st then add_randvect_avp (them_vector st) b else Some b)"

text \<open>A message of its type, the vector and some AVPs.\<close>

definition send_simple :: "nat \<Rightarrow> nat \<Rightarrow> int \<Rightarrow> (l2tp \<Rightarrow> obuf \<Rightarrow> obuf option) \<Rightarrow> world \<Rightarrow> world option" where
  "send_simple i c type body w = do {
     (x, w) \<leftarrow> new_outgoing_for i w;
     b \<leftarrow> add_message_type_avp (word_of_int type) (x_buf x);
     w \<leftarrow> fresh_vector i w;
     st \<leftarrow> get_t w i;
     b \<leftarrow> vector_avp st b;
     b \<leftarrow> body st b;
     finish_message i c x b w }"

definition start_hello :: "nat \<Rightarrow> world \<Rightarrow> world" where
  "start_hello i w = snd (schedule (TV 60 0) (Hello_event i) w)"

section \<open>Opening a call\<close>

abbreviation (input) "SYNC_FRAMING \<equiv> (1 :: int)"
abbreviation (input) "ASYNC_FRAMING \<equiv> (2 :: int)"

definition lbit_of :: "peer_conf \<Rightarrow> u16" where "lbit_of l = (if pc_lbit l then 0x4000 else 0)"

definition framing :: "l2tp \<Rightarrow> int" where
  "framing st = (if t_fc st AND SYNC_FRAMING \<noteq> 0 then SYNC_FRAMING else ASYNC_FRAMING)"

text \<open>The next serial number; \<open>c->serno\<close> is set behind its use.\<close>

definition open_incoming :: "nat \<Rightarrow> nat \<Rightarrow> world \<Rightarrow> world option" where
  "open_incoming i c w = do {
     w \<leftarrow> upd_call i c (\<lambda>cl. cl\<lparr>c_state := ICRQ, c_lbit := (case c_lns cl of Some l \<Rightarrow> lbit_of l
        | None \<Rightarrow> (case c_lac cl of Some l \<Rightarrow> lbit_of l | None \<Rightarrow> c_lbit cl))\<rparr>) w;
     (x, w) \<leftarrow> new_outgoing_for i w;
     b \<leftarrow> add_message_type_avp (word_of_int ICRQ) (x_buf x);
     w \<leftarrow> fresh_vector i w;
     st \<leftarrow> get_t w i;
     b \<leftarrow> vector_avp st b;
     cl \<leftarrow> get_c st c;
     b \<leftarrow> add_callid_avp (word_of_int (c_ourcid cl)) b;
     b \<leftarrow> add_serno_avp (serno w) b;
     w \<leftarrow> upd_call i c (\<lambda>cl. cl\<lparr>c_serno := serno w\<rparr>) w;
     let w = w\<lparr>serno := serno w + 1\<rparr>;
     b \<leftarrow> add_bearer_avp 0 b;
     finish_message i c x b w }"

definition open_outgoing :: "nat \<Rightarrow> nat \<Rightarrow> world \<Rightarrow> world option" where
  "open_outgoing i c w = do {
     st \<leftarrow> get_t w i;
     w \<leftarrow> upd_call i c (\<lambda>cl. cl\<lparr>c_state := OCRQ, c_lbit := (case c_lns cl of Some l \<Rightarrow> lbit_of l | None \<Rightarrow> c_lbit cl),
        c_frame := framing st\<rparr>) w;
     (x, w) \<leftarrow> new_outgoing_for i w;
     b \<leftarrow> add_message_type_avp (word_of_int OCRQ) (x_buf x);
     st \<leftarrow> get_t w i;
     cl \<leftarrow> get_c st c;
     b \<leftarrow> add_callid_avp (word_of_int (c_ourcid cl)) b;
     b \<leftarrow> add_serno_avp (serno w) b;
     w \<leftarrow> upd_call i c (\<lambda>cl. cl\<lparr>c_serno := serno w\<rparr>) w;
     let w = w\<lparr>serno := serno w + 1\<rparr>;
     b \<leftarrow> add_minbps_avp 10000 b;
     b \<leftarrow> add_maxbps_avp 10000000 b;
     b \<leftarrow> add_bearer_avp 0 b;
     b \<leftarrow> add_frame_avp (word_of_int (c_frame cl)) b;
     b \<leftarrow> add_number_avp (c_dial_no cl) b;
     finish_message i c x b w }"

definition open_call :: "config \<Rightarrow> nat \<Rightarrow> nat \<Rightarrow> world \<Rightarrow> world option" where
  "open_call cf i c w = (if cf_switch_io cf then open_incoming i c w else open_outgoing i c w)"

text \<open>
  \<open>open_tunnel\<close> on the daemon's state; random bytes are used for the vector and for the challenge.
\<close>

definition start_tunnel :: "config \<Rightarrow> nat \<Rightarrow> world \<Rightarrow> (int \<times> world) option" where
  "start_tunnel cf i w = do {
     st \<leftarrow> get_t w i;
     (rc, st, b) \<leftarrow> open_tunnel (cf_host cf) (random w (randoms w)) (random w (randoms w + 1)) (fresh w (news w)) st;
     let w = (set_t w i st)\<lparr>randoms := randoms w + 2, news := news w + 1\<rparr>;
     case b of
       None \<Rightarrow> Some (rc, w)
     | Some b \<Rightarrow> do {
         w \<leftarrow> control_xmit \<lparr>x_buf = b, x_tun = i, x_retries = 0\<rparr> w;
         Some (rc, w) } }"

section \<open>Dialling (xl2tpd.c, call.c)\<close>

text \<open>
  \<open>lac_call\<close> opens a call on a tunnel. The tunnel is looked up by its number, so another one with the same number may be found.
\<close>

fun tunnel_with_id :: "world \<Rightarrow> int \<Rightarrow> nat list \<Rightarrow> nat option option" where
  "tunnel_with_id w tid [] = Some None"
| "tunnel_with_id w tid (j # js) = do {
     st \<leftarrow> get_t w j;
     if t_ourtid st = tid then Some (Some j) else tunnel_with_id w tid js }"

definition lac_call :: "config \<Rightarrow> int \<Rightarrow> peer_conf option \<Rightarrow> peer_conf option \<Rightarrow> byte_buf \<Rightarrow> world \<Rightarrow> world option" where
  "lac_call cf tid lac lns dial_no w = do {
     j \<leftarrow> tunnel_with_id w tid (tlist w);
     case j of
       None \<Rightarrow> Some w
     | Some i \<Rightarrow> do {
         st \<leftarrow> get_t w i;
         case new_call st of
           (None, st) \<Rightarrow> Some (set_t w i st)
         | (Some c, st) \<Rightarrow> do {
             st \<leftarrow> upd_c st c (\<lambda>cl. cl\<lparr>c_next := t_call_head st, c_cid := 0, c_lac := lac, c_lns := lns, c_dial_no := dial_no\<rparr>);
             let w = set_t w i (st\<lparr>t_call_head := Some c, t_count := t_count st + 1\<rparr>);
             open_call cf i c (case lac of None \<Rightarrow> w | Some l \<Rightarrow> upd_lac l (\<lambda>s. s\<lparr>la_call := Some (i, c)\<rparr>) w) } } }"

text \<open>\<open>new_tunnel\<close>, and the part of \<open>get_call\<close> that puts it in front of the list; \<open>None\<close> when there is no memory.\<close>

definition new_tunnel :: "u16 \<Rightarrow> u32 \<Rightarrow> bool \<times> bool \<times> (nat \<Rightarrow> bool) \<times> (nat \<Rightarrow> u16) \<Rightarrow> l2tp option" where
  "new_tunnel ourtid addr oracle = (case oracle of (ok, ok_self, al, ent) \<Rightarrow>
     if \<not> ok \<or> \<not> ok_self then None
     else Some \<lparr>t_call_head = None, t_self = 0, t_fc = -1, t_bc = -1, t_tid = -1, t_qtid = -1, t_firmware = 0,
       t_count = 0, t_state = 0, t_sanity = True, t_rws = 0, t_ourfc = 3, t_ourbc = 0, t_hbit = False, t_ourtid = uint ourtid,
       t_ourrws = 4, control_seq_num = 0, control_rec_seq_num = 0, t_cLr = 0, t_addr = addr, t_rxspeed = 10000000,
       t_txspeed = 10000000, t_lns = None, t_lac = None, t_hostname = replicate 120 0, t_vendor = replicate 120 0,
       us_secret = replicate 120 0, us_challenge = None, us_chal_len = 0, us_vector = None, us_vector_len = 0, us_state = 0,
       us_ss = 0, us_response = replicate 16 0, them_secret = replicate 120 0, them_vector = replicate 16 0,
       them_reply = replicate 16 0, them_challenge = None, them_chal_len = 0, them_state = 0, them_ss = 0,
       them_response = replicate 16 0, calls = [zero_call\<lparr>c_ourfbit := 0x0800\<rparr>], alloc = al, allocs = 0, entropy = ent\<rparr>)"

definition add_tunnel :: "u16 \<Rightarrow> u32 \<Rightarrow> bool \<times> bool \<times> (nat \<Rightarrow> bool) \<times> (nat \<Rightarrow> u16) \<Rightarrow> world \<Rightarrow> nat option \<times> world" where
  "add_tunnel rnd addr oracle w =
     (case new_tunnel rnd addr oracle of
        None \<Rightarrow> (None, w)
      | Some st \<Rightarrow> (Some (length (tuns w)), w\<lparr>tuns := tuns w @ [Some st], tlist := length (tuns w) # tlist w\<rparr>))"

text \<open>
  \<open>l2tp_call\<close> connects an entry to a host. What \<open>control_finish\<close> does for the new tunnel, whose state is 0, is
  \<open>start_tunnel\<close>; \<open>magic_lac_dial\<close> is run for the entry of a tunnel that has come up and when a redial is due.
\<close>

definition l2tp_call :: "config \<Rightarrow> byte_buf \<Rightarrow> peer_conf \<Rightarrow> world \<Rightarrow> world option" where
  "l2tp_call cf host l w =
     (case cf_resolve cf host of
        None \<Rightarrow> Some (redial l w)
      | Some addr \<Rightarrow>
          (case cf_opening cf (length (tuns w)) of (rnd, oracle) \<Rightarrow>
           case add_tunnel rnd addr oracle w of
             (None, w) \<Rightarrow> Some w
           | (Some i, w) \<Rightarrow> do {
               st \<leftarrow> get_t w i;
               st \<leftarrow> upd_c (st\<lparr>t_tid := 0, t_lac := Some l, t_lns := None\<rparr>) (t_self st) (\<lambda>cl. cl\<lparr>c_lac := Some l, c_lns := None\<rparr>);
               (rc, w) \<leftarrow> start_tunnel cf i (upd_lac l (\<lambda>s. s\<lparr>la_tun := Some i\<rparr>) (set_t w i st));
               Some w }))"

definition magic_lac_tunnel :: "config \<Rightarrow> peer_conf \<Rightarrow> world \<Rightarrow> world option" where
  "magic_lac_tunnel cf l w =
     (case pc_host l of
        Some host \<Rightarrow> l2tp_call cf host l w
      | None \<Rightarrow> (case cf_deflac_host cf of Some host \<Rightarrow> l2tp_call cf host l w | None \<Rightarrow> Some w))"

definition magic_lac_dial :: "config \<Rightarrow> peer_conf \<Rightarrow> world \<Rightarrow> world option" where
  "magic_lac_dial cf l w =
     (if \<not> la_active (lac_state w l) then Some w
      else do {
        let w = upd_lac l (\<lambda>s. s\<lparr>la_rsched := None, la_rtries := la_rtries s + 1\<rparr>) w;
        if pc_rmax l \<noteq> 0 \<and> la_rtries (lac_state w l) > pc_rmax l then Some w
        else (case la_tun (lac_state w l) of
                None \<Rightarrow> magic_lac_tunnel cf l w
              | Some i \<Rightarrow> do {
                  st \<leftarrow> get_t w i;
                  lac_call cf (t_ourtid st) (Some l) None (replicate 128 0) w }) })"

definition run_events :: "config \<Rightarrow> event \<Rightarrow> world \<Rightarrow> world option" where
  "run_events cf e w = run_event (magic_lac_dial cf) e w"

section \<open>Opening a tunnel: the three messages\<close>

definition has_twin :: "world \<Rightarrow> nat \<Rightarrow> l2tp \<Rightarrow> bool option" where
  "has_twin w i st = do {
     ys \<leftarrow> those (map (get_t w) (tlist w));
     Some (\<exists>(j, y)\<in>set (zip (tlist w) ys). t_tid y = t_tid st \<and> t_addr y = t_addr st \<and> j \<noteq> i) }"

text \<open>The AVPs of a SCCRP up to the receive window size: those of a SCCRQ with another message type.\<close>

definition sccrp_avps :: "byte_buf \<Rightarrow> l2tp \<Rightarrow> obuf \<Rightarrow> obuf option" where
  "sccrp_avps host st b = do {
     b \<leftarrow> vector_avp st b;
     b \<leftarrow> add_protocol_avp b;
     b \<leftarrow> add_frame_caps_avp (word_of_int (t_ourfc st)) b;
     b \<leftarrow> add_bearer_caps_avp (word_of_int (t_ourbc st)) b;
     b \<leftarrow> add_firmware_avp b;
     b \<leftarrow> add_hostname_avp (own_name host st) b;
     b \<leftarrow> add_vendor_avp b;
     b \<leftarrow> add_tunnelid_avp (word_of_int (t_ourtid st)) b;
     if t_ourrws st \<ge> 0 then add_avp_rws (word_of_int (t_ourrws st)) b else Some b }"

text \<open>Our own challenge in a SCCRP: \<open>Inl\<close> is the early return.\<close>

definition challenge_back ::
  "config \<Rightarrow> nat \<Rightarrow> nat \<Rightarrow> peer_conf \<Rightarrow> obuf \<Rightarrow> world \<Rightarrow> ((int \<times> world) + (obuf \<times> world)) option" where
  "challenge_back cf i c l b w =
     (if \<not> pc_challenge l then Some (Inr (b, w))
      else do {
        st \<leftarrow> get_t w i;
        let (ok, st) = next_alloc st;
        if \<not> ok then do {
          st \<leftarrow> set_error (st\<lparr>them_challenge := None\<rparr>) c VENDOR_ERROR (msg_bytes ''malloc failed'');
          Some (Inl (- EINVAL, set_t w i st)) }
        else do {
          let st = st\<lparr>them_challenge := Some (random w (randoms w)), them_chal_len := int MD_SIG_SIZE, them_ss := 3\<rparr>;
          (rc, st) \<leftarrow> handle_challenge_them (cf_host cf) (secret_of cf) st;
          if rc \<noteq> 0 then do {
            st \<leftarrow> set_error st c VENDOR_ERROR (msg_bytes ''No secret on our side'');
            Some (Inl (- EINVAL, (set_t w i st)\<lparr>randoms := randoms w + 1\<rparr>)) }
          else do {
            ch \<leftarrow> them_challenge st;
            b \<leftarrow> add_challenge_avp (take (nat (them_chal_len st)) ch) b;
            Some (Inr (b, (set_t w i st)\<lparr>randoms := randoms w + 1\<rparr>)) } } })"

text \<open>The answer to the peer's challenge; a missing secret is not noticed here.\<close>

definition answer_challenge :: "config \<Rightarrow> nat \<Rightarrow> obuf \<Rightarrow> world \<Rightarrow> (obuf \<times> world) option" where
  "answer_challenge cf i b w = do {
     st \<leftarrow> get_t w i;
     if us_state st = 0 then Some (b, w)
     else do {
       (rc, st) \<leftarrow> handle_challenge_us (cf_host cf) (secret_of cf) (st\<lparr>us_ss := 2\<rparr>);
       b \<leftarrow> add_chalresp_avp (us_response st) b;
       Some (b, set_t w i st) } }"

definition send_sccrp :: "config \<Rightarrow> nat \<Rightarrow> nat \<Rightarrow> peer_conf \<Rightarrow> world \<Rightarrow> (int \<times> world) option" where
  "send_sccrp cf i c l w = do {
     st \<leftarrow> get_t w i;
     (x, w) \<leftarrow> new_outgoing_for i (set_t w i (st\<lparr>t_state := SCCRP\<rparr>));
     b \<leftarrow> add_message_type_avp (word_of_int SCCRP) (x_buf x);
     w \<leftarrow> fresh_vector i w;
     st \<leftarrow> get_t w i;
     b \<leftarrow> sccrp_avps (cf_host cf) st b;
     (b, w) \<leftarrow> answer_challenge cf i b w;
     r \<leftarrow> challenge_back cf i c l b w;
     case r of
       Inl early \<Rightarrow> Some early
     | Inr (b, w) \<Rightarrow> do { w \<leftarrow> finish_message i c x b w; Some (0, w) } }"

definition finish_sccrq :: "config \<Rightarrow> nat \<Rightarrow> nat \<Rightarrow> world \<Rightarrow> (int \<times> world) option" where
  "finish_sccrq cf i c w = do {
     st \<leftarrow> get_t w i;
     if t_tid st \<le> 0 then refuse i c ''Specify your assigned tunnel ID'' w
     else do {
       let lns = get_lns (cf_access cf) (cf_lnslist cf) (cf_deflns cf) st;
       let w = set_t w i (st\<lparr>t_lns := lns\<rparr>);
       case lns of
         None \<Rightarrow> refuse i c ''No Authorization'' w
       | Some l \<Rightarrow> do {
           let st = st\<lparr>t_lns := lns, t_ourrws := tun_rws l, t_hbit := pc_hbit l\<rparr>;
           let w = set_t w i st;
           if t_fc st < 0 then refuse i c ''Specify framing capability'' w
           else if c_string (t_hostname st) = [] \<and> (us_state st \<noteq> 0 \<or> pc_challenge l) then refuse i c ''Specify your hostname'' w
           else do {
             twin \<leftarrow> has_twin w i st;
             if twin then do {
               w \<leftarrow> upd_call i c (\<lambda>cl. cl\<lparr>c_needclose := 0, c_closing := -1\<rparr>) w;
               Some (0, w) }
             else send_sccrp cf i c l w } } } }"

text \<open>The check of the peer's response, and the answer to its challenge.\<close>

definition check_reply :: "nat \<Rightarrow> nat \<Rightarrow> world \<Rightarrow> ((int \<times> world) + world) option" where
  "check_reply i c w = do {
     st \<leftarrow> get_t w i;
     if them_state st \<noteq> 0 \<and> them_reply st \<noteq> them_response st then do {
       e \<leftarrow> refuse i c ''Invalid challenge authentication'' w;
       Some (Inl e) }
     else Some (Inr w) }"

definition authenticate_peer :: "config \<Rightarrow> nat \<Rightarrow> nat \<Rightarrow> world \<Rightarrow> ((int \<times> world) + world) option" where
  "authenticate_peer cf i c w = do {
     st \<leftarrow> get_t w i;
     if them_state st = 0 then Some (Inr w)
     else do {
       (rc, st) \<leftarrow> handle_challenge_them (cf_host cf) (secret_of cf) (st\<lparr>them_ss := 2\<rparr>);
       if rc \<noteq> 0 then do {
         e \<leftarrow> refuse i c ''No secret key on our side'' (set_t w i st);
         Some (Inl e) }
       else check_reply i c (set_t w i st) } }"

definition respond_to_peer :: "config \<Rightarrow> nat \<Rightarrow> nat \<Rightarrow> world \<Rightarrow> ((int \<times> world) + world) option" where
  "respond_to_peer cf i c w = do {
     st \<leftarrow> get_t w i;
     if us_state st = 0 then Some (Inr w)
     else do {
       (rc, st) \<leftarrow> handle_challenge_us (cf_host cf) (secret_of cf) (st\<lparr>us_ss := 3\<rparr>);
       if rc \<noteq> 0 then do {
         e \<leftarrow> refuse i c ''No secret key on our end'' (set_t w i st);
         Some (Inl e) }
       else Some (Inr (set_t w i st)) } }"

definition send_scccn :: "config \<Rightarrow> nat \<Rightarrow> nat \<Rightarrow> world \<Rightarrow> (int \<times> world) option" where
  "send_scccn cf i c w = do {
     st \<leftarrow> get_t w i;
     w \<leftarrow> send_simple i c SCCCN
       (\<lambda>st b. if us_state st \<noteq> 0 then add_chalresp_avp (us_response st) b else Some b) (set_t w i (st\<lparr>t_state := SCCCN\<rparr>));
     let w = start_hello i w;
     st \<leftarrow> get_t w i;
     w \<leftarrow> (case t_lac st of None \<Rightarrow> Some w | Some l \<Rightarrow> magic_lac_dial cf l w);
     Some (0, w) }"

definition finish_sccrp :: "config \<Rightarrow> nat \<Rightarrow> nat \<Rightarrow> world \<Rightarrow> (int \<times> world) option" where
  "finish_sccrp cf i c w = do {
     st \<leftarrow> get_t w i;
     if t_fc st < 0 then refuse i c ''Specify framing capability'' w
     else if c_string (t_hostname st) = [] \<and> (them_state st \<noteq> 0 \<or> us_state st \<noteq> 0) then refuse i c ''Specify your hostname'' w
     else if t_tid st \<le> 0 then refuse i c ''Specify your assigned tunnel ID'' w
     else do {
       r \<leftarrow> authenticate_peer cf i c w;
       case r of
         Inl early \<Rightarrow> Some early
       | Inr w \<Rightarrow> do {
           r \<leftarrow> respond_to_peer cf i c w;
           case r of
             Inl early \<Rightarrow> Some early
           | Inr w \<Rightarrow> send_scccn cf i c w } } }"

text \<open>The log message of this case reads the name of the LNS entry.\<close>

definition finish_scccn :: "nat \<Rightarrow> nat \<Rightarrow> world \<Rightarrow> (int \<times> world) option" where
  "finish_scccn i c w = do {
     r \<leftarrow> check_reply i c w;
     case r of
       Inl early \<Rightarrow> Some early
     | Inr w \<Rightarrow> do {
         st \<leftarrow> get_t w i;
         l \<leftarrow> t_lns st;
         Some (0, start_hello i (set_t w i (st\<lparr>t_state := SCCCN\<rparr>))) } }"

section \<open>Closing on request\<close>

text \<open>One client reports its own number; it is known by its firmware and its name.\<close>

definition odd_client :: "l2tp \<Rightarrow> bool" where
  "odd_client st \<longleftrightarrow> t_firmware st = 0xff00 \<and> take 27 (c_string (t_vendor st)) = msg_bytes ''Deterministic Networks Inc.''"

definition finish_stopccn :: "nat \<Rightarrow> nat \<Rightarrow> world \<Rightarrow> (int \<times> world) option" where
  "finish_stopccn i c w = do {
     st \<leftarrow> get_t w i;
     let tmptid = (if odd_client st then t_ourtid st else t_tid st);
     if t_qtid st < 0 then Some (- EINVAL, w)
     else if t_qtid st \<noteq> tmptid \<and> tmptid > 0 then Some (- EINVAL, w)
     else do {
       let st = (if t_tid st = 0 then st\<lparr>t_tid := t_qtid st\<rparr> else st);
       self \<leftarrow> get_c st (t_self st);
       if c_result self < 0 then Some (- EINVAL, set_t w i st)
       else do {
         w \<leftarrow> upd_call i c (\<lambda>cl. cl\<lparr>c_needclose := 0, c_closing := -1\<rparr>) (set_t w i st);
         Some (0, w) } } }"

text \<open>The member call with the peer's number \<open>cid\<close>, from \<open>p\<close> on.\<close>

partial_function (option) member_with_cid :: "l2tp \<Rightarrow> int \<Rightarrow> nat option \<Rightarrow> nat option option" where
  "member_with_cid st cid p =
     (case p of
        None \<Rightarrow> Some None
      | Some p \<Rightarrow> do {
          pc \<leftarrow> get_c st p;
          if c_cid pc = cid then Some (Some p) else member_with_cid st cid (c_next pc) })"

text \<open>The call named by the message is looked up, but it is \<open>c\<close> that is closed.\<close>

definition finish_cdn :: "nat \<Rightarrow> nat \<Rightarrow> world \<Rightarrow> (int \<times> world) option" where
  "finish_cdn i c w = do {
     st \<leftarrow> get_t w i;
     cl \<leftarrow> get_c st c;
     if c_qcid cl < 0 then Some (- EINVAL, w)
     else do {
       p \<leftarrow> (if c = t_self st then member_with_cid st (c_qcid cl) (t_call_head st) else Some (Some c));
       case p of
         None \<Rightarrow> Some (- EINVAL, w)
       | Some p \<Rightarrow> do {
           pc \<leftarrow> get_c st p;
           let tmpcid = (if odd_client st then c_ourcid pc else c_cid pc);
           if c_qcid cl \<noteq> tmpcid \<and> tmpcid > 0 then Some (- EINVAL, w)
           else do {
             w \<leftarrow> upd_call i c (\<lambda>cl. cl\<lparr>c_qcid := -1\<rparr>) w;
             if c_result cl < 0 then Some (- EINVAL, w)
             else do {
               w \<leftarrow> upd_call i c (\<lambda>cl. cl\<lparr>c_needclose := 0, c_closing := -1\<rparr>) w;
               Some (0, w) } } } } }"

section \<open>Options of the PPP daemon\<close>

text \<open>\<open>add_opt\<close>: one option; a name is taken as a format string, so a percent sign is a fault.\<close>

definition opt :: "string \<Rightarrow> byte_buf" where "opt s = msg_bytes s"

definition opt_text :: "byte_buf \<Rightarrow> byte_buf option" where
  "opt_text s = (if 0x25 \<in> set (c_string s) then None else Some (take (MAXSTRLEN - 1) (c_string s)))"

definition ip_text :: "u32 \<Rightarrow> byte_buf" where
  "ip_text a = (case le32_bytes a of [p, q, r, s] \<Rightarrow>
     fmt_d (unat p) @ [0x2E] @ fmt_d (unat q) @ [0x2E] @ fmt_d (unat r) @ [0x2E] @ fmt_d (unat s))"

definition opt_addrs :: "u32 \<Rightarrow> u32 \<Rightarrow> byte_buf" where
  "opt_addrs l r = (if l \<noteq> 0 then ip_text l else []) @ [0x3A] @ (if r \<noteq> 0 then ip_text r else [])"

definition opt_if :: "bool \<Rightarrow> string \<Rightarrow> byte_buf list" where "opt_if p s = (if p then [opt s] else [])"

definition opt_named :: "string \<Rightarrow> byte_buf \<Rightarrow> byte_buf list option" where
  "opt_named s v = (if c_string v = [] then Some [] else do { v \<leftarrow> opt_text v; Some [opt s, v] })"

definition self_opts :: "peer_conf \<Rightarrow> byte_buf list" where
  "self_opts l = (if pc_authself l then opt_if (pc_pap_refuse l) ''refuse-pap'' @ opt_if (pc_chap_refuse l) ''refuse-chap''
     else [opt ''refuse-pap'', opt ''refuse-chap''])"

definition peer_opts :: "peer_conf \<Rightarrow> byte_buf list" where
  "peer_opts l = (if pc_authpeer l then opt ''auth'' # opt_if (pc_pap_require l) ''require-pap'' @ opt_if (pc_chap_require l) ''require-chap'' else [])"

definition pass_opts :: "bool \<Rightarrow> l2tp \<Rightarrow> byte_buf list" where
  "pass_opts p st = (if p then [opt ''ipparam'', ip_text (t_addr st)] else [])"

text \<open>A LAC's options; \<open>pw\<close> are those that hand over the password.\<close>

definition lac_opts :: "byte_buf list \<Rightarrow> peer_conf \<Rightarrow> byte_buf list option" where
  "lac_opts pw l = do {
     name \<leftarrow> opt_named ''name'' (pc_authname l);
     file \<leftarrow> opt_named ''file'' (pc_pppoptfile l);
     Some (opt_if (pc_defaultroute l) ''defaultroute'' @ [opt_addrs (pc_localaddr l) (pc_remoteaddr l)] @
       self_opts l @ peer_opts l @ name @ opt_if (pc_debug l) ''debug'' @ pw @ file) }"

definition password_opts :: "int \<Rightarrow> byte_buf list" where
  "password_opts fd = [opt ''plugin'', opt ''passwordfd.so'', opt ''passwordfd'', fmt_int fd]"

definition lns_opts :: "peer_conf \<Rightarrow> l2tp \<Rightarrow> l2call \<Rightarrow> byte_buf list option" where
  "lns_opts l st cl = do {
     name \<leftarrow> opt_named ''name'' (pc_authname l);
     file \<leftarrow> opt_named ''file'' (pc_pppoptfile l);
     Some ([opt ''passive'', opt ''nodetach'',
         (if pc_localaddr l \<noteq> 0 then ip_text (pc_localaddr l) else []) @ [0x3A] @ ip_text (c_addr cl)] @
       self_opts l @ peer_opts l @ opt_if (pc_authpeer l \<and> pc_passwdauth l) ''login'' @
       name @ opt_if (pc_debug l) ''debug'' @ file @ pass_opts (pc_pass_peer l) st) }"

text \<open>Only the guards, the terminal and the options of \<open>start_pppd\<close>; its result is not used.\<close>

definition start_pppd :: "nat \<Rightarrow> nat \<Rightarrow> byte_buf list \<Rightarrow> world \<Rightarrow> world option" where
  "start_pppd i c po w = do {
     st \<leftarrow> get_t w i;
     cl \<leftarrow> get_c st c;
     if c_pppd cl > 0 \<or> c_fd cl > -1 then Some w
     else do {
       let fd = fds w (opened w);
       w \<leftarrow> upd_call i c (\<lambda>cl. cl\<lparr>c_fd := fd, c_pppd := (if fd < 0 then c_pppd cl else 1)\<rparr>) (w\<lparr>opened := opened w + 1\<rparr>);
       Some (if fd < 0 then w else w\<lparr>pppds := pppds w @ [(i, c, po)]\<rparr>) } }"

section \<open>Calls\<close>

definition twin_call :: "l2tp \<Rightarrow> l2call \<Rightarrow> bool option" where
  "twin_call st p = map_option (\<lambda>z. z \<noteq> None) (member_with_cid st (c_cid p) (c_next p))"

definition finish_icrq :: "nat \<Rightarrow> world \<Rightarrow> (int \<times> world) option" where
  "finish_icrq i w = do {
     st \<leftarrow> get_t w i;
     p \<leftarrow> t_call_head st;
     pc \<leftarrow> get_c st p;
     case c_lns pc of
       None \<Rightarrow> do {
         st \<leftarrow> set_error st p 6 (msg_bytes ''This tunnel cannot accept calls'' @ [0x0A]);
         w \<leftarrow> call_close i p (set_t w i st);
         Some (- EINVAL, w) }
     | Some l \<Rightarrow> do {
         w \<leftarrow> upd_call i p (\<lambda>pc. pc\<lparr>c_lbit := lbit_of l\<rparr>) w;
         if c_cid pc < 0 then do { w \<leftarrow> call_close i p w; Some (- EINVAL, w) }
         else do {
           twin \<leftarrow> twin_call st pc;
           if twin then do {
             w \<leftarrow> upd_call i p (\<lambda>pc. pc\<lparr>c_needclose := 0, c_closing := -1\<rparr>) w;
             Some (0, w) }
           else do {
             tl \<leftarrow> t_lns st;
             (y, tab) \<leftarrow> (if pc_assign_ip tl then assign_addr (uaddr w) (pc_range tl) else Some (Some 0, uaddr w));
             case y of
               None \<Rightarrow> do {
                 st \<leftarrow> get_t w i;
                 st \<leftarrow> upd_c st p (\<lambda>pc. pc\<lparr>c_addr := 0\<rparr>);
                 st \<leftarrow> set_error st p 4 (msg_bytes ''No available IP address'');
                 w \<leftarrow> call_close i p (set_t w i st);
                 Some (- EINVAL, w) }
             | Some y \<Rightarrow> do {
                 w \<leftarrow> upd_call i p (\<lambda>pc. pc\<lparr>c_addr := y, c_state := ICRP\<rparr>) (w\<lparr>uaddr := tab\<rparr>);
                 w \<leftarrow> send_simple i p ICRP (\<lambda>st. add_callid_avp (word_of_int (c_ourcid pc))) w;
                 Some (0, w) } } } } }"

definition finish_icrp :: "nat \<Rightarrow> nat \<Rightarrow> world \<Rightarrow> (int \<times> world) option" where
  "finish_icrp i c w = do {
     st \<leftarrow> get_t w i;
     cl \<leftarrow> get_c st c;
     if c_cid cl < 0 then do {
       w \<leftarrow> upd_call i c (\<lambda>cl. cl\<lparr>c_needclose := -1\<rparr>) w;
       Some (- EINVAL, w) }
     else do {
       w \<leftarrow> upd_call i c (\<lambda>cl. cl\<lparr>c_state := ICCN, c_frame := framing st\<rparr>) w;
       w \<leftarrow> send_simple i c ICCN (\<lambda>st b. do {
           b \<leftarrow> add_txspeed_avp (word_of_int (t_txspeed st)) b;
           b \<leftarrow> add_frame_avp (word_of_int (framing st)) b;
           add_rxspeed_avp (word_of_int (t_rxspeed st)) b }) w;
       l \<leftarrow> c_lac cl;
       let pw = c_string (pc_password l) \<noteq> [];
       let w' = (if pw then w\<lparr>opened := opened w + 2\<rparr> else w);
       po \<leftarrow> lac_opts (if pw then password_opts (fds w (opened w)) else []) l;
       w \<leftarrow> start_pppd i c ([opt ''passive'', opt ''nodetach''] @ po @ pass_opts (pc_pass_peer l) st) w';
       Some (0, w) } }"

definition finish_iccn :: "nat \<Rightarrow> nat \<Rightarrow> world \<Rightarrow> (int \<times> world) option" where
  "finish_iccn i c w = do {
     st \<leftarrow> get_t w i;
     if c = t_self st then Some (- EINVAL, w)
     else do {
       w \<leftarrow> upd_call i c (\<lambda>cl. cl\<lparr>c_state := ICCN\<rparr>) w;
       cl \<leftarrow> get_c st c;
       l \<leftarrow> c_lns cl;
       po \<leftarrow> lns_opts l st cl;
       w \<leftarrow> start_pppd i c po w;
       Some (0, w) } }"

text \<open>The name of the option file is put together in an array of 128 bytes.\<close>

definition finish_occn :: "nat \<Rightarrow> nat \<Rightarrow> world \<Rightarrow> (int \<times> world) option" where
  "finish_occn i c w = do {
     st \<leftarrow> get_t w i;
     cl \<leftarrow> get_c st c;
     let path = msg_bytes ''/var/l2tp/'' @ c_string (c_dial_no cl) @ msg_bytes ''.options'';
     if length path \<ge> 128 then None
     else do {
       file \<leftarrow> opt_text (path @ [0]);
       l \<leftarrow> c_lac cl;
       po \<leftarrow> lac_opts [] l;
       w \<leftarrow> start_pppd i c ([opt ''passive'', opt ''nodetach'', opt ''file'', file] @ po @ pass_opts (pc_pass_peer l) st) w;
       Some (0, w) } }"

section \<open>All message types (control.c)\<close>

definition control_finish :: "config \<Rightarrow> nat \<Rightarrow> nat \<Rightarrow> world \<Rightarrow> (int \<times> world) option" where
  "control_finish cf i c w = do {
     st \<leftarrow> get_t w i;
     cl \<leftarrow> get_c st c;
     let m = c_msgtype cl;
     if m < 0 then Some (- EINVAL, w)
     else if m = 0 then
       (if t_self st = c then start_tunnel cf i w else do { w \<leftarrow> open_call cf i c w; Some (0, w) })
     else if m = SCCRQ then finish_sccrq cf i c w
     else if m = SCCRP then finish_sccrp cf i c w
     else if m = SCCCN then finish_scccn i c w
     else if m = StopCCN then finish_stopccn i c w
     else if m = ICRQ then finish_icrq i w
     else if m = ICRP then finish_icrp i c w
     else if m = ICCN then finish_iccn i c w
     else if m = OCRP then Some (0, w)
     else if m = OCCN then finish_occn i c w
     else if m = CDN then finish_cdn i c w
     else if m = Hello \<or> m = SLI then Some (0, w)
     else do {
       st \<leftarrow> set_error st c VENDOR_ERROR (msg_bytes ''Unimplemented message '' @ fmt_int m @ [0x0A]);
       Some (0, set_t w i st) } }"

end
