(* ===== verification/L2tp_Receive.thy ===== *)
theory L2tp_Receive
  imports L2tp_Finish
begin

text \<open>
  Received control packets: the check of the sequence number and of the header (\<open>check_control\<close>), the
  acknowledgements and the handling of a message (\<open>handle_control\<close>, \<open>handle_special\<close>), and what
  \<open>network_thread\<close> does around it. The buffer's header words are in host order, as \<open>fix_hdr\<close> leaves them.
\<close>

section \<open>Checks (control.c)\<close>

abbreviation (input) "CONTROL_HDR \<equiv> (12 :: nat)"

text \<open>The comparison the code makes, on \<open>int\<close>: the second half is never true.\<close>

definition seems_old :: "u16 \<Rightarrow> u16 \<Rightarrow> bool" where
  "seems_old ns rec \<longleftrightarrow> (uint ns < uint rec \<and> uint rec - uint ns < 32768) \<or> (uint ns > uint rec \<and> uint rec - uint ns > 32768)"

text \<open>A zero-length body message in a new buffer; \<open>new_outgoing\<close> is not checked.\<close>

definition send_ack :: "nat \<Rightarrow> nat \<Rightarrow> world \<Rightarrow> world option" where
  "send_ack i c w = do {
     (x, w) \<leftarrow> new_outgoing_for i w;
     st \<leftarrow> get_t w i;
     (st, b) \<leftarrow> control_zlb (x_buf x) st c;
     Some (udp_xmit b (set_t w i st)) }"

definition header_ok :: "u16 \<Rightarrow> bool" where
  "header_ok ver \<longleftrightarrow> CTBIT ver \<and> CLBIT ver \<and> CFBIT ver \<and> CVER ver = VER_L2TP"

definition check_control :: "obuf \<Rightarrow> nat \<Rightarrow> nat \<Rightarrow> world \<Rightarrow> (int \<times> world) option" where
  "check_control b i c w =
     (if ob_len b < CONTROL_HDR then Some (- EINVAL, w)
      else do {
        len \<leftarrow> hdr_word b 1;
        if ob_len b \<noteq> unat len then Some (- EINVAL, w)
        else do {
          st \<leftarrow> get_t w i;
          ns \<leftarrow> hdr_word b 4;
          if ns \<noteq> control_rec_seq_num st then
            (if seems_old ns (control_rec_seq_num st) then
               (if ob_len b \<noteq> CONTROL_HDR then do { w \<leftarrow> send_ack i c w; Some (- EINVAL, w) } else Some (- EINVAL, w))
             else if control_rec_seq_num st = 0 \<and> t_tid st = -1 then do {
               w \<leftarrow> upd_call i c (\<lambda>cl. cl\<lparr>c_needclose := 0, c_closing := -1\<rparr>) w;
               Some (- EINVAL, w) }
             else Some (- EINVAL, w))
          else do {
            nr \<leftarrow> hdr_word b 5;
            ver \<leftarrow> hdr_word b 0;
            st \<leftarrow> upd_c (st\<lparr>control_rec_seq_num := control_rec_seq_num st + 1, t_cLr := uint nr\<rparr>) c (\<lambda>cl. cl\<lparr>c_cnu := -1\<rparr>);
            Some (if t_sanity st \<and> \<not> header_ok ver then - EINVAL else 0, set_t w i st) } } })"

section \<open>Handling (control.c)\<close>

text \<open>An acknowledgement takes no sequence number of its own; it may confirm the closing message.\<close>

definition handle_zlb :: "nat \<Rightarrow> nat \<Rightarrow> world \<Rightarrow> world option" where
  "handle_zlb i c w = do {
     st \<leftarrow> get_t w i;
     st \<leftarrow> upd_c (st\<lparr>control_rec_seq_num := control_rec_seq_num st - 1\<rparr>) c
       (\<lambda>cl. cl\<lparr>c_cnu := 0,
          c_needclose := (if c_needclose cl \<noteq> 0 \<and> c_closing cl \<noteq> 0 \<and> t_cLr st \<ge> uint (c_closeSs cl) then 0 else c_needclose cl)\<rparr>);
     Some (set_t w i st) }"

definition handle_control :: "config \<Rightarrow> obuf \<Rightarrow> nat \<Rightarrow> nat \<Rightarrow> world \<Rightarrow> (int \<times> world) option" where
  "handle_control cf b i c w = do {
     (rc, w) \<leftarrow> check_control b i c w;
     if rc \<noteq> 0 then Some (- EINVAL, w)
     else do {
       w \<leftarrow> upd_call i c (\<lambda>cl. cl\<lparr>c_msgtype := -1\<rparr>) w;
       if ob_len b = CONTROL_HDR then do { w \<leftarrow> handle_zlb i c w; Some (0, w) }
       else do {
         st \<leftarrow> get_t w i;
         (rc, st, mem) \<leftarrow> handle_avps st (drop (ob_start b) (ob_mem b)) (ob_len b) c;
         let w = set_t w i st;
         if rc \<noteq> 0 then Some (- EINVAL, w) else control_finish cf i c w } } }"

text \<open>A packet for a call that does not exist, on the tunnel's own call \<open>c\<close>; 1 means that the buffer is gone.\<close>

definition handle_special :: "obuf \<Rightarrow> nat \<Rightarrow> nat \<Rightarrow> u16 \<Rightarrow> world \<Rightarrow> (int \<times> world) option" where
  "handle_special b i c call w = do {
     ver \<leftarrow> hdr_word b 0;
     if \<not> CTBIT ver then Some (0, w)
     else do {
       w \<leftarrow> upd_call i c (\<lambda>cl. cl\<lparr>c_cid := uint call\<rparr>) w;
       (rc, w) \<leftarrow> check_control b i c w;
       if rc \<noteq> 0 \<or> ob_len b = CONTROL_HDR then do {
         w \<leftarrow> upd_call i c (\<lambda>cl. cl\<lparr>c_cid := 0\<rparr>) w;
         Some (0, w) }
       else do {
         st \<leftarrow> get_t w i;
         (st, b) \<leftarrow> control_zlb b st c;
         w \<leftarrow> upd_call i c (\<lambda>cl. cl\<lparr>c_cid := 0\<rparr>) (udp_xmit b (set_t w i st));
         Some (1, w) } } }"

section \<open>A packet on a tunnel (control.c, network.c)\<close>

definition handle_packet :: "config \<Rightarrow> wres list \<Rightarrow> obuf \<Rightarrow> nat \<Rightarrow> nat \<Rightarrow> world \<Rightarrow> (int \<times> world) option" where
  "handle_packet cf ws b i c w = do {
     ver \<leftarrow> hdr_word b 0;
     if CTBIT ver then handle_control cf b i c w
     else do {
       st \<leftarrow> get_t w i;
       cl \<leftarrow> get_c st c;
       (rc, cl, out) \<leftarrow> handle_payload b (t_sanity st) cl ws;
       st \<leftarrow> upd_c st c (\<lambda>_. cl);
       Some (rc, set_t w i st) } }"

text \<open>
  \<open>network_thread\<close> for a packet whose call was found: the vector of hidden AVPs is forgotten, and an
  acknowledgement is sent if none went out with another message.
\<close>

definition serve_packet :: "config \<Rightarrow> wres list \<Rightarrow> obuf \<Rightarrow> nat \<Rightarrow> nat \<Rightarrow> world \<Rightarrow> world option" where
  "serve_packet cf ws b i c w = do {
     st \<leftarrow> get_t w i;
     (rc, w) \<leftarrow> handle_packet cf ws b i c (set_t w i (st\<lparr>us_vector := None\<rparr>));
     st \<leftarrow> get_t w i;
     cl \<leftarrow> get_c st c;
     if c_cnu cl \<noteq> 0 then do {
       (st, b) \<leftarrow> control_zlb b st c;
       upd_call i c (\<lambda>cl. cl\<lparr>c_cnu := 0\<rparr>) (udp_xmit b (set_t w i st)) }
     else Some w }"

section \<open>Finding the call (call.c)\<close>

text \<open>\<open>get_tunnel\<close>, and \<open>get_call\<close> for packets that name a tunnel: \<open>Some (Some (i, c))\<close> is a call.\<close>

definition get_tunnel :: "int \<Rightarrow> world \<Rightarrow> (nat \<times> nat) option option" where
  "get_tunnel tunnel w =
     (if tunnel = 0 then Some None
      else do {
        j \<leftarrow> tunnel_with_id w tunnel (tlist w);
        case j of None \<Rightarrow> Some None | Some i \<Rightarrow> do { st \<leftarrow> get_t w i; Some (Some (i, t_self st)) } })"

partial_function (option) member_with_id :: "l2tp \<Rightarrow> int \<Rightarrow> nat option \<Rightarrow> nat option option" where
  "member_with_id st call p =
     (case p of
        None \<Rightarrow> Some None
      | Some p \<Rightarrow> do {
          pc \<leftarrow> get_c st p;
          if c_ourcid pc = call then Some (Some p) else member_with_id st call (c_next pc) })"

text \<open>\<open>get_call\<close>: a packet without a tunnel number opens a tunnel, which is put in front of the list.\<close>

definition get_call :: "int \<Rightarrow> int \<Rightarrow> u32 \<Rightarrow> u16 \<Rightarrow> bool \<times> bool \<times> (nat \<Rightarrow> bool) \<times> (nat \<Rightarrow> u16) \<Rightarrow> world \<Rightarrow>
    ((nat \<times> nat) option \<times> world) option" where
  "get_call tunnel call addr rnd oracle w =
     (if tunnel \<noteq> 0 then do {
        j \<leftarrow> tunnel_with_id w tunnel (tlist w);
        case j of
          None \<Rightarrow> Some (None, w)
        | Some i \<Rightarrow> do {
            st \<leftarrow> get_t w i;
            if call = 0 then Some (Some (i, t_self st), w)
            else do {
              c \<leftarrow> member_with_id st call (t_call_head st);
              Some (map_option (\<lambda>c. (i, c)) c, w) } } }
      else if call \<noteq> 0 then Some (None, w)
      else (case add_tunnel rnd addr oracle w of (i, w) \<Rightarrow> Some (map_option (\<lambda>i. (i, 0)) i, w)))"

text \<open>The part of \<open>network_thread\<close> for one packet received from \<open>addr\<close>.\<close>

definition serve_datagram ::
  "config \<Rightarrow> wres list \<Rightarrow> byte_buf \<Rightarrow> byte_buf \<Rightarrow> u32 \<Rightarrow> u16 \<Rightarrow> bool \<times> bool \<times> (nat \<Rightarrow> bool) \<times> (nat \<Rightarrow> u16) \<Rightarrow> world \<Rightarrow> world option" where
  "serve_datagram cf ws mem bs addr rnd oracle w =
     (if length bs < MIN_PAYLOAD_HDR_LEN then Some w
      else do {
        b \<leftarrow> receive mem bs;
        b \<leftarrow> fix_hdr b;
        (tunnel, call) \<leftarrow> extract_ids b;
        (ic, w) \<leftarrow> get_call tunnel call addr rnd oracle w;
        case ic of
          Some (i, c) \<Rightarrow> serve_packet cf ws b i c w
        | None \<Rightarrow> do {
            ic \<leftarrow> get_tunnel tunnel w;
            case ic of
              Some (i, c) \<Rightarrow> do { (rc, w) \<leftarrow> handle_special b i c (word_of_int call) w; Some w }
            | None \<Rightarrow> Some w } })"

end
