(* ===== verification/L2tp_Frame.thy ===== *)
theory L2tp_Frame
  imports L2tp_Receive L2tp_Control_Props
begin

text \<open>
  What no step of the daemon but the sequence check changes: the sequence number expected next, of every tunnel.
  \<open>gives m P\<close> says that \<open>P\<close> holds of the result of \<open>m\<close>, if there is one; its rules follow the
  structure of a definition, so that each operation takes one line. \<open>tracks M w\<close> says that the tunnels of \<open>w\<close>
  expect the numbers \<open>M\<close>, which are 0 for the tunnels still to come.
\<close>

section \<open>Results\<close>

definition gives :: "'a option \<Rightarrow> ('a \<Rightarrow> bool) \<Rightarrow> bool" where
  "gives m P \<longleftrightarrow> (\<forall>x. m = Some x \<longrightarrow> P x)"

named_theorems kept

lemma gives_None: "gives None P" by (simp add: gives_def)

lemma gives_Some: "P x \<Longrightarrow> gives (Some x) P" by (simp add: gives_def)

lemma gives_bind: "gives m Q \<Longrightarrow> (\<And>x. Q x \<Longrightarrow> gives (f x) P) \<Longrightarrow> gives (m \<bind> f) P"
  by (auto simp: gives_def bind_eq_Some_conv)

lemma gives_any: "(\<And>x. gives (f x) P) \<Longrightarrow> gives (m \<bind> f) P"
  by (auto simp: gives_def bind_eq_Some_conv)

lemma gives_seq: "(\<And>x. m = Some x \<Longrightarrow> gives (f x) P) \<Longrightarrow> gives (m \<bind> f) P"
  by (auto simp: gives_def bind_eq_Some_conv)

lemma gives_if: "(b \<Longrightarrow> gives m P) \<Longrightarrow> (\<not> b \<Longrightarrow> gives n P) \<Longrightarrow> gives (if b then m else n) P"
  by simp

lemma gives_option:
  "(z = None \<Longrightarrow> gives m P) \<Longrightarrow> (\<And>x. z = Some x \<Longrightarrow> gives (f x) P) \<Longrightarrow> gives (case z of None \<Rightarrow> m | Some x \<Rightarrow> f x) P"
  by (simp split: option.split)

lemma gives_prod: "(\<And>x y. p = (x, y) \<Longrightarrow> gives (f x y) P) \<Longrightarrow> gives (case p of (x, y) \<Rightarrow> f x y) P"
  by (simp split: prod.split)

lemma gives_sum:
  "(\<And>x. s = Inl x \<Longrightarrow> gives (f x) P) \<Longrightarrow> (\<And>x. s = Inr x \<Longrightarrow> gives (g x) P) \<Longrightarrow> gives (case s of Inl x \<Rightarrow> f x | Inr x \<Rightarrow> g x) P"
  by (simp split: sum.split)

lemma givesD: "gives m P \<Longrightarrow> m = Some x \<Longrightarrow> P x" by (simp add: gives_def)

lemmas gives_split = gives_None gives_if gives_option gives_prod gives_sum

section \<open>Handlers\<close>

abbreviation (input) "expects n \<equiv> \<lambda>st. control_rec_seq_num st = n"

lemma upd_c_kept [kept]: "expects n st \<Longrightarrow> gives (upd_c st c f) (expects n)"
  by (auto simp: gives_def upd_c_def bind_eq_Some_conv)

lemma upd_head_kept [kept]: "expects n st \<Longrightarrow> gives (upd_head st f) (expects n)"
  unfolding upd_head_def by (intro gives_split upd_c_kept)

lemma set_error_kept [kept]: "expects n st \<Longrightarrow> gives (set_error st c e t) (expects n)"
  unfolding set_error_def by (intro gives_any upd_c_kept)

lemma wrong_length_kept [kept]: "expects n st \<Longrightarrow> gives (wrong_length st c a b d e) (expects n)"
  unfolding wrong_length_def by (rule upd_c_kept)

abbreviation (input) "outcome n \<equiv> \<lambda>(rc, st). control_rec_seq_num st = n"

lemma outcome_Some: "expects n st \<Longrightarrow> gives (Some (rc, st)) (outcome n)" by (simp add: gives_def)

lemma for_messages_kept: "expects n st \<Longrightarrow> gives k (outcome n) \<Longrightarrow> gives (for_messages st c ms k) (outcome n)"
  unfolding for_messages_def by (intro gives_split gives_any outcome_Some)

lemma need_length_kept: "expects n st \<Longrightarrow> gives k (outcome n) \<Longrightarrow> gives (need_length st c ok f e d a k) (outcome n)"
  unfolding need_length_def by (intro gives_if gives_bind [OF wrong_length_kept] outcome_Some)

lemma head_string_kept: "expects n st \<Longrightarrow> gives (head_string st g p b off) (outcome n)"
  unfolding head_string_def by (rule gives_split gives_bind [OF upd_c_kept] outcome_Some gives_any | assumption)+

lemma gives_bind_state: "gives m (expects n) \<Longrightarrow> (\<And>st. expects n st \<Longrightarrow> gives (f st) P) \<Longrightarrow> gives (m \<bind> f) P"
  by (rule gives_bind)

lemma state_Some: "expects n st \<Longrightarrow> gives (Some st) (expects n)" by (simp add: gives_def)

lemmas handler_rules = state_Some head_string_kept for_messages_kept need_length_kept outcome_Some gives_split
  upd_c_kept upd_head_kept set_error_kept wrong_length_kept gives_bind_state [where n=n for n]

lemma new_call_kept: "new_call st = (r, st') \<Longrightarrow> control_rec_seq_num st' = control_rec_seq_num st"
  by (auto simp: new_call_def next_alloc_def split: if_splits)

lemma message_type_kept: "expects n st \<Longrightarrow> gives (message_type_avp st c b off len) (outcome n)"
  unfolding message_type_avp_def
  by (rule handler_rules gives_any | assumption | (simp add: new_call_kept; fail) | simp only: Let_def)+

lemma tunnel_handlers_kept:
  assumes "expects n st"
  shows "gives (protocol_version_avp st c b off len) (outcome n)" "gives (framing_caps_avp st c b off len) (outcome n)"
    "gives (bearer_caps_avp st c b off len) (outcome n)" "gives (firmware_rev_avp st c b off len) (outcome n)"
    "gives (hostname_avp st c b off len) (outcome n)" "gives (vendor_avp st c b off len) (outcome n)"
    "gives (assigned_tunnel_avp st c b off len) (outcome n)" "gives (receive_window_size_avp st c b off len) (outcome n)"
    "gives (challenge_avp st c b off len) (outcome n)" "gives (chalresp_avp st c b off len) (outcome n)"
    "gives (ignore_avp st c b off len) (outcome n)" "gives (rand_vector_avp st c b off len) (outcome n)"
  using assms unfolding protocol_version_avp_def framing_caps_avp_def bearer_caps_avp_def firmware_rev_avp_def hostname_avp_def
    vendor_avp_def assigned_tunnel_avp_def receive_window_size_avp_def challenge_avp_def chalresp_avp_def
    ignore_avp_def rand_vector_avp_def next_alloc_def
  by - (rule handler_rules gives_any | assumption | (simp; fail) | simp only: Let_def prod.case)+

lemma call_handlers_kept:
  assumes "expects n st"
  shows "gives (result_code_avp st c b off len) (outcome n)" "gives (assigned_call_avp st c b off len) (outcome n)"
    "gives (call_serno_avp st c b off len) (outcome n)" "gives (bearer_type_avp st c b off len) (outcome n)"
    "gives (frame_type_avp st c b off len) (outcome n)" "gives (packet_delay_avp st c b off len) (outcome n)"
    "gives (dialed_number_avp st c b off len) (outcome n)" "gives (dialing_number_avp st c b off len) (outcome n)"
    "gives (sub_address_avp st c b off len) (outcome n)" "gives (tx_speed_avp st c b off len) (outcome n)"
    "gives (call_physchan_avp st c b off len) (outcome n)" "gives (rx_speed_avp st c b off len) (outcome n)"
    "gives (seq_reqd_avp st c b off len) (outcome n)"
  using assms unfolding result_code_avp_def assigned_call_avp_def call_serno_avp_def bearer_type_avp_def frame_type_avp_def
    packet_delay_avp_def dialed_number_avp_def dialing_number_avp_def sub_address_avp_def tx_speed_avp_def
    call_physchan_avp_def rx_speed_avp_def seq_reqd_avp_def
  by - (rule handler_rules gives_any | assumption | (simp; fail) | simp only: Let_def)+

lemma table_kept: "(Some h, s) \<in> set avps \<Longrightarrow> expects n st \<Longrightarrow> gives (h st c b off len) (outcome n)"
  using message_type_kept tunnel_handlers_kept call_handlers_kept unfolding avps_def by auto

abbreviation (input) "outcome3 n \<equiv> \<lambda>(rc, st, b). control_rec_seq_num st = n"

lemma outcome3_Some: "expects n st \<Longrightarrow> gives (Some (rc, st, b)) (outcome3 n)" by (simp add: gives_def)

lemma call_handler_kept:
  assumes "expects n st"
  shows "gives (call_handler avps st c b data moved hidlen) (outcome3 n)"
proof -
  have h: "gives (h st c b data len) (outcome n)" if "arr_get avps k = Some e" "fst e = Some h" for h e k len
  proof -
    have "(Some h, snd e) \<in> set avps" using that nth_mem [of k avps] by (metis arr_get_eq_Some_iff prod.collapse)
    then show ?thesis using table_kept assms by blast
  qed
  note e = outcome3_Some [OF assms] and k = outcome3_Some
  show ?thesis unfolding call_handler_def
    apply (rule gives_any, rule gives_any, rule gives_seq, rule gives_option)
    apply (rule gives_if, rule gives_bind [OF set_error_kept], rule assms, erule k, rule e)
    apply (rule gives_bind [OF h], assumption, assumption)
    by (auto intro!: gives_bind [OF upd_c_kept] gives_if k)
qed

lemma handle_loop_kept: "expects n st \<Longrightarrow> gives (handle_loop avps st c b data len first) (outcome3 n)"
proof (induction len arbitrary: st b data first rule: measure_induct_rule [of nat])
  case (less len)
  have close: "gives (close_with st c e t b) (outcome3 n)" for e t b
    unfolding close_with_def using less.prems by - (rule handler_rules outcome3_Some gives_any | assumption)+
  have one: "gives (handle_avp avps st c b data len first) (outcome3 n)"
    unfolding handle_avp_def using less.prems
    by - (rule close call_handler_kept outcome3_Some gives_split gives_any | assumption)+
  have onward: "gives (handle_loop avps st c b data (len - int k - int m) False) (outcome3 n)"
    if "0 < len" "0 < m" "expects n st" for st b data k m
    using that by (intro less.IH) auto
  show ?case
  proof (cases "len > 0")
    case True
    have "gives (handle_avp avps st c b data len first \<bind> (\<lambda>(out, st, b).
        case out of Return rc \<Rightarrow> Some (rc, st, b)
        | Next moved hidlen \<Rightarrow> do {
            skip \<leftarrow> skip_avp b (data + moved) hidlen;
            if skip > 0 then handle_loop avps st c b (data + moved + skip) (len - int moved - int skip) False
            else Some (- EINVAL, st, b) })) (outcome3 n)"
      using True onward by (intro gives_bind [OF one]) (auto intro!: gives_any gives_if outcome3_Some split: avp_outcome.split)
    then show ?thesis using True by (simp add: handle_loop.simps)
  next
    case False
    then show ?thesis using less.prems by (simp add: handle_loop.simps outcome3_Some)
  qed
qed

lemma handle_avps_kept: "expects n st \<Longrightarrow> gives (handle_avps st b len c) (outcome3 n)"
  unfolding handle_avps_def by (rule handle_loop_kept)

definition tracks :: "(nat \<Rightarrow> u16) \<Rightarrow> world \<Rightarrow> bool" where
  "tracks M w \<longleftrightarrow> (\<forall>i st. get_t w i = Some st \<longrightarrow> control_rec_seq_num st = M i) \<and> (\<forall>i\<ge>length (tuns w). M i = 0)"

lemma tracks_fields [simp]:
  "tracks M (sent_update f w) = tracks M w" "tracks M (news_update g w) = tracks M w"
  "tracks M (randoms_update g w) = tracks M w" "tracks M (uaddr_update h w) = tracks M w"
  "tracks M (events_update k w) = tracks M w" "tracks M (serno_update l w) = tracks M w"
  "tracks M (opened_update g w) = tracks M w" "tracks M (pppds_update m w) = tracks M w"
  "tracks M (tlist_update n w) = tracks M w" "tracks M (readings_update g w) = tracks M w"
  "tracks M (next_ptr_update g w) = tracks M w" "tracks M (lac_states_update f' w) = tracks M w"
  by (simp_all add: tracks_def get_t_def)

lemma tracks_get: "tracks M w \<Longrightarrow> gives (get_t w i) (expects (M i))" by (simp add: tracks_def gives_def)

lemma get_set: "get_t (set_t w i st) j = (if j = i \<and> i < length (tuns w) then Some st else get_t w j)"
  by (auto simp: get_t_def set_t_def)

lemma get_drop: "get_t (w\<lparr>tuns := (tuns w)[i := None]\<rparr>) j = (if j = i then None else get_t w j)"
  by (auto simp: get_t_def)

lemma tuns_set [simp]: "length (tuns (set_t w i st)) = length (tuns w)" by (simp add: set_t_def)

lemma tracks_set: "tracks M w \<Longrightarrow> expects (M i) st \<Longrightarrow> tracks M (set_t w i st)"
  by (simp add: tracks_def get_set)

lemma tracks_drop: "tracks M w \<Longrightarrow> tracks M (w\<lparr>tuns := (tuns w)[i := None]\<rparr>)"
  by (simp add: tracks_def get_drop)

lemma get_append: "get_t (w\<lparr>tuns := tuns w @ [Some st], tlist := l\<rparr>) j = (if j = length (tuns w) then Some st else get_t w j)"
  by (auto simp: get_t_def nth_append)

lemma tracks_append:
  "tracks M w \<Longrightarrow> control_rec_seq_num st = 0 \<Longrightarrow> tracks M (w\<lparr>tuns := tuns w @ [Some st], tlist := l\<rparr>)"
  unfolding tracks_def get_append by auto

lemma tracks_udp [simp]: "tracks M (udp_xmit b w) = tracks M w" by (simp add: udp_xmit_def)

lemma tracks_schedule [simp]: "tracks M (snd (schedule d e w)) = tracks M w"
  by (simp add: schedule_def Let_def gettimeofday_def split: prod.split)

abbreviation (input) "outcome_w M \<equiv> \<lambda>(r, w). tracks M w"

lemma add_control_hdr_kept: "expects n st \<Longrightarrow> gives (add_control_hdr st c b) (\<lambda>(st, b). expects n st)"
  by (auto simp: add_control_hdr_def gives_def bind_eq_Some_conv Let_def split: if_splits)

lemma control_zlb_kept: "expects n st \<Longrightarrow> gives (control_zlb b st c) (\<lambda>(st, b). expects n st)"
  unfolding control_zlb_def by (intro gives_bind [OF add_control_hdr_kept]) (auto simp: gives_def)

lemma new_outgoing_for_kept: "tracks M w \<Longrightarrow> gives (new_outgoing_for i w) (outcome_w M)"
  unfolding new_outgoing_for_def next_alloc_def Let_def prod.case
  by (rule gives_bind [OF tracks_get], assumption, rule gives_any) (auto simp: gives_def tracks_set)


section \<open>Rules\<close>

lemma gives_get:
  "tracks M w \<Longrightarrow> (\<And>st. get_t w i = Some st \<Longrightarrow> expects (M i) st \<Longrightarrow> gives (k st) P) \<Longrightarrow> gives (get_t w i \<bind> k) P"
  by (auto simp: tracks_def gives_def bind_eq_Some_conv)

lemma gives_world: "gives m (tracks M) \<Longrightarrow> (\<And>w. tracks M w \<Longrightarrow> gives (f w) P) \<Longrightarrow> gives (m \<bind> f) P"
  by (rule gives_bind)

lemma gives_pair: "gives m (outcome_w M) \<Longrightarrow> (\<And>r w. tracks M w \<Longrightarrow> gives (f (r, w)) P) \<Longrightarrow> gives (m \<bind> f) P"
  by (erule gives_bind) auto

lemma gives_built:
  "gives m (\<lambda>(st, b). expects n st) \<Longrightarrow> (\<And>st b. expects n st \<Longrightarrow> gives (f (st, b)) P) \<Longrightarrow> gives (m \<bind> f) P"
  by (erule gives_bind) auto

lemma gives_tuple: "gives (f x y) P \<Longrightarrow> gives (case (x, y) of (x, y) \<Rightarrow> f x y) P" by simp

lemma gives_w: "tracks M w \<Longrightarrow> gives (Some w) (tracks M)" by (simp add: gives_def)

lemma gives_rw: "tracks M w \<Longrightarrow> gives (Some (r, w)) (outcome_w M)" by (simp add: gives_def)

lemma gives_sb: "expects n st \<Longrightarrow> gives (Some (st, b)) (\<lambda>(st, b). expects n st)" by (simp add: gives_def)

lemmas base_rules = gives_get gives_w gives_rw gives_sb gives_tuple gives_split state_Some upd_c_kept set_error_kept add_control_hdr_kept
  control_zlb_kept new_outgoing_for_kept tracks_set

lemmas bind_rules = gives_world gives_pair gives_bind_state gives_built gives_any

section \<open>Closing\<close>

lemma release_call_kept: "expects n st \<Longrightarrow> gives (release_call st c tab) (\<lambda>(st, t). expects n st)"
  unfolding release_call_def by (rule base_rules bind_rules | assumption)+

lemma unlink_call_kept: "expects n st \<Longrightarrow> gives (unlink_call st c) (expects n)"
  unfolding unlink_call_def by (rule base_rules bind_rules | assumption | (simp; fail))+

lemma upd_lac_kept [simp]: "tracks M (upd_lac l f w) = tracks M w" by (simp add: upd_lac_def)

lemma redial_kept [simp]: "tracks M (redial l w) = tracks M w"
proof -
  obtain p w1 where s: "schedule (TV (pc_rtimeout l) 0) (Dial_event l) w = (p, w1)" by fastforce
  then have "tracks M w1 = tracks M w" using tracks_schedule [of M "TV (pc_rtimeout l) 0" "Dial_event l" w] by simp
  then show ?thesis by (simp add: redial_def s)
qed

lemma tracks_option [simp]:
  "(\<And>l. tracks M (f l) = tracks M w) \<Longrightarrow> tracks M (case z of None \<Rightarrow> w | Some l \<Rightarrow> f l) = tracks M w"
  by (cases z) simp_all

lemma destroy_call_kept: "tracks M w \<Longrightarrow> gives (destroy_call i c w) (tracks M)"
  unfolding destroy_call_def Let_def
  by (rule release_call_kept unlink_call_kept gives_get gives_bind_state gives_built gives_any gives_w gives_tuple | assumption
      | (simp add: tracks_set; fail))+

lemma destroy_calls_kept: "tracks M w \<Longrightarrow> gives (destroy_calls i c w) (tracks M)"
proof -
  let ?P = "\<lambda>i (c :: nat option) w w'. tracks M w \<longrightarrow> tracks M w'"
  have "?P i c w y" if "destroy_calls i c w = Some y" for y
  proof (rule destroy_calls.raw_induct [of ?P, OF _ that])
    fix run :: "nat \<Rightarrow> nat option \<Rightarrow> world \<Rightarrow> world option" and i c w w'
    assume IH: "\<And>i c w w'. run i c w = Some w' \<Longrightarrow> ?P i c w w'"
      and eq: "(case c of None \<Rightarrow> Some w | Some c \<Rightarrow> do {
          st \<leftarrow> get_t w i; cl \<leftarrow> get_c st c; w \<leftarrow> destroy_call i c w; run i (c_next cl) w }) = Some w'"
    have run: "tracks M w \<Longrightarrow> gives (run i c w) (tracks M)" for i c w using IH [of i c w] by (auto simp: gives_def)
    have "tracks M w \<Longrightarrow> gives (case c of None \<Rightarrow> Some w | Some c \<Rightarrow> do {
          st \<leftarrow> get_t w i; cl \<leftarrow> get_c st c; w \<leftarrow> destroy_call i c w; run i (c_next cl) w }) (tracks M)"
      by (rule run destroy_call_kept gives_option gives_w gives_get gives_world gives_any | assumption)+
    then show "?P i c w w'" using eq by (auto simp: gives_def)
  qed
  then show "tracks M w \<Longrightarrow> ?thesis" by (auto simp: gives_def)
qed

lemma destroy_tunnel_kept: "tracks M w \<Longrightarrow> gives (destroy_tunnel i w) (tracks M)"
  unfolding destroy_tunnel_def Let_def
  by (rule gives_get gives_world [OF destroy_calls_kept [where M = M]] gives_world [OF destroy_call_kept [where M = M]] gives_w | assumption
      | (simp add: tracks_drop; fail))+

section \<open>Sending\<close>

lemma xmit_kept:
  assumes "\<And>i w. tracks M w \<Longrightarrow> gives (close i w) (tracks M)"
  shows "tracks M w \<Longrightarrow> gives (xmit close x w) (tracks M)"
  unfolding xmit_def Let_def by (rule assms base_rules bind_rules | assumption | (simp; fail))+

lemma send_closing_kept: "tracks M w \<Longrightarrow> gives (send_closing type own_id call_id i c w) (tracks M)"
  unfolding send_closing_def Let_def
  by (rule base_rules bind_rules xmit_kept | assumption | (simp add: gives_None; fail))+

lemma mark_closing_kept: "tracks M w \<Longrightarrow> gives (mark_closing i c w) (tracks M)"
  unfolding mark_closing_def by (rule base_rules bind_rules | assumption)+

lemma close_member_kept: "tracks M w \<Longrightarrow> gives (close_member i c w) (tracks M)"
  unfolding close_member_def
  by (rule send_closing_kept mark_closing_kept destroy_call_kept base_rules bind_rules | assumption | (simp add: tracks_set; fail))+


lemma close_members_kept: "tracks M w \<Longrightarrow> gives (close_members i c w) (tracks M)"
proof -
  let ?P = "\<lambda>i (c :: nat option) w w'. tracks M w \<longrightarrow> tracks M w'"
  have "?P i c w y" if "close_members i c w = Some y" for y
  proof (rule close_members.raw_induct [of ?P, OF _ that])
    fix run :: "nat \<Rightarrow> nat option \<Rightarrow> world \<Rightarrow> world option" and i c w w'
    assume IH: "\<And>i c w w'. run i c w = Some w' \<Longrightarrow> ?P i c w w'"
      and eq: "(case c of None \<Rightarrow> Some w | Some c \<Rightarrow> do {
          st \<leftarrow> get_t w i; cl \<leftarrow> get_c st c; st \<leftarrow> upd_c st c (\<lambda>cl. cl\<lparr>c_needclose := 0, c_closing := -1\<rparr>);
          w \<leftarrow> close_member i c (set_t w i st); run i (c_next cl) w }) = Some w'"
    have run: "tracks M w \<Longrightarrow> gives (run i c w) (tracks M)" for i c w using IH [of i c w] by (auto simp: gives_def)
    have "tracks M w \<Longrightarrow> gives (case c of None \<Rightarrow> Some w | Some c \<Rightarrow> do {
          st \<leftarrow> get_t w i; cl \<leftarrow> get_c st c; st \<leftarrow> upd_c st c (\<lambda>cl. cl\<lparr>c_needclose := 0, c_closing := -1\<rparr>);
          w \<leftarrow> close_member i c (set_t w i st); run i (c_next cl) w }) (tracks M)"
      by (rule run close_member_kept base_rules bind_rules | assumption)+
    then show "?P i c w w'" using eq by (auto simp: gives_def)
  qed
  then show "tracks M w \<Longrightarrow> ?thesis" by (auto simp: gives_def)
qed

lemma close_tunnel_kept: "tracks M w \<Longrightarrow> gives (close_tunnel i w) (tracks M)"
  unfolding close_tunnel_def deschedule_tunnel_def Let_def
  by (rule destroy_tunnel_kept send_closing_kept close_members_kept mark_closing_kept base_rules bind_rules | assumption | (simp; fail))+

lemma call_close_kept: "tracks M w \<Longrightarrow> gives (call_close i c w) (tracks M)"
  unfolding call_close_def by (rule close_tunnel_kept close_member_kept base_rules bind_rules | assumption)+

lemma control_xmit_kept: "tracks M w \<Longrightarrow> gives (control_xmit x w) (tracks M)"
  unfolding control_xmit_def by (rule xmit_kept close_tunnel_kept | assumption)+

section \<open>Messages\<close>

lemma upd_call_kept: "tracks M w \<Longrightarrow> gives (upd_call i c f w) (tracks M)"
  unfolding upd_call_def by (rule base_rules bind_rules | assumption)+

lemma refuse_kept: "tracks M w \<Longrightarrow> gives (refuse i c t w) (outcome_w M)"
  unfolding refuse_def by (rule base_rules bind_rules | assumption)+

lemma fresh_vector_kept: "tracks M w \<Longrightarrow> gives (fresh_vector i w) (tracks M)"
  unfolding fresh_vector_def by (rule gives_get base_rules | assumption | (simp add: tracks_set; fail))+

lemma finish_message_kept: "tracks M w \<Longrightarrow> gives (finish_message i c x b w) (tracks M)"
  unfolding finish_message_def by (rule control_xmit_kept base_rules bind_rules | assumption)+

lemma send_simple_kept: "tracks M w \<Longrightarrow> gives (send_simple i c type body w) (tracks M)"
  unfolding send_simple_def by (rule fresh_vector_kept finish_message_kept base_rules bind_rules | assumption)+

lemmas world_rules = call_close_kept control_xmit_kept upd_call_kept refuse_kept fresh_vector_kept finish_message_kept
  send_simple_kept base_rules bind_rules

lemma start_hello_kept [simp]: "tracks M (start_hello i w) = tracks M w" by (simp add: start_hello_def)

lemma open_incoming_kept: "tracks M w \<Longrightarrow> gives (open_incoming i c w) (tracks M)"
  unfolding open_incoming_def Let_def by (rule world_rules | assumption | (simp; fail))+

lemma open_outgoing_kept: "tracks M w \<Longrightarrow> gives (open_outgoing i c w) (tracks M)"
  unfolding open_outgoing_def Let_def by (rule world_rules | assumption | (simp; fail))+

lemma open_call_kept: "tracks M w \<Longrightarrow> gives (open_call cf i c w) (tracks M)"
  unfolding open_call_def by (rule open_incoming_kept open_outgoing_kept gives_if | assumption)+

lemma open_tunnel_kept: "expects n st \<Longrightarrow> gives (open_tunnel host rv ch mem st) (\<lambda>(rc, st, b). expects n st)"
  by (auto simp: open_tunnel_def challenge_and_send_def open_settings_def next_alloc_def gives_def bind_eq_Some_conv Let_def
      split: if_splits option.splits dest!: add_control_hdr_kept [OF refl, THEN gives_def [THEN iffD1], rule_format]
        upd_c_kept [OF refl, THEN gives_def [THEN iffD1], rule_format])

lemma start_tunnel_kept: "tracks M w \<Longrightarrow> gives (start_tunnel cf i w) (outcome_w M)"
  unfolding start_tunnel_def Let_def
  by (rule gives_get, assumption, rule gives_bind [OF open_tunnel_kept], assumption)
    (auto simp: tracks_set intro!: gives_option gives_rw gives_bind [OF control_xmit_kept])

lemma lac_call_kept: "tracks M w \<Longrightarrow> gives (lac_call cf tid lac lns dial w) (tracks M)"
  unfolding lac_call_def Let_def
  by (rule open_call_kept world_rules | assumption | (simp add: tracks_set new_call_kept; fail) | (rule open_call_kept, rule tracks_set, assumption, simp add: new_call_kept))+

lemma add_tunnel_kept: "tracks M w \<Longrightarrow> add_tunnel rnd addr oracle w = (i, w') \<Longrightarrow> tracks M w'"
  by (auto simp: add_tunnel_def new_tunnel_def intro!: tracks_append split: option.splits prod.splits if_splits)

lemma l2tp_call_kept: "tracks M w \<Longrightarrow> gives (l2tp_call cf host l w) (tracks M)"
  unfolding l2tp_call_def
  apply (rule gives_option, simp add: gives_w)
  apply (rule gives_prod, rule gives_prod)
  apply (frule (1) add_tunnel_kept, rule gives_option, simp add: gives_w)
  apply (rule gives_get, assumption)
  apply (rule gives_bind_state [OF upd_c_kept], simp)
  apply (rule gives_pair [OF start_tunnel_kept [where M = M]], simp add: tracks_set)
  by (simp add: gives_w)

lemma magic_lac_tunnel_kept: "tracks M w \<Longrightarrow> gives (magic_lac_tunnel cf l w) (tracks M)"
  unfolding magic_lac_tunnel_def by (rule l2tp_call_kept gives_option gives_w | assumption)+

lemma magic_lac_dial_kept: "tracks M w \<Longrightarrow> gives (magic_lac_dial cf l w) (tracks M)"
  unfolding magic_lac_dial_def Let_def
  by (rule gives_if gives_option gives_w magic_lac_tunnel_kept gives_any lac_call_kept | assumption | (simp; fail))+


lemma handle_challenge_kept:
  "expects n st \<Longrightarrow> gives (handle_challenge_us host sec st) (outcome n)"
  "expects n st \<Longrightarrow> gives (handle_challenge_them host sec st) (outcome n)"
  unfolding handle_challenge_us_def handle_challenge_them_def Let_def
  by (rule outcome_Some gives_split gives_any | assumption | (simp; fail))+

lemma gives_rc: "gives m (outcome n) \<Longrightarrow> (\<And>rc st. expects n st \<Longrightarrow> gives (f (rc, st)) P) \<Longrightarrow> gives (m \<bind> f) P"
  by (erule gives_bind) auto

abbreviation (input) "early M \<equiv> case_sum (outcome_w M) (tracks M)"

lemma gives_early: "gives m (early M) \<Longrightarrow> (\<And>r w. tracks M w \<Longrightarrow> gives (f (Inl (r, w))) P) \<Longrightarrow>
    (\<And>w. tracks M w \<Longrightarrow> gives (f (Inr w)) P) \<Longrightarrow> gives (m \<bind> f) P"
  by (erule gives_bind) (auto split: sum.splits)

lemma early_Some: "tracks M w \<Longrightarrow> gives (Some (Inr w)) (early M)" "tracks M w \<Longrightarrow> gives (Some (Inl (r, w))) (early M)"
  by (simp_all add: gives_def)

lemma early_refuse: "tracks M w \<Longrightarrow> gives (refuse i c t w \<bind> (\<lambda>e. Some (Inl e))) (early M)"
  by (rule gives_bind [OF refuse_kept]) (auto simp: gives_def)

lemma check_reply_kept: "tracks M w \<Longrightarrow> gives (check_reply i c w) (early M)"
  unfolding check_reply_def by (rule early_refuse early_Some gives_get gives_if | assumption)+

lemmas challenge_rules = early_refuse early_Some gives_get gives_if gives_rc handle_challenge_kept gives_tuple tracks_set

lemma authenticate_peer_kept: "tracks M w \<Longrightarrow> gives (authenticate_peer cf i c w) (early M)"
  unfolding authenticate_peer_def
  by (rule check_reply_kept challenge_rules | assumption | (simp; fail))+

lemma respond_to_peer_kept: "tracks M w \<Longrightarrow> gives (respond_to_peer cf i c w) (early M)"
  unfolding respond_to_peer_def
  by (rule challenge_rules | assumption | (simp; fail))+

lemma send_scccn_kept: "tracks M w \<Longrightarrow> gives (send_scccn cf i c w) (outcome_w M)"
  unfolding send_scccn_def Let_def
  by (rule magic_lac_dial_kept send_simple_kept gives_world gives_get gives_option gives_w gives_rw tracks_set | assumption | (simp add: tracks_set; fail))+

lemma finish_sccrp_kept: "tracks M w \<Longrightarrow> gives (finish_sccrp cf i c w) (outcome_w M)"
  unfolding finish_sccrp_def
  by (rule send_scccn_kept refuse_kept gives_get gives_if | assumption)+
    (rule gives_early authenticate_peer_kept respond_to_peer_kept send_scccn_kept | assumption | (simp add: gives_rw; fail) | simp only: sum.case)+

lemma finish_scccn_kept: "tracks M w \<Longrightarrow> gives (finish_scccn i c w) (outcome_w M)"
  unfolding finish_scccn_def
  by (rule gives_early [OF check_reply_kept] gives_rw gives_get gives_any | assumption | (simp add: gives_rw tracks_set; fail) | simp only: sum.case)+


lemma gives_bw: "gives m (\<lambda>(b, w). tracks M w) \<Longrightarrow> (\<And>b w. tracks M w \<Longrightarrow> gives (f (b, w)) P) \<Longrightarrow> gives (m \<bind> f) P"
  by (erule gives_bind) auto

lemma answer_challenge_kept: "tracks M w \<Longrightarrow> gives (answer_challenge cf i b w) (\<lambda>(b, w). tracks M w)"
  unfolding answer_challenge_def
  by (rule challenge_rules gives_rw gives_any | assumption | (simp; fail))+

abbreviation (input) "early_b M \<equiv> case_sum (outcome_w M) (\<lambda>(b, w). tracks M w)"

lemma early_b_Some: "tracks M w \<Longrightarrow> gives (Some (Inr (b, w))) (early_b M)" "tracks M w \<Longrightarrow> gives (Some (Inl (r, w))) (early_b M)"
  by (simp_all add: gives_def)

lemma challenge_back_kept: "tracks M w \<Longrightarrow> gives (challenge_back cf i c l b w) (early_b M)"
  unfolding challenge_back_def next_alloc_def Let_def
  by (rule early_b_Some challenge_rules set_error_kept gives_bind_state gives_any | assumption | (simp add: tracks_set; fail) | simp only: prod.case)+

lemma gives_early_b: "gives m (early_b M) \<Longrightarrow> (\<And>r w. tracks M w \<Longrightarrow> gives (f (Inl (r, w))) P) \<Longrightarrow>
    (\<And>b w. tracks M w \<Longrightarrow> gives (f (Inr (b, w))) P) \<Longrightarrow> gives (m \<bind> f) P"
  by (erule gives_bind) (auto split: sum.splits)

lemma send_sccrp_kept: "tracks M w \<Longrightarrow> gives (send_sccrp cf i c l w) (outcome_w M)"
  unfolding send_sccrp_def
  by (rule gives_get gives_early_b [OF challenge_back_kept] gives_bw [OF answer_challenge_kept] gives_pair [OF new_outgoing_for_kept]
      gives_world [OF fresh_vector_kept] gives_world [OF finish_message_kept] gives_any gives_rw tracks_set
      | assumption | (simp; fail) | simp only: sum.case prod.case)+

lemma finish_sccrq_kept: "tracks M w \<Longrightarrow> gives (finish_sccrq cf i c w) (outcome_w M)"
  unfolding finish_sccrq_def Let_def
  by (rule send_sccrp_kept refuse_kept upd_call_kept gives_get gives_split gives_world gives_any gives_rw tracks_set | assumption | (simp; fail))+

lemma finish_stopccn_kept: "tracks M w \<Longrightarrow> gives (finish_stopccn i c w) (outcome_w M)"
  unfolding finish_stopccn_def Let_def
  by (rule upd_call_kept gives_get gives_split gives_world gives_any gives_rw tracks_set | assumption | (simp; fail))+

lemma finish_cdn_kept: "tracks M w \<Longrightarrow> gives (finish_cdn i c w) (outcome_w M)"
  unfolding finish_cdn_def Let_def
  by (rule upd_call_kept gives_get gives_split gives_world gives_any gives_rw tracks_set | assumption | (simp; fail))+

lemma start_pppd_kept: "tracks M w \<Longrightarrow> gives (start_pppd i c po w) (tracks M)"
  unfolding start_pppd_def Let_def
  by (rule upd_call_kept gives_get gives_if gives_world gives_any gives_w | assumption | (simp; fail))+

lemma finish_icrq_kept: "tracks M w \<Longrightarrow> gives (finish_icrq i w) (outcome_w M)"
  unfolding finish_icrq_def Let_def
  by (rule send_simple_kept call_close_kept upd_call_kept gives_get gives_split set_error_kept upd_c_kept gives_bind_state gives_world gives_any
      gives_rw tracks_set | assumption | (simp; fail))+

lemma tracks_opened: "tracks M w \<Longrightarrow> tracks M (if p then w\<lparr>opened := k\<rparr> else w)" by simp

lemma finish_icrp_kept: "tracks M w \<Longrightarrow> gives (finish_icrp i c w) (outcome_w M)"
  unfolding finish_icrp_def Let_def
  by (rule send_simple_kept start_pppd_kept upd_call_kept gives_get gives_split gives_world gives_any gives_rw tracks_opened | assumption | (simp; fail))+

lemma finish_iccn_kept: "tracks M w \<Longrightarrow> gives (finish_iccn i c w) (outcome_w M)"
  unfolding finish_iccn_def Let_def
  by (rule start_pppd_kept upd_call_kept gives_get gives_split gives_world gives_any gives_rw | assumption | (simp; fail))+

lemma finish_occn_kept: "tracks M w \<Longrightarrow> gives (finish_occn i c w) (outcome_w M)"
  unfolding finish_occn_def Let_def
  by (rule start_pppd_kept upd_call_kept gives_get gives_split gives_world gives_any gives_rw | assumption | (simp; fail))+

lemma control_finish_kept: "tracks M w \<Longrightarrow> gives (control_finish cf i c w) (outcome_w M)"
  unfolding control_finish_def Let_def
  by (rule start_tunnel_kept open_call_kept finish_sccrq_kept finish_sccrp_kept finish_scccn_kept finish_stopccn_kept finish_icrq_kept
      finish_icrp_kept finish_iccn_kept finish_occn_kept finish_cdn_kept set_error_kept gives_get gives_if gives_bind_state gives_world
      gives_any gives_rw tracks_set | assumption | (simp; fail))+

section \<open>Rounds of the main loop\<close>

lemma hello_kept: "tracks M w \<Longrightarrow> gives (hello i w) (tracks M)"
  unfolding hello_def
  by (rule gives_pair [OF new_outgoing_for_kept] gives_world [OF control_xmit_kept] gives_get gives_built add_control_hdr_kept gives_any gives_tuple
      gives_w tracks_set | assumption | (simp; fail))+

lemma run_events_kept: "tracks M w \<Longrightarrow> gives (run_events cf e w) (tracks M)"
  unfolding run_events_def run_event_def
  by (cases e) (simp_all add: control_xmit_kept hello_kept magic_lac_dial_kept)

lemma close_pending_calls_kept: "tracks M w \<Longrightarrow> gives (close_pending_calls i c w) (tracks M)"
proof -
  let ?P = "\<lambda>i (c :: nat option) w w'. tracks M w \<longrightarrow> tracks M w'"
  have "?P i c w y" if "close_pending_calls i c w = Some y" for y
  proof (rule close_pending_calls.raw_induct [of ?P, OF _ that])
    fix run :: "nat \<Rightarrow> nat option \<Rightarrow> world \<Rightarrow> world option" and i c w w'
    assume IH: "\<And>i c w w'. run i c w = Some w' \<Longrightarrow> ?P i c w w'"
      and eq: "(case c of None \<Rightarrow> Some w | Some c \<Rightarrow> do {
          st \<leftarrow> get_t w i; cl \<leftarrow> get_c st c;
          if pending cl then do { w \<leftarrow> call_close i c w; st \<leftarrow> get_t w i; run i (t_call_head st) w }
          else run i (c_next cl) w }) = Some w'"
    have run: "tracks M w \<Longrightarrow> gives (run i c w) (tracks M)" for i c w using IH [of i c w] by (auto simp: gives_def)
    have "tracks M w \<Longrightarrow> gives (case c of None \<Rightarrow> Some w | Some c \<Rightarrow> do {
          st \<leftarrow> get_t w i; cl \<leftarrow> get_c st c;
          if pending cl then do { w \<leftarrow> call_close i c w; st \<leftarrow> get_t w i; run i (t_call_head st) w }
          else run i (c_next cl) w }) (tracks M)"
      by (rule run gives_option gives_w gives_get gives_if gives_world [OF call_close_kept] gives_any | assumption)+
    then show "?P i c w w'" using eq by (auto simp: gives_def)
  qed
  then show "tracks M w \<Longrightarrow> ?thesis" by (auto simp: gives_def)
qed

lemma close_pending_kept: "tracks M w \<Longrightarrow> gives (close_pending ts w) (tracks M)"
proof -
  let ?P = "\<lambda>(ts :: nat list) w w'. tracks M w \<longrightarrow> tracks M w'"
  have "?P ts w y" if "close_pending ts w = Some y" for y
  proof (rule close_pending.raw_induct [of ?P, OF _ that])
    fix run :: "nat list \<Rightarrow> world \<Rightarrow> world option" and ts w w'
    assume IH: "\<And>ts w w'. run ts w = Some w' \<Longrightarrow> ?P ts w w'"
      and eq: "(case ts of [] \<Rightarrow> Some w | i # ts \<Rightarrow> do {
          st \<leftarrow> get_t w i; w \<leftarrow> close_pending_calls i (t_call_head st) w; st \<leftarrow> get_t w i; self \<leftarrow> get_c st (t_self st);
          if pending self then do { w \<leftarrow> call_close i (t_self st) w; run (tlist w) w } else run ts w }) = Some w'"
    have run: "tracks M w \<Longrightarrow> gives (run ts w) (tracks M)" for ts w using IH [of ts w] by (auto simp: gives_def)
    have "tracks M w \<Longrightarrow> gives (do {
          st \<leftarrow> get_t w i; w \<leftarrow> close_pending_calls i (t_call_head st) w; st \<leftarrow> get_t w i; self \<leftarrow> get_c st (t_self st);
          if pending self then do { w \<leftarrow> call_close i (t_self st) w; run (tlist w) w } else run js w }) (tracks M)" for i js
      by (rule run gives_get gives_if gives_world [OF close_pending_calls_kept] gives_world [OF call_close_kept] gives_any | assumption)+
    then show "?P ts w w'" using eq by (cases ts) (auto simp: gives_def)
  qed
  then show "tracks M w \<Longrightarrow> ?thesis" by (auto simp: gives_def)
qed

lemma process_schedule_kept:
  assumes run: "\<And>e w. tracks M w \<Longrightarrow> gives (run e w) (tracks M)"
  shows "tracks M w \<Longrightarrow> gives (process_schedule run w) (outcome_w M)"
proof -
  let ?P = "\<lambda>f (w :: world) (y :: timeval option \<times> world). f = run \<longrightarrow> tracks M w \<longrightarrow> tracks M (snd y)"
  have "?P run w y" if "process_schedule run w = Some y" for y
  proof (rule process_schedule.raw_induct [of ?P, OF _ that])
    fix go :: "(event \<Rightarrow> world \<Rightarrow> world option) \<Rightarrow> world \<Rightarrow> (timeval option \<times> world) option" and f w y
    assume IH: "\<And>f w y. go f w = Some y \<Longrightarrow> ?P f w y"
      and eq: "(case events w of [] \<Rightarrow> Some (None, w) | p # ps \<Rightarrow> (case gettimeofday w of (now, s) \<Rightarrow>
          if TVLESSEQ (e_tv p) now then do { s \<leftarrow> f (e_fn p) (s\<lparr>events := ps\<rparr>); go f s }
          else Some (Some (wait_time (e_tv p) now), s))) = Some y"
    show "?P f w y"
    proof (intro impI)
      assume f: "f = run" and w: "tracks M w"
      have next_ok: "tracks M (snd y)" if b: "run e (w\<lparr>readings := r, events := ps\<rparr>) \<bind> go f = Some y" for e r ps
      proof -
        obtain s where s: "run e (w\<lparr>readings := r, events := ps\<rparr>) = Some s" "go f s = Some y" using b by (auto simp: bind_eq_Some_conv)
        have "tracks M s" using givesD [OF run s(1)] w by simp
        then show ?thesis using IH [OF s(2)] f by blast
      qed
      then show "tracks M (snd y)" using eq w unfolding f
        by (cases "events w") (auto simp: gettimeofday_def split: if_splits)
    qed
  qed
  then show "tracks M w \<Longrightarrow> ?thesis" by (auto simp: gives_def)
qed

lemma idle_round_kept: "tracks M w \<Longrightarrow> gives (idle_round (magic_lac_dial cf) w) (tracks M)"
proof -
  have r: "run_event (magic_lac_dial cf) = run_events cf" by (rule ext)+ (simp add: run_events_def)
  show "tracks M w \<Longrightarrow> ?thesis" unfolding idle_round_def r
    by (rule gives_world [OF close_pending_kept] gives_pair [OF process_schedule_kept [OF run_events_kept]] gives_w gives_tuple | assumption)+
qed

end
