(* ===== verification/L2tp_Auth_Props.thy ===== *)
theory L2tp_Auth_Props
  imports L2tp_Auth
begin

text \<open>
  What \<open>get_secret\<close> makes of a line of the file of secrets, with and without a comment sign, and that the
  two ends of a tunnel compute the same response exactly from the same secret.
\<close>

section \<open>Lines of the file of secrets\<close>

definition word_ok :: "byte_buf \<Rightarrow> bool" where
  "word_ok w \<longleftrightarrow> w \<noteq> [] \<and> (\<forall>b\<in>set w. sint b > 33 \<and> b \<noteq> 0x23 \<and> b \<noteq> 0x3B)"

lemma word_okD:
  assumes "word_ok w" "b \<in> set w"
  shows "sint b > 33" "sint b > 32" "\<not> blank b" "b \<noteq> 0" "b \<noteq> 0x0A" "b \<noteq> 0x23" "b \<noteq> 0x3B"
proof -
  show "sint b > 33" "b \<noteq> 0x23" "b \<noteq> 0x3B" using assms by (simp_all add: word_ok_def)
  then show "sint b > 32" "\<not> blank b" "b \<noteq> 0" "b \<noteq> 0x0A" by (auto simp: blank_def)
qed

lemma word_ok_clean: "word_ok w \<Longrightarrow> 0 \<notin> set w \<and> 0x0A \<notin> set w"
  using word_okD(4,5) by blast

lemma scan_run:
  "length pre = t \<Longrightarrow> \<forall>b\<in>set w. p b \<Longrightarrow> \<not> p x \<Longrightarrow> scan p (pre @ w @ x # rest) t = Some (t + length w)"
  by (simp add: scan_def takeWhile_append2)

lemma c_string_word: "0 \<notin> set w \<Longrightarrow> c_string (w @ 0 # rest) = w"
  unfolding c_string_def by (subst takeWhile_append2) auto

lemma next_word_at:
  assumes "length pre = t" "\<forall>b\<in>set w. inside b" "\<not> inside x" "b \<noteq> 0" "\<not> blank b"
  shows "next_word inside (pre @ w @ x # b # rest) t = Some (t + length w + 1, pre @ w @ 0 # b # rest)"
  using assms scan_run [of pre t w inside x "b # rest"] scan_run [of "pre @ w @ [0]" "t + length w + 1" "[]" "\<lambda>b. b \<noteq> 0 \<and> blank b" b rest]
  by (simp add: next_word_def arr_upd_def list_update_append)

text \<open>The line as \<open>fgets\<close> leaves it in the buffer.\<close>

lemma fgets_line:
  assumes "\<forall>b\<in>set l. b \<noteq> 0x0A" "length l + 2 \<le> n"
  shows "fgets buf n (l @ 0x0A # rest) = Some (l @ [0x0A, 0] @ drop (length l + 2) buf, rest)"
proof -
  have "line_length n (l @ 0x0A # rest) = length l + 1" using assms by (simp add: line_length_def takeWhile_append2 Let_def)
  then show ?thesis by (simp add: fgets_def)
qed

lemma strip_blanks_end:
  assumes "l \<noteq> []" "\<not> blank (last l)"
  shows "strip_blanks (length l) (l @ rest) = l @ rest" "blank x \<Longrightarrow> strip_blanks (Suc (length l)) (l @ x # rest) = l @ 0 # rest"
proof -
  have *: "strip_blanks (length l) (l @ rest) = l @ rest" for rest
    using assms by (cases l rule: rev_cases) (simp_all add: nth_append)
  show "strip_blanks (length l) (l @ rest) = l @ rest" by (rule *)
  show "blank x \<Longrightarrow> strip_blanks (Suc (length l)) (l @ x # rest) = l @ 0 # rest"
    using * [of "0 # rest"] by (simp add: nth_append list_update_append)
qed

text \<open>
  C37: functional behaviour and a defect of \<open>get_secret\<close>. A line of three words that names the two ends
  yields its third word. But a comment sign between the first two words works like a blank:
  what was meant to be a comment is used as a name and a secret, to which even the newline belongs.
\<close>

theorem get_secret_line:
  assumes words: "word_ok a" "word_ok b" "word_ok s" and len: "length a + length b + length s + 4 \<le> STRLEN"
    and x: "x = 0x20 \<or> x = 0x23 \<or> x = 0x3B"
    and names: "map lower a = map lower (c_string us)" "map lower b = map lower (c_string them)"
  shows "get_secret (Some (a @ x # b @ 0x20 # s @ 0x0A # rest)) buf us them = Some (Some (if x = 0x20 then s else s @ [0x0A]))"
proof -
  define line where "line = a @ x # b @ 0x20 # s"
  define junk where "junk = drop (length line + 2) buf"
  define y :: u8 where "y = (if x = 0x20 then 0x20 else 0)"
  define q where "q = (if x = 0x20 then 0 # 0 # junk else 0x0A # 0 # junk)"
  note wa = word_okD [OF words(1)] and wb = word_okD [OF words(2)] and ws = word_okD [OF words(3)]
  note clean = word_ok_clean [OF words(1)] word_ok_clean [OF words(2)] word_ok_clean [OF words(3)]
  have ne: "a \<noteq> []" "b \<noteq> []" "s \<noteq> []" using words by (simp_all add: word_ok_def)
  have plain: "\<forall>c\<in>set line. c \<noteq> 0x0A" "0 \<notin> set (line @ [0x0A])" using x clean by (auto simp: line_def)
  have g: "fgets buf STRLEN (line @ 0x0A # rest) = Some (line @ 0x0A # 0 # junk, rest)"
    using fgets_line [OF plain(1), of STRLEN buf rest] len unfolding junk_def by (simp add: line_def)
  have c1: "c_string (line @ 0x0A # 0 # junk) = line @ [0x0A]" using c_string_word [OF plain(2), of junk] by simp
  have map_id: "map (\<lambda>b. if b = 0x23 \<or> b = 0x3B then 0 else b) w = w" if "word_ok w" for w
    using word_okD(6,7) [OF that] by (intro map_idI) auto
  have dr: "drop (length (line @ [0x0A])) (line @ 0x0A # 0 # junk) = 0 # junk" by simp
  have c2: "strip_comments (line @ 0x0A # 0 # junk) = a @ y # b @ 0x20 # s @ 0x0A # 0 # junk"
    unfolding strip_comments_def c1 dr using words x map_id by (auto simp: line_def y_def)
  have c3: "strip_blanks (length (c_string (a @ y # b @ 0x20 # s @ 0x0A # 0 # junk))) (a @ y # b @ 0x20 # s @ 0x0A # 0 # junk) =
      a @ y # b @ 0x20 # s @ q"
  proof (cases "x = 0x20")
    case True
    have "strip_blanks (Suc (length line)) (line @ 0x0A # 0 # junk) = line @ 0 # 0 # junk"
      using ne ws(3) by (intro strip_blanks_end(2)) (simp_all add: line_def blank_def)
    then show ?thesis using True c1 by (simp add: line_def y_def q_def)
  next
    case False
    have "c_string (a @ 0 # b @ 0x20 # s @ 0x0A # 0 # junk) = a" using clean by (intro c_string_word) auto
    moreover have "strip_blanks (length a) (a @ 0 # b @ 0x20 # s @ 0x0A # 0 # junk) = a @ 0 # b @ 0x20 # s @ 0x0A # 0 # junk"
      using ne wa(3) by (intro strip_blanks_end(1)) simp_all
    ultimately show ?thesis using False by (simp add: y_def q_def)
  qed
  obtain a0 a' b0 b' s0 s' where h: "a = a0 # a'" "b = b0 # b'" "s = s0 # s'" using ne by (meson neq_Nil_conv)
  have u: "scan (\<lambda>b. b \<noteq> 0 \<and> blank b) (a @ y # b @ 0x20 # s @ q) 0 = Some 0"
    using scan_run [of "[]" 0 "[]" "\<lambda>b. b \<noteq> 0 \<and> blank b" a0 "a' @ y # b @ 0x20 # s @ q"] wa(3) h by simp
  have n1: "next_word (\<lambda>b. sint b > 32) (a @ y # b @ 0x20 # s @ q) 0 = Some (length a + 1, a @ 0 # b @ 0x20 # s @ q)"
    using next_word_at [of "[]" 0 a "\<lambda>b. sint b > 32" y b0 "b' @ 0x20 # s @ q"] wa(2) wb(3,4) h(2) by (simp add: y_def)
  have n2: "next_word (\<lambda>b. sint b > 33) (a @ 0 # b @ 0x20 # s @ q) (length a + 1) =
      Some (length a + 1 + length b + 1, a @ 0 # b @ 0 # s @ q)"
    using next_word_at [of "a @ [0]" "length a + 1" b "\<lambda>b. sint b > 33" "0x20" s0 "s' @ q"] wb(1) ws(3,4) h(3) by simp
  have at: "(a @ y # b @ 0x20 # s @ q) ! 0 = a0" "(a @ 0 # b @ 0x20 # s @ q) ! (length a + 1) = b0"
    "(a @ 0 # b @ 0 # s @ q) ! (length a + 1 + length b + 1) = s0"
    using h by (simp_all add: nth_append)
  have d: "drop (length a + 1) (a @ 0 # b @ 0 # s @ q) = b @ 0 # s @ q"
    "drop (length a + 1 + length b + 1) (a @ 0 # b @ 0 # s @ q) = s @ q" by simp_all
  have cs: "c_string (a @ 0 # b @ 0 # s @ q) = a" "c_string (b @ 0 # s @ q) = b"
    "c_string (s @ q) = (if x = 0x20 then s else s @ [0x0A])"
    using c_string_word [of a "b @ 0 # s @ q"] c_string_word [of b "s @ q"] c_string_word [of s "0 # junk"]
      c_string_word [of "s @ [0x0A]" junk] clean by (auto simp: q_def)
  have m: "name_matches (a @ 0 # b @ 0 # s @ q) us" "name_matches (b @ 0 # s @ q) them"
    using names by (simp_all add: name_matches_def strcasecmp_eq_def cs)
  have z: "a0 \<noteq> 0" "b0 \<noteq> 0" "s0 \<noteq> 0" using clean h by auto
  have "c_string (a @ y # b @ 0x20 # s @ q) \<noteq> []" using h(1) z(1) by (simp add: c_string_def)
  then have "parse_secret us them (line @ 0x0A # 0 # junk) = Some (Some (if x = 0x20 then s else s @ [0x0A]), a @ 0 # b @ 0 # s @ q)"
    using u n1 n2 at d m z by (simp add: parse_secret_def c2 c3 cs(3))
  then show ?thesis using g by (simp add: get_secret_def line_def)
qed

lemma get_secret_line_witness:
  "get_secret (Some (msg_bytes ''lns'' @ 0x23 # msg_bytes ''old'' @ 0x20 # msg_bytes ''pass'' @ 0x0A # [])) (replicate 100 0)
     (msg_bytes ''LNS'') (msg_bytes ''old'') = Some (Some (msg_bytes ''pass'' @ [0x0A]))"
proof -
  have "word_ok (msg_bytes ''lns'')" "word_ok (msg_bytes ''old'')" "word_ok (msg_bytes ''pass'')"
    by (simp_all add: word_ok_def msg_bytes_def)
  from get_secret_line [OF this, of "0x23" "msg_bytes ''LNS''" "msg_bytes ''old''" "[]" "replicate 100 0"] show ?thesis
    by (simp add: msg_bytes_def c_string_def lower_def)
qed

section \<open>Challenge and response\<close>

lemma chal_response_ok:
  assumes "length (c_string secret) < 2 ^ 32" "0 \<le> len" "nat len \<le> length ch" "nat len < 2 ^ 32"
  shows "chal_response ss secret (Some ch) len = Some (md5 (ss # c_string secret @ take (nat len) ch))"
  using assms by (simp add: chal_response_def rd_bytes_def md5_of_ok)

lemma c_string_stored_secret:
  assumes "0 \<notin> set s" "length s < MAXSTRLEN"
  shows "c_string (stored_secret s) = s"
proof -
  have "MAXSTRLEN - length s = Suc (119 - length s)" using assms(2) by simp
  then show ?thesis using c_string_word [OF assms(1), of "replicate (119 - length s) 0"] assms(2) by (simp add: stored_secret_def)
qed

end
