(* ===== verification/L2tp_Receive_Props.thy ===== *)
theory L2tp_Receive_Props
  imports L2tp_Frame L2tp_Auth_Props
begin

text \<open>
  Properties of the receiving side: messages are handled in order and, within \<open>2 ^ 16\<close> numbers, at most once however the network
  duplicates and reorders them, an unexpected message only has its acknowledgement repeated, and a challenge is
  answered so that the peer accepts the answer exactly if the secrets agree.
\<close>

section \<open>The sequence check\<close>

lemma gives_triple: "gives m (outcome3 n) \<Longrightarrow> (\<And>r st b. expects n st \<Longrightarrow> gives (f (r, st, b)) P) \<Longrightarrow> gives (m \<bind> f) P"
  by (erule gives_bind) auto

lemma send_ack_kept: "tracks M w \<Longrightarrow> gives (send_ack i c w) (tracks M)"
  unfolding send_ack_def
  by (rule control_zlb_kept gives_get gives_pair [OF new_outgoing_for_kept] gives_built gives_tuple gives_w | assumption | (simp add: tracks_set; fail))+

lemma tracks_self: "tracks (\<lambda>j. case get_t w j of Some st \<Rightarrow> control_rec_seq_num st | None \<Rightarrow> 0) w"
  by (simp add: tracks_def get_t_def)

lemma tracks_at: "tracks M w \<Longrightarrow> get_t w i = Some st \<Longrightarrow> control_rec_seq_num st = M i"
  by (simp add: tracks_def)

lemma tracks_upd: "tracks M w \<Longrightarrow> get_t w i = Some st0 \<Longrightarrow> expects m st \<Longrightarrow> tracks (M(i := m)) (set_t w i st)"
  by (auto simp: tracks_def get_set split: if_splits dest: get_t_lt)

text \<open>A message whose header has a wrong bit is refused, but the expected number goes up all the same.\<close>

definition proper :: "obuf \<Rightarrow> bool" where
  "proper b \<longleftrightarrow> (case hdr_word b 0 of Some v \<Rightarrow> header_ok v | None \<Rightarrow> False)"

lemma check_control_kept:
  assumes "tracks M w"
  shows "gives (check_control b i c w) (\<lambda>(rc, w').
      (rc = 0 \<longrightarrow> hdr_word b 4 = Some (M i) \<and> tracks (M(i := M i + 1)) w') \<and>
      (rc \<noteq> 0 \<longrightarrow> tracks M w' \<or> (\<not> proper b \<and> hdr_word b 4 = Some (M i) \<and> tracks (M(i := M i + 1)) w')))"
proof -
  have skip: "gives (Some (- EINVAL, w)) (\<lambda>(rc, w'). (rc = 0 \<longrightarrow> P w') \<and> (rc \<noteq> 0 \<longrightarrow> tracks M w' \<or> Q w'))"
    if "tracks M w" for w P Q using that by (simp add: gives_def)
  show ?thesis unfolding check_control_def
    apply (rule gives_if, rule skip, rule assms)
    apply (rule gives_any, rule gives_if, rule skip, rule assms)
    apply (rule gives_get, rule assms, rule gives_seq, rule gives_if)
    subgoal
      by (rule skip gives_if gives_world [OF send_ack_kept] gives_world [OF upd_call_kept] assms | assumption)+
    subgoal for len st ns
      apply (rule gives_any, rule gives_seq)
      apply (rule gives_bind [OF upd_c_kept [where n = "M i + 1"]], simp)
      using assms by (auto simp: gives_def proper_def intro!: tracks_upd)
    done
qed

lemma handle_zlb_kept: "tracks M w \<Longrightarrow> gives (handle_zlb i c w) (tracks (M(i := M i - 1)))"
proof -
  assume w: "tracks M w"
  have "get_t w i = Some st \<Longrightarrow> expects (M i - 1) st1 \<Longrightarrow> tracks (M(i := M i - 1)) (set_t w i st1)" for st st1
    by (rule tracks_upd [OF w])
  then show ?thesis unfolding handle_zlb_def
    by (intro gives_get [OF w] gives_bind [OF upd_c_kept [where n = "M i - 1"]]) (simp_all add: gives_def)
qed

section \<open>Delivery\<close>

text \<open>
  What becomes of a sequence number that the check of a control packet has used up: its message is passed to the handlers; it was
  for a call that does not exist and is only acknowledged; its header has a wrong bit; it is an acknowledgement, which takes no number of its
  own, for a call that does not exist.
\<close>

datatype fate = Handled | Acknowledged | Malformed | Stray_ack

text \<open>
  The number a packet uses up, read off from the check: nothing if the expected number is the same after it, and nothing if the packet is
  an acknowledgement for a call that exists, because \<open>handle_control\<close> takes the step back. \<open>found\<close> says whether the call exists.
\<close>

definition numbered :: "bool \<Rightarrow> obuf \<Rightarrow> nat \<Rightarrow> nat \<Rightarrow> world \<Rightarrow> (nat \<times> u16 \<times> fate) list option" where
  "numbered found b i c w = do {
     ver \<leftarrow> hdr_word b 0;
     if \<not> CTBIT ver then Some []
     else do {
       st \<leftarrow> get_t w i;
       (rc, x) \<leftarrow> check_control b i c w;
       stx \<leftarrow> get_t x i;
       if control_rec_seq_num stx = control_rec_seq_num st then Some []
       else do {
         ns \<leftarrow> hdr_word b 4;
         Some (if rc \<noteq> 0 then [(i, ns, Malformed)]
           else if ob_len b = CONTROL_HDR then (if found then [] else [(i, ns, Stray_ack)])
           else [(i, ns, if found then Handled else Acknowledged)]) } } }"

text \<open>Everything the main loop does: its rounds without a packet, and the datagrams it receives.\<close>

datatype input =
    Idle
  | Datagram "wres list" byte_buf byte_buf u32 u16 "bool \<times> bool \<times> (nat \<Rightarrow> bool) \<times> (nat \<Rightarrow> u16)"

definition number_of :: "input \<Rightarrow> world \<Rightarrow> (nat \<times> u16 \<times> fate) list option" where
  "number_of inp w = (case inp of
     Idle \<Rightarrow> Some []
   | Datagram ws mem bs addr rnd oracle \<Rightarrow>
       if length bs < MIN_PAYLOAD_HDR_LEN then Some []
       else do {
         b \<leftarrow> receive mem bs;
         b \<leftarrow> fix_hdr b;
         (tunnel, call) \<leftarrow> extract_ids b;
         (ic, w) \<leftarrow> get_call tunnel call addr rnd oracle w;
         case ic of
           Some (i, c) \<Rightarrow> do { st \<leftarrow> get_t w i; numbered True b i c (set_t w i (st\<lparr>us_vector := None\<rparr>)) }
         | None \<Rightarrow> do {
             ic \<leftarrow> get_tunnel tunnel w;
             case ic of
               Some (i, c) \<Rightarrow> do { w \<leftarrow> upd_call i c (\<lambda>cl. cl\<lparr>c_cid := uint (word_of_int call :: u16)\<rparr>) w; numbered False b i c w }
             | None \<Rightarrow> Some [] } })"

definition serve_input :: "config \<Rightarrow> input \<Rightarrow> world \<Rightarrow> world option" where
  "serve_input cf inp w = (case inp of
     Idle \<Rightarrow> idle_round (magic_lac_dial cf) w
   | Datagram ws mem bs addr rnd oracle \<Rightarrow> serve_datagram cf ws mem bs addr rnd oracle w)"

fun serve_all :: "config \<Rightarrow> input list \<Rightarrow> world \<Rightarrow> ((nat \<times> u16 \<times> fate) list \<times> world) option" where
  "serve_all cf [] w = Some ([], w)"
| "serve_all cf (inp # inps) w = do {
     es \<leftarrow> number_of inp w;
     w \<leftarrow> serve_input cf inp w;
     (fs, w) \<leftarrow> serve_all cf inps w;
     Some (es @ fs, w) }"

text \<open>One packet uses up no number or the expected number of one tunnel.\<close>

definition counted :: "(nat \<Rightarrow> u16) \<Rightarrow> bool \<Rightarrow> (nat \<times> u16 \<times> fate) list \<Rightarrow> world \<Rightarrow> bool" where
  "counted M bad es w \<longleftrightarrow> (es = [] \<and> tracks M w) \<or>
     (\<exists>j f. es = [(j, M j, f)] \<and> tracks (M(j := M j + 1)) w \<and> (f = Malformed \<longrightarrow> bad))"

lemma counted_none: "tracks M w \<Longrightarrow> counted M bad [] w" by (simp add: counted_def)

lemma counted_one: "tracks (M(j := M j + 1)) w \<Longrightarrow> (f = Malformed \<longrightarrow> bad) \<Longrightarrow> counted M bad [(j, M j, f)] w"
  unfolding counted_def by blast

lemma gives_counted: "gives m (tracks M') \<Longrightarrow> (\<And>w. tracks M' w \<Longrightarrow> counted M bad es w) \<Longrightarrow> gives m (counted M bad es)"
  by (auto simp: gives_def)

text \<open>What \<open>numbered\<close> says, in terms of the expected numbers.\<close>

lemma numbered_cases:
  assumes w: "tracks M w" and n: "numbered found b i c w = Some es" and v: "hdr_word b 0 = Some ver" "CTBIT ver"
    and k: "check_control b i c w = Some (rc, x)"
  shows "if rc \<noteq> 0 then (es = [] \<and> tracks M x) \<or> (es = [(i, M i, Malformed)] \<and> \<not> proper b \<and> tracks (M(i := M i + 1)) x)
    else hdr_word b 4 = Some (M i) \<and> tracks (M(i := M i + 1)) x \<and>
      es = (if ob_len b = CONTROL_HDR then (if found then [] else [(i, M i, Stray_ack)]) else [(i, M i, if found then Handled else Acknowledged)])"
proof -
  obtain st stx where g: "get_t w i = Some st" "get_t x i = Some stx"
    using n v k by (auto simp: numbered_def bind_eq_Some_conv)
  have same: "control_rec_seq_num st = M i" using tracks_at [OF w g(1)] .
  have up: "control_rec_seq_num stx = M i + 1" if "tracks (M(i := M i + 1)) x" using tracks_at [OF that g(2)] by simp
  have ne: "M i + 1 \<noteq> M i" by simp
  note k' = check_control_kept [OF w, of b i c, THEN gives_def [THEN iffD1], rule_format, OF k, simplified]
  show ?thesis
  proof (cases "rc = 0")
    case True
    then have h: "hdr_word b 4 = Some (M i)" "tracks (M(i := M i + 1)) x" using k' by simp_all
    then show ?thesis using True n v k g same up ne by (simp add: numbered_def split: if_splits)
  next
    case False
    then consider "tracks M x" | "\<not> proper b" "hdr_word b 4 = Some (M i)" "tracks (M(i := M i + 1)) x" using k' by blast
    then show ?thesis
    proof cases
      case 1
      then have "control_rec_seq_num stx = M i" using tracks_at g(2) by blast
      then show ?thesis using 1 False n v k g same by (simp add: numbered_def)
    next
      case 2
      then show ?thesis using False n v k g same up ne by (simp add: numbered_def)
    qed
  qed
qed

text \<open>\<open>Handled\<close> is the very case in which \<open>handle_control\<close> goes on to the handlers of the message.\<close>

lemma handled_exactly:
  assumes n: "numbered True b i c w = Some es" and v: "hdr_word b 0 = Some ver" "CTBIT ver"
    and k: "check_control b i c w = Some (rc, x)"
  shows "handle_control cf b i c w =
    (if \<exists>ns. es = [(i, ns, Handled)] then do {
       w \<leftarrow> upd_call i c (\<lambda>cl. cl\<lparr>c_msgtype := -1\<rparr>) x;
       st \<leftarrow> get_t w i;
       (rc, st, mem) \<leftarrow> handle_avps st (drop (ob_start b) (ob_mem b)) (ob_len b) c;
       let w = set_t w i st;
       if rc \<noteq> 0 then Some (- EINVAL, w) else control_finish cf i c w }
     else if rc \<noteq> 0 then Some (- EINVAL, x)
     else do { w \<leftarrow> upd_call i c (\<lambda>cl. cl\<lparr>c_msgtype := -1\<rparr>) x; w \<leftarrow> handle_zlb i c w; Some (0, w) })"
  using numbered_cases [OF tracks_self n v k] k by (auto simp: handle_control_def split: if_splits)

section \<open>One datagram\<close>

abbreviation (input) "bad_header b \<equiv> (\<exists>v. hdr_word b 0 = Some v \<and> CTBIT v \<and> \<not> header_ok v)"

lemma handle_control_counted:
  assumes w: "tracks M w" and n: "numbered True b i c w = Some es" and v: "hdr_word b 0 = Some ver" "CTBIT ver"
  shows "gives (handle_control cf b i c w) (\<lambda>(r, w'). counted M (bad_header b) es w')"
proof (cases "check_control b i c w")
  case None
  then show ?thesis by (simp add: handle_control_def gives_def)
next
  case (Some p)
  obtain rc x where p: "check_control b i c w = Some (rc, x)" using Some by (cases p) simp
  note k = numbered_cases [OF w n v p]
  show ?thesis
  proof (cases "rc = 0")
    case False
    then have "counted M (bad_header b) es x" using k v by (auto simp: counted_none proper_def intro!: counted_one)
    then show ?thesis using p False by (simp add: handle_control_def gives_def)
  next
    case True
    with k have t: "tracks (M(i := M i + 1)) x" by simp
    have z: "gives (handle_zlb i c w') (tracks M)" if "tracks (M(i := M i + 1)) w'" for w'
      using handle_zlb_kept [OF that, of i c] by simp
    have f: "gives (do {
         st \<leftarrow> get_t w' i;
         (rc, st, mem) \<leftarrow> handle_avps st (drop (ob_start b) (ob_mem b)) (ob_len b) c;
         let w = set_t w' i st;
         if rc \<noteq> 0 then Some (- EINVAL, w) else control_finish cf i c w }) (outcome_w (M(i := M i + 1)))"
      if "tracks (M(i := M i + 1)) w'" for w'
      using that unfolding Let_def
      by - (rule gives_get gives_triple [OF handle_avps_kept] gives_if control_finish_kept gives_rw tracks_set | assumption | simp only: prod.case)+
    have u: "gives (upd_call i c (\<lambda>cl. cl\<lparr>c_msgtype := -1\<rparr>) x) (tracks (M(i := M i + 1)))" by (rule upd_call_kept [OF t])
    show ?thesis
    proof (cases "ob_len b = CONTROL_HDR")
      case zlb: True
      then have "gives (handle_control cf b i c w) (outcome_w M)"
        using p True u unfolding handle_control_def
        by (auto intro!: gives_bind [OF u] gives_bind [OF z] gives_rw simp del: fun_upd_apply)
      then show ?thesis using k True zlb by (auto simp: gives_def counted_none)
    next
      case msg: False
      then have "gives (handle_control cf b i c w) (outcome_w (M(i := M i + 1)))"
        using p True u unfolding handle_control_def
        by (auto intro!: gives_bind [OF u] f simp del: fun_upd_apply)
      moreover have "es = [(i, M i, Handled)]" using k True msg by simp
      ultimately show ?thesis by (auto simp: gives_def intro!: counted_one)
    qed
  qed
qed

lemma tracks_vector: "tracks M w \<Longrightarrow> get_t w i = Some st \<Longrightarrow> tracks M (set_t w i (st\<lparr>us_vector := v\<rparr>))"
  using tracks_at [of M w i st] by (simp add: tracks_set)

lemma ack_counted:
  assumes "counted M bad es w"
  shows "gives (do { st \<leftarrow> get_t w i; cl \<leftarrow> get_c st c;
      if c_cnu cl \<noteq> 0 then do { (st, b) \<leftarrow> control_zlb b st c; upd_call i c (\<lambda>cl. cl\<lparr>c_cnu := 0\<rparr>) (udp_xmit b (set_t w i st)) }
      else Some w }) (counted M bad es)" (is "gives ?m _")
proof -
  have "gives ?m (tracks N)" if "tracks N w" for N
    using that by - (rule gives_get gives_if gives_built [OF control_zlb_kept] upd_call_kept gives_any gives_tuple gives_w | assumption
        | (simp add: tracks_set; fail))+
  then show ?thesis using assms by (auto simp: counted_def gives_def)
qed

lemma serve_packet_counted:
  assumes w: "tracks M w" and g: "get_t w i = Some st" and n: "numbered True b i c (set_t w i (st\<lparr>us_vector := None\<rparr>)) = Some es"
  shows "gives (serve_packet cf ws b i c w) (counted M (bad_header b) es)"
proof -
  let ?w = "set_t w i (st\<lparr>us_vector := None\<rparr>)"
  have t: "tracks M ?w" by (rule tracks_vector [OF w g])
  have h: "gives (handle_packet cf ws b i c ?w) (\<lambda>(r, w'). counted M (bad_header b) es w')"
  proof (cases "hdr_word b 0")
    case (Some ver)
    show ?thesis
    proof (cases "CTBIT ver")
      case True
      then show ?thesis using handle_control_counted [OF t n Some True] Some by (simp add: handle_packet_def)
    next
      case False
      then have "es = []" using n Some by (simp add: numbered_def)
      moreover have "gives (do { st \<leftarrow> get_t ?w i; cl \<leftarrow> get_c st c; (rc, cl, out) \<leftarrow> handle_payload b (t_sanity st) cl ws;
         st \<leftarrow> upd_c st c (\<lambda>_. cl); Some (rc, set_t ?w i st) }) (outcome_w M)"
        using t by - (assumption | rule gives_get gives_any gives_split gives_bind_state [OF upd_c_kept] gives_rw tracks_set)+
      ultimately show ?thesis using Some False by (auto simp: handle_packet_def gives_def counted_none)
    qed
  qed (simp add: handle_packet_def gives_def)
  show ?thesis unfolding serve_packet_def g bind.bind_lunit
    by (rule gives_bind [OF h]) (auto intro: ack_counted)
qed

lemma handle_special_counted:
  assumes w: "tracks M w" and n: "(upd_call i c (\<lambda>cl. cl\<lparr>c_cid := uint call\<rparr>) w \<bind> numbered False b i c) = Some es"
  shows "gives (handle_special b i c call w) (\<lambda>(r, w'). counted M (bad_header b) es w')"
proof -
  obtain w1 where w1: "upd_call i c (\<lambda>cl. cl\<lparr>c_cid := uint call\<rparr>) w = Some w1" "numbered False b i c w1 = Some es"
    using n by (auto simp: bind_eq_Some_conv)
  have t: "tracks M w1" using upd_call_kept [OF w] w1(1) by (rule givesD)
  obtain ver where v: "hdr_word b 0 = Some ver" using w1(2) by (auto simp: numbered_def bind_eq_Some_conv)
  show ?thesis
  proof (cases "CTBIT ver")
    case False
    then have "es = []" using w1(2) v by (simp add: numbered_def)
    then show ?thesis using False v w by (simp add: handle_special_def gives_def counted_none)
  next
    case True
    obtain rc x where k: "check_control b i c w1 = Some (rc, x)" using w1(2) v True by (auto simp: numbered_def bind_eq_Some_conv)
    note cases = numbered_cases [OF t w1(2) v True k]
    have x: "counted M (bad_header b) es x" using cases v True
      by (auto simp: counted_none proper_def split: if_splits intro!: counted_one)
    have fin: "gives (do { w \<leftarrow> upd_call i c (\<lambda>cl. cl\<lparr>c_cid := 0\<rparr>) y; Some (r, w) }) (\<lambda>(r, w'). counted M (bad_header b) es w')"
      if "counted M (bad_header b) es y" for y and r :: int
    proof -
      have "gives (upd_call i c (\<lambda>cl. cl\<lparr>c_cid := 0\<rparr>) y) (counted M (bad_header b) es)"
        using that upd_call_kept [of _ y i c] by (auto simp: counted_def gives_def)
      then show ?thesis by (rule gives_bind) (simp add: gives_def)
    qed
    have ack: "gives (do { st \<leftarrow> get_t x i; (st, b) \<leftarrow> control_zlb b st c;
        w \<leftarrow> upd_call i c (\<lambda>cl. cl\<lparr>c_cid := 0\<rparr>) (udp_xmit b (set_t x i st)); Some (1, w) }) (\<lambda>(r :: int, w'). counted M (bad_header b) es w')"
    proof -
      have "gives (do { st \<leftarrow> get_t x i; (st, b) \<leftarrow> control_zlb b st c;
        w \<leftarrow> upd_call i c (\<lambda>cl. cl\<lparr>c_cid := 0\<rparr>) (udp_xmit b (set_t x i st)); Some (1 :: int, w) }) (outcome_w N)" if "tracks N x" for N
        using that by - (rule gives_get gives_built [OF control_zlb_kept] gives_world [OF upd_call_kept [where M = N]] gives_tuple gives_rw
            | assumption | (simp add: tracks_set; fail))+
      then show ?thesis using x by (auto simp: counted_def gives_def)
    qed
    show ?thesis using fin [OF x] ack v True w1(1) k by (simp add: handle_special_def)
  qed
qed

lemma get_call_kept: "tracks M w \<Longrightarrow> gives (get_call tunnel call addr rnd oracle w) (outcome_w M)"
  unfolding get_call_def
  by (rule gives_if gives_rw gives_get gives_split gives_any | assumption
      | (auto simp: gives_def dest: add_tunnel_kept split: prod.split; fail))+

text \<open>A datagram whose header, as a control packet, has a wrong bit.\<close>

definition malformed :: "input \<Rightarrow> bool" where
  "malformed inp = (case inp of
     Idle \<Rightarrow> False
   | Datagram ws mem bs addr rnd oracle \<Rightarrow>
       (case receive mem bs \<bind> fix_hdr of None \<Rightarrow> False
        | Some b \<Rightarrow> (case hdr_word b 0 of None \<Rightarrow> False | Some v \<Rightarrow> CTBIT v \<and> \<not> header_ok v)))"

lemma input_counted:
  assumes w: "tracks M w" and n: "number_of inp w = Some es" and s: "serve_input cf inp w = Some w'"
  shows "counted M (malformed inp) es w'"
proof (cases inp)
  case Idle
  then show ?thesis using n s givesD [OF idle_round_kept [OF w]] by (auto simp: number_of_def serve_input_def counted_none)
next
  case (Datagram ws mem bs addr rnd mem_ok)
  show ?thesis
  proof (cases "length bs < MIN_PAYLOAD_HDR_LEN")
    case True
    then show ?thesis using n s w Datagram by (simp add: number_of_def serve_input_def serve_datagram_def counted_none)
  next
    case False
    obtain b0 b tunnel call ic w1 where b: "receive mem bs = Some b0" "fix_hdr b0 = Some b" "extract_ids b = Some (tunnel, call)"
      "get_call tunnel call addr rnd mem_ok w = Some (ic, w1)"
      using n False Datagram by (auto simp: number_of_def bind_eq_Some_conv)
    have t: "tracks M w1" using givesD [OF get_call_kept [OF w] b(4)] by simp
    have bad: "malformed inp \<longleftrightarrow> bad_header b" using b(1,2) Datagram by (auto simp: malformed_def split: option.splits)
    show ?thesis
    proof (cases ic)
      case (Some ic')
      obtain i c where i: "ic = Some (i, c)" using Some by (cases ic') simp
      obtain st where st: "get_t w1 i = Some st" "numbered True b i c (set_t w1 i (st\<lparr>us_vector := None\<rparr>)) = Some es"
        using n False Datagram b i by (auto simp: number_of_def bind_eq_Some_conv)
      have "serve_packet cf ws b i c w1 = Some w'" using s False Datagram b i by (simp add: serve_input_def serve_datagram_def)
      then show ?thesis using givesD [OF serve_packet_counted [OF t st]] bad by simp
    next
      case None
      obtain it where it: "get_tunnel tunnel w1 = Some it" using n False Datagram b None by (auto simp: number_of_def bind_eq_Some_conv)
      show ?thesis
      proof (cases it)
        case None2: None
        then show ?thesis using n s False Datagram b None it t by (simp add: number_of_def serve_input_def serve_datagram_def counted_none)
      next
        case (Some ic')
        obtain i c where i: "it = Some (i, c)" using Some by (cases ic') simp
        have m: "(upd_call i c (\<lambda>cl. cl\<lparr>c_cid := uint (word_of_int call :: u16)\<rparr>) w1 \<bind> numbered False b i c) = Some es"
          using n False Datagram b None it i by (simp add: number_of_def)
        obtain r where "handle_special b i c (word_of_int call) w1 = Some (r, w')"
          using s False Datagram b None it i by (auto simp: serve_input_def serve_datagram_def bind_eq_Some_conv)
        then show ?thesis using givesD [OF handle_special_counted [OF t m]] bad by fastforce
      qed
    qed
  qed
qed

section \<open>All datagrams\<close>

text \<open>The numbers of tunnel \<open>i\<close> that were used up, with what became of them.\<close>

definition of_tunnel :: "nat \<Rightarrow> (nat \<times> u16 \<times> fate) list \<Rightarrow> (u16 \<times> fate) list" where
  "of_tunnel i es = map snd (filter (\<lambda>e. fst e = i) es)"

lemma of_tunnel_simps [simp]:
  "of_tunnel i [] = []" "of_tunnel i (e # es) = (if fst e = i then snd e # of_tunnel i es else of_tunnel i es)"
  "of_tunnel i (es @ fs) = of_tunnel i es @ of_tunnel i fs"
  by (simp_all add: of_tunnel_def)

abbreviation (input) "from_on n k \<equiv> map (\<lambda>j. n + of_nat j) [0..<k]"

lemma from_on_Suc: "from_on (n :: u16) (Suc k) = n # from_on (n + 1) k"
  by (rule nth_equalityI) (auto simp: nth_Cons nth_append algebra_simps simp del: upt_Suc split: nat.splits)

lemma serve_all_numbers:
  assumes "serve_all cf inps w = Some (es, w')" "tracks M w"
  shows "(\<forall>i. map fst (of_tunnel i es) = from_on (M i) (length (of_tunnel i es))) \<and>
    tracks (\<lambda>i. M i + of_nat (length (of_tunnel i es))) w' \<and>
    ((\<forall>inp\<in>set inps. \<not> malformed inp) \<longrightarrow> Malformed \<notin> (snd \<circ> snd) ` set es)"
  using assms
proof (induction cf inps w arbitrary: es M rule: serve_all.induct)
  case (2 cf inp inps w)
  obtain es1 w1 fs where e: "number_of inp w = Some es1" "serve_input cf inp w = Some w1" "serve_all cf inps w1 = Some (fs, w')" "es = es1 @ fs"
    using 2(2) by (auto simp: bind_eq_Some_conv)
  note IH = 2(1) [OF e(1,2,3)]
  from input_counted [OF 2(3) e(1,2)] consider (none) "es1 = []" "tracks M w1"
    | (one) j f where "es1 = [(j, M j, f)]" "tracks (M(j := M j + 1)) w1" "f = Malformed \<longrightarrow> malformed inp"
    unfolding counted_def by blast
  then show ?case
  proof cases
    case none
    then show ?thesis using IH [OF none(2)] e(4) by simp
  next
    case one
    note I = IH [OF one(2)]
    have "map fst (of_tunnel i es) = from_on (M i) (length (of_tunnel i es))" for i
      using I e(4) one(1) by (auto simp: from_on_Suc simp del: upt_Suc)
    moreover have "(\<lambda>i. (M(j := M j + 1)) i + of_nat (length (of_tunnel i fs))) = (\<lambda>i. M i + of_nat (length (of_tunnel i es)))"
      using e(4) one(1) by (auto simp: fun_eq_iff)
    then have "tracks (\<lambda>i. M i + of_nat (length (of_tunnel i es))) w'" using I by simp
    moreover have "(\<forall>inp\<in>set (inp # inps). \<not> malformed inp) \<longrightarrow> Malformed \<notin> (snd \<circ> snd) ` set es"
      using I e(4) one(1,3) by auto
    ultimately show ?thesis by blast
  qed
qed simp

lemma from_on_distinct:
  assumes "k \<le> 2 ^ 16"
  shows "distinct (from_on (n :: u16) k)"
proof -
  have "x = y" if "x < k" "y < k" "of_nat x = (of_nat y :: u16)" for x y
  proof -
    have "x < 65536" "y < 65536" using that assms by simp_all
    from this [THEN unat_u16_of_nat] show ?thesis using that(3) by metis
  qed
  then show ?thesis by (auto simp: distinct_map inj_on_def)
qed


section \<open>Messages that are not expected\<close>

lemma send_ack_ok:
  assumes "get_t w i = Some st" "c < length (calls st)" "alloc st (allocs st)" "CONTROL_HDR \<le> length (fresh w (news w))"
  shows "send_ack i c w = Some ((set_t w i (st\<lparr>allocs := allocs st + 1\<rparr>))\<lparr>
    sent := sent w @ [net_words (control_words st (calls st ! c) CONTROL_HDR)], news := news w + 1\<rparr>)"
proof -
  let ?m = "fresh w (news w)" and ?st = "st\<lparr>allocs := allocs st + 1\<rparr>"
  define w1 where "w1 = (set_t w i ?st)\<lparr>news := news w + 1\<rparr>"
  have lt: "i < length (tuns w)" using assms(1) by (rule get_t_lt)
  have n: "new_outgoing_for i w = Some (\<lparr>x_buf = mkbuf (take 12 ?m) [] (drop 12 ?m), x_tun = i, x_retries = 0\<rparr>, w1)"
    using assms(1,3,4) by (simp add: new_outgoing_for_def next_alloc_def new_outgoing_def w1_def mkbuf_def)
  have g: "get_t w1 i = Some ?st" using lt by (simp add: w1_def get_t_def set_t_def)
  have words: "control_words ?st cl k = control_words st cl k" for cl k by (simp add: control_words_def)
  have b: "recycle_outgoing (mkbuf (take 12 ?m) [] (drop 12 ?m)) = mkbuf (take 12 ?m) [] (drop 12 ?m)"
    using assms(4) by (simp add: recycle_outgoing_def mkbuf_def)
  have z: "control_zlb (mkbuf (take 12 ?m) [] (drop 12 ?m)) ?st c =
      Some (?st, mkbuf [] (net_words (control_words st (calls st ! c) CONTROL_HDR)) (drop 12 ?m))"
    using add_control_hdr_at [of "take 12 ?m" c ?st "[]" "drop 12 ?m"] assms(2,4) b words by (simp add: control_zlb_def)
  have "sent_bytes (mkbuf [] bs j) = bs" for bs j by (simp add: sent_bytes_def mkbuf_def)
  then have "udp_xmit (mkbuf [] bs j) (set_t w1 i ?st) = (set_t w i ?st)\<lparr>sent := sent w @ [bs], news := news w + 1\<rparr>" for bs j
    by (simp add: udp_xmit_def w1_def set_t_def)
  then show ?thesis using n g z by (simp add: send_ack_def)
qed

text \<open>
  C26: functional behaviour on unexpected messages. A control message with another sequence number than the expected one
  is refused and changes nothing but this: a message that was received before is acknowledged
  again with the current numbers, unless it is itself an acknowledgement, and a tunnel opened just for it is marked to be closed.
\<close>

theorem out_of_order_ignored:
  assumes st: "get_t w i = Some st" "c < length (calls st)" "alloc st (allocs st)" "CONTROL_HDR \<le> length (fresh w (news w))"
    and hdr: "CONTROL_HDR \<le> ob_len b" "ob_len b < 2 ^ 16" "hdr_word b 1 = Some (of_nat (ob_len b))"
    and ns: "hdr_word b 4 = Some ns" "ns \<noteq> control_rec_seq_num st"
  shows "handle_control cf b i c w = Some (- EINVAL,
    if ns < control_rec_seq_num st \<and> uint (control_rec_seq_num st) - uint ns < 32768 then
      (if ob_len b = CONTROL_HDR then w
       else (set_t w i (st\<lparr>allocs := allocs st + 1\<rparr>))\<lparr>
         sent := sent w @ [net_words [0xC802, 12, word_of_int (t_tid st), word_of_int (c_cid (calls st ! c)), control_seq_num st, control_rec_seq_num st]],
         news := news w + 1\<rparr>)
    else if control_rec_seq_num st = 0 \<and> t_tid st = -1 then
      set_t w i (st\<lparr>calls := (calls st)[c := (calls st ! c)\<lparr>c_needclose := 0, c_closing := -1\<rparr>]\<rparr>)
    else w)"
proof -
  have old: "seems_old ns (control_rec_seq_num st) \<longleftrightarrow>
      ns < control_rec_seq_num st \<and> uint (control_rec_seq_num st) - uint ns < 32768"
    using uint_lt2p [of "control_rec_seq_num st"] uint_lt2p [of ns] uint_ge_0 [of ns] by (auto simp: seems_old_def word_less_def)
  have len: "unat (of_nat (ob_len b) :: u16) = ob_len b" using hdr(2) by simp
  show ?thesis
    using st hdr ns send_ack_ok [OF st] len
    by (auto simp: handle_control_def check_control_def old upd_call_def upd_c_Some control_words_def)
qed

definition ex_hello :: "u16 \<Rightarrow> obuf" where
  "ex_hello ns = mkbuf [] (words_bytes [0xC802, 20, 0, 0, ns, 0] @ avp_bytes 0x8008 0 (be16_bytes 6)) []"

definition ex_config :: config where
  "ex_config = \<lparr>cf_host = msg_bytes ''lac'' @ [0], cf_authfile = Some (msg_bytes ''* * secret'' @ [0x0A]), cf_stack = replicate 100 0,
     cf_lnslist = [], cf_deflns = ex_entry, cf_access = False, cf_switch_io = True,
     cf_resolve = (\<lambda>_. None), cf_deflac_host = None, cf_opening = (\<lambda>_. (0, True, True, (\<lambda>_. True), (\<lambda>_. 0)))\<rparr>"

text \<open>Datagrams for tunnel 0: the bytes on the wire, and the tunnel's own number is that of \<open>ex_tunnel\<close>.\<close>

definition ex_tunnel :: l2tp where "ex_tunnel = ex_l2tp\<lparr>t_ourtid := 5, t_tid := 7\<rparr>"

definition ex_packet :: "u16 \<Rightarrow> u16 \<Rightarrow> byte_buf \<Rightarrow> input" where
  "ex_packet call ns body = Datagram [] (replicate 60 0)
     (net_words [0xC802, word_of_nat (12 + length body), 5, call, ns, 0] @ body) 0 0 (True, True, (\<lambda>_. True), (\<lambda>_. 0))"

definition ex_hi :: byte_buf where "ex_hi = avp_bytes 0x8008 0 (be16_bytes 6)"

text \<open>A Hello, a copy of it, a message for call 9, which does not exist, and another Hello.\<close>

declare member_with_id.simps [code]

lemma ex_served:
  "map_option fst (serve_all ex_config [ex_packet 0 0 ex_hi, ex_packet 0 0 ex_hi, ex_packet 9 1 ex_hi, ex_packet 0 2 ex_hi]
     (set_t ex_world 0 ex_tunnel)) = Some [(0, 0, Handled), (0, 1, Acknowledged), (0, 2, Handled)]"
  by code_simp


text \<open>
  The peer acknowledges something on a call that is closed here, with the number its next message will have. The number is
  used up, and the message with it is taken for an old one.
\<close>

lemma stray_ack_loses_message:
  "map_option fst (serve_all ex_config [ex_packet 9 0 [], ex_packet 0 0 ex_hi] (set_t ex_world 0 ex_tunnel)) = Some [(0, 0, Stray_ack)]"
  by code_simp

lemma out_of_order_ignored_witness:
  "handle_control ex_config (ex_hello 3) 0 0 (set_t ex_world 0 (ex_l2tp\<lparr>t_tid := 7, control_rec_seq_num := 4\<rparr>)) = Some (- EINVAL,
     (set_t ex_world 0 (ex_l2tp\<lparr>t_tid := 7, control_rec_seq_num := 4, allocs := 1\<rparr>))\<lparr>
       sent := [net_words [0xC802, 12, 7, 0, 0, 4]], news := 1\<rparr>)"
proof -
  have "hdr_word (ex_hello 3) 1 = Some 20" "hdr_word (ex_hello 3) 4 = Some 3" "ob_len (ex_hello 3) = 20"
    unfolding ex_hello_def by (simp_all add: hdr_word_mk) (simp add: mkbuf_def avp_bytes_def)
  then show ?thesis
    using out_of_order_ignored [of "set_t ex_world 0 (ex_l2tp\<lparr>t_tid := 7, control_rec_seq_num := 4\<rparr>)" 0
        "ex_l2tp\<lparr>t_tid := 7, control_rec_seq_num := 4\<rparr>" 0 "ex_hello 3" 3 ex_config]
    by (simp add: ex_world_def get_set get_t_def set_t_def ex_l2tp_def zero_call_def)
qed

section \<open>Authentication\<close>

lemma sent_set [simp]: "sent (set_t w i st) = sent w" by (simp add: set_t_def)

lemma auth_names_cong:
  "t_lns a = t_lns b \<Longrightarrow> t_lac a = t_lac b \<Longrightarrow> t_hostname a = t_hostname b \<Longrightarrow> auth_names h a = auth_names h b"
  unfolding auth_names_def by presburger

lemma challenge_answered:
  assumes "auth_names host st = Some (us, them)" "sec us them = Some (Some s)" "0 \<notin> set s" "length s < MAXSTRLEN"
    and "us_challenge st = Some ch" "us_chal_len st = int (length ch)" "length ch < 2 ^ 32"
  shows "handle_challenge_us host sec st =
    Some (0, st\<lparr>us_secret := stored_secret s, us_response := md5 (us_ss st # s @ ch), us_state := STATE_CHALLENGED\<rparr>)"
  using assms chal_response_ok [of "stored_secret s" "int (length ch)" ch] c_string_stored_secret [OF assms(3,4)]
  by (simp add: handle_challenge_us_def)

lemma challenge_expected:
  assumes "auth_names host st = Some (us, them)" "sec us them = Some (Some s)" "0 \<notin> set s" "length s < MAXSTRLEN"
    and "them_challenge st = Some ch" "them_chal_len st = int (length ch)" "length ch < 2 ^ 32"
  shows "handle_challenge_them host sec st =
    Some (0, st\<lparr>them_secret := stored_secret s, them_response := md5 (them_ss st # s @ ch), them_state := STATE_CHALLENGED\<rparr>)"
  using assms chal_response_ok [of "stored_secret s" "int (length ch)" ch] c_string_stored_secret [OF assms(3,4)]
  by (simp add: handle_challenge_them_def)

lemma refuse_ok:
  assumes "get_t w i = Some st" "c < length (calls st)" "call_wf (calls st ! c)" "msg_bytes text \<noteq> []" "0 \<notin> set (msg_bytes text)"
  shows "\<exists>msg. refuse i c text w = Some (- EINVAL, set_t w i (st\<lparr>calls := (calls st)[c := (calls st ! c)\<lparr>c_error := VENDOR_ERROR,
     c_result := RESULT_ERROR, c_errormsg := msg, c_needclose := -1\<rparr>]\<rparr>))"
proof -
  let ?a = "c_errormsg (calls st ! c)"
  have "c_string (snprintf ?a (msg_bytes text)) \<noteq> []"
    using assms(3-5) by (cases "msg_bytes text") (auto simp: snprintf_def c_string_def call_wf_def)
  then have "chop_newline (snprintf ?a (msg_bytes text)) \<noteq> None" by (simp add: chop_newline_def Let_def)
  then obtain msg where "chop_newline (snprintf ?a (msg_bytes text)) = Some msg" by blast
  then show ?thesis using assms(1,2)
    by (auto simp: refuse_def set_error_def get_c_Some upd_c_Some)
qed

lemma invalid_text: "msg_bytes ''Invalid challenge authentication'' \<noteq> []" "0 \<notin> set (msg_bytes ''Invalid challenge authentication'')"
  by (simp_all add: msg_bytes_def)

text \<open>The end that has sent a challenge, on the reply it has got.\<close>

lemma authenticate_peer_eq:
  assumes st: "get_t w i = Some st" "c < length (calls st)" "call_wf (calls st ! c)" "them_state st \<noteq> 0"
    and ch: "them_challenge st = Some ch" "them_chal_len st = int (length ch)" "length ch < 2 ^ 32"
    and s: "auth_names (cf_host cf) st = Some (us, them)" "secret_of cf us them = Some (Some s)" "0 \<notin> set s" "length s < MAXSTRLEN"
  shows "\<exists>w' st'. get_t w' i = Some st' \<and> t_state st' = t_state st \<and> sent w' = sent w \<and>
     authenticate_peer cf i c w = Some (if them_reply st = md5 (2 # s @ ch) then Inr w' else Inl (- EINVAL, w')) \<and>
     (them_reply st \<noteq> md5 (2 # s @ ch) \<longrightarrow> c_needclose (calls st' ! c) = -1)"
proof -
  define st1 where "st1 = st\<lparr>them_ss := 2, them_secret := stored_secret s, them_response := md5 (2 # s @ ch), them_state := STATE_CHALLENGED\<rparr>"
  have lt: "i < length (tuns w)" using st(1) by (rule get_t_lt)
  have names: "auth_names (cf_host cf) (st\<lparr>them_ss := 2\<rparr>) = Some (us, them)" using s(1) auth_names_cong [of "st\<lparr>them_ss := 2\<rparr>" st] by simp
  have h: "handle_challenge_them (cf_host cf) (secret_of cf) (st\<lparr>them_ss := 2\<rparr>) = Some (0, st1)"
    using challenge_expected [of _ _ us them "secret_of cf" s, OF names s(2-4)] ch by (simp add: st1_def)
  have g: "get_t (set_t w i x) i = Some x" "sent (set_t w i x) = sent w" for x using lt by (simp_all add: get_set)
  have a: "authenticate_peer cf i c w = check_reply i c (set_t w i st1)" using st h by (simp add: authenticate_peer_def)
  show ?thesis
  proof (cases "them_reply st = md5 (2 # s @ ch)")
    case True
    then have "authenticate_peer cf i c w = Some (Inr (set_t w i st1))" unfolding a by (simp add: check_reply_def g st1_def)
    then show ?thesis using True g by (intro exI [of _ "set_t w i st1"] exI [of _ st1]) (simp add: st1_def)
  next
    case False
    obtain st2 where r: "refuse i c ''Invalid challenge authentication'' (set_t w i st1) = Some (- EINVAL, set_t (set_t w i st1) i st2)"
      "c_needclose (calls st2 ! c) = -1" "t_state st2 = t_state st"
      using refuse_ok [OF g(1) [of st1], of c] st(2,3) invalid_text by (fastforce simp: st1_def)
    then have "authenticate_peer cf i c w = Some (Inl (- EINVAL, set_t (set_t w i st1) i st2))"
      using False unfolding a by (simp add: check_reply_def g st1_def)
    then show ?thesis using False r(2,3) lt by (intro exI [of _ "set_t (set_t w i st1) i st2"] exI [of _ st2]) (simp add: get_set get_t_def set_t_def)
  qed
qed

text \<open>
  C10: tunnel authentication between two daemons. The end that was sent a challenge puts the MD5 digest of the message type, its
  secret and the challenge into its reply; the end that sent it accepts the reply exactly if its own secret
  gives the same digest. Otherwise the tunnel is marked for closing, its state is not advanced and nothing is sent.
\<close>

theorem authentication_agrees:
  assumes "get_t w i = Some st" "c < length (calls st)" "call_wf (calls st ! c)" "them_state st \<noteq> 0"
    and "them_challenge st = Some ch" "them_chal_len st = int (length ch)" "length ch < 2 ^ 32"
    and "auth_names (cf_host cf) st = Some (us, them)" "secret_of cf us them = Some (Some s)" "0 \<notin> set s" "length s < MAXSTRLEN"
    and other: "get_t v j = Some st2" "us_state st2 \<noteq> 0" "us_challenge st2 = Some ch" "us_chal_len st2 = int (length ch)"
    and other_secret: "auth_names (cf_host cf2) st2 = Some (us2, them2)" "secret_of cf2 us2 them2 = Some (Some s2)" "0 \<notin> set s2" "length s2 < MAXSTRLEN"
    and room: "22 < length junk"
  shows "(\<exists>b v2. answer_challenge cf2 j (mkbuf pre m junk) v = Some (b, v2) \<and>
       sent_bytes b = m @ avp_bytes (22 OR MBIT) 13 (md5 (2 # s2 @ ch))) \<and>
     (\<exists>w' st'. get_t w' i = Some st' \<and> t_state st' = t_state st \<and> sent w' = sent w \<and>
       authenticate_peer cf i c (set_t w i (st\<lparr>them_reply := md5 (2 # s2 @ ch)\<rparr>)) =
         Some (if md5 (2 # s2 @ ch) = md5 (2 # s @ ch) then Inr w' else Inl (- EINVAL, w')) \<and>
       (md5 (2 # s2 @ ch) \<noteq> md5 (2 # s @ ch) \<longrightarrow> c_needclose (calls st' ! c) = -1))"
proof
  have names: "auth_names (cf_host cf2) (st2\<lparr>us_ss := 2\<rparr>) = Some (us2, them2)" "auth_names (cf_host cf) (st\<lparr>them_reply := x\<rparr>) = Some (us, them)" for x
    using other_secret(1) assms(8) auth_names_cong [of "st2\<lparr>us_ss := 2\<rparr>" st2] auth_names_cong [of "st\<lparr>them_reply := x\<rparr>" st] by simp_all
  have h: "handle_challenge_us (cf_host cf2) (secret_of cf2) (st2\<lparr>us_ss := 2\<rparr>) = Some (0, st2\<lparr>us_ss := 2,
      us_secret := stored_secret s2, us_response := md5 (2 # s2 @ ch), us_state := STATE_CHALLENGED\<rparr>)"
    using challenge_answered [of _ _ us2 them2 "secret_of cf2" s2, OF names(1) other_secret(2-4)] other assms(7) by simp
  have "appends (add_chalresp_avp (md5 (2 # s2 @ ch))) (avp_bytes (22 OR MBIT) 13 (md5 (2 # s2 @ ch)))"
    using appends_copies(2) [of "md5 (2 # s2 @ ch)"] by simp
  from appendsD [OF this, of junk] obtain junk' where
    "add_chalresp_avp (md5 (2 # s2 @ ch)) (mkbuf pre m junk) = Some (mkbuf pre (m @ avp_bytes (22 OR MBIT) 13 (md5 (2 # s2 @ ch))) junk')"
    using room by (auto simp: avp_bytes_def)
  then show "\<exists>b v2. answer_challenge cf2 j (mkbuf pre m junk) v = Some (b, v2) \<and>
      sent_bytes b = m @ avp_bytes (22 OR MBIT) 13 (md5 (2 # s2 @ ch))"
    using other h by (simp add: answer_challenge_def sent_mkbuf)
  have lt: "i < length (tuns w)" using assms(1) by (rule get_t_lt)
  show "\<exists>w' st'. get_t w' i = Some st' \<and> t_state st' = t_state st \<and> sent w' = sent w \<and>
       authenticate_peer cf i c (set_t w i (st\<lparr>them_reply := md5 (2 # s2 @ ch)\<rparr>)) =
         Some (if md5 (2 # s2 @ ch) = md5 (2 # s @ ch) then Inr w' else Inl (- EINVAL, w')) \<and>
       (md5 (2 # s2 @ ch) \<noteq> md5 (2 # s @ ch) \<longrightarrow> c_needclose (calls st' ! c) = -1)"
    using authenticate_peer_eq [of "set_t w i (st\<lparr>them_reply := md5 (2 # s2 @ ch)\<rparr>)" i "st\<lparr>them_reply := md5 (2 # s2 @ ch)\<rparr>", OF _ _ _ _ _ _ _ names(2) assms(9-11), of c ch]
      assms(2-7) lt by (simp add: get_set split del: if_split)
qed


definition ex_challenger :: l2tp where
  "ex_challenger = ex_l2tp\<lparr>t_lns := Some ex_entry, them_challenge := Some [1, 2, 3], them_chal_len := 3, them_state := 1\<rparr>"

definition ex_challenged :: l2tp where
  "ex_challenged = ex_l2tp\<lparr>t_lns := Some ex_entry, us_challenge := Some [1, 2, 3], us_chal_len := 3, us_state := 1\<rparr>"

lemma authentication_agrees_witness:
  "\<exists>w'. authenticate_peer ex_config 0 0 (set_t (set_t ex_world 0 ex_challenger) 0
     (ex_challenger\<lparr>them_reply := md5 (2 # msg_bytes ''secret'' @ [1, 2, 3])\<rparr>)) = Some (Inr w')"
proof -
  let ?w = "set_t ex_world 0 ex_challenger" and ?v = "set_t ex_world 0 ex_challenged"
  have g: "get_t ?w 0 = Some ex_challenger" "get_t ?v 0 = Some ex_challenged" by (simp_all add: get_set ex_world_def)
  have s: "secret_of ex_config (msg_bytes ''lac'' @ [0]) (t_hostname ex_l2tp) = Some (Some (msg_bytes ''secret''))" by code_simp
  have n: "auth_names (cf_host ex_config) ex_challenger = Some (msg_bytes ''lac'' @ [0], t_hostname ex_l2tp)"
    "auth_names (cf_host ex_config) ex_challenged = Some (msg_bytes ''lac'' @ [0], t_hostname ex_l2tp)"
    by (simp_all add: auth_names_def ex_challenger_def ex_challenged_def ex_entry_def ex_config_def c_string_def)
  have t: "0 \<notin> set (msg_bytes ''secret'')" "length (msg_bytes ''secret'') < MAXSTRLEN" by (simp_all add: msg_bytes_def)
  have c: "0 < length (calls ex_challenger)" "call_wf (calls ex_challenger ! 0)"
    by (simp_all add: ex_challenger_def ex_l2tp_def call_wf_def zero_call_def)
  have f: "them_state ex_challenger \<noteq> 0" "them_challenge ex_challenger = Some [1, 2, 3]" "them_chal_len ex_challenger = int (length [1, 2, 3 :: u8])"
    "length [1, 2, 3 :: u8] < 2 ^ 32" "us_state ex_challenged \<noteq> 0" "us_challenge ex_challenged = Some [1, 2, 3]"
    "us_chal_len ex_challenged = int (length [1, 2, 3 :: u8])" "22 < length (replicate 30 (0 :: u8))"
    by (simp_all add: ex_challenger_def ex_challenged_def)
  from authentication_agrees [OF g(1) c f(1-4) n(1) s t g(2) f(5-7) n(2) s t f(8)] show ?thesis by auto
qed

end
