(* ===== verification/Pppoe_Discovery.thy ===== *)
theory Pppoe_Discovery
  imports Pppoe_Session Scheduler
begin

text \<open>
  The discovery phase of the PPPoE client: \<open>discovery.c\<close>, and how \<open>main\<close> of \<open>pppoe.c\<close> goes on from it
  to the session.

  The state extends that of the session: \<open>ses\<close> holds the connection, the frames sent and the exit status. The clock and
  what \<open>select\<close> and \<open>recv\<close> deliver come from outside. Text printed for the user is left out. The program is
  built without \<open>PLUGIN\<close>; there \<open>persist\<close> is 0, but the loops depend on it and so does the model.
\<close>

section \<open>State\<close>

datatype disc_state = STATE_SENT_PADI | STATE_RECEIVED_PADO | STATE_SENT_PADR | STATE_SESSION

text \<open>
  What \<open>select\<close> ends with: the time is up, an error with its text, or a packet that can be received. \<open>uninit\<close> is what the
  local buffer \<open>packet\<close> of a wait holds before anything was received into it.
\<close>

datatype waiting = Quiet | Broken byte_buf | Arrived recv_result

record discovery =
  ses :: pppoe
  discoveryState :: disc_state
  acName :: "byte_buf option"
  serviceName :: "byte_buf option"
  printACNames :: bool
  skipDiscovery :: bool
  killSession :: bool
  noDiscoverySocket :: bool
  numPADOs :: int
  PADSHadError :: bool
  discoveryTimeout :: int
  persist :: bool
  wall :: "nat \<Rightarrow> timeval"
  looks :: nat
  inbox :: "nat \<Rightarrow> waiting"
  waits :: nat
  uninit :: "nat \<Rightarrow> packet"

abbreviation (input) "MAX_PADI_ATTEMPTS \<equiv> (3 :: int)"
abbreviation (input) "TAG_SERVICE_NAME \<equiv> (0x0101 :: u16)"
abbreviation (input) "TAG_AC_NAME \<equiv> (0x0102 :: u16)"
abbreviation (input) "TAG_AC_COOKIE \<equiv> (0x0104 :: u16)"

abbreviation "dconn d \<equiv> conn (ses d)"

definition upd_conn :: "(conn \<Rightarrow> conn) \<Rightarrow> discovery \<Rightarrow> discovery" where
  "upd_conn f d = d\<lparr>ses := (ses d)\<lparr>conn := f (conn (ses d))\<rparr>\<rparr>"

definition gone :: "discovery \<Rightarrow> bool" where "gone d \<longleftrightarrow> exited (ses d) \<noteq> None"

section \<open>Waiting\<close>

definition look :: "discovery \<Rightarrow> timeval \<times> discovery" where
  "look d = (wall d (looks d), d\<lparr>looks := looks d + 1\<rparr>)"

text \<open>\<open>time_left\<close>: \<open>None\<close> is the result 0.\<close>

definition time_left :: "timeval \<Rightarrow> timeval \<Rightarrow> timeval option" where
  "time_left now expire_at =
     (let sec = tv_sec expire_at - tv_sec now; usec = tv_usec expire_at - tv_usec now in
      if usec < 0 then
        (if sec \<noteq> 0 then (if sec - 1 \<le> 0 \<and> usec + 1000000 \<le> 0 then None else Some (TV (sec - 1) (usec + 1000000)))
         else None)
      else if sec \<le> 0 \<and> usec \<le> 0 then None
      else Some (TV sec usec))"

text \<open>\<open>select\<close> fails with \<open>EINVAL\<close> for a negative time; calls that were interrupted are repeated.\<close>

definition wait_readable :: "timeval \<Rightarrow> discovery \<Rightarrow> waiting \<times> discovery" where
  "wait_readable tv d =
     (if tv_sec tv < 0 then (Broken (msg_bytes ''Invalid argument''), d)
      else (inbox d (waits d), d\<lparr>waits := waits d + 1\<rparr>))"

text \<open>
  \<open>receivePacket\<close> as the two waits use it: its result is not looked at. When \<open>recv\<close> fails, the size is -1
  and \<open>packet\<close> is what it was.
\<close>

definition received_into :: "packet \<Rightarrow> recv_result \<Rightarrow> packet \<times> int" where
  "received_into packet r = (case r of RecvErr \<Rightarrow> (packet, -1) | Recv p len \<Rightarrow> (p, len))"

text \<open>
  The test \<open>ntohs(packet.length) + HDR_SIZE > len\<close>. \<open>HDR_SIZE\<close> is a \<open>sizeof\<close>, so both sides are compared as
  unsigned 64-bit numbers.
\<close>

definition bogus_length :: "packet \<Rightarrow> int \<Rightarrow> bool" where
  "bogus_length p len \<longleftrightarrow> (word_of_int len :: 64 word) < word_of_nat (plen p) + word_of_nat HDR_SIZE"

text \<open>
  The loop of \<open>waitForPADO\<close> and of \<open>waitForPADS\<close>: it handles packets until one leads to \<open>goal\<close> or the time is up.
\<close>

partial_function (option) wait_for ::
  "(discovery \<Rightarrow> packet \<Rightarrow> int \<Rightarrow> discovery option) \<Rightarrow> disc_state \<Rightarrow> timeval \<Rightarrow> packet \<Rightarrow> discovery \<Rightarrow> discovery option" where
  "wait_for got goal expire_at packet d =
     (case look d of (now, d) \<Rightarrow>
      case time_left now expire_at of
        None \<Rightarrow> Some d
      | Some tv \<Rightarrow>
          (case wait_readable tv d of (r, d) \<Rightarrow>
           case r of
             Quiet \<Rightarrow> Some d
           | Broken err \<Rightarrow> do { s \<leftarrow> fatalSys (ses d) err; Some (d\<lparr>ses := s\<rparr>) }
           | Arrived r \<Rightarrow> (case received_into packet r of (packet, len) \<Rightarrow> do {
               d \<leftarrow> got d packet len;
               if gone d \<or> discoveryState d = goal then Some d else wait_for got goal expire_at packet d })))"

definition wait_seconds ::
  "(discovery \<Rightarrow> packet \<Rightarrow> int \<Rightarrow> discovery option) \<Rightarrow> disc_state \<Rightarrow> int \<Rightarrow> discovery \<Rightarrow> discovery option" where
  "wait_seconds got goal timeout d =
     (case look d of (now, d') \<Rightarrow> wait_for got goal (TV (tv_sec now + timeout) (tv_usec now)) (uninit d (looks d)) d')"

section \<open>Received packets\<close>

definition parseForHostUniq :: "byte_buf \<Rightarrow> u16 \<Rightarrow> u16 \<Rightarrow> byte_buf \<Rightarrow> bool \<Rightarrow> bool" where
  "parseForHostUniq uniq type len data forMe \<longleftrightarrow>
     forMe \<or> (type = TAG_HOST_UNIQ \<and> unat len = length uniq \<and> take (unat len) data = uniq)"

definition packetIsForMe :: "conn \<Rightarrow> packet \<Rightarrow> bool option" where
  "packetIsForMe c p =
     (if h_dest p \<noteq> myEth c then Some False
      else case hostUniq c of
        None \<Rightarrow> Some True
      | Some hu \<Rightarrow> do { (rc, forMe) \<leftarrow> parsePacket p (parseForHostUniq hu) False; Some forMe })"

record criteria =
  acNameOK :: bool
  serviceNameOK :: bool
  seenACName :: bool
  seenServiceName :: bool
  gotError :: bool

definition matches :: "byte_buf option \<Rightarrow> u16 \<Rightarrow> byte_buf \<Rightarrow> bool" where
  "matches name len data \<longleftrightarrow> (case name of None \<Rightarrow> False | Some n \<Rightarrow> unat len = length n \<and> take (unat len) data = n)"

text \<open>\<open>conn->cookie\<close> and \<open>conn->relayId\<close>: type and length in network order.\<close>

definition saved :: "u16 \<Rightarrow> u16 \<Rightarrow> byte_buf \<Rightarrow> ptag" where
  "saved type len data = \<lparr>tag_type = htons type, tag_length = htons len, tag_payload = take (unat len) data\<rparr>"

definition pado_error :: "u16 \<Rightarrow> u16 \<Rightarrow> byte_buf \<Rightarrow> criteria \<times> discovery \<Rightarrow> criteria \<times> discovery" where
  "pado_error type len data pd = (case pd of (pc, d) \<Rightarrow>
     if printACNames d then (pc, d)
     else (pc\<lparr>gotError := True\<rparr>,
           let s = (ses d)\<lparr>errlog := pktLogErrs ''PADO'' type len data (errlog (ses d))\<rparr>
           in d\<lparr>ses := if persist d then s else exit_with 1 s\<rparr>))"

definition parsePADOTags :: "u16 \<Rightarrow> u16 \<Rightarrow> byte_buf \<Rightarrow> criteria \<times> discovery \<Rightarrow> criteria \<times> discovery" where
  "parsePADOTags type len data pd = (case pd of (pc, d) \<Rightarrow>
     if gone d then (pc, d)
     else if type = TAG_AC_NAME then
       (pc\<lparr>seenACName := True, acNameOK := acNameOK pc \<or> matches (acName d) len data\<rparr>, d)
     else if type = TAG_SERVICE_NAME then
       (pc\<lparr>seenServiceName := True, serviceNameOK := serviceNameOK pc \<or> matches (serviceName d) len data\<rparr>, d)
     else if type = TAG_AC_COOKIE then (pc, upd_conn (\<lambda>c. c\<lparr>cookie := saved type len data\<rparr>) d)
     else if type = TAG_RELAY_SESSION_ID then (pc, upd_conn (\<lambda>c. c\<lparr>relayId := saved type len data\<rparr>) d)
     else if type = TAG_SERVICE_NAME_ERROR \<or> type = TAG_AC_SYSTEM_ERROR \<or> type = TAG_GENERIC_ERROR then
       pado_error type len data (pc, d)
     else (pc, d))"

definition parsePADSTags :: "u16 \<Rightarrow> u16 \<Rightarrow> byte_buf \<Rightarrow> discovery \<Rightarrow> discovery" where
  "parsePADSTags type len data d =
     (if type = TAG_GENERIC_ERROR \<or> type = TAG_AC_SYSTEM_ERROR \<or> type = TAG_SERVICE_NAME_ERROR then
        d\<lparr>ses := (ses d)\<lparr>errlog := pktLogErrs ''PADS'' type len data (errlog (ses d))\<rparr>, PADSHadError := True\<rparr>
      else if type = TAG_RELAY_SESSION_ID then upd_conn (\<lambda>c. c\<lparr>relayId := saved type len data\<rparr>) d
      else d)"

definition criteria_start :: "discovery \<Rightarrow> criteria" where
  "criteria_start d = \<lparr>acNameOK = (acName d = None), serviceNameOK = (serviceName d = None), seenACName = False,
     seenServiceName = False, gotError = False\<rparr>"

text \<open>One packet in \<open>waitForPADO\<close>, from the check of its length on.\<close>

definition got_pado :: "discovery \<Rightarrow> packet \<Rightarrow> int \<Rightarrow> discovery option" where
  "got_pado d p len =
      (if bogus_length p len then Some d
       else do {
         forMe \<leftarrow> packetIsForMe (dconn d) p;
         if \<not> forMe \<or> pcode p \<noteq> CODE_PADO \<or> BROADCAST (h_source p) then Some d
         else do {
           (rc, pc, d) \<leftarrow> parsePacket p parsePADOTags (criteria_start d, d);
           if gone d \<or> gotError pc \<or> \<not> seenACName pc \<or> \<not> seenServiceName pc then Some d
           else do {
             let d = d\<lparr>numPADOs := numPADOs d + 1\<rparr>;
             if acNameOK pc \<and> serviceNameOK pc then do {
               let d = upd_conn (\<lambda>c. c\<lparr>peerEth := h_source p\<rparr>) d;
               Some (if printACNames d then d else d\<lparr>discoveryState := STATE_RECEIVED_PADO\<rparr>) }
             else Some d } } })"

text \<open>One packet in \<open>waitForPADS\<close>, with what follows its loop.\<close>

definition got_pads :: "discovery \<Rightarrow> packet \<Rightarrow> int \<Rightarrow> discovery option" where
  "got_pads d p len =
      (if bogus_length p len then Some d
       else if h_source p \<noteq> peerEth (dconn d) then Some d
       else do {
         forMe \<leftarrow> packetIsForMe (dconn d) p;
         if \<not> forMe \<or> pcode p \<noteq> CODE_PADS then Some d
         else do {
           (rc, d) \<leftarrow> parsePacket p parsePADSTags (d\<lparr>PADSHadError := False\<rparr>);
           Some (if PADSHadError d then d
                 else upd_conn (\<lambda>c. c\<lparr>session_id := psession p\<rparr>) (d\<lparr>discoveryState := STATE_SESSION\<rparr>)) } })"

definition waitForPADO :: "int \<Rightarrow> discovery \<Rightarrow> discovery option" where
  "waitForPADO timeout d = wait_seconds got_pado STATE_RECEIVED_PADO timeout d"

definition waitForPADS :: "int \<Rightarrow> discovery \<Rightarrow> discovery option" where
  "waitForPADS timeout d = wait_seconds got_pads STATE_SESSION timeout d"

section \<open>Sent packets\<close>

definition disc_packet :: "mac \<Rightarrow> mac \<Rightarrow> u8 \<Rightarrow> packet" where
  "disc_packet dest source code =
     \<lparr>h_dest = dest, h_source = source, h_proto = htons 0x8863, vertype = PPPOE_VER_TYPE 1 1, pcode = code, psession = 0,
      plength = 0, payload = replicate ETH_JUMBO_LEN 0\<rparr>"

text \<open>
  The service name: \<open>namelen\<close> is \<open>strlen\<close> cut to 16 bits, as is \<open>plen\<close>, which is checked. A PADI copies
  the whole name, a PADR \<open>namelen\<close> bytes.
\<close>

definition service_tag :: "bool \<Rightarrow> byte_buf option \<Rightarrow> byte_buf \<times> nat \<Rightarrow> (byte_buf \<times> nat) option option" where
  "service_tag whole name bc = (case bc of (buf, cursor) \<Rightarrow> do {
     let s = (case name of None \<Rightarrow> [] | Some s \<Rightarrow> s);
     let namelen = (word_of_nat (length s) :: u16);
     if cursor + unat (4 + namelen) > MAX_PPPOE_PAYLOAD then Some None
     else do {
       buf \<leftarrow> wr_bytes buf cursor (le16_bytes TAG_SERVICE_NAME @ be16_bytes namelen @ (if whole then s else take (unat namelen) s));
       Some (Some (buf, cursor + unat namelen + TAG_HDR_SIZE)) } })"

text \<open>The room is checked before the tag is put together.\<close>

definition uniq_tag :: "byte_buf option \<Rightarrow> byte_buf \<times> nat \<Rightarrow> (byte_buf \<times> nat) option option" where
  "uniq_tag hu bc = (case hu of
     None \<Rightarrow> Some (Some bc)
   | Some h \<Rightarrow> put_tag True \<lparr>tag_type = htons TAG_HOST_UNIQ, tag_length = htons (word_of_nat (length h)), tag_payload = h\<rparr>
       (length h) bc)"

definition send_disc :: "packet \<Rightarrow> byte_buf \<times> nat \<Rightarrow> discovery \<Rightarrow> discovery option" where
  "send_disc p bc d = (case bc of (buf, cursor) \<Rightarrow> do {
     let pl = (word_of_nat cursor :: u16);
     (rc, s) \<leftarrow> if_sendPacket (ses d) (discoverySocket (dconn d)) (p\<lparr>payload := buf, plength := htons pl\<rparr>)
        (int (unat pl) + int HDR_SIZE);
     Some (d\<lparr>ses := s\<rparr>) })"

definition no_service_name :: byte_buf where
  "no_service_name = msg_bytes ''NO-SERVICE-NAME-NON-RFC-COMPLIANT''"

definition sendPADI :: "discovery \<Rightarrow> discovery option" where
  "sendPADI d = do {
     let c = dconn d;
     let p = disc_packet (Mac 0xFF 0xFF 0xFF 0xFF 0xFF 0xFF) (myEth c) CODE_PADI;
     r \<leftarrow> (if serviceName d = Some no_service_name then Some (Some (payload p, 0))
          else service_tag True (serviceName d) (payload p, 0));
     case r of None \<Rightarrow> Some d | Some bc \<Rightarrow> do {
     r \<leftarrow> uniq_tag (hostUniq c) bc;
     case r of None \<Rightarrow> Some d | Some bc \<Rightarrow> send_disc p bc d } }"

definition sendPADR :: "discovery \<Rightarrow> discovery option" where
  "sendPADR d = do {
     let c = dconn d;
     let p = disc_packet (peerEth c) (myEth c) CODE_PADR;
     r \<leftarrow> service_tag False (serviceName d) (payload p, 0);
     case r of None \<Rightarrow> Some d | Some bc \<Rightarrow> do {
     r \<leftarrow> uniq_tag (hostUniq c) bc;
     case r of None \<Rightarrow> Some d | Some bc \<Rightarrow> do {
     r \<leftarrow> saved_tag (cookie c) bc;
     case r of None \<Rightarrow> Some d | Some bc \<Rightarrow> do {
     r \<leftarrow> saved_tag (relayId c) bc;
     case r of None \<Rightarrow> Some d | Some bc \<Rightarrow> send_disc p bc d } } } }"

section \<open>The two exchanges\<close>

partial_function (option) padi_loop :: "int \<Rightarrow> int \<Rightarrow> discovery \<Rightarrow> discovery option" where
  "padi_loop attempts timeout d =
     (if attempts + 1 > MAX_PADI_ATTEMPTS \<and> \<not> persist d then Some d
      else do {
        let again = attempts + 1 > MAX_PADI_ATTEMPTS;
        let attempts = (if again then 0 else attempts + 1);
        let timeout = (if again then discoveryTimeout d else timeout);
        d \<leftarrow> sendPADI d;
        d \<leftarrow> waitForPADO timeout (d\<lparr>discoveryState := STATE_SENT_PADI\<rparr>);
        let timeout = (if printACNames d then timeout else 2 * timeout);
        if gone d \<or> (printACNames d \<and> numPADOs d \<noteq> 0) \<or> discoveryState d \<noteq> STATE_SENT_PADI then Some d
        else padi_loop attempts timeout d })"

text \<open>\<open>Inr\<close> is the jump back to \<open>SEND_PADI\<close>.\<close>

partial_function (option) padr_loop :: "int \<Rightarrow> int \<Rightarrow> discovery \<Rightarrow> (discovery + discovery) option" where
  "padr_loop attempts timeout d =
     (if attempts + 1 > MAX_PADI_ATTEMPTS then Some (if persist d then Inr d else Inl d)
      else do {
        d \<leftarrow> sendPADR d;
        d \<leftarrow> waitForPADS timeout (d\<lparr>discoveryState := STATE_SENT_PADR\<rparr>);
        if gone d then Some (Inl d)
        else if discoveryState d = STATE_SENT_PADR then padr_loop (attempts + 1) (2 * timeout) d
        else Some (Inl (d\<lparr>discoveryState := STATE_SESSION\<rparr>)) })"

definition leave :: "nat \<Rightarrow> discovery \<Rightarrow> discovery" where
  "leave code d = d\<lparr>ses := exit_with code (ses d)\<rparr>"

partial_function (option) discovery_run :: "discovery \<Rightarrow> discovery option" where
  "discovery_run d = do {
     d \<leftarrow> padi_loop 0 (discoveryTimeout d) d;
     if gone d then Some d
     else if printACNames d then Some (leave (if numPADOs d \<noteq> 0 then 0 else 1) d)
     else do {
       r \<leftarrow> padr_loop 0 (discoveryTimeout d) d;
       case r of Inl d \<Rightarrow> Some d | Inr d \<Rightarrow> discovery_run d } }"

definition discovery :: "discovery \<Rightarrow> discovery option" where
  "discovery d =
     (if skipDiscovery d then do {
        let d = d\<lparr>discoveryState := STATE_SESSION\<rparr>;
        if killSession d then do {
          s \<leftarrow> sendPADT (ses d) (Some (msg_bytes ''RP-PPPoE: Session killed manually''));
          Some (leave 0 (d\<lparr>ses := s\<rparr>)) }
        else Some d }
      else discovery_run d)"

text \<open>The end of \<open>main\<close>: the result of the discovery is not looked at.\<close>

definition connect :: "discovery \<Rightarrow> pppoe option" where
  "connect d = do {
     d \<leftarrow> (if skipDiscovery d \<and> noDiscoverySocket d then Some (d\<lparr>discoveryState := STATE_SESSION\<rparr>) else discovery d);
     Some (if gone d then ses d else session_start (ses d)) }"

end
