(* ===== verification/Pppoe_Discovery_Props.thy ===== *)
theory Pppoe_Discovery_Props
  imports Pppoe_Discovery Pppoe_Session_Props
begin

text \<open>
  Properties of the discovery phase: the offer that is taken, what the requests carry, the deadlines, and what happens
  when nothing answers. A received packet is read as the list \<open>tags_of\<close> of its tags; a frame that is sent as the
  tags \<open>tvals\<close> finds in its body. The lemmas up to \<open>got_pado_step\<close> say what handling one packet does in these terms.
\<close>

section \<open>The tags of an offer\<close>

definition tags_of :: "packet \<Rightarrow> (u16 \<times> byte_buf) list" where
  "tags_of p = (if hdr_ok p then map snd (ptags p) else [])"

lemma tags_of_short: "(ty, data) \<in> set (tags_of p) \<Longrightarrow> length data < 65536"
  using tlvs_types [of _ ty data 0 "window p"] by (auto simp: tags_of_def ptags_def split: if_splits)

text \<open>\<open>parsePacket\<close> in terms of the tags alone.\<close>

lemma parsePacket_tags:
  assumes "pkt_wf p"
  shows "\<exists>rc. parsePacket p f s = Some (rc, fold (\<lambda>(ty, data). f ty (word_of_nat (length data)) data) (tags_of p) s)"
  using parsePacket_eq [OF assms, of f s] by (auto simp: tags_of_def fold_map comp_def split_def)

lemma host_uniq_fold:
  "\<forall>(ty, data)\<in>set ts. length data < 65536 \<Longrightarrow>
   fold (\<lambda>(ty, data). parseForHostUniq hu ty (word_of_nat (length data)) data) ts me \<longleftrightarrow> me \<or> (TAG_HOST_UNIQ, hu) \<in> set ts"
  by (induction ts arbitrary: me) (auto simp: parseForHostUniq_def)

definition for_client :: "conn \<Rightarrow> packet \<Rightarrow> bool" where
  "for_client c p \<longleftrightarrow> h_dest p = myEth c \<and> (\<forall>hu. hostUniq c = Some hu \<longrightarrow> (TAG_HOST_UNIQ, hu) \<in> set (tags_of p))"

lemma packetIsForMe_eq:
  assumes "pkt_wf p"
  shows "packetIsForMe c p = Some (for_client c p)"
proof (cases "hostUniq c")
  case (Some hu)
  have "\<forall>(ty, data)\<in>set (tags_of p). length data < 65536" using tags_of_short by blast
  from host_uniq_fold [OF this, of hu False] parsePacket_tags [OF assms, of "parseForHostUniq hu" False]
  obtain rc where "parsePacket p (parseForHostUniq hu) False = Some (rc, (TAG_HOST_UNIQ, hu) \<in> set (tags_of p))" by auto
  then show ?thesis using Some by (simp add: packetIsForMe_def for_client_def)
qed (simp add: packetIsForMe_def for_client_def)

definition is_error :: "u16 \<Rightarrow> bool" where
  "is_error ty \<longleftrightarrow> ty = TAG_SERVICE_NAME_ERROR \<or> ty = TAG_AC_SYSTEM_ERROR \<or> ty = TAG_GENERIC_ERROR"

definition offer_tag :: "u16 \<times> byte_buf \<Rightarrow> conn \<Rightarrow> conn" where
  "offer_tag = (\<lambda>(ty, data) c. if ty = TAG_AC_COOKIE then c\<lparr>cookie := mk_tag ty data\<rparr>
     else if ty = TAG_RELAY_SESSION_ID then c\<lparr>relayId := mk_tag ty data\<rparr> else c)"

abbreviation (input) "read_tag \<equiv> \<lambda>(ty, data). parsePADOTags ty (word_of_nat (length data)) data"

lemma saved_mk_tag: "length data < 65536 \<Longrightarrow> saved ty (word_of_nat (length data)) data = mk_tag ty data"
  by (simp add: saved_def mk_tag_def)

lemma matches_iff: "length data < 65536 \<Longrightarrow> matches name (word_of_nat (length data)) data \<longleftrightarrow> name = Some data"
  by (auto simp: matches_def split: option.splits)

lemma upd_conn_simps [simp]:
  "printACNames (upd_conn f d) = printACNames d" "gone (upd_conn f d) = gone d" "acName (upd_conn f d) = acName d"
  "serviceName (upd_conn f d) = serviceName d" "persist (upd_conn f d) = persist d" "discoveryState (upd_conn f d) = discoveryState d"
  "dconn (upd_conn f d) = f (dconn d)" "upd_conn f (upd_conn g d) = upd_conn (f \<circ> g) d" "upd_conn id d = d"
  "numPADOs (upd_conn f d) = numPADOs d" "wire (ses (upd_conn f d)) = wire (ses d)"
  "inbox (upd_conn f d) = inbox d" "waits (upd_conn f d) = waits d" "uninit (upd_conn f d) = uninit d"
  by (simp_all add: upd_conn_def gone_def)

lemma read_tags_good:
  assumes "\<forall>(ty, data)\<in>set ts. length data < 65536 \<and> \<not> is_error ty" "\<not> gone d"
  shows "fold read_tag ts (pc, d) =
    (pc\<lparr>acNameOK := acNameOK pc \<or> (\<exists>x\<in>set ts. fst x = TAG_AC_NAME \<and> acName d = Some (snd x)),
       serviceNameOK := serviceNameOK pc \<or> (\<exists>x\<in>set ts. fst x = TAG_SERVICE_NAME \<and> serviceName d = Some (snd x)),
       seenACName := seenACName pc \<or> (\<exists>x\<in>set ts. fst x = TAG_AC_NAME),
       seenServiceName := seenServiceName pc \<or> (\<exists>x\<in>set ts. fst x = TAG_SERVICE_NAME)\<rparr>,
     upd_conn (fold offer_tag ts) d)"
  using assms
proof (induction ts arbitrary: pc d)
  case (Cons t ts)
  obtain ty data where t: "t = (ty, data)" by (cases t)
  from Cons.prems have l: "length data < 65536" "\<not> is_error ty" "\<forall>(ty, data)\<in>set ts. length data < 65536 \<and> \<not> is_error ty"
    by (auto simp: t)
  show ?case
    using Cons.IH [OF l(3)] Cons.prems(2) l(1,2)
    by (auto simp: t parsePADOTags_def offer_tag_def matches_iff saved_mk_tag is_error_def comp_def id_def)
qed (simp add: upd_conn_def)

lemma read_tags_stuck: "gone d \<or> gotError pc \<Longrightarrow>
    (case fold read_tag ts (pc, d) of (pc', d') \<Rightarrow> gone d' \<or> gotError pc')"
proof (induction ts arbitrary: pc d)
  case (Cons t ts)
  obtain ty data where t: "t = (ty, data)" by (cases t)
  have "case read_tag t (pc, d) of (pc', d') \<Rightarrow> gone d' \<or> gotError pc'"
    using Cons.prems by (auto simp: t parsePADOTags_def pado_error_def Let_def)
  then show ?case using Cons.IH by (cases "read_tag t (pc, d)") simp
qed simp

lemma read_tags_bad:
  assumes "\<exists>(ty, data)\<in>set ts. is_error ty" "\<not> printACNames d"
  shows "case fold read_tag ts (pc, d) of (pc', d') \<Rightarrow> gone d' \<or> gotError pc'"
  using assms
proof (induction ts arbitrary: pc d)
  case (Cons t ts)
  obtain ty data where t: "t = (ty, data)" by (cases t)
  obtain pc' d' where s: "read_tag t (pc, d) = (pc', d')" by (cases "read_tag t (pc, d)")
  have p: "\<not> printACNames d'"
    using s Cons.prems(2) by (auto simp: t parsePADOTags_def pado_error_def Let_def split: if_splits)
  show ?case
  proof (cases "is_error ty")
    case True
    have "gone d' \<or> gotError pc'"
      using s True Cons.prems(2) by (auto simp: t parsePADOTags_def pado_error_def is_error_def Let_def split: if_splits)
    then show ?thesis using read_tags_stuck s by simp
  next
    case False
    then show ?thesis using Cons p s by (auto simp: t)
  qed
qed simp

section \<open>Offers\<close>

text \<open>
  The check of the length refuses what was received and is shorter than its length field says, and nothing after an
  error of \<open>recv\<close>.
\<close>

lemma bogus_length_iff:
  "0 \<le> len \<Longrightarrow> len < 2 ^ 31 \<Longrightarrow> bogus_length p len \<longleftrightarrow> len < int (plen p) + 20" "\<not> bogus_length p (-1)"
proof -
  have n: "plen p < 65536" using unsigned_less [of "ntohs (plength p)"] by (simp add: plen_def)
  then have s: "uint (word_of_nat (plen p) + word_of_nat HDR_SIZE :: 64 word) = int (plen p) + 20"
    by (simp add: uint_word_ariths unsigned_of_nat take_bit_nat_eq_self)
  show "bogus_length p len \<longleftrightarrow> len < int (plen p) + 20" if "0 \<le> len" "len < 2 ^ 31"
    using that unfolding bogus_length_def word_less_def s by (simp add: unsigned_of_int take_bit_int_eq_self)
  show "\<not> bogus_length p (-1)"
    using n unfolding bogus_length_def word_less_def s by (simp add: unsigned_minus_1_eq_mask mask_eq_exp_minus_1)
qed

text \<open>An offer for this client, and one it takes.\<close>

definition offered :: "discovery \<Rightarrow> packet \<Rightarrow> int \<Rightarrow> bool" where
  "offered d p len \<longleftrightarrow> \<not> bogus_length p len \<and> for_client (dconn d) p \<and> pcode p = CODE_PADO \<and> \<not> BROADCAST (h_source p)"

definition acceptable :: "discovery \<Rightarrow> (u16 \<times> byte_buf) list \<Rightarrow> bool" where
  "acceptable d ts \<longleftrightarrow> (\<forall>(ty, data)\<in>set ts. \<not> is_error ty) \<and>
     (\<exists>n. (TAG_AC_NAME, n) \<in> set ts) \<and> (\<exists>n. (TAG_SERVICE_NAME, n) \<in> set ts) \<and>
     (\<forall>n. acName d = Some n \<longrightarrow> (TAG_AC_NAME, n) \<in> set ts) \<and> (\<forall>n. serviceName d = Some n \<longrightarrow> (TAG_SERVICE_NAME, n) \<in> set ts)"

lemma got_pado_other: "pkt_wf p \<Longrightarrow> \<not> offered d p len \<Longrightarrow> got_pado d p len = Some d"
  by (auto simp: got_pado_def packetIsForMe_eq offered_def)

lemma has_tag:
  "(\<exists>x\<in>set ts. fst x = ty) \<longleftrightarrow> (\<exists>n. (ty, n) \<in> set ts)"
  "(\<exists>x\<in>set ts. fst x = ty \<and> a = snd x) \<longleftrightarrow> (ty, a) \<in> set ts"
  by force+

lemma got_pado_good:
  assumes p: "pkt_wf p" "offered d p len" and ok: "\<forall>(ty, data)\<in>set (tags_of p). \<not> is_error ty" "\<not> gone d" "\<not> printACNames d"
  shows "\<exists>k. got_pado d p len = Some (if acceptable d (tags_of p)
      then (upd_conn (\<lambda>c. (fold offer_tag (tags_of p) c)\<lparr>peerEth := h_source p\<rparr>) d)\<lparr>numPADOs := k, discoveryState := STATE_RECEIVED_PADO\<rparr>
      else (upd_conn (fold offer_tag (tags_of p)) d)\<lparr>numPADOs := k\<rparr>)"
proof -
  have t: "\<forall>(ty, data)\<in>set (tags_of p). length data < 65536 \<and> \<not> is_error ty" using ok(1) tags_of_short by fastforce
  obtain rc where r: "parsePacket p parsePADOTags (criteria_start d, d) = Some (rc, fold read_tag (tags_of p) (criteria_start d, d))"
    using parsePacket_tags [OF p(1), of parsePADOTags "(criteria_start d, d)"] by blast
  define f where "f = fold offer_tag (tags_of p)"
  define pc where "pc = fst (fold read_tag (tags_of p) (criteria_start d, d))"
  have pc: "fold read_tag (tags_of p) (criteria_start d, d) = (pc, upd_conn f d)" "\<not> gotError pc"
    "seenACName pc \<longleftrightarrow> (\<exists>n. (TAG_AC_NAME, n) \<in> set (tags_of p))" "seenServiceName pc \<longleftrightarrow> (\<exists>n. (TAG_SERVICE_NAME, n) \<in> set (tags_of p))"
    "acNameOK pc \<longleftrightarrow> (\<forall>n. acName d = Some n \<longrightarrow> (TAG_AC_NAME, n) \<in> set (tags_of p))"
    "serviceNameOK pc \<longleftrightarrow> (\<forall>n. serviceName d = Some n \<longrightarrow> (TAG_SERVICE_NAME, n) \<in> set (tags_of p))"
    unfolding pc_def read_tags_good [OF t ok(2)] has_tag f_def
    by (cases "acName d"; cases "serviceName d"; auto simp: criteria_start_def has_tag)+
  have acc: "acceptable d (tags_of p) \<longleftrightarrow> seenACName pc \<and> seenServiceName pc \<and> acNameOK pc \<and> serviceNameOK pc"
    using ok(1) pc by (auto simp: acceptable_def)
  have num: "(upd_conn f d)\<lparr>numPADOs := k\<rparr> = upd_conn f (d\<lparr>numPADOs := k\<rparr>)" for f k by (simp add: upd_conn_def)
  have "got_pado d p len = Some (
      if \<not> seenACName pc \<or> \<not> seenServiceName pc then (upd_conn f d)\<lparr>numPADOs := numPADOs d\<rparr>
      else if acNameOK pc \<and> serviceNameOK pc
      then (upd_conn (\<lambda>c. c\<lparr>peerEth := h_source p\<rparr>) ((upd_conn f d)\<lparr>numPADOs := numPADOs d + 1\<rparr>))\<lparr>discoveryState := STATE_RECEIVED_PADO\<rparr>
      else (upd_conn f d)\<lparr>numPADOs := numPADOs d + 1\<rparr>)"
    using p(2) ok(2,3) pc(1,2) r by (auto simp: got_pado_def packetIsForMe_eq [OF p(1)] offered_def num Let_def)
  then show ?thesis
    unfolding num acc f_def [symmetric]
    by (cases "seenACName pc \<and> seenServiceName pc"; cases "acNameOK pc \<and> serviceNameOK pc")
      (auto simp: comp_def upd_conn_def intro: exI [of _ "numPADOs d"] exI [of _ "numPADOs d + 1"])
qed

section \<open>The offer taken\<close>

text \<open>What handling a packet leaves alone.\<close>

definition setup_kept :: "discovery \<Rightarrow> discovery \<Rightarrow> bool" where
  "setup_kept d d' \<longleftrightarrow> acName d' = acName d \<and> serviceName d' = serviceName d \<and> printACNames d' = printACNames d \<and>
     persist d' = persist d \<and> inbox d' = inbox d \<and> waits d' = waits d \<and> uninit d' = uninit d \<and>
     myEth (dconn d') = myEth (dconn d) \<and> hostUniq (dconn d') = hostUniq (dconn d)"

lemma setup_kept_trans: "setup_kept d d1 \<Longrightarrow> setup_kept d1 d2 \<Longrightarrow> setup_kept d d2"
  by (simp add: setup_kept_def)

lemma offer_tags_kept: "myEth (fold offer_tag ts c) = myEth c \<and> hostUniq (fold offer_tag ts c) = hostUniq c"
  by (induction ts arbitrary: c) (auto simp: offer_tag_def)

lemma read_tag_kept: "setup_kept d (snd (read_tag t (pc, d))) \<and> discoveryState (snd (read_tag t (pc, d))) = discoveryState d"
  by (cases t) (auto simp: setup_kept_def parsePADOTags_def pado_error_def upd_conn_def exit_with_def Let_def)

lemma read_tags_kept:
  "setup_kept d (snd (fold read_tag ts (pc, d))) \<and> discoveryState (snd (fold read_tag ts (pc, d))) = discoveryState d"
proof (induction ts arbitrary: pc d)
  case (Cons t ts)
  obtain pc' d' where s: "read_tag t (pc, d) = (pc', d')" by (cases "read_tag t (pc, d)")
  then show ?case using Cons [of d' pc'] read_tag_kept [of d t pc] setup_kept_trans [of d d'] by auto
qed (simp add: setup_kept_def)

lemma got_pado_step:
  assumes p: "pkt_wf p" and d: "\<not> gone d" "\<not> printACNames d" and got: "got_pado d p len = Some d'"
  shows "setup_kept d d' \<and> (gone d' \<or>
    (if offered d p len \<and> acceptable d (tags_of p)
     then discoveryState d' = STATE_RECEIVED_PADO \<and> peerEth (dconn d') = h_source p else discoveryState d' = discoveryState d))"
proof (cases "offered d p len")
  case False
  then show ?thesis using got got_pado_other [OF p False] by (simp add: setup_kept_def)
next
  case True
  show ?thesis
  proof (cases "\<forall>(ty, data)\<in>set (tags_of p). \<not> is_error ty")
    case ok: True
    show ?thesis
      using got_pado_good [OF p True ok d] got True d
      by (cases "acceptable d (tags_of p)") (auto simp: setup_kept_def offer_tags_kept upd_conn_def)
  next
    case bad: False
    then have b: "\<exists>(ty, data)\<in>set (tags_of p). is_error ty" "\<not> acceptable d (tags_of p)" by (auto simp: acceptable_def)
    obtain pc d1 where f: "fold read_tag (tags_of p) (criteria_start d, d) = (pc, d1)"
      by (cases "fold read_tag (tags_of p) (criteria_start d, d)")
    obtain rc where r: "parsePacket p parsePADOTags (criteria_start d, d) = Some (rc, pc, d1)"
      using parsePacket_tags [OF p, of parsePADOTags "(criteria_start d, d)"] unfolding f by blast
    have "d' = d1"
      using got True r f read_tags_bad [OF b(1) d(2), of "criteria_start d"]
      by (auto simp: got_pado_def packetIsForMe_eq [OF p] offered_def)
    then show ?thesis using read_tags_kept [of d "tags_of p" "criteria_start d"] f b(2) by simp
  qed
qed

text \<open>
  What the buffer holds after \<open>n\<close> more ends of \<open>select\<close>, and that handling it after the next one leads to an offer that is
  taken. An error of \<open>recv\<close> leaves the packet before it in the buffer.
\<close>

fun buffer_at :: "discovery \<Rightarrow> packet \<Rightarrow> nat \<Rightarrow> packet" where
  "buffer_at d b 0 = b"
| "buffer_at d b (Suc n) = (case inbox d (waits d + n) of Arrived r \<Rightarrow> fst (received_into (buffer_at d b n) r) | _ \<Rightarrow> buffer_at d b n)"

definition takes :: "discovery \<Rightarrow> packet \<Rightarrow> nat \<Rightarrow> packet \<Rightarrow> bool" where
  "takes d b n p \<longleftrightarrow> (\<exists>r len. inbox d (waits d + n) = Arrived r \<and> received_into (buffer_at d b n) r = (p, len) \<and>
     offered d p len \<and> acceptable d (tags_of p))"

definition inbox_ok :: "discovery \<Rightarrow> bool" where
  "inbox_ok d \<longleftrightarrow> (\<forall>k p len. inbox d k = Arrived (Recv p len) \<longrightarrow> pkt_wf p) \<and> (\<forall>n. pkt_wf (uninit d n))"

definition outcome :: "discovery \<Rightarrow> packet \<Rightarrow> discovery \<Rightarrow> bool" where
  "outcome d b d' \<longleftrightarrow>
     (if discoveryState d' = STATE_RECEIVED_PADO
      then \<exists>n p. waits d' = waits d + Suc n \<and> takes d b n p \<and> peerEth (dconn d') = h_source p \<and> (\<forall>k<n. \<forall>q. \<not> takes d b k q)
      else discoveryState d' = discoveryState d \<and> (\<exists>n. waits d' = waits d + n \<and> (\<forall>k<n. \<forall>q. \<not> takes d b k q)))"

lemma kept_same:
  assumes "setup_kept d d'"
  shows "buffer_at d' b n = buffer_at d b n" "takes d' b n = takes d b n" "inbox_ok d' = inbox_ok d"
proof -
  show b: "buffer_at d' b n = buffer_at d b n" for n
    using assms by (induction n) (simp_all add: setup_kept_def cong: waiting.case_cong)
  show "takes d' b n = takes d b n" "inbox_ok d' = inbox_ok d"
    using assms by (simp_all add: fun_eq_iff setup_kept_def takes_def b inbox_ok_def offered_def for_client_def acceptable_def)
qed

text \<open>One more end of \<open>select\<close> shifts the numbers by one.\<close>

lemma takes_later:
  assumes "inbox d (waits d) = Arrived r" "received_into b r = (p, len)" "d1 = d\<lparr>looks := l, waits := Suc (waits d)\<rparr>"
  shows "takes d1 p n = takes d b (Suc n)"
proof -
  have "buffer_at d1 p n = buffer_at d b (Suc n)"
    using assms by (induction n) (simp_all cong: waiting.case_cong)
  then show ?thesis
    using assms(3) by (simp add: fun_eq_iff takes_def offered_def for_client_def acceptable_def)
qed

lemma outcome_later:
  assumes n: "\<forall>n. takes d1 p n = takes d b (Suc n)" and w: "waits d1 = Suc (waits d)" "discoveryState d1 = discoveryState d"
    and no: "\<forall>q. \<not> takes d b 0 q" and o: "outcome d1 p d'"
  shows "outcome d b d'"
proof -
  have all: "\<forall>k<Suc n. \<forall>q. \<not> takes d b k q" if "\<forall>k<n. \<forall>q. \<not> takes d1 p k q" for n
    using that assms(1,4) by (auto simp: less_Suc_eq_0_disj)
  show ?thesis
  proof (cases "discoveryState d' = STATE_RECEIVED_PADO")
    case True
    then obtain m q where "waits d' = waits d1 + Suc m" "takes d1 p m q" "peerEth (dconn d') = h_source q" "\<forall>k<m. \<forall>q. \<not> takes d1 p k q"
      using o by (auto simp: outcome_def)
    then show ?thesis using True w(1) n all by (auto simp: outcome_def intro!: exI [of _ "Suc m"])
  next
    case False
    then obtain m where "waits d' = waits d1 + m" "\<forall>k<m. \<forall>q. \<not> takes d1 p k q" "discoveryState d' = discoveryState d1"
      using o by (auto simp: outcome_def)
    then show ?thesis using False w all by (auto simp: outcome_def intro!: exI [of _ "Suc m"])
  qed
qed

lemma fatalSys_exits: "fatalSys st e = Some st' \<Longrightarrow> exited st' \<noteq> None"
  by (auto simp: fatalSys_def exit_with_def split: bind_splits)

definition hunting :: "discovery \<Rightarrow> bool" where
  "hunting d \<longleftrightarrow> inbox_ok d \<and> \<not> gone d \<and> \<not> printACNames d \<and> discoveryState d \<noteq> STATE_RECEIVED_PADO"

lemma looked [simp]:
  "hunting (d\<lparr>looks := l, waits := n\<rparr>) = hunting d" "hunting (d\<lparr>looks := l\<rparr>) = hunting d"
  "offered (d\<lparr>looks := l, waits := n\<rparr>) = offered d" "acceptable (d\<lparr>looks := l, waits := n\<rparr>) = acceptable d"
  by (simp_all add: hunting_def inbox_ok_def gone_def offered_def for_client_def acceptable_def fun_eq_iff)

lemma buffer_looked [simp]: "buffer_at (d\<lparr>looks := l\<rparr>) b n = buffer_at d b n"
  by (induction n) (simp_all cong: waiting.case_cong)

lemma takes_looked [simp]: "takes (d\<lparr>looks := l\<rparr>) = takes d"
  by (simp add: takes_def offered_def for_client_def acceptable_def fun_eq_iff)

text \<open>One round of the loop, whatever \<open>run\<close> does with the rest.\<close>

lemma pado_round:
  assumes h: "hunting d" and b: "pkt_wf b" and eq: "(case look d of (now, d) \<Rightarrow> case time_left now e of
        None \<Rightarrow> Some d
      | Some tv \<Rightarrow>
          (case wait_readable tv d of (r, d) \<Rightarrow>
           case r of
             Quiet \<Rightarrow> Some d
           | Broken err \<Rightarrow> do { s \<leftarrow> fatalSys (ses d) err; Some (d\<lparr>ses := s\<rparr>) }
           | Arrived r \<Rightarrow> (case received_into b r of (packet, len) \<Rightarrow> do {
               d \<leftarrow> got_pado d packet len;
               if gone d \<or> discoveryState d = STATE_RECEIVED_PADO then Some d else run packet d }))) = Some d'"
  shows "gone d' \<or> outcome d b d' \<or>
    (\<exists>d1 p. run p d1 = Some d' \<and> pkt_wf p \<and> hunting d1 \<and> (\<forall>n. takes d1 p n = takes d b (Suc n)) \<and> waits d1 = Suc (waits d) \<and>
       discoveryState d1 = discoveryState d \<and> (\<forall>q. \<not> takes d b 0 q))"
proof (cases "time_left (wall d (looks d)) e")
  case None
  have "outcome d b (d\<lparr>looks := l\<rparr>)" for l using h by (auto simp: outcome_def hunting_def)
  then show ?thesis using eq None by (auto simp: look_def)
next
  case (Some tv)
  let ?d = "d\<lparr>looks := looks d + 1, waits := Suc (waits d)\<rparr>"
  have broken: ?thesis if "wait_readable tv (d\<lparr>looks := looks d + 1\<rparr>) = (Broken err, d2)" for err d2
    using eq Some that fatalSys_exits by (auto simp: look_def gone_def split: bind_splits)
  show ?thesis
  proof (cases "tv_sec tv < 0")
    case True
    then show ?thesis by (intro broken) (simp add: wait_readable_def)
  next
    case False
    show ?thesis
    proof (cases "inbox d (waits d)")
      case Quiet
      have "outcome d b ?d" using h Quiet by (auto simp: outcome_def takes_def hunting_def intro!: exI [of _ 1])
      then show ?thesis using eq Some False Quiet by (auto simp: look_def wait_readable_def)
    next
      case (Broken err)
      then show ?thesis using False by (intro broken) (simp add: wait_readable_def)
    next
      case (Arrived r)
      obtain p len where r: "received_into b r = (p, len)" by (cases "received_into b r")
      have p: "pkt_wf p" using r b h Arrived by (cases r) (auto simp: received_into_def hunting_def inbox_ok_def)
      obtain d1 where d1: "got_pado ?d p len = Some d1"
        "(if gone d1 \<or> discoveryState d1 = STATE_RECEIVED_PADO then Some d1 else run p d1) = Some d'"
        using eq Some False Arrived r by (auto simp: look_def wait_readable_def split: bind_splits)
      have now: "takes d b 0 q \<longleftrightarrow> q = p \<and> offered d p len \<and> acceptable d (tags_of p)" for q
        using Arrived r by (auto simp: takes_def)
      from got_pado_step [OF p _ _ d1(1)] h have after: "setup_kept ?d d1" "gone d1 \<or> (if offered d p len \<and> acceptable d (tags_of p)
        then discoveryState d1 = STATE_RECEIVED_PADO \<and> peerEth (dconn d1) = h_source p else discoveryState d1 = discoveryState d)"
        by (auto simp: hunting_def gone_def)
      show ?thesis
      proof (cases "gone d1 \<or> discoveryState d1 = STATE_RECEIVED_PADO")
        case True
        have "gone d1 \<or> outcome d b d1"
          using after True h now by (auto simp: outcome_def hunting_def setup_kept_def split: if_splits intro!: exI [of _ 0])
        then show ?thesis using d1(2) True by auto
      next
        case False
        have "takes d1 p n = takes d b (Suc n)" for n
          using takes_later [OF Arrived r refl, of "looks d + 1" n] kept_same(2) [OF after(1), of p n] by simp
        moreover have "hunting d1" using h False after(1) kept_same(3) [OF after(1)]
          by (auto simp: hunting_def setup_kept_def inbox_ok_def)
        ultimately show ?thesis using after False now p d1(2) by (auto simp: setup_kept_def split: if_splits)
      qed
    qed
  qed
qed

lemma wait_for_pado:
  assumes "wait_for got_pado STATE_RECEIVED_PADO e b d = Some d'" "hunting d" "pkt_wf b"
  shows "gone d' \<or> outcome d b d'"
proof -
  let ?P = "\<lambda>g goal (e :: timeval) b d d'. g = got_pado \<and> goal = STATE_RECEIVED_PADO \<and> hunting d \<and> pkt_wf b \<longrightarrow> gone d' \<or> outcome d b d'"
  have "?P got_pado STATE_RECEIVED_PADO e b d d'"
  proof (rule wait_for.raw_induct [of ?P, OF _ assms(1)])
    fix run :: "(discovery \<Rightarrow> packet \<Rightarrow> int \<Rightarrow> discovery option) \<Rightarrow> disc_state \<Rightarrow> timeval \<Rightarrow> packet \<Rightarrow> discovery \<Rightarrow> discovery option"
      and g goal e b d d'
    assume IH: "\<And>g goal e b d d'. run g goal e b d = Some d' \<Longrightarrow> ?P g goal e b d d'"
      and eq: "(case look d of (now, d) \<Rightarrow> case time_left now e of
        None \<Rightarrow> Some d
      | Some tv \<Rightarrow>
          (case wait_readable tv d of (r, d) \<Rightarrow>
           case r of
             Quiet \<Rightarrow> Some d
           | Broken err \<Rightarrow> do { s \<leftarrow> fatalSys (ses d) err; Some (d\<lparr>ses := s\<rparr>) }
           | Arrived r \<Rightarrow> (case received_into b r of (packet, len) \<Rightarrow> do {
               d \<leftarrow> g d packet len;
               if gone d \<or> discoveryState d = goal then Some d else run g goal e packet d }))) = Some d'"
    show "?P g goal e b d d'"
    proof (intro impI, elim conjE)
      assume g: "g = got_pado" "goal = STATE_RECEIVED_PADO" and h: "hunting d" and b: "pkt_wf b"
      from pado_round [OF h b, of "run got_pado STATE_RECEIVED_PADO e" e d'] eq g
      show "gone d' \<or> outcome d b d'"
        using outcome_later [of _ _ d b d'] IH [of got_pado STATE_RECEIVED_PADO e] by blast
    qed
  qed
  then show ?thesis using assms(2,3) by simp
qed


definition ex_pado :: "mac \<Rightarrow> byte_buf \<Rightarrow> packet" where
  "ex_pado src ts = \<lparr>h_dest = Mac 2 0 0 0 0 1, h_source = src, h_proto = htons 0x8863, vertype = 0x11,
     pcode = CODE_PADO, psession = 0, plength = htons (word_of_nat (length ts)), payload = ts @ replicate (1508 - length ts) 0\<rparr>"

text \<open>The first offer lacks the concentrator's name, the second has it, a service name and a cookie.\<close>

definition ex_poor :: packet where "ex_poor = ex_pado (Mac 2 0 0 0 0 8) [1, 3, 0, 2, 0x31, 0x32, 1, 1, 0, 0, 1, 4, 0, 1, 7]"

definition ex_good :: packet where
  "ex_good = ex_pado (Mac 2 0 0 0 0 9) [1, 3, 0, 2, 0x31, 0x32, 1, 1, 0, 0, 1, 2, 0, 1, 0x41, 1, 4, 0, 1, 9]"

definition ex_disc :: discovery where
  "ex_disc = \<lparr>ses = \<lparr>conn = \<lparr>discoverySocket = 3, sessionSocket = 4, myEth = Mac 2 0 0 0 0 1, peerEth = Mac 0 0 0 0 0 0,
       session_id = 0, synchronous = False, hostUniq = Some [0x31, 0x32],
       cookie = \<lparr>tag_type = 0, tag_length = 0, tag_payload = []\<rparr>, relayId = \<lparr>tag_type = 0, tag_length = 0, tag_payload = []\<rparr>\<rparr>,
     optClampMSS = 0, PPPState = STATE_DROP_PROTO, PPPPacketSize = 0, PPPXorValue = 0, spkt = ex_pado (Mac 0 0 0 0 0 0) [],
     send_rc = (\<lambda>_. SendOk), write_rc = (\<lambda>_. None), wire = [], tty = [], errlog = [], exited = None\<rparr>,
   discoveryState = STATE_SENT_PADI, acName = None, serviceName = None, printACNames = False, skipDiscovery = False,
   killSession = False, noDiscoverySocket = False, numPADOs = 0, PADSHadError = False, discoveryTimeout = 5, persist = False,
   wall = (\<lambda>n. TV 1000 (int n)), looks = 0,
   inbox = (\<lambda>n. if n = 0 then Arrived (Recv ex_poor 35) else Arrived (Recv ex_good 40)), waits = 0,
   uninit = (\<lambda>_. ex_pado (Mac 0 0 0 0 0 0) [])\<rparr>"

lemma ex_pado_wf: "length ts \<le> 1508 \<Longrightarrow> pkt_wf (ex_pado src ts)"
  by (simp add: ex_pado_def pkt_wf_def)

declare wait_for.simps [code]

lemma ex_wait:
  "map_option (\<lambda>d. (gone d, discoveryState d, waits d, peerEth (dconn d))) (waitForPADO 5 ex_disc) =
   Some (False, STATE_RECEIVED_PADO, 2, Mac 2 0 0 0 0 9)"
  by code_simp


text \<open>
  The offer is cut short on the way and refused for its length; then \<open>recv\<close> fails, and the same bytes are taken as an offer.
\<close>

lemma recv_error_accepts:
  "map_option (\<lambda>d. (discoveryState d, waits d, peerEth (dconn d)))
     (waitForPADO 5 (ex_disc\<lparr>inbox := \<lambda>n. Arrived (if n = 0 then Recv ex_good 39 else RecvErr)\<rparr>)) =
   Some (STATE_RECEIVED_PADO, 2, Mac 2 0 0 0 0 9)"
  by code_simp

section \<open>The frames sent\<close>

definition sname :: "discovery \<Rightarrow> byte_buf" where
  "sname d = (case serviceName d of None \<Rightarrow> [] | Some s \<Rightarrow> s)"

definition disc_frame :: "mac \<Rightarrow> mac \<Rightarrow> u8 \<Rightarrow> byte_buf \<Rightarrow> byte_buf" where
  "disc_frame dest source code body = mac_bytes dest @ mac_bytes source @ be16_bytes 0x8863 @ [0x11, code, 0, 0] @
     be16_bytes (word_of_nat (length body)) @ body"

definition padi_body :: "discovery \<Rightarrow> byte_buf" where
  "padi_body d = (if serviceName d = Some no_service_name then [] else enc_tag TAG_SERVICE_NAME (sname d)) @ host_bytes (hostUniq (dconn d))"

definition padr_body :: "discovery \<Rightarrow> byte_buf" where
  "padr_body d = enc_tag TAG_SERVICE_NAME (sname d) @ host_bytes (hostUniq (dconn d)) @ saved_bytes (cookie (dconn d)) @
     saved_bytes (relayId (dconn d))"

definition sent :: "int \<times> byte_buf \<Rightarrow> discovery \<Rightarrow> discovery" where
  "sent f d = d\<lparr>ses := (ses d)\<lparr>wire := wire (ses d) @ [f]\<rparr>\<rparr>"

lemma service_tag_buf:
  assumes "length (sname d) \<le> 1498"
  shows "service_tag w (serviceName d) (padt_buf []) = Some (Some (padt_buf (enc_tag TAG_SERVICE_NAME (sname d))))"
proof -
  have n: "unat (word_of_nat (length (sname d)) :: u16) = length (sname d)"
      "unat (4 + word_of_nat (length (sname d)) :: u16) = 4 + length (sname d)"
    using assms by (auto simp: unat_word_ariths take_bit_nat_eq_self unsigned_of_nat)
  have "le16_bytes TAG_SERVICE_NAME = be16_bytes TAG_SERVICE_NAME" by (simp add: le16_bytes_def be16_bytes_def lo8_def hi8_def)
  then show ?thesis
    using assms n
    by (simp add: service_tag_def sname_def [symmetric] Let_def padt_buf_def wr_bytes_def enc_tag_def)
qed

lemma uniq_tag_buf:
  assumes "length (b @ host_bytes hu) \<le> 1502"
  shows "uniq_tag hu (padt_buf b) = Some (Some (padt_buf (b @ host_bytes hu)))"
proof (cases hu)
  case (Some h)
  with assms have l: "length b + length h + 4 \<le> 1502" by (simp add: host_bytes_def)
  show ?thesis
    using l Some tag_bytes_enc [of h "TAG_HOST_UNIQ" "[]"]
    by (simp add: uniq_tag_def host_bytes_def, subst put_tag_buf) (simp_all add: tag_bytes_def)
qed (simp add: uniq_tag_def host_bytes_def)

lemma le16_zero: "le16_bytes 0 = [0, 0]"
  by (simp add: le16_bytes_def lo8_def hi8_def)

lemma send_disc_buf:
  assumes "length b \<le> 1502"
  shows "send_disc (disc_packet dest source code) (padt_buf b) d = Some (sent (discoverySocket (dconn d), disc_frame dest source code b) d)"
proof -
  let ?p = "(disc_packet dest source code)\<lparr>payload := fst (padt_buf b), plength := htons (word_of_nat (length b))\<rparr>"
  have sz: "sized ?p (int (length b) + int HDR_SIZE)"
    using assms by (simp add: sized_def pkt_wf_def plen_def padt_buf_def)
  have "frame_of ?p = disc_frame dest source code b"
    using assms by (simp add: frame_of_def hdr_bytes_def window_def plen_def disc_packet_def disc_frame_def padt_buf_def le16_htons
                          PPPOE_VER_TYPE_def le16_zero)
  moreover have "uint (word_of_nat (length b) :: u16) = int (length b)"
    using assms by (simp add: unsigned_of_nat take_bit_nat_eq_self)
  ultimately show ?thesis
    using assms if_sendPacket_ok [OF sz, of "ses d" "discoverySocket (dconn d)"]
    by (simp add: send_disc_def padt_buf_def sent_def)
qed

lemma start_buf: "(payload (disc_packet dest source code), 0) = padt_buf []"
  by (simp add: disc_packet_def padt_buf_def)

lemma sendPADI_ok:
  assumes "length (padi_body d) \<le> 1502"
  shows "sendPADI d = Some (sent (discoverySocket (dconn d),
    disc_frame (Mac 0xFF 0xFF 0xFF 0xFF 0xFF 0xFF) (myEth (dconn d)) CODE_PADI (padi_body d)) d)"
proof -
  let ?s = "if serviceName d = Some no_service_name then [] else enc_tag TAG_SERVICE_NAME (sname d)"
  have b: "length (?s @ host_bytes (hostUniq (dconn d))) \<le> 1502" using assms by (simp add: padi_body_def)
  then have s: "(if serviceName d = Some no_service_name then Some (Some (padt_buf []))
      else service_tag True (serviceName d) (padt_buf [])) = Some (Some (padt_buf ?s))"
    using service_tag_buf [of d True] by (auto split: if_splits)
  show ?thesis
    using uniq_tag_buf [OF b] send_disc_buf [OF b] s
    by (cases "serviceName d = Some no_service_name") (simp_all add: sendPADI_def start_buf padi_body_def Let_def)
qed

lemma sendPADR_ok:
  assumes "length (padr_body d) \<le> 1502" "saved_ok (cookie (dconn d))" "saved_ok (relayId (dconn d))"
  shows "sendPADR d = Some (sent (discoverySocket (dconn d),
    disc_frame (peerEth (dconn d)) (myEth (dconn d)) CODE_PADR (padr_body d)) d)"
proof -
  let ?s = "enc_tag TAG_SERVICE_NAME (sname d)" and ?h = "host_bytes (hostUniq (dconn d))"
  have b: "length (?s @ ?h) \<le> 1502" "length (?s @ ?h @ saved_bytes (cookie (dconn d))) \<le> 1502" "length (sname d) \<le> 1498"
    using assms(1) by (simp_all add: padr_body_def)
  show ?thesis
    using uniq_tag_buf [OF b(1)] send_disc_buf [OF assms(1)] service_tag_buf [of d False] b(2,3) assms(1)
      saved_tag_buf [OF assms(2)] saved_tag_buf [OF assms(3)]
    by (simp add: sendPADR_def start_buf padr_body_def Let_def)
qed

section \<open>What a request carries\<close>

text \<open>The last tag of a type, as a list of at most one tag.\<close>

definition last_tag :: "u16 \<Rightarrow> (u16 \<times> byte_buf) list \<Rightarrow> (u16 \<times> byte_buf) list" where
  "last_tag ty ts = fold (\<lambda>t found. if fst t = ty then [t] else found) ts []"

lemma last_tag_snoc: "last_tag ty (ts @ [t]) = (if fst t = ty then [t] else last_tag ty ts)"
  by (simp add: last_tag_def)

lemma last_tag_cases: "last_tag ty ts = [] \<or> (\<exists>data. last_tag ty ts = [(ty, data)] \<and> (ty, data) \<in> set ts)"
proof (induction ts rule: rev_induct)
  case (snoc t ts)
  then show ?case by (cases t) (auto simp: last_tag_snoc)
qed (simp add: last_tag_def)

definition kept_tag :: "u16 \<Rightarrow> (u16 \<times> byte_buf) list \<Rightarrow> ptag \<Rightarrow> ptag" where
  "kept_tag ty ts old = (case last_tag ty ts of [] \<Rightarrow> old | t # _ \<Rightarrow> mk_tag ty (snd t))"

lemma offer_tags_saved:
  "cookie (fold offer_tag ts c) = kept_tag TAG_AC_COOKIE ts (cookie c) \<and>
   relayId (fold offer_tag ts c) = kept_tag TAG_RELAY_SESSION_ID ts (relayId c) \<and>
   discoverySocket (fold offer_tag ts c) = discoverySocket c"
proof (induction ts rule: rev_induct)
  case (snoc t ts)
  then show ?case by (cases t) (auto simp: offer_tag_def kept_tag_def last_tag_snoc)
qed (simp add: kept_tag_def last_tag_def)

lemma kept_tag_fresh:
  assumes "tag_type old = 0" "ty = TAG_AC_COOKIE \<or> ty = TAG_RELAY_SESSION_ID" "\<forall>(ty, data)\<in>set ts. length data < 65536"
  shows "saved_bytes (kept_tag ty ts old) = enc_tags (map (Pair 0) (last_tag ty ts)) \<and> saved_ok (kept_tag ty ts old)"
  using last_tag_cases [of ty ts]
proof (elim disjE exE conjE)
  fix data assume l: "last_tag ty ts = [(ty, data)]" "(ty, data) \<in> set ts"
  then have n: "length data < 65536" using assms(3) by auto
  have "lo8 ty \<noteq> 0" "hi8 0 = 0" using assms(2) by (auto simp: lo8_def hi8_def)
  then have z: "htons ty \<noteq> 0" using hi8_htons [of ty] by metis
  have "kept_tag ty ts old = \<lparr>tag_type = htons ty, tag_length = htons (word_of_nat (length data)), tag_payload = data @ []\<rparr>"
    using l by (simp add: kept_tag_def mk_tag_def)
  then show ?thesis using n z l tag_bytes_enc [of data ty "[]"]
    by (simp add: saved_bytes_def saved_ok_def unsigned_of_nat take_bit_nat_eq_self)
qed (use assms(1) in \<open>simp add: kept_tag_def saved_bytes_def saved_ok_def\<close>)

lemma tvals_Nil [simp]: "tvals [] = []"
  by (simp add: tvals_def)

lemma last_tag_enc:
  assumes "\<forall>(ty, data)\<in>set ts. length data < 65536" "ty \<noteq> 0"
  shows "tvals (enc_tags (map (Pair 0) (last_tag ty ts)) @ w) = last_tag ty ts @ tvals w"
  using last_tag_cases [of ty ts] assms by auto

definition host_tags :: "byte_buf option \<Rightarrow> (u16 \<times> byte_buf) list" where
  "host_tags hu = (case hu of None \<Rightarrow> [] | Some h \<Rightarrow> [(TAG_HOST_UNIQ, h)])"

lemma padr_tags:
  assumes "length (padr_body d) \<le> 1502" "saved_bytes (cookie (dconn d)) = enc_tags (map (Pair 0) (last_tag TAG_AC_COOKIE ts))"
    "saved_bytes (relayId (dconn d)) = enc_tags (map (Pair 0) (last_tag TAG_RELAY_SESSION_ID ts))"
    "\<forall>(ty, data)\<in>set ts. length data < 65536"
  shows "tvals (padr_body d) = (TAG_SERVICE_NAME, sname d) # host_tags (hostUniq (dconn d)) @
    last_tag TAG_AC_COOKIE ts @ last_tag TAG_RELAY_SESSION_ID ts"
proof -
  have l: "length (sname d) < 65536" "\<And>h. hostUniq (dconn d) = Some h \<Longrightarrow> length h < 65536"
    using assms(1) by (auto simp: padr_body_def host_bytes_def)
  show ?thesis
    using l last_tag_enc [OF assms(4), of TAG_RELAY_SESSION_ID "[]"] last_tag_enc [OF assms(4), of TAG_AC_COOKIE]
    by (cases "hostUniq (dconn d)") (simp_all add: padr_body_def host_bytes_def host_tags_def assms(2,3))
qed

text \<open>The state after an offer was taken, and the request that follows it.\<close>

definition taken :: "discovery \<Rightarrow> packet \<Rightarrow> int \<Rightarrow> discovery" where
  "taken d p k = (upd_conn (\<lambda>c. (fold offer_tag (tags_of p) c)\<lparr>peerEth := h_source p\<rparr>) d)\<lparr>numPADOs := k, discoveryState := STATE_RECEIVED_PADO\<rparr>"

lemma taken_kept:
  "myEth (dconn (taken d p k)) = myEth (dconn d)" "hostUniq (dconn (taken d p k)) = hostUniq (dconn d)" "peerEth (dconn (taken d p k)) = h_source p"
  "discoverySocket (dconn (taken d p k)) = discoverySocket (dconn d)" "sname (taken d p k) = sname d" "wire (ses (taken d p k)) = wire (ses d)"
  "cookie (dconn (taken d p k)) = kept_tag TAG_AC_COOKIE (tags_of p) (cookie (dconn d))"
  "relayId (dconn (taken d p k)) = kept_tag TAG_RELAY_SESSION_ID (tags_of p) (relayId (dconn d))"
  using offer_tags_kept [of "tags_of p" "dconn d"] offer_tags_saved [of "tags_of p" "dconn d"]
  by (simp_all add: taken_def upd_conn_def sname_def)

lemma offer_answered:
  assumes p: "pkt_wf p" "offered d p len" "acceptable d (tags_of p)" and d: "\<not> gone d" "\<not> printACNames d"
    and fresh: "tag_type (cookie (dconn d)) = 0" "tag_type (relayId (dconn d)) = 0"
    and fits: "length (enc_tag TAG_SERVICE_NAME (sname d) @ host_bytes (hostUniq (dconn d)) @
      enc_tags (map (Pair 0) (last_tag TAG_AC_COOKIE (tags_of p) @ last_tag TAG_RELAY_SESSION_ID (tags_of p)))) \<le> 1502"
  shows "\<exists>k body. got_pado d p len = Some (taken d p k) \<and> length body \<le> 1502 \<and>
    sendPADR (taken d p k) = Some (sent (discoverySocket (dconn d), disc_frame (h_source p) (myEth (dconn d)) CODE_PADR body) (taken d p k)) \<and>
    tvals body = (TAG_SERVICE_NAME, sname d) # host_tags (hostUniq (dconn d)) @
      last_tag TAG_AC_COOKIE (tags_of p) @ last_tag TAG_RELAY_SESSION_ID (tags_of p)"
proof -
  have ok: "\<forall>(ty, data)\<in>set (tags_of p). \<not> is_error ty" using p(3) by (simp add: acceptable_def)
  have short: "\<forall>(ty, data)\<in>set (tags_of p). length data < 65536" using tags_of_short by blast
  from got_pado_good [OF p(1,2) ok d] p(3) obtain k where got: "got_pado d p len = Some (taken d p k)"
    unfolding taken_def by auto
  let ?d = "taken d p k"
  have s: "saved_bytes (cookie (dconn ?d)) = enc_tags (map (Pair 0) (last_tag TAG_AC_COOKIE (tags_of p)))" "saved_ok (cookie (dconn ?d))"
    "saved_bytes (relayId (dconn ?d)) = enc_tags (map (Pair 0) (last_tag TAG_RELAY_SESSION_ID (tags_of p)))" "saved_ok (relayId (dconn ?d))"
    using kept_tag_fresh [OF fresh(1) _ short] kept_tag_fresh [OF fresh(2) _ short] by (simp_all add: taken_kept)
  have l: "length (padr_body ?d) \<le> 1502"
    using fits unfolding padr_body_def s by (simp add: taken_kept enc_tags_def)
  show ?thesis
    using got l sendPADR_ok [OF l s(2,4)] padr_tags [OF l s(1,3) short]
    by (intro exI [of _ k] exI [of _ "padr_body ?d"]) (simp add: taken_kept)
qed

text \<open>
  C28: round trip of the offer's tags. The PADR that follows an offer goes to the sender of the offer, and a reader finds in it
  exactly the service name asked for, the Host-Uniq, and the last cookie and the last relay session id of the offer, byte for byte.
  No earlier offer has left a cookie or a relay session id behind (those are never cleared, and would be sent in place of missing ones),
  and the tags fit into the 1502 bytes of a packet.
\<close>

theorem padr_echoes:
  assumes p: "pkt_wf p" "offered d p len" "acceptable d (tags_of p)" and d: "\<not> gone d" "\<not> printACNames d"
    and fresh: "tag_type (cookie (dconn d)) = 0" "tag_type (relayId (dconn d)) = 0"
    and fits: "length (enc_tag TAG_SERVICE_NAME (sname d) @ host_bytes (hostUniq (dconn d)) @
      enc_tags (map (Pair 0) (last_tag TAG_AC_COOKIE (tags_of p) @ last_tag TAG_RELAY_SESSION_ID (tags_of p)))) \<le> 1502"
  shows "\<exists>d1 d2 body. got_pado d p len = Some d1 \<and> sendPADR d1 = Some d2 \<and>
    wire (ses d2) = wire (ses d) @ [(discoverySocket (dconn d), disc_frame (h_source p) (myEth (dconn d)) CODE_PADR body)] \<and>
    tvals body = (TAG_SERVICE_NAME, sname d) # host_tags (hostUniq (dconn d)) @
      last_tag TAG_AC_COOKIE (tags_of p) @ last_tag TAG_RELAY_SESSION_ID (tags_of p)"
proof -
  from offer_answered [OF assms] obtain k body where k: "got_pado d p len = Some (taken d p k)"
    "sendPADR (taken d p k) = Some (sent (discoverySocket (dconn d), disc_frame (h_source p) (myEth (dconn d)) CODE_PADR body) (taken d p k))"
    "tvals body = (TAG_SERVICE_NAME, sname d) # host_tags (hostUniq (dconn d)) @
      last_tag TAG_AC_COOKIE (tags_of p) @ last_tag TAG_RELAY_SESSION_ID (tags_of p)" by blast
  let ?d = "sent (discoverySocket (dconn d), disc_frame (h_source p) (myEth (dconn d)) CODE_PADR body) (taken d p k)"
  have "wire (ses ?d) = wire (ses d) @ [(discoverySocket (dconn d), disc_frame (h_source p) (myEth (dconn d)) CODE_PADR body)]"
    by (simp add: sent_def taken_kept)
  then show ?thesis using k by blast
qed

lemma padr_echoes_witness:
  "\<exists>d1 d2 body. got_pado ex_disc ex_good 40 = Some d1 \<and> sendPADR d1 = Some d2 \<and>
    wire (ses d2) = [(3, disc_frame (Mac 2 0 0 0 0 9) (Mac 2 0 0 0 0 1) CODE_PADR body)] \<and>
    tvals body = [(TAG_SERVICE_NAME, []), (TAG_HOST_UNIQ, [0x31, 0x32])] @ last_tag TAG_AC_COOKIE (tags_of ex_good)"
proof -
  have t: "tags_of ex_good = [(TAG_HOST_UNIQ, [0x31, 0x32]), (TAG_SERVICE_NAME, []), (TAG_AC_NAME, [0x41]), (TAG_AC_COOKIE, [9])]"
    by code_simp
  have l: "last_tag TAG_AC_COOKIE (tags_of ex_good) = [(TAG_AC_COOKIE, [9])]" "last_tag TAG_RELAY_SESSION_ID (tags_of ex_good) = []"
    by (simp_all add: t last_tag_def)
  have w: "pkt_wf ex_good" by (simp add: ex_good_def ex_pado_wf)
  have "plen ex_good = 20" by code_simp
  then have o: "offered ex_disc ex_good 40"
    using t by (simp add: offered_def for_client_def bogus_length_iff) (simp add: ex_disc_def ex_good_def ex_pado_def)
  have a: "acceptable ex_disc (tags_of ex_good)"
    unfolding t by (auto simp: acceptable_def is_error_def ex_disc_def)
  have d: "\<not> gone ex_disc" "\<not> printACNames ex_disc" "tag_type (cookie (dconn ex_disc)) = 0" "tag_type (relayId (dconn ex_disc)) = 0"
    "hostUniq (dconn ex_disc) = Some [0x31, 0x32]" "sname ex_disc = []" "wire (ses ex_disc) = []" "discoverySocket (dconn ex_disc) = 3"
    "myEth (dconn ex_disc) = Mac 2 0 0 0 0 1" "h_source ex_good = Mac 2 0 0 0 0 9"
    by (simp_all add: ex_disc_def gone_def sname_def ex_good_def ex_pado_def)
  have f: "length (enc_tag TAG_SERVICE_NAME (sname ex_disc) @ host_bytes (hostUniq (dconn ex_disc)) @
      enc_tags (map (Pair 0) (last_tag TAG_AC_COOKIE (tags_of ex_good) @ last_tag TAG_RELAY_SESSION_ID (tags_of ex_good)))) \<le> 1502"
    by (simp add: l d host_bytes_def)
  show ?thesis
    using padr_echoes [OF w o a d(1-4) f] by (simp add: l d host_tags_def)
qed

section \<open>Deadlines\<close>

definition normal :: "timeval \<Rightarrow> bool" where
  "normal tv \<longleftrightarrow> 0 \<le> tv_usec tv \<and> tv_usec tv < 1000000"

definition usecs :: "timeval \<Rightarrow> int" where
  "usecs tv = tv_sec tv * 1000000 + tv_usec tv"

text \<open>
  C38: bounds of the remaining time. Before the deadline \<open>time_left\<close> gives the exact positive difference, with microseconds in range.
  Behind it, it reports the end only if the seconds or the microseconds are equal; otherwise it gives a negative time, which
  \<open>select\<close> refuses, and \<open>late_wait_exits\<close> shows that the client then exits with status 1.
\<close>

theorem time_left_exact:
  assumes "normal now" "normal expire_at"
  shows "(case time_left now expire_at of
      None \<Rightarrow> usecs expire_at \<le> usecs now \<and> (tv_sec expire_at = tv_sec now \<or> tv_usec expire_at = tv_usec now)
    | Some tv \<Rightarrow> normal tv \<and> usecs tv = usecs expire_at - usecs now \<and>
        (usecs tv \<le> 0 \<longrightarrow> tv_sec expire_at < tv_sec now \<and>
           (\<exists>err. \<forall>d. wait_readable tv d = (Broken err, d))))"
  using assms by (auto simp: time_left_def normal_def usecs_def wait_readable_def Let_def)

lemma time_left_exact_witness:
  "time_left (TV 1006 3) (TV 1005 0) = Some (TV (-2) 999997) \<and> usecs (TV (-2) 999997) = usecs (TV 1005 0) - usecs (TV 1006 3)"
proof -
  have n: "normal (TV 1006 3)" "normal (TV 1005 0)" by (simp_all add: normal_def)
  have t: "time_left (TV 1006 3) (TV 1005 0) = Some (TV (-2) 999997)" by code_simp
  then show ?thesis using time_left_exact [OF n] by simp
qed

lemma late_wait_exits:
  assumes "normal (wall d (looks d))" "normal e" "tv_sec e < tv_sec (wall d (looks d))" "tv_usec e \<noteq> tv_usec (wall d (looks d))"
    "session_id (dconn d) = 0"
  shows "\<exists>d'. wait_for got goal e b d = Some d' \<and> exited (ses d') = Some 1"
proof -
  have "\<exists>tv. time_left (wall d (looks d)) e = Some tv \<and> tv_sec tv < 0"
    using assms(1-4) by (auto simp: time_left_def normal_def Let_def)
  then obtain tv where tv: "time_left (wall d (looks d)) e = Some tv" "tv_sec tv < 0" by blast
  then show ?thesis
    using assms(5) by (subst wait_for.simps) (simp add: look_def wait_readable_def fatalSys_def sendPADTf_def sendPADT_off exit_with_def)
qed

section \<open>A network that does not answer\<close>

text \<open>
  Nothing arrives, and between the two looks at the clock before each wait less than a second goes by.
\<close>

definition prompt :: "(nat \<Rightarrow> timeval) \<Rightarrow> nat \<Rightarrow> bool" where
  "prompt ticks n \<longleftrightarrow> normal (ticks n) \<and> normal (ticks (n + 1)) \<and>
     usecs (ticks n) \<le> usecs (ticks (n + 1)) \<and> usecs (ticks (n + 1)) < usecs (ticks n) + 1000000"

definition silent :: "discovery \<Rightarrow> bool" where
  "silent d \<longleftrightarrow> (\<forall>k. inbox d k = Quiet) \<and> (\<forall>k. prompt (wall d) (looks d + 2 * k))"

lemma silent_wait:
  assumes "silent d" "1 \<le> timeout"
  shows "wait_seconds got goal timeout d = Some (d\<lparr>looks := looks d + 2, waits := waits d + 1\<rparr>)"
proof -
  let ?n = "wall d (looks d)" and ?m = "wall d (looks d + 1)"
  have c: "normal ?n" "normal ?m" "usecs ?n \<le> usecs ?m" "usecs ?m < usecs ?n + 1000000" and q: "inbox d (waits d) = Quiet"
    using assms(1) spec [of "\<lambda>k. prompt (wall d) (looks d + 2 * k)" 0] by (auto simp: silent_def prompt_def)
  have "\<exists>tv. time_left ?m (TV (tv_sec ?n + timeout) (tv_usec ?n)) = Some tv \<and> \<not> tv_sec tv < 0"
    using c assms(2) by (auto simp: time_left_def normal_def usecs_def Let_def)
  then show ?thesis
    using q by (auto simp: wait_seconds_def look_def wait_for.simps [of got goal "TV (tv_sec ?n + timeout) (tv_usec ?n)"] wait_readable_def)
qed

definition tried :: "int \<times> byte_buf \<Rightarrow> disc_state \<Rightarrow> discovery \<Rightarrow> discovery" where
  "tried f st d = (sent f d)\<lparr>discoveryState := st, looks := looks d + 2, waits := waits d + 1\<rparr>"

lemma tried_simps [simp]:
  "dconn (tried f st d) = dconn d" "discoveryState (tried f st d) = st" "gone (tried f st d) = gone d"
  "printACNames (tried f st d) = printACNames d" "persist (tried f st d) = persist d" "padi_body (tried f st d) = padi_body d"
  "padr_body (tried f st d) = padr_body d" "waits (tried f st d) = waits d + 1" "wire (ses (tried f st d)) = wire (ses d) @ [f]"
  "discoveryTimeout (tried f st d) = discoveryTimeout d" "skipDiscovery (tried f st d) = skipDiscovery d"
  by (simp_all add: tried_def sent_def gone_def padi_body_def padr_body_def sname_def)

lemma silent_tried [simp]:
  assumes "silent d"
  shows "silent (tried f st d)"
proof -
  have "prompt (wall d) (looks d + 2 + 2 * k)" for k
    using assms spec [of "\<lambda>k. prompt (wall d) (looks d + 2 * k)" "Suc k"] by (simp add: silent_def)
  then show ?thesis using assms by (simp add: silent_def tried_def sent_def)
qed

lemma padi_try:
  assumes "silent d" "1 \<le> timeout" "length (padi_body d) \<le> 1502" "\<not> printACNames d" "\<not> persist d" "\<not> gone d"
  shows "padi_loop k timeout d = (if k + 1 > MAX_PADI_ATTEMPTS then Some d else padi_loop (k + 1) (2 * timeout)
    (tried (discoverySocket (dconn d), disc_frame (Mac 0xFF 0xFF 0xFF 0xFF 0xFF 0xFF) (myEth (dconn d)) CODE_PADI (padi_body d)) STATE_SENT_PADI d))"
    (is "_ = (if _ then _ else padi_loop _ _ (tried ?f _ d))")
proof -
  have "waitForPADO timeout ((sent ?f d)\<lparr>discoveryState := STATE_SENT_PADI\<rparr>) = Some (tried ?f STATE_SENT_PADI d)"
    using silent_wait [of "(sent ?f d)\<lparr>discoveryState := STATE_SENT_PADI\<rparr>" timeout] assms(1,2)
    by (simp add: waitForPADO_def silent_def sent_def tried_def)
  then show ?thesis
    using assms(4-6) by (subst padi_loop.simps) (simp add: sendPADI_ok [OF assms(3)] Let_def)
qed

lemma padr_try:
  assumes "silent d" "1 \<le> timeout" "length (padr_body d) \<le> 1502" "saved_ok (cookie (dconn d))" "saved_ok (relayId (dconn d))"
    "\<not> persist d" "\<not> gone d"
  shows "padr_loop k timeout d = (if k + 1 > MAX_PADI_ATTEMPTS then Some (Inl d) else padr_loop (k + 1) (2 * timeout)
    (tried (discoverySocket (dconn d), disc_frame (peerEth (dconn d)) (myEth (dconn d)) CODE_PADR (padr_body d)) STATE_SENT_PADR d))"
    (is "_ = (if _ then _ else padr_loop _ _ (tried ?f _ d))")
proof -
  have "waitForPADS timeout ((sent ?f d)\<lparr>discoveryState := STATE_SENT_PADR\<rparr>) = Some (tried ?f STATE_SENT_PADR d)"
    using silent_wait [of "(sent ?f d)\<lparr>discoveryState := STATE_SENT_PADR\<rparr>" timeout] assms(1,2)
    by (simp add: waitForPADS_def silent_def sent_def tried_def)
  then show ?thesis
    using assms(6,7) by (subst padr_loop.simps) (simp add: sendPADR_ok [OF assms(3-5)] Let_def)
qed


definition ex_silent :: discovery where
  "ex_silent = ex_disc\<lparr>inbox := \<lambda>_. Quiet, wall := \<lambda>n. TV (1000 * (int n div 2)) 0\<rparr>"


end
