(* ===== verification/Pppoe_Server.thy ===== *)
theory Pppoe_Server
  imports Pppoe_Discovery Md5 Chain
begin

text \<open>
  The PPPoE server, \<open>pppoe-server.c\<close>: its session slots, the discovery packets it answers, the children it forks and
  what they start, and the commands that drain it.

  Pointers to sessions and interfaces are indexes into \<open>Sessions\<close> and \<open>interfaces\<close>. A system call's
  result is an argument or a function of how many calls were made; frames sent, signals sent and the children waited for
  are recorded. \<open>Eth_PPPOE_Discovery\<close> has its default value. Children of the server are values of their own:
  a fork gives the parent's next state and the child with the frames it sends and the program it becomes.
  Copies of strings are taken to succeed. Messages for the log are left out.
\<close>

section \<open>State\<close>

datatype ipv4 = IP u8 u8 u8 u8

datatype drain = DRAIN_OFF | DRAIN_ON | DRAIN_QUIT

record iface =
  if_name :: byte_buf
  if_sock :: int
  if_mac :: mac
  if_mtu :: u16

text \<open>\<open>ClientSession\<close>; \<open>cs_sess\<close> is in network order.\<close>

record client_session =
  cs_next :: ptr
  cs_pid :: int
  cs_ethif :: "nat option"
  cs_myip :: ipv4
  cs_peerip :: ipv4
  cs_sess :: u16
  cs_eth :: mac
  cs_flags :: u32
  cs_startTime :: int
  cs_serviceName :: "byte_buf option"
  cs_requested_mtu :: u16

record server =
  Sessions :: "client_session list"
  FreeSessions :: ptr
  LastFreeSession :: ptr
  BusySessions :: ptr
  NumSessionSlots :: nat
  NumActiveSessions :: nat
  SessOffset :: nat
  MaxSessionsPerMac :: int
  interfaces :: "iface list"
  draining :: drain
  ServiceNames :: "byte_buf list"
  IgnorePADIIfNoFreeSessions :: bool
  ACName :: byte_buf
  CookieSeed :: byte_buf
  getpid :: u32
  LocalIP :: ipv4
  RemoteIP :: ipv4
  IncrLocalIP :: bool
  max_ppp_payload :: u16
  reqHostUniq :: ptag
  reqRelayId :: ptag
  receivedCookie :: ptag
  requestedService :: ptag
  time_at :: "nat \<Rightarrow> int"
  times_asked :: nat
  srv_wire :: "(int \<times> byte_buf) list"
  killed :: "int list"
  children :: "(int \<times> nat) list"
  srv_exited :: "nat option"

text \<open>The options that only what a child starts depends on.\<close>

record pppd_config =
  UseLinuxKernelModePPPoE :: bool
  plugin_path :: byte_buf
  pppd_path :: byte_buf
  pppoe_path :: byte_buf
  PppoeOptions :: byte_buf
  Synchronous :: bool
  pppoptfile :: byte_buf
  PassUnitOptionToPPPD :: bool
  motd_string :: "byte_buf option"
  hurl_string :: "byte_buf option"

abbreviation (input) "TAG_PPP_MAX_PAYLOAD \<equiv> (0x0120 :: u16)"
abbreviation (input) "TAG_HURL \<equiv> (0x0111 :: u16)"
abbreviation (input) "TAG_MOTM \<equiv> (0x0112 :: u16)"
abbreviation (input) "CODE_PADM \<equiv> (0xD3 :: u8)"
abbreviation (input) "ETH_PPPOE_MTU \<equiv> (1492 :: u16)"
abbreviation (input) "COOKIE_LEN \<equiv> (20 :: nat)"
abbreviation (input) "SMALLBUF \<equiv> (256 :: nat)"
abbreviation (input) "FLAG_RECVD_PADT \<equiv> (1 :: u32)"
abbreviation (input) "FLAG_SENT_PADT \<equiv> (8 :: u32)"

definition no_mac :: mac where "no_mac = Mac 0 0 0 0 0 0"
definition no_tag :: ptag where "no_tag = \<lparr>tag_type = 0, tag_length = 0, tag_payload = []\<rparr>"

definition get_s :: "server \<Rightarrow> nat \<Rightarrow> client_session option" where
  "get_s v i = arr_get (Sessions v) i"

definition upd_s :: "server \<Rightarrow> nat \<Rightarrow> (client_session \<Rightarrow> client_session) \<Rightarrow> server option" where
  "upd_s v i f = do { ss \<leftarrow> arr_upd (Sessions v) i f; Some (v\<lparr>Sessions := ss\<rparr>) }"

definition ask_time :: "server \<Rightarrow> int \<times> server" where
  "ask_time v = (time_at v (times_asked v), v\<lparr>times_asked := times_asked v + 1\<rparr>)"

section \<open>Session slots\<close>

definition pppoe_alloc_session :: "server \<Rightarrow> (nat option \<times> server) option" where
  "pppoe_alloc_session v = (case FreeSessions v of
     None \<Rightarrow> Some (None, v)
   | Some s \<Rightarrow> do {
       cl \<leftarrow> get_s v s;
       let v = (if LastFreeSession v = Some s then v\<lparr>LastFreeSession := None\<rparr> else v);
       let v = v\<lparr>FreeSessions := cs_next cl\<rparr>;
       v \<leftarrow> upd_s v s (\<lambda>x. x\<lparr>cs_next := BusySessions v\<rparr>);
       let v = v\<lparr>BusySessions := Some s\<rparr>;
       let (now, v) = ask_time v;
       v \<leftarrow> upd_s v s (\<lambda>x. x\<lparr>cs_pid := 0, cs_ethif := None, cs_eth := no_mac, cs_flags := 0, cs_startTime := now,
              cs_serviceName := Some [], cs_requested_mtu := 0\<rparr>);
       Some (Some s, v\<lparr>NumActiveSessions := NumActiveSessions v + 1\<rparr>) })"

text \<open>The search for a session on the busy list: the node before it, or \<open>None\<close> when it is not there.\<close>

partial_function (option) find_busy :: "server \<Rightarrow> nat \<Rightarrow> ptr \<Rightarrow> ptr \<Rightarrow> ptr option option" where
  "find_busy v s cur prev = (case cur of
     None \<Rightarrow> Some None
   | Some c \<Rightarrow> if c = s then Some (Some prev) else do { cl \<leftarrow> get_s v c; find_busy v s (cs_next cl) (Some c) })"

definition pppoe_free_session :: "server \<Rightarrow> nat \<Rightarrow> (int \<times> server) option" where
  "pppoe_free_session v s = do {
     r \<leftarrow> find_busy v s (BusySessions v) None;
     case r of None \<Rightarrow> Some (-1, v) | Some prev \<Rightarrow> do {
     cl \<leftarrow> get_s v s;
     v \<leftarrow> (case prev of
            Some p \<Rightarrow> upd_s v p (\<lambda>x. x\<lparr>cs_next := cs_next cl\<rparr>)
          | None \<Rightarrow> Some (v\<lparr>BusySessions := cs_next cl\<rparr>));
     v \<leftarrow> upd_s v s (\<lambda>x. x\<lparr>cs_next := None\<rparr>);
     v \<leftarrow> (case LastFreeSession v of
            Some l \<Rightarrow> do { v \<leftarrow> upd_s v l (\<lambda>x. x\<lparr>cs_next := Some s\<rparr>); Some (v\<lparr>LastFreeSession := Some s\<rparr>) }
          | None \<Rightarrow> Some (v\<lparr>FreeSessions := Some s, LastFreeSession := Some s\<rparr>));
     v \<leftarrow> upd_s v s (\<lambda>x. x\<lparr>cs_pid := 0, cs_eth := no_mac, cs_flags := 0\<rparr>);
     Some (0, v\<lparr>NumActiveSessions := NumActiveSessions v - 1\<rparr>) } }"

partial_function (option) count_from :: "server \<Rightarrow> mac \<Rightarrow> ptr \<Rightarrow> nat \<Rightarrow> nat option" where
  "count_from v eth p n = (case p of
     None \<Rightarrow> Some n
   | Some s \<Rightarrow> do { cl \<leftarrow> get_s v s; count_from v eth (cs_next cl) (if eth = cs_eth cl then n + 1 else n) })"

definition count_sessions_from_mac :: "server \<Rightarrow> mac \<Rightarrow> nat option" where
  "count_sessions_from_mac v eth = count_from v eth (BusySessions v) 0"

text \<open>The test both \<open>processPADI\<close> and \<open>processPADR\<close> make.\<close>

definition too_many :: "server \<Rightarrow> mac \<Rightarrow> bool option" where
  "too_many v eth =
     (if MaxSessionsPerMac v = 0 then Some False
      else do { n \<leftarrow> count_sessions_from_mac v eth; Some (int n \<ge> MaxSessionsPerMac v) })"

section \<open>Stopping sessions\<close>

text \<open>\<open>sendPADT\<close> for a connection structure that has only what the server sets in it.\<close>

definition session_padt :: "server \<Rightarrow> client_session \<Rightarrow> iface \<Rightarrow> string \<Rightarrow> server option" where
  "session_padt v cl eif reason = do {
     let c = \<lparr>discoverySocket = if_sock eif, sessionSocket = 0, myEth = if_mac eif, peerEth = cs_eth cl, session_id = cs_sess cl,
        synchronous = False, hostUniq = None, cookie = no_tag, relayId = no_tag\<rparr>;
     let st = \<lparr>conn = c, optClampMSS = 0, PPPState = STATE_WAITFOR_FRAME_ADDR, PPPPacketSize = 0, PPPXorValue = 0,
        spkt = disc_packet no_mac no_mac 0, send_rc = (\<lambda>_. SendOk), write_rc = (\<lambda>_. None), wire = srv_wire v, tty = [], errlog = [],
        exited = None\<rparr>;
     st \<leftarrow> sendPADT st (Some (msg_bytes reason));
     Some (v\<lparr>srv_wire := wire st\<rparr>) }"

definition ethif_of :: "server \<Rightarrow> client_session \<Rightarrow> iface option" where
  "ethif_of v cl = do { i \<leftarrow> cs_ethif cl; arr_get (interfaces v) i }"

definition PppoeStopSession :: "server \<Rightarrow> nat \<Rightarrow> string \<Rightarrow> server option" where
  "PppoeStopSession v s reason = do {
     cl \<leftarrow> get_s v s;
     eif \<leftarrow> ethif_of v cl;
     v \<leftarrow> session_padt v cl eif reason;
     v \<leftarrow> upd_s v s (\<lambda>x. x\<lparr>cs_flags := cs_flags x OR FLAG_SENT_PADT\<rparr>);
     Some (if cs_pid cl \<noteq> 0 then v\<lparr>killed := killed v @ [cs_pid cl]\<rparr> else v) }"

definition PppoeSessionIsActive :: "client_session \<Rightarrow> bool" where
  "PppoeSessionIsActive cl \<longleftrightarrow> cs_pid cl \<noteq> 0"

partial_function (option) stop_from :: "server \<Rightarrow> ptr \<Rightarrow> server option" where
  "stop_from v p = (case p of
     None \<Rightarrow> Some v
   | Some s \<Rightarrow> do {
       v \<leftarrow> PppoeStopSession v s ''Shutting Down'';
       cl \<leftarrow> get_s v s;
       stop_from v (cs_next cl) })"

definition killAllSessions :: "server \<Rightarrow> server option" where
  "killAllSessions v = stop_from v (BusySessions v)"

definition pppoe_terminate :: "server \<Rightarrow> server option" where
  "pppoe_terminate v = do { v \<leftarrow> killAllSessions v; Some (v\<lparr>srv_exited := Some 0\<rparr>) }"

definition childHandler :: "server \<Rightarrow> nat \<Rightarrow> server option" where
  "childHandler v s = do {
     cl \<leftarrow> get_s v s;
     eif \<leftarrow> ethif_of v cl;
     v \<leftarrow> (if cs_flags cl AND FLAG_SENT_PADT = 0 then do {
            v \<leftarrow> session_padt v cl eif (if cs_flags cl AND FLAG_RECVD_PADT \<noteq> 0 then ''RP-PPPoE: Received PADT from peer''
                                       else ''RP-PPPoE: Child pppd process terminated'');
            upd_s v s (\<lambda>x. x\<lparr>cs_flags := cs_flags x OR FLAG_SENT_PADT\<rparr>) }
          else Some v);
     v \<leftarrow> upd_s v s (\<lambda>x. x\<lparr>cs_serviceName := Some []\<rparr>);
     (rc, v) \<leftarrow> pppoe_free_session v s;
     Some v }"

text \<open>
  The table of children (\<open>libevent/event_sig.c\<close>): an entry is put in front; a child that has died is looked up by its
  process id, its entry is removed and its handler is called.
\<close>

definition Event_HandleChildExit :: "server \<Rightarrow> int \<Rightarrow> nat \<Rightarrow> server" where
  "Event_HandleChildExit v pid s = v\<lparr>children := (pid, s) # children v\<rparr>"

definition child_handler :: "server \<Rightarrow> int \<Rightarrow> server option" where
  "child_handler v pid = (case map_of (children v) pid of
     None \<Rightarrow> Some v
   | Some s \<Rightarrow> childHandler (v\<lparr>children := remove1 (pid, s) (children v)\<rparr>) s)"

section \<open>Tags of a request\<close>

text \<open>\<open>memcpy\<close> of two bytes, then \<open>ntohs\<close>.\<close>

definition read_max_payload :: "byte_buf \<Rightarrow> u16 option" where
  "read_max_payload data = (case data of
     a # b # _ \<Rightarrow> Some (let m = ntohs (join16 b a) in if m \<le> ETH_PPPOE_MTU then 0 else m) | _ \<Rightarrow> None)"

definition parsePADITags :: "u16 \<Rightarrow> u16 \<Rightarrow> byte_buf \<Rightarrow> server \<Rightarrow> server" where
  "parsePADITags type len data v =
     (if type = TAG_PPP_MAX_PAYLOAD then
        (if len = 2 then (case read_max_payload data of Some m \<Rightarrow> v\<lparr>max_ppp_payload := m\<rparr> | None \<Rightarrow> v) else v)
      else if type = TAG_SERVICE_NAME then v\<lparr>requestedService := saved type len data\<rparr>
      else if type = TAG_RELAY_SESSION_ID then v\<lparr>reqRelayId := saved type len data\<rparr>
      else if type = TAG_HOST_UNIQ then v\<lparr>reqHostUniq := saved type len data\<rparr>
      else v)"

definition parsePADRTags :: "u16 \<Rightarrow> u16 \<Rightarrow> byte_buf \<Rightarrow> server \<Rightarrow> server" where
  "parsePADRTags type len data v =
     (if type = TAG_AC_COOKIE then v\<lparr>receivedCookie := saved type len data\<rparr>
      else parsePADITags type len data v)"

definition genCookie :: "mac \<Rightarrow> mac \<Rightarrow> byte_buf \<Rightarrow> u32 \<Rightarrow> byte_buf option" where
  "genCookie peerEthAddr myEthAddr seed pid = do {
     ctx \<leftarrow> MD5Update MD5Init (mac_bytes peerEthAddr);
     ctx \<leftarrow> MD5Update ctx (mac_bytes myEthAddr);
     ctx \<leftarrow> MD5Update ctx (take 16 seed);
     (digest, ctx) \<leftarrow> MD5Final ctx;
     Some (digest @ le32_bytes pid) }"

text \<open>The service that is asked for, among those offered.\<close>

definition service_named :: "server \<Rightarrow> byte_buf option" where
  "service_named v =
     (let t = requestedService v; slen = unat (ntohs (tag_length t))
      in find (\<lambda>n. slen = length n \<and> take slen (tag_payload t) = n) (ServiceNames v))"

section \<open>Answers\<close>

definition srv_send :: "server \<Rightarrow> int \<Rightarrow> packet \<Rightarrow> byte_buf \<times> nat \<Rightarrow> server option" where
  "srv_send v sock p bc = (case bc of (buf, cursor) \<Rightarrow> do {
     let pl = (word_of_nat cursor :: u16);
     bs \<leftarrow> rd_bytes (frame_bytes (p\<lparr>payload := buf, plength := htons pl\<rparr>)) 0 (unat pl + HDR_SIZE);
     Some (v\<lparr>srv_wire := srv_wire v @ [(sock, bs)]\<rparr>) })"

text \<open>The payload size the interface allows; then the tag, when there is room.\<close>

definition shrink_payload :: "u16 \<Rightarrow> u16 \<Rightarrow> u16" where
  "shrink_payload mtu m =
     (let m = (if int (unat m) > int (unat mtu) - 8 then word_of_int (int (unat mtu) - 8) else m)
      in if m > 1500 then 1500 else m)"

definition max_payload_tag :: "iface \<Rightarrow> server \<Rightarrow> byte_buf \<times> nat \<Rightarrow> (server \<times> (byte_buf \<times> nat) option) option" where
  "max_payload_tag eif v bc =
     (if max_ppp_payload v > ETH_PPPOE_MTU \<and> if_mtu eif > 0 then do {
        let v = v\<lparr>max_ppp_payload := shrink_payload (if_mtu eif) (max_ppp_payload v)\<rparr>;
        if max_ppp_payload v > ETH_PPPOE_MTU then do {
          r \<leftarrow> put_tag True \<lparr>tag_type = htons TAG_PPP_MAX_PAYLOAD, tag_length = htons 2, tag_payload = be16_bytes (max_ppp_payload v)\<rparr> 2 bc;
          Some (v, r) }
        else Some (v, Some bc) }
      else Some (v, Some bc))"

text \<open>A tag that is copied without a look at the room left.\<close>

definition raw_tag :: "ptag \<Rightarrow> byte_buf \<times> nat \<Rightarrow> (byte_buf \<times> nat) option" where
  "raw_tag tag bc =
     (if tag_type tag \<noteq> 0 then do {
        r \<leftarrow> put_tag False tag (unat (ntohs (tag_length tag))) bc;
        r }
      else Some bc)"

definition sendErrorPADS :: "server \<Rightarrow> int \<Rightarrow> mac \<Rightarrow> mac \<Rightarrow> u16 \<Rightarrow> string \<Rightarrow> server option" where
  "sendErrorPADS v sock source dest errorTag errorMsg = do {
     let p = disc_packet dest source CODE_PADS;
     let m = msg_bytes errorMsg;
     r \<leftarrow> put_tag False \<lparr>tag_type = htons errorTag, tag_length = htons (word_of_nat (length m)), tag_payload = m\<rparr> (length m) (payload p, 0);
     bc \<leftarrow> r;
     bc \<leftarrow> raw_tag (reqRelayId v) bc;
     bc \<leftarrow> raw_tag (reqHostUniq v) bc;
     srv_send v sock p bc }"

fun service_tags :: "byte_buf list \<Rightarrow> byte_buf \<times> nat \<Rightarrow> (byte_buf \<times> nat) option option" where
  "service_tags [] bc = Some (Some bc)"
| "service_tags (n # ns) bc = do {
     r \<leftarrow> put_tag True \<lparr>tag_type = htons TAG_SERVICE_NAME, tag_length = htons (word_of_nat (length n)), tag_payload = n\<rparr> (length n) bc;
     case r of None \<Rightarrow> Some None | Some bc \<Rightarrow> service_tags ns bc }"

text \<open>Without services there is one with the empty name.\<close>

definition offered_services :: "server \<Rightarrow> byte_buf list" where
  "offered_services v = (if ServiceNames v = [] then [[]] else ServiceNames v)"

section \<open>Discovery packets\<close>

definition acname_tag :: "server \<Rightarrow> ptag" where
  "acname_tag v = \<lparr>tag_type = htons TAG_AC_NAME, tag_length = htons (word_of_nat (length (ACName v))), tag_payload = ACName v\<rparr>"

definition send_pado :: "server \<Rightarrow> iface \<Rightarrow> packet \<Rightarrow> server option" where
  "send_pado v eif packet = do {
     ck \<leftarrow> genCookie (h_source packet) (if_mac eif) (CookieSeed v) (getpid v);
     let p = disc_packet (h_source packet) (if_mac eif) CODE_PADO;
     r \<leftarrow> put_tag True (acname_tag v) (length (ACName v)) (payload p, 0);
     case r of None \<Rightarrow> Some v | Some bc \<Rightarrow> do {
     (v, r) \<leftarrow> max_payload_tag eif v bc;
     case r of None \<Rightarrow> Some v | Some bc \<Rightarrow> do {
     r \<leftarrow> service_tags (offered_services v) bc;
     case r of None \<Rightarrow> Some v | Some bc \<Rightarrow> do {
     r \<leftarrow> put_tag True \<lparr>tag_type = htons TAG_AC_COOKIE, tag_length = htons 20, tag_payload = ck\<rparr> COOKIE_LEN bc;
     case r of None \<Rightarrow> Some v | Some bc \<Rightarrow> do {
     r \<leftarrow> saved_tag (reqRelayId v) bc;
     case r of None \<Rightarrow> Some v | Some bc \<Rightarrow> do {
     r \<leftarrow> saved_tag (reqHostUniq v) bc;
     case r of None \<Rightarrow> Some v | Some bc \<Rightarrow> srv_send v (if_sock eif) p bc } } } } } }"

text \<open>\<open>acname.payload\<close> has 1500 bytes.\<close>

definition processPADI :: "server \<Rightarrow> iface \<Rightarrow> packet \<Rightarrow> server option" where
  "processPADI v eif packet =
     (if draining v \<noteq> DRAIN_OFF then Some v
      else if NOT_UNICAST (h_source packet) then Some v
      else if IgnorePADIIfNoFreeSessions v \<and> FreeSessions v = None then Some v
      else do {
        many \<leftarrow> too_many v (h_source packet);
        if many then Some v
        else if length (ACName v) > ETH_DATA_LEN then None
        else do {
          let v = v\<lparr>reqRelayId := (reqRelayId v)\<lparr>tag_type := 0\<rparr>, reqHostUniq := (reqHostUniq v)\<lparr>tag_type := 0\<rparr>,
                requestedService := (requestedService v)\<lparr>tag_type := 0\<rparr>, max_ppp_payload := 0\<rparr>;
          (rc, v) \<leftarrow> parsePacket packet parsePADITags v;
          if tag_type (requestedService v) \<noteq> 0 \<and> ntohs (tag_length (requestedService v)) \<noteq> 0 \<and> service_named v = None
          then Some v
          else send_pado v eif packet } })"

text \<open>The index is computed without sign: a number below the first session gives one that is too large.\<close>

definition session_slot :: "server \<Rightarrow> u16 \<Rightarrow> nat option" where
  "session_slot v sess =
     (let i = int (unat (ntohs sess)) - 1 - int (SessOffset v)
      in if i < 0 \<or> i \<ge> int (NumSessionSlots v) then None else Some (nat i))"

definition processPADT :: "server \<Rightarrow> iface \<Rightarrow> packet \<Rightarrow> server option" where
  "processPADT v eif packet =
     (if h_dest packet \<noteq> if_mac eif then Some v
      else case session_slot v (psession packet) of
        None \<Rightarrow> Some v
      | Some i \<Rightarrow> do {
          cl \<leftarrow> get_s v i;
          if cs_sess cl \<noteq> psession packet then Some v
          else if h_source packet \<noteq> cs_eth cl then Some v
          else do {
            v \<leftarrow> upd_s v i (\<lambda>x. x\<lparr>cs_flags := cs_flags x OR FLAG_RECVD_PADT\<rparr>);
            (rc, log) \<leftarrow> parsePacket packet parseLogErrs [];
            PppoeStopSession v i ''Received PADT'' } })"

datatype fork_result = ForkFailed | Forked int bool \<comment> \<open>the child's process id, and whether the wait for it could be set up\<close>

text \<open>
  What a PADR is checked for: \<open>None\<close> is a fault, \<open>Some (Inl v)\<close> the end of the handling in state \<open>v\<close>, \<open>Some (Inr n)\<close> the
  service it gets.
\<close>

definition check_padr :: "server \<Rightarrow> iface \<Rightarrow> packet \<Rightarrow> (server + byte_buf) option" where
  "check_padr v eif packet = do {
     let t = receivedCookie v;
     if tag_type t = 0 then Some (Inl v)
     else if tag_length t \<noteq> htons 20 then Some (Inl v)
     else do {
       ck \<leftarrow> genCookie (h_source packet) (if_mac eif) (CookieSeed v) (getpid v);
       if take COOKIE_LEN (tag_payload t) \<noteq> ck then Some (Inl v)
       else if tag_type (requestedService v) = 0 then do {
         v \<leftarrow> sendErrorPADS v (if_sock eif) (if_mac eif) (h_source packet) TAG_SERVICE_NAME_ERROR ''RP-PPPoE: Server: No service name tag'';
         Some (Inl v) }
       else if ntohs (tag_length (requestedService v)) \<noteq> 0 then
         (case service_named v of
            Some n \<Rightarrow> Some (Inr n)
          | None \<Rightarrow> do {
              v \<leftarrow> sendErrorPADS v (if_sock eif) (if_mac eif) (h_source packet) TAG_SERVICE_NAME_ERROR
                    ''RP-PPPoE: Server: Invalid service name tag'';
              Some (Inl v) })
       else Some (Inr []) } }"

text \<open>The slot for an accepted PADR and the fork; the slot is given back when the fork fails.\<close>

definition open_session :: "server \<Rightarrow> nat \<Rightarrow> packet \<Rightarrow> byte_buf \<Rightarrow> fork_result \<Rightarrow> (server \<times> nat option) option" where
  "open_session v ethif packet name fork = do {
     eif \<leftarrow> arr_get (interfaces v) ethif;
     (s, v) \<leftarrow> pppoe_alloc_session v;
     case s of
       None \<Rightarrow> do {
         v \<leftarrow> sendErrorPADS v (if_sock eif) (if_mac eif) (h_source packet) TAG_AC_SYSTEM_ERROR
               ''RP-PPPoE: Server: No client slots available'';
         Some (v, None) }
     | Some s \<Rightarrow> do {
         let (now, v) = ask_time v;
         v \<leftarrow> upd_s v s (\<lambda>x. x\<lparr>cs_eth := h_source packet, cs_ethif := Some ethif, cs_flags := 0, cs_startTime := now,
                cs_serviceName := Some name\<rparr>);
         case fork of
           ForkFailed \<Rightarrow> do {
             v \<leftarrow> sendErrorPADS v (if_sock eif) (if_mac eif) (h_source packet) TAG_AC_SYSTEM_ERROR
                   ''RP-PPPoE: Server: Unable to start session process'';
             (rc, v) \<leftarrow> pppoe_free_session v s;
             Some (v, None) }
         | Forked child waited \<Rightarrow> do {
             w \<leftarrow> upd_s v s (\<lambda>x. x\<lparr>cs_pid := child\<rparr>);
             Some (if waited then Event_HandleChildExit w child s else w, Some s) } } }"

text \<open>The result is the parent's next state, and the slot the child works for when there is one.\<close>

definition processPADR :: "server \<Rightarrow> nat \<Rightarrow> packet \<Rightarrow> fork_result \<Rightarrow> (server \<times> nat option) option" where
  "processPADR v ethif packet fork = do {
     eif \<leftarrow> arr_get (interfaces v) ethif;
     let v = v\<lparr>reqRelayId := (reqRelayId v)\<lparr>tag_type := 0\<rparr>, reqHostUniq := (reqHostUniq v)\<lparr>tag_type := 0\<rparr>,
           receivedCookie := (receivedCookie v)\<lparr>tag_type := 0\<rparr>, requestedService := (requestedService v)\<lparr>tag_type := 0\<rparr>\<rparr>;
     if h_dest packet \<noteq> if_mac eif then Some (v, None)
     else if NOT_UNICAST (h_source packet) then Some (v, None)
     else do {
       many \<leftarrow> too_many v (h_source packet);
       if many then Some (v, None)
       else do {
         (rc, v) \<leftarrow> parsePacket packet parsePADRTags (v\<lparr>max_ppp_payload := 0\<rparr>);
         r \<leftarrow> check_padr v eif packet;
         case r of Inl v \<Rightarrow> Some (v, None) | Inr name \<Rightarrow> open_session v ethif packet name fork } } }"

definition serverProcessPacket :: "server \<Rightarrow> nat \<Rightarrow> recv_result \<Rightarrow> fork_result \<Rightarrow> (server \<times> nat option) option" where
  "serverProcessPacket v ethif r fork = (case r of
     RecvErr \<Rightarrow> Some (v, None)
   | Recv p len \<Rightarrow>
       if len < int HDR_SIZE then Some (v, None)
       else if PPPOE_VER (vertype p) \<noteq> 1 \<or> PPPOE_TYPE (vertype p) \<noteq> 1 then Some (v, None)
       else if int (plen p) + int HDR_SIZE > len then Some (v, None)
       else if pcode p = CODE_PADI then do { eif \<leftarrow> arr_get (interfaces v) ethif; v \<leftarrow> processPADI v eif p; Some (v, None) }
       else if pcode p = CODE_PADR then processPADR v ethif p fork
       else if pcode p = CODE_PADT then do { eif \<leftarrow> arr_get (interfaces v) ethif; v \<leftarrow> processPADT v eif p; Some (v, None) }
       else Some (v, None))"

end
