(* ===== verification/Pppoe_Server_Main.thy ===== *)
theory Pppoe_Server_Main
  imports Pppoe_Server
begin

text \<open>
  The rest of \<open>pppoe-server.c\<close>: what a child does after the fork, the address pool and the table of sessions \<open>main\<close>
  sets up, the commands of the control socket, and the loop as a sequence of events.
\<close>

section \<open>The child\<close>

text \<open>What it sends and what it executes; without the latter it has returned to the server's loop.\<close>

record child =
  kid_wire :: "(int \<times> byte_buf) list"
  kid_exec :: "(byte_buf \<times> byte_buf list) option"

definition hex_digit :: "u8 \<Rightarrow> u8" where
  "hex_digit d = (if d < 10 then 0x30 + d else 0x57 + d)"

definition fmt_02x :: "u8 \<Rightarrow> byte_buf" where
  "fmt_02x b = [hex_digit (drop_bit 4 b), hex_digit (b AND 0xF)]"

fun fmt_mac :: "mac \<Rightarrow> byte_buf" where
  "fmt_mac (Mac a b c d e f) = fmt_02x a @ [0x3A] @ fmt_02x b @ [0x3A] @ fmt_02x c @ [0x3A] @ fmt_02x d @ [0x3A] @ fmt_02x e @ [0x3A] @ fmt_02x f"

fun ipIsNull :: "ipv4 \<Rightarrow> bool" where
  "ipIsNull (IP a b c d) \<longleftrightarrow> a = 0 \<and> b = 0 \<and> c = 0 \<and> d = 0"

fun fmt_ip :: "ipv4 \<Rightarrow> byte_buf" where
  "fmt_ip (IP a b c d) = fmt_d (unat a) @ [0x2E] @ fmt_d (unat b) @ [0x2E] @ fmt_d (unat c) @ [0x2E] @ fmt_d (unat d)"

definition makePPPDIpArg :: "ipv4 \<Rightarrow> ipv4 \<Rightarrow> byte_buf" where
  "makePPPDIpArg localip remoteip =
     (if ipIsNull localip then [] else fmt_ip localip) @ [0x3A] @ (if ipIsNull remoteip then [] else fmt_ip remoteip)"

text \<open>\<open>snprintf\<close> into an array of \<open>n\<close> bytes, and the copy of it.\<close>

definition bounded :: "nat \<Rightarrow> byte_buf \<Rightarrow> byte_buf" where
  "bounded n s = take (n - 1) s"

definition session_text :: "client_session \<Rightarrow> byte_buf" where
  "session_text cl = fmt_d (unat (ntohs (cs_sess cl))) @ [0x3A] @ fmt_mac (cs_eth cl)"

definition startPPPD :: "server \<Rightarrow> pppd_config \<Rightarrow> client_session \<Rightarrow> iface \<Rightarrow> byte_buf \<times> byte_buf list" where
  "startPPPD v g cl eif =
     (let name = (case cs_serviceName cl of None \<Rightarrow> [] | Some n \<Rightarrow> n);
          mode = (if UseLinuxKernelModePPPoE g
            then [msg_bytes ''plugin'', plugin_path g, bounded SMALLBUF (msg_bytes ''nic-'' @ if_name eif),
                  msg_bytes ''rp_pppoe_sess'', bounded SMALLBUF (session_text cl), msg_bytes ''rp_pppoe_service'', name]
            else [msg_bytes ''pty'', bounded (2 * SMALLBUF) (pppoe_path g @ msg_bytes '' -n -I '' @ if_name eif @ msg_bytes '' -e '' @
                    session_text cl @ PppoeOptions g @ msg_bytes '' -S '' @ [0x27] @ name @ [0x27])] @
                 (if Synchronous g then [msg_bytes ''sync''] else []));
          unit = (if PassUnitOptionToPPPD g
            then [msg_bytes ''unit'', fmt_d (unat (ntohs (cs_sess cl)) - 1 - SessOffset v)] else []);
          mru = (if cs_requested_mtu cl > 1492 then fmt_d (unat (cs_requested_mtu cl)) else msg_bytes ''1492'')
      in (pppd_path g, [msg_bytes ''pppd''] @ mode @ [msg_bytes ''file'', pppoptfile g, makePPPDIpArg (cs_myip cl) (cs_peerip cl),
            msg_bytes ''nodetach'', msg_bytes ''noaccomp'', msg_bytes ''nopcomp'', msg_bytes ''default-asyncmap'',
            msg_bytes ''remotenumber'', bounded SMALLBUF (fmt_mac (cs_eth cl))] @ unit @
            [msg_bytes ''mru'', mru, msg_bytes ''mtu'', mru]))"

definition has_prefix :: "string \<Rightarrow> byte_buf \<Rightarrow> bool" where
  "has_prefix s b \<longleftrightarrow> take (length s) b = msg_bytes s"

definition sendHURLorMOTM :: "server \<Rightarrow> client_session \<Rightarrow> iface \<Rightarrow> byte_buf \<Rightarrow> u16 \<Rightarrow> server option" where
  "sendHURLorMOTM v cl eif url tag =
     (if cs_sess cl = 0 then Some v
      else if if_sock eif < 0 then Some v
      else if tag = TAG_HURL \<and> \<not> has_prefix ''http://'' url \<and> \<not> has_prefix ''https://'' url then Some v
      else if length url > 256 then Some v
      else do {
        let tag = (if tag = TAG_HURL then tag else TAG_MOTM);
        let p = (disc_packet (cs_eth cl) (if_mac eif) CODE_PADM)\<lparr>psession := cs_sess cl\<rparr>;
        r \<leftarrow> put_tag False \<lparr>tag_type = htons tag, tag_length = htons (word_of_nat (length url)), tag_payload = url\<rparr> (length url) (payload p, 0);
        bc \<leftarrow> r;
        srv_send v (if_sock eif) p bc })"

text \<open>
  The service name of a request without one is replaced by the first service; its length is not checked.
\<close>

definition pads_service :: "server \<Rightarrow> ptag option" where
  "pads_service v =
     (if ntohs (tag_length (requestedService v)) = 0 \<and> ServiceNames v \<noteq> [] then
        (let n = hd (ServiceNames v)
         in if length n > ETH_DATA_LEN then None
            else Some ((requestedService v)\<lparr>tag_payload := n, tag_length := htons (word_of_nat (length n))\<rparr>))
      else Some (requestedService v))"

definition announce :: "server \<Rightarrow> client_session \<Rightarrow> iface \<Rightarrow> byte_buf option \<Rightarrow> u16 \<Rightarrow> server option" where
  "announce v cl eif text tag = (case text of None \<Rightarrow> Some v | Some t \<Rightarrow> sendHURLorMOTM v cl eif t tag)"

definition padr_child :: "server \<Rightarrow> pppd_config \<Rightarrow> nat \<Rightarrow> packet \<Rightarrow> child option" where
  "padr_child v g s packet = do {
     cl \<leftarrow> get_s v s;
     eif \<leftarrow> ethif_of v cl;
     let p = (disc_packet (h_source packet) (if_mac eif) CODE_PADS)\<lparr>psession := cs_sess cl\<rparr>;
     let v = v\<lparr>srv_wire := []\<rparr>;
     tag \<leftarrow> pads_service v;
     r \<leftarrow> put_tag False tag (unat (ntohs (tag_length tag))) (payload p, 0);
     bc \<leftarrow> r;
     let asked = max_ppp_payload v > ETH_PPPOE_MTU \<and> if_mtu eif > 0;
     (v, r) \<leftarrow> max_payload_tag eif v bc;
     case r of None \<Rightarrow> Some \<lparr>kid_wire = [], kid_exec = None\<rparr> | Some bc \<Rightarrow> do {
     let cl = (if asked \<and> max_ppp_payload v > ETH_PPPOE_MTU then cl\<lparr>cs_requested_mtu := max_ppp_payload v\<rparr> else cl);
     bc \<leftarrow> raw_tag (reqRelayId v) bc;
     bc \<leftarrow> raw_tag (reqHostUniq v) bc;
     v \<leftarrow> srv_send v (if_sock eif) p bc;
     v \<leftarrow> announce v cl eif (hurl_string g) TAG_HURL;
     v \<leftarrow> announce v cl eif (motd_string g) TAG_MOTM;
     Some \<lparr>kid_wire = srv_wire v, kid_exec = Some (startPPPD v g cl eif)\<rparr> } }"

section \<open>Addresses\<close>

fun incrementIPAddress :: "ipv4 \<Rightarrow> ipv4" where
  "incrementIPAddress (IP a b c d) =
     (let d = d + 1; c = (if d = 0 then c + 1 else c); b = (if d = 0 \<and> c = 0 then b + 1 else b);
          a = (if d = 0 \<and> c = 0 \<and> b = 0 then a + 1 else a)
      in IP a b c d)"

text \<open>
  \<open>%u\<close> of \<open>sscanf\<close>: white space, a sign, digits; the value as \<open>strtoul\<close> gives it, at most \<open>2^64 - 1\<close>, cut to 32 bits.
\<close>

definition is_space :: "u8 \<Rightarrow> bool" where
  "is_space c \<longleftrightarrow> c = 0x20 \<or> (0x09 \<le> c \<and> c \<le> 0x0D)"

definition is_digit :: "u8 \<Rightarrow> bool" where
  "is_digit c \<longleftrightarrow> 0x30 \<le> c \<and> c \<le> 0x39"

definition digits_value :: "byte_buf \<Rightarrow> nat" where
  "digits_value ds = fold (\<lambda>c n. 10 * n + (unat c - 48)) ds 0"

definition scan_u :: "byte_buf \<Rightarrow> (u32 \<times> byte_buf) option" where
  "scan_u s =
     (let s = dropWhile is_space s;
          neg = (s \<noteq> [] \<and> hd s = 0x2D);
          s = (if s \<noteq> [] \<and> (hd s = 0x2D \<or> hd s = 0x2B) then tl s else s);
          ds = takeWhile is_digit s; n = digits_value ds
      in if ds = [] then None
         else Some (word_of_int (if n \<ge> 2 ^ 64 then -1 else if neg then - int n else int n), dropWhile is_digit s))"

text \<open>The numbers a format of \<open>%u\<close> separated by single characters reads.\<close>

fun scan_pattern :: "byte_buf \<Rightarrow> byte_buf \<Rightarrow> u32 list" where
  "scan_pattern seps s = (case scan_u s of
     None \<Rightarrow> []
   | Some (n, rest) \<Rightarrow> n # (case seps of
       [] \<Rightarrow> []
     | c # cs \<Rightarrow> (case rest of [] \<Rightarrow> [] | x # xs \<Rightarrow> if x = c then scan_pattern cs xs else [])))"

declare scan_pattern.simps [simp del]

datatype pool_line = Both ipv4 ipv4 | Range u32 u32 u32 u32 u32 | Remote ipv4 | Skipped

definition ip_of :: "u32 \<Rightarrow> u32 \<Rightarrow> u32 \<Rightarrow> u32 \<Rightarrow> ipv4" where
  "ip_of a b c d = IP (ucast a) (ucast b) (ucast c) (ucast d)"

definition pool_both :: "byte_buf \<Rightarrow> pool_line" where
  "pool_both line =
     (case scan_pattern [0x2E, 0x2E, 0x2E, 0x3A, 0x2E, 0x2E, 0x2E] line of
        [a, b, c, d, e, f, g, h] \<Rightarrow>
          if list_all (\<lambda>x. x < 256) [a, b, c, d, e, f, g, h] then Both (ip_of a b c d) (ip_of e f g h) else Skipped
      | _ \<Rightarrow> Skipped)"

definition pool_range :: "byte_buf \<Rightarrow> pool_line" where
  "pool_range line =
     (case scan_pattern [0x2E, 0x2E, 0x2E, 0x2D] line of
        [a, b, c, d, e] \<Rightarrow>
          if list_all (\<lambda>x. x < 256) [a, b, c, d, e] then (if e < d then Range a b c e d else Range a b c d e) else Skipped
      | _ \<Rightarrow> Skipped)"

definition pool_remote :: "byte_buf \<Rightarrow> pool_line" where
  "pool_remote line =
     (case scan_pattern [0x2E, 0x2E, 0x2E] line of
        [a, b, c, d] \<Rightarrow> if list_all (\<lambda>x. x < 256) [a, b, c, d] then Remote (ip_of a b c d) else Skipped
      | _ \<Rightarrow> Skipped)"

text \<open>The three formats are tried in turn.\<close>

definition read_pool_line :: "byte_buf \<Rightarrow> pool_line" where
  "read_pool_line line =
     (if pool_both line \<noteq> Skipped then pool_both line
      else if pool_range line \<noteq> Skipped then pool_range line
      else pool_remote line)"

text \<open>The loop over a range, for the addresses \<open>ds\<close> it runs through.\<close>

fun install_range :: "u32 \<Rightarrow> u32 \<Rightarrow> u32 \<Rightarrow> u32 list \<Rightarrow> server \<times> nat \<Rightarrow> (server \<times> nat) option" where
  "install_range a b c [] vn = Some vn"
| "install_range a b c (d # ds) (v, n) = do {
     v \<leftarrow> upd_s v n (\<lambda>x. x\<lparr>cs_peerip := ip_of a b c d\<rparr>);
     install_range a b c ds (v, n + 1) }"

definition range_from :: "u32 \<Rightarrow> u32 \<Rightarrow> u32 list" where
  "range_from d e = map word_of_nat [unat d ..< unat e + 1]"

definition pool_step :: "bool \<Rightarrow> pool_line \<Rightarrow> server \<times> nat \<Rightarrow> (server \<times> nat) option" where
  "pool_step install l vn = (case vn of (v, n) \<Rightarrow>
     (case l of
        Skipped \<Rightarrow> Some (v, n)
      | Both me peer \<Rightarrow> do {
          v \<leftarrow> (if install then upd_s v n (\<lambda>x. x\<lparr>cs_myip := me, cs_peerip := peer\<rparr>) else Some v);
          Some (v, n + 1) }
      | Range a b c d e \<Rightarrow>
          if install then install_range a b c (range_from d e) (v, n) else Some (v, n + (unat e - unat d + 1))
      | Remote peer \<Rightarrow> do {
          v \<leftarrow> (if install then upd_s v n (\<lambda>x. x\<lparr>cs_peerip := peer\<rparr>) else Some v);
          Some (v, n + 1) }))"

fun pool_steps :: "bool \<Rightarrow> byte_buf list \<Rightarrow> server \<times> nat \<Rightarrow> (server \<times> nat) option" where
  "pool_steps install [] vn = Some vn"
| "pool_steps install (l # ls) vn = do { vn \<leftarrow> pool_step install (read_pool_line l) vn; pool_steps install ls vn }"

text \<open>The lines are what \<open>fgets\<close> delivers. A pool without an address ends the server.\<close>

definition parseAddressPool :: "server \<Rightarrow> byte_buf list \<Rightarrow> bool \<Rightarrow> (server \<times> nat) option" where
  "parseAddressPool v ls install = do {
     (v, n) \<leftarrow> pool_steps install ls (v, 0);
     Some (if n = 0 then v\<lparr>srv_exited := Some 1\<rparr> else v, n) }"

section \<open>The table of sessions (main)\<close>

definition empty_session :: client_session where
  "empty_session = \<lparr>cs_next = None, cs_pid = 0, cs_ethif = None, cs_myip = IP 0 0 0 0, cs_peerip = IP 0 0 0 0, cs_sess = 0,
     cs_eth = no_mac, cs_flags = 0, cs_startTime = 0, cs_serviceName = None, cs_requested_mtu = 0\<rparr>"

fun fill_local :: "nat list \<Rightarrow> server \<Rightarrow> server option" where
  "fill_local [] v = Some v"
| "fill_local (i # is) v = do {
     v \<leftarrow> upd_s v i (\<lambda>x. x\<lparr>cs_myip := LocalIP v\<rparr>);
     fill_local is (if IncrLocalIP v then v\<lparr>LocalIP := incrementIPAddress (LocalIP v)\<rparr> else v) }"

fun number_sessions :: "bool \<Rightarrow> nat list \<Rightarrow> server \<Rightarrow> server option" where
  "number_sessions pool [] v = Some v"
| "number_sessions pool (i # is) v = do {
     v \<leftarrow> upd_s v i (\<lambda>x. x\<lparr>cs_pid := 0, cs_sess := htons (word_of_nat (i + 1 + SessOffset v))\<rparr>);
     v \<leftarrow> (if \<not> pool \<and> \<not> ipIsNull (RemoteIP v) then do {
            v \<leftarrow> upd_s v i (\<lambda>x. x\<lparr>cs_peerip := RemoteIP v\<rparr>);
            Some (v\<lparr>RemoteIP := incrementIPAddress (RemoteIP v)\<rparr>) }
          else Some v);
     number_sessions pool is v }"

text \<open>The exchanges that randomise the order; \<open>rands i\<close> is what \<open>rand\<close> gives in round \<open>i\<close>.\<close>

fun shuffle_rounds :: "(nat \<Rightarrow> nat) \<Rightarrow> nat list \<Rightarrow> nat list \<Rightarrow> nat list option" where
  "shuffle_rounds rands [] ps = Some ps"
| "shuffle_rounds rands (i # is) ps = do {
     let j = i + rands i mod (length ps - i);
     ps \<leftarrow> (if j \<noteq> i then do {
             tmp \<leftarrow> arr_get ps j;
             a \<leftarrow> arr_get ps i;
             ps \<leftarrow> arr_upd ps j (\<lambda>_. a);
             arr_upd ps i (\<lambda>_. tmp) }
           else Some ps);
     shuffle_rounds rands is ps }"

definition permutation :: "nat \<Rightarrow> (nat \<Rightarrow> nat) option \<Rightarrow> nat list option" where
  "permutation n rands = (case rands of None \<Rightarrow> Some [0..<n] | Some r \<Rightarrow> shuffle_rounds r [0..<n - 1] [0..<n])"

fun link_sessions :: "nat list \<Rightarrow> server \<Rightarrow> server option" where
  "link_sessions (p # q # ps) v = do { v \<leftarrow> upd_s v p (\<lambda>x. x\<lparr>cs_next := Some q\<rparr>); link_sessions (q # ps) v }"
| "link_sessions [p] v = upd_s v p (\<lambda>x. x\<lparr>cs_next := None\<rparr>)"
| "link_sessions [] v = None"

definition setup_sessions :: "server \<Rightarrow> byte_buf list option \<Rightarrow> (nat \<Rightarrow> nat) option \<Rightarrow> server option" where
  "setup_sessions v pool rands = do {
     v \<leftarrow> (case pool of None \<Rightarrow> Some v
          | Some ls \<Rightarrow> do { (v, n) \<leftarrow> parseAddressPool v ls False; Some (v\<lparr>NumSessionSlots := n\<rparr>) });
     if srv_exited v \<noteq> None then Some v
     else if NumSessionSlots v + SessOffset v > 65534 then Some (v\<lparr>srv_exited := Some 1\<rparr>)
     else do {
       let n = NumSessionSlots v;
       let v = v\<lparr>Sessions := replicate n empty_session\<rparr>;
       v \<leftarrow> fill_local [0..<n] v;
       v \<leftarrow> (case pool of None \<Rightarrow> Some v | Some ls \<Rightarrow> do { (v, k) \<leftarrow> parseAddressPool v ls True; Some v });
       v \<leftarrow> number_sessions (pool \<noteq> None) [0..<n] v;
       ps \<leftarrow> permutation n rands;
       v \<leftarrow> link_sessions ps v;
       Some (v\<lparr>FreeSessions := Some (hd ps), LastFreeSession := Some (last ps), BusySessions := None\<rparr>) } }"

section \<open>Commands of the control socket\<close>

definition handle_set_drain :: "server \<Rightarrow> byte_buf option \<Rightarrow> server" where
  "handle_set_drain v arg =
     (if arg = Some (msg_bytes ''off'') then v\<lparr>draining := DRAIN_OFF\<rparr>
      else if arg = Some (msg_bytes ''on'') then v\<lparr>draining := DRAIN_ON\<rparr>
      else if arg = Some (msg_bytes ''quit'') then v\<lparr>draining := DRAIN_QUIT\<rparr>
      else v)"

text \<open>
  The words of a status request, put together in an array of 64 bytes: the loop counts what \<open>snprintf\<close> would have
  written; then a blank at the end is taken off. \<open>None\<close> is the access before the array when there are no words.
\<close>

fun status_loop :: "byte_buf \<Rightarrow> nat \<Rightarrow> byte_buf list \<Rightarrow> byte_buf \<times> nat" where
  "status_loop opts wlen [] = (opts, wlen)"
| "status_loop opts wlen (w # ws) =
     (if wlen < 64 then
        (let t = w @ [0x20]; n = min (length t) (64 - wlen - 1)
         in status_loop (take wlen opts @ take n t @ [0] @ drop (wlen + n + 1) opts) (wlen + length t) ws)
      else (opts, wlen))"

definition status_words :: "byte_buf list \<Rightarrow> (byte_buf \<times> nat) option" where
  "status_words ws = (case status_loop (replicate 64 0) 0 ws of (opts, wlen) \<Rightarrow> do {
     let wlen = min wlen 64;
     c \<leftarrow> (if wlen = 0 then None else arr_get opts (wlen - 1));
     Some (opts, if c = 0x20 then wlen - 1 else wlen) })"

section \<open>The event loop\<close>

datatype server_event =
    Readable nat recv_result fork_result
  | ChildDied int
  | SetDrain "byte_buf option"
  | TermSignal

definition handle_event :: "server \<Rightarrow> server_event \<Rightarrow> server option" where
  "handle_event v ev = (case ev of
     Readable i r fork \<Rightarrow> do { (v, kid) \<leftarrow> serverProcessPacket v i r fork; Some v }
   | ChildDied pid \<Rightarrow> child_handler v pid
   | SetDrain arg \<Rightarrow> Some (handle_set_drain v arg)
   | TermSignal \<Rightarrow> pppoe_terminate v)"

definition server_step :: "server \<Rightarrow> server_event \<Rightarrow> server option" where
  "server_step v ev =
     (if srv_exited v \<noteq> None then Some v
      else do {
        v \<leftarrow> handle_event v ev;
        if srv_exited v = None \<and> draining v = DRAIN_QUIT \<and> NumActiveSessions v = 0 then pppoe_terminate v else Some v })"

fun server_run :: "server \<Rightarrow> server_event list \<Rightarrow> server option" where
  "server_run v [] = Some v"
| "server_run v (ev # evs) = do { v \<leftarrow> server_step v ev; server_run v evs }"

end
