(* ===== verification/Pppoe_Server_Props.thy ===== *)
theory Pppoe_Server_Props
  imports Pppoe_Server_Main Pppoe_Discovery_Props
begin

text \<open>
  The operations of the PPPoE server on a well-formed table: the free and the busy list share out the slots, a session in use
  has an interface, a child stands for one session at most, and no host has more sessions than it may. Each operation
  keeps this, and what it sends is given in terms of the tags of the packet it answers.
\<close>

section \<open>The two lists of sessions\<close>

definition nx :: "client_session list \<Rightarrow> nat \<Rightarrow> ptr" where
  "nx ss i = cs_next (ss ! i)"

lemma nx_upd [simp]: "i < length ss \<Longrightarrow> nx (ss[i := c]) = (nx ss)(i := cs_next c)"
  by (auto simp: nx_def fun_eq_iff nth_list_update)

lemma upd_s_Some [simp]:
  "i < length (Sessions v) \<Longrightarrow> upd_s v i f = Some (v\<lparr>Sessions := (Sessions v)[i := f (Sessions v ! i)]\<rparr>)"
  by (simp add: upd_s_def arr_upd_def)

lemma get_s_Some [simp]: "i < length (Sessions v) \<Longrightarrow> get_s v i = Some (Sessions v ! i)"
  by (simp add: get_s_def arr_get_def)

definition pool :: "server \<Rightarrow> nat list \<Rightarrow> nat list \<Rightarrow> bool" where
  "pool v free busy \<longleftrightarrow> length (Sessions v) = NumSessionSlots v \<and>
     slist (nx (Sessions v)) (FreeSessions v) free \<and> slist (nx (Sessions v)) (BusySessions v) busy \<and>
     distinct (free @ busy) \<and> set (free @ busy) = {..<NumSessionSlots v} \<and>
     LastFreeSession v = (if free = [] then None else Some (last free)) \<and> NumActiveSessions v = length busy"

lemma pool_free_head: "pool v free busy \<Longrightarrow> FreeSessions v = (case free of [] \<Rightarrow> None | s # _ \<Rightarrow> Some s)"
  by (cases free) (auto simp: pool_def)

lemma pool_slot: "pool v free busy \<Longrightarrow> s \<in> set free \<or> s \<in> set busy \<Longrightarrow> s < length (Sessions v)"
  by (auto simp: pool_def)

text \<open>Everything but the lists, and the data of a slot.\<close>

definition core :: "server \<Rightarrow> server" where
  "core v = v\<lparr>Sessions := [], FreeSessions := None, LastFreeSession := None, BusySessions := None, NumActiveSessions := 0, times_asked := 0\<rparr>"

definition slot_data :: "client_session \<Rightarrow> client_session" where
  "slot_data cl = cl\<lparr>cs_next := None\<rparr>"

definition fresh_slot :: "client_session \<Rightarrow> int \<Rightarrow> client_session" where
  "fresh_slot cl now = cl\<lparr>cs_next := None, cs_pid := 0, cs_ethif := None, cs_eth := no_mac, cs_flags := 0, cs_startTime := now,
     cs_serviceName := Some [], cs_requested_mtu := 0\<rparr>"

lemma alloc_none: "pool v [] busy \<Longrightarrow> pppoe_alloc_session v = Some (None, v)"
  by (simp add: pppoe_alloc_session_def pool_def)

lemma alloc_some:
  assumes "pool v (s # fs) busy"
  shows "\<exists>v'. pppoe_alloc_session v = Some (Some s, v') \<and> pool v' fs (s # busy) \<and> core v' = core v \<and>
    (\<forall>i. i \<noteq> s \<longrightarrow> Sessions v' ! i = Sessions v ! i) \<and> slot_data (Sessions v' ! s) = fresh_slot (Sessions v ! s) (time_at v (times_asked v))"
proof -
  have s: "s < length (Sessions v)" "FreeSessions v = Some s" using assms by (auto simp: pool_def)
  have l: "LastFreeSession v = (if fs = [] then Some s else Some (last fs))" "s \<notin> set fs" "s \<notin> set busy"
    using assms by (auto simp: pool_def)
  have last: "LastFreeSession v = Some s \<longleftrightarrow> fs = []" using l by (metis last_in_set option.inject)
  define c where "c = (Sessions v ! s)\<lparr>cs_next := BusySessions v, cs_pid := 0, cs_ethif := None, cs_eth := no_mac, cs_flags := 0,
     cs_startTime := time_at v (times_asked v), cs_serviceName := Some [], cs_requested_mtu := 0\<rparr>"
  define u where "u = (if fs = [] then v\<lparr>LastFreeSession := None\<rparr> else v)"
  define v' where "v' = u\<lparr>FreeSessions := cs_next (Sessions v ! s), BusySessions := Some s, times_asked := times_asked v + 1,
     Sessions := (Sessions v)[s := c], NumActiveSessions := NumActiveSessions v + 1\<rparr>"
  have u: "Sessions u = Sessions v" "BusySessions u = BusySessions v" "time_at u = time_at v" "times_asked u = times_asked v"
    "NumActiveSessions u = NumActiveSessions v" "NumSessionSlots u = NumSessionSlots v" by (simp_all add: u_def)
  have "pppoe_alloc_session v = Some (Some s, v')"
    using s by (simp add: pppoe_alloc_session_def last u_def [symmetric] u ask_time_def c_def v'_def)
  moreover have "pool v' fs (s # busy)"
    using assms s l(2,3) u by (auto simp: v'_def u_def pool_def c_def nx_def [symmetric])
  moreover have "core v' = core v" by (simp add: core_def v'_def u_def)
  moreover have "\<forall>i. i \<noteq> s \<longrightarrow> Sessions v' ! i = Sessions v ! i" by (simp add: v'_def)
  moreover have "slot_data (Sessions v' ! s) = fresh_slot (Sessions v ! s) (time_at v (times_asked v))"
    using s by (simp add: v'_def slot_data_def fresh_slot_def c_def)
  ultimately show ?thesis by blast
qed

lemma find_busy_at:
  "slist (nx (Sessions v)) cur (xs @ s # ys) \<Longrightarrow> s \<notin> set xs \<Longrightarrow> set xs \<subseteq> {..<length (Sessions v)} \<Longrightarrow>
   find_busy v s cur prev = Some (Some (if xs = [] then prev else Some (last xs)))"
proof (induction xs arbitrary: cur prev)
  case Nil
  then show ?case by (subst find_busy.simps) simp
next
  case (Cons x xs)
  then show ?case by (subst find_busy.simps) (auto simp: nx_def)
qed

lemma slist_unlink:
  assumes "slist f p (xs @ s # ys)"
  shows "slist (if xs = [] then f else f(last xs := f s)) (if xs = [] then f s else p) (xs @ ys)"
proof (cases xs rule: rev_cases)
  case (snoc zs z)
  have d: "distinct (zs @ z # s # ys)" using slist_distinct [OF assms] snoc by simp
  have "slist f p (zs @ z # s # ys) \<Longrightarrow> z \<notin> set zs \<Longrightarrow> z \<notin> set ys \<Longrightarrow> slist (f(z := f s)) p (zs @ z # ys)"
    by (induction zs arbitrary: p) auto
  then show ?thesis using assms d snoc by simp
qed (use assms in simp)

lemma slist_snoc:
  assumes "slist f p xs" "s \<notin> set xs"
  shows "slist (if xs = [] then f(s := None) else (f(s := None))(last xs := Some s)) (if xs = [] then Some s else p) (xs @ [s])"
proof (cases xs rule: rev_cases)
  case (snoc zs z)
  have "slist f p (zs @ [z]) \<Longrightarrow> z \<notin> set zs \<Longrightarrow> s \<notin> set zs \<Longrightarrow> s \<noteq> z \<Longrightarrow> slist ((f(s := None))(z := Some s)) p (zs @ [z, s])"
    by (induction zs arbitrary: p) auto
  then show ?thesis using assms snoc slist_distinct [OF assms(1)] by simp
qed simp

definition cleared :: "client_session \<Rightarrow> client_session" where
  "cleared cl = cl\<lparr>cs_next := None, cs_pid := 0, cs_eth := no_mac, cs_flags := 0\<rparr>"

text \<open>The links after a session was moved from the busy list to the end of the free list.\<close>

definition moved :: "(nat \<Rightarrow> ptr) \<Rightarrow> nat list \<Rightarrow> nat list \<Rightarrow> nat \<Rightarrow> nat \<Rightarrow> ptr" where
  "moved f free xs s =
     (let g = (if xs = [] then f else f(last xs := f s)); g = g(s := None) in if free = [] then g else g(last free := Some s))"

lemma moved_lists:
  assumes "slist f p free" "slist f q (xs @ s # ys)" "distinct (free @ xs @ s # ys)"
  shows "slist (moved f free xs s) (if free = [] then Some s else p) (free @ [s])"
    "slist (moved f free xs s) (if xs = [] then f s else q) (xs @ ys)"
proof -
  define g where "g = (if xs = [] then f else f(last xs := f s))"
  have n: "xs \<noteq> [] \<Longrightarrow> last xs \<notin> set free" "free \<noteq> [] \<Longrightarrow> last free \<notin> set (xs @ ys)" "s \<notin> set free" "s \<notin> set (xs @ ys)"
    using assms(3) last_in_set [of xs] last_in_set [of free] by (auto simp: disjoint_iff)
  have "slist g p free" using assms(1) n(1) by (auto simp: g_def)
  from slist_snoc [OF this n(3)] show "slist (moved f free xs s) (if free = [] then Some s else p) (free @ [s])"
    by (auto simp: moved_def g_def Let_def)
  have "slist g (if xs = [] then f s else q) (xs @ ys)" using slist_unlink [OF assms(2)] by (simp add: g_def)
  then show "slist (moved f free xs s) (if xs = [] then f s else q) (xs @ ys)"
    using n(2,4) by (auto simp: moved_def g_def Let_def simp del: fun_upd_apply)
qed

lemma free_some:
  assumes p: "pool v free busy" and s: "s \<in> set busy"
  shows "\<exists>v'. pppoe_free_session v s = Some (0, v') \<and> pool v' (free @ [s]) (remove1 s busy) \<and> core v' = core v \<and>
    times_asked v' = times_asked v \<and> (\<forall>i. i \<noteq> s \<longrightarrow> slot_data (Sessions v' ! i) = slot_data (Sessions v ! i)) \<and>
    slot_data (Sessions v' ! s) = slot_data (cleared (Sessions v ! s))"
proof -
  from s obtain xs ys where b: "busy = xs @ s # ys" "s \<notin> set xs" by (meson split_list_first)
  let ?ss = "Sessions v"
  have d: "distinct (free @ xs @ s # ys)" "set (free @ busy) = {..<length ?ss}" using p by (auto simp: pool_def b(1))
  have r: "remove1 s busy = xs @ ys" using b by (simp add: remove1_append)
  have len: "s < length ?ss" "xs \<noteq> [] \<Longrightarrow> last xs < length ?ss" "free \<noteq> [] \<Longrightarrow> last free < length ?ss"
    using pool_slot [OF p] b(1) last_in_set [of xs] last_in_set [of free] by simp_all
  have ne: "xs \<noteq> [] \<Longrightarrow> last xs \<noteq> s" "free \<noteq> [] \<Longrightarrow> last free \<noteq> s"
    using d(1) last_in_set [of xs] last_in_set [of free] by (metis Un_iff distinct_append in_set_conv_decomp set_append IntI empty_iff)+
  have sub: "set xs \<subseteq> {..<length ?ss}" using pool_slot [OF p] b(1) by auto
  have find: "find_busy v s (BusySessions v) None = Some (Some (if xs = [] then None else Some (last xs)))"
    using find_busy_at [of v "BusySessions v" xs s ys None] p b sub by (simp add: pool_def)
  define s1 where "s1 = (if xs = [] then ?ss else ?ss[last xs := (?ss ! last xs)\<lparr>cs_next := cs_next (?ss ! s)\<rparr>])"
  define s2 where "s2 = s1[s := (s1 ! s)\<lparr>cs_next := None\<rparr>]"
  define s3 where "s3 = (if free = [] then s2 else s2[last free := (s2 ! last free)\<lparr>cs_next := Some s\<rparr>])"
  define s4 where "s4 = s3[s := (s3 ! s)\<lparr>cs_pid := 0, cs_eth := no_mac, cs_flags := 0\<rparr>]"
  have ls: "length s1 = length ?ss" "length s2 = length ?ss" "length s3 = length ?ss" "length s4 = length ?ss"
    by (simp_all add: s1_def s2_def s3_def s4_def)
  define v' where "v' = v\<lparr>Sessions := s4, FreeSessions := (if free = [] then Some s else FreeSessions v),
     LastFreeSession := Some s, BusySessions := (if xs = [] then cs_next (?ss ! s) else BusySessions v),
     NumActiveSessions := NumActiveSessions v - 1\<rparr>"
  have last: "LastFreeSession v = (if free = [] then None else Some (last free))" using p by (simp add: pool_def)
  have "pppoe_free_session v s = Some (0, v')"
    using find len last ls
    by (cases "xs = []"; cases "free = []") (simp_all add: pppoe_free_session_def v'_def s1_def s2_def s3_def s4_def)
  moreover have nxs: "nx s4 = moved (nx ?ss) free xs s"
    using len ne ls by (auto simp: s4_def s3_def s2_def s1_def moved_def fun_eq_iff nx_def nth_list_update Let_def)
  moreover have "pool v' (free @ [s]) (xs @ ys)"
  proof -
    have "slist (nx ?ss) (FreeSessions v) free" "slist (nx ?ss) (BusySessions v) (xs @ s # ys)" using p b(1) by (simp_all add: pool_def)
    from moved_lists [OF this d(1)] show ?thesis
      using p d b(1) ls by (auto simp: v'_def pool_def nxs nx_def [of ?ss s])
  qed
  moreover have "core v' = core v" "times_asked v' = times_asked v" by (simp_all add: v'_def core_def)
  moreover have "\<forall>i. i \<noteq> s \<longrightarrow> slot_data (s4 ! i) = slot_data (?ss ! i)"
    using len by (auto simp: s4_def s3_def s2_def s1_def slot_data_def nth_list_update)
  moreover have "slot_data (s4 ! s) = slot_data (cleared (?ss ! s))"
    using len ls ne by (auto simp: s4_def s3_def s2_def s1_def slot_data_def cleared_def nth_list_update)
  ultimately show ?thesis unfolding r by (intro exI [of _ v']) (simp add: v'_def)
qed

lemma pool_cong:
  assumes "pool v free busy" "nx (Sessions v') = nx (Sessions v)" "length (Sessions v') = length (Sessions v)"
    "FreeSessions v' = FreeSessions v" "BusySessions v' = BusySessions v" "LastFreeSession v' = LastFreeSession v"
    "NumSessionSlots v' = NumSessionSlots v" "NumActiveSessions v' = NumActiveSessions v"
  shows "pool v' free busy"
  using assms by (simp add: pool_def)

lemma nx_same: "i < length ss \<Longrightarrow> cs_next c = cs_next (ss ! i) \<Longrightarrow> nx (ss[i := c]) = nx ss"
  by (auto simp: nx_def fun_eq_iff nth_list_update)

section \<open>Sessions of an address\<close>

definition from_mac :: "server \<Rightarrow> nat list \<Rightarrow> mac \<Rightarrow> nat" where
  "from_mac v busy eth = length (filter (\<lambda>s. cs_eth (Sessions v ! s) = eth) busy)"

lemma count_from_list:
  "slist (nx (Sessions v)) p xs \<Longrightarrow> set xs \<subseteq> {..<length (Sessions v)} \<Longrightarrow> count_from v eth p n = Some (n + from_mac v xs eth)"
proof (induction xs arbitrary: p n)
  case (Cons x xs)
  then show ?case by (subst count_from.simps) (auto simp: from_mac_def nx_def)
qed (subst count_from.simps, simp add: from_mac_def)

lemma too_many_eq:
  assumes "pool v free busy"
  shows "too_many v eth = Some (MaxSessionsPerMac v \<noteq> 0 \<and> MaxSessionsPerMac v \<le> int (from_mac v busy eth))"
proof -
  have "set busy \<subseteq> {..<length (Sessions v)}" using pool_slot [OF assms] by auto
  then have "count_sessions_from_mac v eth = Some (from_mac v busy eth)"
    using count_from_list [of v "BusySessions v" busy eth 0] assms by (simp add: count_sessions_from_mac_def pool_def)
  then show ?thesis by (simp add: too_many_def)
qed

section \<open>The invariant\<close>

definition slots_ok :: "server \<Rightarrow> nat list \<Rightarrow> bool" where
  "slots_ok v busy \<longleftrightarrow> (\<forall>s\<in>set busy. \<exists>e<length (interfaces v). cs_ethif (Sessions v ! s) = Some e) \<and>
     snd ` set (children v) \<subseteq> set busy \<and> distinct (map snd (children v)) \<and>
     (\<forall>s<NumSessionSlots v. s \<notin> set busy \<longrightarrow> cs_eth (Sessions v ! s) = no_mac) \<and>
     (0 < MaxSessionsPerMac v \<longrightarrow> (\<forall>eth. int (from_mac v busy eth) \<le> MaxSessionsPerMac v))"

definition config_ok :: "server \<Rightarrow> bool" where
  "config_ok v \<longleftrightarrow> length (ACName v) \<le> 1500 \<and> length (CookieSeed v) = 16 \<and> (\<forall>n\<in>set (ServiceNames v). length n < 65536)"

definition srv_inv :: "server \<Rightarrow> bool" where
  "srv_inv v \<longleftrightarrow> (\<exists>free busy. pool v free busy \<and> slots_ok v busy) \<and> 0 \<le> MaxSessionsPerMac v \<and> config_ok v"

definition holds :: "server option \<Rightarrow> bool" where
  "holds r \<longleftrightarrow> (\<exists>v. r = Some v \<and> srv_inv v)"

lemma holds_Some [simp]: "holds (Some v) = srv_inv v" by (simp add: holds_def)

lemma srv_invI:
  "pool v free busy \<Longrightarrow> slots_ok v busy \<Longrightarrow> 0 \<le> MaxSessionsPerMac v \<Longrightarrow> config_ok v \<Longrightarrow> srv_inv v"
  unfolding srv_inv_def by blast

lemma srv_invE:
  assumes "srv_inv v"
  obtains free busy where "pool v free busy" "slots_ok v busy" "0 \<le> MaxSessionsPerMac v" "config_ok v"
  using assms unfolding srv_inv_def by blast

lemma holds_bind: "holds r \<Longrightarrow> (\<And>v. srv_inv v \<Longrightarrow> holds (f v)) \<Longrightarrow> holds (do { v \<leftarrow> r; f v })"
  by (auto simp: holds_def)

text \<open>What the invariant does not depend on.\<close>

definition static :: "server \<Rightarrow> server" where
  "static v = (core v)\<lparr>max_ppp_payload := 0, reqHostUniq := no_tag, reqRelayId := no_tag, receivedCookie := no_tag, requestedService := no_tag,
     srv_wire := [], killed := [], srv_exited := None, draining := DRAIN_OFF\<rparr>"

lemma staticD:
  assumes "static v' = static v"
  shows "interfaces v' = interfaces v" "children v' = children v" "MaxSessionsPerMac v' = MaxSessionsPerMac v" "ACName v' = ACName v"
    "NumSessionSlots v' = NumSessionSlots v" "ServiceNames v' = ServiceNames v" "CookieSeed v' = CookieSeed v" "getpid v' = getpid v"
    "SessOffset v' = SessOffset v" "time_at v' = time_at v"
  using arg_cong [OF assms, of interfaces] arg_cong [OF assms, of children] arg_cong [OF assms, of MaxSessionsPerMac]
    arg_cong [OF assms, of ACName] arg_cong [OF assms, of NumSessionSlots] arg_cong [OF assms, of ServiceNames]
    arg_cong [OF assms, of CookieSeed] arg_cong [OF assms, of getpid] arg_cong [OF assms, of SessOffset] arg_cong [OF assms, of time_at]
  by (simp_all add: static_def core_def)

lemma config_static: "static v' = static v \<Longrightarrow> config_ok v' = config_ok v"
  using staticD [of v' v] by (simp add: config_ok_def)

lemma slots_okI:
  assumes "slots_ok v busy" "static v' = static v"
    "\<And>s. cs_ethif (Sessions v' ! s) = cs_ethif (Sessions v ! s) \<and> cs_eth (Sessions v' ! s) = cs_eth (Sessions v ! s)"
  shows "slots_ok v' busy"
proof -
  have "from_mac v' busy eth = from_mac v busy eth" for eth
    unfolding from_mac_def by (rule arg_cong [of _ _ length], rule filter_cong) (use assms(3) in simp_all)
  then show ?thesis using assms staticD [OF assms(2)] by (simp add: slots_ok_def)
qed

lemma inv_static:
  assumes "srv_inv v" and st: "static v' = static v" and "Sessions v' = Sessions v" "FreeSessions v' = FreeSessions v"
    "BusySessions v' = BusySessions v" "LastFreeSession v' = LastFreeSession v" "NumActiveSessions v' = NumActiveSessions v"
  shows "srv_inv v'"
proof -
  obtain free busy where p: "pool v free busy" "slots_ok v busy" "0 \<le> MaxSessionsPerMac v" "config_ok v"
    using assms(1) by (rule srv_invE)
  note s = staticD [OF st]
  have "pool v' free busy" by (rule pool_cong [OF p(1)]) (simp_all add: assms(3-7) s(5))
  moreover have "slots_ok v' busy" by (rule slots_okI [OF p(2) st]) (simp add: assms(3))
  ultimately show ?thesis using p(3,4) s(3) config_static [OF st] by (intro srv_invI [of v' free busy]) simp_all
qed

text \<open>An update of a slot that leaves its link, its interface and its address alone.\<close>

lemma inv_slot:
  assumes "srv_inv v" "s < length (Sessions v)" "cs_next c = cs_next (Sessions v ! s)"
    "cs_ethif c = cs_ethif (Sessions v ! s)" "cs_eth c = cs_eth (Sessions v ! s)"
  shows "srv_inv (v\<lparr>Sessions := (Sessions v)[s := c]\<rparr>)" (is "srv_inv ?v")
proof -
  obtain free busy where p: "pool v free busy" "slots_ok v busy" "0 \<le> MaxSessionsPerMac v" "config_ok v"
    using assms(1) by (rule srv_invE)
  have "nx (Sessions ?v) = nx (Sessions v)" using nx_same [OF assms(2,3)] by simp
  then have "pool ?v free busy" by (intro pool_cong [OF p(1)]) simp_all
  moreover have "slots_ok ?v busy"
  proof (rule slots_okI [OF p(2)])
    show "static ?v = static v" by (simp add: static_def core_def)
    show "cs_ethif (Sessions ?v ! t) = cs_ethif (Sessions v ! t) \<and> cs_eth (Sessions ?v ! t) = cs_eth (Sessions v ! t)" for t
      using assms(2,4,5) by (cases "t = s") simp_all
  qed
  ultimately show ?thesis using p(3,4) by (intro srv_invI [of ?v free busy]) (simp_all add: config_ok_def)
qed

section \<open>Stopping and freeing keep the invariant\<close>

lemma session_padt_ok:
  assumes "length reason \<le> 511"
  shows "\<exists>w. session_padt v cl eif reason = Some (v\<lparr>srv_wire := w\<rparr>)"
proof -
  let ?c = "\<lparr>discoverySocket = if_sock eif, sessionSocket = 0, myEth = if_mac eif, peerEth = cs_eth cl, session_id = cs_sess cl,
        synchronous = False, hostUniq = None, cookie = no_tag, relayId = no_tag\<rparr>"
  let ?st = "\<lparr>conn = ?c, optClampMSS = 0, PPPState = STATE_WAITFOR_FRAME_ADDR, PPPPacketSize = 0, PPPXorValue = 0,
        spkt = disc_packet no_mac no_mac 0, send_rc = (\<lambda>_. SendOk), write_rc = (\<lambda>_. None), wire = srv_wire v, tty = [], errlog = [],
        exited = None\<rparr>"
  have "\<exists>st. sendPADT ?st (Some (msg_bytes reason)) = Some st"
  proof (cases "cs_sess cl = 0 \<or> if_sock eif < 0")
    case True
    then show ?thesis using sendPADT_off [of ?st] by simp
  next
    case False
    have "conn_ok ?c" by (simp add: conn_ok_def saved_ok_def no_tag_def)
    then show ?thesis using sendPADT_ok [of ?st "Some (msg_bytes reason)"] False assms by (simp add: msg_bytes_def)
  qed
  then show ?thesis by (auto simp: session_padt_def Let_def)
qed

lemma busy_slot:
  assumes "pool v free busy" "slots_ok v busy" "s \<in> set busy"
  shows "s < length (Sessions v)" "\<exists>e eif. cs_ethif (Sessions v ! s) = Some e \<and> ethif_of v (Sessions v ! s) = Some eif"
proof -
  show "s < length (Sessions v)" using pool_slot [OF assms(1)] assms(3) by blast
  show "\<exists>e eif. cs_ethif (Sessions v ! s) = Some e \<and> ethif_of v (Sessions v ! s) = Some eif"
    using assms(2,3) by (auto simp: slots_ok_def ethif_of_def arr_get_def)
qed

lemma stop_ok:
  assumes inv: "srv_inv v" and s: "s < length (Sessions v)" and e: "ethif_of v (Sessions v ! s) = Some eif" and r: "length reason \<le> 511"
  shows "\<exists>v'. PppoeStopSession v s reason = Some v' \<and> srv_inv v' \<and> nx (Sessions v') = nx (Sessions v) \<and>
    length (Sessions v') = length (Sessions v) \<and> static v' = static v \<and> (\<forall>i. cs_ethif (Sessions v' ! i) = cs_ethif (Sessions v ! i)) \<and>
    BusySessions v' = BusySessions v \<and> draining v' = draining v \<and> srv_exited v' = srv_exited v"
proof -
  let ?cl = "Sessions v ! s"
  obtain w where w: "session_padt v ?cl eif reason = Some (v\<lparr>srv_wire := w\<rparr>)" using session_padt_ok [OF r] by blast
  define u where "u = v\<lparr>Sessions := (Sessions v)[s := ?cl\<lparr>cs_flags := cs_flags ?cl OR FLAG_SENT_PADT\<rparr>]\<rparr>"
  define v' where "v' = (if cs_pid ?cl \<noteq> 0 then (u\<lparr>srv_wire := w\<rparr>)\<lparr>killed := killed v @ [cs_pid ?cl]\<rparr> else u\<lparr>srv_wire := w\<rparr>)"
  have "srv_inv u" unfolding u_def by (rule inv_slot [OF inv s]) simp_all
  then have "srv_inv v'" by (rule inv_static) (simp_all add: v'_def static_def core_def)
  moreover have "PppoeStopSession v s reason = Some v'"
    using s e w by (simp add: PppoeStopSession_def v'_def u_def)
  moreover have "nx (Sessions v') = nx (Sessions v)" using s by (simp add: v'_def u_def nx_same del: nx_upd)
  moreover have "\<forall>i. cs_ethif (Sessions v' ! i) = cs_ethif (Sessions v ! i)" using s by (auto simp: v'_def u_def nth_list_update)
  moreover have "static v' = static v" by (simp add: v'_def u_def static_def core_def)
  ultimately show ?thesis by (simp add: v'_def u_def)
qed

lemma stop_from_ok:
  "srv_inv v \<Longrightarrow> slist (nx (Sessions v)) p xs \<Longrightarrow>
   \<forall>s\<in>set xs. s < length (Sessions v) \<and> (\<exists>eif. ethif_of v (Sessions v ! s) = Some eif) \<Longrightarrow>
   \<exists>v'. stop_from v p = Some v' \<and> srv_inv v'"
proof (induction xs arbitrary: p v)
  case Nil
  then show ?case by (subst stop_from.simps) simp
next
  case (Cons x xs)
  then have p: "p = Some x" "slist (nx (Sessions v)) (cs_next (Sessions v ! x)) xs"
    by (simp_all add: nx_def [symmetric])
  obtain eif where x: "x < length (Sessions v)" "ethif_of v (Sessions v ! x) = Some eif" using Cons.prems(3) by auto
  from stop_ok [OF Cons.prems(1) x, of "''Shutting Down''"] obtain v' where v':
    "PppoeStopSession v x ''Shutting Down'' = Some v'" "srv_inv v'" "nx (Sessions v') = nx (Sessions v)"
    "length (Sessions v') = length (Sessions v)" "static v' = static v" "\<forall>i. cs_ethif (Sessions v' ! i) = cs_ethif (Sessions v ! i)"
    by auto
  have "ethif_of v' (Sessions v' ! i) = ethif_of v (Sessions v ! i)" for i
    using v'(6) staticD(1) [OF v'(5)] by (simp add: ethif_of_def)
  then have "\<exists>v''. stop_from v' (cs_next (Sessions v ! x)) = Some v'' \<and> srv_inv v''"
    using Cons.prems(3) v' p(2) by (intro Cons.IH) simp_all
  moreover have "cs_next (Sessions v' ! x) = cs_next (Sessions v ! x)" using v'(3) by (simp add: nx_def fun_eq_iff)
  ultimately show ?case using p(1) v'(1,4) x(1) by (subst stop_from.simps) simp
qed

lemma terminate_ok:
  assumes "srv_inv v"
  shows "holds (pppoe_terminate v)"
proof -
  obtain free busy where p: "pool v free busy" "slots_ok v busy" using assms by (rule srv_invE)
  have "slist (nx (Sessions v)) (BusySessions v) busy" using p(1) by (simp add: pool_def)
  from stop_from_ok [OF assms this] busy_slot [OF p] obtain v' where v': "stop_from v (BusySessions v) = Some v'" "srv_inv v'" by blast
  have "srv_inv (v'\<lparr>srv_exited := Some 0\<rparr>)" by (rule inv_static [OF v'(2)]) (simp_all add: static_def core_def)
  then show ?thesis using v'(1) by (simp add: pppoe_terminate_def killAllSessions_def)
qed

text \<open>A freed slot counts for no address any more, except that it may count for the zero address.\<close>

lemma free_inv:
  assumes p: "pool v free busy" "slots_ok v busy" "0 \<le> MaxSessionsPerMac v" "config_ok v"
    and s: "s \<in> set busy" "s \<notin> snd ` set (children v)"
  shows "\<exists>v'. pppoe_free_session v s = Some (0, v') \<and> srv_inv v' \<and> core v' = core v"
proof -
  from free_some [OF p(1) s(1)] obtain v' where v': "pppoe_free_session v s = Some (0, v')" "pool v' (free @ [s]) (remove1 s busy)"
    "core v' = core v" "\<forall>i. i \<noteq> s \<longrightarrow> slot_data (Sessions v' ! i) = slot_data (Sessions v ! i)"
    "slot_data (Sessions v' ! s) = slot_data (cleared (Sessions v ! s))" by blast
  have zero: "cs_eth (Sessions v' ! s) = no_mac" using arg_cong [OF v'(5), of cs_eth] by (simp add: slot_data_def cleared_def)
  have st: "static v' = static v" using arg_cong [OF v'(3), of static] by (simp add: static_def core_def)
  note c = staticD [OF st]
  have d: "distinct busy" using p(1) by (simp add: pool_def)
  have same: "cs_ethif (Sessions v' ! i) = cs_ethif (Sessions v ! i)" "cs_eth (Sessions v' ! i) = cs_eth (Sessions v ! i)" if "i \<noteq> s" for i
  proof -
    have e: "slot_data (Sessions v' ! i) = slot_data (Sessions v ! i)" using that v'(4) by blast
    show "cs_ethif (Sessions v' ! i) = cs_ethif (Sessions v ! i)" "cs_eth (Sessions v' ! i) = cs_eth (Sessions v ! i)"
      using arg_cong [OF e, of cs_ethif] arg_cong [OF e, of cs_eth] by (simp_all add: slot_data_def)
  qed
  have le: "from_mac v' (remove1 s busy) eth \<le> from_mac v busy eth" for eth
  proof -
    have "filter (\<lambda>t. cs_eth (Sessions v' ! t) = eth) (remove1 s busy) = filter (\<lambda>t. cs_eth (Sessions v ! t) = eth) (remove1 s busy)"
      using d by (intro filter_cong) (auto simp: same)
    then show ?thesis by (auto simp: from_mac_def filter_remove1 length_remove1)
  qed
  have "slots_ok v' (remove1 s busy)"
    unfolding slots_ok_def c
  proof (intro conjI ballI impI allI)
    show "\<exists>e<length (interfaces v). cs_ethif (Sessions v' ! t) = Some e" if "t \<in> set (remove1 s busy)" for t
      using that d p(2) same(1) [of t] by (auto simp: slots_ok_def)
    show "snd ` set (children v) \<subseteq> set (remove1 s busy)" using p(2) s(2) d by (auto simp: slots_ok_def)
    show "distinct (map snd (children v))" using p(2) by (simp add: slots_ok_def)
    show "cs_eth (Sessions v' ! t) = no_mac" if "t < NumSessionSlots v" "t \<notin> set (remove1 s busy)" for t
      using that d p(2) same(2) [of t] zero by (cases "t = s") (auto simp: slots_ok_def)
    show "int (from_mac v' (remove1 s busy) eth) \<le> MaxSessionsPerMac v" if "0 < MaxSessionsPerMac v" for eth
      using that p(2) le [of eth] by (auto simp: slots_ok_def intro: order_trans [rotated])
  qed
  then have "srv_inv v'" using p(3,4) c v'(2) config_static [OF st] by (intro srv_invI) simp_all
  then show ?thesis using v'(1,3) by blast
qed

text \<open>What a child's entry in the table guarantees when the child dies.\<close>

lemma distinct_map_snd_remove1:
  "distinct (map snd xs) \<Longrightarrow> (p, s) \<in> set xs \<Longrightarrow>
   snd ` set (remove1 (p, s) xs) = snd ` set xs - {s} \<and> distinct (map snd (remove1 (p, s) xs))"
proof (induction xs)
  case (Cons x xs)
  show ?case
  proof (cases "x = (p, s)")
    case False
    then have "(p, s) \<in> set xs" using Cons.prems(2) by simp
    then have "s \<in> snd ` set xs" by (rule image_eqI [rotated]) simp
    then have "snd x \<noteq> s" using Cons.prems(1) by auto
    then show ?thesis using Cons False \<open>(p, s) \<in> set xs\<close> by auto
  qed (use Cons.prems in auto)
qed simp

lemma child_handler_ok:
  assumes "srv_inv v"
  shows "holds (child_handler v pid)"
proof (cases "map_of (children v) pid")
  case None
  then show ?thesis using assms by (simp add: child_handler_def)
next
  case (Some s)
  obtain free busy where p: "pool v free busy" "slots_ok v busy" "0 \<le> MaxSessionsPerMac v" "config_ok v"
    using assms by (rule srv_invE)
  define v0 where "v0 = v\<lparr>children := remove1 (pid, s) (children v)\<rparr>"
  have m: "(pid, s) \<in> set (children v)" using Some by (rule map_of_SomeD)
  have r: "snd ` set (children v0) = snd ` set (children v) - {s}" "distinct (map snd (children v0))"
    using distinct_map_snd_remove1 [OF _ m] p(2) by (simp_all add: v0_def slots_ok_def)
  have "s \<in> snd ` set (children v)" using m by (rule image_eqI [rotated]) simp
  then have s: "s \<in> set busy" "s \<notin> snd ` set (children v0)" using p(2) r(1) unfolding slots_ok_def by blast+
  have p0: "pool v0 free busy" by (rule pool_cong [OF p(1)]) (simp_all add: v0_def)
  have f0: "from_mac v0 busy eth = from_mac v busy eth" for eth by (simp add: from_mac_def v0_def)
  have o0: "slots_ok v0 busy" using p(2) r unfolding slots_ok_def f0 by (simp add: v0_def) blast
  obtain e eif where slot: "s < length (Sessions v0)" "ethif_of v0 (Sessions v0 ! s) = Some eif" using busy_slot [OF p0 o0 s(1)] by blast
  let ?cl = "Sessions v0 ! s"
  let ?r = "if cs_flags ?cl AND FLAG_RECVD_PADT \<noteq> 0 then ''RP-PPPoE: Received PADT from peer'' else ''RP-PPPoE: Child pppd process terminated''"
  have "length ?r \<le> 511" by simp
  from session_padt_ok [OF this] obtain w where w: "session_padt v0 ?cl eif ?r = Some (v0\<lparr>srv_wire := w\<rparr>)" by blast
  define v1 where "v1 = (if cs_flags ?cl AND FLAG_SENT_PADT = 0
    then v0\<lparr>srv_wire := w, Sessions := (Sessions v0)[s := ?cl\<lparr>cs_flags := cs_flags ?cl OR FLAG_SENT_PADT\<rparr>]\<rparr> else v0)"
  define v2 where "v2 = v1\<lparr>Sessions := (Sessions v1)[s := (Sessions v1 ! s)\<lparr>cs_serviceName := Some []\<rparr>]\<rparr>"
  have len: "length (Sessions v1) = length (Sessions v0)" by (simp add: v1_def)
  have nxs: "nx (Sessions v2) = nx (Sessions v0)" using slot(1) by (auto simp: v2_def v1_def nx_same simp del: nx_upd)
  have st: "static v2 = static v0" by (simp add: v2_def v1_def static_def core_def)
  have fields: "cs_ethif (Sessions v2 ! t) = cs_ethif (Sessions v0 ! t) \<and> cs_eth (Sessions v2 ! t) = cs_eth (Sessions v0 ! t)" for t
    using slot(1) by (cases "t = s") (simp_all add: v2_def v1_def)
  have p2: "pool v2 free busy" by (rule pool_cong [OF p0]) (simp_all add: nxs, simp_all add: v2_def v1_def)
  have o2: "slots_ok v2 busy" by (rule slots_okI [OF o0 st]) (rule fields)
  have c2: "children v2 = children v0" "MaxSessionsPerMac v2 = MaxSessionsPerMac v" "config_ok v2 = config_ok v"
    by (simp_all add: v2_def v1_def v0_def config_ok_def)
  from free_inv [OF p2 o2, unfolded c2, OF p(3,4) s] obtain v' where "pppoe_free_session v2 s = Some (0, v')" "srv_inv v'" by blast
  moreover have "childHandler v0 s = do { (rc, v) \<leftarrow> pppoe_free_session v2 s; Some v }"
    using slot w len by (simp add: childHandler_def v1_def v2_def)
  ultimately show ?thesis using Some by (simp add: child_handler_def v0_def [symmetric])
qed

section \<open>Reading a request\<close>

text \<open>The server with the fields that reading a request sets left out.\<close>

definition unread :: "server \<Rightarrow> server" where
  "unread v = v\<lparr>max_ppp_payload := 0, reqHostUniq := no_tag, reqRelayId := no_tag, receivedCookie := no_tag, requestedService := no_tag\<rparr>"

lemma unread_cookie: "unread (v\<lparr>receivedCookie := t\<rparr>) = unread v"
  by (simp add: unread_def)

definition max_payload_step :: "u16 \<times> byte_buf \<Rightarrow> u16 \<Rightarrow> u16" where
  "max_payload_step t m = (if fst t = TAG_PPP_MAX_PAYLOAD \<and> length (snd t) = 2
     then (case read_max_payload (snd t) of Some x \<Rightarrow> x | None \<Rightarrow> m) else m)"

definition asked_payload :: "(u16 \<times> byte_buf) list \<Rightarrow> u16" where
  "asked_payload ts = fold max_payload_step ts 0"

lemma kept_tag_snoc: "kept_tag ty (ts @ [t]) old = (if fst t = ty then mk_tag ty (snd t) else kept_tag ty ts old)"
  by (simp add: kept_tag_def last_tag_snoc)

lemma kept_tag_Nil [simp]: "kept_tag ty [] old = old"
  by (simp add: kept_tag_def last_tag_def)

lemma len_is_2: "length data < 65536 \<Longrightarrow> (word_of_nat (length data) :: u16) = 2 \<longleftrightarrow> length data = 2"
  by (simp add: word_unat_eq_iff)

lemma read_request:
  fixes v :: server
  assumes "\<forall>(ty, data)\<in>set ts. length data < 65536"
  defines "v' \<equiv> fold (\<lambda>(ty, data). parsePADITags ty (word_of_nat (length data)) data) ts v"
    and "w \<equiv> fold (\<lambda>(ty, data). parsePADRTags ty (word_of_nat (length data)) data) ts v"
  shows "unread v' = unread v" "max_ppp_payload v' = fold max_payload_step ts (max_ppp_payload v)"
    "reqRelayId v' = kept_tag TAG_RELAY_SESSION_ID ts (reqRelayId v)" "reqHostUniq v' = kept_tag TAG_HOST_UNIQ ts (reqHostUniq v)"
    "requestedService v' = kept_tag TAG_SERVICE_NAME ts (requestedService v)"
    "unread w = unread v" "max_ppp_payload w = fold max_payload_step ts (max_ppp_payload v)"
    "reqRelayId w = kept_tag TAG_RELAY_SESSION_ID ts (reqRelayId v)" "reqHostUniq w = kept_tag TAG_HOST_UNIQ ts (reqHostUniq v)"
    "requestedService w = kept_tag TAG_SERVICE_NAME ts (requestedService v)"
    "receivedCookie w = kept_tag TAG_AC_COOKIE ts (receivedCookie v)"
proof -
  have i: "unread (parsePADITags ty (word_of_nat (length data)) data u) = unread u \<and>
      max_ppp_payload (parsePADITags ty (word_of_nat (length data)) data u) = max_payload_step (ty, data) (max_ppp_payload u) \<and>
      reqRelayId (parsePADITags ty (word_of_nat (length data)) data u) = (if ty = TAG_RELAY_SESSION_ID then mk_tag ty data else reqRelayId u) \<and>
      reqHostUniq (parsePADITags ty (word_of_nat (length data)) data u) = (if ty = TAG_HOST_UNIQ then mk_tag ty data else reqHostUniq u) \<and>
      requestedService (parsePADITags ty (word_of_nat (length data)) data u) = (if ty = TAG_SERVICE_NAME then mk_tag ty data else requestedService u) \<and>
      receivedCookie (parsePADITags ty (word_of_nat (length data)) data u) = receivedCookie u"
    if "length data < 65536" for ty data u
    using that by (auto simp: parsePADITags_def unread_def max_payload_step_def saved_mk_tag len_is_2 split: option.splits)
  show "unread v' = unread v" "max_ppp_payload v' = fold max_payload_step ts (max_ppp_payload v)"
    "reqRelayId v' = kept_tag TAG_RELAY_SESSION_ID ts (reqRelayId v)" "reqHostUniq v' = kept_tag TAG_HOST_UNIQ ts (reqHostUniq v)"
    "requestedService v' = kept_tag TAG_SERVICE_NAME ts (requestedService v)"
    unfolding v'_def using assms(1) by (induction ts rule: rev_induct) (auto simp: i kept_tag_snoc)
  have r: "unread (parsePADRTags ty (word_of_nat (length data)) data u) = unread u \<and>
      max_ppp_payload (parsePADRTags ty (word_of_nat (length data)) data u) = max_payload_step (ty, data) (max_ppp_payload u) \<and>
      reqRelayId (parsePADRTags ty (word_of_nat (length data)) data u) = (if ty = TAG_RELAY_SESSION_ID then mk_tag ty data else reqRelayId u) \<and>
      reqHostUniq (parsePADRTags ty (word_of_nat (length data)) data u) = (if ty = TAG_HOST_UNIQ then mk_tag ty data else reqHostUniq u) \<and>
      requestedService (parsePADRTags ty (word_of_nat (length data)) data u) = (if ty = TAG_SERVICE_NAME then mk_tag ty data else requestedService u) \<and>
      receivedCookie (parsePADRTags ty (word_of_nat (length data)) data u) = (if ty = TAG_AC_COOKIE then mk_tag ty data else receivedCookie u)"
    if "length data < 65536" for ty data u
    using i [OF that, of ty u] that by (auto simp: parsePADRTags_def max_payload_step_def saved_mk_tag unread_cookie)
  show "unread w = unread v" "max_ppp_payload w = fold max_payload_step ts (max_ppp_payload v)"
    "reqRelayId w = kept_tag TAG_RELAY_SESSION_ID ts (reqRelayId v)" "reqHostUniq w = kept_tag TAG_HOST_UNIQ ts (reqHostUniq v)"
    "requestedService w = kept_tag TAG_SERVICE_NAME ts (requestedService v)"
    "receivedCookie w = kept_tag TAG_AC_COOKIE ts (receivedCookie v)"
    unfolding w_def using assms(1) by (induction ts rule: rev_induct) (auto simp: r kept_tag_snoc)
qed

lemma genCookie_ok: "length seed = 16 \<Longrightarrow> genCookie a b seed pid = Some (md5 (mac_bytes a @ mac_bytes b @ seed) @ le32_bytes pid)"
proof -
  assume s: "length seed = 16"
  obtain c1 where c1: "MD5Update MD5Init (mac_bytes a) = Some c1" "md5_rep c1 ([] @ mac_bytes a)"
    using MD5Update_ok [OF md5_rep_init, of "mac_bytes a"] by auto
  obtain c2 where c2: "MD5Update c1 (mac_bytes b) = Some c2" "md5_rep c2 (([] @ mac_bytes a) @ mac_bytes b)"
    using MD5Update_ok [OF c1(2), of "mac_bytes b"] by auto
  obtain c3 where c3: "MD5Update c2 seed = Some c3" "md5_rep c3 ((([] @ mac_bytes a) @ mac_bytes b) @ seed)"
    using MD5Update_ok [OF c2(2), of seed] s by auto
  show ?thesis using c1(1) c2(1) c3(1) MD5Final_ok [OF c3(2)] s by (auto simp: genCookie_def)
qed

lemma kept_tag_sent:
  assumes "tag_type old = 0" "ty \<noteq> 0" "\<forall>(ty, data)\<in>set ts. length data < 65536"
  shows "saved_bytes (kept_tag ty ts old) = enc_tags (map (Pair 0) (last_tag ty ts)) \<and> saved_ok (kept_tag ty ts old) \<and>
    (tag_type (kept_tag ty ts old) = 0 \<longleftrightarrow> last_tag ty ts = [])"
  using last_tag_cases [of ty ts]
proof (elim disjE exE conjE)
  fix data assume l: "last_tag ty ts = [(ty, data)]" "(ty, data) \<in> set ts"
  then have n: "length data < 65536" using assms(3) by auto
  have "htons 0 = 0" by (simp add: htons_def join16_def lo8_def hi8_def)
  then have z: "htons ty \<noteq> 0" using assms(2) htons_inj [of ty 0] by auto
  have "kept_tag ty ts old = \<lparr>tag_type = htons ty, tag_length = htons (word_of_nat (length data)), tag_payload = data @ []\<rparr>"
    using l by (simp add: kept_tag_def mk_tag_def)
  then show ?thesis using n z l tag_bytes_enc [of data ty "[]"]
    by (simp add: saved_bytes_def saved_ok_def unsigned_of_nat take_bit_nat_eq_self)
qed (use assms(1) in \<open>simp add: kept_tag_def saved_bytes_def saved_ok_def\<close>)

section \<open>Answers\<close>

lemma raw_tag_buf:
  assumes "saved_ok t" "length b \<le> 1508"
  shows "raw_tag t (padt_buf b) = (if length (b @ saved_bytes t) \<le> 1508 then Some (padt_buf (b @ saved_bytes t)) else None)"
proof (cases "tag_type t = 0")
  case False
  define n where "n = unat (ntohs (tag_length t))"
  have n: "n + 4 \<le> length (tag_bytes t)" using assms(1) False by (simp add: saved_ok_def tag_bytes_def n_def)
  have s: "saved_bytes t = take (n + 4) (tag_bytes t)" "length (saved_bytes t) = n + 4" using False n by (simp_all add: saved_bytes_def n_def)
  show ?thesis
  proof (cases "length b + n + 4 \<le> 1508")
    case True
    then show ?thesis using put_tag_buf [of n t False b] n s False by (simp add: raw_tag_def n_def [symmetric])
  next
    case f: False
    then show ?thesis using n s False assms(2)
      by (simp add: raw_tag_def n_def [symmetric] put_tag_def padt_buf_def wr_bytes_def rd_bytes_def)
  qed
qed (use assms in \<open>simp add: raw_tag_def saved_bytes_def\<close>)

lemma put_enc:
  assumes "length d < 65536" "length b \<le> 1508"
  shows "put_tag False \<lparr>tag_type = htons ty, tag_length = htons (word_of_nat (length d)), tag_payload = d\<rparr> (length d) (padt_buf b) =
    (if length (b @ enc_tag ty d) \<le> 1508 then Some (Some (padt_buf (b @ enc_tag ty d))) else None)"
    "put_tag True \<lparr>tag_type = htons ty, tag_length = htons (word_of_nat (length d)), tag_payload = d\<rparr> (length d) (padt_buf b) =
    (if length (b @ enc_tag ty d) \<le> 1502 then Some (Some (padt_buf (b @ enc_tag ty d))) else Some None)"
proof -
  let ?t = "\<lparr>tag_type = htons ty, tag_length = htons (word_of_nat (length d)), tag_payload = d\<rparr>"
  have n: "length d + 4 \<le> length (tag_bytes ?t)" by (simp add: tag_bytes_def)
  have e: "take (length d + 4) (tag_bytes ?t) = enc_tag ty d" using tag_bytes_enc [of d ty "[]"] by simp
  show "put_tag True ?t (length d) (padt_buf b) =
      (if length (b @ enc_tag ty d) \<le> 1502 then Some (Some (padt_buf (b @ enc_tag ty d))) else Some None)"
    using put_tag_buf [OF n, of True b] e by auto
  show "put_tag False ?t (length d) (padt_buf b) =
      (if length (b @ enc_tag ty d) \<le> 1508 then Some (Some (padt_buf (b @ enc_tag ty d))) else None)"
  proof (cases "length b + length d + 4 \<le> 1508")
    case True
    then show ?thesis using put_tag_buf [OF n, of False b] e by simp
  next
    case False
    then show ?thesis using n e assms(2) by (simp add: put_tag_def padt_buf_def wr_bytes_def rd_bytes_def)
  qed
qed

text \<open>A discovery frame with a session number.\<close>

definition sess_frame :: "mac \<Rightarrow> mac \<Rightarrow> u8 \<Rightarrow> u16 \<Rightarrow> byte_buf \<Rightarrow> byte_buf" where
  "sess_frame dest source code sess body = mac_bytes dest @ mac_bytes source @ be16_bytes 0x8863 @ [0x11, code] @ le16_bytes sess @
     be16_bytes (word_of_nat (length body)) @ body"

lemma sess_frame_0: "sess_frame dest source code 0 body = disc_frame dest source code body"
  by (simp add: sess_frame_def disc_frame_def le16_zero)

lemma srv_send_buf:
  assumes "length b \<le> 1508"
  shows "srv_send v sock ((disc_packet dest source code)\<lparr>psession := sess\<rparr>) (padt_buf b) =
    Some (v\<lparr>srv_wire := srv_wire v @ [(sock, sess_frame dest source code sess b)]\<rparr>)"
proof -
  have n: "unat (word_of_nat (length b) :: u16) = length b" using assms by simp
  let ?p = "(disc_packet dest source code)\<lparr>psession := sess, payload := b @ replicate (1508 - length b) 0, plength := htons (word_of_nat (length b))\<rparr>"
  have "take (length b + 20) (frame_bytes ?p) = sess_frame dest source code sess b"
    using assms by (simp add: frame_bytes_def disc_packet_def sess_frame_def PPPOE_VER_TYPE_def le16_htons take_Cons')
  then show ?thesis using assms n by (simp add: srv_send_def padt_buf_def rd_bytes_def frame_bytes_def disc_packet_def)
qed

definition error_body :: "server \<Rightarrow> u16 \<Rightarrow> string \<Rightarrow> byte_buf" where
  "error_body v ty msg = enc_tag ty (msg_bytes msg) @ saved_bytes (reqRelayId v) @ saved_bytes (reqHostUniq v)"

lemma sendErrorPADS_ok:
  assumes "saved_ok (reqRelayId v)" "saved_ok (reqHostUniq v)" "length msg \<le> 500"
  shows "sendErrorPADS v sock source dest ty msg =
    (if length (error_body v ty msg) \<le> 1508
     then Some (v\<lparr>srv_wire := srv_wire v @ [(sock, disc_frame dest source CODE_PADS (error_body v ty msg))]\<rparr>) else None)"
proof -
  let ?m = "msg_bytes msg"
  have p: "(disc_packet dest source CODE_PADS)\<lparr>psession := 0\<rparr> = disc_packet dest source CODE_PADS" by (simp add: disc_packet_def)
  have m: "length ?m \<le> 500" using assms(3) by (simp add: msg_bytes_def)
  have e: "put_tag False \<lparr>tag_type = htons ty, tag_length = htons (word_of_nat (length ?m)), tag_payload = ?m\<rparr> (length ?m) (padt_buf []) =
      Some (Some (padt_buf (enc_tag ty ?m)))" using put_enc(1) [of ?m "[]" ty] m by simp
  show ?thesis
    using m e raw_tag_buf [OF assms(1), of "enc_tag ty ?m"] raw_tag_buf [OF assms(2), of "enc_tag ty ?m @ saved_bytes (reqRelayId v)"]
      srv_send_buf [of "error_body v ty msg" v sock 0 dest source CODE_PADS, unfolded p sess_frame_0]
    by (auto simp: sendErrorPADS_def start_buf error_body_def Let_def)
qed

section \<open>Offers\<close>

definition shrunk :: "u16 \<Rightarrow> u16 \<Rightarrow> u16" where
  "shrunk mtu m = (if m > ETH_PPPOE_MTU \<and> mtu > 0 then shrink_payload mtu m else m)"

definition max_bytes :: "u16 \<Rightarrow> u16 \<Rightarrow> byte_buf" where
  "max_bytes mtu m = (if m > ETH_PPPOE_MTU \<and> mtu > 0 \<and> shrink_payload mtu m > ETH_PPPOE_MTU
     then enc_tag TAG_PPP_MAX_PAYLOAD (be16_bytes (shrink_payload mtu m)) else [])"

lemma max_payload_tag_buf:
  assumes "length b \<le> 1508"
  shows "max_payload_tag eif v (padt_buf b) = Some (v\<lparr>max_ppp_payload := shrunk (if_mtu eif) (max_ppp_payload v)\<rparr>,
    if length (b @ max_bytes (if_mtu eif) (max_ppp_payload v)) \<le> 1502 \<or> max_bytes (if_mtu eif) (max_ppp_payload v) = []
    then Some (padt_buf (b @ max_bytes (if_mtu eif) (max_ppp_payload v))) else None)"
proof -
  have e: "enc_tag ty d \<noteq> []" for ty d by (simp add: enc_tag_def be16_bytes_def)
  have "put_tag True \<lparr>tag_type = htons TAG_PPP_MAX_PAYLOAD, tag_length = htons 2, tag_payload = be16_bytes m\<rparr> 2 (padt_buf b) =
    (if length (b @ enc_tag TAG_PPP_MAX_PAYLOAD (be16_bytes m)) \<le> 1502
     then Some (Some (padt_buf (b @ enc_tag TAG_PPP_MAX_PAYLOAD (be16_bytes m)))) else Some None)" for m
    using put_enc(2) [of "be16_bytes m" b "TAG_PPP_MAX_PAYLOAD"] assms by simp
  then show ?thesis
    using e by (auto simp: max_payload_tag_def shrunk_def max_bytes_def Let_def)
qed

definition services_body :: "byte_buf list \<Rightarrow> byte_buf" where
  "services_body ns = concat (map (enc_tag TAG_SERVICE_NAME) ns)"

lemma service_tags_buf:
  "\<forall>n\<in>set ns. length n < 65536 \<Longrightarrow> length b \<le> 1502 \<Longrightarrow>
   service_tags ns (padt_buf b) = Some (if length (b @ services_body ns) \<le> 1502 then Some (padt_buf (b @ services_body ns)) else None)"
proof (induction ns arbitrary: b)
  case (Cons n ns)
  then show ?case using put_enc(2) [of n b TAG_SERVICE_NAME] by (auto simp: services_body_def)
qed (simp add: services_body_def)

definition the_cookie :: "server \<Rightarrow> mac \<Rightarrow> mac \<Rightarrow> byte_buf" where
  "the_cookie v peer me = md5 (mac_bytes peer @ mac_bytes me @ CookieSeed v) @ le32_bytes (getpid v)"

definition pado_body :: "server \<Rightarrow> iface \<Rightarrow> mac \<Rightarrow> byte_buf" where
  "pado_body v eif src = enc_tag TAG_AC_NAME (ACName v) @ max_bytes (if_mtu eif) (max_ppp_payload v) @ services_body (offered_services v) @
     enc_tag TAG_AC_COOKIE (the_cookie v src (if_mac eif)) @ saved_bytes (reqRelayId v) @ saved_bytes (reqHostUniq v)"

lemma length_the_cookie [simp]: "length (the_cookie v a b) = 20"
  by (simp add: the_cookie_def)

lemma send_pado_ok:
  assumes c: "config_ok v" and t: "saved_ok (reqRelayId v)" "saved_ok (reqHostUniq v)"
  shows "\<exists>m. send_pado v eif p = Some (v\<lparr>max_ppp_payload := m, srv_wire := srv_wire v @
    (if length (pado_body v eif (h_source p)) \<le> 1502
     then [(if_sock eif, disc_frame (h_source p) (if_mac eif) CODE_PADO (pado_body v eif (h_source p)))] else [])\<rparr>)"
proof -
  let ?m = "max_bytes (if_mtu eif) (max_ppp_payload v)" and ?k = "the_cookie v (h_source p) (if_mac eif)"
  define b1 where "b1 = enc_tag TAG_AC_NAME (ACName v)"
  define b2 where "b2 = b1 @ ?m"
  define b3 where "b3 = b2 @ services_body (offered_services v)"
  define b4 where "b4 = b3 @ enc_tag TAG_AC_COOKIE ?k"
  define b5 where "b5 = b4 @ saved_bytes (reqRelayId v)"
  define b6 where "b6 = b5 @ saved_bytes (reqHostUniq v)"
  have all: "pado_body v eif (h_source p) = b6" by (simp add: b6_def b5_def b4_def b3_def b2_def b1_def pado_body_def)
  have le: "length b1 \<le> length b2" "length b2 \<le> length b3" "length b3 \<le> length b4" "length b4 \<le> length b5" "length b5 \<le> length b6"
    by (simp_all add: b6_def b5_def b4_def b3_def b2_def)
  have k: "genCookie (h_source p) (if_mac eif) (CookieSeed v) (getpid v) = Some ?k"
    using c by (simp add: genCookie_ok config_ok_def the_cookie_def)
  define v1 where "v1 = v\<lparr>max_ppp_payload := shrunk (if_mtu eif) (max_ppp_payload v)\<rparr>"
  have v1: "offered_services v1 = offered_services v" "reqRelayId v1 = reqRelayId v" "reqHostUniq v1 = reqHostUniq v"
    by (simp_all add: v1_def offered_services_def)
  have os: "\<forall>n\<in>set (offered_services v). length n < 65536" using c by (auto simp: offered_services_def config_ok_def)
  have s1: "put_tag True (acname_tag v) (length (ACName v)) (padt_buf []) = (if length b1 \<le> 1502 then Some (Some (padt_buf b1)) else Some None)"
    using put_enc(2) [of "ACName v" "[]" TAG_AC_NAME] c by (simp add: acname_tag_def b1_def config_ok_def)
  have s2: "length b1 \<le> 1502 \<Longrightarrow> max_payload_tag eif v (padt_buf b1) = Some (v1, if length b2 \<le> 1502 then Some (padt_buf b2) else None)"
    using max_payload_tag_buf [of b1 eif v] by (auto simp: b2_def v1_def)
  have s3: "length b2 \<le> 1502 \<Longrightarrow> service_tags (offered_services v) (padt_buf b2) = Some (if length b3 \<le> 1502 then Some (padt_buf b3) else None)"
    using service_tags_buf [OF os, of b2] by (simp add: b3_def)
  have s4: "length b3 \<le> 1502 \<Longrightarrow> put_tag True \<lparr>tag_type = htons TAG_AC_COOKIE, tag_length = htons 20, tag_payload = ?k\<rparr> 20 (padt_buf b3) =
      (if length b4 \<le> 1502 then Some (Some (padt_buf b4)) else Some None)"
    using put_enc(2) [of ?k b3 TAG_AC_COOKIE] by (simp add: b4_def)
  have s5: "length b4 \<le> 1502 \<Longrightarrow> saved_tag (reqRelayId v) (padt_buf b4) = Some (if length b5 \<le> 1502 then Some (padt_buf b5) else None)"
    using saved_tag_buf [OF t(1), of b4] by (auto simp: b5_def saved_bytes_def)
  have s6: "length b5 \<le> 1502 \<Longrightarrow> saved_tag (reqHostUniq v) (padt_buf b5) = Some (if length b6 \<le> 1502 then Some (padt_buf b6) else None)"
    using saved_tag_buf [OF t(2), of b5] by (auto simp: b6_def saved_bytes_def)
  have p0: "(disc_packet d s x)\<lparr>psession := 0\<rparr> = disc_packet d s x" for d s x by (simp add: disc_packet_def)
  have s7: "length b6 \<le> 1502 \<Longrightarrow> srv_send v1 (if_sock eif) (disc_packet (h_source p) (if_mac eif) CODE_PADO) (padt_buf b6) =
      Some (v1\<lparr>srv_wire := srv_wire v1 @ [(if_sock eif, disc_frame (h_source p) (if_mac eif) CODE_PADO b6)]\<rparr>)"
    using srv_send_buf [of b6 v1 "if_sock eif" 0 "h_source p" "if_mac eif" CODE_PADO, unfolded p0 sess_frame_0] by simp
  have w: "srv_wire v1 = srv_wire v" by (simp add: v1_def)
  define out where "out = (if length b6 \<le> 1502
    then Some (v1\<lparr>srv_wire := srv_wire v @ [(if_sock eif, disc_frame (h_source p) (if_mac eif) CODE_PADO b6)]\<rparr>) else Some v1)"
  define t6 where "t6 bc = do { r \<leftarrow> saved_tag (reqHostUniq v) bc;
     case r of None \<Rightarrow> Some v1 | Some bc \<Rightarrow> srv_send v1 (if_sock eif) (disc_packet (h_source p) (if_mac eif) CODE_PADO) bc }" for bc
  define t5 where "t5 bc = do { r \<leftarrow> saved_tag (reqRelayId v) bc; case r of None \<Rightarrow> Some v1 | Some bc \<Rightarrow> t6 bc }" for bc
  define t4 where "t4 bc = do { r \<leftarrow> put_tag True \<lparr>tag_type = htons TAG_AC_COOKIE, tag_length = htons 20, tag_payload = ?k\<rparr> COOKIE_LEN bc;
     case r of None \<Rightarrow> Some v1 | Some bc \<Rightarrow> t5 bc }" for bc
  define t3 where "t3 bc = do { r \<leftarrow> service_tags (offered_services v) bc; case r of None \<Rightarrow> Some v1 | Some bc \<Rightarrow> t4 bc }" for bc
  have e6: "t6 (padt_buf b5) = out" if "length b5 \<le> 1502" using s6 [OF that] s7 w by (auto simp: t6_def out_def)
  have e5: "t5 (padt_buf b4) = out" if "length b4 \<le> 1502" using s5 [OF that] e6 le by (auto simp: t5_def out_def)
  have e4: "t4 (padt_buf b3) = out" if "length b3 \<le> 1502" using s4 [OF that] e5 le by (auto simp: t4_def out_def)
  have e3: "t3 (padt_buf b2) = out" if "length b2 \<le> 1502" using s3 [OF that] e4 le by (auto simp: t3_def out_def)
  have "send_pado v eif p = (do {
     r \<leftarrow> put_tag True (acname_tag v) (length (ACName v)) (padt_buf []);
     case r of None \<Rightarrow> Some v | Some bc \<Rightarrow> do {
     (u, r) \<leftarrow> max_payload_tag eif v bc;
     case r of None \<Rightarrow> Some u | Some bc \<Rightarrow> do {
     r \<leftarrow> service_tags (offered_services u) bc;
     case r of None \<Rightarrow> Some u | Some bc \<Rightarrow> do {
     r \<leftarrow> put_tag True \<lparr>tag_type = htons TAG_AC_COOKIE, tag_length = htons 20, tag_payload = ?k\<rparr> COOKIE_LEN bc;
     case r of None \<Rightarrow> Some u | Some bc \<Rightarrow> do {
     r \<leftarrow> saved_tag (reqRelayId u) bc;
     case r of None \<Rightarrow> Some u | Some bc \<Rightarrow> do {
     r \<leftarrow> saved_tag (reqHostUniq u) bc;
     case r of None \<Rightarrow> Some u | Some bc \<Rightarrow> srv_send u (if_sock eif) (disc_packet (h_source p) (if_mac eif) CODE_PADO) bc } } } } } })"
    by (simp add: send_pado_def k Let_def start_buf)
  also have "\<dots> = (if length b1 \<le> 1502 then if length b2 \<le> 1502 then t3 (padt_buf b2) else Some v1 else Some v)"
    unfolding t3_def t4_def t5_def t6_def using s2 by (cases "length b1 \<le> 1502") (simp_all add: s1 v1)
  also have "\<dots> = (if length b1 \<le> 1502 then out else Some v)"
    using e3 le by (auto simp: out_def)
  finally have run: "send_pado v eif p = (if length b1 \<le> 1502 then out else Some v)" .
  show ?thesis
  proof (cases "length b1 \<le> 1502")
    case True
    then show ?thesis unfolding run all out_def by (intro exI [of _ "shrunk (if_mtu eif) (max_ppp_payload v)"]) (simp add: v1_def)
  next
    case False
    then have "\<not> length b6 \<le> 1502" using le by linarith
    then show ?thesis unfolding run all using False by (intro exI [of _ "max_ppp_payload v"]) simp
  qed
qed

section \<open>PADI and PADR\<close>

text \<open>The server as it is apart from the last request and the frames sent.\<close>

definition quiet :: "server \<Rightarrow> server" where
  "quiet v = (unread v)\<lparr>srv_wire := []\<rparr>"

lemma quietD:
  assumes "quiet v' = quiet v"
  shows "static v' = static v" "Sessions v' = Sessions v" "FreeSessions v' = FreeSessions v" "BusySessions v' = BusySessions v"
    "LastFreeSession v' = LastFreeSession v" "NumActiveSessions v' = NumActiveSessions v" "srv_exited v' = srv_exited v"
    "draining v' = draining v" "children v' = children v"
  using arg_cong [OF assms, of static] arg_cong [OF assms, of Sessions] arg_cong [OF assms, of FreeSessions] arg_cong [OF assms, of BusySessions]
    arg_cong [OF assms, of LastFreeSession] arg_cong [OF assms, of NumActiveSessions] arg_cong [OF assms, of srv_exited]
    arg_cong [OF assms, of draining] arg_cong [OF assms, of children]
  by (simp_all add: quiet_def unread_def static_def core_def)

lemma quiet_inv: "quiet v' = quiet v \<Longrightarrow> srv_inv v \<Longrightarrow> srv_inv v'"
  using inv_static [of v v'] quietD [of v' v] by blast

lemma unread_quiet:
  assumes "unread v' = unread v"
  shows "quiet v' = quiet v" "srv_wire v' = srv_wire v"
  using arg_cong [OF assms, of srv_wire] arg_cong [OF assms, of "\<lambda>v. v\<lparr>srv_wire := []\<rparr>"] by (simp_all add: quiet_def) (simp add: unread_def)

lemma unread_config: "unread v' = unread v \<Longrightarrow> config_ok v' = config_ok v"
  using config_static quietD(1) unread_quiet(1) by blast

definition full_for :: "server \<Rightarrow> mac \<Rightarrow> bool" where
  "full_for v eth \<longleftrightarrow> too_many v eth = Some True"

definition serves :: "server \<Rightarrow> (u16 \<times> byte_buf) list \<Rightarrow> bool" where
  "serves v ts \<longleftrightarrow> (\<forall>n. last_tag TAG_SERVICE_NAME ts = [(TAG_SERVICE_NAME, n)] \<longrightarrow> n = [] \<or> n \<in> set (ServiceNames v))"

definition offer_body :: "server \<Rightarrow> iface \<Rightarrow> mac \<Rightarrow> (u16 \<times> byte_buf) list \<Rightarrow> byte_buf" where
  "offer_body v eif src ts = enc_tag TAG_AC_NAME (ACName v) @ max_bytes (if_mtu eif) (asked_payload ts) @ services_body (offered_services v) @
     enc_tag TAG_AC_COOKIE (the_cookie v src (if_mac eif)) @ enc_tags (map (Pair 0) (last_tag TAG_RELAY_SESSION_ID ts)) @
     enc_tags (map (Pair 0) (last_tag TAG_HOST_UNIQ ts))"

definition answers_padi :: "server \<Rightarrow> iface \<Rightarrow> packet \<Rightarrow> bool" where
  "answers_padi v eif p \<longleftrightarrow> draining v = DRAIN_OFF \<and> \<not> NOT_UNICAST (h_source p) \<and> \<not> (IgnorePADIIfNoFreeSessions v \<and> FreeSessions v = None) \<and>
     \<not> full_for v (h_source p) \<and> serves v (tags_of p) \<and> length (offer_body v eif (h_source p) (tags_of p)) \<le> 1502"

lemma service_asked:
  assumes "tag_type old = 0" "requestedService v = kept_tag TAG_SERVICE_NAME ts old" "\<forall>(ty, data)\<in>set ts. length data < 65536"
  shows "(tag_type (requestedService v) \<noteq> 0 \<and> ntohs (tag_length (requestedService v)) \<noteq> 0 \<and> service_named v = None) \<longleftrightarrow> \<not> serves v ts"
    "last_tag TAG_SERVICE_NAME ts = [] \<longleftrightarrow> tag_type (requestedService v) = 0"
    "last_tag TAG_SERVICE_NAME ts = [(TAG_SERVICE_NAME, n)] \<Longrightarrow> requestedService v = mk_tag TAG_SERVICE_NAME n \<and> length n < 65536 \<and>
       (ntohs (tag_length (requestedService v)) = 0 \<longleftrightarrow> n = []) \<and> service_named v = (if n \<in> set (ServiceNames v) then Some n else None)"
proof -
  have t: "tag_type (requestedService v) = 0 \<longleftrightarrow> last_tag TAG_SERVICE_NAME ts = []"
    using kept_tag_sent [OF assms(1) _ assms(3), of TAG_SERVICE_NAME] assms(2) by simp
  then show "last_tag TAG_SERVICE_NAME ts = [] \<longleftrightarrow> tag_type (requestedService v) = 0" by simp
  have find: "find (\<lambda>m. length n = length m \<and> take (length n) n = m) ns = (if n \<in> set ns then Some n else None)" for n :: byte_buf and ns
    by (induction ns) auto
  have n: "requestedService v = mk_tag TAG_SERVICE_NAME n \<and> length n < 65536 \<and> (ntohs (tag_length (requestedService v)) = 0 \<longleftrightarrow> n = []) \<and>
      service_named v = (if n \<in> set (ServiceNames v) then Some n else None)"
    if l: "last_tag TAG_SERVICE_NAME ts = [(TAG_SERVICE_NAME, n)]" for n
  proof -
    have m: "length n < 65536" using last_tag_cases [of TAG_SERVICE_NAME ts] l assms(3) by auto
    have r: "requestedService v = mk_tag TAG_SERVICE_NAME n" using assms(2) l by (simp add: kept_tag_def)
    have "(word_of_nat (length n) :: u16) = 0 \<longleftrightarrow> n = []" using m by (simp add: word_unat_eq_iff)
    then show ?thesis using m r find [of n "ServiceNames v"] by (simp add: mk_tag_def service_named_def Let_def)
  qed
  then show "last_tag TAG_SERVICE_NAME ts = [(TAG_SERVICE_NAME, n)] \<Longrightarrow> requestedService v = mk_tag TAG_SERVICE_NAME n \<and> length n < 65536 \<and>
      (ntohs (tag_length (requestedService v)) = 0 \<longleftrightarrow> n = []) \<and> service_named v = (if n \<in> set (ServiceNames v) then Some n else None)" .
  show "(tag_type (requestedService v) \<noteq> 0 \<and> ntohs (tag_length (requestedService v)) \<noteq> 0 \<and> service_named v = None) \<longleftrightarrow> \<not> serves v ts"
    using t n last_tag_cases [of TAG_SERVICE_NAME ts] by (auto simp: serves_def)
qed

lemma processPADI_ok:
  assumes inv: "srv_inv v" and p: "pkt_wf p"
  shows "\<exists>v'. processPADI v eif p = Some v' \<and> quiet v' = quiet v \<and> srv_wire v' = srv_wire v @
    (if answers_padi v eif p then [(if_sock eif, disc_frame (h_source p) (if_mac eif) CODE_PADO (offer_body v eif (h_source p) (tags_of p)))] else [])"
proof (cases "draining v \<noteq> DRAIN_OFF \<or> NOT_UNICAST (h_source p) \<or> (IgnorePADIIfNoFreeSessions v \<and> FreeSessions v = None) \<or> full_for v (h_source p)")
  case True
  obtain free busy where q: "pool v free busy" using inv by (rule srv_invE)
  have "processPADI v eif p = Some v" using True too_many_eq [OF q] by (auto simp: processPADI_def full_for_def)
  then show ?thesis using True by (auto simp: answers_padi_def)
next
  case False
  obtain free busy where q: "pool v free busy" "config_ok v" using inv by (rule srv_invE)
  let ?ts = "tags_of p"
  have short: "\<forall>(ty, data)\<in>set ?ts. length data < 65536" using tags_of_short by blast
  define v0 where "v0 = v\<lparr>reqRelayId := (reqRelayId v)\<lparr>tag_type := 0\<rparr>, reqHostUniq := (reqHostUniq v)\<lparr>tag_type := 0\<rparr>,
                requestedService := (requestedService v)\<lparr>tag_type := 0\<rparr>, max_ppp_payload := 0\<rparr>"
  have f: "tag_type (reqRelayId v0) = 0" "tag_type (reqHostUniq v0) = 0" "tag_type (requestedService v0) = 0" "max_ppp_payload v0 = 0"
    "unread v0 = unread v" by (simp_all add: v0_def unread_def)
  define v1 where "v1 = fold (\<lambda>(ty, data). parsePADITags ty (word_of_nat (length data)) data) ?ts v0"
  note r = read_request [OF short, of v0, folded v1_def]
  obtain rc where run: "parsePacket p parsePADITags v0 = Some (rc, v1)"
    using parsePacket_tags [OF p, of parsePADITags v0] by (auto simp: v1_def)
  have un: "unread v1 = unread v" using r(1) f(5) by simp
  note c = staticD [OF quietD(1) [OF unread_quiet(1) [OF un]]]
  have full: "too_many v (h_source p) = Some False" using too_many_eq [OF q(1)] False by (auto simp: full_for_def)
  have go: "processPADI v eif p = (if serves v1 ?ts then send_pado v1 eif p else Some v1)"
    using False full q(2) run service_asked(1) [OF f(3) r(5) short]
    by (auto simp: processPADI_def v0_def [symmetric] config_ok_def)
  have sv: "serves v1 ?ts = serves v ?ts" by (simp add: serves_def c)
  note k = kept_tag_sent [OF f(1) _ short, of TAG_RELAY_SESSION_ID, folded r(3)] kept_tag_sent [OF f(2) _ short, of TAG_HOST_UNIQ, folded r(4)]
  have ok: "saved_ok (reqRelayId v1)" "saved_ok (reqHostUniq v1)" using k by simp_all
  have pb: "pado_body v1 eif (h_source p) = offer_body v eif (h_source p) ?ts"
    using k r(2) f(4) by (simp add: pado_body_def offer_body_def c asked_payload_def offered_services_def the_cookie_def)
  have "config_ok v1" using unread_config [OF un] q(2) by simp
  from send_pado_ok [OF this ok, of eif p] obtain m where m: "send_pado v1 eif p = Some (v1\<lparr>max_ppp_payload := m, srv_wire := srv_wire v1 @
    (if length (offer_body v eif (h_source p) ?ts) \<le> 1502
     then [(if_sock eif, disc_frame (h_source p) (if_mac eif) CODE_PADO (offer_body v eif (h_source p) ?ts))] else [])\<rparr>)" unfolding pb by blast
  have qq: "quiet (v1\<lparr>max_ppp_payload := m, srv_wire := w\<rparr>) = quiet v" for m w
    using unread_quiet(1) [OF un] by (simp add: quiet_def unread_def)
  show ?thesis
  proof (cases "serves v ?ts")
    case True
    then show ?thesis using go sv m qq unread_quiet(2) [OF un] False by (simp add: answers_padi_def)
  next
    case no: False
    then show ?thesis using go sv unread_quiet [OF un] by (simp add: answers_padi_def)
  qed
qed

text \<open>What the server has read of a PADR with the tags \<open>ts\<close>.\<close>

definition has_read :: "server \<Rightarrow> (u16 \<times> byte_buf) list \<Rightarrow> bool" where
  "has_read v ts \<longleftrightarrow> max_ppp_payload v = asked_payload ts \<and>
     saved_bytes (reqRelayId v) = enc_tags (map (Pair 0) (last_tag TAG_RELAY_SESSION_ID ts)) \<and> saved_ok (reqRelayId v) \<and>
     saved_bytes (reqHostUniq v) = enc_tags (map (Pair 0) (last_tag TAG_HOST_UNIQ ts)) \<and> saved_ok (reqHostUniq v) \<and>
     (\<exists>old. tag_type old = 0 \<and> requestedService v = kept_tag TAG_SERVICE_NAME ts old) \<and>
     (\<exists>old. tag_type old = 0 \<and> receivedCookie v = kept_tag TAG_AC_COOKIE ts old)"

definition cookie_valid :: "server \<Rightarrow> iface \<Rightarrow> packet \<Rightarrow> bool" where
  "cookie_valid v eif p \<longleftrightarrow> last_tag TAG_AC_COOKIE (tags_of p) = [(TAG_AC_COOKIE, the_cookie v (h_source p) (if_mac eif))]"

definition reply_size :: "(u16 \<times> byte_buf) list \<Rightarrow> nat" where
  "reply_size ts = length (enc_tags (map (Pair 0) (last_tag TAG_RELAY_SESSION_ID ts))) + length (enc_tags (map (Pair 0) (last_tag TAG_HOST_UNIQ ts)))"

lemma cookie_checked:
  assumes h: "has_read v (tags_of p)" and c: "config_ok v"
  shows "(tag_type (receivedCookie v) \<noteq> 0 \<and> tag_length (receivedCookie v) = htons 20 \<and>
      take 20 (tag_payload (receivedCookie v)) = the_cookie v (h_source p) (if_mac eif)) \<longleftrightarrow> cookie_valid v eif p"
proof -
  let ?ts = "tags_of p"
  have short: "\<forall>(ty, data)\<in>set ?ts. length data < 65536" using tags_of_short by blast
  obtain old where o: "tag_type old = 0" "receivedCookie v = kept_tag TAG_AC_COOKIE ?ts old" using h by (auto simp: has_read_def)
  have t: "tag_type (receivedCookie v) = 0 \<longleftrightarrow> last_tag TAG_AC_COOKIE ?ts = []"
    using kept_tag_sent [OF o(1) _ short, of TAG_AC_COOKIE] o(2) by simp
  show ?thesis using last_tag_cases [of TAG_AC_COOKIE ?ts]
  proof (elim disjE exE conjE)
    fix d assume l: "last_tag TAG_AC_COOKIE ?ts = [(TAG_AC_COOKIE, d)]" "(TAG_AC_COOKIE, d) \<in> set ?ts"
    have d: "length d < 65536" using l(2) short by auto
    have r: "receivedCookie v = mk_tag TAG_AC_COOKIE d" using o(2) l(1) by (simp add: kept_tag_def)
    have "(word_of_nat (length d) :: u16) = 20 \<longleftrightarrow> length d = 20" using d by (simp add: word_unat_eq_iff)
    moreover have "length (the_cookie v a b) = 20" for a b by simp
    ultimately show ?thesis using t l(1) r by (auto simp: mk_tag_def cookie_valid_def)
  qed (use t in \<open>simp add: cookie_valid_def\<close>)
qed

lemma error_padr:
  assumes "has_read v ts" "length msg \<le> 49" "reply_size ts \<le> 1455"
  shows "\<exists>w. sendErrorPADS v sock source dest ty msg = Some (v\<lparr>srv_wire := w\<rparr>)"
proof -
  have "length (error_body v ty msg) \<le> 1508"
    using assms by (simp add: error_body_def has_read_def reply_size_def msg_bytes_def)
  then have "sendErrorPADS v sock source dest ty msg =
      Some (v\<lparr>srv_wire := srv_wire v @ [(sock, disc_frame dest source CODE_PADS (error_body v ty msg))]\<rparr>)"
    using sendErrorPADS_ok [of v msg sock source dest ty] assms by (simp add: has_read_def)
  then show ?thesis by (rule exI)
qed

lemma check_padr_ok:
  assumes h: "has_read v (tags_of p)" and c: "config_ok v" and f: "reply_size (tags_of p) \<le> 1455"
  shows "if cookie_valid v eif p \<and> last_tag TAG_SERVICE_NAME (tags_of p) \<noteq> [] \<and> serves v (tags_of p)
    then \<exists>n. last_tag TAG_SERVICE_NAME (tags_of p) = [(TAG_SERVICE_NAME, n)] \<and> check_padr v eif p = Some (Inr n)
    else \<exists>w. check_padr v eif p = Some (Inl (v\<lparr>srv_wire := w\<rparr>))"
proof -
  let ?ts = "tags_of p"
  have short: "\<forall>(ty, data)\<in>set ?ts. length data < 65536" using tags_of_short by blast
  obtain old where o: "tag_type old = 0" "requestedService v = kept_tag TAG_SERVICE_NAME ?ts old" using h by (auto simp: has_read_def)
  note s = service_asked [OF o short]
  have k: "genCookie (h_source p) (if_mac eif) (CookieSeed v) (getpid v) = Some (the_cookie v (h_source p) (if_mac eif))"
    using c by (simp add: genCookie_ok config_ok_def the_cookie_def)
  have same: "v\<lparr>srv_wire := srv_wire v\<rparr> = v" by simp
  have e: "\<exists>w. sendErrorPADS v (if_sock eif) (if_mac eif) (h_source p) TAG_SERVICE_NAME_ERROR msg = Some (v\<lparr>srv_wire := w\<rparr>)"
    if "length msg \<le> 49" for msg by (rule error_padr [OF h that f])
  show ?thesis
  proof (cases "cookie_valid v eif p")
    case False
    then have "check_padr v eif p = Some (Inl v)"
      using cookie_checked [OF h c, of eif] k by (auto simp: check_padr_def Let_def)
    then show ?thesis using False same by metis
  next
    case True
    then have ck: "tag_type (receivedCookie v) \<noteq> 0" "tag_length (receivedCookie v) = htons 20"
      "take 20 (tag_payload (receivedCookie v)) = the_cookie v (h_source p) (if_mac eif)"
      using cookie_checked [OF h c, of eif] by simp_all
    show ?thesis using last_tag_cases [of TAG_SERVICE_NAME ?ts]
    proof (elim disjE exE conjE)
      assume l: "last_tag TAG_SERVICE_NAME ?ts = []"
      from e [of "''RP-PPPoE: Server: No service name tag''"] obtain w where
        "sendErrorPADS v (if_sock eif) (if_mac eif) (h_source p) TAG_SERVICE_NAME_ERROR ''RP-PPPoE: Server: No service name tag'' = Some (v\<lparr>srv_wire := w\<rparr>)"
        by auto
      then have "check_padr v eif p = Some (Inl (v\<lparr>srv_wire := w\<rparr>))" using ck k l s(2) by (simp add: check_padr_def Let_def)
      then show ?thesis using l by auto
    next
      fix n assume l: "last_tag TAG_SERVICE_NAME ?ts = [(TAG_SERVICE_NAME, n)]"
      note n = s(3) [OF l]
      have z: "tag_type (requestedService v) \<noteq> 0" using s(2) l by simp
      show ?thesis
      proof (cases "serves v ?ts")
        case True
        then have "check_padr v eif p = Some (Inr n)" using ck k z n l by (auto simp: check_padr_def Let_def serves_def)
        then show ?thesis using l True \<open>cookie_valid v eif p\<close> by simp
      next
        case False
        from e [of "''RP-PPPoE: Server: Invalid service name tag''"] obtain w where
          "sendErrorPADS v (if_sock eif) (if_mac eif) (h_source p) TAG_SERVICE_NAME_ERROR ''RP-PPPoE: Server: Invalid service name tag'' = Some (v\<lparr>srv_wire := w\<rparr>)"
          by auto
        moreover have "n \<noteq> []" "n \<notin> set (ServiceNames v)" using False l by (auto simp: serves_def)
        moreover have "ntohs (tag_length (requestedService v)) \<noteq> 0" "service_named v = None" using n \<open>n \<noteq> []\<close> \<open>n \<notin> _\<close> by auto
        ultimately have "check_padr v eif p = Some (Inl (v\<lparr>srv_wire := w\<rparr>))" using ck k z by (simp add: check_padr_def Let_def)
        then show ?thesis using False by auto
      qed
    qed
  qed
qed

text \<open>Whether a PADR gets as far as the search for a slot.\<close>

definition padr_accepted :: "server \<Rightarrow> iface \<Rightarrow> packet \<Rightarrow> bool" where
  "padr_accepted v eif p \<longleftrightarrow> h_dest p = if_mac eif \<and> \<not> NOT_UNICAST (h_source p) \<and> \<not> full_for v (h_source p) \<and> cookie_valid v eif p \<and>
     last_tag TAG_SERVICE_NAME (tags_of p) \<noteq> [] \<and> serves v (tags_of p)"

text \<open>A PADR that is addressed to the server and within the limit is read, then checked.\<close>

lemma padr_read:
  assumes inv: "srv_inv v" and p: "pkt_wf p" and e: "arr_get (interfaces v) i = Some eif"
  shows "if h_dest p = if_mac eif \<and> \<not> NOT_UNICAST (h_source p) \<and> \<not> full_for v (h_source p)
    then \<exists>v1. unread v1 = unread v \<and> has_read v1 (tags_of p) \<and> config_ok v1 \<and> processPADR v i p fork = do {
         r \<leftarrow> check_padr v1 eif p; case r of Inl v \<Rightarrow> Some (v, None) | Inr name \<Rightarrow> open_session v1 i p name fork }
    else \<exists>v'. processPADR v i p fork = Some (v', None) \<and> quiet v' = quiet v"
proof -
  obtain free busy where q: "pool v free busy" "config_ok v" using inv by (rule srv_invE)
  let ?ts = "tags_of p"
  have short: "\<forall>(ty, data)\<in>set ?ts. length data < 65536" using tags_of_short by blast
  define v0 where "v0 = v\<lparr>reqRelayId := (reqRelayId v)\<lparr>tag_type := 0\<rparr>, reqHostUniq := (reqHostUniq v)\<lparr>tag_type := 0\<rparr>,
     receivedCookie := (receivedCookie v)\<lparr>tag_type := 0\<rparr>, requestedService := (requestedService v)\<lparr>tag_type := 0\<rparr>\<rparr>"
  define v2 where "v2 = v0\<lparr>max_ppp_payload := 0\<rparr>"
  have u0: "unread v0 = unread v" "unread v2 = unread v" by (simp_all add: v0_def v2_def unread_def)
  have f: "tag_type (reqRelayId v2) = 0" "tag_type (reqHostUniq v2) = 0" "tag_type (requestedService v2) = 0" "tag_type (receivedCookie v2) = 0"
    "max_ppp_payload v2 = 0" by (simp_all add: v0_def v2_def)
  define v1 where "v1 = fold (\<lambda>(ty, data). parsePADRTags ty (word_of_nat (length data)) data) ?ts v2"
  note r = read_request(6-11) [OF short, of v2, folded v1_def]
  obtain rc where run: "parsePacket p parsePADRTags v2 = Some (rc, v1)"
    using parsePacket_tags [OF p, of parsePADRTags v2] by (auto simp: v1_def)
  have un: "unread v1 = unread v" using r(1) u0 by simp
  have cfg: "config_ok v1" using unread_config [OF un] q(2) by simp
  note k = kept_tag_sent [OF f(1) _ short, of TAG_RELAY_SESSION_ID, folded r(3)] kept_tag_sent [OF f(2) _ short, of TAG_HOST_UNIQ, folded r(4)]
  have h: "has_read v1 ?ts" unfolding has_read_def using k r f by (auto simp: asked_payload_def)
  have i0: "interfaces v0 = interfaces v" "too_many v0 = too_many v"
  proof -
    show "interfaces v0 = interfaces v" by (simp add: v0_def)
    have "pool v0 free busy" by (rule pool_cong [OF q(1)]) (simp_all add: v0_def)
    moreover have "from_mac v0 busy eth = from_mac v busy eth" for eth by (simp add: from_mac_def v0_def)
    ultimately show "too_many v0 = too_many v" using q(1) by (simp add: fun_eq_iff too_many_eq v0_def)
  qed
  have full: "too_many v (h_source p) = Some (full_for v (h_source p))" using too_many_eq [OF q(1)] by (simp add: full_for_def)
  show ?thesis
  proof (cases "h_dest p = if_mac eif \<and> \<not> NOT_UNICAST (h_source p) \<and> \<not> full_for v (h_source p)")
    case False
    then have "processPADR v i p fork = Some (v0, None)"
      using e full i0 unfolding processPADR_def v0_def [symmetric] Let_def by auto
    then show ?thesis using False unread_quiet(1) [OF u0(1)] by auto
  next
    case True
    have go: "processPADR v i p fork = do {
         r \<leftarrow> check_padr v1 eif p; case r of Inl v \<Rightarrow> Some (v, None) | Inr name \<Rightarrow> open_session v1 i p name fork }"
      using e full i0 True run unfolding processPADR_def v0_def [symmetric] Let_def v2_def [symmetric] by simp
    show ?thesis unfolding if_P [OF True] by (intro exI [of _ v1] conjI un h cfg go)
  qed
qed

lemma serves_unread:
  assumes "unread v' = unread v"
  shows "serves v' ts = serves v ts" "cookie_valid v' eif p = cookie_valid v eif p"
proof -
  note c = staticD [OF quietD(1) [OF unread_quiet(1) [OF assms]]]
  show "serves v' ts = serves v ts" "cookie_valid v' eif p = cookie_valid v eif p"
    by (simp_all add: serves_def c cookie_valid_def the_cookie_def)
qed

lemma processPADR_ok:
  assumes inv: "srv_inv v" and p: "pkt_wf p" and e: "arr_get (interfaces v) i = Some eif" and fit: "reply_size (tags_of p) \<le> 1455"
  shows "if padr_accepted v eif p
    then \<exists>v1 n. unread v1 = unread v \<and> has_read v1 (tags_of p) \<and> last_tag TAG_SERVICE_NAME (tags_of p) = [(TAG_SERVICE_NAME, n)] \<and>
           processPADR v i p fork = open_session v1 i p n fork
    else \<exists>v'. processPADR v i p fork = Some (v', None) \<and> quiet v' = quiet v"
proof (cases "h_dest p = if_mac eif \<and> \<not> NOT_UNICAST (h_source p) \<and> \<not> full_for v (h_source p)")
  case False
  then show ?thesis using padr_read [OF inv p e, of fork] by (auto simp: padr_accepted_def)
next
  case True
  let ?ts = "tags_of p"
  from True padr_read [OF inv p e, of fork] obtain v1 where v1: "unread v1 = unread v" "has_read v1 ?ts" "config_ok v1"
    "processPADR v i p fork = do {
         r \<leftarrow> check_padr v1 eif p; case r of Inl v \<Rightarrow> Some (v, None) | Inr name \<Rightarrow> open_session v1 i p name fork }" by auto
  have acc: "padr_accepted v eif p \<longleftrightarrow> cookie_valid v1 eif p \<and> last_tag TAG_SERVICE_NAME ?ts \<noteq> [] \<and> serves v1 ?ts"
    using True by (simp add: padr_accepted_def serves_unread [OF v1(1)])
  have qq: "quiet (v1\<lparr>srv_wire := w\<rparr>) = quiet v" for w using unread_quiet(1) [OF v1(1)] by (simp add: quiet_def unread_def)
  note chk = check_padr_ok [OF v1(2,3) fit, of eif]
  show ?thesis
  proof (cases "padr_accepted v eif p")
    case True
    with chk obtain n where "last_tag TAG_SERVICE_NAME ?ts = [(TAG_SERVICE_NAME, n)]" "check_padr v1 eif p = Some (Inr n)"
      unfolding acc by auto
    then show ?thesis using True v1 by (simp, intro exI [of _ v1]) simp
  next
    case False
    with chk obtain w where "check_padr v1 eif p = Some (Inl (v1\<lparr>srv_wire := w\<rparr>))" unfolding acc by auto
    then show ?thesis using False v1(4) qq by simp
  qed
qed

section \<open>Opening a session\<close>

text \<open>The slot taken for a request, before the fork.\<close>

definition opened :: "server \<Rightarrow> nat \<Rightarrow> mac \<Rightarrow> nat \<Rightarrow> byte_buf \<Rightarrow> server" where
  "opened v s src i n = (case ask_time v of (now, v) \<Rightarrow>
     v\<lparr>Sessions := (Sessions v)[s := (Sessions v ! s)\<lparr>cs_eth := src, cs_ethif := Some i, cs_flags := 0, cs_startTime := now, cs_serviceName := Some n\<rparr>]\<rparr>)"

lemma open_slot:
  assumes v: "pool v (s # fs) busy" "slots_ok v busy" "0 \<le> MaxSessionsPerMac v" "config_ok v" and f: "\<not> full_for v src"
    and i: "i < length (interfaces v)"
  shows "\<exists>v2. pppoe_alloc_session v = Some (Some s, v2) \<and> pool (opened v2 s src i n) fs (s # busy) \<and> slots_ok (opened v2 s src i n) (s # busy) \<and>
    static (opened v2 s src i n) = static v \<and> s < length (Sessions v2) \<and> s \<notin> set busy \<and> core (opened v2 s src i n) = core v \<and>
    (let cl = Sessions (opened v2 s src i n) ! s in
      cs_eth cl = src \<and> cs_ethif cl = Some i \<and> cs_sess cl = cs_sess (Sessions v ! s) \<and> cs_serviceName cl = Some n \<and>
      cs_myip cl = cs_myip (Sessions v ! s) \<and> cs_peerip cl = cs_peerip (Sessions v ! s) \<and> cs_flags cl = 0 \<and> cs_requested_mtu cl = 0) \<and>
    (\<forall>t. t \<noteq> s \<longrightarrow> Sessions (opened v2 s src i n) ! t = Sessions v ! t)"
proof -
  from alloc_some [OF v(1)] obtain v2 where a: "pppoe_alloc_session v = Some (Some s, v2)" "pool v2 fs (s # busy)" "core v2 = core v"
    "\<forall>i. i \<noteq> s \<longrightarrow> Sessions v2 ! i = Sessions v ! i" "slot_data (Sessions v2 ! s) = fresh_slot (Sessions v ! s) (time_at v (times_asked v))"
    by blast
  let ?w = "opened v2 s src i n"
  have s: "s < length (Sessions v2)" "s \<notin> set busy" using a(2) pool_slot [OF a(2), of s] by (auto simp: pool_def)
  have w: "Sessions ?w = (Sessions v2)[s := (Sessions v2 ! s)\<lparr>cs_eth := src, cs_ethif := Some i, cs_flags := 0,
      cs_startTime := time_at v2 (times_asked v2), cs_serviceName := Some n\<rparr>]" by (simp add: opened_def ask_time_def)
  have "core ?w = core v2" by (simp add: opened_def ask_time_def core_def)
  then have cw: "core ?w = core v" using a(3) by simp
  have st: "static ?w = static v" using arg_cong [OF cw, of static] by (simp add: static_def core_def)
  note c = staticD [OF st]
  have "nx (Sessions ?w) = nx (Sessions v2)" unfolding w by (rule nx_same) (use s in simp_all)
  then have pool: "pool ?w fs (s # busy)" by (intro pool_cong [OF a(2)]) (simp_all add: opened_def ask_time_def)
  have other: "\<forall>t. t \<noteq> s \<longrightarrow> Sessions ?w ! t = Sessions v ! t" using a(4) w by simp
  have at: "Sessions ?w ! s = (Sessions v2 ! s)\<lparr>cs_eth := src, cs_ethif := Some i, cs_flags := 0,
      cs_startTime := time_at v2 (times_asked v2), cs_serviceName := Some n\<rparr>" using s(1) w by simp
  have "from_mac ?w (s # busy) eth = (if eth = src then 1 else 0) + from_mac v busy eth" for eth
  proof -
    have "filter (\<lambda>t. cs_eth (Sessions ?w ! t) = eth) busy = filter (\<lambda>t. cs_eth (Sessions v ! t) = eth) busy"
      by (rule filter_cong) (use other s(2) in auto)
    then show ?thesis by (auto simp: from_mac_def at)
  qed
  moreover have "0 < MaxSessionsPerMac v \<Longrightarrow> int (from_mac v busy src) < MaxSessionsPerMac v"
    using f too_many_eq [OF v(1), of src] by (auto simp: full_for_def)
  ultimately have mac: "0 < MaxSessionsPerMac v \<Longrightarrow> int (from_mac ?w (s # busy) eth) \<le> MaxSessionsPerMac v" for eth
    using v(2) by (auto simp: slots_ok_def)
  have eif: "\<exists>e<length (interfaces ?w). cs_ethif (Sessions ?w ! t) = Some e" if "t \<in> set (s # busy)" for t
    using that v(2) i other at c(1) by (cases "t = s") (auto simp: slots_ok_def)
  have slots: "slots_ok ?w (s # busy)" using v(2) mac eif c other by (auto simp: slots_ok_def)
  have "cs_sess (Sessions v2 ! s) = cs_sess (Sessions v ! s)" "cs_myip (Sessions v2 ! s) = cs_myip (Sessions v ! s)"
    "cs_peerip (Sessions v2 ! s) = cs_peerip (Sessions v ! s)" "cs_requested_mtu (Sessions v2 ! s) = 0"
    using arg_cong [OF a(5), of cs_sess] arg_cong [OF a(5), of cs_myip] arg_cong [OF a(5), of cs_peerip]
      arg_cong [OF a(5), of cs_requested_mtu] by (simp_all add: slot_data_def fresh_slot_def)
  then show ?thesis using a(1) s pool slots st cw other at by (intro exI [of _ v2]) (simp add: Let_def)
qed

definition waits_for :: "server \<Rightarrow> int \<Rightarrow> bool \<Rightarrow> nat \<Rightarrow> server" where
  "waits_for v child waited s =
     (let w = v\<lparr>Sessions := (Sessions v)[s := (Sessions v ! s)\<lparr>cs_pid := child\<rparr>]\<rparr> in if waited then Event_HandleChildExit w child s else w)"

lemma slots_ok_child:
  assumes "slots_ok v busy" "s \<in> set busy" "s \<notin> snd ` set (children v)"
  shows "slots_ok (Event_HandleChildExit v child s) busy"
proof -
  have "from_mac (Event_HandleChildExit v child s) busy eth = from_mac v busy eth" for eth
    by (simp add: from_mac_def Event_HandleChildExit_def)
  then show ?thesis using assms by (simp add: slots_ok_def) (simp add: Event_HandleChildExit_def)
qed

lemma open_session_ok:
  assumes v: "pool v free busy" "slots_ok v busy" "0 \<le> MaxSessionsPerMac v" "config_ok v" and f: "\<not> full_for v (h_source p)"
    and i: "arr_get (interfaces v) i = Some eif" and h: "has_read v ts" "reply_size ts \<le> 1455"
  shows "\<exists>v' r. open_session v i p n fork = Some (v', r) \<and> srv_inv v' \<and> NumSessionSlots v' = NumSessionSlots v \<and>
    (case free of [] \<Rightarrow> r = None \<and> quiet v' = quiet v
     | s # fs \<Rightarrow> (case fork of ForkFailed \<Rightarrow> r = None \<and> pool v' (fs @ [s]) busy
                | Forked child waited \<Rightarrow> r = Some s \<and> (\<exists>v2. pppoe_alloc_session v = Some (Some s, v2) \<and>
                    v' = waits_for (opened v2 s (h_source p) i n) child waited s)))"
proof (cases free)
  case Nil
  from error_padr [OF h(1) _ h(2), of "''RP-PPPoE: Server: No client slots available''"] obtain w where w:
    "sendErrorPADS v (if_sock eif) (if_mac eif) (h_source p) TAG_AC_SYSTEM_ERROR ''RP-PPPoE: Server: No client slots available'' = Some (v\<lparr>srv_wire := w\<rparr>)"
    by fastforce
  have "quiet (v\<lparr>srv_wire := w\<rparr>) = quiet v" by (simp add: quiet_def unread_def)
  then have "srv_inv (v\<lparr>srv_wire := w\<rparr>)" using quiet_inv srv_invI [OF v] by blast
  then show ?thesis using Nil i alloc_none [of v busy] v(1) w \<open>quiet _ = _\<close> by (simp add: open_session_def)
next
  case (Cons s fs)
  have il: "i < length (interfaces v)" using i by (simp add: arr_get_def split: if_splits)
  from open_slot [OF v(1) [unfolded Cons] v(2-4) f il, of n] obtain v2 where
    a: "pppoe_alloc_session v = Some (Some s, v2)" "s < length (Sessions v2)" "s \<notin> set busy" and
    w: "pool (opened v2 s (h_source p) i n) fs (s # busy)" "slots_ok (opened v2 s (h_source p) i n) (s # busy)"
       "static (opened v2 s (h_source p) i n) = static v" "core (opened v2 s (h_source p) i n) = core v" by blast
  let ?w = "opened v2 s (h_source p) i n"
  note c = staticD [OF w(3)]
  have cfg: "config_ok ?w" "0 \<le> MaxSessionsPerMac ?w" using v(3,4) c config_static [OF w(3)] by simp_all
  have run: "open_session v i p n fork = (case fork of
         ForkFailed \<Rightarrow> do {
           v \<leftarrow> sendErrorPADS ?w (if_sock eif) (if_mac eif) (h_source p) TAG_AC_SYSTEM_ERROR ''RP-PPPoE: Server: Unable to start session process'';
           (rc, v) \<leftarrow> pppoe_free_session v s;
           Some (v, None) }
       | Forked child waited \<Rightarrow> Some (waits_for ?w child waited s, Some s))"
    using i a by (cases fork) (simp_all add: open_session_def opened_def ask_time_def waits_for_def Let_def)
  show ?thesis
  proof (cases fork)
    case ForkFailed
    have h': "has_read ?w ts" using h(1) arg_cong [OF w(4), of max_ppp_payload] arg_cong [OF w(4), of reqRelayId] arg_cong [OF w(4), of reqHostUniq]
        arg_cong [OF w(4), of requestedService] arg_cong [OF w(4), of receivedCookie] by (simp add: has_read_def core_def)
    from error_padr [OF h' _ h(2), of "''RP-PPPoE: Server: Unable to start session process''"] obtain x where x:
      "sendErrorPADS ?w (if_sock eif) (if_mac eif) (h_source p) TAG_AC_SYSTEM_ERROR ''RP-PPPoE: Server: Unable to start session process'' = Some (?w\<lparr>srv_wire := x\<rparr>)"
      by fastforce
    have p3: "pool (?w\<lparr>srv_wire := x\<rparr>) fs (s # busy)" by (rule pool_cong [OF w(1)]) simp_all
    have s3: "slots_ok (?w\<lparr>srv_wire := x\<rparr>) (s # busy)" by (rule slots_okI [OF w(2)]) (simp_all add: static_def core_def)
    have nc: "s \<notin> snd ` set (children (?w\<lparr>srv_wire := x\<rparr>))" using v(2) a(3) c(2) by (auto simp: slots_ok_def)
    from free_inv [OF p3 s3 _ _ _ nc] cfg obtain v' where v': "pppoe_free_session (?w\<lparr>srv_wire := x\<rparr>) s = Some (0, v')" "srv_inv v'" "core v' = core (?w\<lparr>srv_wire := x\<rparr>)"
      by (auto simp: config_ok_def)
    from free_some [OF p3, of s] v'(1) have "pool v' (fs @ [s]) busy" by auto
    moreover have "NumSessionSlots v' = NumSessionSlots v" using arg_cong [OF v'(3), of NumSessionSlots] c(5) by (simp add: core_def)
    ultimately show ?thesis using Cons ForkFailed run x v' by simp
  next
    case (Forked child waited)
    let ?u = "?w\<lparr>Sessions := (Sessions ?w)[s := (Sessions ?w ! s)\<lparr>cs_pid := child\<rparr>]\<rparr>"
    have sl: "s < length (Sessions ?w)" using pool_slot [OF w(1), of s] by simp
    have pu: "pool ?u fs (s # busy)" by (rule pool_cong [OF w(1)]) (simp_all add: nx_same sl del: nx_upd)
    have su: "slots_ok ?u (s # busy)"
    proof (rule slots_okI [OF w(2)])
      show "static ?u = static ?w" by (simp add: static_def core_def)
      show "cs_ethif (Sessions ?u ! t) = cs_ethif (Sessions ?w ! t) \<and> cs_eth (Sessions ?u ! t) = cs_eth (Sessions ?w ! t)" for t
        using sl by (cases "t = s") simp_all
    qed
    have "pool (waits_for ?w child waited s) fs (s # busy)"
      by (rule pool_cong [OF pu]) (simp_all add: waits_for_def Event_HandleChildExit_def Let_def)
    moreover have "slots_ok (waits_for ?w child waited s) (s # busy)"
    proof -
      have "s \<notin> snd ` set (children ?u)" using v(2) a(3) c(2) by (auto simp: slots_ok_def)
      from slots_ok_child [OF su _ this, of child] su show ?thesis by (cases waited) (simp_all add: waits_for_def Let_def)
    qed
    moreover have "config_ok (waits_for ?w child waited s)" "0 \<le> MaxSessionsPerMac (waits_for ?w child waited s)"
      using cfg by (simp_all add: waits_for_def Event_HandleChildExit_def config_ok_def Let_def)
    ultimately have "srv_inv (waits_for ?w child waited s)" by (intro srv_invI)
    moreover have "NumSessionSlots (waits_for ?w child waited s) = NumSessionSlots v" using c(5) by (simp add: waits_for_def Event_HandleChildExit_def Let_def)
    ultimately show ?thesis using Cons Forked run a(1) by auto
  qed
qed

section \<open>PADT and the steps of the server\<close>

lemma processPADT_ok:
  assumes inv: "srv_inv v" and p: "pkt_wf p" and z: "h_source p \<noteq> no_mac"
  shows "\<exists>v'. processPADT v eif p = Some v' \<and> srv_inv v' \<and> srv_exited v' = srv_exited v"
proof -
  obtain free busy where q: "pool v free busy" "slots_ok v busy" using inv by (rule srv_invE)
  show ?thesis
  proof (cases "h_dest p = if_mac eif \<and> (\<exists>i. session_slot v (psession p) = Some i \<and> cs_sess (Sessions v ! i) = psession p \<and> h_source p = cs_eth (Sessions v ! i))")
    case False
    have "i < length (Sessions v)" if "session_slot v (psession p) = Some i" for i
      using that q(1) by (auto simp: session_slot_def pool_def Let_def split: if_splits)
    then have "processPADT v eif p = Some v" using False by (auto simp: processPADT_def split: option.splits)
    then show ?thesis using inv by simp
  next
    case True
    then obtain i where i: "session_slot v (psession p) = Some i" "cs_sess (Sessions v ! i) = psession p" "h_source p = cs_eth (Sessions v ! i)" by blast
    have l: "i < length (Sessions v)" "i < NumSessionSlots v" using i(1) q(1) by (auto simp: session_slot_def pool_def Let_def split: if_splits)
    have b: "i \<in> set busy" using i(3) z q(2) l(2) by (auto simp: slots_ok_def)
    obtain e eif' where e: "cs_ethif (Sessions v ! i) = Some e" "ethif_of v (Sessions v ! i) = Some eif'" using busy_slot [OF q b] by blast
    let ?c = "(Sessions v ! i)\<lparr>cs_flags := cs_flags (Sessions v ! i) OR FLAG_RECVD_PADT\<rparr>"
    let ?v = "v\<lparr>Sessions := (Sessions v)[i := ?c]\<rparr>"
    have "srv_inv ?v" by (rule inv_slot [OF inv l(1)]) simp_all
    moreover have "i < length (Sessions ?v)" "ethif_of ?v (Sessions ?v ! i) = Some eif'" using l(1) e by (simp_all add: ethif_of_def)
    ultimately obtain v' where "PppoeStopSession ?v i ''Received PADT'' = Some v'" "srv_inv v'" "srv_exited v' = srv_exited ?v"
      using stop_ok [of ?v i eif' "''Received PADT''"] by auto
    moreover obtain rc log where "parsePacket p parseLogErrs [] = Some (rc, log)" using parsePacket_tags [OF p, of parseLogErrs "[]"] by blast
    ultimately show ?thesis using True i l by (auto simp: processPADT_def)
  qed
qed

definition event_fine :: "server \<Rightarrow> server_event \<Rightarrow> bool" where
  "event_fine v ev \<longleftrightarrow> (case ev of
     Readable i (Recv p len) fork \<Rightarrow> i < length (interfaces v) \<and> pkt_wf p \<and> reply_size (tags_of p) \<le> 1455 \<and>
       (pcode p = CODE_PADT \<longrightarrow> h_source p \<noteq> no_mac)
   | _ \<Rightarrow> True)"

lemma serverProcessPacket_ok:
  assumes inv: "srv_inv v" and fine: "event_fine v (Readable i r fork)"
  shows "\<exists>v' k. serverProcessPacket v i r fork = Some (v', k) \<and> srv_inv v'"
proof (cases r)
  case RecvErr
  then show ?thesis using inv by (simp add: serverProcessPacket_def)
next
  case (Recv p len)
  have f: "i < length (interfaces v)" "pkt_wf p" "reply_size (tags_of p) \<le> 1455" "pcode p = CODE_PADT \<Longrightarrow> h_source p \<noteq> no_mac"
    using fine Recv by (simp_all add: event_fine_def)
  obtain eif where e: "arr_get (interfaces v) i = Some eif" using f(1) by (simp add: arr_get_def)
  obtain v1 where i1: "processPADI v eif p = Some v1" "srv_inv v1" using processPADI_ok [OF inv f(2), of eif] quiet_inv [OF _ inv] by blast
  have t1: "\<exists>v'. processPADT v eif p = Some v' \<and> srv_inv v'" if "pcode p = CODE_PADT" using processPADT_ok [OF inv f(2) f(4) [OF that]] by blast
  have r1: "\<exists>v' k. processPADR v i p fork = Some (v', k) \<and> srv_inv v'"
  proof (cases "padr_accepted v eif p")
    case False
    then show ?thesis using processPADR_ok [OF inv f(2) e f(3), of fork] quiet_inv [OF _ inv] by (auto split: if_splits)
  next
    case True
    with processPADR_ok [OF inv f(2) e f(3), of fork] obtain u n where u: "unread u = unread v" "has_read u (tags_of p)"
      "processPADR v i p fork = open_session u i p n fork" by auto
    have qu: "quiet u = quiet v" by (rule unread_quiet [OF u(1)])
    obtain free busy where q: "pool u free busy" "slots_ok u busy" "0 \<le> MaxSessionsPerMac u" "config_ok u"
      using quiet_inv [OF qu inv] by (rule srv_invE)
    obtain fv bv where qv: "pool v fv bv" "slots_ok v bv" using inv by (rule srv_invE)
    have "too_many u (h_source p) = too_many v (h_source p)"
    proof -
      have "pool u fv bv" by (rule pool_cong [OF qv(1)]) (simp_all add: quietD [OF qu] staticD [OF quietD(1) [OF qu]])
      moreover have "from_mac u bv eth = from_mac v bv eth" for eth by (simp add: from_mac_def quietD(2) [OF qu])
      ultimately show ?thesis using too_many_eq [of u fv bv] too_many_eq [OF qv(1)] staticD(3) [OF quietD(1) [OF qu]] by simp
    qed
    then have "\<not> full_for u (h_source p)" using True by (simp add: full_for_def padr_accepted_def)
    moreover have "arr_get (interfaces u) i = Some eif" using e staticD(1) [OF quietD(1) [OF qu]] by simp
    ultimately show ?thesis using open_session_ok [OF q _ _ u(2) f(3), of p i eif n fork] u(3) by metis
  qed
  show ?thesis using Recv inv e i1 t1 r1 by (auto simp: serverProcessPacket_def)
qed

lemma server_step_ok:
  assumes "srv_inv v" "event_fine v ev"
  shows "\<exists>v'. server_step v ev = Some v' \<and> srv_inv v'"
proof -
  have "\<exists>v'. handle_event v ev = Some v' \<and> srv_inv v'"
  proof (cases ev)
    case (Readable i r fork)
    then show ?thesis using serverProcessPacket_ok [of v i r fork] assms by (auto simp: handle_event_def)
  next
    case (ChildDied pid)
    then show ?thesis using child_handler_ok [OF assms(1), of pid] by (simp add: handle_event_def holds_def)
  next
    case (SetDrain arg)
    have "srv_inv (handle_set_drain v arg)"
      by (rule inv_static [OF assms(1)]) (simp_all add: handle_set_drain_def static_def core_def)
    then show ?thesis using SetDrain by (simp add: handle_event_def)
  next
    case TermSignal
    then show ?thesis using terminate_ok [OF assms(1)] by (simp add: handle_event_def holds_def)
  qed
  then show ?thesis using terminate_ok assms(1) by (auto simp: server_step_def holds_def)
qed

end
