(* ===== verification/Pppoe_Server_Setup.thy ===== *)
theory Pppoe_Server_Setup
  imports Pppoe_Server_Props "HOL-Library.Multiset"
begin

text \<open>
  The table of sessions as \<open>main\<close> sets it up is well-formed: for every pool of addresses and every order the random
  numbers give.
\<close>

section \<open>The address pool\<close>

fun line_size :: "pool_line \<Rightarrow> nat" where
  "line_size Skipped = 0"
| "line_size (Range a b c d e) = unat e - unat d + 1"
| "line_size _ = 1"

definition pool_size :: "byte_buf list \<Rightarrow> nat" where
  "pool_size ls = sum_list (map (\<lambda>l. line_size (read_pool_line l)) ls)"

lemma range_ordered: "read_pool_line l = Range a b c d e \<Longrightarrow> d \<le> e"
proof -
  assume r: "read_pool_line l = Range a b c d e"
  have "pool_both l \<noteq> Range a b c d e" "pool_remote l \<noteq> Range a b c d e"
    by (simp_all add: pool_both_def pool_remote_def split: list.splits)
  then have "pool_range l = Range a b c d e" using r by (auto simp: read_pool_line_def split: if_splits)
  then show "d \<le> e" by (auto simp: pool_range_def split: list.splits if_splits)
qed

lemma pool_steps_count: "pool_steps False ls (v, n) = Some (v, n + pool_size ls)"
proof (induction ls arbitrary: n)
  case (Cons l ls)
  then show ?case by (cases "read_pool_line l") (simp_all add: pool_step_def pool_size_def)
qed (simp add: pool_size_def)

text \<open>What filling in addresses leaves alone.\<close>

definition base :: "server \<Rightarrow> server" where
  "base v = v\<lparr>Sessions := [], LocalIP := IP 0 0 0 0, RemoteIP := IP 0 0 0 0\<rparr>"

definition unip :: "client_session \<Rightarrow> client_session" where
  "unip cl = cl\<lparr>cs_myip := IP 0 0 0 0, cs_peerip := IP 0 0 0 0\<rparr>"

definition same_but_ips :: "server \<Rightarrow> server \<Rightarrow> bool" where
  "same_but_ips v v' \<longleftrightarrow> base v' = base v \<and> map unip (Sessions v') = map unip (Sessions v)"

lemma same_refl [simp]: "same_but_ips v v" by (simp add: same_but_ips_def)
lemma same_trans: "same_but_ips v u \<Longrightarrow> same_but_ips u w \<Longrightarrow> same_but_ips v w" by (simp add: same_but_ips_def)

lemma same_length: "same_but_ips v u \<Longrightarrow> length (Sessions u) = length (Sessions v)"
  unfolding same_but_ips_def using map_eq_imp_length_eq by blast

lemma same_upd:
  assumes "i < length (Sessions v)" "unip c = unip (Sessions v ! i)"
  shows "same_but_ips v (v\<lparr>Sessions := (Sessions v)[i := c]\<rparr>)"
  using assms by (simp add: same_but_ips_def base_def map_update) (metis list_update_id map_update)

lemma install_range_ok:
  "n + length ds \<le> length (Sessions v) \<Longrightarrow>
   \<exists>v'. install_range a b c ds (v, n) = Some (v', n + length ds) \<and> same_but_ips v v'"
proof (induction ds arbitrary: v n)
  case (Cons d ds)
  let ?v = "v\<lparr>Sessions := (Sessions v)[n := (Sessions v ! n)\<lparr>cs_peerip := ip_of a b c d\<rparr>]\<rparr>"
  have s: "same_but_ips v ?v" by (rule same_upd) (use Cons.prems in \<open>simp_all add: unip_def\<close>)
  from Cons.IH [of "n + 1" ?v] Cons.prems same_trans [OF s] show ?case by auto
qed simp

lemma pool_steps_install:
  "n + pool_size ls \<le> length (Sessions v) \<Longrightarrow>
   \<exists>v'. pool_steps True ls (v, n) = Some (v', n + pool_size ls) \<and> same_but_ips v v'"
proof (induction ls arbitrary: v n)
  case (Cons l ls)
  have size: "pool_size (l # ls) = line_size (read_pool_line l) + pool_size ls" by (simp add: pool_size_def)
  have "\<exists>v1. pool_step True (read_pool_line l) (v, n) = Some (v1, n + line_size (read_pool_line l)) \<and> same_but_ips v v1"
  proof (cases "read_pool_line l")
    case (Both me peer)
    have "same_but_ips v (v\<lparr>Sessions := (Sessions v)[n := (Sessions v ! n)\<lparr>cs_myip := me, cs_peerip := peer\<rparr>]\<rparr>)"
      by (rule same_upd) (use Cons.prems size Both in \<open>simp_all add: unip_def\<close>)
    then show ?thesis using Both Cons.prems size by (simp add: pool_step_def)
  next
    case (Range a b c d e)
    have "unat d \<le> unat e" using range_ordered [OF Range] by (simp add: word_le_nat_alt)
    then have r: "length (range_from d e) = unat e - unat d + 1" by (simp add: range_from_def)
    then show ?thesis using Range Cons.prems size install_range_ok [of n "range_from d e" v a b c] by (simp add: pool_step_def)
  next
    case (Remote peer)
    have "same_but_ips v (v\<lparr>Sessions := (Sessions v)[n := (Sessions v ! n)\<lparr>cs_peerip := peer\<rparr>]\<rparr>)"
      by (rule same_upd) (use Cons.prems size Remote in \<open>simp_all add: unip_def\<close>)
    then show ?thesis using Remote Cons.prems size by (simp add: pool_step_def)
  qed (simp add: pool_step_def)
  then obtain v1 where v1: "pool_step True (read_pool_line l) (v, n) = Some (v1, n + line_size (read_pool_line l))" "same_but_ips v v1" by blast
  have "n + line_size (read_pool_line l) + pool_size ls \<le> length (Sessions v1)" using Cons.prems size same_length [OF v1(2)] by simp
  from Cons.IH [OF this] v1 size same_trans [OF v1(2)] show ?case by (auto simp: add.assoc)
qed (simp add: pool_size_def)

text \<open>The peer addresses of a pool, in the order of its lines.\<close>

fun line_peers :: "pool_line \<Rightarrow> ipv4 list" where
  "line_peers Skipped = []"
| "line_peers (Both me peer) = [peer]"
| "line_peers (Remote peer) = [peer]"
| "line_peers (Range a b c d e) = map (ip_of a b c) (range_from d e)"

definition pool_peers :: "byte_buf list \<Rightarrow> ipv4 list" where
  "pool_peers ls = concat (map (\<lambda>l. line_peers (read_pool_line l)) ls)"

abbreviation "peers v \<equiv> map cs_peerip (Sessions v)"

definition puts :: "server \<Rightarrow> nat \<Rightarrow> ipv4 list \<Rightarrow> server \<Rightarrow> bool" where
  "puts v n ips v' \<longleftrightarrow> n + length ips \<le> length (Sessions v) \<and> peers v' = take n (peers v) @ ips @ drop (n + length ips) (peers v)"

lemma puts_Nil: "n \<le> length (Sessions v) \<Longrightarrow> puts v n [] v" by (simp add: puts_def)

lemma puts_one:
  "n < length (Sessions v) \<Longrightarrow> upd_s v n f = Some v' \<Longrightarrow> (\<And>x. cs_peerip (f x) = ip) \<Longrightarrow> puts v n [ip] v'"
  by (auto simp: puts_def map_update upd_conv_take_nth_drop take_map drop_map)

lemma puts_length: "puts v n ips v' \<Longrightarrow> length (Sessions v') = length (Sessions v)"
proof -
  assume a: "puts v n ips v'"
  then have "length (peers v') = length (peers v)" unfolding puts_def by auto
  then show ?thesis by simp
qed

lemma puts_append:
  assumes "puts v n xs u" "puts u (n + length xs) ys w"
  shows "puts v n (xs @ ys) w"
proof -
  have "n + length xs + length ys \<le> length (Sessions v)" using assms(2) puts_length [OF assms(1)] by (simp add: puts_def)
  then show ?thesis using assms by (simp add: puts_def add.assoc add.commute [of "length ys"])
qed

lemma install_range_puts:
  "n + length ds \<le> length (Sessions v) \<Longrightarrow> install_range a b c ds (v, n) = Some (v', m) \<Longrightarrow> puts v n (map (ip_of a b c) ds) v'"
proof (induction ds arbitrary: v n)
  case (Cons d ds)
  have n: "n < length (Sessions v)" using Cons.prems(1) by simp
  obtain u where u: "upd_s v n (\<lambda>x. x\<lparr>cs_peerip := ip_of a b c d\<rparr>) = Some u" "install_range a b c ds (u, n + 1) = Some (v', m)"
    using Cons.prems n by auto
  have p: "puts v n [ip_of a b c d] u" by (rule puts_one [OF n u(1)]) simp
  have "puts u (n + 1) (map (ip_of a b c) ds) v'" using Cons.IH [OF _ u(2)] Cons.prems(1) puts_length [OF p] by simp
  then show ?case using puts_append [OF p, of "map (ip_of a b c) ds" v'] by simp
qed (simp add: puts_Nil)

lemma length_line_peers: "length (line_peers (read_pool_line l)) = line_size (read_pool_line l)"
proof (cases "read_pool_line l")
  case (Range a b c d e)
  have "unat d \<le> unat e" using range_ordered [OF Range] by (simp add: word_le_nat_alt)
  then show ?thesis using Range by (simp add: range_from_def)
qed simp_all

lemma pool_step_puts:
  assumes "n + line_size (read_pool_line l) \<le> length (Sessions v)" "pool_step True (read_pool_line l) (v, n) = Some (v', m)"
  shows "puts v n (line_peers (read_pool_line l)) v' \<and> m = n + line_size (read_pool_line l)"
proof (cases "read_pool_line l")
  case (Both me peer)
  then show ?thesis using assms puts_one [of n v "\<lambda>x. x\<lparr>cs_myip := me, cs_peerip := peer\<rparr>" _ peer] by (auto simp: pool_step_def)
next
  case (Remote peer)
  then show ?thesis using assms puts_one [of n v "\<lambda>x. x\<lparr>cs_peerip := peer\<rparr>" _ peer] by (auto simp: pool_step_def)
next
  case (Range a b c d e)
  have l: "n + length (range_from d e) \<le> length (Sessions v)" using assms(1) length_line_peers [of l] Range by simp
  from install_range_ok [OF l, of a b c] install_range_puts [OF l, of a b c] show ?thesis
    using assms Range length_line_peers [of l] by (auto simp: pool_step_def)
qed (use assms in \<open>simp add: pool_step_def puts_Nil\<close>)

lemma pool_steps_puts:
  "n + pool_size ls \<le> length (Sessions v) \<Longrightarrow> pool_steps True ls (v, n) = Some (v', m) \<Longrightarrow> puts v n (pool_peers ls) v'"
proof (induction ls arbitrary: v n)
  case (Cons l ls)
  have s: "pool_size (l # ls) = line_size (read_pool_line l) + pool_size ls" by (simp add: pool_size_def)
  obtain u k where u: "pool_step True (read_pool_line l) (v, n) = Some (u, k)" "pool_steps True ls (u, k) = Some (v', m)"
    using Cons.prems(2) by (auto simp: bind_eq_Some_conv)
  have p: "puts v n (line_peers (read_pool_line l)) u" "k = n + line_size (read_pool_line l)"
    using pool_step_puts [OF _ u(1)] Cons.prems(1) s by simp_all
  have "puts u k (pool_peers ls) v'" using Cons.IH [OF _ u(2)] Cons.prems(1) puts_length [OF p(1)] p(2) s by simp
  then show ?case using puts_append [OF p(1), of "pool_peers ls" v'] p(2) length_line_peers [of l] by (simp add: pool_peers_def)
qed (simp add: puts_Nil pool_peers_def pool_size_def)

lemma length_pool_peers: "length (pool_peers ls) = pool_size ls"
  by (induction ls) (simp_all add: pool_peers_def pool_size_def length_line_peers)

section \<open>The table\<close>

lemma fill_local_ok:
  "set is \<subseteq> {..<length (Sessions v)} \<Longrightarrow> \<exists>v'. fill_local is v = Some v' \<and> same_but_ips v v'"
proof (induction "is" arbitrary: v)
  case (Cons i "is")
  let ?v = "v\<lparr>Sessions := (Sessions v)[i := (Sessions v ! i)\<lparr>cs_myip := LocalIP v\<rparr>]\<rparr>"
  let ?w = "if IncrLocalIP ?v then ?v\<lparr>LocalIP := incrementIPAddress (LocalIP ?v)\<rparr> else ?v"
  have "same_but_ips v ?v" by (rule same_upd) (use Cons.prems in \<open>simp_all add: unip_def\<close>)
  moreover have "same_but_ips ?v ?w" by (simp add: same_but_ips_def base_def)
  ultimately have s: "same_but_ips v ?w" by (rule same_trans)
  have "set is \<subseteq> {..<length (Sessions ?w)}" using Cons.prems by simp
  from Cons.IH [OF this] obtain v' where "fill_local is ?w = Some v'" "same_but_ips ?w v'" by blast
  then show ?case using Cons.prems same_trans [OF s] by auto
qed simp

lemma swap_mset: "i < length xs \<Longrightarrow> j < length xs \<Longrightarrow> mset (xs[j := xs ! i, i := xs ! j]) = mset xs"
  by (rule mset_swap)

lemma shuffle_ok:
  "set is \<subseteq> {..<length ps} \<Longrightarrow> \<exists>qs. shuffle_rounds rands is ps = Some qs \<and> mset qs = mset ps"
proof (induction "is" arbitrary: ps)
  case (Cons i "is")
  define j where "j = i + rands i mod (length ps - i)"
  have i: "i < length ps" using Cons.prems by simp
  have j: "j < length ps" using i mod_less_divisor [of "length ps - i" "rands i"] unfolding j_def by linarith
  define qs where "qs = (if j \<noteq> i then ps[j := ps ! i, i := ps ! j] else ps)"
  have m: "mset qs = mset ps" "length qs = length ps" using swap_mset [OF i j] by (simp_all add: qs_def)
  have "shuffle_rounds rands (i # is) ps = shuffle_rounds rands is qs"
    using i j by (simp add: j_def [symmetric] qs_def arr_get_def arr_upd_def Let_def)
  then show ?case using Cons.IH [of qs] Cons.prems m by auto
qed simp

lemma permutation_ok: "\<exists>ps. permutation n rands = Some ps \<and> mset ps = mset [0..<n]"
proof (cases rands)
  case (Some r)
  have "set [0..<n - 1] \<subseteq> {..<length [0..<n]}" by auto
  from shuffle_ok [OF this, of r] show ?thesis using Some by (simp add: permutation_def)
qed (simp add: permutation_def)

lemma link_ok:
  "distinct ps \<Longrightarrow> ps \<noteq> [] \<Longrightarrow> set ps \<subseteq> {..<length (Sessions v)} \<Longrightarrow>
   \<exists>v'. link_sessions ps v = Some v' \<and> slist (nx (Sessions v')) (Some (hd ps)) ps \<and> length (Sessions v') = length (Sessions v) \<and>
     v'\<lparr>Sessions := []\<rparr> = v\<lparr>Sessions := []\<rparr> \<and> (\<forall>i. slot_data (Sessions v' ! i) = slot_data (Sessions v ! i)) \<and>
     (\<forall>i. i \<notin> set ps \<longrightarrow> Sessions v' ! i = Sessions v ! i)"
proof (induction ps v rule: link_sessions.induct)
  case (1 p q ps v)
  let ?v = "v\<lparr>Sessions := (Sessions v)[p := (Sessions v ! p)\<lparr>cs_next := Some q\<rparr>]\<rparr>"
  have p: "p < length (Sessions v)" "upd_s v p (\<lambda>x. x\<lparr>cs_next := Some q\<rparr>) = Some ?v" using 1(4) by simp_all
  have "distinct (q # ps)" "set (q # ps) \<subseteq> {..<length (Sessions ?v)}" using 1(2,4) by simp_all
  from 1(1) [OF p(2) this(1) _ this(2)] obtain v' where v': "link_sessions (q # ps) ?v = Some v'" "slist (nx (Sessions v')) (Some q) (q # ps)"
    "length (Sessions v') = length (Sessions ?v)" "v'\<lparr>Sessions := []\<rparr> = ?v\<lparr>Sessions := []\<rparr>"
    "\<forall>i. slot_data (Sessions v' ! i) = slot_data (Sessions ?v ! i)" "\<forall>i. i \<notin> set (q # ps) \<longrightarrow> Sessions v' ! i = Sessions ?v ! i"
    by auto
  have "slot_data (Sessions ?v ! i) = slot_data (Sessions v ! i)" for i using p(1) by (cases "i = p") (simp_all add: slot_data_def)
  moreover have "nx (Sessions v') p = Some q" using v'(6) 1(2) p(1) by (simp add: nx_def)
  ultimately show ?case using v' p by (intro exI [of _ v']) auto
next
  case (2 p v)
  have "slot_data ((Sessions v)[p := (Sessions v ! p)\<lparr>cs_next := None\<rparr>] ! i) = slot_data (Sessions v ! i)" for i
    using 2(3) by (cases "i = p") (simp_all add: slot_data_def)
  then show ?case using 2 by simp
qed simp

lemma number_ok:
  "distinct is \<Longrightarrow> set is \<subseteq> {..<length (Sessions v)} \<Longrightarrow>
   \<exists>v'. number_sessions addrs is v = Some v' \<and> base v' = base v \<and> length (Sessions v') = length (Sessions v) \<and>
     (\<forall>j. unip (Sessions v' ! j) = (if j \<in> set is then (unip (Sessions v ! j))\<lparr>cs_pid := 0, cs_sess := htons (word_of_nat (j + 1 + SessOffset v))\<rparr>
                                   else unip (Sessions v ! j)))"
proof (induction "is" arbitrary: v)
  case (Cons i "is")
  let ?c = "(Sessions v ! i)\<lparr>cs_pid := 0, cs_sess := htons (word_of_nat (i + 1 + SessOffset v))\<rparr>"
  let ?v = "v\<lparr>Sessions := (Sessions v)[i := ?c]\<rparr>"
  define w where "w = (if \<not> addrs \<and> \<not> ipIsNull (RemoteIP v)
     then ?v\<lparr>Sessions := (Sessions ?v)[i := (Sessions ?v ! i)\<lparr>cs_peerip := RemoteIP v\<rparr>], RemoteIP := incrementIPAddress (RemoteIP v)\<rparr> else ?v)"
  have i: "i < length (Sessions v)" "i \<notin> set is" using Cons.prems by simp_all
  have w: "base w = base v" "length (Sessions w) = length (Sessions v)" "SessOffset w = SessOffset v"
    "unip (Sessions w ! j) = (if j = i then unip ?c else unip (Sessions v ! j))" for j
    using i by (auto simp: w_def base_def unip_def)
  have run: "number_sessions addrs (i # is) v = number_sessions addrs is w"
    using i(1) by (simp add: w_def Let_def)
  have "set is \<subseteq> {..<length (Sessions w)}" using Cons.prems w(2) by simp
  from Cons.IH [OF _ this] Cons.prems obtain v' where v': "number_sessions addrs is w = Some v'" "base v' = base w" "length (Sessions v') = length (Sessions w)"
    "\<forall>j. unip (Sessions v' ! j) = (if j \<in> set is then (unip (Sessions w ! j))\<lparr>cs_pid := 0, cs_sess := htons (word_of_nat (j + 1 + SessOffset w))\<rparr>
                                   else unip (Sessions w ! j))" by auto
  have "unip ?c = (unip (Sessions v ! i))\<lparr>cs_pid := 0, cs_sess := htons (word_of_nat (i + 1 + SessOffset v))\<rparr>" by (simp add: unip_def)
  then have "\<forall>j. unip (Sessions v' ! j) = (if j \<in> set (i # is) then (unip (Sessions v ! j))\<lparr>cs_pid := 0, cs_sess := htons (word_of_nat (j + 1 + SessOffset v))\<rparr>
                                   else unip (Sessions v ! j))" using v'(4) w(3,4) i(2) by auto
  then show ?case using run v' w by (intro exI [of _ v']) simp
qed simp

lemma number_peers: "number_sessions True is v = Some v' \<Longrightarrow> peers v' = peers v"
proof (induction "is" arbitrary: v)
  case (Cons i "is")
  let ?f = "\<lambda>x. x\<lparr>cs_pid := 0, cs_sess := htons (word_of_nat (i + 1 + SessOffset v))\<rparr>"
  obtain u where u: "upd_s v i ?f = Some u" "number_sessions True is u = Some v'"
    using Cons.prems by (auto simp: bind_eq_Some_conv)
  have i: "i < length (Sessions v)" using u(1) by (auto simp: upd_s_def arr_upd_def split: if_splits)
  have "peers u = peers v" using u(1) i by (auto simp: map_update) (metis length_map list_update_id nth_map)
  then show ?case using Cons.IH [OF u(2)] by simp
qed simp

definition server_start :: "server \<Rightarrow> bool" where
  "server_start v \<longleftrightarrow> config_ok v \<and> 0 \<le> MaxSessionsPerMac v \<and> children v = [] \<and> NumActiveSessions v = 0 \<and> srv_exited v = None"

lemma slot_of_number:
  assumes "i < NumSessionSlots v" "NumSessionSlots v + SessOffset v \<le> 65534"
  shows "session_slot v (htons (word_of_nat (i + 1 + SessOffset v))) = Some i"
proof -
  have "unat (word_of_nat (i + 1 + SessOffset v) :: u16) = i + 1 + SessOffset v" using assms by (intro unat_u16_of_nat) simp
  then show ?thesis using assms by (simp add: session_slot_def Let_def)
qed

lemma base_fields:
  assumes "base v' = base v"
  shows "NumSessionSlots v' = NumSessionSlots v" "SessOffset v' = SessOffset v" "MaxSessionsPerMac v' = MaxSessionsPerMac v"
    "children v' = children v" "NumActiveSessions v' = NumActiveSessions v" "srv_exited v' = srv_exited v" "config_ok v' = config_ok v"
    "interfaces v' = interfaces v"
  using arg_cong [OF assms, of NumSessionSlots] arg_cong [OF assms, of SessOffset] arg_cong [OF assms, of MaxSessionsPerMac]
    arg_cong [OF assms, of children] arg_cong [OF assms, of NumActiveSessions] arg_cong [OF assms, of srv_exited] arg_cong [OF assms, of config_ok]
    arg_cong [OF assms, of interfaces]
  by (simp_all add: base_def) (simp add: config_ok_def)

text \<open>The table once the addresses are filled in, numbered and linked.\<close>

lemma build_ok:
  assumes v: "server_start v" and n: "NumSessionSlots v = n" "0 < n" "n + SessOffset v \<le> 65534"
    and a: "\<forall>ls. addrs = Some ls \<longrightarrow> pool_size ls = n"
  defines "v0 \<equiv> v\<lparr>Sessions := replicate n empty_session\<rparr>"
  shows "\<exists>v'. do {
       v \<leftarrow> fill_local [0..<n] v0;
       v \<leftarrow> (case addrs of None \<Rightarrow> Some v | Some ls \<Rightarrow> do { (v, k) \<leftarrow> parseAddressPool v ls True; Some v });
       v \<leftarrow> number_sessions (addrs \<noteq> None) [0..<n] v;
       ps \<leftarrow> permutation n rands;
       v \<leftarrow> link_sessions ps v;
       Some (v\<lparr>FreeSessions := Some (hd ps), LastFreeSession := Some (last ps), BusySessions := None\<rparr>) } = Some v' \<and>
    srv_exited v' = None \<and> srv_inv v' \<and> length (Sessions v') = n \<and> SessOffset v' = SessOffset v \<and> interfaces v' = interfaces v \<and> (\<exists>ps. pool v' ps [] \<and> mset ps = mset [0..<n]) \<and>
    (\<forall>i<n. cs_sess (Sessions v' ! i) = htons (word_of_nat (i + 1 + SessOffset v))) \<and>
    (\<forall>ls. addrs = Some ls \<longrightarrow> peers v' = pool_peers ls)"
proof -
  have "set [0..<n] \<subseteq> {..<length (Sessions v0)}" by (auto simp: v0_def)
  from fill_local_ok [OF this] obtain v1 where v1: "fill_local [0..<n] v0 = Some v1" "same_but_ips v0 v1" by blast
  have "\<exists>v2. (case addrs of None \<Rightarrow> Some v1 | Some ls \<Rightarrow> do { (v, k) \<leftarrow> parseAddressPool v1 ls True; Some v }) = Some v2 \<and> same_but_ips v0 v2"
  proof (cases addrs)
    case (Some ls)
    have "0 + pool_size ls \<le> length (Sessions v1)" using a Some same_length [OF v1(2)] by (simp add: v0_def)
    from pool_steps_install [OF this] Some a n(2) same_trans [OF v1(2)] show ?thesis by (auto simp: parseAddressPool_def)
  qed (use v1 in simp)
  then obtain v2 where v2: "(case addrs of None \<Rightarrow> Some v1 | Some ls \<Rightarrow> do { (v, k) \<leftarrow> parseAddressPool v1 ls True; Some v }) = Some v2"
    "same_but_ips v0 v2" by blast
  have l2: "length (Sessions v2) = n" using same_length [OF v2(2)] by (simp add: v0_def)
  have b2: "base v2 = base v0" using v2(2) by (simp add: same_but_ips_def)
  have u2: "unip (Sessions v2 ! j) = empty_session" if "j < n" for j
  proof -
    have "map unip (Sessions v2) ! j = map unip (Sessions v0) ! j" using v2(2) by (simp add: same_but_ips_def)
    then show ?thesis using that l2 by (simp add: v0_def unip_def empty_session_def)
  qed
  have "set [0..<n] \<subseteq> {..<length (Sessions v2)}" using l2 by auto
  from number_ok [OF _ this, of "addrs \<noteq> None"] obtain v3 where v3: "number_sessions (addrs \<noteq> None) [0..<n] v2 = Some v3" "base v3 = base v2"
    "length (Sessions v3) = n" "\<And>j. j < n \<Longrightarrow> unip (Sessions v3 ! j) = (unip (Sessions v2 ! j))\<lparr>cs_pid := 0, cs_sess := htons (word_of_nat (j + 1 + SessOffset v2))\<rparr>"
    using l2 by auto
  obtain ps where ps: "permutation n rands = Some ps" "mset ps = mset [0..<n]" using permutation_ok by blast
  have d1: "distinct ps" using mset_eq_imp_distinct_iff [OF ps(2)] by simp
  have d2: "set ps = {..<n}" using mset_eq_setD [OF ps(2)] by (simp add: atLeast0LessThan)
  have "ps \<noteq> []" using d2 n(2) by (cases ps) auto
  then have d: "distinct ps" "set ps = {..<n}" "ps \<noteq> []" using d1 d2 by simp_all
  have "set ps \<subseteq> {..<length (Sessions v3)}" using d(2) v3(3) by simp
  from link_ok [OF d(1,3) this] obtain v4 where v4: "link_sessions ps v3 = Some v4" "slist (nx (Sessions v4)) (Some (hd ps)) ps"
    "length (Sessions v4) = n" "v4\<lparr>Sessions := []\<rparr> = v3\<lparr>Sessions := []\<rparr>" "\<And>i. slot_data (Sessions v4 ! i) = slot_data (Sessions v3 ! i)"
    using v3(3) by auto
  define v' where "v' = v4\<lparr>FreeSessions := Some (hd ps), LastFreeSession := Some (last ps), BusySessions := None\<rparr>"
  have b0: "base v0 = base v" by (simp add: v0_def base_def)
  have b4: "base v4 = base v3" using arg_cong [OF v4(4), of base] by (simp add: base_def)
  note f = base_fields [OF trans [OF b4 trans [OF v3(2) trans [OF b2 b0]]]]
  have sess: "cs_sess (Sessions v' ! j) = htons (word_of_nat (j + 1 + SessOffset v)) \<and> cs_eth (Sessions v' ! j) = no_mac" if "j < n" for j
  proof -
    have s: "SessOffset v2 = SessOffset v" using base_fields(2) [OF trans [OF b2 b0]] .
    have e: "slot_data (Sessions v4 ! j) = slot_data (Sessions v3 ! j)" by (rule v4(5))
    have "cs_sess (Sessions v4 ! j) = cs_sess (Sessions v3 ! j) \<and> cs_eth (Sessions v4 ! j) = cs_eth (Sessions v3 ! j)"
      using arg_cong [OF e, of cs_sess] arg_cong [OF e, of cs_eth] by (simp add: slot_data_def)
    moreover have "cs_sess (Sessions v3 ! j) = htons (word_of_nat (j + 1 + SessOffset v)) \<and> cs_eth (Sessions v3 ! j) = no_mac"
    proof -
      have u: "unip (Sessions v3 ! j) = empty_session\<lparr>cs_pid := 0, cs_sess := htons (word_of_nat (j + 1 + SessOffset v))\<rparr>"
        using v3(4) [OF that] u2 [OF that] s by simp
      have "cs_sess (unip c) = cs_sess c" "cs_eth (unip c) = cs_eth c" for c by (simp_all add: unip_def)
      then show ?thesis using arg_cong [OF u, of cs_sess] arg_cong [OF u, of cs_eth] by (simp add: empty_session_def)
    qed
    ultimately show ?thesis by (simp add: v'_def)
  qed
  have p: "pool v' ps []" using v4(2,3) d n f by (simp add: v'_def pool_def v0_def server_start_def [of v] v [unfolded server_start_def])
  have "slots_ok v' []" using v sess f n(1) by (auto simp: slots_ok_def v'_def server_start_def from_mac_def)
  then have "srv_inv v'" using p v f by (intro srv_invI) (simp_all add: v'_def server_start_def config_ok_def)
  moreover have "srv_exited v' = None" "SessOffset v' = SessOffset v" "interfaces v' = interfaces v" using v f by (simp_all add: v'_def server_start_def)
  moreover have lv': "length (Sessions v') = n" using v4(3) by (simp add: v'_def)
  moreover have "\<forall>ls. addrs = Some ls \<longrightarrow> peers v' = pool_peers ls"
  proof (intro allI impI)
    fix ls assume l: "addrs = Some ls"
    have s: "pool_size ls = n" "length (Sessions v1) = n" using a l same_length [OF v1(2)] by (simp_all add: v0_def)
    obtain k where "pool_steps True ls (v1, 0) = Some (v2, k)"
      using v2(1) l pool_steps_install [of 0 ls v1] s n(2) by (auto simp: parseAddressPool_def split: if_splits)
    from pool_steps_puts [OF _ this] s length_pool_peers [of ls] have "peers v2 = pool_peers ls" by (simp add: puts_def)
    then have p3: "peers v3 = pool_peers ls" using number_peers [of "[0..<n]" v2 v3] v3(1) l by simp
    have "cs_peerip (Sessions v4 ! j) = cs_peerip (Sessions v3 ! j)" for j
    proof -
      have e: "slot_data (Sessions v4 ! j) = slot_data (Sessions v3 ! j)" by (rule v4(5))
      show ?thesis using arg_cong [OF e, of cs_peerip] by (simp add: slot_data_def)
    qed
    then have "peers v4 = peers v3" using v4(3) v3(3) by (intro nth_equalityI) simp_all
    then show "peers v' = pool_peers ls" using p3 by (simp add: v'_def)
  qed
  ultimately show ?thesis
    using p ps(2) sess unfolding v1(1) bind.bind_lunit v2(1) v3(1) ps(1) v4(1) v'_def [symmetric] by blast
qed

end
