(* ===== verification/Pppoe_Server_Reach.thy ===== *)
theory Pppoe_Server_Reach
  imports Pppoe_Server_Setup
begin

text \<open>
  What the PPPoE server does from its set-up on: it never faults, except for the two packets whose faults are theorems of
  their own; it answers a PADI and opens a session for a PADR exactly under the conditions stated here.
\<close>

section \<open>The table\<close>

definition slots_wanted :: "server \<Rightarrow> byte_buf list option \<Rightarrow> nat" where
  "slots_wanted v addrs = (case addrs of None \<Rightarrow> NumSessionSlots v | Some ls \<Rightarrow> pool_size ls)"

lemma server_start_slots: "server_start (v\<lparr>NumSessionSlots := n\<rparr>) = server_start v"
  by (simp add: server_start_def config_ok_def)

definition example_iface :: iface where
  "example_iface = \<lparr>if_name = msg_bytes ''eth0'', if_sock = 5, if_mac = Mac 2 0 0 0 0 1, if_mtu = 1500\<rparr>"

definition example_server :: server where
  "example_server = \<lparr>Sessions = [], FreeSessions = None, LastFreeSession = None, BusySessions = None, NumSessionSlots = 64,
     NumActiveSessions = 0, SessOffset = 0, MaxSessionsPerMac = 1, interfaces = [example_iface], draining = DRAIN_OFF,
     ServiceNames = [msg_bytes ''net''], IgnorePADIIfNoFreeSessions = True, ACName = msg_bytes ''ac'', CookieSeed = replicate 16 7,
     getpid = 77, LocalIP = IP 10 0 0 1, RemoteIP = IP 0 0 0 0, IncrLocalIP = False, max_ppp_payload = 0, reqHostUniq = no_tag,
     reqRelayId = no_tag, receivedCookie = no_tag, requestedService = no_tag, time_at = int, times_asked = 0, srv_wire = [],
     killed = [], children = [], srv_exited = None\<rparr>"

lemma example_start: "server_start example_server" "SessOffset example_server = 0" "NumSessionSlots example_server = 64"
  "interfaces example_server = [example_iface]"
  by (simp_all add: server_start_def config_ok_def example_server_def msg_bytes_def)

lemma setup_slots:
  assumes "server_start v" "addrs = None \<Longrightarrow> 0 < NumSessionSlots v" "n = slots_wanted v addrs"
  shows "\<exists>v'. setup_sessions v addrs rands = Some v' \<and>
    (if n = 0 \<or> n + SessOffset v > 65534 then srv_exited v' = Some 1
     else srv_exited v' = None \<and> srv_inv v' \<and> length (Sessions v') = n \<and> SessOffset v' = SessOffset v \<and> interfaces v' = interfaces v \<and>
       (\<exists>ps. pool v' ps [] \<and> mset ps = mset [0..<n]) \<and>
       (\<forall>i<n. cs_sess (Sessions v' ! i) = htons (word_of_nat (i + 1 + SessOffset v))) \<and> (\<forall>ls. addrs = Some ls \<longrightarrow> peers v' = pool_peers ls))"
proof -
  note n_def = assms(3)
  have x: "srv_exited v = None" using assms(1) by (simp add: server_start_def)
  define u where "u = (if addrs = None then v else if n = 0 then v\<lparr>srv_exited := Some 1, NumSessionSlots := n\<rparr> else v\<lparr>NumSessionSlots := n\<rparr>)"
  have count: "(case addrs of None \<Rightarrow> Some v | Some ls \<Rightarrow> do { (v, n) \<leftarrow> parseAddressPool v ls False; Some (v\<lparr>NumSessionSlots := n\<rparr>) }) = Some u"
    by (cases addrs) (simp_all add: parseAddressPool_def pool_steps_count u_def n_def slots_wanted_def)
  have u: "NumSessionSlots u = n" "SessOffset u = SessOffset v" "srv_exited u = (if n = 0 then Some 1 else None)"
    "interfaces u = interfaces v"
    using assms(2) x by (cases addrs; simp add: u_def n_def slots_wanted_def)+
  have run: "setup_sessions v addrs rands = (if srv_exited u \<noteq> None then Some u
     else if NumSessionSlots u + SessOffset u > 65534 then Some (u\<lparr>srv_exited := Some 1\<rparr>)
     else do {
       v \<leftarrow> fill_local [0..<n] (u\<lparr>Sessions := replicate n empty_session\<rparr>);
       v \<leftarrow> (case addrs of None \<Rightarrow> Some v | Some ls \<Rightarrow> do { (v, k) \<leftarrow> parseAddressPool v ls True; Some v });
       v \<leftarrow> number_sessions (addrs \<noteq> None) [0..<n] v;
       ps \<leftarrow> permutation n rands;
       v \<leftarrow> link_sessions ps v;
       Some (v\<lparr>FreeSessions := Some (hd ps), LastFreeSession := Some (last ps), BusySessions := None\<rparr>) })"
    unfolding setup_sessions_def count by (simp only: u(1) bind.bind_lunit Let_def)
  show ?thesis
  proof (cases "n = 0 \<or> n + SessOffset v > 65534")
    case True
    then show ?thesis unfolding run u by (cases "n = 0") (simp_all add: u)
  next
    case False
    then have s: "server_start u" using assms(1) server_start_slots [of n v] by (simp add: u_def)
    have a: "\<forall>ls. addrs = Some ls \<longrightarrow> pool_size ls = n" by (simp add: n_def slots_wanted_def)
    from build_ok [OF s u(1) _ _ a, of rands] False u show ?thesis unfolding run by simp
  qed
qed

text \<open>
  C21: the table of sessions is well-formed from the start. Setting it up never faults, whatever the lines of the address
  pool and the random numbers; without addresses, or with more slots than there are session numbers, the server exits;
  otherwise the free list is a permutation of all slots, slot i has session number i + 1 + offset, from which a
  received packet leads back to slot i, and the peer addresses are those of the pool in the order of its lines.
\<close>

theorem setup_sessions_ok:
  assumes "server_start v" "addrs = None \<Longrightarrow> 0 < NumSessionSlots v"
  shows "\<exists>v'. setup_sessions v addrs rands = Some v' \<and>
    (let n = slots_wanted v addrs in
     if n = 0 \<or> n + SessOffset v > 65534 then srv_exited v' = Some 1
     else srv_exited v' = None \<and> srv_inv v' \<and> (\<exists>ps. pool v' ps [] \<and> mset ps = mset [0..<n]) \<and>
       (\<forall>i<n. cs_sess (Sessions v' ! i) = htons (word_of_nat (i + 1 + SessOffset v)) \<and>
              session_slot v' (cs_sess (Sessions v' ! i)) = Some i) \<and>
       (\<forall>ls. addrs = Some ls \<longrightarrow> peers v' = pool_peers ls))"
proof -
  define n where "n = slots_wanted v addrs"
  from setup_slots [OF assms n_def, of rands] obtain v' where v': "setup_sessions v addrs rands = Some v'"
    "if n = 0 \<or> n + SessOffset v > 65534 then srv_exited v' = Some 1
     else srv_exited v' = None \<and> srv_inv v' \<and> length (Sessions v') = n \<and> SessOffset v' = SessOffset v \<and> interfaces v' = interfaces v \<and>
       (\<exists>ps. pool v' ps [] \<and> mset ps = mset [0..<n]) \<and>
       (\<forall>i<n. cs_sess (Sessions v' ! i) = htons (word_of_nat (i + 1 + SessOffset v))) \<and> (\<forall>ls. addrs = Some ls \<longrightarrow> peers v' = pool_peers ls)"
    by blast
  have "session_slot v' (cs_sess (Sessions v' ! i)) = Some i" if "\<not> (n = 0 \<or> n + SessOffset v > 65534)" "i < n" for i
  proof -
    have "NumSessionSlots v' = n" "SessOffset v' = SessOffset v" using v'(2) that(1) by (auto simp: pool_def)
    then show ?thesis using v'(2) that slot_of_number [of i v'] by simp
  qed
  then show ?thesis unfolding n_def [symmetric] Let_def using v'
    by (cases "n = 0 \<or> n + SessOffset v > 65534") (auto intro!: exI [of _ v'])
qed

lemma example_lines:
  "read_pool_line (msg_bytes ''10.0.0.7-9'') = Range 10 0 0 7 9"
  "read_pool_line (msg_bytes ''# none'') = Skipped"
  "read_pool_line (msg_bytes ''10.0.0.1:10.0.1.4'') = Both (IP 10 0 0 1) (IP 10 0 1 4)"
  by (simp_all add: read_pool_line_def pool_both_def pool_range_def pool_remote_def scan_pattern.simps scan_u_def digits_value_def is_digit_def
    is_space_def msg_bytes_def ip_of_def Let_def)

lemma setup_sessions_ok_witness:
  "\<exists>v'. setup_sessions example_server (Some [msg_bytes ''10.0.0.7-9'', msg_bytes ''# none'', msg_bytes ''10.0.0.1:10.0.1.4'']) (Some (\<lambda>i. 5)) = Some v' \<and>
     srv_exited v' = None \<and> peers v' = [IP 10 0 0 7, IP 10 0 0 8, IP 10 0 0 9, IP 10 0 1 4] \<and>
     session_slot v' (cs_sess (Sessions v' ! 3)) = Some 3"
proof -
  let ?ls = "[msg_bytes ''10.0.0.7-9'', msg_bytes ''# none'', msg_bytes ''10.0.0.1:10.0.1.4'']"
  have s: "slots_wanted example_server (Some ?ls) = 4" by (simp add: slots_wanted_def pool_size_def example_lines)
  have p: "pool_peers ?ls = [IP 10 0 0 7, IP 10 0 0 8, IP 10 0 0 9, IP 10 0 1 4]"
    by (simp add: pool_peers_def example_lines range_from_def ip_of_def)
  from setup_sessions_ok [OF example_start(1), of "Some ?ls" "Some (\<lambda>i. 5)"] obtain v' where
    "setup_sessions example_server (Some ?ls) (Some (\<lambda>i. 5)) = Some v'" "srv_exited v' = None" "peers v' = pool_peers ?ls"
    "\<forall>i<4. session_slot v' (cs_sess (Sessions v' ! i)) = Some i"
    unfolding s example_start(2) Let_def by (simp del: upt_rec_numeral) blast
  then show ?thesis unfolding p by (intro exI [of _ v'] conjI) simp_all
qed

section \<open>Reachable states\<close>

inductive server_reaches :: "server \<Rightarrow> server \<Rightarrow> bool" for v where
  reaches_start: "server_reaches v v"
| reaches_step: "server_reaches v u \<Longrightarrow> event_fine u ev \<Longrightarrow> server_step u ev = Some w \<Longrightarrow> server_reaches v w"

lemma reaches_inv: "server_reaches v u \<Longrightarrow> srv_inv v \<Longrightarrow> srv_inv u"
proof (induction rule: server_reaches.induct)
  case (reaches_step u ev w)
  then show ?case using server_step_ok [of u ev] by simp
qed simp

lemma setup_inv:
  assumes "server_start c" "addrs = None \<Longrightarrow> 0 < NumSessionSlots c" "setup_sessions c addrs rands = Some v" "srv_exited v = None"
  shows "srv_inv v"
  using setup_slots [of c addrs "slots_wanted c addrs" rands, OF assms(1,2) refl] assms(3,4) by (simp split: if_splits)

text \<open>
  C2: safety of the server. From the table \<open>main\<close> sets up, after any sequence of received packets, forks that succeed or
  fail, dying children, drain commands and signals, the next event is handled without a fault, and afterwards the free
  and the busy list still share out all slots, every busy slot has its interface, no two children stand for the same
  slot, and no host has more sessions than the limit allows. The packets left out are those with the two faults below.
\<close>

theorem server_never_faults:
  assumes "server_start c" "addrs = None \<Longrightarrow> 0 < NumSessionSlots c" "setup_sessions c addrs rands = Some v" "srv_exited v = None"
    and "server_reaches v u" "event_fine u ev"
  shows "\<exists>w free busy. server_step u ev = Some w \<and> pool w free busy \<and> slots_ok w busy"
proof -
  have "srv_inv u" using reaches_inv [OF assms(5)] setup_inv [OF assms(1-4)] by blast
  from server_step_ok [OF this assms(6)] obtain w where "server_step u ev = Some w" "srv_inv w" by blast
  then show ?thesis by (metis srv_invE)
qed

section \<open>Packets of the examples\<close>

text \<open>A packet whose payload starts with \<open>body\<close>.\<close>

definition request :: "mac \<Rightarrow> mac \<Rightarrow> u8 \<Rightarrow> u16 \<Rightarrow> byte_buf \<Rightarrow> packet" where
  "request dest source code sess body =
     (disc_packet dest source code)\<lparr>psession := sess, payload := take 1508 (body @ replicate 1508 0), plength := htons (word_of_nat (length body))\<rparr>"

lemma request_fields [simp]:
  "h_dest (request dest source code sess body) = dest" "h_source (request dest source code sess body) = source"
  "pcode (request dest source code sess body) = code" "psession (request dest source code sess body) = sess"
  "pkt_wf (request dest source code sess body)"
  by (simp_all add: request_def disc_packet_def pkt_wf_def)

lemma request_plen: "length body \<le> 1502 \<Longrightarrow> plen (request dest source code sess body) = length body"
  by (simp add: request_def plen_def)

lemma request_tags:
  assumes "length body \<le> 1502"
  shows "tags_of (request dest source code sess body) = tvals body"
proof -
  let ?r = "request dest source code sess body"
  have "hdr_ok ?r" using assms request_plen [OF assms] by (simp add: hdr_ok_def) (simp add: request_def disc_packet_def PPPOE_VER_def PPPOE_TYPE_def PPPOE_VER_TYPE_def)
  moreover have "window ?r = body" using assms request_plen [OF assms, of dest source code sess] by (simp add: window_def) (simp add: request_def)
  ultimately show ?thesis by (simp add: tags_of_def ptags_def tvals_def)
qed

lemma example_setup:
  "\<exists>v. setup_sessions example_server None None = Some v \<and> srv_exited v = None \<and> interfaces v = [example_iface]"
  using setup_slots [of example_server None 64 None, OF example_start(1)] unfolding slots_wanted_def example_start option.simps by (simp del: upt_rec_numeral) blast

lemma server_never_faults_witness:
  "\<exists>v w free busy. setup_sessions example_server None None = Some v \<and>
     server_step v (Readable 0 (Recv (request (Mac 2 0 0 0 0 1) (Mac 2 0 0 0 0 9) CODE_PADR 0 []) 20) ForkFailed) = Some w \<and> pool w free busy"
proof -
  obtain v where v: "setup_sessions example_server None None = Some v" "srv_exited v = None"
    and i: "interfaces v = [example_iface]" using example_setup by blast
  from i have "event_fine v (Readable 0 (Recv (request (Mac 2 0 0 0 0 1) (Mac 2 0 0 0 0 9) CODE_PADR 0 []) 20) ForkFailed)"
    by (simp add: event_fine_def example_start request_tags reply_size_def last_tag_def)
  from server_never_faults [OF example_start(1) _ v reaches_start this] show ?thesis using v(1) by (simp add: example_start) blast
qed

section \<open>Offers\<close>

definition max_tags :: "u16 \<Rightarrow> u16 \<Rightarrow> (u16 \<times> byte_buf) list" where
  "max_tags mtu m = (if m > ETH_PPPOE_MTU \<and> mtu > 0 \<and> shrink_payload mtu m > ETH_PPPOE_MTU
     then [(TAG_PPP_MAX_PAYLOAD, be16_bytes (shrink_payload mtu m))] else [])"

text \<open>The tags of an offer, and of the PADS for the service \<open>n\<close>.\<close>

definition offer_tags :: "server \<Rightarrow> iface \<Rightarrow> mac \<Rightarrow> (u16 \<times> byte_buf) list \<Rightarrow> (u16 \<times> byte_buf) list" where
  "offer_tags v eif src ts = (TAG_AC_NAME, ACName v) # max_tags (if_mtu eif) (asked_payload ts) @
     map (Pair TAG_SERVICE_NAME) (offered_services v) @ [(TAG_AC_COOKIE, the_cookie v src (if_mac eif))] @
     last_tag TAG_RELAY_SESSION_ID ts @ last_tag TAG_HOST_UNIQ ts"

lemma tvals_max: "tvals (max_bytes mtu m @ w) = max_tags mtu m @ tvals w"
  by (simp add: max_bytes_def max_tags_def be16_bytes_def)

lemma tvals_services: "\<forall>n\<in>set ns. length n < 65536 \<Longrightarrow> tvals (services_body ns @ w) = map (Pair TAG_SERVICE_NAME) ns @ tvals w"
  by (induction ns) (simp_all add: services_body_def)

lemma offer_tags_sent:
  assumes "config_ok v"
  shows "tvals (offer_body v eif src (tags_of p)) = offer_tags v eif src (tags_of p)"
proof -
  have short: "\<forall>(ty, data)\<in>set (tags_of p). length data < 65536" using tags_of_short by blast
  have "length (ACName v) < 65536" "\<forall>n\<in>set (offered_services v). length n < 65536"
    using assms by (simp_all add: config_ok_def offered_services_def)
  then show ?thesis
    using last_tag_enc [OF short, of TAG_HOST_UNIQ "[]"]
    by (simp add: offer_body_def offer_tags_def tvals_max tvals_services last_tag_enc [OF short])
qed

text \<open>
  C20: the answer to a PADI. On a well-formed table it is answered by one PADO to its sender exactly if the server is not
  draining, the sender is a single host below its limit of sessions, the service asked for is empty or offered, the server
  need not or can provide a slot, and the answer fits; the offer carries the name of the server, the payload size, the
  services, a cookie made from both addresses, and the relay and host tags of the request. Nothing else of the state changes.
\<close>

theorem padi_answered:
  assumes "srv_inv v" "pkt_wf p"
  shows "let body = offer_body v eif (h_source p) (tags_of p) in
    tvals body = offer_tags v eif (h_source p) (tags_of p) \<and>
    (\<exists>v'. processPADI v eif p = Some v' \<and> quiet v' = quiet v \<and>
      srv_wire v' = srv_wire v @ (if draining v = DRAIN_OFF \<and> \<not> NOT_UNICAST (h_source p) \<and>
        \<not> (IgnorePADIIfNoFreeSessions v \<and> FreeSessions v = None) \<and> \<not> full_for v (h_source p) \<and> serves v (tags_of p) \<and> length body \<le> 1502
      then [(if_sock eif, disc_frame (h_source p) (if_mac eif) CODE_PADO body)] else []))"
proof -
  have "config_ok v" using assms(1) by (rule srv_invE)
  from offer_tags_sent [OF this] processPADI_ok [OF assms] show ?thesis by (simp add: answers_padi_def Let_def)
qed

text \<open>A table with two slots, both free.\<close>

definition example_ready :: server where
  "example_ready = example_server\<lparr>NumSessionSlots := 2,
     Sessions := [empty_session\<lparr>cs_next := Some 1, cs_sess := htons 1\<rparr>, empty_session\<lparr>cs_sess := htons 2\<rparr>],
     FreeSessions := Some 0, LastFreeSession := Some 1\<rparr>"

lemma example_pool: "pool example_ready [0, 1] []"
  by (auto simp: pool_def nx_def example_ready_def example_server_def empty_session_def)

lemma example_slots: "slots_ok example_ready []"
  by (auto simp: slots_ok_def from_mac_def example_ready_def example_server_def empty_session_def less_Suc_eq numeral_2_eq_2)

lemma example_inv: "srv_inv example_ready"
  by (rule srv_invI [OF example_pool example_slots]) (simp_all add: example_ready_def example_server_def config_ok_def msg_bytes_def)

lemma example_not_full: "\<not> full_for example_ready eth"
  using too_many_eq [OF example_pool, of eth] by (simp add: full_for_def from_mac_def) (simp add: example_ready_def example_server_def)

definition example_host :: mac where "example_host = Mac 2 0 0 0 0 9"

lemma example_ready_fields [simp]:
  "draining example_ready = DRAIN_OFF" "FreeSessions example_ready = Some 0" "ServiceNames example_ready = [msg_bytes ''net'']"
  "srv_wire example_ready = []" "ACName example_ready = msg_bytes ''ac''" "interfaces example_ready = [example_iface]"
  "the_cookie example_ready a b = the_cookie example_server a b"
  by (simp_all add: example_ready_def example_server_def the_cookie_def)

lemma padi_answered_witness:
  "\<exists>v' body. processPADI example_ready example_iface (request (Mac 255 255 255 255 255 255) example_host CODE_PADI 0
       (enc_tag TAG_SERVICE_NAME (msg_bytes ''net'') @ enc_tag TAG_HOST_UNIQ [1, 2])) = Some v' \<and>
     srv_wire v' = [(5, disc_frame example_host (Mac 2 0 0 0 0 1) CODE_PADO body)] \<and>
     tvals body = [(TAG_AC_NAME, msg_bytes ''ac''), (TAG_SERVICE_NAME, msg_bytes ''net''),
       (TAG_AC_COOKIE, the_cookie example_server example_host (Mac 2 0 0 0 0 1)), (TAG_HOST_UNIQ, [1, 2])]"
proof -
  let ?p = "request (Mac 255 255 255 255 255 255) example_host CODE_PADI 0 (enc_tag TAG_SERVICE_NAME (msg_bytes ''net'') @ enc_tag TAG_HOST_UNIQ [1, 2])"
  have t: "tags_of ?p = [(TAG_SERVICE_NAME, msg_bytes ''net''), (TAG_HOST_UNIQ, [1, 2])]"
    using tvals_enc [of TAG_HOST_UNIQ "[1, 2]" "[]"] by (subst request_tags) (simp_all add: msg_bytes_def)
  have l: "last_tag TAG_RELAY_SESSION_ID (tags_of ?p) = []" "last_tag TAG_HOST_UNIQ (tags_of ?p) = [(TAG_HOST_UNIQ, [1, 2])]"
    "last_tag TAG_SERVICE_NAME (tags_of ?p) = [(TAG_SERVICE_NAME, msg_bytes ''net'')]" "asked_payload (tags_of ?p) = 0"
    by (simp_all add: t last_tag_def asked_payload_def max_payload_step_def)
  have s: "serves example_ready (tags_of ?p)" unfolding serves_def l by simp
  have m: "if_mac example_iface = Mac 2 0 0 0 0 1" "if_sock example_iface = 5" "\<not> NOT_UNICAST example_host"
    by (simp_all add: example_iface_def) (simp add: example_host_def)
  have "length (offer_body example_ready example_iface example_host (tags_of ?p)) \<le> 1502"
    unfolding offer_body_def l by (simp add: max_bytes_def services_body_def offered_services_def msg_bytes_def)
  then show ?thesis
    using padi_answered [OF example_inv, of ?p example_iface] s m example_not_full
    by (simp add: Let_def offer_tags_def l max_tags_def offered_services_def) blast
qed

section \<open>Sessions\<close>

text \<open>The slot \<open>s\<close> after it was opened for the host \<open>src\<close>.\<close>

definition slot_opened :: "server \<Rightarrow> nat \<Rightarrow> nat \<Rightarrow> mac \<Rightarrow> byte_buf \<Rightarrow> int \<Rightarrow> server \<Rightarrow> bool" where
  "slot_opened v i s src n child v' \<longleftrightarrow> (let cl = Sessions v' ! s in
     cs_eth cl = src \<and> cs_ethif cl = Some i \<and> cs_pid cl = child \<and> cs_serviceName cl = Some n \<and> cs_flags cl = 0 \<and>
     cs_sess cl = cs_sess (Sessions v ! s) \<and> cs_peerip cl = cs_peerip (Sessions v ! s) \<and> cs_myip cl = cs_myip (Sessions v ! s) \<and>
     cs_requested_mtu cl = 0) \<and> (\<forall>t. t \<noteq> s \<longrightarrow> Sessions v' ! t = Sessions v ! t)"

lemma waits_for_opened:
  assumes "pool v (s # fs) busy" "slots_ok v busy" "0 \<le> MaxSessionsPerMac v" "config_ok v" "\<not> full_for v src" "i < length (interfaces v)"
    and "pppoe_alloc_session v = Some (Some s, v2)"
  shows "pool (waits_for (opened v2 s src i n) child waited s) fs (s # busy)" "slot_opened v i s src n child (waits_for (opened v2 s src i n) child waited s)"
    "has_read (waits_for (opened v2 s src i n) child waited s) ts = has_read v ts"
    "interfaces (waits_for (opened v2 s src i n) child waited s) = interfaces v"
    "ServiceNames (waits_for (opened v2 s src i n) child waited s) = ServiceNames v"
proof -
  let ?w = "opened v2 s src i n" let ?u = "waits_for ?w child waited s"
  note w = open_slot [OF assms(1-6), of n]
  have p: "pool ?w fs (s # busy)" and d: "(let cl = Sessions ?w ! s in
      cs_eth cl = src \<and> cs_ethif cl = Some i \<and> cs_sess cl = cs_sess (Sessions v ! s) \<and> cs_serviceName cl = Some n \<and>
      cs_myip cl = cs_myip (Sessions v ! s) \<and> cs_peerip cl = cs_peerip (Sessions v ! s) \<and> cs_flags cl = 0 \<and> cs_requested_mtu cl = 0)"
    "\<forall>t. t \<noteq> s \<longrightarrow> Sessions ?w ! t = Sessions v ! t"
    using w assms(7) by auto
  have sl: "s < length (Sessions ?w)" using pool_slot [OF p, of s] by simp
  have u: "Sessions ?u = (Sessions ?w)[s := (Sessions ?w ! s)\<lparr>cs_pid := child\<rparr>]"
    by (simp add: waits_for_def Event_HandleChildExit_def Let_def)
  have "nx (Sessions ?u) = nx (Sessions ?w)" unfolding u by (rule nx_same) (use sl in simp_all)
  then show "pool ?u fs (s # busy)" by (intro pool_cong [OF p]) (simp_all add: waits_for_def Event_HandleChildExit_def Let_def)
  show "slot_opened v i s src n child ?u" using d sl unfolding slot_opened_def u by (simp add: Let_def)
  have k: "core ?w = core v" using w assms(7) by auto
  show "has_read ?u ts = has_read v ts" "interfaces ?u = interfaces v" "ServiceNames ?u = ServiceNames v"
    using arg_cong [OF k, of max_ppp_payload] arg_cong [OF k, of reqRelayId] arg_cong [OF k, of reqHostUniq] arg_cong [OF k, of requestedService]
      arg_cong [OF k, of receivedCookie] arg_cong [OF k, of interfaces] arg_cong [OF k, of ServiceNames]
    by (simp_all add: has_read_def core_def waits_for_def Event_HandleChildExit_def Let_def)
qed

lemma padr_outcome:
  assumes inv: "srv_inv v" and p: "pkt_wf p" and e: "arr_get (interfaces v) i = Some eif" and fit: "reply_size (tags_of p) \<le> 1455"
    and q: "pool v free busy"
  shows "\<exists>v' r. processPADR v i p fork = Some (v', r) \<and> srv_inv v' \<and>
    (case (padr_accepted v eif p, free, fork) of
       (True, s # fs, Forked child waited) \<Rightarrow> r = Some s \<and> pool v' fs (s # busy) \<and> has_read v' (tags_of p) \<and>
         interfaces v' = interfaces v \<and> ServiceNames v' = ServiceNames v \<and>
         slot_opened v i s (h_source p) (snd (hd (last_tag TAG_SERVICE_NAME (tags_of p)))) child v'
     | (True, s # fs, ForkFailed) \<Rightarrow> r = None \<and> pool v' (fs @ [s]) busy
     | _ \<Rightarrow> r = None \<and> quiet v' = quiet v)"
proof -
  obtain free' busy' where q': "pool v free' busy'" "slots_ok v busy'" "0 \<le> MaxSessionsPerMac v" "config_ok v" using inv by (rule srv_invE)
  have "free' = free" "busy' = busy" using q q'(1) slist_unique by (auto simp: pool_def)
  then have q: "pool v free busy" "slots_ok v busy" "0 \<le> MaxSessionsPerMac v" "config_ok v" using q' by simp_all
  show ?thesis
  proof (cases "padr_accepted v eif p")
    case False
    then obtain v' where "processPADR v i p fork = Some (v', None)" "quiet v' = quiet v"
      using processPADR_ok [OF inv p e fit, of fork] by auto
    then show ?thesis using False q(1) quiet_inv [OF _ inv]
      by (intro exI [of _ v'] exI [of _ None]) simp
  next
    case True
    then obtain u n where u: "unread u = unread v" "has_read u (tags_of p)" "last_tag TAG_SERVICE_NAME (tags_of p) = [(TAG_SERVICE_NAME, n)]"
      "processPADR v i p fork = open_session u i p n fork"
      using processPADR_ok [OF inv p e fit, of fork] by auto
    have qu: "quiet u = quiet v" by (rule unread_quiet [OF u(1)])
    note c = quietD [OF qu] staticD [OF quietD(1) [OF qu]]
    have pu: "pool u free busy" by (rule pool_cong [OF q(1)]) (simp_all add: c)
    have fm: "from_mac u busy eth = from_mac v busy eth" for eth by (simp add: from_mac_def c)
    have su: "slots_ok u busy" by (rule slots_okI [OF q(2) c(1)]) (simp add: c)
    have cu: "0 \<le> MaxSessionsPerMac u" "config_ok u" "arr_get (interfaces u) i = Some eif"
      using q(3,4) e unread_config [OF u(1)] by (simp_all add: c)
    have fu: "\<not> full_for u (h_source p)"
      using True too_many_eq [OF pu] too_many_eq [OF q(1)] fm by (simp add: padr_accepted_def full_for_def c)
    have i: "i < length (interfaces u)" using cu(3) by (simp add: arr_get_def split: if_splits)
    from open_session_ok [OF pu su cu(1,2) fu cu(3) u(2) fit, of n fork] obtain v' r where v': "open_session u i p n fork = Some (v', r)" "srv_inv v'"
      "case free of [] \<Rightarrow> r = None \<and> quiet v' = quiet u
     | s # fs \<Rightarrow> (case fork of ForkFailed \<Rightarrow> r = None \<and> pool v' (fs @ [s]) busy
                | Forked child waited \<Rightarrow> r = Some s \<and> (\<exists>v2. pppoe_alloc_session u = Some (Some s, v2) \<and>
                    v' = waits_for (opened v2 s (h_source p) i n) child waited s))" by blast
    have "case free of [] \<Rightarrow> r = None \<and> quiet v' = quiet v
       | s # fs \<Rightarrow> (case fork of ForkFailed \<Rightarrow> r = None \<and> pool v' (fs @ [s]) busy
          | Forked child waited \<Rightarrow> r = Some s \<and> pool v' fs (s # busy) \<and> has_read v' (tags_of p) \<and>
            interfaces v' = interfaces v \<and> ServiceNames v' = ServiceNames v \<and> slot_opened v i s (h_source p) n child v')"
    proof (cases free)
      case (Cons s fs)
      have "pool v' fs (s # busy) \<and> has_read v' (tags_of p) \<and> interfaces v' = interfaces v \<and> ServiceNames v' = ServiceNames v \<and>
          slot_opened v i s (h_source p) n child v'" if "fork = Forked child waited" for child waited
      proof -
        note fk = that
        obtain v2 where a: "pppoe_alloc_session u = Some (Some s, v2)" "v' = waits_for (opened v2 s (h_source p) i n) child waited s"
          using v'(3) Cons fk by auto
        from waits_for_opened [OF pu [unfolded Cons] su cu(1,2) fu i a(1), of n child waited] a(2) u(2)
        show ?thesis by (simp add: slot_opened_def c)
      qed
      then show ?thesis using v'(3) Cons by (cases fork) auto
    qed (use v'(3) qu in simp)
    then show ?thesis using True q(1) u(3,4) v'(1,2) by (intro exI [of _ v'] exI [of _ r]) (auto split: list.splits fork_result.splits)
  qed
qed


text \<open>
  C6: who gets a session. A PADR is answered by opening one only if it is addressed to the server by a single host below
  its limit, its last cookie is the one an offer to that host carries, and the service it asks for is empty or offered; then,
  with a slot free and the fork successful, the first free slot moves to the busy list and holds host, interface,
  service and child, every other slot untouched. In all other cases no slot is taken. The relay id and the Host-Uniq of the PADR,
  which a refusal repeats, have at most 1455 bytes together with their headers; with longer ones a refusal can be written beyond the packet, as the last
  property of this theory shows.
\<close>

theorem padr_needs_cookie:
  assumes inv: "srv_inv v" and p: "pkt_wf p" and e: "arr_get (interfaces v) i = Some eif" and fit: "reply_size (tags_of p) \<le> 1455"
  shows "\<exists>v' r free busy. processPADR v i p fork = Some (v', r) \<and> srv_inv v' \<and> pool v free busy \<and>
    (case (padr_accepted v eif p, free, fork) of
       (True, s # fs, Forked child waited) \<Rightarrow> r = Some s \<and> pool v' fs (s # busy) \<and>
         slot_opened v i s (h_source p) (snd (hd (last_tag TAG_SERVICE_NAME (tags_of p)))) child v'
     | (True, s # fs, ForkFailed) \<Rightarrow> r = None \<and> pool v' (fs @ [s]) busy
     | _ \<Rightarrow> r = None \<and> quiet v' = quiet v)"
proof -
  obtain free busy where q: "pool v free busy" using inv by (rule srv_invE)
  from padr_outcome [OF inv p e fit q, of fork] show ?thesis
    by (elim ex_forward, intro exI [of _ free] exI [of _ busy])
      (use q in \<open>auto split: list.splits fork_result.splits bool.splits\<close>)
qed

definition example_padr :: packet where
  "example_padr = request (Mac 2 0 0 0 0 1) example_host CODE_PADR 0
     (enc_tag TAG_SERVICE_NAME (msg_bytes ''net'') @ enc_tag TAG_AC_COOKIE (the_cookie example_server example_host (Mac 2 0 0 0 0 1)))"

lemma example_padr_tags:
  "tags_of example_padr = [(TAG_SERVICE_NAME, msg_bytes ''net''), (TAG_AC_COOKIE, the_cookie example_server example_host (Mac 2 0 0 0 0 1))]"
  unfolding example_padr_def
  using tvals_enc [of TAG_AC_COOKIE "the_cookie example_server example_host (Mac 2 0 0 0 0 1)" "[]"]
  by (subst request_tags) (simp_all add: msg_bytes_def)

lemma padr_needs_cookie_witness:
  "\<exists>v'. processPADR example_ready 0 example_padr (Forked 99 True) = Some (v', Some 0) \<and> pool v' [1] [0] \<and>
     slot_opened example_ready 0 0 example_host (msg_bytes ''net'') 99 v'"
proof -
  note t = example_padr_tags
  have f: "h_dest example_padr = Mac 2 0 0 0 0 1" "h_source example_padr = example_host" "pkt_wf example_padr"
    "if_mac example_iface = Mac 2 0 0 0 0 1" "\<not> NOT_UNICAST example_host"
    by (simp_all add: example_padr_def example_iface_def) (simp add: example_host_def)
  have l: "last_tag TAG_SERVICE_NAME (tags_of example_padr) = [(TAG_SERVICE_NAME, msg_bytes ''net'')]"
    "last_tag TAG_AC_COOKIE (tags_of example_padr) = [(TAG_AC_COOKIE, the_cookie example_server example_host (Mac 2 0 0 0 0 1))]"
    "reply_size (tags_of example_padr) = 0" by (simp_all add: t last_tag_def reply_size_def)
  have a: "padr_accepted example_ready example_iface example_padr"
    unfolding padr_accepted_def cookie_valid_def serves_def l using f example_not_full by simp
  have e: "arr_get (interfaces example_ready) 0 = Some example_iface" by (simp add: arr_get_def)
  have z: "reply_size (tags_of example_padr) \<le> 1455" by (simp add: l)
  from padr_needs_cookie [OF example_inv f(3) e z, of "Forked 99 True"] obtain v' r free busy where
    v': "processPADR example_ready 0 example_padr (Forked 99 True) = Some (v', r)" "pool example_ready free busy"
    "case (padr_accepted example_ready example_iface example_padr, free, Forked 99 True) of
       (True, s # fs, Forked child waited) \<Rightarrow> r = Some s \<and> pool v' fs (s # busy) \<and>
         slot_opened example_ready 0 s (h_source example_padr) (snd (hd (last_tag TAG_SERVICE_NAME (tags_of example_padr)))) child v'
     | (True, s # fs, ForkFailed) \<Rightarrow> r = None \<and> pool v' (fs @ [s]) busy
     | _ \<Rightarrow> r = None \<and> quiet v' = quiet example_ready" by blast
  have "free = [0, 1]" "busy = []"
    using v'(2) example_pool slist_unique by (auto simp: pool_def)
  then show ?thesis using v' a l f by auto
qed

section \<open>Two faults\<close>

text \<open>
  C39: a PADT can crash the server. Sent with the all-zero source address and the session number of a slot that was never
  used, it passes every check of \<open>processPADT\<close>, because a free slot holds that address, and the server follows the null
  interface of the slot.
\<close>

theorem padt_zero_mac_crash:
  assumes "pool v free busy" "slots_ok v busy" "pkt_wf p" "h_dest p = if_mac eif" "h_source p = no_mac"
    and "session_slot v (psession p) = Some i" "cs_sess (Sessions v ! i) = psession p" "i \<in> set free" "cs_ethif (Sessions v ! i) = None"
  shows "processPADT v eif p = None"
proof -
  have i: "i < length (Sessions v)" "i < NumSessionSlots v" "i \<notin> set busy" using assms(1,8) by (auto simp: pool_def)
  have z: "cs_eth (Sessions v ! i) = no_mac" using assms(2) i by (auto simp: slots_ok_def)
  obtain rc log where "parsePacket p parseLogErrs [] = Some (rc, log)" using parsePacket_tags [OF assms(3), of parseLogErrs "[]"] by blast
  then show ?thesis
    using assms i z by (simp add: processPADT_def PppoeStopSession_def ethif_of_def)
qed

lemma padt_zero_mac_crash_witness:
  "processPADT example_ready example_iface (request (Mac 2 0 0 0 0 1) no_mac CODE_PADT (htons 1) []) = None"
  by (rule padt_zero_mac_crash [OF example_pool example_slots, of _ _ 0])
    (simp_all add: example_iface_def example_ready_def example_server_def session_slot_def empty_session_def)

text \<open>
  C40: the size of an error PADS is not checked. On a PADR with a valid cookie but without a service name the relay and
  host tags are copied behind the error text; \<open>processPADR\<close> writes beyond the 1508 bytes of the packet exactly if the
  two tags take more than 1467 bytes, which leaves room for the cookie in the 1502 bytes a request may have.
\<close>

theorem error_pads_overrun:
  assumes "srv_inv v" "pkt_wf p" "arr_get (interfaces v) i = Some eif" "h_dest p = if_mac eif" "\<not> NOT_UNICAST (h_source p)"
    and "\<not> full_for v (h_source p)" "cookie_valid v eif p" "last_tag TAG_SERVICE_NAME (tags_of p) = []"
  shows "processPADR v i p fork = None \<longleftrightarrow> reply_size (tags_of p) > 1467"
proof -
  let ?ts = "tags_of p" let ?m = "''RP-PPPoE: Server: No service name tag''"
  have short: "\<forall>(ty, data)\<in>set ?ts. length data < 65536" using tags_of_short by blast
  from padr_read [OF assms(1-3), of fork] obtain v1 where v1: "unread v1 = unread v" "has_read v1 ?ts" "config_ok v1"
    "processPADR v i p fork = do { r \<leftarrow> check_padr v1 eif p; case r of Inl v \<Rightarrow> Some (v, None) | Inr name \<Rightarrow> open_session v1 i p name fork }"
    using assms(4-6) by auto
  have k: "genCookie (h_source p) (if_mac eif) (CookieSeed v1) (getpid v1) = Some (the_cookie v1 (h_source p) (if_mac eif))"
    using v1(3) by (simp add: genCookie_ok config_ok_def the_cookie_def)
  have ck: "tag_type (receivedCookie v1) \<noteq> 0" "tag_length (receivedCookie v1) = htons 20"
      "take 20 (tag_payload (receivedCookie v1)) = the_cookie v1 (h_source p) (if_mac eif)"
    using cookie_checked [OF v1(2,3), of eif] assms(7) serves_unread(2) [OF v1(1)] by simp_all
  obtain old where o: "tag_type old = 0" "requestedService v1 = kept_tag TAG_SERVICE_NAME ?ts old" using v1(2) by (auto simp: has_read_def)
  have n: "tag_type (requestedService v1) = 0" using service_asked(2) [OF o short] assms(8) by simp
  have run: "check_padr v1 eif p = do {
         v \<leftarrow> sendErrorPADS v1 (if_sock eif) (if_mac eif) (h_source p) TAG_SERVICE_NAME_ERROR ?m; Some (Inl v) }"
    using ck k n by (simp add: check_padr_def Let_def)
  have "length (error_body v1 TAG_SERVICE_NAME_ERROR ?m) = 41 + reply_size ?ts"
    using v1(2) by (simp add: error_body_def has_read_def reply_size_def msg_bytes_def)
  then show ?thesis
    using sendErrorPADS_ok [of v1 ?m "if_sock eif" "if_mac eif" "h_source p" TAG_SERVICE_NAME_ERROR] v1(2)
    unfolding v1(4) run by (auto simp: has_read_def)
qed

definition big_padr :: packet where
  "big_padr = request (Mac 2 0 0 0 0 1) example_host CODE_PADR 0
     (enc_tag TAG_AC_COOKIE (the_cookie example_server example_host (Mac 2 0 0 0 0 1)) @ enc_tag TAG_HOST_UNIQ (replicate 1464 1))"

lemma error_pads_overrun_witness: "processPADR example_ready 0 big_padr ForkFailed = None"
proof -
  have t: "tags_of big_padr = [(TAG_AC_COOKIE, the_cookie example_server example_host (Mac 2 0 0 0 0 1)), (TAG_HOST_UNIQ, replicate 1464 1)]"
    unfolding big_padr_def using tvals_enc [of TAG_HOST_UNIQ "replicate 1464 1" "[]"] by (subst request_tags) simp_all
  have l: "last_tag TAG_SERVICE_NAME (tags_of big_padr) = []" "reply_size (tags_of big_padr) = 1468"
    "last_tag TAG_AC_COOKIE (tags_of big_padr) = [(TAG_AC_COOKIE, the_cookie example_server example_host (Mac 2 0 0 0 0 1))]"
    by (simp_all add: t last_tag_def reply_size_def)
  have f: "h_dest big_padr = Mac 2 0 0 0 0 1" "h_source big_padr = example_host" "pkt_wf big_padr"
    "if_mac example_iface = Mac 2 0 0 0 0 1" "\<not> NOT_UNICAST example_host"
    by (simp_all add: big_padr_def example_iface_def) (simp add: example_host_def)
  have c: "cookie_valid example_ready example_iface big_padr" unfolding cookie_valid_def l using f by simp
  have e: "arr_get (interfaces example_ready) 0 = Some example_iface" by (simp add: arr_get_def)
  show ?thesis
    using error_pads_overrun [OF example_inv f(3) e _ _ _ c l(1), of ForkFailed] f example_not_full by (simp add: l)
qed

end
