(* ===== verification/Pppoe_Handshake.thy ===== *)
theory Pppoe_Handshake
  imports Pppoe_Server_Reach
begin

text \<open>
  The client and the server together: what one sends, byte for byte, is what the other receives. From PADI to PADS the four
  packets of the discovery end with the same session on both sides.
\<close>

section \<open>Frames received\<close>

text \<open>A frame read into a packet buffer whose payload held \<open>old\<close>.\<close>

definition mac_at :: "byte_buf \<Rightarrow> nat \<Rightarrow> mac" where
  "mac_at f i = Mac (f ! i) (f ! (i + 1)) (f ! (i + 2)) (f ! (i + 3)) (f ! (i + 4)) (f ! (i + 5))"

definition received :: "byte_buf \<Rightarrow> byte_buf \<Rightarrow> packet" where
  "received old f = \<lparr>h_dest = mac_at f 0, h_source = mac_at f 6, h_proto = join16 (f ! 13) (f ! 12), vertype = f ! 14, pcode = f ! 15,
     psession = join16 (f ! 17) (f ! 16), plength = join16 (f ! 19) (f ! 18), payload = take 1508 (drop 20 f @ drop (length f - 20) old)\<rparr>"

lemma nth_mac: "(mac_bytes m @ xs) ! i = (if i < 6 then mac_bytes m ! i else xs ! (i - 6))"
  by (simp add: nth_append)

lemma mac_at_bytes: "Mac (mac_bytes m ! 0) (mac_bytes m ! 1) (mac_bytes m ! 2) (mac_bytes m ! 3) (mac_bytes m ! 4) (mac_bytes m ! 5) = m"
  by (cases m) simp

lemma received_frame:
  assumes "length old = 1508" "length body \<le> 1502"
    and p_def: "p = received old (sess_frame dest source code sess body)"
  shows "h_dest p = dest" "h_source p = source" "pcode p = code" "psession p = sess" "plen p = length body" "pkt_wf p"
    "vertype p = 0x11" "tags_of p = tvals body"
proof -
  let ?f = "sess_frame dest source code sess body"
  have m: "?f = mac_bytes dest @ mac_bytes source @ [0x88, 0x63, 0x11, code, lo8 sess, hi8 sess, hi8 (word_of_nat (length body)), lo8 (word_of_nat (length body))] @ body"
    by (simp add: sess_frame_def be16_bytes_def le16_bytes_def) (simp add: hi8_def lo8_def)
  show d: "h_dest p = dest" "h_source p = source" "pcode p = code" "psession p = sess" "vertype p = 0x11"
    unfolding p_def received_def m using mac_at_bytes [of dest] mac_at_bytes [of source] by (simp_all add: mac_at_def nth_mac numeral_2_eq_2)
  have n: "unat (word_of_nat (length body) :: u16) = length body" using assms(2) by simp
  have "plength p = htons (word_of_nat (length body))"
    unfolding p_def received_def m by (simp add: nth_mac htons_def)
  then show l: "plen p = length body" using n by (simp add: plen_def)
  have y: "payload p = body @ drop (length body) old" unfolding p_def received_def m using assms(1,2) by simp
  then show w: "pkt_wf p" using assms(1,2) by (simp add: pkt_wf_def)
  have "hdr_ok p" using assms(2) l d by (simp add: hdr_ok_def PPPOE_VER_def PPPOE_TYPE_def)
  moreover have "window p = body" using l y by (simp add: window_def)
  ultimately show "tags_of p = tvals body" by (simp add: tags_of_def ptags_def tvals_def)
qed

section \<open>The child's answer\<close>

definition granted :: "server \<Rightarrow> byte_buf \<Rightarrow> byte_buf" where
  "granted v n = (if n = [] \<and> ServiceNames v \<noteq> [] then hd (ServiceNames v) else n)"

definition pads_body :: "server \<Rightarrow> iface \<Rightarrow> byte_buf \<Rightarrow> (u16 \<times> byte_buf) list \<Rightarrow> byte_buf" where
  "pads_body v eif n ts = enc_tag TAG_SERVICE_NAME (granted v n) @ max_bytes (if_mtu eif) (asked_payload ts) @
     enc_tags (map (Pair 0) (last_tag TAG_RELAY_SESSION_ID ts)) @ enc_tags (map (Pair 0) (last_tag TAG_HOST_UNIQ ts))"

lemma padr_child_ok:
  assumes s: "s < length (Sessions v)" "cs_ethif (Sessions v ! s) = Some i" "arr_get (interfaces v) i = Some eif"
    and h: "has_read v ts" "last_tag TAG_SERVICE_NAME ts = [(TAG_SERVICE_NAME, n)]" "length n < 65536"
    and fit: "length (pads_body v eif n ts) \<le> 1502" and q: "hurl_string g = None" "motd_string g = None"
  shows "\<exists>cl. padr_child v g s p = Some \<lparr>kid_wire = [(if_sock eif, sess_frame (h_source p) (if_mac eif) CODE_PADS (cs_sess (Sessions v ! s)) (pads_body v eif n ts))],
      kid_exec = Some cl\<rparr>"
proof -
  obtain old where o: "requestedService v = kept_tag TAG_SERVICE_NAME ts old" using h(1) by (auto simp: has_read_def)
  then have r: "requestedService v = mk_tag TAG_SERVICE_NAME n" using h(2) by (simp add: kept_tag_def)
  have z: "(word_of_nat (length n) :: u16) = 0 \<longleftrightarrow> n = []" using h(3) by (simp add: word_unat_eq_iff)
  have gl: "length (granted v n) \<le> 1498" using fit by (simp add: pads_body_def)
  have svc: "pads_service (v\<lparr>srv_wire := []\<rparr>) = Some (mk_tag TAG_SERVICE_NAME (granted v n))"
    using r z gl by (auto simp: pads_service_def granted_def mk_tag_def Let_def)
  let ?a = "enc_tag TAG_SERVICE_NAME (granted v n)" let ?m = "max_bytes (if_mtu eif) (asked_payload ts)"
  have "put_tag False (mk_tag TAG_SERVICE_NAME (granted v n)) (length (granted v n)) (padt_buf []) = Some (Some (padt_buf ?a))"
    using put_enc(1) [of "granted v n" "[]" TAG_SERVICE_NAME] gl by (simp add: mk_tag_def)
  moreover have "unat (ntohs (tag_length (mk_tag TAG_SERVICE_NAME (granted v n)))) = length (granted v n)" using gl by (simp add: mk_tag_def)
  ultimately have e: "put_tag False (mk_tag TAG_SERVICE_NAME (granted v n)) (unat (ntohs (tag_length (mk_tag TAG_SERVICE_NAME (granted v n)))))
      (padt_buf []) = Some (Some (padt_buf ?a))" by simp
  let ?v = "v\<lparr>srv_wire := []\<rparr>"
  have mp: "max_ppp_payload v = asked_payload ts" "saved_ok (reqRelayId v)" "saved_ok (reqHostUniq v)"
    "saved_bytes (reqRelayId v) = enc_tags (map (Pair 0) (last_tag TAG_RELAY_SESSION_ID ts))"
    "saved_bytes (reqHostUniq v) = enc_tags (map (Pair 0) (last_tag TAG_HOST_UNIQ ts))" using h(1) by (simp_all add: has_read_def)
  let ?w = "?v\<lparr>max_ppp_payload := shrunk (if_mtu eif) (asked_payload ts)\<rparr>"
  have m: "max_payload_tag eif ?v (padt_buf ?a) = Some (?w, Some (padt_buf (?a @ ?m)))"
    using max_payload_tag_buf [of ?a eif ?v] fit gl mp(1) by (simp add: pads_body_def)
  have r1: "raw_tag (reqRelayId ?w) (padt_buf (?a @ ?m)) = Some (padt_buf (?a @ ?m @ saved_bytes (reqRelayId v)))"
    using raw_tag_buf [OF mp(2), of "?a @ ?m"] fit by (simp add: pads_body_def mp(4))
  have r2: "raw_tag (reqHostUniq ?w) (padt_buf (?a @ ?m @ saved_bytes (reqRelayId v))) = Some (padt_buf (pads_body v eif n ts))"
    using raw_tag_buf [OF mp(3), of "?a @ ?m @ saved_bytes (reqRelayId v)"] fit by (simp add: pads_body_def mp(4,5))
  have sn: "srv_send ?w (if_sock eif) ((disc_packet (h_source p) (if_mac eif) CODE_PADS)\<lparr>psession := cs_sess (Sessions v ! s)\<rparr>) (padt_buf (pads_body v eif n ts)) =
      Some (?w\<lparr>srv_wire := [(if_sock eif, sess_frame (h_source p) (if_mac eif) CODE_PADS (cs_sess (Sessions v ! s)) (pads_body v eif n ts))]\<rparr>)"
    using srv_send_buf [of "pads_body v eif n ts" ?w] fit by simp
  show ?thesis
    using s svc e m r1 r2 sn q by (simp add: padr_child_def start_buf ethif_of_def announce_def Let_def)
qed

section \<open>The four packets\<close>

lemma received_whole: "\<not> bogus_length p (int (plen p) + 20)"
proof -
  have "plen p < 65536" using unsigned_less [of "ntohs (plength p)"] by (simp add: plen_def)
  then show ?thesis by (simp add: bogus_length_iff)
qed

text \<open>The last frame sent, as \<open>recv\<close> delivers it: the packet and its size.\<close>

definition hear :: "byte_buf \<Rightarrow> (int \<times> byte_buf) list \<Rightarrow> packet \<times> int" where
  "hear old frames = (let p = received old (snd (last frames)) in (p, int (plen p) + 20))"

definition handshake ::
  "byte_buf \<Rightarrow> discovery \<Rightarrow> server \<Rightarrow> nat \<Rightarrow> int \<Rightarrow> pppd_config \<Rightarrow> (discovery \<times> server \<times> nat \<times> child) option" where
  "handshake old d v i pid g = do {
     d \<leftarrow> sendPADI d;
     (v, k) \<leftarrow> serverProcessPacket v i (case_prod Recv (hear old (wire (ses d)))) ForkFailed;
     d \<leftarrow> case_prod (got_pado d) (hear old (srv_wire v));
     d \<leftarrow> sendPADR d;
     (v, k) \<leftarrow> serverProcessPacket v i (case_prod Recv (hear old (wire (ses d)))) (Forked pid True);
     s \<leftarrow> k;
     kid \<leftarrow> padr_child v g s (received old (snd (last (wire (ses d)))));
     d \<leftarrow> case_prod (got_pads d) (hear old (kid_wire kid));
     Some (d, v, s, kid) }"

definition meets :: "discovery \<Rightarrow> server \<Rightarrow> iface \<Rightarrow> bool" where
  "meets d v eif \<longleftrightarrow> draining v = DRAIN_OFF \<and> FreeSessions v \<noteq> None \<and> \<not> full_for v (myEth (dconn d)) \<and>
     \<not> NOT_UNICAST (myEth (dconn d)) \<and> \<not> BROADCAST (if_mac eif) \<and> \<not> gone d \<and> \<not> printACNames d \<and>
     tag_type (cookie (dconn d)) = 0 \<and> tag_type (relayId (dconn d)) = 0 \<and>
     (acName d = None \<or> acName d = Some (ACName v)) \<and> (\<forall>n. serviceName d = Some n \<longrightarrow> n \<in> set (ServiceNames v)) \<and>
     length (ACName v) + length (services_body (offered_services v)) + length (sname d) + length (host_bytes (hostUniq (dconn d))) \<le> 1440"

lemma dispatch:
  assumes "vertype p = 0x11"
  shows "pcode p = CODE_PADI \<Longrightarrow> serverProcessPacket v i (Recv p (int (plen p) + 20)) fork =
      do { eif \<leftarrow> arr_get (interfaces v) i; v \<leftarrow> processPADI v eif p; Some (v, None) }"
    "pcode p = CODE_PADR \<Longrightarrow> serverProcessPacket v i (Recv p (int (plen p) + 20)) fork = processPADR v i p fork"
  using assms by (simp_all add: serverProcessPacket_def PPPOE_VER_def PPPOE_TYPE_def)

text \<open>The tags of the packets between the two.\<close>

definition padi_tags :: "discovery \<Rightarrow> (u16 \<times> byte_buf) list" where
  "padi_tags d = (if serviceName d = Some no_service_name then [] else [(TAG_SERVICE_NAME, sname d)]) @ host_tags (hostUniq (dconn d))"

lemma padi_tags_sent: "length (padi_body d) \<le> 1502 \<Longrightarrow> tvals (padi_body d) = padi_tags d"
  using tvals_enc [of TAG_HOST_UNIQ _ "[]"] tvals_enc [of TAG_SERVICE_NAME _ "[]"]
  by (cases "hostUniq (dconn d)") (auto simp: padi_body_def padi_tags_def host_bytes_def host_tags_def)

lemma last_host [simp]:
  "last_tag TAG_HOST_UNIQ (host_tags hu) = host_tags hu" "ty \<noteq> TAG_HOST_UNIQ \<Longrightarrow> last_tag ty (host_tags hu) = []"
  by (cases hu; simp add: host_tags_def last_tag_def)+

lemma last_tag_append: "last_tag ty (xs @ ys) = (if last_tag ty ys = [] then last_tag ty xs else last_tag ty ys)"
proof (induction ys rule: rev_induct)
  case (snoc y ys)
  then show ?case by (simp add: last_tag_snoc append_assoc [symmetric] del: append_assoc)
qed (simp add: last_tag_def)

lemma last_tag_Cons: "last_tag ty (x # xs) = (if last_tag ty xs = [] then (if fst x = ty then [x] else []) else last_tag ty xs)"
  using last_tag_append [of ty "[x]" xs] by (simp add: last_tag_def)

lemma last_tag_Nil [simp]: "last_tag ty [] = []"
  by (simp add: last_tag_def)

lemma last_services: "ty \<noteq> TAG_SERVICE_NAME \<Longrightarrow> last_tag ty (map (Pair TAG_SERVICE_NAME) ns) = []"
  by (induction ns) (simp_all add: last_tag_Cons)

lemma enc_host: "enc_tags (map (Pair 0) (host_tags hu)) = host_bytes hu"
  by (cases hu) (simp_all add: host_tags_def host_bytes_def)

lemma no_payload: "\<forall>t\<in>set ts. fst t \<noteq> TAG_PPP_MAX_PAYLOAD \<Longrightarrow> asked_payload ts = 0"
proof -
  assume "\<forall>t\<in>set ts. fst t \<noteq> TAG_PPP_MAX_PAYLOAD"
  then have "fold max_payload_step ts m = m" for m by (induction ts arbitrary: m) (simp_all add: max_payload_step_def)
  then show ?thesis by (simp add: asked_payload_def)
qed

lemma host_types: "t \<in> set (host_tags hu) \<Longrightarrow> fst t = TAG_HOST_UNIQ"
  by (cases hu) (simp_all add: host_tags_def)

definition pado_tags :: "discovery \<Rightarrow> server \<Rightarrow> iface \<Rightarrow> (u16 \<times> byte_buf) list" where
  "pado_tags d v eif = (TAG_AC_NAME, ACName v) # map (Pair TAG_SERVICE_NAME) (offered_services v) @
     [(TAG_AC_COOKIE, the_cookie v (myEth (dconn d)) (if_mac eif))] @ host_tags (hostUniq (dconn d))"

definition padr_tags_of :: "discovery \<Rightarrow> server \<Rightarrow> iface \<Rightarrow> (u16 \<times> byte_buf) list" where
  "padr_tags_of d v eif = (TAG_SERVICE_NAME, sname d) # host_tags (hostUniq (dconn d)) @
     [(TAG_AC_COOKIE, the_cookie v (myEth (dconn d)) (if_mac eif))]"

lemma padi_tags_last:
  "last_tag TAG_RELAY_SESSION_ID (padi_tags d) = []" "last_tag TAG_HOST_UNIQ (padi_tags d) = host_tags (hostUniq (dconn d))"
  "asked_payload (padi_tags d) = 0"
  "last_tag TAG_SERVICE_NAME (padi_tags d) = (if serviceName d = Some no_service_name then [] else [(TAG_SERVICE_NAME, sname d)])"
proof -
  show "asked_payload (padi_tags d) = 0" by (rule no_payload) (auto simp: padi_tags_def dest: host_types)
qed (simp_all add: padi_tags_def last_tag_append last_tag_Cons)

lemma pado_tags_last:
  "last_tag TAG_RELAY_SESSION_ID (pado_tags d v eif) = []"
  "last_tag TAG_AC_COOKIE (pado_tags d v eif) = [(TAG_AC_COOKIE, the_cookie v (myEth (dconn d)) (if_mac eif))]"
  by (simp_all add: pado_tags_def last_tag_append last_tag_Cons last_services)

lemma padr_tags_last:
  "last_tag TAG_RELAY_SESSION_ID (padr_tags_of d v eif) = []" "last_tag TAG_HOST_UNIQ (padr_tags_of d v eif) = host_tags (hostUniq (dconn d))"
  "last_tag TAG_SERVICE_NAME (padr_tags_of d v eif) = [(TAG_SERVICE_NAME, sname d)]" "asked_payload (padr_tags_of d v eif) = 0"
  "last_tag TAG_AC_COOKIE (padr_tags_of d v eif) = [(TAG_AC_COOKIE, the_cookie v (myEth (dconn d)) (if_mac eif))]"
proof -
  show "asked_payload (padr_tags_of d v eif) = 0" by (rule no_payload) (auto simp: padr_tags_of_def dest: host_types)
qed (simp_all add: padr_tags_of_def last_tag_append last_tag_Cons)

lemma service_served:
  assumes "meets d v eif"
  shows "sname d = [] \<or> sname d \<in> set (ServiceNames v)"
  using assms by (auto simp: meets_def sname_def split: option.splits)

lemma max_bytes_0 [simp]: "max_bytes m 0 = []"
  by (simp add: max_bytes_def)

lemma host_size: "length (enc_tags (map (Pair 0) (host_tags hu))) = length (host_bytes hu)"
  by (simp add: enc_host)

lemma offer_made:
  assumes inv: "srv_inv v" and e: "arr_get (interfaces v) i = Some eif" and m: "meets d v eif" and old: "length old = 1508"
  defines "f \<equiv> disc_frame (Mac 0xFF 0xFF 0xFF 0xFF 0xFF 0xFF) (myEth (dconn d)) CODE_PADI (padi_body d)"
  shows "\<exists>v1 body. serverProcessPacket v i (case_prod Recv (hear old [(sk, f)])) ForkFailed = Some (v1, None) \<and> quiet v1 = quiet v \<and>
    srv_wire v1 = srv_wire v @ [(if_sock eif, disc_frame (myEth (dconn d)) (if_mac eif) CODE_PADO body)] \<and>
    length body \<le> 1502 \<and> tvals body = pado_tags d v eif"
proof -
  have b: "length (padi_body d) \<le> 1502" using m by (simp add: meets_def padi_body_def)
  note r = received_frame [OF old b refl, of "Mac 0xFF 0xFF 0xFF 0xFF 0xFF 0xFF" "myEth (dconn d)" CODE_PADI 0, unfolded sess_frame_0, folded f_def]
  let ?p = "received old f"
  have t: "tags_of ?p = padi_tags d" using r(8) padi_tags_sent [OF b] by simp
  note l = padi_tags_last [of d, folded t]
  let ?body = "offer_body v eif (myEth (dconn d)) (tags_of ?p)"
  have n: "length ?body \<le> 1502" unfolding offer_body_def l using m by (simp add: meets_def host_size)
  have s: "serves v (tags_of ?p)" unfolding serves_def l using service_served [OF m] by auto
  have a: "answers_padi v eif ?p" using m s n r(2) by (auto simp: answers_padi_def meets_def)
  have c: "config_ok v" using inv by (rule srv_invE)
  have tv: "tvals ?body = pado_tags d v eif"
    unfolding offer_tags_sent [OF c] offer_tags_def l by (simp add: max_tags_def pado_tags_def)
  from processPADI_ok [OF inv r(6), of eif] a r(2) obtain v1 where v1: "processPADI v eif ?p = Some v1" "quiet v1 = quiet v"
    "srv_wire v1 = srv_wire v @ [(if_sock eif, disc_frame (myEth (dconn d)) (if_mac eif) CODE_PADO ?body)]" by auto
  have "serverProcessPacket v i (case_prod Recv (hear old [(sk, f)])) ForkFailed = Some (v1, None)"
    using dispatch(1) [OF r(7,3)] e v1(1) by (simp add: hear_def Let_def)
  then show ?thesis using v1 n tv by blast
qed

lemma offer_accepted:
  assumes m: "meets d v eif" and old: "length old = 1508" and b: "length body \<le> 1502" "tvals body = pado_tags d v eif"
  defines "f \<equiv> disc_frame (myEth (dconn d)) (if_mac eif) CODE_PADO body"
  shows "\<exists>d' body. case_prod (got_pado d) (hear old [(sk, f)]) = Some d' \<and> length body \<le> 1502 \<and> tvals body = padr_tags_of d v eif \<and>
    sendPADR d' = Some (sent (discoverySocket (dconn d), disc_frame (if_mac eif) (myEth (dconn d)) CODE_PADR body) d') \<and>
    myEth (dconn d') = myEth (dconn d) \<and> hostUniq (dconn d') = hostUniq (dconn d) \<and> peerEth (dconn d') = if_mac eif \<and> wire (ses d') = wire (ses d)"
proof -
  note r = received_frame [OF old b(1) refl, of "myEth (dconn d)" "if_mac eif" CODE_PADO 0, unfolded sess_frame_0, folded f_def]
  let ?p = "received old f"
  have t: "tags_of ?p = pado_tags d v eif" using r(8) b(2) by simp
  have hu: "(TAG_HOST_UNIQ, hu) \<in> set (tags_of ?p)" if "hostUniq (dconn d) = Some hu" for hu
    using that by (simp add: t pado_tags_def host_tags_def)
  have o: "offered d ?p (int (plen ?p) + 20)" using r hu m received_whole [of ?p] by (simp add: offered_def for_client_def meets_def)
  have a: "acceptable d (tags_of ?p)"
  proof -
    have "\<not> is_error (fst x)" if "x \<in> set (tags_of ?p)" for x
      using that host_types [of x "hostUniq (dconn d)"] by (auto simp: t pado_tags_def is_error_def)
    moreover have "\<exists>n. (TAG_SERVICE_NAME, n) \<in> set (tags_of ?p)"
      by (cases "ServiceNames v") (auto simp: t pado_tags_def offered_services_def)
    moreover have "(TAG_SERVICE_NAME, n) \<in> set (tags_of ?p)" if "serviceName d = Some n" for n
      using that m by (auto simp: t pado_tags_def offered_services_def meets_def)
    moreover have "(TAG_AC_NAME, ACName v) \<in> set (tags_of ?p)" by (simp add: t pado_tags_def)
    ultimately show ?thesis using m by (fastforce simp: acceptable_def meets_def)
  qed
  note l = pado_tags_last [of d v eif, folded t]
  have "length (enc_tag TAG_SERVICE_NAME (sname d) @ host_bytes (hostUniq (dconn d)) @
      enc_tags (map (Pair 0) (last_tag TAG_AC_COOKIE (tags_of ?p) @ last_tag TAG_RELAY_SESSION_ID (tags_of ?p)))) \<le> 1502"
    unfolding l using m by (simp add: meets_def)
  from offer_answered [OF r(6) o a _ _ _ _ this] m obtain k body' where k: "got_pado d ?p (int (plen ?p) + 20) = Some (taken d ?p k)" "length body' \<le> 1502"
    "sendPADR (taken d ?p k) = Some (sent (discoverySocket (dconn d), disc_frame (h_source ?p) (myEth (dconn d)) CODE_PADR body') (taken d ?p k))"
    "tvals body' = (TAG_SERVICE_NAME, sname d) # host_tags (hostUniq (dconn d)) @
      last_tag TAG_AC_COOKIE (tags_of ?p) @ last_tag TAG_RELAY_SESSION_ID (tags_of ?p)" by (auto simp: meets_def)
  have "tvals body' = padr_tags_of d v eif" unfolding k(4) l by (simp add: padr_tags_of_def)
  then show ?thesis using k(1-3) r(2) by (intro exI [of _ "taken d ?p k"] exI [of _ body']) (simp add: taken_kept hear_def Let_def)
qed

lemma session_given:
  assumes inv: "srv_inv v" and e: "arr_get (interfaces v) i = Some eif" and m: "meets d v eif" and old: "length old = 1508"
    and b: "length body \<le> 1502" "tvals body = padr_tags_of d v eif" and g: "hurl_string g = None" "motd_string g = None"
  defines "f \<equiv> disc_frame (if_mac eif) (myEth (dconn d)) CODE_PADR body"
  shows "\<exists>s v' body cl. FreeSessions v = Some s \<and> serverProcessPacket v i (case_prod Recv (hear old [(sk, f)])) (Forked pid True) = Some (v', Some s) \<and> srv_inv v' \<and>
    padr_child v' g s (received old f) = Some \<lparr>kid_wire = [(if_sock eif,
       sess_frame (myEth (dconn d)) (if_mac eif) CODE_PADS (cs_sess (Sessions v' ! s)) body)], kid_exec = Some cl\<rparr> \<and>
    length body \<le> 1502 \<and> tvals body = (TAG_SERVICE_NAME, granted v (sname d)) # host_tags (hostUniq (dconn d)) \<and>
    slot_opened v i s (myEth (dconn d)) (sname d) pid v'"
proof -
  note r = received_frame [OF old b(1) refl, of "if_mac eif" "myEth (dconn d)" CODE_PADR 0, unfolded sess_frame_0, folded f_def]
  let ?p = "received old f"
  have t: "tags_of ?p = padr_tags_of d v eif" using r(8) b(2) by simp
  note l = padr_tags_last [of d v eif, folded t]
  have small: "length (ACName v) + length (services_body (offered_services v)) + length (sname d) + length (host_bytes (hostUniq (dconn d))) \<le> 1440"
    using m by (simp add: meets_def)
  have fit: "reply_size (tags_of ?p) \<le> 1455" unfolding reply_size_def l using small by (simp add: host_size)
  have acc: "padr_accepted v eif ?p"
    unfolding padr_accepted_def cookie_valid_def serves_def l using m r service_served [OF m] by (auto simp: meets_def)
  obtain free busy where q: "pool v free busy" using inv by (rule srv_invE)
  obtain s fs where fr: "free = s # fs" "FreeSessions v = Some s"
    using m pool_free_head [OF q] by (cases free) (auto simp: meets_def)
  from padr_outcome [OF inv r(6) e fit q, of "Forked pid True"] acc fr r(2) l obtain v' where v': "processPADR v i ?p (Forked pid True) = Some (v', Some s)"
    "srv_inv v'" "pool v' fs (s # busy)" "has_read v' (tags_of ?p)" "interfaces v' = interfaces v" "ServiceNames v' = ServiceNames v"
    "slot_opened v i s (myEth (dconn d)) (sname d) pid v'" by auto
  have s: "s < length (Sessions v')" "cs_ethif (Sessions v' ! s) = Some i" using pool_slot [OF v'(3), of s] v'(7) by (simp_all add: slot_opened_def Let_def)
  have n: "length (sname d) < 65536" using small by simp
  let ?b = "pads_body v' eif (sname d) (tags_of ?p)"
  have gr: "granted v' (sname d) = granted v (sname d)" by (simp add: granted_def v'(6))
  have "length (hd (ServiceNames v)) \<le> length (services_body (offered_services v))" if "ServiceNames v \<noteq> []"
    using that by (cases "ServiceNames v") (simp_all add: services_body_def offered_services_def)
  then have gl: "length (granted v (sname d)) \<le> 1440" using small by (auto simp: granted_def)
  have "length (granted v (sname d)) + length (host_bytes (hostUniq (dconn d))) \<le> 1440"
    using small \<open>_ \<Longrightarrow> length (hd _) \<le> _\<close> by (auto simp: granted_def)
  then have bl: "length ?b \<le> 1502" unfolding pads_body_def l gr by (simp add: host_size)
  have hl: "length (host_bytes (hostUniq (dconn d))) \<le> 1440" using small by simp
  have "tvals (host_bytes (hostUniq (dconn d))) = host_tags (hostUniq (dconn d))"
    using hl tvals_enc [of TAG_HOST_UNIQ _ "[]"] by (cases "hostUniq (dconn d)") (auto simp: host_bytes_def host_tags_def)
  then have tv: "tvals ?b = (TAG_SERVICE_NAME, granted v (sname d)) # host_tags (hostUniq (dconn d))"
    unfolding pads_body_def l gr using gl by (simp add: enc_host)
  from padr_child_ok [OF s _ v'(4) l(3) n bl g, of ?p] e v'(5) r(2) obtain cl where
    "padr_child v' g s ?p = Some \<lparr>kid_wire = [(if_sock eif, sess_frame (myEth (dconn d)) (if_mac eif) CODE_PADS (cs_sess (Sessions v' ! s)) ?b)], kid_exec = Some cl\<rparr>"
    by auto
  moreover have "serverProcessPacket v i (case_prod Recv (hear old [(sk, f)])) (Forked pid True) = Some (v', Some s)"
    using dispatch(2) [OF r(7,3)] v'(1) by (simp add: hear_def Let_def)
  ultimately show ?thesis using fr(2) v'(2,7) bl tv by blast
qed

lemma pads_tags_quiet:
  assumes "\<forall>(ty, data)\<in>set ts. ty = TAG_SERVICE_NAME \<or> ty = TAG_HOST_UNIQ"
  shows "fold (\<lambda>(ty, data). parsePADSTags ty (word_of_nat (length data)) data) ts d = d"
  using assms by (induction ts) (auto simp: parsePADSTags_def)

lemma session_entered:
  fixes sess :: u16
  assumes old: "length old = 1508" and b: "length body \<le> 1502" "tvals body = (TAG_SERVICE_NAME, n) # host_tags (hostUniq (dconn d))"
  defines "f \<equiv> sess_frame (myEth (dconn d)) (peerEth (dconn d)) CODE_PADS sess body"
  shows "case_prod (got_pads d) (hear old [(sk, f)]) = Some (upd_conn (\<lambda>c. c\<lparr>session_id := sess\<rparr>) (d\<lparr>PADSHadError := False, discoveryState := STATE_SESSION\<rparr>))"
proof -
  note r = received_frame [OF old b(1) refl, of "myEth (dconn d)" "peerEth (dconn d)" CODE_PADS sess, folded f_def]
  let ?p = "received old f"
  have t: "tags_of ?p = (TAG_SERVICE_NAME, n) # host_tags (hostUniq (dconn d))" using r(8) b(2) by simp
  have "(TAG_HOST_UNIQ, hu) \<in> set (tags_of ?p)" if "hostUniq (dconn d) = Some hu" for hu using that by (simp add: t host_tags_def)
  then have me: "packetIsForMe (dconn d) ?p = Some True" using r(1) packetIsForMe_eq [OF r(6)] by (simp add: for_client_def)
  have "\<forall>(ty, data)\<in>set (tags_of ?p). ty = TAG_SERVICE_NAME \<or> ty = TAG_HOST_UNIQ"
    using host_types [of _ "hostUniq (dconn d)"] by (auto simp: t)
  from parsePacket_tags [OF r(6), of parsePADSTags] pads_tags_quiet [OF this] obtain rc where
    "parsePacket ?p parsePADSTags (d\<lparr>PADSHadError := False\<rparr>) = Some (rc, d\<lparr>PADSHadError := False\<rparr>)" by fastforce
  then show ?thesis using r me received_whole [of ?p] by (simp add: got_pads_def hear_def Let_def)
qed

text \<open>An offer leaves the server's answers to others as they are.\<close>

lemma quiet_same:
  assumes q: "quiet v1 = quiet v" and inv: "srv_inv v"
  shows "full_for v1 = full_for v" "padr_tags_of d v1 eif = padr_tags_of d v eif" "the_cookie v1 = the_cookie v"
    "offered_services v1 = offered_services v" "granted v1 = granted v"
proof -
  note c = quietD [OF q] staticD [OF quietD(1) [OF q]]
  obtain free busy where p: "pool v free busy" using inv by (rule srv_invE)
  have "pool v1 free busy" by (rule pool_cong [OF p]) (simp_all add: c)
  moreover have "from_mac v1 busy eth = from_mac v busy eth" for eth by (simp add: from_mac_def c)
  ultimately show "full_for v1 = full_for v" using too_many_eq p by (simp add: full_for_def fun_eq_iff c)
  show k: "the_cookie v1 = the_cookie v" by (simp add: the_cookie_def fun_eq_iff c)
  show "padr_tags_of d v1 eif = padr_tags_of d v eif" by (simp add: padr_tags_of_def k)
qed (simp_all add: offered_services_def granted_def fun_eq_iff quietD [OF q] staticD [OF quietD(1) [OF q]])

lemma hear_last: "hear old (fs @ [x]) = hear old [x]"
  by (simp add: hear_def)

text \<open>
  C4: client and server agree. For a client and a well-formed server that want each other, the four packets from PADI to
  PADS, each received byte for byte as it was sent, bring the client into the session phase with the server's address
  and a session number, and the server's slot of that number holds the client's address, the service it asked for and
  the child; the child's program is started.
\<close>

theorem handshake_agrees:
  assumes "srv_inv v" "arr_get (interfaces v) i = Some eif" "meets d v eif" "length old = 1508"
    and "hurl_string g = None" "motd_string g = None"
  shows "\<exists>d' v' s kid. handshake old d v i pid g = Some (d', v', s, kid) \<and> srv_inv v' \<and> FreeSessions v = Some s \<and>
    discoveryState d' = STATE_SESSION \<and> peerEth (dconn d') = if_mac eif \<and>
    session_id (dconn d') = cs_sess (Sessions v' ! s) \<and> cs_sess (Sessions v' ! s) = cs_sess (Sessions v ! s) \<and>
    cs_eth (Sessions v' ! s) = myEth (dconn d) \<and> cs_serviceName (Sessions v' ! s) = Some (sname d) \<and>
    cs_pid (Sessions v' ! s) = pid \<and> kid_exec kid \<noteq> None"
proof -
  have b: "length (padi_body d) \<le> 1502" using assms(3) by (simp add: meets_def padi_body_def)
  let ?f1 = "(discoverySocket (dconn d), disc_frame (Mac 0xFF 0xFF 0xFF 0xFF 0xFF 0xFF) (myEth (dconn d)) CODE_PADI (padi_body d))"
  let ?d = "sent ?f1 d"
  have d: "dconn ?d = dconn d" "wire (ses ?d) = wire (ses d) @ [?f1]" "sname ?d = sname d" by (simp_all add: sent_def sname_def)
  have md: "meets ?d v eif" using assms(3) by (simp add: meets_def gone_def sent_def sname_def)
  from offer_made [OF assms(1-4), of "discoverySocket (dconn d)"] obtain v1 b1 where
    v1: "serverProcessPacket v i (case_prod Recv (hear old [?f1])) ForkFailed = Some (v1, None)" "quiet v1 = quiet v"
      "srv_wire v1 = srv_wire v @ [(if_sock eif, disc_frame (myEth (dconn d)) (if_mac eif) CODE_PADO b1)]" and
    b1: "length b1 \<le> 1502" "tvals b1 = pado_tags d v eif" by blast
  have tags: "pado_tags ?d v eif = pado_tags d v eif" "padr_tags_of ?d v eif = padr_tags_of d v eif"
    by (simp_all only: pado_tags_def padr_tags_of_def d)
  from offer_accepted [OF md assms(4) b1(1), unfolded tags d, OF b1(2), of "if_sock eif"] obtain d2 b2 where
    d2: "case_prod (got_pado ?d) (hear old [(if_sock eif, disc_frame (myEth (dconn d)) (if_mac eif) CODE_PADO b1)]) = Some d2" and
    b2: "length b2 \<le> 1502" "tvals b2 = padr_tags_of d v eif" and
    s2: "sendPADR d2 = Some (sent (discoverySocket (dconn d), disc_frame (if_mac eif) (myEth (dconn d)) CODE_PADR b2) d2)"
      "myEth (dconn d2) = myEth (dconn d)" "hostUniq (dconn d2) = hostUniq (dconn d)" "peerEth (dconn d2) = if_mac eif" by auto
  let ?f3 = "(discoverySocket (dconn d), disc_frame (if_mac eif) (myEth (dconn d)) CODE_PADR b2)"
  let ?d3 = "sent ?f3 d2"
  note c = quietD [OF v1(2)] staticD [OF quietD(1) [OF v1(2)]]
  have inv1: "srv_inv v1" by (rule quiet_inv [OF v1(2) assms(1)])
  note same = quiet_same [OF v1(2) assms(1)]
  have m1: "meets d v1 eif" using assms(3) by (simp add: meets_def same c)
  have e1: "arr_get (interfaces v1) i = Some eif" using assms(2) by (simp add: c)
  from session_given [OF inv1 e1 m1 assms(4) b2(1) b2(2) [folded same(2)] assms(5,6), of "discoverySocket (dconn d)" pid] obtain s v2 b4 cl where
    v2: "FreeSessions v1 = Some s" "serverProcessPacket v1 i (case_prod Recv (hear old [?f3])) (Forked pid True) = Some (v2, Some s)" "srv_inv v2"
      "padr_child v2 g s (received old (snd ?f3)) = Some \<lparr>kid_wire = [(if_sock eif,
         sess_frame (myEth (dconn d)) (if_mac eif) CODE_PADS (cs_sess (Sessions v2 ! s)) b4)], kid_exec = Some cl\<rparr>"
      "length b4 \<le> 1502" "tvals b4 = (TAG_SERVICE_NAME, granted v1 (sname d)) # host_tags (hostUniq (dconn d))"
      "slot_opened v1 i s (myEth (dconn d)) (sname d) pid v2" by auto
  have d3: "dconn ?d3 = dconn d2" "wire (ses ?d3) = wire (ses d2) @ [?f3]" by (simp_all add: sent_def)
  let ?d4 = "upd_conn (\<lambda>c. c\<lparr>session_id := cs_sess (Sessions v2 ! s)\<rparr>) (?d3\<lparr>PADSHadError := False, discoveryState := STATE_SESSION\<rparr>)"
  have d4: "case_prod (got_pads ?d3) (hear old [(if_sock eif, sess_frame (myEth (dconn d)) (if_mac eif) CODE_PADS (cs_sess (Sessions v2 ! s)) b4)]) = Some ?d4"
    using session_entered [OF assms(4) v2(5), of "granted v1 (sname d)" ?d3 "if_sock eif" "cs_sess (Sessions v2 ! s)"] v2(6) s2 d3 by simp
  have p3: "received old (snd (last (wire (ses ?d3)))) = received old (snd ?f3)" by (simp add: d3)
  have run: "handshake old d v i pid g = Some (?d4, v2, s, \<lparr>kid_wire = [(if_sock eif,
         sess_frame (myEth (dconn d)) (if_mac eif) CODE_PADS (cs_sess (Sessions v2 ! s)) b4)], kid_exec = Some cl\<rparr>)"
    unfolding handshake_def sendPADI_ok [OF b] bind.bind_lunit d(2) hear_last v1(1) prod.case v1(3) d2 s2(1) d3(2) v2(2)
    using v2(4) d4 by simp
  have "dconn ?d4 = (dconn d2)\<lparr>session_id := cs_sess (Sessions v2 ! s)\<rparr>" "discoveryState ?d4 = STATE_SESSION" by (simp_all add: upd_conn_def sent_def)
  then show ?thesis
    using run v2(1,3,7) s2(4) by (intro exI [of _ ?d4] exI [of _ v2] exI [of _ s] exI) (auto simp: slot_opened_def Let_def c)
qed

definition example_client :: discovery where
  "example_client = upd_conn (\<lambda>c. c\<lparr>myEth := example_host\<rparr>) ex_disc"

definition example_config :: pppd_config where
  "example_config = \<lparr>UseLinuxKernelModePPPoE = False, plugin_path = [], pppd_path = msg_bytes ''/usr/sbin/pppd'', pppoe_path = msg_bytes ''pppoe'',
     PppoeOptions = [], Synchronous = False, pppoptfile = msg_bytes ''options'', PassUnitOptionToPPPD = False, motd_string = None, hurl_string = None\<rparr>"

lemma handshake_agrees_witness:
  "\<exists>d' v' kid. handshake (replicate 1508 9) example_client example_ready 0 99 example_config = Some (d', v', 0, kid) \<and>
     discoveryState d' = STATE_SESSION \<and> session_id (dconn d') = htons 1 \<and> cs_eth (Sessions v' ! 0) = example_host"
proof -
  have m: "meets example_client example_ready example_iface"
    using example_not_full [of example_host]
    by (simp add: meets_def example_client_def ex_disc_def upd_conn_def gone_def sname_def services_body_def offered_services_def host_bytes_def
      example_iface_def msg_bytes_def) (simp add: example_host_def)
  have e: "arr_get (interfaces example_ready) 0 = Some example_iface" by (simp add: arr_get_def)
  have c: "myEth (dconn example_client) = example_host" by (simp add: example_client_def upd_conn_def)
  have s: "cs_sess (Sessions example_ready ! 0) = htons 1" by (simp add: example_ready_def)
  from handshake_agrees [OF example_inv e m, of "replicate 1508 9" example_config 99] show ?thesis
    by (simp add: example_config_def c) (use s in force)
qed

end
